(* ===== verification/Espos_Prelude.thy ===== *)
theory Espos_Prelude
  imports Main "HOL-Library.Word"
begin

text \<open>
  What the component theories share: the widths of the C integers the sources use, the
  \<open>esp_err_t\<close> codes, the fixed-size character buffers and their truncating copies, the
  wrapping millisecond clock with its signed-difference comparison, and the generic lemmas
  on lists and words that the component proofs rest on.

  \<^item> \<open>uint8_t\<close>, \<open>uint16_t\<close>, \<open>uint32_t\<close>, \<open>uint64_t\<close> are words of their width.
    The cast \<open>(int32_t)x\<close> of the sources is \<open>sint\<close>.
  \<^item> a \<open>char buf[N]\<close> that holds a C string is the \<open>string\<close> in front of its
    terminating NUL; \<open>snprintf(buf, N, "%s", s)\<close> keeps the first \<open>N - 1\<close> bytes.
  \<^item> a \<open>void\<close> operation on a state is a function from the state to the state; a table of
    port functions is a \<open>record\<close> of functions on the port's own context.
\<close>

type_synonym u8 = "8 word"
type_synonym u16 = "16 word"
type_synonym u32 = "32 word"
type_synonym u64 = "64 word"
type_synonym i8 = "8 word"

text \<open>A port's clock: a reading and the context after it, so that two readings may differ.\<close>

type_synonym 'c clock = "'c \<Rightarrow> u32 \<times> 'c"

abbreviation UINT32_MAX :: u32 where
  "UINT32_MAX \<equiv> 4294967295"

text \<open>The error codes the modelled sources return or compare with.\<close>

datatype esp_err =
    ESP_OK
  | ESP_FAIL
  | ESP_ERR_NO_MEM
  | ESP_ERR_INVALID_ARG
  | ESP_ERR_INVALID_STATE
  | ESP_ERR_INVALID_SIZE
  | ESP_ERR_NOT_FOUND
  | ESP_ERR_TIMEOUT
  | ESP_ERR_CODE nat

named_theorems frame \<open>what an operation leaves unchanged\<close>
named_theorems keeps \<open>operations that keep an invariant\<close>

subsection \<open>Words\<close>

lemma unat_u32_less [simp]: "unat (a :: u32) < 4294967296"
  using unsigned_less [of a, where ?'a = nat] by simp

lemma uint_u32_less [simp]: "uint (a :: u32) < 4294967296"
  using uint_lt2p [of a] by simp

lemma unat_add_u32: "unat (a :: u32) + unat b < 4294967296 \<Longrightarrow> unat (a + b) = unat a + unat b"
  by (simp add: unat_word_ariths)

lemma unat_sub_u32: "(b :: u32) \<le> a \<Longrightarrow> unat (a - b) = unat a - unat b"
  by (rule unat_sub)

lemma unat_max_minus: "unat (UINT32_MAX - a) = 4294967295 - unat a"
proof -
  have "unat a \<le> unat UINT32_MAX" using unat_u32_less [of a] by (simp del: unat_u32_less)
  then have "a \<le> UINT32_MAX" by (simp only: word_le_nat_alt)
  then show ?thesis by (simp add: unat_sub_u32)
qed

subsection \<open>Fixed-size character buffers\<close>

definition cbuf :: "nat \<Rightarrow> string \<Rightarrow> string" where
  "cbuf n s = take (n - 1) s"

lemma length_cbuf: "0 < n \<Longrightarrow> length (cbuf n s) < n"
  by (simp add: cbuf_def)

lemma cbuf_fits [simp]: "length s < n \<Longrightarrow> cbuf n s = s"
  by (simp add: cbuf_def)

lemma cbuf_idem [simp]: "cbuf n (cbuf n s) = cbuf n s"
  by (simp add: cbuf_def)

lemma cbuf_Nil [simp]: "cbuf n [] = []"
  by (simp add: cbuf_def)

lemma cbuf_eq_Nil [simp]: "2 \<le> n \<Longrightarrow> cbuf n s = [] \<longleftrightarrow> s = []"
  by (auto simp: cbuf_def)

subsection \<open>C strings\<close>

text \<open>\<open>strstr(hay, needle) != NULL\<close>.\<close>

fun strstr :: "string \<Rightarrow> string \<Rightarrow> bool" where
  "strstr [] needle = (needle = [])"
| "strstr (c # hay) needle = (take (length needle) (c # hay) = needle \<or> strstr hay needle)"

text \<open>
  A C string in memory, its bytes and a NUL, and what is read back from bytes.
\<close>

definition cstr_bytes :: "string \<Rightarrow> u8 list" where
  "cstr_bytes s = map (\<lambda>c. of_nat (of_char c)) s @ [0]"

definition bytes_cstr :: "u8 list \<Rightarrow> string" where
  "bytes_cstr bs = map (\<lambda>b. char_of (unat b)) (takeWhile (\<lambda>b. b \<noteq> 0) bs)"

text \<open>No character of a C string is its terminator.\<close>

definition c_string :: "string \<Rightarrow> bool" where
  "c_string s \<longleftrightarrow> CHR 0x00 \<notin> set s"

lemma unat_of_char_u8 [simp]: "unat (of_nat (of_char c) :: u8) = of_char c"
proof -
  have "(of_char c :: nat) < 256" by simp
  then show ?thesis by (simp add: unat_of_nat)
qed

lemma of_char_u8_eq_0: "(of_nat (of_char c) :: u8) = 0 \<longleftrightarrow> c = CHR 0x00"
proof -
  have "(of_nat (of_char c) :: u8) = 0 \<longleftrightarrow> (of_char c :: nat) = 0"
    using unat_of_char_u8 [of c] by (metis unat_0 unat_eq_zero)
  also have "\<dots> \<longleftrightarrow> c = CHR 0x00"
  proof
    assume "(of_char c :: nat) = 0"
    then have "c = char_of (0 :: nat)" by (metis char_of_char)
    then show "c = CHR 0x00" by (simp add: char_of_def)
  qed (simp add: of_char_def)
  finally show ?thesis .
qed

lemma bytes_cstr_bytes [simp]: "c_string s \<Longrightarrow> bytes_cstr (cstr_bytes s) = s"
proof -
  assume "c_string s"
  then have "takeWhile (\<lambda>b. b \<noteq> 0) (cstr_bytes s) = map (\<lambda>c. of_nat (of_char c)) s"
    by (subst cstr_bytes_def, subst takeWhile_append2) (auto simp: c_string_def of_char_u8_eq_0)
  then show ?thesis by (simp add: bytes_cstr_def comp_def)
qed

lemma length_cstr_bytes [simp]: "length (cstr_bytes s) = length s + 1"
  by (simp add: cstr_bytes_def)

text \<open>\<open>%u\<close> and \<open>%d\<close>.\<close>

definition digit :: "nat \<Rightarrow> char" where
  "digit d = char_of (48 + d)"

fun dec_of_nat :: "nat \<Rightarrow> string" where
  "dec_of_nat n = (if n < 10 then [digit n] else dec_of_nat (n div 10) @ [digit (n mod 10)])"

declare dec_of_nat.simps [simp del]

definition dec_of_int :: "int \<Rightarrow> string" where
  "dec_of_int i = (if i < 0 then CHR ''-'' # dec_of_nat (nat (- i)) else dec_of_nat (nat i))"

subsection \<open>The wrapping clock\<close>

text \<open>
  \<open>(int32_t)(a - b) >= 0\<close>: \<open>a\<close> is at or after \<open>b\<close> on a clock that wraps. The
  sources write it out in each component; auth_policy.c and espos_sched.h name it
  \<open>reached\<close>.
\<close>

definition reached :: "u32 \<Rightarrow> u32 \<Rightarrow> bool" where
  "reached a b \<longleftrightarrow> 0 \<le> sint (a - b)"

lemma sint_nonneg_iff: "0 \<le> sint (w :: u32) \<longleftrightarrow> uint w < 2 ^ 31"
proof -
  have lt: "uint w < 2 ^ 32" using uint_lt2p [of w] by simp
  have "bit (uint w) 31 \<longleftrightarrow> \<not> uint w < 2 ^ 31"
  proof
    assume "bit (uint w) 31"
    then have "odd (uint w div 2 ^ 31)" by (simp add: bit_iff_odd)
    then have "uint w div 2 ^ 31 \<noteq> 0" by (metis even_zero)
    then show "\<not> uint w < 2 ^ 31" by auto
  next
    assume "\<not> uint w < 2 ^ 31"
    with lt have "uint w div 2 ^ 31 = 1" by (simp add: div_pos_geq)
    then show "bit (uint w) 31" by (simp add: bit_iff_odd)
  qed
  with lt show ?thesis
    by (auto simp: sint_uint signed_take_bit_eq_if_positive signed_take_bit_eq_if_negative)
qed

lemma sint_of_small: "uint (w :: u32) < 2 ^ 31 \<Longrightarrow> sint w = uint w"
  using sint_nonneg_iff [of w] uint_lt2p [of w]
  by (simp add: sint_uint signed_take_bit_eq_if_positive bit_iff_odd take_bit_int_eq_self)

lemma reached_iff: "reached a b \<longleftrightarrow> uint (a - b) < 2 ^ 31"
  by (simp add: reached_def sint_nonneg_iff)

lemma reached_refl [simp]: "reached a a"
  by (simp add: reached_def)

text \<open>A deadline less than half the clock's range ahead is not reached before its time.\<close>

lemma uint_add_small: "uint (a :: u32) + uint b < 2 ^ 32 \<Longrightarrow> uint (a + b) = uint a + uint b"
  by (simp add: uint_word_ariths)

lemma reached_later: "uint (d :: u32) < 2 ^ 31 \<Longrightarrow> reached (t + d) t"
  by (simp add: reached_iff)

lemma not_reached_before:
  assumes "0 < uint (d :: u32)" and "uint d \<le> 2 ^ 31"
  shows "\<not> reached t (t + d)"
proof -
  have "t - (t + d) = - d" by simp
  moreover have "uint (- d) = 2 ^ 32 - uint d"
  proof -
    have "uint (- d) = (- uint d) mod 2 ^ 32" by (simp add: uint_word_ariths)
    also have "\<dots> = (2 ^ 32 - uint d) mod 2 ^ 32"
      by (metis add.commute diff_conv_add_uminus mod_add_self2)
    also have "\<dots> = 2 ^ 32 - uint d" using assms by (intro mod_pos_pos_trivial) auto
    finally show ?thesis .
  qed
  ultimately show ?thesis using assms by (simp add: reached_iff)
qed

text \<open>A deadline \<open>d\<close> after \<open>s\<close>, seen less than half the clock's range after \<open>s\<close>.\<close>

lemma reached_plus_iff:
  assumes "uint (t - s) < 2 ^ 31" and "uint (d :: u32) \<le> 2 ^ 31"
  shows "reached t (s + d) \<longleftrightarrow> d \<le> t - s"
proof -
  define x where "x = t - s"
  have eq: "t - (s + d) = x - d" by (simp add: x_def)
  show ?thesis
  proof (cases "d \<le> x")
    case True
    then have "uint (x - d) = uint x - uint d" by (simp only: uint_minus_simple_alt)
    moreover have "0 \<le> uint d" by simp
    ultimately have "uint (x - d) < 2 ^ 31" using assms(1) unfolding x_def by linarith
    with True show ?thesis by (simp add: reached_iff eq x_def [symmetric])
  next
    case False
    have half: "(2 :: int) ^ 32 = 2 * 2 ^ 31" by simp
    from False have lt: "uint x < uint d" by (simp add: not_le word_less_def)
    have "uint (x - d) = (uint x - uint d) mod 2 ^ 32" by (simp add: uint_word_ariths)
    also have "\<dots> = (uint x - uint d + 2 ^ 32) mod 2 ^ 32" by simp
    also have "\<dots> = uint x - uint d + 2 ^ 32"
      using lt assms(2) half uint_ge_0 [of x] by (intro mod_pos_pos_trivial) linarith+
    finally have "\<not> uint (x - d) < 2 ^ 31" using assms(2) half uint_ge_0 [of x] by linarith
    with False show ?thesis by (simp add: reached_iff eq x_def [symmetric])
  qed
qed

subsection \<open>Lists\<close>

lemma find_index_first:
  assumes "\<exists>i<length xs. P (xs ! i)"
  obtains i where "i < length xs" and "P (xs ! i)" and "\<And>j. j < i \<Longrightarrow> \<not> P (xs ! j)"
proof -
  let ?i = "LEAST i. i < length xs \<and> P (xs ! i)"
  from assms have "?i < length xs \<and> P (xs ! ?i)" by (rule LeastI_ex)
  moreover have "\<not> P (xs ! j)" if "j < ?i" for j
    using not_less_Least [OF that] that calculation by auto
  ultimately show ?thesis using that by blast
qed

subsection \<open>Digits\<close>

lemma length_dec_of_nat: "n < 10 ^ Suc k \<Longrightarrow> length (dec_of_nat n) \<le> Suc k"
proof (induction k arbitrary: n)
  case 0
  then show ?case by (simp add: dec_of_nat.simps [of n])
next
  case (Suc k)
  show ?case
  proof (cases "n < 10")
    case False
    have "n div 10 < 10 ^ Suc k" using Suc.prems by (simp add: less_mult_imp_div_less)
    from Suc.IH [OF this] False show ?thesis by (simp add: dec_of_nat.simps [of n])
  qed (simp add: dec_of_nat.simps [of n])
qed

lemma set_dec_of_nat: "set (dec_of_nat n) \<subseteq> digit ` {..<10}"
proof (induction n rule: dec_of_nat.induct)
  case (1 n)
  then show ?case by (cases "n < 10") (auto simp: dec_of_nat.simps [of n])
qed

lemma dec_of_nat_value: "foldl (\<lambda>v c. v * 10 + (of_char c - 48)) 0 (dec_of_nat n) = n"
proof (induction n rule: dec_of_nat.induct)
  case (1 n)
  have d: "of_char (digit k) - 48 = k" if "k < 10" for k using that by (simp add: digit_def)
  show ?case using 1 d by (cases "n < 10") (simp_all add: dec_of_nat.simps [of n])
qed

lemma dec_of_nat_inject: "dec_of_nat a = dec_of_nat b \<longleftrightarrow> a = b"
  by (metis dec_of_nat_value)

subsection \<open>Half bytes\<close>

lemma nibble_mask: "(15 :: u8) = mask 4"
  by (simp add: mask_eq_exp_minus_1)

lemma nibbles: "or (push_bit 4 (drop_bit 4 b)) (and b 15) = (b :: u8)"
  unfolding nibble_mask by (rule bit_word_eqI) (auto simp: bit_simps)

lemma nibble_less: "unat (drop_bit 4 (b :: u8)) < 16" "unat (and b 15) < 16"
proof -
  have "unat b < 256" using unsigned_less [of b, where ?'a = nat] by simp
  then show "unat (drop_bit 4 b) < 16" unfolding unat_drop_bit_eq by (simp add: drop_bit_eq_div)
  have "and b 15 \<le> 15" by (rule word_and_le1)
  then show "unat (and b 15) < 16" by (simp add: word_le_nat_alt)
qed

subsection \<open>Machines driven by events\<close>

text \<open>
  Every component is a state and a function that takes one event (a call of its interface) to
  the next state. What one step keeps, every run keeps.
\<close>

locale event_machine =
  fixes step :: "'s \<Rightarrow> 'e \<Rightarrow> 's" and inv :: "'s \<Rightarrow> bool"
  assumes step_inv: "inv s \<Longrightarrow> inv (step s e)"
begin

lemma run_inv: "inv s \<Longrightarrow> inv (foldl step s es)"
  by (induction es arbitrary: s) (simp_all add: step_inv)

end

text \<open>A machine with a start state: the invariant holds wherever a run from it leads.\<close>

locale started_machine = event_machine +
  fixes start :: "'s"
  assumes start_inv: "inv start"
begin

lemma reach_inv: "inv (foldl step start es)"
  by (rule run_inv [OF start_inv])

end

text \<open>A machine that keeps its invariant under the events its environment is allowed to send.\<close>

locale guarded_machine =
  fixes step :: "'s \<Rightarrow> 'e \<Rightarrow> 's" and allowed :: "'e \<Rightarrow> bool" and inv :: "'s \<Rightarrow> bool"
  assumes guarded_inv: "inv s \<Longrightarrow> allowed e \<Longrightarrow> inv (step s e)"
begin

lemma guarded_run: "inv s \<Longrightarrow> list_all allowed es \<Longrightarrow> inv (foldl step s es)"
  by (induction es arbitrary: s) (simp_all add: guarded_inv)

end

sublocale event_machine \<subseteq> unguarded: guarded_machine step "\<lambda>_. True" inv
  by unfold_locales (rule step_inv)

end
