(* ===== verification/Power_Policy.thy ===== *)
theory Power_Policy
  imports Espos_Prelude
begin

text \<open>
  components/espos_power/src/power_policy.c: may a duty-cycling device go back to sleep now?
  A decision over plain inputs. Pointers that may be NULL (\<open>cfg\<close>, \<open>in\<close>) are options; the
  reason written through \<open>why\<close> is the second component of the result.
\<close>

datatype espos_power_decision = ESPOS_POWER_STAY | ESPOS_POWER_SLEEP

datatype espos_power_why =
    ESPOS_POWER_WHY_OFF
  | ESPOS_POWER_WHY_UNCONFIRMED
  | ESPOS_POWER_WHY_WINDOW
  | ESPOS_POWER_WHY_NETWORK
  | ESPOS_POWER_WHY_STREAM
  | ESPOS_POWER_WHY_PUBLISHING
  | ESPOS_POWER_WHY_HOLD
  | ESPOS_POWER_WHY_DONE
  | ESPOS_POWER_WHY_DEADLINE
  | ESPOS_POWER_WHY_OTA

record power_cfg =
  window_ms :: u32
  awake_max_ms :: u32
  publish_ms :: u32

record power_in =
  enabled :: bool
  timer_wake :: bool
  image_unconfirmed :: bool
  ota_busy :: bool
  net_up :: bool
  net_up_for_ms :: u32
  have_stream :: bool
  stream_connected :: bool
  stream_up_for_ms :: u32
  uptime_ms :: u32
  holds :: u32

definition decided :: "espos_power_why \<Rightarrow> espos_power_decision \<times> espos_power_why" where
  "decided w =
     (if w = ESPOS_POWER_WHY_DONE \<or> w = ESPOS_POWER_WHY_DEADLINE
      then ESPOS_POWER_SLEEP else ESPOS_POWER_STAY, w)"

definition espos_power_policy_deadline_ms :: "power_cfg option \<Rightarrow> bool \<Rightarrow> u32" where
  "espos_power_policy_deadline_ms cfg tw =
     (case cfg of
        None \<Rightarrow> UINT32_MAX
      | Some c \<Rightarrow>
          if tw then awake_max_ms c
          else if window_ms c > UINT32_MAX - awake_max_ms c then UINT32_MAX
          else window_ms c + awake_max_ms c)"

definition espos_power_policy_decide ::
  "power_cfg option \<Rightarrow> power_in option \<Rightarrow> espos_power_decision \<times> espos_power_why" where
  "espos_power_policy_decide cfg inp =
     (case (cfg, inp) of
        (Some c, Some i) \<Rightarrow>
          if \<not> enabled i then decided ESPOS_POWER_WHY_OFF
          else if image_unconfirmed i then decided ESPOS_POWER_WHY_UNCONFIRMED
          else if ota_busy i then decided ESPOS_POWER_WHY_OTA
          else if \<not> timer_wake i \<and> uptime_ms i < window_ms c then decided ESPOS_POWER_WHY_WINDOW
          else if espos_power_policy_deadline_ms (Some c) (timer_wake i) \<le> uptime_ms i
            then decided ESPOS_POWER_WHY_DEADLINE
          else if \<not> net_up i then decided ESPOS_POWER_WHY_NETWORK
          else if have_stream i \<and> \<not> stream_connected i then decided ESPOS_POWER_WHY_STREAM
          else
            (let ready_for = (if have_stream i then stream_up_for_ms i else net_up_for_ms i)
             in if ready_for < publish_ms c then decided ESPOS_POWER_WHY_PUBLISHING
                else if 0 < holds i then decided ESPOS_POWER_WHY_HOLD
                else decided ESPOS_POWER_WHY_DONE)
      | _ \<Rightarrow> decided ESPOS_POWER_WHY_OFF)"

text \<open>
  The names table is indexed by the enumeration's value; any other value, negative ones
  included, is \<open>"?"\<close>.
\<close>

definition espos_power_why_str :: "int \<Rightarrow> string" where
  "espos_power_why_str w =
     (let names = [''off'', ''unconfirmed'', ''window'', ''network'', ''stream'', ''publishing'',
        ''hold'', ''done'', ''deadline'', ''ota'']
      in if 0 \<le> w \<and> w < 10 then names ! nat w else ''?'')"

subsection \<open>The deadline\<close>

lemma unat_deadline_saturates:
  "unat (espos_power_policy_deadline_ms (Some c) False) =
     min (2 ^ 32 - 1) (unat (window_ms c) + unat (awake_max_ms c))"
proof -
  have "window_ms c > UINT32_MAX - awake_max_ms c \<longleftrightarrow>
      4294967295 < unat (window_ms c) + unat (awake_max_ms c)"
    using unat_u32_less [of "awake_max_ms c"]
    by (auto simp: word_less_nat_alt unat_max_minus simp del: unat_u32_less)
  then show ?thesis
    by (auto simp: espos_power_policy_deadline_ms_def unat_add_u32)
qed

text \<open>The awake window ends no later than the deadline, so the deadline can be acted on.\<close>

lemma window_le_deadline: "window_ms c \<le> espos_power_policy_deadline_ms (Some c) False"
  using unat_deadline_saturates [of c] unat_u32_less [of "window_ms c"]
  by (simp add: word_le_nat_alt del: unat_u32_less)

lemma decided_sleep [simp]:
  "fst (decided w) = ESPOS_POWER_SLEEP \<longleftrightarrow>
     w = ESPOS_POWER_WHY_DONE \<or> w = ESPOS_POWER_WHY_DEADLINE"
  by (simp add: decided_def)

lemma snd_decided [simp]: "snd (decided w) = w"
  by (simp add: decided_def)

subsection \<open>Properties\<close>

text \<open>
  The device sleeps exactly when duty cycling is on, the running image is confirmed, no
  update is under way, the awake window of a boot that was not a timer wake is over, and
  either the deadline is reached or the wake's work is done: network up, stream connected
  where one is expected, the publish time elapsed, no application hold.
\<close>

theorem power_sleep_iff:
  "fst (espos_power_policy_decide (Some c) (Some i)) = ESPOS_POWER_SLEEP \<longleftrightarrow>
     enabled i \<and> \<not> image_unconfirmed i \<and> \<not> ota_busy i \<and>
     (timer_wake i \<or> window_ms c \<le> uptime_ms i) \<and>
     (espos_power_policy_deadline_ms (Some c) (timer_wake i) \<le> uptime_ms i \<or>
      net_up i \<and> (have_stream i \<longrightarrow> stream_connected i) \<and>
      publish_ms c \<le> (if have_stream i then stream_up_for_ms i else net_up_for_ms i) \<and>
      holds i = 0)"
  by (auto simp: espos_power_policy_decide_def Let_def not_less word_gt_0)

theorem power_sleep_iff_witness:
  "fst (espos_power_policy_decide
      (Some \<lparr>window_ms = 300000, awake_max_ms = 60000, publish_ms = 2000\<rparr>)
      (Some \<lparr>enabled = True, timer_wake = True, image_unconfirmed = False, ota_busy = False,
        net_up = True, net_up_for_ms = 5000, have_stream = True, stream_connected = True,
        stream_up_for_ms = 3000, uptime_ms = 9000, holds = 0\<rparr>)) = ESPOS_POWER_SLEEP"
  by (subst power_sleep_iff) simp

text \<open>
  The deadline always ends a wake: with duty cycling on, the image confirmed and no update
  under way, an uptime at or past the deadline (saturated, never wrapped) puts the device to
  sleep whatever the network, the stream and the application holds say.
\<close>

theorem power_deadline_sleeps:
  assumes "enabled i" and "\<not> image_unconfirmed i" and "\<not> ota_busy i"
    and "(if timer_wake i then unat (awake_max_ms c)
          else min (2 ^ 32 - 1) (unat (window_ms c) + unat (awake_max_ms c))) \<le> unat (uptime_ms i)"
  shows "espos_power_policy_decide (Some c) (Some i) =
           (ESPOS_POWER_SLEEP, ESPOS_POWER_WHY_DEADLINE)"
proof -
  have dl: "espos_power_policy_deadline_ms (Some c) (timer_wake i) \<le> uptime_ms i"
  proof (cases "timer_wake i")
    case True
    with assms(4) show ?thesis
      by (simp add: espos_power_policy_deadline_ms_def word_le_nat_alt)
  next
    case False
    with assms(4) unat_deadline_saturates [of c] show ?thesis by (simp add: word_le_nat_alt)
  qed
  have "\<not> (\<not> timer_wake i \<and> uptime_ms i < window_ms c)"
    using dl window_le_deadline [of c] by (auto simp: not_less intro: order_trans)
  with assms(1-3) dl show ?thesis
    by (simp add: espos_power_policy_decide_def decided_def)
qed

theorem power_deadline_sleeps_witness:
  "espos_power_policy_decide
      (Some \<lparr>window_ms = 4294967295, awake_max_ms = 60000, publish_ms = 0\<rparr>)
      (Some \<lparr>enabled = True, timer_wake = False, image_unconfirmed = False, ota_busy = False,
        net_up = False, net_up_for_ms = 0, have_stream = False, stream_connected = False,
        stream_up_for_ms = 0, uptime_ms = 4294967295, holds = 3\<rparr>) =
     (ESPOS_POWER_SLEEP, ESPOS_POWER_WHY_DEADLINE)"
  by (rule power_deadline_sleeps) simp_all

end
