(* ===== verification/Net_Sm.thy ===== *)
theory Net_Sm
  imports Espos_Prelude
begin

text \<open>
  components/espos_net/src/net_sm.c: the default-route machine and the backoff curve every
  retry loop of espOS shares, and the part of espos_net.c that turns the machine's edges into
  NETWORK_UP / NETWORK_DOWN events, subscriber calls and status pushes.

  The machine's port is its clock, a function on the port's context that is read as often as
  the source reads it. Address strings that may be NULL are options. The four interfaces of
  \<open>ifs\<close> are a function on \<open>espos_net_if_t\<close>; \<open>ESPOS_NET_IF_MAX\<close> stands for
  every value outside the enumeration.
\<close>

subsection \<open>The backoff curve\<close>

text \<open>\<open>for (i = 0; i < round && d < cap_ms; i++) d *= 2\<close>, on a 64-bit \<open>d\<close>.\<close>

fun backoff_double :: "nat \<Rightarrow> u64 \<Rightarrow> u64 \<Rightarrow> u64" where
  "backoff_double 0 d cap = d"
| "backoff_double (Suc n) d cap = (if d < cap then backoff_double n (d * 2) cap else d)"

definition espos_net_backoff_ms :: "u32 \<Rightarrow> u32 \<Rightarrow> u32 \<Rightarrow> u32" where
  "espos_net_backoff_ms round cap_ms rnd =
     (let d = backoff_double (unat round) 1000 (ucast cap_ms);
          d = (if d > ucast cap_ms then ucast cap_ms else d);
          span = (ucast (d div 2) :: u32);
          j = (if span \<noteq> 0 then rnd mod (span + 1) else 0);
          out = d - ucast (span div 2) + ucast j;
          out = (if out < 250 then 250 else out)
      in ucast out)"

subsection \<open>The default-route machine\<close>

datatype espos_net_if =
    ESPOS_NET_IF_NONE
  | ESPOS_NET_IF_WIFI_STA
  | ESPOS_NET_IF_ETH
  | ESPOS_NET_IF_THREAD
  | ESPOS_NET_IF_MAX

datatype espos_net_edge =
    ESPOS_NET_EDGE_NONE
  | ESPOS_NET_EDGE_UP
  | ESPOS_NET_EDGE_DOWN
  | ESPOS_NET_EDGE_CHANGED

record net_sm_if =
  if_up :: bool
  if_ip :: string
  if_netmask :: string
  if_gateway :: string
  if_rssi :: i8
  if_up_since_ms :: u32

record 'c net_sm =
  net_ctx :: 'c
  ifs :: "espos_net_if \<Rightarrow> net_sm_if"
  active :: espos_net_if
  up_count :: u32
  up_since_ms :: u32

record net_status =
  ns_up :: bool
  ns_iface :: espos_net_if
  ns_ip :: string
  ns_netmask :: string
  ns_gateway :: string
  ns_ip6_ll :: string
  ns_hostname :: string
  ns_rssi :: i8
  ns_up_count :: u32
  ns_up_since_ms :: u32

definition k_preference :: "espos_net_if list" where
  "k_preference = [ESPOS_NET_IF_ETH, ESPOS_NET_IF_WIFI_STA, ESPOS_NET_IF_THREAD]"

definition net_now :: "'c clock \<Rightarrow> 'c net_sm \<Rightarrow> u32 \<times> 'c net_sm" where
  "net_now port sm = (fst (port (net_ctx sm)), sm\<lparr>net_ctx := snd (port (net_ctx sm))\<rparr>)"

definition copy_ip :: "string option \<Rightarrow> string" where
  "copy_ip src = cbuf 16 (case src of None \<Rightarrow> '''' | Some s \<Rightarrow> s)"

definition espos_net_if_str :: "espos_net_if \<Rightarrow> string" where
  "espos_net_if_str iface =
     (case iface of
        ESPOS_NET_IF_WIFI_STA \<Rightarrow> ''wifi_sta''
      | ESPOS_NET_IF_ETH \<Rightarrow> ''eth''
      | ESPOS_NET_IF_THREAD \<Rightarrow> ''thread''
      | _ \<Rightarrow> ''none'')"

definition net_if_zero :: net_sm_if where
  "net_if_zero = \<lparr>if_up = False, if_ip = '''', if_netmask = '''', if_gateway = '''', if_rssi = 0,
     if_up_since_ms = 0\<rparr>"

definition espos_net_sm_init :: "'c \<Rightarrow> 'c net_sm" where
  "espos_net_sm_init ctx =
     \<lparr>net_ctx = ctx, ifs = (\<lambda>_. net_if_zero), active = ESPOS_NET_IF_NONE, up_count = 0,
      up_since_ms = 0\<rparr>"

definition net_select :: "(espos_net_if \<Rightarrow> net_sm_if) \<Rightarrow> espos_net_if" where
  "net_select tab =
     (case filter (\<lambda>i. if_up (tab i)) k_preference of [] \<Rightarrow> ESPOS_NET_IF_NONE | i # _ \<Rightarrow> i)"

definition espos_net_sm_select :: "'c net_sm \<Rightarrow> espos_net_if" where
  "espos_net_sm_select sm = net_select (ifs sm)"

text \<open>
  \<open>espos_net_sm_report\<close>: the new interface record, the comparison with the old one, and
  the re-selection of the default route with the edge it makes. The result is the edge, the
  \<open>changed\<close> flag and the machine.
\<close>

definition net_if_next ::
  "'c clock \<Rightarrow> 'c net_sm \<Rightarrow> net_sm_if \<Rightarrow> bool \<Rightarrow> string option \<Rightarrow> string option \<Rightarrow> string option
     \<Rightarrow> i8 \<Rightarrow> net_sm_if \<times> 'c net_sm" where
  "net_if_next port sm cur up ip netmask gateway rssi =
     (if up then
        (let (since, sm) = (if if_up cur then (if_up_since_ms cur, sm) else net_now port sm)
         in (\<lparr>if_up = True, if_ip = copy_ip ip, if_netmask = copy_ip netmask,
               if_gateway = copy_ip gateway, if_rssi = rssi, if_up_since_ms = since\<rparr>, sm))
      else (net_if_zero, sm))"

definition same_route :: "net_sm_if \<Rightarrow> net_sm_if \<Rightarrow> bool" where
  "same_route cur next \<longleftrightarrow> if_up cur = if_up next \<and> if_ip cur = if_ip next \<and>
     if_netmask cur = if_netmask next \<and> if_gateway cur = if_gateway next"

definition espos_net_sm_report ::
  "'c clock \<Rightarrow> 'c net_sm \<Rightarrow> espos_net_if \<Rightarrow> bool \<Rightarrow> string option \<Rightarrow> string option \<Rightarrow> string option
     \<Rightarrow> i8 \<Rightarrow> espos_net_edge \<times> bool \<times> 'c net_sm" where
  "espos_net_sm_report port sm iface up ip netmask gateway rssi =
     (if iface = ESPOS_NET_IF_NONE \<or> iface = ESPOS_NET_IF_MAX then (ESPOS_NET_EDGE_NONE, False, sm)
      else
        (let cur = ifs sm iface;
             (next, sm) = net_if_next port sm cur up ip netmask gateway rssi;
             same = same_route cur next
         in if same \<and> if_rssi cur = if_rssi next then (ESPOS_NET_EDGE_NONE, False, sm)
            else
              (let sm = sm\<lparr>ifs := (ifs sm)(iface := next)\<rparr>;
                   was = active sm;
                   sel = espos_net_sm_select sm
               in if was = ESPOS_NET_IF_NONE \<and> sel \<noteq> ESPOS_NET_IF_NONE then
                    (let (t, sm) = net_now port (sm\<lparr>active := sel, up_count := up_count sm + 1\<rparr>)
                     in (ESPOS_NET_EDGE_UP, True, sm\<lparr>up_since_ms := t\<rparr>))
                  else if was \<noteq> ESPOS_NET_IF_NONE \<and> sel = ESPOS_NET_IF_NONE then
                    (ESPOS_NET_EDGE_DOWN, True, sm\<lparr>active := ESPOS_NET_IF_NONE, up_since_ms := 0\<rparr>)
                  else if was \<noteq> sel then
                    (let (t, sm) = net_now port (sm\<lparr>active := sel, up_count := up_count sm + 1\<rparr>)
                     in (ESPOS_NET_EDGE_CHANGED, True, sm\<lparr>up_since_ms := t\<rparr>))
                  else if iface = active sm \<and> \<not> same then
                    (let (t, sm) = net_now port (sm\<lparr>up_count := up_count sm + 1\<rparr>)
                     in (ESPOS_NET_EDGE_CHANGED, True, sm\<lparr>up_since_ms := t\<rparr>))
                  else (ESPOS_NET_EDGE_NONE, True, sm))))"

definition net_status_zero :: net_status where
  "net_status_zero = \<lparr>ns_up = False, ns_iface = ESPOS_NET_IF_NONE, ns_ip = '''', ns_netmask = '''',
     ns_gateway = '''', ns_ip6_ll = '''', ns_hostname = '''', ns_rssi = 0, ns_up_count = 0,
     ns_up_since_ms = 0\<rparr>"

definition espos_net_sm_status :: "'c clock \<Rightarrow> 'c net_sm \<Rightarrow> net_status \<times> 'c net_sm" where
  "espos_net_sm_status port sm =
     (let out = net_status_zero\<lparr>ns_iface := active sm, ns_up_count := up_count sm\<rparr>
      in if active sm = ESPOS_NET_IF_NONE then (out, sm)
         else
           (let a = ifs sm (active sm);
                (t, sm') = net_now port sm
            in (out\<lparr>ns_up := True, ns_ip := if_ip a, ns_netmask := if_netmask a,
                  ns_gateway := if_gateway a,
                  ns_rssi := (if active sm = ESPOS_NET_IF_WIFI_STA then if_rssi a else 0),
                  ns_up_since_ms := t - up_since_ms sm\<rparr>, sm')))"

subsection \<open>espos_net.c: the fan-out of a report\<close>

text \<open>
  The part of the static \<open>s\<close> of espos_net.c that a report and the subscriber table use. A
  subscriber is its callback with its argument; a free slot is \<open>None\<close>. What a report sends out of
  the component is a list: posted events, subscriber calls and the status pushed over SSE. The
  mutex makes each call atomic, so a call is one step.
\<close>

record ('c, 'n, 'cb) net_app =
  na_sm :: "'c net_sm"
  na_started :: bool
  na_hostname :: string
  na_ip6_ll :: string
  na_netif :: "espos_net_if \<Rightarrow> 'n option"
  na_subs :: "'cb option list"

datatype 'cb net_out =
    NETWORK_DOWN
  | NETWORK_UP string string
  | Subscriber 'cb net_status
  | Sse_net net_status

definition SUBSCRIBERS_MAX :: nat where
  "SUBSCRIBERS_MAX = 8"

definition snapshot_locked ::
  "'c clock \<Rightarrow> ('c, 'n, 'cb) net_app \<Rightarrow> net_status \<times> ('c, 'n, 'cb) net_app" where
  "snapshot_locked port s =
     (let (out, sm) = espos_net_sm_status port (na_sm s);
          out = out\<lparr>ns_hostname := na_hostname s\<rparr>;
          out = (if ns_up out then out\<lparr>ns_ip6_ll := na_ip6_ll s\<rparr> else out)
      in (out, s\<lparr>na_sm := sm\<rparr>))"

definition espos_net_is_up :: "('c, 'n, 'cb) net_app \<Rightarrow> bool" where
  "espos_net_is_up s \<longleftrightarrow> na_started s \<and> active (na_sm s) \<noteq> ESPOS_NET_IF_NONE"

fun first_free :: "'a option list \<Rightarrow> nat option" where
  "first_free [] = None"
| "first_free (None # xs) = Some 0"
| "first_free (Some x # xs) = map_option Suc (first_free xs)"

definition espos_net_subscribe ::
  "'cb \<Rightarrow> ('c, 'n, 'cb) net_app \<Rightarrow> esp_err \<times> ('c, 'n, 'cb) net_app" where
  "espos_net_subscribe cb s =
     (if Some cb \<in> set (na_subs s) then (ESP_OK, s)
      else (case first_free (na_subs s) of
              None \<Rightarrow> (ESP_ERR_NO_MEM, s)
            | Some i \<Rightarrow> (ESP_OK, s\<lparr>na_subs := (na_subs s)[i := Some cb]\<rparr>)))"

definition espos_net_unsubscribe ::
  "'cb \<Rightarrow> ('c, 'n, 'cb) net_app \<Rightarrow> esp_err \<times> ('c, 'n, 'cb) net_app" where
  "espos_net_unsubscribe cb s =
     (if Some cb \<in> set (na_subs s)
      then (ESP_OK, s\<lparr>na_subs := map (\<lambda>x. if x = Some cb then None else x) (na_subs s)\<rparr>)
      else (ESP_ERR_NOT_FOUND, s))"

definition espos_net_report ::
  "'c clock \<Rightarrow> ('n option \<Rightarrow> string) \<Rightarrow> ('c, 'n, 'cb) net_app \<Rightarrow> espos_net_if \<Rightarrow> bool \<Rightarrow> string option
     \<Rightarrow> string option \<Rightarrow> string option \<Rightarrow> i8 \<Rightarrow> 'cb net_out list \<times> ('c, 'n, 'cb) net_app" where
  "espos_net_report port ip6_linklocal s iface up ip netmask gateway rssi =
     (if \<not> na_started s then ([], s)
      else
        (let (edge, changed, sm) = espos_net_sm_report port (na_sm s) iface up ip netmask gateway rssi;
             s = s\<lparr>na_sm := sm\<rparr>;
             s = (if edge \<noteq> ESPOS_NET_EDGE_NONE
                  then s\<lparr>na_ip6_ll := (if active sm \<noteq> ESPOS_NET_IF_NONE
                                       then cbuf 40 (ip6_linklocal (na_netif s (active sm))) else '''')\<rparr>
                  else s)
         in if \<not> changed then ([], s)
            else
              (let (st, s) = snapshot_locked port s
               in ((if edge = ESPOS_NET_EDGE_DOWN \<or> edge = ESPOS_NET_EDGE_CHANGED
                    then [NETWORK_DOWN] else [])
                   @ (if edge = ESPOS_NET_EDGE_UP \<or> edge = ESPOS_NET_EDGE_CHANGED
                      then [NETWORK_UP (ns_ip st) (ns_hostname st)] else [])
                   @ (if edge \<noteq> ESPOS_NET_EDGE_NONE
                      then map (\<lambda>x. Subscriber (the x) st) (filter (\<lambda>x. x \<noteq> None) (na_subs s))
                      else [])
                   @ [Sse_net st], s))))"

text \<open>A transport's report, as the arguments of the call, and a run of reports.\<close>

type_synonym net_call =
  "espos_net_if \<times> bool \<times> string option \<times> string option \<times> string option \<times> i8"

fun net_reports ::
  "'c clock \<Rightarrow> ('n option \<Rightarrow> string) \<Rightarrow> ('c, 'n, 'cb) net_app \<Rightarrow> net_call list
     \<Rightarrow> 'cb net_out list \<times> ('c, 'n, 'cb) net_app" where
  "net_reports port ll s [] = ([], s)"
| "net_reports port ll s ((iface, up, ip, netmask, gateway, rssi) # cs) =
     (let (out, s) = espos_net_report port ll s iface up ip netmask gateway rssi;
          (outs, s) = net_reports port ll s cs
      in (out @ outs, s))"

text \<open>What the event bus sees of the default route: \<open>True\<close> for UP, \<open>False\<close> for DOWN.\<close>

fun route_events :: "'cb net_out list \<Rightarrow> bool list" where
  "route_events [] = []"
| "route_events (NETWORK_DOWN # xs) = False # route_events xs"
| "route_events (NETWORK_UP ip h # xs) = True # route_events xs"
| "route_events (_ # xs) = route_events xs"

fun alternates :: "bool \<Rightarrow> bool list \<Rightarrow> bool" where
  "alternates up [] = True"
| "alternates up (e # es) = (e \<noteq> up \<and> alternates e es)"

subsection \<open>Bounds of the backoff curve\<close>

lemma unat_ucast_up: "unat (ucast (a :: u32) :: u64) = unat a"
proof -
  have "unat a < 2 ^ 64" by (rule less_trans [OF unat_u32_less]) simp
  then show ?thesis by (simp add: unsigned_ucast_eq take_bit_nat_eq_self)
qed

lemma unat_ucast_down: "unat (a :: u64) < 4294967296 \<Longrightarrow> unat (ucast a :: u32) = unat a"
  by (simp add: unsigned_ucast_eq take_bit_nat_eq_self)

lemma unat_u64_add:
  "unat (a :: u64) + unat b < 18446744073709551616 \<Longrightarrow> unat (a + b) = unat a + unat b"
  by (simp add: unat_word_ariths)

lemma unat_u64_double: "unat (a :: u64) < 8589934592 \<Longrightarrow> unat (a * 2) = 2 * unat a"
  by (simp add: unat_word_ariths)

text \<open>The loop is exponentiation, as far as the cap can tell, and never overflows 64 bits.\<close>

lemma backoff_double_min:
  assumes "unat cap < 4294967296" and "unat d < 8589934592"
  shows "min (unat (backoff_double n d cap)) (unat cap) = min (unat d * 2 ^ n) (unat cap)"
  using assms(2)
proof (induction n arbitrary: d)
  case 0
  then show ?case by simp
next
  case (Suc n)
  show ?case
  proof (cases "d < cap")
    case True
    then have "unat d < unat cap" by (simp add: word_less_nat_alt)
    with assms(1) have "unat (d * 2) < 8589934592" by (simp add: unat_u64_double)
    with Suc.IH [OF this] True Suc.prems show ?thesis
      by (simp add: unat_u64_double mult.assoc mult.left_commute)
  next
    case False
    then have "unat cap \<le> unat d" by (simp add: word_le_nat_alt not_less)
    moreover have "unat d * 1 \<le> unat d * 2 ^ Suc n" by (rule mult_le_mono2) simp
    ultimately have "min (unat d * 2 ^ Suc n) (unat cap) = unat cap" "min (unat d) (unat cap) = unat cap"
      by linarith+
    with False show ?thesis by simp
  qed
qed

lemma backoff_clamped:
  "unat (if backoff_double (unat r) 1000 (ucast cap) > ucast cap then ucast cap
         else backoff_double (unat r) 1000 (ucast (cap :: u32))) = min (1000 * 2 ^ unat r) (unat cap)"
  using backoff_double_min [of "ucast cap" 1000 "unat r"]
  by (auto simp: unat_ucast_up word_less_nat_alt min_def split: if_splits)

lemma jitter_le:
  assumes "unat (span :: u32) < 4294967295"
  shows "unat (if span \<noteq> 0 then rnd mod (span + 1) else 0) \<le> unat span"
proof -
  have "unat (span + 1) = unat span + 1" using assms by (simp add: unat_add_u32)
  then have "unat (rnd mod (span + 1)) < unat span + 1"
    by (simp add: unat_mod_distrib del: mod_less_divisor) (simp add: mod_less_divisor)
  then show ?thesis by simp
qed

text \<open>
  The jittered delay around a base \<open>d\<close>, as the code computes it from \<open>d\<close> on.
\<close>

lemma jittered_bounds:
  fixes d :: u64 and rnd :: u32
  assumes "unat d \<le> 3000000000"
  defines "span \<equiv> (ucast (d div 2) :: u32)"
  defines "j \<equiv> (if span \<noteq> 0 then rnd mod (span + 1) else 0)"
  defines "out \<equiv> d - ucast (span div 2) + ucast j"
  shows "unat out \<le> unat d - unat d div 4 + unat d div 2"
    and "unat d - unat d div 4 \<le> unat out"
proof -
  have span: "unat span = unat d div 2"
    using assms(1) by (simp add: span_def unat_ucast_down unat_div_distrib)
  have half: "unat (ucast (span div 2) :: u64) = unat d div 4"
    by (simp add: unat_ucast_up unat_div_distrib span div_mult2_eq [symmetric])
  then have "ucast (span div 2) \<le> d" by (simp add: word_le_nat_alt)
  then have sub: "unat (d - ucast (span div 2)) = unat d - unat d div 4"
    using half by (simp add: unat_sub)
  have j: "unat j \<le> unat d div 2"
    using jitter_le [of span rnd] span assms(1) by (simp add: j_def)
  have "unat out = unat d - unat d div 4 + unat j"
    unfolding out_def using sub j assms(1) by (subst unat_u64_add) (simp_all add: unat_ucast_up)
  with j show "unat out \<le> unat d - unat d div 4 + unat d div 2"
    and "unat d - unat d div 4 \<le> unat out" by simp_all
qed

text \<open>
  The retry delay of round \<open>r\<close> is within 25 per cent of \<open>min (1000 * 2 ^ r) cap\<close>
  milliseconds, raised to 250, whatever random word is drawn: no shift or sum of the code
  wraps as long as the cap is at most 3,000,000,000 ms.
\<close>

theorem net_backoff_bounds:
  fixes r cap rnd :: u32
  assumes "unat cap \<le> 3000000000" and "d = min (1000 * 2 ^ unat r) (unat cap)"
  shows "max 250 (d - d div 4) \<le> unat (espos_net_backoff_ms r cap rnd) \<and>
         unat (espos_net_backoff_ms r cap rnd) \<le> max 250 (d - d div 4 + d div 2)"
proof -
  define e where "e = (if backoff_double (unat r) 1000 (ucast cap) > ucast cap then ucast cap
         else backoff_double (unat r) 1000 (ucast cap))"
  have e: "unat e = d" unfolding e_def assms(2) by (rule backoff_clamped)
  have le: "unat e \<le> 3000000000" using assms by (simp add: e)
  define span where "span = (ucast (e div 2) :: u32)"
  define out where "out = e - ucast (span div 2) + ucast (if span \<noteq> 0 then rnd mod (span + 1) else 0)"
  have hi: "unat out \<le> d - d div 4 + d div 2" and lo: "d - d div 4 \<le> unat out"
    using jittered_bounds [OF le, of rnd] by (simp_all only: e out_def span_def)
  have res: "espos_net_backoff_ms r cap rnd = ucast (if out < 250 then 250 else out)"
    by (simp only: espos_net_backoff_ms_def Let_def e_def span_def out_def)
  have "unat (if out < 250 then 250 else out) = max 250 (unat out)"
    by (simp add: word_less_nat_alt max_def)
  moreover have "unat out < 4294967296" using hi le e by linarith
  ultimately have "unat (espos_net_backoff_ms r cap rnd) = max 250 (unat out)"
    by (simp add: res unat_ucast_down)
  with hi lo show ?thesis by linarith
qed

theorem net_backoff_bounds_witness:
  "250 \<le> unat (espos_net_backoff_ms 3 60000 12345) \<and>
   unat (espos_net_backoff_ms 3 60000 12345) \<le> 10000"
  using net_backoff_bounds [of 60000 8000 3 12345] by simp

subsection \<open>The route is the preferred interface that is up\<close>

definition net_inv :: "'c net_sm \<Rightarrow> bool" where
  "net_inv sm \<longleftrightarrow> active sm = net_select (ifs sm) \<and>
     \<not> if_up (ifs sm ESPOS_NET_IF_NONE) \<and> \<not> if_up (ifs sm ESPOS_NET_IF_MAX) \<and>
     (\<forall>i. \<not> if_up (ifs sm i) \<longrightarrow> ifs sm i = net_if_zero)"

lemma net_if_next_up [simp]: "if_up (fst (net_if_next port sm cur up ip nm gw r)) = up"
  by (simp add: net_if_next_def net_if_zero_def split: prod.splits)

lemma net_if_next_down [simp]: "fst (net_if_next port sm cur False ip nm gw r) = net_if_zero"
  by (simp add: net_if_next_def)

lemma net_now_frame [frame, simp]:
  "ifs (snd (net_now port sm)) = ifs sm" "active (snd (net_now port sm)) = active sm"
  "up_count (snd (net_now port sm)) = up_count sm" "up_since_ms (snd (net_now port sm)) = up_since_ms sm"
  by (simp_all add: net_now_def)

lemma net_if_next_frame [frame, simp]:
  "ifs (snd (net_if_next port sm cur up ip nm gw r)) = ifs sm"
  "active (snd (net_if_next port sm cur up ip nm gw r)) = active sm"
  "up_count (snd (net_if_next port sm cur up ip nm gw r)) = up_count sm"
  by (simp_all add: net_if_next_def split_beta)

lemma net_select_eq_NONE:
  "net_select tab = ESPOS_NET_IF_NONE \<longleftrightarrow>
     \<not> if_up (tab ESPOS_NET_IF_ETH) \<and> \<not> if_up (tab ESPOS_NET_IF_WIFI_STA) \<and> \<not> if_up (tab ESPOS_NET_IF_THREAD)"
  by (simp add: net_select_def k_preference_def)

text \<open>Every branch of a report that changes the table re-selects the route.\<close>

lemma net_report_active:
  assumes "net_inv sm"
  shows "net_inv (snd (snd (espos_net_sm_report port sm iface up ip nm gw r)))"
  using assms
  by (cases up) (auto simp: net_inv_def Let_def split_beta espos_net_sm_select_def espos_net_sm_report_def)

lemma net_inv_init: "net_inv (espos_net_sm_init ctx)"
  by (simp add: net_inv_def espos_net_sm_init_def net_select_def k_preference_def net_if_zero_def)

text \<open>One step of the machine as a transport's call, for runs.\<close>

definition net_step :: "'c clock \<Rightarrow> 'c net_sm \<Rightarrow> net_call \<Rightarrow> 'c net_sm" where
  "net_step port sm c =
     (case c of (iface, up, ip, nm, gw, r) \<Rightarrow> snd (snd (espos_net_sm_report port sm iface up ip nm gw r)))"

interpretation net: started_machine "net_step port" net_inv "espos_net_sm_init ctx"
  for port :: "'c clock" and ctx :: 'c
  by unfold_locales (auto simp: net_step_def net_report_active net_inv_init)

text \<open>
  C24. After any sequence of transport reports, from boot, the active interface is the most
  preferred one that is up (Ethernet over WiFi over Thread), and none exactly when all are
  down; an interface that is down holds no address.
\<close>

theorem net_route_is_preferred:
  fixes ctx :: 'c and port :: "'c clock"
  defines "sm \<equiv> foldl (net_step port) (espos_net_sm_init ctx)"
  shows "active (sm es) =
           (if if_up (ifs (sm es) ESPOS_NET_IF_ETH) then ESPOS_NET_IF_ETH
            else if if_up (ifs (sm es) ESPOS_NET_IF_WIFI_STA) then ESPOS_NET_IF_WIFI_STA
            else if if_up (ifs (sm es) ESPOS_NET_IF_THREAD) then ESPOS_NET_IF_THREAD
            else ESPOS_NET_IF_NONE) \<and>
         (if_up (ifs (sm es) i) \<or> if_ip (ifs (sm es) i) = '''')"
  using net.reach_inv [of port ctx es]
  by (auto simp: sm_def net_inv_def net_select_def k_preference_def net_if_zero_def)

subsection \<open>Events come in pairs\<close>

lemma route_events_append [simp]: "route_events (xs @ ys) = route_events xs @ route_events ys"
  by (induction xs rule: route_events.induct) auto

lemma route_events_subscribers [simp]: "route_events (map (\<lambda>x. Subscriber (f x) st) cbs) = []"
  by (induction cbs) auto

lemma alternates_append:
  "alternates up (xs @ ys) \<longleftrightarrow> alternates up xs \<and> alternates (if xs = [] then up else last xs) ys"
  by (induction xs arbitrary: up) auto

lemma net_report_edge:
  assumes "espos_net_sm_report port sm iface up ip nm gw r = (edge, changed, sm')"
  shows "edge = ESPOS_NET_EDGE_UP \<Longrightarrow> active sm = ESPOS_NET_IF_NONE \<and> active sm' \<noteq> ESPOS_NET_IF_NONE \<and> changed"
    and "edge = ESPOS_NET_EDGE_DOWN \<Longrightarrow> active sm \<noteq> ESPOS_NET_IF_NONE \<and> active sm' = ESPOS_NET_IF_NONE \<and> changed"
    and "edge = ESPOS_NET_EDGE_CHANGED \<Longrightarrow> active sm \<noteq> ESPOS_NET_IF_NONE \<and> active sm' \<noteq> ESPOS_NET_IF_NONE \<and> changed"
    and "edge = ESPOS_NET_EDGE_NONE \<Longrightarrow> active sm' = active sm"
  using assms
  by (auto simp: espos_net_sm_report_def Let_def split_beta split: if_splits)

lemma snapshot_frame [frame, simp]:
  "active (na_sm (snd (snapshot_locked port s))) = active (na_sm s)"
  "na_started (snd (snapshot_locked port s)) = na_started s"
  "up_count (na_sm (snd (snapshot_locked port s))) = up_count (na_sm s)"
  by (simp_all add: snapshot_locked_def espos_net_sm_status_def split_beta Let_def)

lemma net_report_started [simp]:
  "na_started (snd (espos_net_report port ll s iface up ip nm gw r)) = na_started s"
  by (simp add: espos_net_report_def Let_def split_beta)

text \<open>One report: its events start where the route was and end where it is.\<close>

lemma net_report_events:
  assumes "na_started s"
    and "espos_net_report port ll s iface up ip nm gw r = (out, s')"
  shows "alternates (espos_net_is_up s) (route_events out) \<and>
         (if route_events out = [] then espos_net_is_up s' = espos_net_is_up s
          else last (route_events out) = espos_net_is_up s')"
proof -
  obtain edge changed sm' where
    rep: "espos_net_sm_report port (na_sm s) iface up ip nm gw r = (edge, changed, sm')"
    by (cases "espos_net_sm_report port (na_sm s) iface up ip nm gw r") auto
  note E = net_report_edge [OF rep]
  show ?thesis
    using assms E
    by (cases edge; cases changed)
      (auto simp: espos_net_report_def espos_net_is_up_def rep Let_def split_beta)
qed

lemma net_reports_events:
  "na_started s \<Longrightarrow> net_reports port ll s cs = (outs, s') \<Longrightarrow>
     na_started s' \<and> alternates (espos_net_is_up s) (route_events outs) \<and>
     (if route_events outs = [] then espos_net_is_up s' = espos_net_is_up s
      else last (route_events outs) = espos_net_is_up s')"
proof (induction cs arbitrary: s outs)
  case Nil
  then show ?case by simp
next
  case (Cons c cs)
  obtain iface up ip nm gw r where c: "c = (iface, up, ip, nm, gw, r)" by (cases c) auto
  obtain out s1 where one: "espos_net_report port ll s iface up ip nm gw r = (out, s1)" by fastforce
  obtain rest where more: "net_reports port ll s1 cs = (rest, s')" and outs: "outs = out @ rest"
    using Cons.prems(2) by (auto simp: c one split: prod.splits)
  have st: "na_started s1" using net_report_started [of port ll s iface up ip nm gw r] one Cons.prems(1) by simp
  show ?case
    using net_report_events [OF Cons.prems(1) one] Cons.IH [OF st more]
    by (auto simp: outs alternates_append split: if_splits)
qed

text \<open>
  NETWORK_UP and NETWORK_DOWN alternate: over any sequence of reports after the start with
  no route, the first event is an UP, no two UPs and no two DOWNs follow each other, and the
  last event says whether the device has a route now. A route that moves posts a DOWN and
  then an UP.
\<close>

theorem net_events_alternate:
  assumes "na_started s" and "na_sm s = espos_net_sm_init ctx"
    and "net_reports port ll s cs = (outs, s')"
  shows "alternates False (route_events outs) \<and>
         espos_net_is_up s' = (route_events outs \<noteq> [] \<and> last (route_events outs))"
proof -
  have "\<not> espos_net_is_up s" using assms(2) by (simp add: espos_net_is_up_def espos_net_sm_init_def)
  with net_reports_events [OF assms(1,3)] show ?thesis by (auto split: if_splits)
qed

theorem net_events_alternate_witness:
  "\<exists>outs s'. net_reports (\<lambda>c. (of_nat c, Suc c)) (\<lambda>_. ''fe80::1'')
       \<lparr>na_sm = espos_net_sm_init (7 :: nat), na_started = True, na_hostname = ''espos-1a2b'',
         na_ip6_ll = '''', na_netif = (\<lambda>_. None :: unit option), na_subs = [Some (1 :: nat), None]\<rparr>
       [(ESPOS_NET_IF_WIFI_STA, True, Some ''10.0.0.2'', None, None, 0),
        (ESPOS_NET_IF_ETH, True, Some ''10.0.0.3'', None, None, 0)] = (outs, s') \<and>
     route_events outs = [True, False, True] \<and> alternates False (route_events outs) \<and> espos_net_is_up s'"
proof -
  let ?s = "\<lparr>na_sm = espos_net_sm_init (7 :: nat), na_started = True, na_hostname = ''espos-1a2b'',
         na_ip6_ll = '''', na_netif = (\<lambda>_. None :: unit option), na_subs = [Some (1 :: nat), None]\<rparr>"
  let ?cs = "[(ESPOS_NET_IF_WIFI_STA, True, Some ''10.0.0.2'', None, None, 0),
        (ESPOS_NET_IF_ETH, True, Some ''10.0.0.3'', None, None, 0)] :: net_call list"
  let ?r = "net_reports (\<lambda>c. (of_nat c, Suc c)) (\<lambda>_. ''fe80::1'') ?s ?cs"
  have "route_events (fst ?r) = [True, False, True]"
    by (simp add: espos_net_report_def espos_net_sm_report_def espos_net_sm_init_def net_if_next_def
        same_route_def net_now_def espos_net_sm_select_def net_select_def k_preference_def net_if_zero_def
        snapshot_locked_def espos_net_sm_status_def net_status_zero_def copy_ip_def cbuf_def)
  moreover have "alternates False (route_events (fst ?r)) \<and>
      espos_net_is_up (snd ?r) = (route_events (fst ?r) \<noteq> [] \<and> last (route_events (fst ?r)))"
    by (rule net_events_alternate [where s = ?s and ctx = 7, OF _ _ prod.collapse [symmetric]]) simp_all
  ultimately show ?thesis by (intro exI [of _ "fst ?r"] exI [of _ "snd ?r"]) simp
qed

end
