(* ===== verification/Wifi_Sm.thy ===== *)
theory Wifi_Sm
  imports Net_Sm
begin

text \<open>
  components/espos_wifi/src/wifi_sm.c: the WiFi station and setup-portal state machine.

  \<^item> \<open>espos_wifi_port_t\<close> is a record of functions on the port's context: what the source
    calls through \<open>sm->port\<close> takes \<open>sm->port_ctx\<close>, and what it does to the world is the
    context it leaves. The clock is read as often as the source reads it. Members the source
    tests for NULL are options.
  \<^item> the members of \<open>sm->st\<close> and \<open>sm->cfg\<close> keep their names, with the prefix \<open>w_\<close>
    for the status and the machine's own fields and \<open>c_\<close> for the configuration.
    \<open>nets[0..net_count)\<close> is a list. The configuration is built over zeroed memory
    (espos_wifi.c, \<open>load_cfg\<close>), so that \<open>memcmp\<close> on it is equality.
  \<^item> \<open>start_attempt\<close> and \<open>attempt_failed\<close> call each other when the driver refuses a
    connect; the recursion ends because each refusal moves down the list of networks.
  \<^item> an event carries its argument; \<open>EV_MAX\<close> is a no-op of the source and has no constructor.
\<close>

subsection \<open>Data\<close>

datatype espos_wifi_state =
    ESPOS_WIFI_ST_DISABLED
  | ESPOS_WIFI_ST_UNCONFIGURED
  | ESPOS_WIFI_ST_CONNECTING
  | ESPOS_WIFI_ST_OBTAINING_IP
  | ESPOS_WIFI_ST_CONNECTED
  | ESPOS_WIFI_ST_BACKOFF

datatype espos_wifi_portal_force =
    ESPOS_WIFI_PORTAL_AUTO
  | ESPOS_WIFI_PORTAL_UP
  | ESPOS_WIFI_PORTAL_DOWN
  | ESPOS_WIFI_PORTAL_FORCE_MAX

record wifi_net =
  n_ssid :: string
  n_psk :: string
  n_has_bssid :: bool
  n_bssid :: "u8 list"

record wifi_cfg =
  c_sta_enabled :: bool
  c_nets :: "wifi_net list"
  c_backoff_max_ms :: u32
  c_dhcp_timeout_ms :: u32
  c_connect_timeout_ms :: u32
  c_portal_enabled :: bool
  c_portal_after_ms :: u32
  c_portal_online :: bool

record wifi_link =
  l_ssid :: string
  l_bssid :: "u8 list"
  l_channel :: u8
  l_rssi :: i8

record wifi_ip =
  i_ip :: string
  i_netmask :: string
  i_gateway :: string

record 'c wifi_port =
  p_connect :: "'c \<Rightarrow> wifi_net \<Rightarrow> esp_err \<times> 'c"
  p_disconnect :: "'c \<Rightarrow> 'c"
  p_portal_start :: "('c \<Rightarrow> esp_err \<times> 'c) option"
  p_portal_stop :: "('c \<Rightarrow> 'c) option"
  p_arm_timer :: "'c \<Rightarrow> u32 \<Rightarrow> 'c"
  p_cancel_timer :: "'c \<Rightarrow> 'c"
  p_now_ms :: "'c clock"
  p_random :: "'c clock"
  p_status_changed :: "('c \<Rightarrow> 'c) option"

record 'c wifi_sm =
  w_ctx :: 'c
  w_cfg :: wifi_cfg
  w_state :: espos_wifi_state
  w_sta_enabled :: bool
  w_net_index :: int
  w_link :: wifi_link
  w_ip :: wifi_ip
  w_reason :: int
  w_backoff_until_ms :: u32
  w_attempt :: u32
  w_round :: u32
  w_connected_since_ms :: u32
  w_disconnected_since_ms :: u32
  w_connect_count :: u32
  w_disconnect_count :: u32
  w_portal_active :: bool
  w_portal_clients :: int
  w_portal_force :: espos_wifi_portal_force
  w_started :: bool
  w_timer_is_dhcp :: bool
  w_timer_is_portal :: bool
  w_portal_due_ms :: u32
  w_state_due_ms :: u32
  w_timer_due_ms :: u32
  w_connect_in_flight :: bool
  w_other_net_up :: bool

datatype espos_wifi_event =
    ESPOS_WIFI_EV_START
  | ESPOS_WIFI_EV_STOP
  | ESPOS_WIFI_EV_CONFIG wifi_cfg
  | ESPOS_WIFI_EV_STA_CONNECTED "wifi_link option"
  | ESPOS_WIFI_EV_STA_DISCONNECTED "int option"
  | ESPOS_WIFI_EV_GOT_IP "wifi_ip option"
  | ESPOS_WIFI_EV_LOST_IP
  | ESPOS_WIFI_EV_TIMER
  | ESPOS_WIFI_EV_PORTAL_CLIENT "int option"
  | ESPOS_WIFI_EV_PORTAL_FAILED
  | ESPOS_WIFI_EV_PORTAL_RECONFIG
  | ESPOS_WIFI_EV_OTHER_NET "bool option"
  | ESPOS_WIFI_EV_PORTAL_FORCE "espos_wifi_portal_force option"

abbreviation (input) ESPOS_WIFI_REASON_NONE :: int where "ESPOS_WIFI_REASON_NONE \<equiv> 0"
abbreviation (input) ESPOS_WIFI_REASON_DHCP_TIMEOUT :: int where "ESPOS_WIFI_REASON_DHCP_TIMEOUT \<equiv> 1001"
abbreviation (input) ESPOS_WIFI_REASON_CONNECT_TIMEOUT :: int where
  "ESPOS_WIFI_REASON_CONNECT_TIMEOUT \<equiv> 1002"
abbreviation (input) ESPOS_WIFI_REASON_LOST_IP :: int where "ESPOS_WIFI_REASON_LOST_IP \<equiv> 1003"
abbreviation (input) ESPOS_WIFI_REASON_CONFIG_CHANGE :: int where "ESPOS_WIFI_REASON_CONFIG_CHANGE \<equiv> 1004"
abbreviation (input) ESPOS_WIFI_REASON_DISABLED :: int where "ESPOS_WIFI_REASON_DISABLED \<equiv> 1005"

definition link_zero :: wifi_link where
  "link_zero = \<lparr>l_ssid = '''', l_bssid = replicate 6 0, l_channel = 0, l_rssi = 0\<rparr>"

definition ip_zero :: wifi_ip where
  "ip_zero = \<lparr>i_ip = '''', i_netmask = '''', i_gateway = ''''\<rparr>"

subsection \<open>The port's calls\<close>

definition set_state :: "espos_wifi_state \<Rightarrow> 'c wifi_sm \<Rightarrow> 'c wifi_sm" where
  "set_state s sm = (if w_state sm \<noteq> s then sm\<lparr>w_state := s\<rparr> else sm)"

definition notify :: "'c wifi_port \<Rightarrow> 'c wifi_sm \<Rightarrow> 'c wifi_sm" where
  "notify p sm = (case p_status_changed p of None \<Rightarrow> sm | Some f \<Rightarrow> sm\<lparr>w_ctx := f (w_ctx sm)\<rparr>)"

definition now :: "'c wifi_port \<Rightarrow> 'c wifi_sm \<Rightarrow> u32 \<times> 'c wifi_sm" where
  "now p sm = (fst (p_now_ms p (w_ctx sm)), sm\<lparr>w_ctx := snd (p_now_ms p (w_ctx sm))\<rparr>)"

definition random :: "'c wifi_port \<Rightarrow> 'c wifi_sm \<Rightarrow> u32 \<times> 'c wifi_sm" where
  "random p sm = (fst (p_random p (w_ctx sm)), sm\<lparr>w_ctx := snd (p_random p (w_ctx sm))\<rparr>)"

definition disconnect :: "'c wifi_port \<Rightarrow> 'c wifi_sm \<Rightarrow> 'c wifi_sm" where
  "disconnect p sm = sm\<lparr>w_ctx := p_disconnect p (w_ctx sm)\<rparr>"

definition arm_timer :: "'c wifi_port \<Rightarrow> u32 \<Rightarrow> 'c wifi_sm \<Rightarrow> 'c wifi_sm" where
  "arm_timer p ms sm = sm\<lparr>w_ctx := p_arm_timer p (w_ctx sm) ms\<rparr>"

definition cancel_timer :: "'c wifi_port \<Rightarrow> 'c wifi_sm \<Rightarrow> 'c wifi_sm" where
  "cancel_timer p sm = sm\<lparr>w_ctx := p_cancel_timer p (w_ctx sm)\<rparr>"

definition espos_wifi_backoff_ms :: "u32 \<Rightarrow> u32 \<Rightarrow> u32 \<Rightarrow> u32" where
  "espos_wifi_backoff_ms round cap_ms rnd =
     (let d = backoff_double (unat round) 1000 (ucast cap_ms);
          d = (if d > ucast cap_ms then ucast cap_ms else d);
          span = (ucast (d div 2) :: u32);
          j = (if span \<noteq> 0 then rnd mod (span + 1) else 0);
          out = d - ucast (span div 2) + ucast j;
          out = (if out < 250 then 250 else out)
      in ucast out)"

subsection \<open>The portal\<close>

definition portal_up :: "'c wifi_port \<Rightarrow> 'c wifi_sm \<Rightarrow> 'c wifi_sm" where
  "portal_up p sm =
     (let sm = (if \<not> w_portal_active sm \<and> c_portal_enabled (w_cfg sm)
                then (case p_portal_start p of
                        None \<Rightarrow> sm
                      | Some f \<Rightarrow>
                          (let (err, c) = f (w_ctx sm); sm = sm\<lparr>w_ctx := c\<rparr>
                           in if err = ESP_OK
                              then sm\<lparr>w_portal_active := True, w_portal_clients := 0\<rparr> else sm))
                else sm)
      in sm\<lparr>w_portal_due_ms := 0\<rparr>)"

definition portal_down :: "'c wifi_port \<Rightarrow> 'c wifi_sm \<Rightarrow> 'c wifi_sm" where
  "portal_down p sm =
     (let sm = (if w_portal_active sm
                then (let sm = (case p_portal_stop p of
                                  None \<Rightarrow> sm | Some f \<Rightarrow> sm\<lparr>w_ctx := f (w_ctx sm)\<rparr>)
                      in sm\<lparr>w_portal_active := False, w_portal_clients := 0\<rparr>)
                else sm)
      in sm\<lparr>w_portal_due_ms := 0\<rparr>)"

definition portal_policy :: "'c wifi_port \<Rightarrow> 'c wifi_sm \<Rightarrow> 'c wifi_sm" where
  "portal_policy p sm =
     (if \<not> c_portal_enabled (w_cfg sm) then portal_down p sm
      else if w_portal_force sm = ESPOS_WIFI_PORTAL_DOWN then portal_down p sm
      else if w_portal_force sm = ESPOS_WIFI_PORTAL_UP then
        (if w_connect_in_flight sm then sm\<lparr>w_portal_due_ms := 0\<rparr> else portal_up p sm)
      else if w_state sm = ESPOS_WIFI_ST_CONNECTED then portal_down p sm
      else if w_other_net_up sm \<and> \<not> c_portal_online (w_cfg sm) then portal_down p sm
      else if w_portal_active sm then sm
      else if c_nets (w_cfg sm) = [] \<or> \<not> c_sta_enabled (w_cfg sm) then portal_up p sm
      else
        (let due = w_disconnected_since_ms sm + c_portal_after_ms (w_cfg sm);
             (t, sm) = now p sm
         in if 0 \<le> sint (t - due) then
              (if w_connect_in_flight sm then sm\<lparr>w_portal_due_ms := 0\<rparr> else portal_up p sm)
            else sm\<lparr>w_portal_due_ms := (if due \<noteq> 0 then due else 1)\<rparr>))"

subsection \<open>The timer\<close>

text \<open>Milliseconds until the portal is due at \<open>t\<close>, at least one.\<close>

definition until_portal :: "u32 \<Rightarrow> u32 \<Rightarrow> u32" where
  "until_portal due t = (if 0 < sint (due - t) then due - t else 1)"

definition arm :: "'c wifi_port \<Rightarrow> u32 \<Rightarrow> bool \<Rightarrow> 'c wifi_sm \<Rightarrow> 'c wifi_sm" where
  "arm p ms is_dhcp sm =
     (let sm = sm\<lparr>w_timer_is_dhcp := is_dhcp, w_timer_is_portal := False\<rparr>;
          (t, sm) = now p sm;
          sm = sm\<lparr>w_state_due_ms := (if t + ms = 0 then 1 else t + ms)\<rparr>;
          (ms, sm) =
            (if w_portal_due_ms sm \<noteq> 0 then
               (let (t, sm) = now p sm; u = until_portal (w_portal_due_ms sm) t
                in if u < ms then (u, sm\<lparr>w_timer_is_portal := True\<rparr>) else (ms, sm))
             else (ms, sm));
          (t, sm) = now p sm;
          sm = sm\<lparr>w_timer_due_ms := (if t + ms = 0 then 1 else t + ms)\<rparr>
      in arm_timer p ms sm)"

definition rearm_state :: "'c wifi_port \<Rightarrow> 'c wifi_sm \<Rightarrow> 'c wifi_sm" where
  "rearm_state p sm =
     (if w_state_due_ms sm = 0 then sm
      else
        (let (t, sm) = now p sm;
             left = w_state_due_ms sm - t;
             is_dhcp = (w_state sm = ESPOS_WIFI_ST_OBTAINING_IP);
             due = w_state_due_ms sm;
             sm = arm p (if 0 < sint left then left else 1) is_dhcp sm
         in sm\<lparr>w_state_due_ms := due\<rparr>))"

definition arm_portal_only :: "'c wifi_port \<Rightarrow> 'c wifi_sm \<Rightarrow> 'c wifi_sm" where
  "arm_portal_only p sm =
     (let sm = sm\<lparr>w_state_due_ms := 0\<rparr>
      in if w_portal_due_ms sm \<noteq> 0 then
           (let (t, sm) = now p sm;
                ms = until_portal (w_portal_due_ms sm) t;
                sm = sm\<lparr>w_timer_is_dhcp := False, w_timer_is_portal := True,
                        w_timer_due_ms := (if t + ms \<noteq> 0 then t + ms else 1)\<rparr>
            in arm_timer p ms sm)
         else cancel_timer p (sm\<lparr>w_timer_due_ms := 0\<rparr>))"

definition rearm_after_policy :: "'c wifi_port \<Rightarrow> 'c wifi_sm \<Rightarrow> 'c wifi_sm" where
  "rearm_after_policy p sm =
     (if w_state_due_ms sm \<noteq> 0 then rearm_state p sm else arm_portal_only p sm)"

subsection \<open>What the helpers leave alone\<close>

lemma set_state_eq: "set_state s sm = sm\<lparr>w_state := s\<rparr>"
  by (simp add: set_state_def)

lemmas port_simps = now_def random_def disconnect_def arm_timer_def cancel_timer_def set_state_eq

text \<open>
  The portal's operations touch the portal's own fields and the port; the timer's operations
  the deadlines and the port; notifying touches the port only.
\<close>

lemma notify_frame [frame, simp]:
  "w_cfg (notify p sm) = w_cfg sm" "w_state (notify p sm) = w_state sm"
  "w_sta_enabled (notify p sm) = w_sta_enabled sm" "w_net_index (notify p sm) = w_net_index sm"
  "w_reason (notify p sm) = w_reason sm" "w_attempt (notify p sm) = w_attempt sm"
  "w_round (notify p sm) = w_round sm"
  "w_disconnected_since_ms (notify p sm) = w_disconnected_since_ms sm"
  "w_backoff_until_ms (notify p sm) = w_backoff_until_ms sm"
  "w_portal_active (notify p sm) = w_portal_active sm"
  "w_portal_clients (notify p sm) = w_portal_clients sm"
  "w_portal_force (notify p sm) = w_portal_force sm" "w_started (notify p sm) = w_started sm"
  "w_timer_is_portal (notify p sm) = w_timer_is_portal sm"
  "w_portal_due_ms (notify p sm) = w_portal_due_ms sm"
  "w_state_due_ms (notify p sm) = w_state_due_ms sm"
  "w_timer_due_ms (notify p sm) = w_timer_due_ms sm"
  "w_connect_in_flight (notify p sm) = w_connect_in_flight sm"
  "w_other_net_up (notify p sm) = w_other_net_up sm"
  "w_connect_count (notify p sm) = w_connect_count sm"
  "w_disconnect_count (notify p sm) = w_disconnect_count sm"
  by (simp_all add: notify_def split: option.splits)

lemma disconnect_frame [frame, simp]:
  "w_cfg (disconnect p sm) = w_cfg sm" "w_state (disconnect p sm) = w_state sm"
  "w_sta_enabled (disconnect p sm) = w_sta_enabled sm"
  "w_net_index (disconnect p sm) = w_net_index sm" "w_reason (disconnect p sm) = w_reason sm"
  "w_attempt (disconnect p sm) = w_attempt sm" "w_round (disconnect p sm) = w_round sm"
  "w_disconnected_since_ms (disconnect p sm) = w_disconnected_since_ms sm"
  "w_backoff_until_ms (disconnect p sm) = w_backoff_until_ms sm"
  "w_portal_active (disconnect p sm) = w_portal_active sm"
  "w_portal_clients (disconnect p sm) = w_portal_clients sm"
  "w_portal_force (disconnect p sm) = w_portal_force sm"
  "w_started (disconnect p sm) = w_started sm"
  "w_timer_is_portal (disconnect p sm) = w_timer_is_portal sm"
  "w_portal_due_ms (disconnect p sm) = w_portal_due_ms sm"
  "w_state_due_ms (disconnect p sm) = w_state_due_ms sm"
  "w_timer_due_ms (disconnect p sm) = w_timer_due_ms sm"
  "w_connect_in_flight (disconnect p sm) = w_connect_in_flight sm"
  "w_other_net_up (disconnect p sm) = w_other_net_up sm"
  "w_connect_count (disconnect p sm) = w_connect_count sm"
  "w_disconnect_count (disconnect p sm) = w_disconnect_count sm"
  by (simp_all add: port_simps)

lemma portal_up_frame [frame, simp]:
  "w_cfg (portal_up p sm) = w_cfg sm" "w_state (portal_up p sm) = w_state sm"
  "w_sta_enabled (portal_up p sm) = w_sta_enabled sm"
  "w_net_index (portal_up p sm) = w_net_index sm" "w_reason (portal_up p sm) = w_reason sm"
  "w_attempt (portal_up p sm) = w_attempt sm" "w_round (portal_up p sm) = w_round sm"
  "w_disconnected_since_ms (portal_up p sm) = w_disconnected_since_ms sm"
  "w_backoff_until_ms (portal_up p sm) = w_backoff_until_ms sm"
  "w_portal_force (portal_up p sm) = w_portal_force sm"
  "w_started (portal_up p sm) = w_started sm"
  "w_timer_is_portal (portal_up p sm) = w_timer_is_portal sm"
  "w_state_due_ms (portal_up p sm) = w_state_due_ms sm"
  "w_timer_due_ms (portal_up p sm) = w_timer_due_ms sm"
  "w_connect_in_flight (portal_up p sm) = w_connect_in_flight sm"
  "w_other_net_up (portal_up p sm) = w_other_net_up sm"
  "w_connect_count (portal_up p sm) = w_connect_count sm"
  "w_disconnect_count (portal_up p sm) = w_disconnect_count sm"
  by (simp_all add: portal_up_def Let_def split: option.splits prod.splits)

lemma portal_down_frame [frame, simp]:
  "w_cfg (portal_down p sm) = w_cfg sm" "w_state (portal_down p sm) = w_state sm"
  "w_sta_enabled (portal_down p sm) = w_sta_enabled sm"
  "w_net_index (portal_down p sm) = w_net_index sm" "w_reason (portal_down p sm) = w_reason sm"
  "w_attempt (portal_down p sm) = w_attempt sm" "w_round (portal_down p sm) = w_round sm"
  "w_disconnected_since_ms (portal_down p sm) = w_disconnected_since_ms sm"
  "w_backoff_until_ms (portal_down p sm) = w_backoff_until_ms sm"
  "w_portal_force (portal_down p sm) = w_portal_force sm"
  "w_started (portal_down p sm) = w_started sm"
  "w_timer_is_portal (portal_down p sm) = w_timer_is_portal sm"
  "w_state_due_ms (portal_down p sm) = w_state_due_ms sm"
  "w_timer_due_ms (portal_down p sm) = w_timer_due_ms sm"
  "w_connect_in_flight (portal_down p sm) = w_connect_in_flight sm"
  "w_other_net_up (portal_down p sm) = w_other_net_up sm"
  "w_connect_count (portal_down p sm) = w_connect_count sm"
  "w_disconnect_count (portal_down p sm) = w_disconnect_count sm"
  by (simp_all add: portal_down_def Let_def split: option.splits)

lemma portal_policy_frame [frame, simp]:
  "w_cfg (portal_policy p sm) = w_cfg sm" "w_state (portal_policy p sm) = w_state sm"
  "w_sta_enabled (portal_policy p sm) = w_sta_enabled sm"
  "w_net_index (portal_policy p sm) = w_net_index sm"
  "w_reason (portal_policy p sm) = w_reason sm" "w_attempt (portal_policy p sm) = w_attempt sm"
  "w_round (portal_policy p sm) = w_round sm"
  "w_disconnected_since_ms (portal_policy p sm) = w_disconnected_since_ms sm"
  "w_backoff_until_ms (portal_policy p sm) = w_backoff_until_ms sm"
  "w_portal_force (portal_policy p sm) = w_portal_force sm"
  "w_started (portal_policy p sm) = w_started sm"
  "w_timer_is_portal (portal_policy p sm) = w_timer_is_portal sm"
  "w_state_due_ms (portal_policy p sm) = w_state_due_ms sm"
  "w_timer_due_ms (portal_policy p sm) = w_timer_due_ms sm"
  "w_connect_in_flight (portal_policy p sm) = w_connect_in_flight sm"
  "w_other_net_up (portal_policy p sm) = w_other_net_up sm"
  "w_connect_count (portal_policy p sm) = w_connect_count sm"
  "w_disconnect_count (portal_policy p sm) = w_disconnect_count sm"
  by (simp_all add: portal_policy_def Let_def port_simps)

lemma arm_frame [frame, simp]:
  "w_cfg (arm p ms d sm) = w_cfg sm" "w_state (arm p ms d sm) = w_state sm"
  "w_sta_enabled (arm p ms d sm) = w_sta_enabled sm"
  "w_net_index (arm p ms d sm) = w_net_index sm" "w_reason (arm p ms d sm) = w_reason sm"
  "w_attempt (arm p ms d sm) = w_attempt sm" "w_round (arm p ms d sm) = w_round sm"
  "w_disconnected_since_ms (arm p ms d sm) = w_disconnected_since_ms sm"
  "w_backoff_until_ms (arm p ms d sm) = w_backoff_until_ms sm"
  "w_portal_active (arm p ms d sm) = w_portal_active sm"
  "w_portal_clients (arm p ms d sm) = w_portal_clients sm"
  "w_portal_force (arm p ms d sm) = w_portal_force sm" "w_started (arm p ms d sm) = w_started sm"
  "w_portal_due_ms (arm p ms d sm) = w_portal_due_ms sm"
  "w_connect_in_flight (arm p ms d sm) = w_connect_in_flight sm"
  "w_other_net_up (arm p ms d sm) = w_other_net_up sm"
  "w_connect_count (arm p ms d sm) = w_connect_count sm"
  "w_disconnect_count (arm p ms d sm) = w_disconnect_count sm"
  by (simp_all add: arm_def Let_def port_simps split_beta)

lemma rearm_state_frame [frame, simp]:
  "w_cfg (rearm_state p sm) = w_cfg sm" "w_state (rearm_state p sm) = w_state sm"
  "w_sta_enabled (rearm_state p sm) = w_sta_enabled sm"
  "w_net_index (rearm_state p sm) = w_net_index sm" "w_reason (rearm_state p sm) = w_reason sm"
  "w_attempt (rearm_state p sm) = w_attempt sm" "w_round (rearm_state p sm) = w_round sm"
  "w_disconnected_since_ms (rearm_state p sm) = w_disconnected_since_ms sm"
  "w_backoff_until_ms (rearm_state p sm) = w_backoff_until_ms sm"
  "w_portal_active (rearm_state p sm) = w_portal_active sm"
  "w_portal_clients (rearm_state p sm) = w_portal_clients sm"
  "w_portal_force (rearm_state p sm) = w_portal_force sm"
  "w_started (rearm_state p sm) = w_started sm"
  "w_portal_due_ms (rearm_state p sm) = w_portal_due_ms sm"
  "w_connect_in_flight (rearm_state p sm) = w_connect_in_flight sm"
  "w_other_net_up (rearm_state p sm) = w_other_net_up sm"
  "w_connect_count (rearm_state p sm) = w_connect_count sm"
  "w_disconnect_count (rearm_state p sm) = w_disconnect_count sm"
  by (simp_all add: rearm_state_def Let_def port_simps)

lemma arm_portal_only_frame [frame, simp]:
  "w_cfg (arm_portal_only p sm) = w_cfg sm" "w_state (arm_portal_only p sm) = w_state sm"
  "w_sta_enabled (arm_portal_only p sm) = w_sta_enabled sm"
  "w_net_index (arm_portal_only p sm) = w_net_index sm"
  "w_reason (arm_portal_only p sm) = w_reason sm"
  "w_attempt (arm_portal_only p sm) = w_attempt sm" "w_round (arm_portal_only p sm) = w_round sm"
  "w_disconnected_since_ms (arm_portal_only p sm) = w_disconnected_since_ms sm"
  "w_backoff_until_ms (arm_portal_only p sm) = w_backoff_until_ms sm"
  "w_portal_active (arm_portal_only p sm) = w_portal_active sm"
  "w_portal_clients (arm_portal_only p sm) = w_portal_clients sm"
  "w_portal_force (arm_portal_only p sm) = w_portal_force sm"
  "w_started (arm_portal_only p sm) = w_started sm"
  "w_portal_due_ms (arm_portal_only p sm) = w_portal_due_ms sm"
  "w_connect_in_flight (arm_portal_only p sm) = w_connect_in_flight sm"
  "w_other_net_up (arm_portal_only p sm) = w_other_net_up sm"
  "w_connect_count (arm_portal_only p sm) = w_connect_count sm"
  "w_disconnect_count (arm_portal_only p sm) = w_disconnect_count sm"
  by (simp_all add: arm_portal_only_def Let_def port_simps)

lemma rearm_after_policy_frame [frame, simp]:
  "w_cfg (rearm_after_policy p sm) = w_cfg sm" "w_state (rearm_after_policy p sm) = w_state sm"
  "w_sta_enabled (rearm_after_policy p sm) = w_sta_enabled sm"
  "w_net_index (rearm_after_policy p sm) = w_net_index sm"
  "w_reason (rearm_after_policy p sm) = w_reason sm"
  "w_attempt (rearm_after_policy p sm) = w_attempt sm"
  "w_round (rearm_after_policy p sm) = w_round sm"
  "w_disconnected_since_ms (rearm_after_policy p sm) = w_disconnected_since_ms sm"
  "w_backoff_until_ms (rearm_after_policy p sm) = w_backoff_until_ms sm"
  "w_portal_active (rearm_after_policy p sm) = w_portal_active sm"
  "w_portal_clients (rearm_after_policy p sm) = w_portal_clients sm"
  "w_portal_force (rearm_after_policy p sm) = w_portal_force sm"
  "w_started (rearm_after_policy p sm) = w_started sm"
  "w_portal_due_ms (rearm_after_policy p sm) = w_portal_due_ms sm"
  "w_connect_in_flight (rearm_after_policy p sm) = w_connect_in_flight sm"
  "w_other_net_up (rearm_after_policy p sm) = w_other_net_up sm"
  "w_connect_count (rearm_after_policy p sm) = w_connect_count sm"
  "w_disconnect_count (rearm_after_policy p sm) = w_disconnect_count sm"
  by (simp_all add: rearm_after_policy_def)

subsection \<open>Transitions\<close>

text \<open>
  The parts of \<open>start_attempt\<close> and \<open>attempt_failed\<close> that do not call the other: no
  network to try, the connect call itself, a connect the driver took, and the end of a round.
\<close>

definition no_network :: "'c wifi_port \<Rightarrow> 'c wifi_sm \<Rightarrow> 'c wifi_sm" where
  "no_network p sm =
     (let sm = set_state ESPOS_WIFI_ST_UNCONFIGURED sm;
          sm = sm\<lparr>w_net_index := -1, w_connect_in_flight := False\<rparr>;
          sm = portal_policy p sm;
          sm = arm_portal_only p sm
      in notify p sm)"

definition net_index_fix :: "'c wifi_sm \<Rightarrow> 'c wifi_sm" where
  "net_index_fix sm =
     (if w_net_index sm < 0 \<or> length (c_nets (w_cfg sm)) \<le> nat (w_net_index sm)
      then sm\<lparr>w_net_index := 0\<rparr> else sm)"

definition issue_connect :: "'c wifi_port \<Rightarrow> 'c wifi_sm \<Rightarrow> esp_err \<times> 'c wifi_sm" where
  "issue_connect p sm =
     (let sm = net_index_fix sm;
          sm = sm\<lparr>w_attempt := w_attempt sm + 1\<rparr>;
          sm = set_state ESPOS_WIFI_ST_CONNECTING sm;
          sm = sm\<lparr>w_link := link_zero, w_ip := ip_zero\<rparr>;
          (err, c) = p_connect p (w_ctx sm) (c_nets (w_cfg sm) ! nat (w_net_index sm))
      in (err, sm\<lparr>w_ctx := c\<rparr>))"

definition attempt_issued :: "'c wifi_port \<Rightarrow> 'c wifi_sm \<Rightarrow> 'c wifi_sm" where
  "attempt_issued p sm =
     (let sm = sm\<lparr>w_connect_in_flight := True\<rparr>;
          sm = portal_policy p sm;
          sm = arm p (c_connect_timeout_ms (w_cfg sm)) False sm
      in notify p sm)"

definition round_done :: "'c wifi_port \<Rightarrow> 'c wifi_sm \<Rightarrow> 'c wifi_sm" where
  "round_done p sm =
     (let sm = sm\<lparr>w_net_index := 0\<rparr>;
          (rnd, sm) = random p sm;
          delay = espos_wifi_backoff_ms (w_round sm) (c_backoff_max_ms (w_cfg sm)) rnd;
          sm = (if w_round sm < 30 then sm\<lparr>w_round := w_round sm + 1\<rparr> else sm);
          sm = set_state ESPOS_WIFI_ST_BACKOFF sm;
          (t, sm) = now p sm;
          sm = sm\<lparr>w_backoff_until_ms := t + delay\<rparr>;
          sm = portal_policy p sm;
          sm = arm p delay False sm
      in notify p sm)"

definition next_network :: "'c wifi_sm \<Rightarrow> bool" where
  "next_network sm \<longleftrightarrow>
     0 \<le> w_net_index sm + 1 \<and> nat (w_net_index sm + 1) < length (c_nets (w_cfg sm))"

text \<open>How far from the end of the network list: what makes the recursion stop.\<close>

definition nets_left :: "'c wifi_sm \<Rightarrow> nat" where
  "nets_left sm =
     (let n = length (c_nets (w_cfg sm))
      in if w_net_index sm < 0 \<or> n \<le> nat (w_net_index sm) then n else n - nat (w_net_index sm))"

function start_attempt :: "'c wifi_port \<Rightarrow> 'c wifi_sm \<Rightarrow> 'c wifi_sm"
  and attempt_failed :: "'c wifi_port \<Rightarrow> int \<Rightarrow> 'c wifi_sm \<Rightarrow> 'c wifi_sm" where
  "start_attempt p sm =
     (if c_nets (w_cfg sm) = [] then no_network p sm
      else
        (let (err, sm) = issue_connect p sm
         in if err \<noteq> ESP_OK
            then attempt_failed p ESPOS_WIFI_REASON_CONNECT_TIMEOUT
                   (sm\<lparr>w_reason := ESPOS_WIFI_REASON_CONNECT_TIMEOUT\<rparr>)
            else attempt_issued p sm))"
| "attempt_failed p reason sm =
     (let sm = sm\<lparr>w_reason := reason, w_connect_in_flight := False\<rparr>
      in if w_state sm = ESPOS_WIFI_ST_CONNECTED then
           (let sm = sm\<lparr>w_disconnect_count := w_disconnect_count sm + 1\<rparr>;
                (t, sm) = now p sm;
                sm = sm\<lparr>w_disconnected_since_ms := t\<rparr>
            in start_attempt p sm)
         else if next_network sm then
           (let sm = sm\<lparr>w_net_index := w_net_index sm + 1\<rparr>;
                sm = sm\<lparr>w_connect_in_flight := False\<rparr>;
                sm = portal_policy p sm
            in start_attempt p sm)
         else round_done p sm)"
  by pat_completeness auto

lemma issue_connect_frame [frame, simp]:
  "w_cfg (snd (issue_connect p sm)) = w_cfg sm"
  "w_sta_enabled (snd (issue_connect p sm)) = w_sta_enabled sm"
  "w_reason (snd (issue_connect p sm)) = w_reason sm"
  "w_round (snd (issue_connect p sm)) = w_round sm"
  "w_disconnected_since_ms (snd (issue_connect p sm)) = w_disconnected_since_ms sm"
  "w_backoff_until_ms (snd (issue_connect p sm)) = w_backoff_until_ms sm"
  "w_portal_active (snd (issue_connect p sm)) = w_portal_active sm"
  "w_portal_clients (snd (issue_connect p sm)) = w_portal_clients sm"
  "w_portal_force (snd (issue_connect p sm)) = w_portal_force sm"
  "w_started (snd (issue_connect p sm)) = w_started sm"
  "w_timer_is_portal (snd (issue_connect p sm)) = w_timer_is_portal sm"
  "w_portal_due_ms (snd (issue_connect p sm)) = w_portal_due_ms sm"
  "w_state_due_ms (snd (issue_connect p sm)) = w_state_due_ms sm"
  "w_timer_due_ms (snd (issue_connect p sm)) = w_timer_due_ms sm"
  "w_connect_in_flight (snd (issue_connect p sm)) = w_connect_in_flight sm"
  "w_other_net_up (snd (issue_connect p sm)) = w_other_net_up sm"
  "w_connect_count (snd (issue_connect p sm)) = w_connect_count sm"
  "w_disconnect_count (snd (issue_connect p sm)) = w_disconnect_count sm"
  by (simp_all add: issue_connect_def net_index_fix_def Let_def set_state_eq split_beta)

lemma issue_connect_fields [simp]:
  "w_state (snd (issue_connect p sm)) = ESPOS_WIFI_ST_CONNECTING"
  "w_net_index (snd (issue_connect p sm)) = w_net_index (net_index_fix sm)"
  "w_attempt (snd (issue_connect p sm)) = w_attempt sm + 1"
  by (simp_all add: issue_connect_def net_index_fix_def Let_def set_state_eq split_beta)

lemma net_index_fix_range:
  "c_nets (w_cfg sm) \<noteq> [] \<Longrightarrow> 0 \<le> w_net_index (net_index_fix sm) \<and>
     w_net_index (net_index_fix sm) < int (length (c_nets (w_cfg sm)))"
  by (auto simp: net_index_fix_def zless_nat_eq_int_zless)

lemma nets_left_connect: "nets_left (snd (issue_connect p sm)) = nets_left sm"
  by (simp add: nets_left_def net_index_fix_def Let_def)

lemma nets_left_reason [simp]: "nets_left (sm\<lparr>w_reason := r\<rparr>) = nets_left sm"
  by (simp add: nets_left_def Let_def)

lemma nets_left_pos: "c_nets (w_cfg sm) \<noteq> [] \<Longrightarrow> 0 < nets_left sm"
  by (auto simp: nets_left_def Let_def)

termination start_attempt
proof (relation "measure (\<lambda>x. case x of
      Inl (p, sm) \<Rightarrow> 2 * nets_left sm
    | Inr (p, reason, sm) \<Rightarrow>
        if w_state sm \<noteq> ESPOS_WIFI_ST_CONNECTED \<and> 0 \<le> w_net_index sm
        then 2 * nets_left sm - 1 else 2 * nets_left sm + 1)", goal_cases)
  case 1
  show ?case by simp
next
  case (2 p sm x err sm')
  then have sm': "sm' = snd (issue_connect p sm)" by (metis snd_conv)
  have "nets_left (sm'\<lparr>w_reason := r\<rparr>) = nets_left sm" for r
    by (simp add: sm' nets_left_connect)
  moreover have "0 < nets_left sm" using 2(1) by (rule nets_left_pos)
  moreover have "0 \<le> w_net_index sm'" using net_index_fix_range [OF 2(1)] by (simp add: sm')
  ultimately show ?case by (simp add: sm')
next
  case (3 p reason sm)
  then show ?case by (auto simp: nets_left_def port_simps Let_def)
next
  case (4 p reason sm)
  then show ?case by (auto simp: nets_left_def next_network_def Let_def nat_add_distrib)
qed

declare start_attempt.simps [simp del] attempt_failed.simps [simp del]

definition associating :: "espos_wifi_state \<Rightarrow> bool" where
  "associating s \<longleftrightarrow> s = ESPOS_WIFI_ST_CONNECTED \<or> s = ESPOS_WIFI_ST_OBTAINING_IP \<or>
     s = ESPOS_WIFI_ST_CONNECTING"

definition go_idle :: "'c wifi_port \<Rightarrow> espos_wifi_state \<Rightarrow> int \<Rightarrow> 'c wifi_sm \<Rightarrow> 'c wifi_sm" where
  "go_idle p s reason sm =
     (let sm = (if associating (w_state sm) then disconnect p sm else sm);
          sm = (if w_state sm = ESPOS_WIFI_ST_CONNECTED
                then sm\<lparr>w_disconnect_count := w_disconnect_count sm + 1\<rparr> else sm);
          sm = sm\<lparr>w_reason := reason, w_net_index := -1\<rparr>;
          (t, sm) = now p sm;
          sm = sm\<lparr>w_disconnected_since_ms := t, w_link := link_zero, w_ip := ip_zero,
                  w_connect_in_flight := False\<rparr>;
          sm = set_state s sm;
          sm = portal_policy p sm;
          sm = arm_portal_only p sm
      in notify p sm)"

subsection \<open>Init, status and configuration comparison\<close>

definition espos_wifi_sm_init :: "'c \<Rightarrow> wifi_cfg \<Rightarrow> 'c wifi_sm" where
  "espos_wifi_sm_init ctx cfg =
     \<lparr>w_ctx = ctx, w_cfg = cfg, w_state = ESPOS_WIFI_ST_DISABLED, w_sta_enabled = c_sta_enabled cfg,
      w_net_index = -1, w_link = link_zero, w_ip = ip_zero, w_reason = 0, w_backoff_until_ms = 0,
      w_attempt = 0, w_round = 0, w_connected_since_ms = 0, w_disconnected_since_ms = 0,
      w_connect_count = 0, w_disconnect_count = 0, w_portal_active = False, w_portal_clients = 0,
      w_portal_force = ESPOS_WIFI_PORTAL_AUTO, w_started = False, w_timer_is_dhcp = False,
      w_timer_is_portal = False, w_portal_due_ms = 0, w_state_due_ms = 0, w_timer_due_ms = 0,
      w_connect_in_flight = False, w_other_net_up = False\<rparr>"

definition espos_wifi_sm_backoff_remaining_ms :: "'c wifi_port \<Rightarrow> 'c wifi_sm \<Rightarrow> u32 \<times> 'c wifi_sm" where
  "espos_wifi_sm_backoff_remaining_ms p sm =
     (if w_state sm \<noteq> ESPOS_WIFI_ST_BACKOFF then (0, sm)
      else (let (t, sm) = now p sm; d = w_backoff_until_ms sm - t
            in (if 0 < sint d then d else 0, sm)))"

definition net_same :: "wifi_net \<Rightarrow> wifi_net \<Rightarrow> bool" where
  "net_same a b \<longleftrightarrow> n_ssid a = n_ssid b \<and> n_psk a = n_psk b \<and> n_has_bssid a = n_has_bssid b \<and>
     (n_has_bssid a \<longrightarrow> n_bssid a = n_bssid b)"

definition nets_equal :: "wifi_cfg \<Rightarrow> wifi_cfg \<Rightarrow> bool" where
  "nets_equal a b \<longleftrightarrow> list_all2 net_same (c_nets a) (c_nets b)"

fun find_net :: "wifi_net \<Rightarrow> wifi_net list \<Rightarrow> nat option" where
  "find_net cur [] = None"
| "find_net cur (n # ns) = (if net_same n cur then Some 0 else map_option Suc (find_net cur ns))"

definition current_net_still_valid :: "'c wifi_sm \<Rightarrow> wifi_cfg \<Rightarrow> nat option" where
  "current_net_still_valid sm ncfg =
     (if w_net_index sm < 0 \<or> length (c_nets (w_cfg sm)) \<le> nat (w_net_index sm) then None
      else find_net (c_nets (w_cfg sm) ! nat (w_net_index sm)) (c_nets ncfg))"

subsection \<open>Events\<close>

definition ev_start :: "'c wifi_port \<Rightarrow> 'c wifi_sm \<Rightarrow> 'c wifi_sm" where
  "ev_start p sm =
     (if w_started sm then sm
      else
        (let sm = sm\<lparr>w_started := True\<rparr>;
             (t, sm) = now p sm;
             sm = sm\<lparr>w_disconnected_since_ms := t, w_round := 0, w_attempt := 0\<rparr>
         in if \<not> c_sta_enabled (w_cfg sm)
            then go_idle p ESPOS_WIFI_ST_DISABLED ESPOS_WIFI_REASON_DISABLED sm
            else start_attempt p (sm\<lparr>w_net_index := 0\<rparr>)))"

definition ev_stop :: "'c wifi_port \<Rightarrow> 'c wifi_sm \<Rightarrow> 'c wifi_sm" where
  "ev_stop p sm =
     (if \<not> w_started sm then sm
      else
        (let sm = cancel_timer p sm;
             sm = sm\<lparr>w_timer_due_ms := 0, w_state_due_ms := 0\<rparr>;
             sm = portal_down p sm;
             sm = (if associating (w_state sm) then disconnect p sm else sm);
             sm = sm\<lparr>w_started := False\<rparr>;
             sm = set_state ESPOS_WIFI_ST_DISABLED sm;
             sm = sm\<lparr>w_net_index := -1\<rparr>
         in notify p sm))"

text \<open>\<open>EV_CONFIG\<close>: knobs that leave the networks and the switch alone, and a new network list.\<close>

definition config_knobs :: "'c wifi_port \<Rightarrow> wifi_cfg \<Rightarrow> 'c wifi_sm \<Rightarrow> 'c wifi_sm" where
  "config_knobs p ncfg sm =
     (let sm = sm\<lparr>w_cfg := ncfg\<rparr>
      in if w_started sm then
           (let sm = portal_policy p sm;
                sm = (if w_state sm = ESPOS_WIFI_ST_UNCONFIGURED \<or> w_state sm = ESPOS_WIFI_ST_DISABLED
                      then arm_portal_only p sm else sm)
            in notify p sm)
         else sm)"

definition config_nets :: "'c wifi_port \<Rightarrow> wifi_cfg \<Rightarrow> 'c wifi_sm \<Rightarrow> 'c wifi_sm" where
  "config_nets p ncfg sm =
     (let keep = (if w_started sm \<and> c_sta_enabled ncfg \<and>
                     (w_state sm = ESPOS_WIFI_ST_CONNECTED \<or> w_state sm = ESPOS_WIFI_ST_OBTAINING_IP)
                  then current_net_still_valid sm ncfg else None);
          sm = sm\<lparr>w_cfg := ncfg, w_sta_enabled := c_sta_enabled ncfg\<rparr>
      in if \<not> w_started sm then sm
         else (case keep of
                 Some i \<Rightarrow> notify p (portal_policy p (sm\<lparr>w_net_index := int i\<rparr>))
               | None \<Rightarrow>
                   if \<not> c_sta_enabled ncfg
                   then go_idle p ESPOS_WIFI_ST_DISABLED ESPOS_WIFI_REASON_DISABLED sm
                   else
                     (let sm = (if associating (w_state sm) then
                                  (let sm = disconnect p sm
                                   in if w_state sm = ESPOS_WIFI_ST_CONNECTED then
                                        (let sm = sm\<lparr>w_disconnect_count := w_disconnect_count sm + 1\<rparr>;
                                             (t, sm) = now p sm
                                         in sm\<lparr>w_disconnected_since_ms := t\<rparr>)
                                      else sm)
                                else sm)
                      in start_attempt p
                           (sm\<lparr>w_reason := ESPOS_WIFI_REASON_CONFIG_CHANGE, w_round := 0,
                              w_attempt := 0, w_net_index := 0\<rparr>))))"

definition ev_config :: "'c wifi_port \<Rightarrow> wifi_cfg \<Rightarrow> 'c wifi_sm \<Rightarrow> 'c wifi_sm" where
  "ev_config p ncfg sm =
     (if ncfg = w_cfg sm then sm
      else if nets_equal ncfg (w_cfg sm) \<and> c_sta_enabled ncfg = c_sta_enabled (w_cfg sm)
      then config_knobs p ncfg sm
      else config_nets p ncfg sm)"

definition ev_sta_connected :: "'c wifi_port \<Rightarrow> wifi_link option \<Rightarrow> 'c wifi_sm \<Rightarrow> 'c wifi_sm" where
  "ev_sta_connected p arg sm =
     (if w_state sm \<noteq> ESPOS_WIFI_ST_CONNECTING then sm
      else
        (let sm = (case arg of None \<Rightarrow> sm | Some l \<Rightarrow> sm\<lparr>w_link := l\<rparr>);
             sm = sm\<lparr>w_connect_in_flight := False\<rparr>;
             sm = set_state ESPOS_WIFI_ST_OBTAINING_IP sm;
             sm = portal_policy p sm;
             sm = arm p (c_dhcp_timeout_ms (w_cfg sm)) True sm
         in notify p sm))"

definition ev_sta_disconnected :: "'c wifi_port \<Rightarrow> int option \<Rightarrow> 'c wifi_sm \<Rightarrow> 'c wifi_sm" where
  "ev_sta_disconnected p arg sm =
     (if associating (w_state sm)
      then attempt_failed p (case arg of None \<Rightarrow> 0 | Some r \<Rightarrow> r) sm else sm)"

definition ev_got_ip :: "'c wifi_port \<Rightarrow> wifi_ip option \<Rightarrow> 'c wifi_sm \<Rightarrow> 'c wifi_sm" where
  "ev_got_ip p arg sm =
     (if w_state sm \<noteq> ESPOS_WIFI_ST_OBTAINING_IP \<and> w_state sm \<noteq> ESPOS_WIFI_ST_CONNECTED then sm
      else
        (let sm = (case arg of None \<Rightarrow> sm | Some ip \<Rightarrow> sm\<lparr>w_ip := ip\<rparr>);
             sm = (if w_state sm \<noteq> ESPOS_WIFI_ST_CONNECTED then
                     (let sm = sm\<lparr>w_connect_count := w_connect_count sm + 1\<rparr>;
                          (t, sm) = now p sm
                      in sm\<lparr>w_connected_since_ms := t, w_round := 0, w_attempt := 0,
                            w_reason := ESPOS_WIFI_REASON_NONE\<rparr>)
                   else sm);
             sm = set_state ESPOS_WIFI_ST_CONNECTED sm;
             sm = cancel_timer p sm;
             sm = sm\<lparr>w_timer_is_dhcp := False, w_state_due_ms := 0, w_timer_due_ms := 0\<rparr>;
             sm = portal_policy p sm
         in notify p sm))"

definition ev_lost_ip :: "'c wifi_port \<Rightarrow> 'c wifi_sm \<Rightarrow> 'c wifi_sm" where
  "ev_lost_ip p sm =
     (if w_state sm = ESPOS_WIFI_ST_CONNECTED then
        (let sm = sm\<lparr>w_disconnect_count := w_disconnect_count sm + 1\<rparr>;
             (t, sm) = now p sm;
             sm = sm\<lparr>w_disconnected_since_ms := t, w_ip := ip_zero,
                     w_reason := ESPOS_WIFI_REASON_LOST_IP\<rparr>;
             sm = set_state ESPOS_WIFI_ST_OBTAINING_IP sm;
             sm = portal_policy p sm;
             sm = arm p (c_dhcp_timeout_ms (w_cfg sm)) True sm
         in notify p sm)
      else sm)"

definition timer_portal :: "'c wifi_port \<Rightarrow> 'c wifi_sm \<Rightarrow> 'c wifi_sm" where
  "timer_portal p sm =
     (let sm = sm\<lparr>w_timer_is_portal := False\<rparr>;
          sm = portal_policy p sm;
          sm = (case w_state sm of
                  ESPOS_WIFI_ST_BACKOFF \<Rightarrow>
                    (let (left, sm) = espos_wifi_sm_backoff_remaining_ms p sm
                     in if left = 0 then start_attempt p sm else rearm_state p sm)
                | ESPOS_WIFI_ST_CONNECTING \<Rightarrow> rearm_state p sm
                | ESPOS_WIFI_ST_OBTAINING_IP \<Rightarrow> rearm_state p sm
                | _ \<Rightarrow> arm_portal_only p sm)
      in notify p sm)"

definition timer_state :: "'c wifi_port \<Rightarrow> 'c wifi_sm \<Rightarrow> 'c wifi_sm" where
  "timer_state p sm =
     (let sm = sm\<lparr>w_state_due_ms := 0\<rparr>
      in case w_state sm of
           ESPOS_WIFI_ST_BACKOFF \<Rightarrow> start_attempt p sm
         | ESPOS_WIFI_ST_CONNECTING \<Rightarrow>
             attempt_failed p ESPOS_WIFI_REASON_CONNECT_TIMEOUT (disconnect p sm)
         | ESPOS_WIFI_ST_OBTAINING_IP \<Rightarrow>
             attempt_failed p ESPOS_WIFI_REASON_DHCP_TIMEOUT (disconnect p sm)
         | _ \<Rightarrow> sm)"

definition ev_timer :: "'c wifi_port \<Rightarrow> 'c wifi_sm \<Rightarrow> 'c wifi_sm" where
  "ev_timer p sm =
     (if \<not> w_started sm \<or> w_timer_due_ms sm = 0 then sm
      else
        (let (t, sm) = now p sm
         in if sint (t - w_timer_due_ms sm) < 0 then sm
            else
              (let sm = sm\<lparr>w_timer_due_ms := 0\<rparr>
               in if w_timer_is_portal sm then timer_portal p sm else timer_state p sm)))"

definition ev_portal_client :: "'c wifi_port \<Rightarrow> int option \<Rightarrow> 'c wifi_sm \<Rightarrow> 'c wifi_sm" where
  "ev_portal_client p arg sm =
     notify p (sm\<lparr>w_portal_clients :=
       (case arg of None \<Rightarrow> 0 | Some n \<Rightarrow> if w_portal_active sm then n else 0)\<rparr>)"

definition ev_portal_failed :: "'c wifi_port \<Rightarrow> 'c wifi_sm \<Rightarrow> 'c wifi_sm" where
  "ev_portal_failed p sm =
     (if w_portal_active sm then
        (let sm = sm\<lparr>w_portal_active := False, w_portal_clients := 0\<rparr>;
             (t, sm) = now p sm;
             sm = sm\<lparr>w_portal_due_ms := (if t + 10000 = 0 then 1 else t + 10000)\<rparr>;
             sm = (if w_state_due_ms sm \<noteq> 0 then rearm_state p sm else arm_portal_only p sm)
         in notify p sm)
      else sm)"

definition ev_portal_reconfig :: "'c wifi_port \<Rightarrow> 'c wifi_sm \<Rightarrow> 'c wifi_sm" where
  "ev_portal_reconfig p sm =
     (if w_portal_active sm then notify p (portal_policy p (portal_down p sm)) else sm)"

definition ev_other_net :: "'c wifi_port \<Rightarrow> bool option \<Rightarrow> 'c wifi_sm \<Rightarrow> 'c wifi_sm" where
  "ev_other_net p arg sm =
     (let up = (case arg of None \<Rightarrow> False | Some b \<Rightarrow> b)
      in if up = w_other_net_up sm then sm
         else
           (let sm = sm\<lparr>w_other_net_up := up\<rparr>
            in if \<not> w_started sm then sm
               else notify p (rearm_after_policy p (portal_policy p sm))))"

definition ev_portal_force ::
  "'c wifi_port \<Rightarrow> espos_wifi_portal_force option \<Rightarrow> 'c wifi_sm \<Rightarrow> 'c wifi_sm" where
  "ev_portal_force p arg sm =
     (let want = (case arg of None \<Rightarrow> ESPOS_WIFI_PORTAL_AUTO | Some f \<Rightarrow> f)
      in if want = ESPOS_WIFI_PORTAL_FORCE_MAX then sm
         else if want = w_portal_force sm then sm
         else
           (let sm = sm\<lparr>w_portal_force := want\<rparr>
            in if \<not> w_started sm then sm
               else notify p (rearm_after_policy p (portal_policy p sm))))"

fun espos_wifi_sm_event :: "'c wifi_port \<Rightarrow> 'c wifi_sm \<Rightarrow> espos_wifi_event \<Rightarrow> 'c wifi_sm" where
  "espos_wifi_sm_event p sm ESPOS_WIFI_EV_START = ev_start p sm"
| "espos_wifi_sm_event p sm ESPOS_WIFI_EV_STOP = ev_stop p sm"
| "espos_wifi_sm_event p sm (ESPOS_WIFI_EV_CONFIG ncfg) = ev_config p ncfg sm"
| "espos_wifi_sm_event p sm (ESPOS_WIFI_EV_STA_CONNECTED l) = ev_sta_connected p l sm"
| "espos_wifi_sm_event p sm (ESPOS_WIFI_EV_STA_DISCONNECTED r) = ev_sta_disconnected p r sm"
| "espos_wifi_sm_event p sm (ESPOS_WIFI_EV_GOT_IP ip) = ev_got_ip p ip sm"
| "espos_wifi_sm_event p sm ESPOS_WIFI_EV_LOST_IP = ev_lost_ip p sm"
| "espos_wifi_sm_event p sm ESPOS_WIFI_EV_TIMER = ev_timer p sm"
| "espos_wifi_sm_event p sm (ESPOS_WIFI_EV_PORTAL_CLIENT n) = ev_portal_client p n sm"
| "espos_wifi_sm_event p sm ESPOS_WIFI_EV_PORTAL_FAILED = ev_portal_failed p sm"
| "espos_wifi_sm_event p sm ESPOS_WIFI_EV_PORTAL_RECONFIG = ev_portal_reconfig p sm"
| "espos_wifi_sm_event p sm (ESPOS_WIFI_EV_OTHER_NET up) = ev_other_net p up sm"
| "espos_wifi_sm_event p sm (ESPOS_WIFI_EV_PORTAL_FORCE f) = ev_portal_force p f sm"

subsection \<open>The invariant\<close>

definition waiting :: "espos_wifi_state \<Rightarrow> bool" where
  "waiting s \<longleftrightarrow> s = ESPOS_WIFI_ST_CONNECTING \<or> s = ESPOS_WIFI_ST_OBTAINING_IP \<or>
     s = ESPOS_WIFI_ST_BACKOFF"

text \<open>A raised access point is one the operator, the application and the network allow.\<close>

definition portal_ok :: "'c wifi_sm \<Rightarrow> bool" where
  "portal_ok sm \<longleftrightarrow>
     (w_portal_active sm \<longrightarrow> c_portal_enabled (w_cfg sm) \<and> w_portal_force sm \<noteq> ESPOS_WIFI_PORTAL_DOWN \<and>
        (w_portal_force sm \<noteq> ESPOS_WIFI_PORTAL_UP \<longrightarrow>
           w_state sm \<noteq> ESPOS_WIFI_ST_CONNECTED \<and>
           (w_other_net_up sm \<longrightarrow> c_portal_online (w_cfg sm)))) \<and>
     (\<not> w_portal_active sm \<longrightarrow> w_portal_clients sm = 0)"

definition wifi_inv :: "'c wifi_sm \<Rightarrow> bool" where
  "wifi_inv sm \<longleftrightarrow> portal_ok sm \<and>
     (\<not> w_started sm \<longrightarrow> w_state sm = ESPOS_WIFI_ST_DISABLED \<and> \<not> w_portal_active sm) \<and>
     (w_started sm \<and> w_connect_in_flight sm \<longrightarrow> w_state sm = ESPOS_WIFI_ST_CONNECTING) \<and>
     (waiting (w_state sm) \<or> w_state sm = ESPOS_WIFI_ST_CONNECTED \<longrightarrow>
        c_sta_enabled (w_cfg sm) \<and> 0 \<le> w_net_index sm \<and>
        w_net_index sm < int (length (c_nets (w_cfg sm)))) \<and>
     (waiting (w_state sm) \<longrightarrow> w_state_due_ms sm \<noteq> 0 \<and> w_timer_due_ms sm \<noteq> 0) \<and>
     (\<not> waiting (w_state sm) \<longrightarrow> w_state_due_ms sm = 0) \<and>
     w_round sm \<le> 30 \<and> w_sta_enabled sm = c_sta_enabled (w_cfg sm)"

lemma portal_up_active:
  "w_portal_active (portal_up p sm) \<Longrightarrow> w_portal_active sm \<or> c_portal_enabled (w_cfg sm)"
  by (auto simp: portal_up_def Let_def split: option.splits prod.splits if_splits)

lemma portal_up_clients:
  "\<not> w_portal_active (portal_up p sm) \<Longrightarrow> w_portal_clients (portal_up p sm) = w_portal_clients sm \<and> \<not> w_portal_active sm"
  by (auto simp: portal_up_def Let_def split: option.splits prod.splits if_splits)

lemma portal_down_inactive [simp]: "\<not> w_portal_active (portal_down p sm)"
  by (simp add: portal_down_def Let_def split: option.splits)

lemma portal_down_clients:
  "\<not> w_portal_active sm \<longrightarrow> w_portal_clients sm = 0 \<Longrightarrow> w_portal_clients (portal_down p sm) = 0"
  by (simp add: portal_down_def Let_def split: option.splits)

lemma portal_ok_fields [simp]:
  "portal_ok (sm\<lparr>w_ctx := c\<rparr>) = portal_ok sm" "portal_ok (sm\<lparr>w_portal_due_ms := d\<rparr>) = portal_ok sm"
  by (simp_all add: portal_ok_def)

lemma portal_down_ok:
  "\<not> w_portal_active sm \<longrightarrow> w_portal_clients sm = 0 \<Longrightarrow> portal_ok (portal_down p sm)"
  by (simp add: portal_ok_def portal_down_clients)

lemma portal_up_ok:
  assumes "\<not> w_portal_active sm \<longrightarrow> w_portal_clients sm = 0"
    and "c_portal_enabled (w_cfg sm)" and "w_portal_force sm \<noteq> ESPOS_WIFI_PORTAL_DOWN"
    and "w_portal_force sm \<noteq> ESPOS_WIFI_PORTAL_UP \<longrightarrow> w_state sm \<noteq> ESPOS_WIFI_ST_CONNECTED \<and>
           (w_other_net_up sm \<longrightarrow> c_portal_online (w_cfg sm))"
  shows "portal_ok (portal_up p sm)"
  using assms portal_up_clients [of p sm] by (simp add: portal_ok_def)

text \<open>The policy leaves a portal that is allowed, whatever it finds.\<close>

lemma portal_policy_ok [keeps]:
  assumes "\<not> w_portal_active sm \<longrightarrow> w_portal_clients sm = 0"
  shows "portal_ok (portal_policy p sm)"
proof -
  have keep: "portal_ok sm"
    if "c_portal_enabled (w_cfg sm)" "w_portal_force sm \<noteq> ESPOS_WIFI_PORTAL_DOWN"
      "w_portal_force sm \<noteq> ESPOS_WIFI_PORTAL_UP \<longrightarrow> w_state sm \<noteq> ESPOS_WIFI_ST_CONNECTED \<and>
         (w_other_net_up sm \<longrightarrow> c_portal_online (w_cfg sm))"
    using that assms by (simp add: portal_ok_def)
  show ?thesis
    using assms by (simp add: portal_policy_def Let_def now_def portal_up_ok portal_down_ok keep)
qed

lemma arm_due [simp]: "w_state_due_ms (arm p ms d sm) \<noteq> 0" "w_timer_due_ms (arm p ms d sm) \<noteq> 0"
  by (simp_all add: arm_def Let_def port_simps split_beta)

lemma rearm_state_due [simp]:
  "w_state_due_ms (rearm_state p sm) = w_state_due_ms sm"
  "w_state_due_ms sm \<noteq> 0 \<Longrightarrow> w_timer_due_ms (rearm_state p sm) \<noteq> 0"
  by (simp_all add: rearm_state_def Let_def port_simps)

lemma arm_portal_only_due [simp]: "w_state_due_ms (arm_portal_only p sm) = 0"
  by (simp add: arm_portal_only_def Let_def port_simps)

lemma portal_ok_frame:
  "w_portal_active sm' = w_portal_active sm \<Longrightarrow> w_portal_clients sm' = w_portal_clients sm \<Longrightarrow>
   w_cfg sm' = w_cfg sm \<Longrightarrow> w_portal_force sm' = w_portal_force sm \<Longrightarrow> w_state sm' = w_state sm \<Longrightarrow>
   w_other_net_up sm' = w_other_net_up sm \<Longrightarrow> portal_ok sm' = portal_ok sm"
  by (simp add: portal_ok_def)

lemma portal_ok_simps [simp]:
  "portal_ok (notify p sm) = portal_ok sm" "portal_ok (arm p ms d sm) = portal_ok sm"
  "portal_ok (rearm_state p sm) = portal_ok sm" "portal_ok (arm_portal_only p sm) = portal_ok sm"
  "portal_ok (rearm_after_policy p sm) = portal_ok sm" "portal_ok (disconnect p sm) = portal_ok sm"
  by (rule portal_ok_frame; simp)+

text \<open>What holds when an attempt begins.\<close>

definition attempt_pre :: "'c wifi_sm \<Rightarrow> bool" where
  "attempt_pre sm \<longleftrightarrow> w_started sm \<and> (\<not> w_portal_active sm \<longrightarrow> w_portal_clients sm = 0) \<and>
     c_sta_enabled (w_cfg sm) \<and> w_sta_enabled sm = c_sta_enabled (w_cfg sm) \<and> w_round sm \<le> 30"

lemma no_network_inv: "attempt_pre sm \<Longrightarrow> wifi_inv (no_network p sm)"
  by (simp add: no_network_def wifi_inv_def attempt_pre_def Let_def port_simps waiting_def portal_policy_ok)

lemma attempt_issued_inv:
  assumes "attempt_pre sm" and "w_state sm = ESPOS_WIFI_ST_CONNECTING"
    and "0 \<le> w_net_index sm" and "w_net_index sm < int (length (c_nets (w_cfg sm)))"
  shows "wifi_inv (attempt_issued p sm)"
  using assms
  by (simp add: attempt_issued_def wifi_inv_def attempt_pre_def Let_def waiting_def portal_policy_ok)

lemma u32_inc_le_30: "(r :: u32) < 30 \<Longrightarrow> r + 1 \<le> 30"
  by (simp add: inc_le)

lemma round_done_inv:
  assumes "attempt_pre sm" and "c_nets (w_cfg sm) \<noteq> []" and "\<not> w_connect_in_flight sm"
  shows "wifi_inv (round_done p sm)"
  using assms
  by (simp add: round_done_def wifi_inv_def attempt_pre_def Let_def waiting_def portal_policy_ok port_simps
      u32_inc_le_30)

lemma attempt_pre_frame:
  "w_started sm' = w_started sm \<Longrightarrow> w_portal_active sm' = w_portal_active sm \<Longrightarrow>
   w_portal_clients sm' = w_portal_clients sm \<Longrightarrow> w_cfg sm' = w_cfg sm \<Longrightarrow>
   w_sta_enabled sm' = w_sta_enabled sm \<Longrightarrow> w_round sm' = w_round sm \<Longrightarrow> attempt_pre sm' = attempt_pre sm"
  by (simp add: attempt_pre_def)

lemma attempt_pre_policy [simp]: "attempt_pre sm \<Longrightarrow> attempt_pre (portal_policy p sm)"
  using portal_policy_ok [of sm p] by (simp add: attempt_pre_def portal_ok_def)

lemma attempts_inv:
  fixes sm :: "'c wifi_sm"
  shows "attempt_pre sm \<Longrightarrow> wifi_inv (start_attempt p sm)"
    and "attempt_pre sm \<Longrightarrow> c_nets (w_cfg sm) \<noteq> [] \<Longrightarrow> wifi_inv (attempt_failed p reason sm)"
proof (induction p sm and p reason sm rule: start_attempt_attempt_failed.induct)
  case (1 p sm)
  show ?case
  proof (cases "c_nets (w_cfg sm) = []")
    case True
    with 1 show ?thesis by (simp add: start_attempt.simps [of p sm] no_network_inv)
  next
    case False
    let ?sm = "snd (issue_connect p sm)"
    have pre: "attempt_pre ?sm" "attempt_pre (?sm\<lparr>w_reason := r\<rparr>)" for r
      using 1(2) attempt_pre_frame [of ?sm sm] by (simp_all add: attempt_pre_def)
    have rng: "0 \<le> w_net_index ?sm" "w_net_index ?sm < int (length (c_nets (w_cfg ?sm)))"
      using net_index_fix_range [OF False] by simp_all
    show ?thesis
    proof (cases "fst (issue_connect p sm) = ESP_OK")
      case True
      with False show ?thesis
        using attempt_issued_inv [OF pre(1) _ rng]
        by (simp add: start_attempt.simps [of p sm] split_beta)
    next
      case nok: False
      then show ?thesis
        using 1(1) [OF False refl prod.collapse nok] pre(2) False
        by (simp add: start_attempt.simps [of p sm] split_beta)
    qed
  qed
next
  case (2 p reason sm)
  let ?sm = "sm\<lparr>w_reason := reason, w_connect_in_flight := False\<rparr>"
  have pre: "attempt_pre ?sm" using 2(3) by (simp add: attempt_pre_def)
  show ?case
  proof (cases "w_state sm = ESPOS_WIFI_ST_CONNECTED")
    case True
    with 2(1) [OF refl] pre show ?thesis
      by (simp add: attempt_failed.simps [of p reason sm] now_def Let_def attempt_pre_def)
  next
    case nconn: False
    show ?thesis
    proof (cases "next_network ?sm")
      case True
      have "attempt_pre (sm\<lparr>w_reason := reason, w_net_index := w_net_index sm + 1,
          w_connect_in_flight := False\<rparr>)"
        using pre by (simp add: attempt_pre_def)
      with nconn True show ?thesis
        using 2(2) [OF refl _ True refl refl refl]
        by (simp add: attempt_failed.simps [of p reason sm] Let_def)
    next
      case False
      with nconn 2(4) pre show ?thesis
        by (simp add: attempt_failed.simps [of p reason sm] Let_def round_done_inv)
    qed
  qed
qed

lemmas start_attempt_inv [keeps] = attempts_inv(1)
lemmas attempt_failed_inv [keeps] = attempts_inv(2)

lemma wifi_inv_notify [simp]: "wifi_inv (notify p sm) = wifi_inv sm"
  by (simp add: wifi_inv_def)

lemma wifi_inv_disconnect [simp]: "wifi_inv (disconnect p sm) = wifi_inv sm"
  by (simp add: wifi_inv_def)

lemma wifi_inv_pre:
  "wifi_inv sm \<Longrightarrow> w_started sm \<Longrightarrow> c_sta_enabled (w_cfg sm) \<Longrightarrow> attempt_pre sm"
  by (auto simp: wifi_inv_def attempt_pre_def portal_ok_def)

lemma wifi_inv_nets:
  "wifi_inv sm \<Longrightarrow> associating (w_state sm) \<or> w_state sm = ESPOS_WIFI_ST_BACKOFF \<Longrightarrow>
     c_nets (w_cfg sm) \<noteq> [] \<and> c_sta_enabled (w_cfg sm) \<and> w_started sm"
proof -
  assume inv: "wifi_inv sm" and st: "associating (w_state sm) \<or> w_state sm = ESPOS_WIFI_ST_BACKOFF"
  from st have "waiting (w_state sm) \<or> w_state sm = ESPOS_WIFI_ST_CONNECTED"
    and "w_state sm \<noteq> ESPOS_WIFI_ST_DISABLED" by (auto simp: associating_def waiting_def)
  with inv have "c_sta_enabled (w_cfg sm)" "0 \<le> w_net_index sm"
    "w_net_index sm < int (length (c_nets (w_cfg sm)))" "w_started sm"
    unfolding wifi_inv_def by blast+
  then show ?thesis by auto
qed

lemma go_idle_inv [keeps]:
  assumes "w_started sm" and "\<not> w_portal_active sm \<longrightarrow> w_portal_clients sm = 0"
    and "w_round sm \<le> 30" and "w_sta_enabled sm = c_sta_enabled (w_cfg sm)"
  shows "wifi_inv (go_idle p ESPOS_WIFI_ST_DISABLED reason sm)"
  using assms
  by (simp add: go_idle_def wifi_inv_def Let_def now_def set_state_eq waiting_def portal_policy_ok)

lemma portal_ok_clients: "portal_ok sm \<Longrightarrow> \<not> w_portal_active sm \<longrightarrow> w_portal_clients sm = 0"
  by (simp add: portal_ok_def)

lemma ev_start_inv:
  assumes "wifi_inv sm"
  shows "wifi_inv (ev_start p sm)"
proof (cases "w_started sm")
  case False
  let ?sm = "sm\<lparr>w_started := True, w_ctx := snd (p_now_ms p (w_ctx sm)),
      w_disconnected_since_ms := fst (p_now_ms p (w_ctx sm)), w_round := 0, w_attempt := 0\<rparr>"
  from assms have sm: "portal_ok sm" "w_sta_enabled sm = c_sta_enabled (w_cfg sm)"
    unfolding wifi_inv_def by blast+
  have idle: "wifi_inv (go_idle p ESPOS_WIFI_ST_DISABLED ESPOS_WIFI_REASON_DISABLED ?sm)"
    using sm portal_ok_clients [OF sm(1)] by (intro go_idle_inv) simp_all
  have "c_sta_enabled (w_cfg sm) \<Longrightarrow> attempt_pre (?sm\<lparr>w_net_index := 0\<rparr>)"
    using sm portal_ok_clients [OF sm(1)] by (simp add: attempt_pre_def)
  from start_attempt_inv [OF this] False idle show ?thesis
    by (simp add: ev_start_def Let_def now_def)
qed (use assms in \<open>simp add: ev_start_def\<close>)

lemma ev_stop_inv: "wifi_inv sm \<Longrightarrow> wifi_inv (ev_stop p sm)"
  by (auto simp: ev_stop_def Let_def port_simps wifi_inv_def portal_ok_def portal_down_clients waiting_def)

lemma policy_armed_inv:
  assumes "w_started sm" and "\<not> w_portal_active sm \<longrightarrow> w_portal_clients sm = 0"
    and "w_state sm = ESPOS_WIFI_ST_OBTAINING_IP" and "c_sta_enabled (w_cfg sm)" and "0 \<le> w_net_index sm"
    and "w_net_index sm < int (length (c_nets (w_cfg sm)))"
    and "w_round sm \<le> 30" and "w_sta_enabled sm = c_sta_enabled (w_cfg sm)" and "\<not> w_connect_in_flight sm"
  shows "wifi_inv (arm p ms d (portal_policy p sm))"
  using assms by (simp add: wifi_inv_def waiting_def portal_policy_ok)

lemma wifi_inv_waiting:
  assumes "wifi_inv sm" and "waiting (w_state sm) \<or> w_state sm = ESPOS_WIFI_ST_CONNECTED"
  shows "w_started sm" and "\<not> w_portal_active sm \<longrightarrow> w_portal_clients sm = 0" and "c_sta_enabled (w_cfg sm)"
    and "0 \<le> w_net_index sm" and "w_net_index sm < int (length (c_nets (w_cfg sm)))"
    and "w_round sm \<le> 30" and "w_sta_enabled sm = c_sta_enabled (w_cfg sm)"
    and "w_state sm \<noteq> ESPOS_WIFI_ST_CONNECTING \<Longrightarrow> \<not> w_connect_in_flight sm"
proof -
  have "w_state sm \<noteq> ESPOS_WIFI_ST_DISABLED" using assms(2) by (auto simp: waiting_def)
  then show "w_started sm" "c_sta_enabled (w_cfg sm)" "0 \<le> w_net_index sm" "w_round sm \<le> 30"
    "w_net_index sm < int (length (c_nets (w_cfg sm)))" "w_sta_enabled sm = c_sta_enabled (w_cfg sm)"
    "w_state sm \<noteq> ESPOS_WIFI_ST_CONNECTING \<Longrightarrow> \<not> w_connect_in_flight sm"
    using assms unfolding wifi_inv_def by blast+
  show "\<not> w_portal_active sm \<longrightarrow> w_portal_clients sm = 0"
    using assms portal_ok_clients [of sm] unfolding wifi_inv_def by blast
qed

lemma ev_sta_connected_inv:
  assumes "wifi_inv sm"
  shows "wifi_inv (ev_sta_connected p l sm)"
proof (cases "w_state sm = ESPOS_WIFI_ST_CONNECTING")
  case True
  note sm = wifi_inv_waiting(1-7) [OF assms, simplified True waiting_def, simplified]
  show ?thesis
  proof (cases l)
    case None
    with True sm show ?thesis
      by (simp add: ev_sta_connected_def Let_def port_simps policy_armed_inv)
  next
    case (Some a)
    with True sm show ?thesis
      by (simp add: ev_sta_connected_def Let_def port_simps policy_armed_inv)
  qed
qed (use assms in \<open>simp add: ev_sta_connected_def\<close>)

lemma ev_sta_disconnected_inv: "wifi_inv sm \<Longrightarrow> wifi_inv (ev_sta_disconnected p r sm)"
  using wifi_inv_nets [of sm] wifi_inv_pre [of sm]
  by (auto simp: ev_sta_disconnected_def intro!: attempt_failed_inv)

lemma policy_connected_inv:
  assumes "w_started sm" and "\<not> w_portal_active sm \<longrightarrow> w_portal_clients sm = 0"
    and "w_state sm = ESPOS_WIFI_ST_CONNECTED" and "c_sta_enabled (w_cfg sm)" and "0 \<le> w_net_index sm"
    and "w_net_index sm < int (length (c_nets (w_cfg sm)))" and "w_state_due_ms sm = 0"
    and "w_round sm \<le> 30" and "w_sta_enabled sm = c_sta_enabled (w_cfg sm)" and "\<not> w_connect_in_flight sm"
  shows "wifi_inv (portal_policy p sm)"
  using assms by (simp add: wifi_inv_def waiting_def portal_policy_ok)

lemma ev_got_ip_inv:
  assumes "wifi_inv sm"
  shows "wifi_inv (ev_got_ip p ip sm)"
proof (cases "w_state sm = ESPOS_WIFI_ST_OBTAINING_IP \<or> w_state sm = ESPOS_WIFI_ST_CONNECTED")
  case True
  then have "waiting (w_state sm) \<or> w_state sm = ESPOS_WIFI_ST_CONNECTED" by (auto simp: waiting_def)
  note sm = wifi_inv_waiting [OF assms this]
  show ?thesis
  proof (cases ip)
    case None
    with True sm show ?thesis
      by (auto simp: ev_got_ip_def Let_def port_simps intro!: policy_connected_inv)
  next
    case (Some a)
    with True sm show ?thesis
      by (auto simp: ev_got_ip_def Let_def port_simps intro!: policy_connected_inv)
  qed
qed (use assms in \<open>simp add: ev_got_ip_def\<close>)

lemma ev_lost_ip_inv:
  assumes "wifi_inv sm"
  shows "wifi_inv (ev_lost_ip p sm)"
proof (cases "w_state sm = ESPOS_WIFI_ST_CONNECTED")
  case True
  with wifi_inv_waiting [OF assms] show ?thesis
    by (simp add: ev_lost_ip_def Let_def port_simps policy_armed_inv)
qed (use assms in \<open>simp add: ev_lost_ip_def\<close>)

lemma ev_portal_client_inv: "wifi_inv sm \<Longrightarrow> wifi_inv (ev_portal_client p n sm)"
  by (cases n) (simp_all add: ev_portal_client_def wifi_inv_def portal_ok_def)

lemma ev_portal_failed_inv: "wifi_inv sm \<Longrightarrow> wifi_inv (ev_portal_failed p sm)"
  by (auto simp: ev_portal_failed_def Let_def now_def wifi_inv_def portal_ok_def waiting_def)

lemma ev_portal_reconfig_inv: "wifi_inv sm \<Longrightarrow> wifi_inv (ev_portal_reconfig p sm)"
  by (auto simp: ev_portal_reconfig_def wifi_inv_def portal_down_clients portal_ok_clients
      intro!: portal_policy_ok)

lemma policy_rearm_inv:
  assumes "wifi_inv sm" and "w_started sm"
    and "w_cfg sm' = w_cfg sm" "w_state sm' = w_state sm" "w_sta_enabled sm' = w_sta_enabled sm"
      "w_net_index sm' = w_net_index sm" "w_round sm' = w_round sm" "w_started sm' = w_started sm"
      "w_state_due_ms sm' = w_state_due_ms sm" "w_timer_due_ms sm' = w_timer_due_ms sm"
      "w_connect_in_flight sm' = w_connect_in_flight sm"
      "w_portal_active sm' = w_portal_active sm" "w_portal_clients sm' = w_portal_clients sm"
  shows "wifi_inv (rearm_after_policy p (portal_policy p sm'))"
proof -
  have "portal_ok (portal_policy p sm')"
    using assms by (intro portal_policy_ok) (auto simp: wifi_inv_def portal_ok_def)
  with assms show ?thesis by (auto simp: wifi_inv_def rearm_after_policy_def)
qed

lemma ev_other_net_inv: "wifi_inv sm \<Longrightarrow> wifi_inv (ev_other_net p up sm)"
proof (cases "w_started sm")
  case True
  assume "wifi_inv sm"
  with True show ?thesis by (simp add: ev_other_net_def Let_def policy_rearm_inv [of sm])
next
  case False
  assume "wifi_inv sm"
  with False show ?thesis by (simp add: ev_other_net_def Let_def wifi_inv_def portal_ok_def)
qed

lemma ev_portal_force_inv: "wifi_inv sm \<Longrightarrow> wifi_inv (ev_portal_force p f sm)"
proof (cases "w_started sm")
  case True
  assume "wifi_inv sm"
  with True show ?thesis by (simp add: ev_portal_force_def Let_def policy_rearm_inv [of sm])
next
  case False
  assume "wifi_inv sm"
  with False show ?thesis by (simp add: ev_portal_force_def Let_def wifi_inv_def portal_ok_def)
qed

lemma find_net_less: "find_net cur ns = Some i \<Longrightarrow> i < length ns"
  by (induction ns arbitrary: i) (auto split: if_splits)

lemma nets_equal_length: "nets_equal a b \<Longrightarrow> length (c_nets a) = length (c_nets b)"
  by (auto simp: nets_equal_def dest: list_all2_lengthD)

lemma portal_reset_inv:
  assumes "wifi_inv sm" and "w_started sm"
    and "length (c_nets cfg) = length (c_nets (w_cfg sm))" and "c_sta_enabled cfg = c_sta_enabled (w_cfg sm)"
  shows "wifi_inv (portal_policy p (sm\<lparr>w_cfg := cfg\<rparr>))"
proof -
  have "portal_ok (portal_policy p (sm\<lparr>w_cfg := cfg\<rparr>))"
    using assms portal_ok_clients [of sm] by (intro portal_policy_ok) (simp add: wifi_inv_def)
  with assms show ?thesis by (simp add: wifi_inv_def)
qed

lemma wifi_inv_portal_only:
  "wifi_inv sm \<Longrightarrow> \<not> waiting (w_state sm) \<Longrightarrow> wifi_inv (arm_portal_only p sm)"
  by (simp add: wifi_inv_def)

lemma config_knobs_inv:
  assumes "wifi_inv sm" and "nets_equal ncfg (w_cfg sm)"
    and "c_sta_enabled ncfg = c_sta_enabled (w_cfg sm)"
  shows "wifi_inv (config_knobs p ncfg sm)"
proof (cases "w_started sm")
  case True
  have "wifi_inv (portal_policy p (sm\<lparr>w_cfg := ncfg\<rparr>))"
    using assms True nets_equal_length by (intro portal_reset_inv) auto
  from wifi_inv_portal_only [OF this, of p] this assms True show ?thesis
    by (cases "w_state sm") (simp_all add: config_knobs_def Let_def waiting_def)
next
  case False
  with assms show ?thesis
    by (simp add: config_knobs_def Let_def wifi_inv_def portal_ok_def waiting_def)
qed

lemma config_kept_inv:
  assumes "wifi_inv sm" and "c_sta_enabled ncfg" and "w_started sm"
    and "w_state sm = ESPOS_WIFI_ST_CONNECTED \<or> w_state sm = ESPOS_WIFI_ST_OBTAINING_IP"
    and "current_net_still_valid sm ncfg = Some i"
  shows "wifi_inv (portal_policy p (sm\<lparr>w_cfg := ncfg, w_sta_enabled := True, w_net_index := int i\<rparr>))"
proof -
  have "i < length (c_nets ncfg)"
    using assms(5) find_net_less by (simp add: current_net_still_valid_def split: if_splits)
  moreover have "\<not> w_portal_active sm \<longrightarrow> w_portal_clients sm = 0"
    using assms(1) portal_ok_clients [of sm] unfolding wifi_inv_def by blast
  ultimately show ?thesis using assms by (simp add: wifi_inv_def portal_policy_ok)
qed

lemma config_nets_inv:
  assumes "wifi_inv sm"
  shows "wifi_inv (config_nets p ncfg sm)"
proof -
  have cl: "\<not> w_portal_active sm \<longrightarrow> w_portal_clients sm = 0" and rd: "w_round sm \<le> 30"
    using assms portal_ok_clients [of sm] unfolding wifi_inv_def by blast+
  have idle: "wifi_inv (go_idle p ESPOS_WIFI_ST_DISABLED r (sm\<lparr>w_cfg := ncfg, w_sta_enabled := c_sta_enabled ncfg\<rparr>))"
    if "w_started sm" for r
    using that cl rd by (intro go_idle_inv) simp_all
  have restart: "wifi_inv (start_attempt p (sm'\<lparr>w_reason := r, w_round := 0, w_attempt := 0, w_net_index := 0\<rparr>))"
    if "c_sta_enabled ncfg" "w_cfg sm' = ncfg" "w_sta_enabled sm' = c_sta_enabled ncfg"
      "w_started sm'" "w_portal_active sm' = w_portal_active sm" "w_portal_clients sm' = w_portal_clients sm"
    for sm' :: "'a wifi_sm" and r
    using that cl by (intro start_attempt_inv) (simp add: attempt_pre_def)
  consider (off) "\<not> w_started sm" | (disabled) "w_started sm" "\<not> c_sta_enabled ncfg"
    | (on) "w_started sm" "c_sta_enabled ncfg" by blast
  then show ?thesis
  proof cases
    case off
    with assms show ?thesis
      by (simp add: config_nets_def Let_def wifi_inv_def portal_ok_def waiting_def)
  next
    case disabled
    with idle show ?thesis by (simp add: config_nets_def Let_def)
  next
    case on
    with config_kept_inv [OF assms on(2,1)] show ?thesis
      by (cases "w_state sm"; cases "current_net_still_valid sm ncfg")
        (simp_all add: config_nets_def Let_def now_def restart associating_def)
  qed
qed

lemma ev_config_inv: "wifi_inv sm \<Longrightarrow> wifi_inv (ev_config p ncfg sm)"
  by (simp add: ev_config_def config_knobs_inv config_nets_inv)

lemma timer_portal_inv:
  assumes "wifi_inv sm" and "w_started sm"
  shows "wifi_inv (timer_portal p (sm\<lparr>w_ctx := c, w_timer_due_ms := 0\<rparr>))"
proof -
  let ?sm = "portal_policy p (sm\<lparr>w_ctx := c, w_timer_due_ms := 0, w_timer_is_portal := False\<rparr>)"
  have ok: "portal_ok ?sm"
    using assms portal_ok_clients [of sm] by (intro portal_policy_ok) (simp add: wifi_inv_def)
  have wait: "wifi_inv (rearm_state p ?sm)" "wifi_inv (rearm_state p (?sm\<lparr>w_ctx := c'\<rparr>))"
    if "waiting (w_state sm)" for c'
    using that assms ok by (simp_all add: wifi_inv_def)
  have idle: "wifi_inv (arm_portal_only p ?sm)" if "\<not> waiting (w_state sm)"
    using that assms ok by (simp add: wifi_inv_def)
  have again: "wifi_inv (start_attempt p (?sm\<lparr>w_ctx := c'\<rparr>))" if "w_state sm = ESPOS_WIFI_ST_BACKOFF" for c'
    using that wifi_inv_waiting [OF assms(1)] portal_ok_clients [OF ok]
    by (intro start_attempt_inv) (simp add: attempt_pre_def waiting_def)
  show ?thesis
    using wait(1) wait(2) idle again
    by (cases "w_state sm")
      (simp_all add: timer_portal_def Let_def espos_wifi_sm_backoff_remaining_ms_def now_def waiting_def)
qed

lemma timer_state_inv:
  assumes "wifi_inv sm" and "w_started sm"
  shows "wifi_inv (timer_state p (sm\<lparr>w_ctx := c, w_timer_due_ms := 0\<rparr>))"
proof (cases "waiting (w_state sm)")
  case True
  then have sm: "c_nets (w_cfg sm) \<noteq> []" "c_sta_enabled (w_cfg sm)"
    using wifi_inv_nets [OF assms(1)] by (auto simp: waiting_def associating_def)
  then have "attempt_pre sm" using assms by (intro wifi_inv_pre)
  then have pre: "attempt_pre (sm\<lparr>w_ctx := c, w_timer_due_ms := 0, w_state_due_ms := 0\<rparr>)"
    "attempt_pre (sm\<lparr>w_timer_due_ms := 0, w_state_due_ms := 0, w_ctx := c'\<rparr>)" for c'
    by (simp_all add: attempt_pre_def)
  show ?thesis
    using True start_attempt_inv [OF pre(1)] attempt_failed_inv [OF pre(2)] sm
    by (cases "w_state sm") (simp_all add: timer_state_def Let_def port_simps waiting_def)
next
  case False
  with assms show ?thesis
    by (cases "w_state sm") (simp_all add: timer_state_def Let_def wifi_inv_def waiting_def portal_ok_def)
qed

lemma ev_timer_inv:
  assumes "wifi_inv sm"
  shows "wifi_inv (ev_timer p sm)"
proof (cases "w_started sm")
  case True
  have "wifi_inv (sm\<lparr>w_ctx := c\<rparr>)" for c
    using assms by (simp add: wifi_inv_def)
  with timer_portal_inv [OF assms True] timer_state_inv [OF assms True] assms show ?thesis
    by (simp add: ev_timer_def Let_def now_def)
qed (use assms in \<open>simp add: ev_timer_def\<close>)

lemma event_inv: "wifi_inv sm \<Longrightarrow> wifi_inv (espos_wifi_sm_event p sm e)"
  by (cases e) (simp_all add: ev_start_inv ev_stop_inv ev_config_inv ev_sta_connected_inv
      ev_sta_disconnected_inv ev_got_ip_inv ev_lost_ip_inv ev_timer_inv ev_portal_client_inv
      ev_portal_failed_inv ev_portal_reconfig_inv ev_other_net_inv ev_portal_force_inv)

lemma wifi_inv_init: "wifi_inv (espos_wifi_sm_init c cfg)"
  by (simp add: espos_wifi_sm_init_def wifi_inv_def portal_ok_def waiting_def)

interpretation wifi: started_machine "espos_wifi_sm_event p" wifi_inv "espos_wifi_sm_init c cfg"
  for p :: "'c wifi_port" and c cfg
  by unfold_locales (simp_all add: event_inv wifi_inv_init)

subsection \<open>The access point\<close>

text \<open>The machine after the events \<open>es\<close>, from boot.\<close>

definition wifi_run :: "'c wifi_port \<Rightarrow> 'c \<Rightarrow> wifi_cfg \<Rightarrow> espos_wifi_event list \<Rightarrow> 'c wifi_sm" where
  "wifi_run p c cfg es = foldl (espos_wifi_sm_event p) (espos_wifi_sm_init c cfg) es"

lemma wifi_run_inv: "wifi_inv (wifi_run p c cfg es)"
  unfolding wifi_run_def by (rule wifi.reach_inv)

text \<open>
  C18. Wherever a run of events from boot leads, the setup access point is up only when the machine is started, the
  operator enabled it, no forced-down is in effect and, unless it is forced up, the station is not connected and either
  no other interface carries the network or the operator asked for the portal beside such an interface.
\<close>

theorem wifi_ap_only_when_allowed:
  fixes p :: "'c wifi_port"
  assumes "sm = wifi_run p c cfg es" and "w_portal_active sm"
  shows "w_started sm \<and> c_portal_enabled (w_cfg sm) \<and>
         w_portal_force sm \<noteq> ESPOS_WIFI_PORTAL_DOWN \<and>
         (w_portal_force sm = ESPOS_WIFI_PORTAL_UP \<or>
          w_state sm \<noteq> ESPOS_WIFI_ST_CONNECTED \<and>
          (\<not> w_other_net_up sm \<or> c_portal_online (w_cfg sm)))"
  using wifi_run_inv [of p c cfg es] assms unfolding wifi_inv_def portal_ok_def by blast

text \<open>A board with no stored network, whose driver takes everything.\<close>

definition yes_port :: "nat wifi_port" where
  "yes_port = \<lparr>p_connect = (\<lambda>c _. (ESP_OK, c)), p_disconnect = (\<lambda>c. c),
     p_portal_start = Some (\<lambda>c. (ESP_OK, c)), p_portal_stop = Some (\<lambda>c. c), p_arm_timer = (\<lambda>c _. c),
     p_cancel_timer = (\<lambda>c. c), p_now_ms = (\<lambda>c. (of_nat c, Suc c)), p_random = (\<lambda>c. (4, c)),
     p_status_changed = None\<rparr>"

definition fresh_cfg :: wifi_cfg where
  "fresh_cfg = \<lparr>c_sta_enabled = True, c_nets = [], c_backoff_max_ms = 60000, c_dhcp_timeout_ms = 15000,
     c_connect_timeout_ms = 20000, c_portal_enabled = True, c_portal_after_ms = 60000,
     c_portal_online = False\<rparr>"

lemmas wifi_eval = yes_port_def fresh_cfg_def espos_wifi_sm_init_def ev_start_def Let_def port_simps
  no_network_def portal_policy_def portal_up_def arm_portal_only_def notify_def start_attempt.simps
  issue_connect_def net_index_fix_def attempt_issued_def arm_def

theorem wifi_ap_only_when_allowed_witness:
  "w_portal_active (wifi_run yes_port 7 fresh_cfg [ESPOS_WIFI_EV_START]) \<and>
   w_started (wifi_run yes_port 7 fresh_cfg [ESPOS_WIFI_EV_START])"
proof -
  have "w_portal_active (wifi_run yes_port 7 fresh_cfg [ESPOS_WIFI_EV_START])"
    by (simp add: wifi_run_def wifi_eval)
  with wifi_ap_only_when_allowed [OF refl this] show ?thesis by simp
qed

text \<open>
  What the policy decides, on a board whose access point starts when asked: the portal ends
  up raised exactly when it is enabled, not forced down, and either forced up, or the station
  is not connected and no other network makes it needless and it is already up, or there is
  nothing to connect to, or the device has been offline for the configured time; and it is
  never raised while a connect is in flight, except when there is nothing to connect to.
\<close>

theorem wifi_portal_policy_decides:
  fixes p :: "'c wifi_port"
  assumes "p_portal_start p = Some f" and "\<And>c. fst (f c) = ESP_OK"
  shows "w_portal_active (portal_policy p sm) \<longleftrightarrow>
     c_portal_enabled (w_cfg sm) \<and> w_portal_force sm \<noteq> ESPOS_WIFI_PORTAL_DOWN \<and>
     (if w_portal_force sm = ESPOS_WIFI_PORTAL_UP then w_portal_active sm \<or> \<not> w_connect_in_flight sm
      else w_state sm \<noteq> ESPOS_WIFI_ST_CONNECTED \<and>
        (w_other_net_up sm \<longrightarrow> c_portal_online (w_cfg sm)) \<and>
        (w_portal_active sm \<or> c_nets (w_cfg sm) = [] \<or> \<not> c_sta_enabled (w_cfg sm) \<or>
         reached (fst (p_now_ms p (w_ctx sm))) (w_disconnected_since_ms sm + c_portal_after_ms (w_cfg sm)) \<and>
           \<not> w_connect_in_flight sm))"
proof -
  have up: "w_portal_active (portal_up p sm') \<longleftrightarrow> w_portal_active sm' \<or> c_portal_enabled (w_cfg sm')" for sm'
    using assms by (simp add: portal_up_def Let_def split_beta)
  show ?thesis
    by (simp add: portal_policy_def Let_def now_def up reached_def)
qed

theorem wifi_portal_policy_decides_witness:
  "\<not> w_portal_active (portal_policy yes_port
      ((espos_wifi_sm_init 7 fresh_cfg)\<lparr>w_portal_force := ESPOS_WIFI_PORTAL_UP, w_connect_in_flight := True\<rparr>)) \<and>
   w_portal_active (portal_policy yes_port (espos_wifi_sm_init 7 fresh_cfg))"
  using wifi_portal_policy_decides [of yes_port "\<lambda>c. (ESP_OK, c)"]
  by (simp add: yes_port_def espos_wifi_sm_init_def fresh_cfg_def)

subsection \<open>The station always comes back\<close>

text \<open>
  C4. A machine that waits for something (an association, an address, the end of a backoff)
  has its timer armed, and a deadline for the state it is in, so that a driver that never
  answers cannot hold it there; it points at a configured network, and the number of the
  round it feeds the backoff stays at most 30.
\<close>

theorem wifi_never_waits_unarmed:
  fixes p :: "'c wifi_port"
  assumes "sm = wifi_run p c cfg es"
    and "w_state sm \<in> {ESPOS_WIFI_ST_CONNECTING, ESPOS_WIFI_ST_OBTAINING_IP, ESPOS_WIFI_ST_BACKOFF}"
  shows "w_started sm \<and> w_timer_due_ms sm \<noteq> 0 \<and> w_state_due_ms sm \<noteq> 0 \<and>
         0 \<le> w_net_index sm \<and> w_net_index sm < int (length (c_nets (w_cfg sm))) \<and>
         w_round sm \<le> 30"
proof -
  have inv: "wifi_inv sm" unfolding assms(1) by (rule wifi_run_inv)
  have "waiting (w_state sm)" using assms(2) by (auto simp: waiting_def)
  with inv wifi_inv_waiting [OF inv] show ?thesis unfolding wifi_inv_def by blast
qed

definition boat_net :: wifi_net where
  "boat_net = \<lparr>n_ssid = ''boat'', n_psk = ''secret12'', n_has_bssid = False, n_bssid = replicate 6 0\<rparr>"

theorem wifi_never_waits_unarmed_witness:
  "w_timer_due_ms (wifi_run yes_port 7 (fresh_cfg\<lparr>c_nets := [boat_net]\<rparr>) [ESPOS_WIFI_EV_START]) \<noteq> 0"
proof -
  have "w_state (wifi_run yes_port 7 (fresh_cfg\<lparr>c_nets := [boat_net]\<rparr>) [ESPOS_WIFI_EV_START])
      = ESPOS_WIFI_ST_CONNECTING"
    by (simp add: wifi_run_def wifi_eval)
  with wifi_never_waits_unarmed [OF refl, of yes_port 7 "fresh_cfg\<lparr>c_nets := [boat_net]\<rparr>" "[ESPOS_WIFI_EV_START]"]
  show ?thesis by simp
qed

text \<open>What a driver that refuses every connect leads to, from an attempt on network \<open>i\<close>.\<close>

lemma round_done_fields [simp]:
  "w_state (round_done p sm) = ESPOS_WIFI_ST_BACKOFF" "w_net_index (round_done p sm) = 0"
  "w_attempt (round_done p sm) = w_attempt sm"
  by (simp_all add: round_done_def Let_def port_simps)

lemma start_attempt_refused:
  fixes p :: "'c wifi_port"
  assumes "\<And>c n. fst (p_connect p c n) \<noteq> ESP_OK"
  shows "i < length (c_nets (w_cfg sm)) \<Longrightarrow> w_net_index sm = int i \<Longrightarrow>
    w_state (start_attempt p sm) = ESPOS_WIFI_ST_BACKOFF \<and> w_net_index (start_attempt p sm) = 0 \<and>
    w_attempt (start_attempt p sm) = w_attempt sm + of_nat (length (c_nets (w_cfg sm)) - i)"
proof (induction "length (c_nets (w_cfg sm)) - i" arbitrary: i sm rule: less_induct)
  case less
  let ?sm = "snd (issue_connect p sm)"
  have ne: "c_nets (w_cfg sm) \<noteq> []" using less.prems by auto
  have err: "fst (issue_connect p sm) \<noteq> ESP_OK"
    by (simp add: issue_connect_def Let_def split_beta assms)
  have fix_eq: "net_index_fix sm = sm" using less.prems by (simp add: net_index_fix_def)
  have idx: "w_net_index ?sm = int i" "w_attempt ?sm = w_attempt sm + 1" "w_state ?sm = ESPOS_WIFI_ST_CONNECTING"
    using less.prems by (simp_all add: issue_connect_def Let_def split_beta fix_eq port_simps)
  have step: "start_attempt p sm = attempt_failed p 1002 (?sm\<lparr>w_reason := 1002\<rparr>)"
    using ne err by (simp add: start_attempt.simps [of p sm] split_beta)
  show ?case
  proof (cases "Suc i < length (c_nets (w_cfg sm))")
    case True
    define sm' where "sm' = portal_policy p (?sm\<lparr>w_reason := 1002, w_net_index := int i + 1, w_connect_in_flight := False\<rparr>)"
    have "start_attempt p sm = start_attempt p sm'"
      using True less.prems(2)
      by (simp add: step attempt_failed.simps Let_def idx next_network_def sm'_def nat_add_distrib fix_eq)
    moreover have "w_cfg sm' = w_cfg sm" "w_net_index sm' = int (Suc i)" "w_attempt sm' = w_attempt sm + 1"
      by (simp_all add: sm'_def idx)
    moreover have "length (c_nets (w_cfg sm)) - i = Suc (length (c_nets (w_cfg sm)) - Suc i)"
      using less.prems by simp
    ultimately show ?thesis using less.hyps [of sm' "Suc i"] True less.prems by simp
  next
    case False
    then have "length (c_nets (w_cfg sm)) - i = 1" using less.prems by simp
    with False less.prems(2) show ?thesis
      by (simp add: step attempt_failed.simps Let_def idx next_network_def nat_add_distrib fix_eq)
  qed
qed

text \<open>
  A driver that refuses every connect at once does not hang the machine and does not stop
  it: starting goes through each configured network exactly once, in one call, and ends in
  the backoff, pointing at the first network again.
\<close>

theorem wifi_refused_start_backs_off:
  fixes p :: "'c wifi_port"
  assumes "\<And>c n. fst (p_connect p c n) \<noteq> ESP_OK" and "c_sta_enabled cfg" and "c_nets cfg \<noteq> []"
    and "sm = wifi_run p c cfg [ESPOS_WIFI_EV_START]"
  shows "w_state sm = ESPOS_WIFI_ST_BACKOFF \<and> w_net_index sm = 0 \<and>
         w_attempt sm = of_nat (length (c_nets cfg)) \<and> w_timer_due_ms sm \<noteq> 0"
proof -
  have inv: "wifi_inv sm" unfolding assms(4) by (rule wifi_run_inv)
  let ?t = "p_now_ms p c"
  let ?s = "(espos_wifi_sm_init c cfg)\<lparr>w_started := True, w_ctx := snd ?t,
      w_disconnected_since_ms := fst ?t, w_round := 0, w_attempt := 0, w_net_index := 0\<rparr>"
  have "sm = start_attempt p ?s"
    using assms(2) by (simp add: assms(4) wifi_run_def ev_start_def Let_def now_def espos_wifi_sm_init_def)
  moreover have "w_cfg ?s = cfg" "w_net_index ?s = 0" "w_attempt ?s = 0"
    by (simp_all add: espos_wifi_sm_init_def)
  ultimately have "w_state sm = ESPOS_WIFI_ST_BACKOFF \<and> w_net_index sm = 0 \<and>
      w_attempt sm = of_nat (length (c_nets cfg))"
    using start_attempt_refused [of p 0 ?s] assms(1,3) by simp
  with inv show ?thesis by (simp add: wifi_inv_def waiting_def)
qed

theorem wifi_refused_start_backs_off_witness:
  "w_attempt (wifi_run (yes_port\<lparr>p_connect := (\<lambda>c _. (ESP_FAIL, c))\<rparr>) 7
      (fresh_cfg\<lparr>c_nets := replicate 3 boat_net\<rparr>) [ESPOS_WIFI_EV_START]) = 3"
  using wifi_refused_start_backs_off [OF _ _ _ refl, of "yes_port\<lparr>p_connect := (\<lambda>c _. (ESP_FAIL, c))\<rparr>"
      "fresh_cfg\<lparr>c_nets := replicate 3 boat_net\<rparr>" 7]
  by (simp add: fresh_cfg_def)

end
