(* ===== verification/Token_Sm.thy ===== *)
theory Token_Sm
  imports Espos_Prelude
begin

text \<open>
  components/espos_sk/src/token_sm.c: the SignalK access-token state machine.

  The machine asks its port to do things (HTTP, the timer, the store, the clock) and is fed
  the outcomes as events. The port is a record of functions on its own context, the members of
  \<open>sm->st\<close> and the machine's own fields carry the prefix \<open>t_\<close>, the stored credential
  is the record \<open>tok_store\<close>. \<open>ESPOS_SK_TOKEN_CAP\<close> is a build setting
  (\<open>CONFIG_ESPOS_SK_TOKEN_MAX\<close>), the member \<open>tp_token_cap\<close> of the port.
  The handler of \<open>REQUEST_RESULT\<close>, \<open>POLL_RESULT\<close> and \<open>VERIFY_RESULT\<close> is split at the
  test for a stale answer; an event carries its argument, an option where the source tests the
  pointer.
\<close>

subsection \<open>Data\<close>

datatype espos_sk_tok_state =
    ESPOS_SK_TOK_NO_SERVER
  | ESPOS_SK_TOK_IDLE
  | ESPOS_SK_TOK_REQUESTED
  | ESPOS_SK_TOK_VERIFYING
  | ESPOS_SK_TOK_APPROVED
  | ESPOS_SK_TOK_DENIED
  | ESPOS_SK_TOK_OPEN
  | ESPOS_SK_TOK_ERROR
  | ESPOS_SK_TOK_CERT_ERROR

abbreviation (input) ESPOS_SK_HOST_MAX :: nat where "ESPOS_SK_HOST_MAX \<equiv> 64"
abbreviation (input) ESPOS_SK_SELF_MAX :: nat where "ESPOS_SK_SELF_MAX \<equiv> 128"
abbreviation (input) ESPOS_SK_HREF_MAX :: nat where "ESPOS_SK_HREF_MAX \<equiv> 128"
abbreviation (input) ESPOS_SK_MSG_MAX :: nat where "ESPOS_SK_MSG_MAX \<equiv> 96"
abbreviation (input) ESPOS_SK_TOKEN_MAX :: nat where "ESPOS_SK_TOKEN_MAX \<equiv> 1024"

abbreviation (input) POLL_MIN_MS :: u32 where "POLL_MIN_MS \<equiv> 5000"
abbreviation (input) POLL_MAX_MS :: u32 where "POLL_MAX_MS \<equiv> 60000"
abbreviation (input) ERR_MIN_MS :: u32 where "ERR_MIN_MS \<equiv> 10000"
abbreviation (input) ERR_MAX_MS :: u32 where "ERR_MAX_MS \<equiv> 300000"
abbreviation (input) DUP_MIN_MS :: u32 where "DUP_MIN_MS \<equiv> 60000"
abbreviation (input) DUP_MAX_MS :: u32 where "DUP_MAX_MS \<equiv> 600000"
abbreviation (input) OPEN_CHECK_MS :: u32 where "OPEN_CHECK_MS \<equiv> 60000"
abbreviation (input) CERT_RETRY_MS :: u32 where "CERT_RETRY_MS \<equiv> 60000"
abbreviation (input) PLAIN_RECHECK_MS :: u32 where "PLAIN_RECHECK_MS \<equiv> 5000"

record sk_server =
  v_host :: string
  v_port :: u16
  v_tls :: bool
  v_self :: string
  v_by_self :: bool

record tok_cfg =
  k_client_id :: string
  k_description :: string
  k_permissions :: string
  k_check_interval_ms :: u32

record tok_store =
  s_token :: string
  s_token_self :: string
  s_token_host :: string
  s_token_port :: u16
  s_pending_href :: string
  s_pending_host :: string
  s_pending_port :: u16
  s_pending_self :: string

record http_result =
  r_http_status :: int
  r_state :: string
  r_permission :: string
  r_href :: string
  r_token :: string
  r_message :: string
  r_self :: string
  r_cert_error :: bool
  r_cert_reason :: string

datatype tok_event =
    ESPOS_SK_EV_START
  | ESPOS_SK_EV_STOP
  | ESPOS_SK_EV_SERVER "sk_server option"
  | ESPOS_SK_EV_REQUEST_RESULT http_result
  | ESPOS_SK_EV_POLL_RESULT http_result
  | ESPOS_SK_EV_VERIFY_RESULT http_result
  | ESPOS_SK_EV_TIMER
  | ESPOS_SK_EV_MANUAL_TOKEN "string option"
  | ESPOS_SK_EV_RETRY
  | ESPOS_SK_EV_UNAUTHORIZED
  | ESPOS_SK_EV_CONFIG "tok_cfg option"
  | ESPOS_SK_EV_CERT_ERROR "string option"

record 'c tok_port =
  tp_http_request :: "'c \<Rightarrow> sk_server \<Rightarrow> tok_cfg \<Rightarrow> 'c"
  tp_http_poll :: "'c \<Rightarrow> sk_server \<Rightarrow> string \<Rightarrow> 'c"
  tp_http_verify :: "'c \<Rightarrow> sk_server \<Rightarrow> string \<Rightarrow> 'c"
  tp_store_save :: "'c \<Rightarrow> tok_store \<Rightarrow> 'c"
  tp_arm_timer :: "'c \<Rightarrow> u32 \<Rightarrow> 'c"
  tp_cancel_timer :: "'c \<Rightarrow> 'c"
  tp_now_ms :: "'c clock"
  tp_random :: "'c clock"
  tp_status_changed :: "('c \<Rightarrow> 'c) option"
  tp_token_cap :: nat

record 'c tok_sm =
  t_ctx :: 'c
  t_cfg :: tok_cfg
  t_store :: tok_store
  t_state :: espos_sk_tok_state
  t_server :: sk_server
  t_has_server :: bool
  t_has_token :: bool
  t_pending_href :: string
  t_next_action_ms :: u32
  t_poll_interval_ms :: u32
  t_requested_since_ms :: u32
  t_approved_since_ms :: u32
  t_last_check_ms :: u32
  t_last_http_status :: int
  t_last_error :: string
  t_request_count :: u32
  t_approve_count :: u32
  t_deny_count :: u32
  t_unauthorized_count :: u32
  t_cert_error_count :: u32
  t_busy :: bool
  t_started :: bool
  t_reeval :: bool
  t_error_backoff_ms :: u32
  t_dup_backoff_ms :: u32
  t_timer_due_ms :: u32
  t_plain_unauth_streak :: u32

definition server_zero :: sk_server where
  "server_zero = \<lparr>v_host = '''', v_port = 0, v_tls = False, v_self = '''', v_by_self = False\<rparr>"

definition store_zero :: tok_store where
  "store_zero = \<lparr>s_token = '''', s_token_self = '''', s_token_host = '''', s_token_port = 0,
     s_pending_href = '''', s_pending_host = '''', s_pending_port = 0, s_pending_self = ''''\<rparr>"

subsection \<open>Helpers\<close>

definition tok_notify :: "'c tok_port \<Rightarrow> 'c tok_sm \<Rightarrow> 'c tok_sm" where
  "tok_notify p sm =
     (case tp_status_changed p of None \<Rightarrow> sm | Some f \<Rightarrow> sm\<lparr>t_ctx := f (t_ctx sm)\<rparr>)"

definition tok_now :: "'c tok_port \<Rightarrow> 'c tok_sm \<Rightarrow> u32 \<times> 'c tok_sm" where
  "tok_now p sm = (fst (tp_now_ms p (t_ctx sm)), sm\<lparr>t_ctx := snd (tp_now_ms p (t_ctx sm))\<rparr>)"

definition tok_random :: "'c tok_port \<Rightarrow> 'c tok_sm \<Rightarrow> u32 \<times> 'c tok_sm" where
  "tok_random p sm = (fst (tp_random p (t_ctx sm)), sm\<lparr>t_ctx := snd (tp_random p (t_ctx sm))\<rparr>)"

definition set_error :: "string \<Rightarrow> 'c tok_sm \<Rightarrow> 'c tok_sm" where
  "set_error msg sm = sm\<lparr>t_last_error := cbuf ESPOS_SK_MSG_MAX msg\<rparr>"

definition dup_request :: "string \<Rightarrow> bool" where
  "dup_request msg \<longleftrightarrow> strstr msg ''already requested access''"

definition tok_arm :: "'c tok_port \<Rightarrow> u32 \<Rightarrow> 'c tok_sm \<Rightarrow> 'c tok_sm" where
  "tok_arm p ms sm =
     (let (t, sm) = tok_now p sm;
          sm = sm\<lparr>t_next_action_ms := t + ms,
                  t_timer_due_ms := (if t + ms \<noteq> 0 then t + ms else 1)\<rparr>
      in sm\<lparr>t_ctx := tp_arm_timer p (t_ctx sm) ms\<rparr>)"

definition tok_cancel :: "'c tok_port \<Rightarrow> 'c tok_sm \<Rightarrow> 'c tok_sm" where
  "tok_cancel p sm =
     sm\<lparr>t_timer_due_ms := 0, t_next_action_ms := 0, t_ctx := tp_cancel_timer p (t_ctx sm)\<rparr>"

definition tok_save :: "'c tok_port \<Rightarrow> 'c tok_sm \<Rightarrow> 'c tok_sm" where
  "tok_save p sm =
     sm\<lparr>t_ctx := tp_store_save p (t_ctx sm) (t_store sm),
        t_has_token := (s_token (t_store sm) \<noteq> ''''),
        t_pending_href := cbuf ESPOS_SK_HREF_MAX (s_pending_href (t_store sm))\<rparr>"

definition clear_pending :: "'c tok_sm \<Rightarrow> 'c tok_sm" where
  "clear_pending sm =
     sm\<lparr>t_store := (t_store sm)\<lparr>s_pending_href := '''', s_pending_host := '''', s_pending_self := '''',
                              s_pending_port := 0\<rparr>\<rparr>"

definition clear_token :: "'c tok_sm \<Rightarrow> 'c tok_sm" where
  "clear_token sm =
     sm\<lparr>t_store := (t_store sm)\<lparr>s_token := '''', s_token_self := '''', s_token_host := '''',
                              s_token_port := 0\<rparr>\<rparr>"

definition token_fits :: "'c tok_port \<Rightarrow> string \<Rightarrow> bool" where
  "token_fits p tok \<longleftrightarrow> length tok < tp_token_cap p"

definition set_token_addr :: "string \<Rightarrow> u16 \<Rightarrow> 'c tok_sm \<Rightarrow> bool \<times> 'c tok_sm" where
  "set_token_addr host port sm =
     (if s_token_host (t_store sm) = host \<and> s_token_port (t_store sm) = port then (False, sm)
      else (True, sm\<lparr>t_store := (t_store sm)\<lparr>s_token_host := cbuf ESPOS_SK_HOST_MAX host,
                                            s_token_port := port\<rparr>\<rparr>))"

subsection \<open>Actions\<close>

definition do_request :: "'c tok_port \<Rightarrow> 'c tok_sm \<Rightarrow> 'c tok_sm" where
  "do_request p sm =
     (let sm = sm\<lparr>t_state := ESPOS_SK_TOK_IDLE, t_busy := True,
                  t_request_count := t_request_count sm + 1\<rparr>;
          sm = tok_cancel p sm;
          sm = sm\<lparr>t_ctx := tp_http_request p (t_ctx sm) (t_server sm) (t_cfg sm)\<rparr>
      in tok_notify p sm)"

definition do_poll :: "'c tok_port \<Rightarrow> 'c tok_sm \<Rightarrow> 'c tok_sm" where
  "do_poll p sm =
     (let sm = sm\<lparr>t_state := ESPOS_SK_TOK_REQUESTED, t_busy := True\<rparr>;
          sm = tok_cancel p sm;
          sm = sm\<lparr>t_ctx := tp_http_poll p (t_ctx sm) (t_server sm) (s_pending_href (t_store sm))\<rparr>
      in tok_notify p sm)"

definition do_verify :: "'c tok_port \<Rightarrow> bool \<Rightarrow> 'c tok_sm \<Rightarrow> 'c tok_sm" where
  "do_verify p as_check sm =
     (let sm = (if \<not> as_check then sm\<lparr>t_state := ESPOS_SK_TOK_VERIFYING\<rparr> else sm);
          sm = sm\<lparr>t_busy := True\<rparr>;
          sm = tok_cancel p sm;
          sm = sm\<lparr>t_ctx := tp_http_verify p (t_ctx sm) (t_server sm) (s_token (t_store sm))\<rparr>
      in tok_notify p sm)"

text \<open>A doubled delay, held at a ceiling.\<close>

definition double_to :: "u32 \<Rightarrow> u32 \<Rightarrow> u32" where
  "double_to limit d = (if d < limit then (if d * 2 > limit then limit else d * 2) else d)"

definition enter_error :: "'c tok_port \<Rightarrow> string \<Rightarrow> 'c tok_sm \<Rightarrow> 'c tok_sm" where
  "enter_error p msg sm =
     (let sm = sm\<lparr>t_state := ESPOS_SK_TOK_ERROR\<rparr>;
          sm = set_error msg sm;
          d = t_error_backoff_ms sm;
          (rnd, sm) = tok_random p sm;
          j = rnd mod (d div 5 + 1);
          sm = tok_arm p (d - d div 10 + j) sm;
          sm = sm\<lparr>t_error_backoff_ms := double_to ERR_MAX_MS (t_error_backoff_ms sm)\<rparr>
      in tok_notify p sm)"

definition enter_cert_error :: "'c tok_port \<Rightarrow> string option \<Rightarrow> 'c tok_sm \<Rightarrow> 'c tok_sm" where
  "enter_cert_error p reason sm =
     (let sm = sm\<lparr>t_state := ESPOS_SK_TOK_CERT_ERROR\<rparr>;
          sm = set_error
                 (case reason of
                    Some (c # m) \<Rightarrow> c # m
                  | _ \<Rightarrow> ''the server's certificate is not the one this device trusts'') sm;
          sm = sm\<lparr>t_cert_error_count := t_cert_error_count sm + 1\<rparr>;
          sm = tok_arm p CERT_RETRY_MS sm
      in tok_notify p sm)"

definition handle_unauthorized :: "'c tok_port \<Rightarrow> 'c tok_sm \<Rightarrow> bool \<times> 'c tok_sm" where
  "handle_unauthorized p sm =
     (let sm = sm\<lparr>t_unauthorized_count := t_unauthorized_count sm + 1\<rparr>;
          sm = (if \<not> v_tls (t_server sm)
                then sm\<lparr>t_plain_unauth_streak := t_plain_unauth_streak sm + 1\<rparr> else sm)
      in if \<not> v_tls (t_server sm) \<and> t_plain_unauth_streak sm < 2 then
           (let sm = set_error ''unauthorized over plaintext; checking again before dropping the token'' sm;
                sm = tok_arm p PLAIN_RECHECK_MS sm
            in (False, tok_notify p sm))
         else if v_by_self (t_server sm) then
           (let sm = sm\<lparr>t_plain_unauth_streak := 0\<rparr>;
                m = cbuf ESPOS_SK_MSG_MAX
                      (''token refused here; waiting for '' @ take 40 (s_token_host (t_store sm)) @
                       '' or a manual pin'')
            in (False, enter_error p m sm))
         else
           (let sm = sm\<lparr>t_plain_unauth_streak := 0\<rparr>;
                sm = clear_token sm;
                sm = tok_save p sm
            in (True, set_error ''token rejected by the server; requesting access again'' sm)))"

subsection \<open>What to do for a server\<close>

definition pending_here :: "'c tok_sm \<Rightarrow> bool" where
  "pending_here sm \<longleftrightarrow>
     v_self (t_server sm) \<noteq> '''' \<and> s_pending_self (t_store sm) \<noteq> '''' \<and>
       v_self (t_server sm) = s_pending_self (t_store sm) \<or>
     v_host (t_server sm) = s_pending_host (t_store sm) \<and>
       v_port (t_server sm) = s_pending_port (t_store sm)"

definition token_applicable :: "'c tok_sm \<Rightarrow> bool" where
  "token_applicable sm \<longleftrightarrow> s_token_self (t_store sm) = '''' \<or> v_self (t_server sm) = '''' \<or>
     s_token_self (t_store sm) = v_self (t_server sm)"

text \<open>The part of \<open>evaluate\<close> after the pending request: the stored token, or a new request.\<close>

definition use_token :: "'c tok_port \<Rightarrow> 'c tok_sm \<Rightarrow> 'c tok_sm" where
  "use_token p sm =
     (if s_token (t_store sm) \<noteq> '''' \<and> token_applicable sm then
        (if v_tls (t_server sm) then
           (let sm = sm\<lparr>t_state := ESPOS_SK_TOK_APPROVED\<rparr>;
                sm = (if t_approved_since_ms sm = 0
                      then (let (t, sm) = tok_now p sm in sm\<lparr>t_approved_since_ms := t\<rparr>) else sm);
                sm = sm\<lparr>t_error_backoff_ms := ERR_MIN_MS, t_dup_backoff_ms := DUP_MIN_MS\<rparr>;
                sm = set_error '''' sm;
                sm = tok_arm p (k_check_interval_ms (t_cfg sm)) sm
            in tok_notify p sm)
         else do_verify p False sm)
      else do_request p sm)"

definition evaluate :: "'c tok_port \<Rightarrow> 'c tok_sm \<Rightarrow> 'c tok_sm" where
  "evaluate p sm =
     (if \<not> t_started sm then sm
      else if \<not> t_has_server sm
      then tok_notify p (tok_cancel p (sm\<lparr>t_state := ESPOS_SK_TOK_NO_SERVER\<rparr>))
      else if s_pending_href (t_store sm) \<noteq> '''' then
        (if pending_here sm then
           (let sm = sm\<lparr>t_poll_interval_ms := POLL_MIN_MS\<rparr>;
                sm = (if t_requested_since_ms sm = 0
                      then (let (t, sm) = tok_now p sm in sm\<lparr>t_requested_since_ms := t\<rparr>) else sm)
            in do_poll p sm)
         else use_token p (tok_save p (clear_pending sm)))
      else use_token p sm)"

definition espos_sk_tok_state_str :: "espos_sk_tok_state \<Rightarrow> string" where
  "espos_sk_tok_state_str s =
     (case s of
        ESPOS_SK_TOK_NO_SERVER \<Rightarrow> ''no_server''
      | ESPOS_SK_TOK_IDLE \<Rightarrow> ''requesting''
      | ESPOS_SK_TOK_REQUESTED \<Rightarrow> ''pending''
      | ESPOS_SK_TOK_VERIFYING \<Rightarrow> ''verifying''
      | ESPOS_SK_TOK_APPROVED \<Rightarrow> ''approved''
      | ESPOS_SK_TOK_DENIED \<Rightarrow> ''denied''
      | ESPOS_SK_TOK_OPEN \<Rightarrow> ''open''
      | ESPOS_SK_TOK_ERROR \<Rightarrow> ''error''
      | ESPOS_SK_TOK_CERT_ERROR \<Rightarrow> ''cert_error'')"

definition espos_sk_tok_init ::
  "'c tok_port \<Rightarrow> 'c \<Rightarrow> tok_cfg \<Rightarrow> tok_store option \<Rightarrow> 'c tok_sm" where
  "espos_sk_tok_init p ctx cfg store =
     (let sm = \<lparr>t_ctx = ctx, t_cfg = cfg,
                t_store = (case store of None \<Rightarrow> store_zero | Some s \<Rightarrow> s),
                t_state = ESPOS_SK_TOK_NO_SERVER, t_server = server_zero, t_has_server = False,
                t_has_token = False, t_pending_href = '''', t_next_action_ms = 0,
                t_poll_interval_ms = 0, t_requested_since_ms = 0, t_approved_since_ms = 0,
                t_last_check_ms = 0, t_last_http_status = 0, t_last_error = '''',
                t_request_count = 0, t_approve_count = 0, t_deny_count = 0,
                t_unauthorized_count = 0, t_cert_error_count = 0, t_busy = False,
                t_started = False, t_reeval = False, t_error_backoff_ms = 0,
                t_dup_backoff_ms = 0, t_timer_due_ms = 0, t_plain_unauth_streak = 0\<rparr>;
          sm = (if \<not> token_fits p (s_token (t_store sm)) then
                  set_error ''stored token longer than CONFIG_ESPOS_SK_TOKEN_MAX; requesting access again''
                    (tok_save p (clear_token sm))
                else sm)
      in sm\<lparr>t_has_token := (s_token (t_store sm) \<noteq> ''''),
            t_pending_href := cbuf ESPOS_SK_HREF_MAX (s_pending_href (t_store sm)),
            t_error_backoff_ms := ERR_MIN_MS, t_dup_backoff_ms := DUP_MIN_MS,
            t_poll_interval_ms := POLL_MIN_MS\<rparr>)"

definition espos_sk_tok_token :: "'c tok_sm \<Rightarrow> string" where
  "espos_sk_tok_token sm = (if t_state sm = ESPOS_SK_TOK_APPROVED then s_token (t_store sm) else '''')"

subsection \<open>Events\<close>

definition tok_ev_start :: "'c tok_port \<Rightarrow> 'c tok_sm \<Rightarrow> 'c tok_sm" where
  "tok_ev_start p sm = (if t_started sm then sm else evaluate p (sm\<lparr>t_started := True\<rparr>))"

definition tok_ev_stop :: "'c tok_port \<Rightarrow> 'c tok_sm \<Rightarrow> 'c tok_sm" where
  "tok_ev_stop p sm =
     (let sm = sm\<lparr>t_started := False, t_busy := False, t_reeval := False\<rparr>;
          sm = tok_cancel p sm;
          sm = sm\<lparr>t_state := ESPOS_SK_TOK_NO_SERVER\<rparr>
      in tok_notify p sm)"

definition tok_ev_config :: "'c tok_port \<Rightarrow> tok_cfg option \<Rightarrow> 'c tok_sm \<Rightarrow> 'c tok_sm" where
  "tok_ev_config p arg sm =
     (case arg of
        None \<Rightarrow> sm
      | Some c \<Rightarrow>
          (let interval_changed = (k_check_interval_ms (t_cfg sm) \<noteq> k_check_interval_ms c);
               sm = sm\<lparr>t_cfg := c\<rparr>
           in if interval_changed \<and> t_state sm = ESPOS_SK_TOK_APPROVED \<and> \<not> t_busy sm
              then tok_arm p (k_check_interval_ms (t_cfg sm)) sm else sm))"

definition same_addr :: "sk_server \<Rightarrow> 'c tok_sm \<Rightarrow> bool" where
  "same_addr srv sm \<longleftrightarrow> t_has_server sm \<and> v_host srv = v_host (t_server sm) \<and>
     v_port srv = v_port (t_server sm) \<and> v_tls srv = v_tls (t_server sm)"

definition self_compatible :: "sk_server \<Rightarrow> 'c tok_sm \<Rightarrow> bool" where
  "self_compatible srv sm \<longleftrightarrow> v_self srv = '''' \<or> v_self (t_server sm) = '''' \<or>
     v_self srv = v_self (t_server sm)"

text \<open>The same server again: only what became known about it changes.\<close>

definition server_again :: "'c tok_port \<Rightarrow> sk_server \<Rightarrow> 'c tok_sm \<Rightarrow> 'c tok_sm" where
  "server_again p srv sm =
     (let sm = (if v_by_self (t_server sm) \<noteq> v_by_self srv
                then tok_notify p (sm\<lparr>t_server := (t_server sm)\<lparr>v_by_self := v_by_self srv\<rparr>\<rparr>)
                else sm)
      in if v_self srv \<noteq> '''' \<and> v_self (t_server sm) = '''' then
           (let sm = sm\<lparr>t_server := (t_server sm)\<lparr>v_self := cbuf ESPOS_SK_SELF_MAX (v_self srv)\<rparr>\<rparr>;
                sm = (if s_token (t_store sm) \<noteq> '''' \<and> s_token_self (t_store sm) = ''''
                      then tok_save p
                             (sm\<lparr>t_store := (t_store sm)\<lparr>s_token_self := cbuf ESPOS_SK_SELF_MAX (v_self srv)\<rparr>\<rparr>)
                      else sm)
            in tok_notify p sm)
         else sm)"

definition tok_ev_server :: "'c tok_port \<Rightarrow> sk_server option \<Rightarrow> 'c tok_sm \<Rightarrow> 'c tok_sm" where
  "tok_ev_server p arg sm =
     (if (case arg of None \<Rightarrow> False | Some srv \<Rightarrow> same_addr srv sm \<and> self_compatible srv sm)
      then (case arg of None \<Rightarrow> sm | Some srv \<Rightarrow> server_again p srv sm)
      else
        (let sm = (case arg of
                     Some srv \<Rightarrow> sm\<lparr>t_server := srv, t_has_server := True\<rparr>
                   | None \<Rightarrow> sm\<lparr>t_server := server_zero, t_has_server := False\<rparr>);
             sm = sm\<lparr>t_error_backoff_ms := ERR_MIN_MS, t_dup_backoff_ms := DUP_MIN_MS\<rparr>;
             sm = set_error '''' sm
         in if t_busy sm then tok_notify p (sm\<lparr>t_reeval := True\<rparr>) else evaluate p sm))"

text \<open>What \<open>REQUEST_RESULT\<close> does with a fresh answer.\<close>

definition request_accepted :: "'c tok_port \<Rightarrow> string \<Rightarrow> 'c tok_sm \<Rightarrow> 'c tok_sm" where
  "request_accepted p href sm =
     (let sm = sm\<lparr>t_store := (t_store sm)\<lparr>s_pending_href := cbuf ESPOS_SK_HREF_MAX href,
                    s_pending_host := cbuf ESPOS_SK_HOST_MAX (v_host (t_server sm)),
                    s_pending_self := cbuf ESPOS_SK_SELF_MAX (v_self (t_server sm)),
                    s_pending_port := v_port (t_server sm)\<rparr>\<rparr>;
          sm = tok_save p sm;
          sm = sm\<lparr>t_state := ESPOS_SK_TOK_REQUESTED\<rparr>;
          (t, sm) = tok_now p sm;
          sm = sm\<lparr>t_requested_since_ms := t, t_poll_interval_ms := POLL_MIN_MS,
                  t_error_backoff_ms := ERR_MIN_MS, t_dup_backoff_ms := DUP_MIN_MS\<rparr>;
          sm = set_error '''' sm;
          sm = tok_arm p POLL_MIN_MS sm
      in tok_notify p sm)"

definition request_duplicate :: "'c tok_port \<Rightarrow> 'c tok_sm \<Rightarrow> 'c tok_sm" where
  "request_duplicate p sm =
     (let sm = sm\<lparr>t_state := ESPOS_SK_TOK_ERROR\<rparr>;
          sm = set_error ''already asked; approve it in Security -> Access Requests'' sm;
          d = t_dup_backoff_ms sm;
          (rnd, sm) = tok_random p sm;
          j = rnd mod (d div 5 + 1);
          sm = tok_arm p (d - d div 10 + j) sm;
          sm = sm\<lparr>t_dup_backoff_ms := double_to DUP_MAX_MS (t_dup_backoff_ms sm)\<rparr>
      in tok_notify p sm)"

definition request_answer :: "'c tok_port \<Rightarrow> http_result \<Rightarrow> 'c tok_sm \<Rightarrow> 'c tok_sm" where
  "request_answer p r sm =
     (let sm = sm\<lparr>t_busy := False, t_last_http_status := r_http_status r\<rparr>
      in if r_cert_error r then enter_cert_error p (Some (r_cert_reason r)) sm
         else if r_http_status r = 202 \<and> r_href r \<noteq> '''' then request_accepted p (r_href r) sm
         else if r_http_status r = 404 then
           (let sm = sm\<lparr>t_state := ESPOS_SK_TOK_OPEN, t_error_backoff_ms := ERR_MIN_MS,
                        t_dup_backoff_ms := DUP_MIN_MS\<rparr>;
                sm = set_error '''' sm;
                sm = tok_arm p OPEN_CHECK_MS sm
            in tok_notify p sm)
         else if r_http_status r = 599
         then enter_error p ''host answers but is not a SignalK server'' sm
         else if r_http_status r = 403 then
           (let sm = sm\<lparr>t_state := ESPOS_SK_TOK_DENIED, t_deny_count := t_deny_count sm + 1\<rparr>;
                sm = set_error ''device access requests are disabled on the server'' sm;
                sm = tok_cancel p sm
            in tok_notify p sm)
         else if r_http_status r = 400 \<and> dup_request (r_message r) then request_duplicate p sm
         else if r_http_status r = 0 then enter_error p ''server unreachable'' sm
         else if r_message r \<noteq> '''' then enter_error p (r_message r) sm
         else enter_error p (cbuf ESPOS_SK_MSG_MAX
                (''request failed (HTTP '' @ dec_of_int (r_http_status r) @ '')'')) sm)"

text \<open>An answer that arrives after the server or the token changed starts over.\<close>

definition drop_stale :: "'c tok_port \<Rightarrow> 'c tok_sm \<Rightarrow> 'c tok_sm" where
  "drop_stale p sm = evaluate p (sm\<lparr>t_reeval := False, t_busy := False\<rparr>)"

definition tok_ev_request_result :: "'c tok_port \<Rightarrow> http_result \<Rightarrow> 'c tok_sm \<Rightarrow> 'c tok_sm" where
  "tok_ev_request_result p r sm =
     (if t_reeval sm \<and> t_busy sm then drop_stale p sm
      else if t_state sm \<noteq> ESPOS_SK_TOK_IDLE \<or> \<not> t_busy sm then sm
      else request_answer p r sm)"

text \<open>What \<open>POLL_RESULT\<close> does with a fresh answer.\<close>

definition poll_denied :: "'c tok_port \<Rightarrow> string \<Rightarrow> 'c tok_sm \<Rightarrow> 'c tok_sm" where
  "poll_denied p msg sm =
     (let sm = clear_pending sm;
          sm = tok_save p sm;
          sm = sm\<lparr>t_state := ESPOS_SK_TOK_DENIED, t_deny_count := t_deny_count sm + 1\<rparr>;
          sm = set_error msg sm;
          sm = tok_cancel p sm
      in tok_notify p sm)"

definition poll_approved :: "'c tok_port \<Rightarrow> string \<Rightarrow> 'c tok_sm \<Rightarrow> 'c tok_sm" where
  "poll_approved p token sm =
     (let sm = sm\<lparr>t_store := (t_store sm)\<lparr>s_token := cbuf ESPOS_SK_TOKEN_MAX token,
                    s_token_self := cbuf ESPOS_SK_SELF_MAX (v_self (t_server sm))\<rparr>\<rparr>;
          (_, sm) = set_token_addr (v_host (t_server sm)) (v_port (t_server sm)) sm;
          sm = clear_pending sm;
          sm = tok_save p sm;
          sm = sm\<lparr>t_approve_count := t_approve_count sm + 1\<rparr>;
          sm = set_error '''' sm
      in do_verify p False sm)"

definition poll_completed :: "'c tok_port \<Rightarrow> http_result \<Rightarrow> 'c tok_sm \<Rightarrow> 'c tok_sm" where
  "poll_completed p r sm =
     (if r_permission r = ''APPROVED'' \<and> r_token r \<noteq> '''' \<and> \<not> token_fits p (r_token r)
      then poll_denied p ''token longer than CONFIG_ESPOS_SK_TOKEN_MAX allows; raise it, then retry'' sm
      else if r_permission r = ''APPROVED'' \<and> r_token r \<noteq> '''' then poll_approved p (r_token r) sm
      else poll_denied p
             (if r_message r \<noteq> '''' then r_message r
              else if r_permission r = ''DENIED'' then ''access denied by the server admin''
              else ''request rejected'') sm)"

definition poll_pending :: "'c tok_port \<Rightarrow> 'c tok_sm \<Rightarrow> 'c tok_sm" where
  "poll_pending p sm =
     (let next = t_poll_interval_ms sm + t_poll_interval_ms sm div 2;
          next = (if next > POLL_MAX_MS then POLL_MAX_MS else next);
          sm = sm\<lparr>t_poll_interval_ms := next\<rparr>;
          sm = tok_arm p next sm
      in tok_notify p sm)"

definition poll_lost :: "'c tok_port \<Rightarrow> 'c tok_sm \<Rightarrow> 'c tok_sm" where
  "poll_lost p sm =
     (if v_by_self (t_server sm) then
        enter_error p (cbuf ESPOS_SK_MSG_MAX
          (''request unknown here; waiting for '' @ take 40 (s_pending_host (t_store sm)) @
           '' or a manual pin'')) sm
      else
        (let sm = clear_pending sm;
             sm = tok_save p sm;
             sm = set_error ''server lost the request; requesting again'' sm
         in do_request p sm))"

definition poll_answer :: "'c tok_port \<Rightarrow> http_result \<Rightarrow> 'c tok_sm \<Rightarrow> 'c tok_sm" where
  "poll_answer p r sm =
     (let sm = sm\<lparr>t_busy := False, t_last_http_status := r_http_status r\<rparr>;
          answered = (r_http_status r = 200 \<or> r_http_status r = 202)
      in if r_cert_error r then enter_cert_error p (Some (r_cert_reason r)) sm
         else if answered \<and> r_state r = ''''
         then enter_error p ''unexpected reply while polling (not a SignalK server?)'' sm
         else if answered then
           (let sm = sm\<lparr>t_error_backoff_ms := ERR_MIN_MS, t_dup_backoff_ms := DUP_MIN_MS\<rparr>
            in if r_state r = ''COMPLETED'' then poll_completed p r sm else poll_pending p sm)
         else if r_http_status r = 404 \<or> r_http_status r = 500 \<and> strstr (r_message r) ''not found''
         then poll_lost p sm
         else if r_http_status r = 0 then enter_error p ''server unreachable'' sm
         else enter_error p (cbuf ESPOS_SK_MSG_MAX
                (''poll failed (HTTP '' @ dec_of_int (r_http_status r) @ '')'')) sm)"

definition tok_ev_poll_result :: "'c tok_port \<Rightarrow> http_result \<Rightarrow> 'c tok_sm \<Rightarrow> 'c tok_sm" where
  "tok_ev_poll_result p r sm =
     (if t_reeval sm \<and> t_busy sm then drop_stale p sm
      else if t_state sm \<noteq> ESPOS_SK_TOK_REQUESTED \<or> \<not> t_busy sm then sm
      else poll_answer p r sm)"

text \<open>What \<open>VERIFY_RESULT\<close> does with a fresh answer.\<close>

definition learn_server :: "'c tok_port \<Rightarrow> http_result \<Rightarrow> 'c tok_sm \<Rightarrow> 'c tok_sm" where
  "learn_server p r sm =
     (let (changed, sm) =
            (if s_token_host (t_store sm) = ''''
             then set_token_addr (v_host (t_server sm)) (v_port (t_server sm)) sm
             else (False, sm));
          (changed, sm) =
            (if r_self r \<noteq> '''' then
               (let changed = (changed \<or> s_token_self (t_store sm) \<noteq> r_self r);
                    sm = sm\<lparr>t_store := (t_store sm)\<lparr>s_token_self := cbuf ESPOS_SK_SELF_MAX (r_self r)\<rparr>\<rparr>;
                    sm = (if v_self (t_server sm) = ''''
                          then sm\<lparr>t_server := (t_server sm)\<lparr>v_self := cbuf ESPOS_SK_SELF_MAX (r_self r)\<rparr>\<rparr>
                          else sm)
                in (changed, sm))
             else (changed, sm))
      in if changed then tok_save p sm else sm)"

definition verify_ok :: "'c tok_port \<Rightarrow> http_result \<Rightarrow> 'c tok_sm \<Rightarrow> 'c tok_sm" where
  "verify_ok p r sm =
     (let sm = sm\<lparr>t_plain_unauth_streak := 0\<rparr>
      in if t_state sm = ESPOS_SK_TOK_OPEN then tok_notify p (tok_arm p OPEN_CHECK_MS sm)
         else
           (let sm = learn_server p r sm;
                sm = (if t_state sm \<noteq> ESPOS_SK_TOK_APPROVED
                      then (let (t, sm) = tok_now p sm in sm\<lparr>t_approved_since_ms := t\<rparr>) else sm);
                sm = sm\<lparr>t_state := ESPOS_SK_TOK_APPROVED, t_error_backoff_ms := ERR_MIN_MS,
                        t_dup_backoff_ms := DUP_MIN_MS\<rparr>;
                sm = set_error '''' sm;
                sm = tok_arm p (k_check_interval_ms (t_cfg sm)) sm
            in tok_notify p sm))"

definition verify_refused :: "'c tok_port \<Rightarrow> 'c tok_sm \<Rightarrow> 'c tok_sm" where
  "verify_refused p sm =
     (if t_state sm = ESPOS_SK_TOK_OPEN then do_request p (set_error '''' sm)
      else
        (let (cleared, sm) = handle_unauthorized p sm
         in if \<not> cleared then sm else do_request p sm))"

definition verify_answer :: "'c tok_port \<Rightarrow> http_result \<Rightarrow> 'c tok_sm \<Rightarrow> 'c tok_sm" where
  "verify_answer p r sm =
     (let sm = sm\<lparr>t_busy := False, t_last_http_status := r_http_status r\<rparr>;
          (t, sm) = tok_now p sm;
          sm = sm\<lparr>t_last_check_ms := t\<rparr>
      in if r_cert_error r then enter_cert_error p (Some (r_cert_reason r)) sm
         else if r_http_status r = 200 then verify_ok p r sm
         else if r_http_status r = 401 \<or> r_http_status r = 403 then verify_refused p sm
         else if r_http_status r = 0 then enter_error p ''server unreachable'' sm
         else enter_error p (cbuf ESPOS_SK_MSG_MAX
                (''check failed (HTTP '' @ dec_of_int (r_http_status r) @ '')'')) sm)"

definition tok_ev_verify_result :: "'c tok_port \<Rightarrow> http_result \<Rightarrow> 'c tok_sm \<Rightarrow> 'c tok_sm" where
  "tok_ev_verify_result p r sm =
     (if t_reeval sm \<and> t_busy sm then drop_stale p sm
      else
        (let checking = (t_state sm = ESPOS_SK_TOK_APPROVED \<or> t_state sm = ESPOS_SK_TOK_OPEN)
         in if (t_state sm \<noteq> ESPOS_SK_TOK_VERIFYING \<and> \<not> checking) \<or> \<not> t_busy sm then sm
            else verify_answer p r sm))"

definition tok_ev_timer :: "'c tok_port \<Rightarrow> 'c tok_sm \<Rightarrow> 'c tok_sm" where
  "tok_ev_timer p sm =
     (if \<not> t_started sm \<or> t_busy sm \<or> t_timer_due_ms sm = 0 then sm
      else
        (let (t, sm) = tok_now p sm
         in if sint (t - t_timer_due_ms sm) < 0 then sm
            else
              (let sm = sm\<lparr>t_timer_due_ms := 0\<rparr>
               in case t_state sm of
                    ESPOS_SK_TOK_REQUESTED \<Rightarrow> do_poll p sm
                  | ESPOS_SK_TOK_APPROVED \<Rightarrow> do_verify p True sm
                  | ESPOS_SK_TOK_VERIFYING \<Rightarrow> do_verify p True sm
                  | ESPOS_SK_TOK_OPEN \<Rightarrow> do_request p sm
                  | ESPOS_SK_TOK_ERROR \<Rightarrow> evaluate p sm
                  | ESPOS_SK_TOK_CERT_ERROR \<Rightarrow> evaluate p sm
                  | _ \<Rightarrow> sm)))"

definition tok_ev_manual_token :: "'c tok_port \<Rightarrow> string option \<Rightarrow> 'c tok_sm \<Rightarrow> 'c tok_sm" where
  "tok_ev_manual_token p arg sm =
     (case arg of
        None \<Rightarrow> sm
      | Some tok \<Rightarrow>
          if tok = '''' \<or> \<not> token_fits p tok then sm
          else
            (let sm = sm\<lparr>t_store := (t_store sm)\<lparr>s_token := cbuf ESPOS_SK_TOKEN_MAX tok,
                           s_token_self := cbuf ESPOS_SK_SELF_MAX
                             (if t_has_server sm then v_self (t_server sm) else '''')\<rparr>\<rparr>;
                 (_, sm) = set_token_addr (if t_has_server sm then v_host (t_server sm) else '''')
                             (if t_has_server sm then v_port (t_server sm) else 0) sm;
                 sm = clear_pending sm;
                 sm = tok_save p sm;
                 sm = sm\<lparr>t_error_backoff_ms := ERR_MIN_MS, t_dup_backoff_ms := DUP_MIN_MS\<rparr>;
                 sm = set_error '''' sm
             in if \<not> t_has_server sm then tok_notify p sm
                else if t_busy sm then tok_notify p (sm\<lparr>t_reeval := True\<rparr>)
                else do_verify p False sm))"

definition tok_ev_retry :: "'c tok_port \<Rightarrow> 'c tok_sm \<Rightarrow> 'c tok_sm" where
  "tok_ev_retry p sm =
     (if \<not> t_started sm \<or> \<not> t_has_server sm \<or> t_busy sm then sm
      else
        (let sm = sm\<lparr>t_error_backoff_ms := ERR_MIN_MS, t_dup_backoff_ms := DUP_MIN_MS\<rparr>;
             sm = set_error '''' sm
         in if t_state sm = ESPOS_SK_TOK_DENIED \<or> t_state sm = ESPOS_SK_TOK_OPEN
            then do_request p (tok_save p (clear_pending sm))
            else evaluate p sm))"

definition tok_ev_unauthorized :: "'c tok_port \<Rightarrow> 'c tok_sm \<Rightarrow> 'c tok_sm" where
  "tok_ev_unauthorized p sm =
     (if t_state sm = ESPOS_SK_TOK_APPROVED \<and> \<not> t_busy sm then
        (let (cleared, sm) = handle_unauthorized p sm in if cleared then do_request p sm else sm)
      else sm)"

definition tok_ev_cert_error :: "'c tok_port \<Rightarrow> string option \<Rightarrow> 'c tok_sm \<Rightarrow> 'c tok_sm" where
  "tok_ev_cert_error p reason sm =
     (if t_state sm = ESPOS_SK_TOK_APPROVED \<or> t_state sm = ESPOS_SK_TOK_OPEN \<or>
         t_state sm = ESPOS_SK_TOK_VERIFYING
      then enter_cert_error p reason (sm\<lparr>t_busy := False\<rparr>) else sm)"

fun espos_sk_tok_event :: "'c tok_port \<Rightarrow> 'c tok_sm \<Rightarrow> tok_event \<Rightarrow> 'c tok_sm" where
  "espos_sk_tok_event p sm ESPOS_SK_EV_START = tok_ev_start p sm"
| "espos_sk_tok_event p sm ESPOS_SK_EV_STOP = tok_ev_stop p sm"
| "espos_sk_tok_event p sm (ESPOS_SK_EV_CONFIG c) = tok_ev_config p c sm"
| "espos_sk_tok_event p sm (ESPOS_SK_EV_SERVER srv) = tok_ev_server p srv sm"
| "espos_sk_tok_event p sm (ESPOS_SK_EV_REQUEST_RESULT r) = tok_ev_request_result p r sm"
| "espos_sk_tok_event p sm (ESPOS_SK_EV_POLL_RESULT r) = tok_ev_poll_result p r sm"
| "espos_sk_tok_event p sm (ESPOS_SK_EV_VERIFY_RESULT r) = tok_ev_verify_result p r sm"
| "espos_sk_tok_event p sm ESPOS_SK_EV_TIMER = tok_ev_timer p sm"
| "espos_sk_tok_event p sm (ESPOS_SK_EV_MANUAL_TOKEN t) = tok_ev_manual_token p t sm"
| "espos_sk_tok_event p sm ESPOS_SK_EV_RETRY = tok_ev_retry p sm"
| "espos_sk_tok_event p sm ESPOS_SK_EV_UNAUTHORIZED = tok_ev_unauthorized p sm"
| "espos_sk_tok_event p sm (ESPOS_SK_EV_CERT_ERROR reason) = tok_ev_cert_error p reason sm"

subsection \<open>The invariant\<close>

lemmas tok_ops = tok_now_def tok_random_def set_error_def tok_arm_def tok_cancel_def tok_save_def
  clear_pending_def clear_token_def Let_def

lemma tok_notify_frame [frame, simp]:
  "t_store (tok_notify p sm) = t_store sm" "t_state (tok_notify p sm) = t_state sm"
  "t_server (tok_notify p sm) = t_server sm" "t_has_server (tok_notify p sm) = t_has_server sm"
  "t_has_token (tok_notify p sm) = t_has_token sm" "t_pending_href (tok_notify p sm) = t_pending_href sm"
  "t_poll_interval_ms (tok_notify p sm) = t_poll_interval_ms sm" "t_busy (tok_notify p sm) = t_busy sm"
  "t_started (tok_notify p sm) = t_started sm" "t_reeval (tok_notify p sm) = t_reeval sm"
  "t_error_backoff_ms (tok_notify p sm) = t_error_backoff_ms sm"
  "t_dup_backoff_ms (tok_notify p sm) = t_dup_backoff_ms sm"
  "t_timer_due_ms (tok_notify p sm) = t_timer_due_ms sm" "t_cfg (tok_notify p sm) = t_cfg sm"
  "t_plain_unauth_streak (tok_notify p sm) = t_plain_unauth_streak sm"
  by (simp_all add: tok_notify_def split: option.splits)

text \<open>What the status mirrors of the store, and the three ladders of delays.\<close>

definition tok_mirror :: "'c tok_sm \<Rightarrow> bool" where
  "tok_mirror sm \<longleftrightarrow> t_has_token sm = (s_token (t_store sm) \<noteq> '''') \<and>
     t_pending_href sm = cbuf ESPOS_SK_HREF_MAX (s_pending_href (t_store sm))"

definition tok_ladders :: "'c tok_sm \<Rightarrow> bool" where
  "tok_ladders sm \<longleftrightarrow> t_error_backoff_ms sm \<in> {ERR_MIN_MS..ERR_MAX_MS} \<and>
     t_dup_backoff_ms sm \<in> {DUP_MIN_MS..DUP_MAX_MS} \<and> t_poll_interval_ms sm \<in> {POLL_MIN_MS..POLL_MAX_MS}"

text \<open>
  A state that uses the token has one; a machine without a server waits for one, unless an
  answer is still out or a certificate error is being waited out; a request that is polled is
  on file; and a started machine waits for an answer, for its timer, for a server, or, denied,
  for its user.
\<close>

definition tok_states :: "'c tok_sm \<Rightarrow> bool" where
  "tok_states sm \<longleftrightarrow>
     (t_state sm = ESPOS_SK_TOK_APPROVED \<or> t_state sm = ESPOS_SK_TOK_VERIFYING \<longrightarrow> s_token (t_store sm) \<noteq> '''') \<and>
     (t_started sm \<and> \<not> t_has_server sm \<longrightarrow> t_state sm = ESPOS_SK_TOK_NO_SERVER \<or>
        t_state sm = ESPOS_SK_TOK_CERT_ERROR \<or> t_reeval sm \<and> t_busy sm) \<and>
     (t_state sm = ESPOS_SK_TOK_REQUESTED \<and> t_started sm \<and> s_pending_href (t_store sm) = '''' \<longrightarrow>
        t_reeval sm \<and> t_busy sm) \<and>
     (t_state sm = ESPOS_SK_TOK_REQUESTED \<and> t_busy sm \<longrightarrow> t_started sm) \<and>
     (t_started sm \<and> \<not> t_busy sm \<longrightarrow> t_state sm \<noteq> ESPOS_SK_TOK_IDLE \<and>
        (t_state sm = ESPOS_SK_TOK_NO_SERVER \<longrightarrow> \<not> t_has_server sm) \<and>
        (t_timer_due_ms sm = 0 \<longrightarrow> t_state sm = ESPOS_SK_TOK_DENIED \<or> t_state sm = ESPOS_SK_TOK_NO_SERVER))"

definition tok_base :: "'c tok_sm \<Rightarrow> bool" where
  "tok_base sm \<longleftrightarrow> tok_mirror sm \<and> tok_ladders sm"

definition tok_inv :: "'c tok_sm \<Rightarrow> bool" where
  "tok_inv sm \<longleftrightarrow> tok_base sm \<and> tok_states sm"

text \<open>What an action needs: a server, if the machine runs.\<close>

definition tok_pre :: "'c tok_sm \<Rightarrow> bool" where
  "tok_pre sm \<longleftrightarrow> tok_base sm \<and> (t_started sm \<longrightarrow> t_has_server sm)"

lemma double_to_range:
  "d \<in> {lo..hi} \<Longrightarrow> unat hi < 2 ^ 31 \<Longrightarrow> double_to hi d \<in> {lo..hi}"
  by (auto simp: double_to_def word_le_nat_alt word_less_nat_alt unat_word_ariths)

lemma poll_next_range:
  assumes "(d :: u32) \<in> {POLL_MIN_MS..POLL_MAX_MS}"
  shows "(if d + d div 2 > POLL_MAX_MS then POLL_MAX_MS else d + d div 2) \<in> {POLL_MIN_MS..POLL_MAX_MS}"
  using assms by (auto simp: word_le_nat_alt word_less_nat_alt unat_word_ariths unat_div)

lemmas tok_base_defs = tok_base_def tok_mirror_def tok_ladders_def

lemma tok_base_fields [simp]:
  "tok_base (sm\<lparr>t_ctx := c\<rparr>) = tok_base sm" "tok_base (sm\<lparr>t_state := s\<rparr>) = tok_base sm"
  "tok_base (sm\<lparr>t_busy := b\<rparr>) = tok_base sm" "tok_base (sm\<lparr>t_reeval := b\<rparr>) = tok_base sm"
  "tok_base (sm\<lparr>t_started := b\<rparr>) = tok_base sm" "tok_base (sm\<lparr>t_server := v\<rparr>) = tok_base sm"
  "tok_base (sm\<lparr>t_has_server := b\<rparr>) = tok_base sm" "tok_base (sm\<lparr>t_last_http_status := i\<rparr>) = tok_base sm"
  "tok_base (sm\<lparr>t_last_check_ms := n\<rparr>) = tok_base sm" "tok_base (sm\<lparr>t_last_error := m\<rparr>) = tok_base sm"
  "tok_base (sm\<lparr>t_timer_due_ms := n\<rparr>) = tok_base sm" "tok_base (sm\<lparr>t_next_action_ms := n\<rparr>) = tok_base sm"
  "tok_base (sm\<lparr>t_requested_since_ms := n\<rparr>) = tok_base sm" "tok_base (sm\<lparr>t_cfg := k\<rparr>) = tok_base sm"
  "tok_base (sm\<lparr>t_approved_since_ms := n\<rparr>) = tok_base sm"
  "tok_base (sm\<lparr>t_plain_unauth_streak := n\<rparr>) = tok_base sm"
  "tok_base (sm\<lparr>t_unauthorized_count := n\<rparr>) = tok_base sm"
  "tok_base (sm\<lparr>t_request_count := n\<rparr>) = tok_base sm" "tok_base (sm\<lparr>t_deny_count := n\<rparr>) = tok_base sm"
  "tok_base (sm\<lparr>t_approve_count := n\<rparr>) = tok_base sm"
  "tok_base (sm\<lparr>t_cert_error_count := n\<rparr>) = tok_base sm"
  by (simp_all add: tok_base_defs)

lemma tok_base_ladder [simp]:
  "tok_base sm \<Longrightarrow> tok_base (sm\<lparr>t_error_backoff_ms := ERR_MIN_MS\<rparr>)"
  "tok_base sm \<Longrightarrow> tok_base (sm\<lparr>t_dup_backoff_ms := DUP_MIN_MS\<rparr>)"
  "tok_base sm \<Longrightarrow> tok_base (sm\<lparr>t_poll_interval_ms := POLL_MIN_MS\<rparr>)"
  "tok_base sm \<Longrightarrow> t_error_backoff_ms sm = d \<Longrightarrow> tok_base (sm\<lparr>t_error_backoff_ms := double_to ERR_MAX_MS d\<rparr>)"
  "tok_base sm \<Longrightarrow> t_dup_backoff_ms sm = d \<Longrightarrow> tok_base (sm\<lparr>t_dup_backoff_ms := double_to DUP_MAX_MS d\<rparr>)"
  using double_to_range [of d ERR_MIN_MS ERR_MAX_MS] double_to_range [of d DUP_MIN_MS DUP_MAX_MS]
  by (simp_all add: tok_base_defs)

lemma tok_base_notify [simp]: "tok_base (tok_notify p sm) = tok_base sm"
  by (simp add: tok_base_defs)

text \<open>A save makes the status mirror whatever was written to the store.\<close>

lemma tok_base_save [simp]:
  "tok_ladders sm \<Longrightarrow> tok_base (tok_save p sm)" "tok_ladders (sm\<lparr>t_store := s\<rparr>) = tok_ladders sm"
  "tok_base sm \<Longrightarrow> tok_ladders sm"
  by (simp_all add: tok_base_defs tok_save_def)

lemma tok_simple_frames [frame, simp]:
  "t_store (set_error m sm) = t_store sm" "t_state (set_error m sm) = t_state sm"
  "t_has_server (set_error m sm) = t_has_server sm" "t_busy (set_error m sm) = t_busy sm"
  "t_started (set_error m sm) = t_started sm" "t_reeval (set_error m sm) = t_reeval sm"
  "t_server (set_error m sm) = t_server sm" "t_timer_due_ms (set_error m sm) = t_timer_due_ms sm"
  "t_store (tok_save p sm) = t_store sm" "t_state (tok_save p sm) = t_state sm"
  "t_has_server (tok_save p sm) = t_has_server sm" "t_busy (tok_save p sm) = t_busy sm"
  "t_started (tok_save p sm) = t_started sm" "t_reeval (tok_save p sm) = t_reeval sm"
  "t_server (tok_save p sm) = t_server sm" "t_timer_due_ms (tok_save p sm) = t_timer_due_ms sm"
  "t_store (tok_arm p ms sm) = t_store sm" "t_state (tok_arm p ms sm) = t_state sm"
  "t_has_server (tok_arm p ms sm) = t_has_server sm" "t_busy (tok_arm p ms sm) = t_busy sm"
  "t_started (tok_arm p ms sm) = t_started sm" "t_reeval (tok_arm p ms sm) = t_reeval sm"
  "t_server (tok_arm p ms sm) = t_server sm" "t_timer_due_ms (tok_arm p ms sm) \<noteq> 0"
  "tok_base (set_error m sm) = tok_base sm" "tok_base (tok_arm p ms sm) = tok_base sm"
  "t_error_backoff_ms (tok_arm p ms sm) = t_error_backoff_ms sm"
  "t_dup_backoff_ms (tok_arm p ms sm) = t_dup_backoff_ms sm"
  "t_error_backoff_ms (set_error m sm) = t_error_backoff_ms sm"
  "t_dup_backoff_ms (set_error m sm) = t_dup_backoff_ms sm"
  "tok_base (tok_cancel p sm) = tok_base sm" "tok_ladders (clear_pending sm) = tok_ladders sm"
  "tok_ladders (clear_token sm) = tok_ladders sm"
  "t_state (clear_pending sm) = t_state sm" "t_has_server (clear_pending sm) = t_has_server sm"
  "t_busy (clear_pending sm) = t_busy sm" "t_started (clear_pending sm) = t_started sm"
  "t_reeval (clear_pending sm) = t_reeval sm" "t_server (clear_pending sm) = t_server sm"
  "s_token (t_store (clear_pending sm)) = s_token (t_store sm)"
  "s_pending_href (t_store (clear_pending sm)) = ''''"
  "t_timer_due_ms (clear_pending sm) = t_timer_due_ms sm"
  by (simp_all add: tok_ops tok_ladders_def)

text \<open>A machine whose server is known, in a state with nothing to check but its timer.\<close>

lemma tok_inv_armed:
  assumes "tok_base sm" and "t_started sm \<longrightarrow> t_has_server sm" and "t_timer_due_ms sm \<noteq> 0"
    and "t_state sm \<in> {ESPOS_SK_TOK_DENIED, ESPOS_SK_TOK_OPEN, ESPOS_SK_TOK_ERROR}"
  shows "tok_inv sm"
  using assms by (auto simp: tok_inv_def tok_states_def)

lemma do_request_inv [keeps]: "tok_pre sm \<Longrightarrow> tok_inv (do_request p sm)"
  by (auto simp: do_request_def tok_pre_def tok_inv_def tok_states_def tok_cancel_def Let_def)

lemma do_poll_inv [keeps]:
  "tok_pre sm \<Longrightarrow> t_started sm \<Longrightarrow> s_pending_href (t_store sm) \<noteq> '''' \<Longrightarrow> tok_inv (do_poll p sm)"
  by (auto simp: do_poll_def tok_pre_def tok_inv_def tok_states_def tok_cancel_def Let_def)

lemma do_verify_inv [keeps]: "tok_pre sm \<Longrightarrow> s_token (t_store sm) \<noteq> '''' \<Longrightarrow> tok_inv (do_verify p False sm)"
  by (auto simp: do_verify_def tok_pre_def tok_inv_def tok_states_def tok_cancel_def Let_def)

lemma enter_error_inv [keeps]: "tok_pre sm \<Longrightarrow> tok_inv (enter_error p msg sm)"
  by (rule tok_inv_armed) (auto simp: enter_error_def Let_def tok_random_def tok_pre_def)

lemma enter_cert_error_inv [keeps]: "tok_base sm \<Longrightarrow> tok_inv (enter_cert_error p reason sm)"
  by (auto simp: enter_cert_error_def Let_def tok_inv_def tok_states_def)

lemma use_token_inv [keeps]:
  assumes "tok_pre sm" and "t_started sm"
  shows "tok_inv (use_token p sm)"
proof -
  have "tok_inv (tok_notify p (tok_arm p ms (set_error '''' (sm\<lparr>t_state := ESPOS_SK_TOK_APPROVED,
      t_ctx := c, t_approved_since_ms := n, t_error_backoff_ms := ERR_MIN_MS, t_dup_backoff_ms := DUP_MIN_MS\<rparr>))))"
    "tok_inv (tok_notify p (tok_arm p ms (set_error '''' (sm\<lparr>t_state := ESPOS_SK_TOK_APPROVED,
      t_error_backoff_ms := ERR_MIN_MS, t_dup_backoff_ms := DUP_MIN_MS\<rparr>))))"
    if "s_token (t_store sm) \<noteq> ''''" for ms c n
    using that assms by (auto simp: tok_inv_def tok_states_def tok_pre_def)
  with assms show ?thesis
    by (simp add: use_token_def do_request_inv do_verify_inv Let_def tok_now_def)
qed

lemma evaluate_inv [keeps]:
  assumes "tok_base sm" and "t_started sm"
  shows "tok_inv (evaluate p sm)"
proof (cases "t_has_server sm")
  case True
  have "tok_pre (tok_save p (clear_pending sm))" "tok_pre sm"
    using assms True by (simp_all add: tok_pre_def)
  moreover have "tok_inv (do_poll p (sm\<lparr>t_poll_interval_ms := POLL_MIN_MS\<rparr>))"
    "tok_inv (do_poll p (sm\<lparr>t_poll_interval_ms := POLL_MIN_MS, t_ctx := c, t_requested_since_ms := t\<rparr>))"
    if "s_pending_href (t_store sm) \<noteq> ''''" for c t
    using that assms True by (auto intro!: do_poll_inv simp: tok_pre_def)
  ultimately show ?thesis
    using assms True by (simp add: evaluate_def Let_def tok_now_def use_token_inv)
next
  case False
  with assms show ?thesis by (auto simp: evaluate_def tok_cancel_def tok_inv_def tok_states_def)
qed

lemma evaluate_stopped [simp]: "\<not> t_started sm \<Longrightarrow> evaluate p sm = sm"
  by (simp add: evaluate_def)

lemma drop_stale_inv [keeps]:
  assumes "tok_inv sm" and "t_reeval sm" and "t_busy sm"
  shows "tok_inv (drop_stale p sm)"
proof (cases "t_started sm")
  case True
  with assms show ?thesis by (simp add: drop_stale_def evaluate_inv tok_inv_def [of sm])
next
  case False
  with assms show ?thesis by (auto simp: drop_stale_def tok_inv_def tok_states_def)
qed

text \<open>An answer that is not stale finds a server.\<close>

lemma tok_inv_pre:
  assumes "tok_inv sm" and "\<not> (t_reeval sm \<and> t_busy sm)"
    and "t_state sm \<noteq> ESPOS_SK_TOK_NO_SERVER" and "t_state sm \<noteq> ESPOS_SK_TOK_CERT_ERROR"
  shows "tok_pre sm"
  using assms by (auto simp: tok_inv_def tok_states_def tok_pre_def)

lemma tok_pre_fields [simp]:
  "tok_pre (sm\<lparr>t_busy := b, t_last_http_status := i\<rparr>) = tok_pre sm"
  "tok_pre (set_error m sm) = tok_pre sm" "tok_pre (sm\<lparr>t_ctx := c\<rparr>) = tok_pre sm"
  "tok_pre (sm\<lparr>t_last_check_ms := n\<rparr>) = tok_pre sm"
  "tok_pre sm \<Longrightarrow> tok_pre (tok_save p (clear_pending sm))"
  by (simp_all add: tok_pre_def)

lemma tok_pre_base [simp]: "tok_pre sm \<Longrightarrow> tok_base sm"
  by (simp add: tok_pre_def)

lemma request_accepted_inv:
  assumes "tok_pre sm" and "href \<noteq> ''''" and "\<not> t_busy sm"
  shows "tok_inv (request_accepted p href sm)"
  using assms by (auto simp: request_accepted_def Let_def tok_now_def tok_pre_def tok_inv_def tok_states_def)

lemma request_duplicate_inv: "tok_pre sm \<Longrightarrow> tok_inv (request_duplicate p sm)"
  by (rule tok_inv_armed) (auto simp: request_duplicate_def Let_def tok_random_def tok_pre_def)

lemma request_answer_inv:
  assumes "tok_pre sm"
  shows "tok_inv (request_answer p r sm)"
proof -
  have "tok_inv (tok_notify p (tok_arm p OPEN_CHECK_MS (set_error '''' (sm\<lparr>t_busy := False,
      t_last_http_status := i, t_state := ESPOS_SK_TOK_OPEN,
      t_error_backoff_ms := ERR_MIN_MS, t_dup_backoff_ms := DUP_MIN_MS\<rparr>))))" for i
    using assms by (intro tok_inv_armed) (auto simp: tok_pre_def)
  moreover have "tok_inv (tok_notify p (tok_cancel p (set_error m (sm\<lparr>t_busy := False,
      t_last_http_status := i, t_state := ESPOS_SK_TOK_DENIED, t_deny_count := n\<rparr>))))" for m n i
    using assms by (auto simp: tok_pre_def tok_inv_def tok_states_def tok_cancel_def)
  ultimately show ?thesis
    using assms
    by (simp add: request_answer_def Let_def enter_cert_error_inv enter_error_inv request_accepted_inv
        request_duplicate_inv)
qed

lemma poll_denied_inv: "tok_pre sm \<Longrightarrow> tok_inv (poll_denied p m sm)"
  by (auto simp: poll_denied_def Let_def tok_pre_def tok_inv_def tok_states_def tok_cancel_def)

lemma set_token_addr_frame [simp]:
  "t_started (snd (set_token_addr h q sm)) = t_started sm" "t_has_server (snd (set_token_addr h q sm)) = t_has_server sm"
  "s_token (t_store (snd (set_token_addr h q sm))) = s_token (t_store sm)"
  "s_pending_href (t_store (snd (set_token_addr h q sm))) = s_pending_href (t_store sm)"
  "tok_base (snd (set_token_addr h q sm)) = tok_base sm" "tok_ladders (snd (set_token_addr h q sm)) = tok_ladders sm"
  "t_state (snd (set_token_addr h q sm)) = t_state sm" "t_busy (snd (set_token_addr h q sm)) = t_busy sm"
  "t_reeval (snd (set_token_addr h q sm)) = t_reeval sm" "t_server (snd (set_token_addr h q sm)) = t_server sm"
  "t_timer_due_ms (snd (set_token_addr h q sm)) = t_timer_due_ms sm"
  by (simp_all add: set_token_addr_def tok_base_defs)

lemma poll_approved_inv:
  assumes "tok_pre sm" and "token \<noteq> ''''"
  shows "tok_inv (poll_approved p token sm)"
  using assms
  by (auto simp: poll_approved_def Let_def split_beta tok_pre_def intro!: do_verify_inv)

lemma poll_pending_inv:
  assumes "tok_pre sm" and "t_state sm = ESPOS_SK_TOK_REQUESTED" and "\<not> t_busy sm"
    and "t_started sm" and "s_pending_href (t_store sm) \<noteq> ''''"
  shows "tok_inv (poll_pending p sm)"
proof -
  let ?n = "if t_poll_interval_ms sm + t_poll_interval_ms sm div 2 > POLL_MAX_MS then POLL_MAX_MS
     else t_poll_interval_ms sm + t_poll_interval_ms sm div 2"
  have "tok_base (sm\<lparr>t_poll_interval_ms := ?n\<rparr>)"
    using poll_next_range [of "t_poll_interval_ms sm"] assms(1) by (simp add: tok_base_defs tok_pre_def)
  moreover have "poll_pending p sm = tok_notify p (tok_arm p ?n (sm\<lparr>t_poll_interval_ms := ?n\<rparr>))"
    by (simp only: poll_pending_def Let_def)
  moreover have "t_started sm \<longrightarrow> t_has_server sm" using assms(1) by (simp add: tok_pre_def)
  ultimately show ?thesis using assms(2-) by (simp add: tok_inv_def tok_states_def del: if_split)
qed

lemma poll_lost_inv: "tok_pre sm \<Longrightarrow> tok_inv (poll_lost p sm)"
  by (simp add: poll_lost_def Let_def enter_error_inv do_request_inv)

lemma tok_pre_ladders [simp]:
  "tok_pre sm \<Longrightarrow> tok_pre (sm\<lparr>t_error_backoff_ms := ERR_MIN_MS, t_dup_backoff_ms := DUP_MIN_MS\<rparr>)"
  by (simp add: tok_pre_def)

lemma poll_answer_inv:
  assumes "tok_pre sm" and "t_state sm = ESPOS_SK_TOK_REQUESTED"
    and "t_started sm" and "s_pending_href (t_store sm) \<noteq> ''''"
  shows "tok_inv (poll_answer p r sm)"
proof -
  have completed: "tok_inv (poll_completed p r sm')" if "tok_pre sm'" for sm'
    using that by (simp add: poll_completed_def poll_denied_inv poll_approved_inv)
  have pre: "tok_pre (sm\<lparr>t_busy := False, t_last_http_status := i, t_error_backoff_ms := ERR_MIN_MS,
      t_dup_backoff_ms := DUP_MIN_MS\<rparr>)" for i
    using assms(1) tok_pre_ladders [of "sm\<lparr>t_busy := False, t_last_http_status := i\<rparr>"] by simp
  with completed assms show ?thesis
    by (simp add: poll_answer_def Let_def enter_cert_error_inv enter_error_inv poll_lost_inv poll_pending_inv)
qed

lemma learn_server_frame [frame, simp]:
  "t_state (learn_server p r sm) = t_state sm" "t_has_server (learn_server p r sm) = t_has_server sm"
  "t_busy (learn_server p r sm) = t_busy sm" "t_started (learn_server p r sm) = t_started sm"
  "t_reeval (learn_server p r sm) = t_reeval sm"
  "s_token (t_store (learn_server p r sm)) = s_token (t_store sm)"
  "s_pending_href (t_store (learn_server p r sm)) = s_pending_href (t_store sm)"
  "t_plain_unauth_streak (learn_server p r sm) = t_plain_unauth_streak sm"
  "tok_base sm \<Longrightarrow> tok_base (learn_server p r sm)"
  by (simp_all add: learn_server_def Let_def split_beta set_token_addr_def tok_save_def tok_base_defs)

lemma verify_ok_inv:
  assumes "tok_pre sm" and "t_state sm = ESPOS_SK_TOK_OPEN \<or> s_token (t_store sm) \<noteq> ''''"
  shows "tok_inv (verify_ok p r sm)"
proof (cases "t_state sm = ESPOS_SK_TOK_OPEN")
  case True
  with assms have "tok_inv (tok_notify p (tok_arm p OPEN_CHECK_MS (sm\<lparr>t_plain_unauth_streak := 0\<rparr>)))"
    by (intro tok_inv_armed) (auto simp: tok_pre_def)
  with True show ?thesis by (simp add: verify_ok_def Let_def)
next
  case False
  with assms show ?thesis
    by (auto simp: verify_ok_def Let_def tok_now_def tok_inv_def tok_states_def tok_pre_def)
qed

text \<open>What a refusal of the token leaves: the token dropped, or kept with a timer armed.\<close>

lemma handle_unauthorized_inv:
  assumes "tok_pre sm" and "t_state sm \<in> {ESPOS_SK_TOK_APPROVED, ESPOS_SK_TOK_VERIFYING}"
    and "s_token (t_store sm) \<noteq> ''''" and "\<not> t_busy sm"
  shows "fst (handle_unauthorized p sm) \<Longrightarrow> tok_pre (snd (handle_unauthorized p sm))"
    and "\<not> fst (handle_unauthorized p sm) \<Longrightarrow> tok_inv (snd (handle_unauthorized p sm))"
proof -
  let ?sm = "sm\<lparr>t_unauthorized_count := t_unauthorized_count sm + 1\<rparr>"
  have err: "tok_inv (enter_error p m (?sm\<lparr>t_plain_unauth_streak := n\<rparr>))" for m n
    using assms(1) by (intro enter_error_inv) (simp add: tok_pre_def)
  have keep: "tok_inv (tok_notify p (tok_arm p ms (set_error m (?sm\<lparr>t_plain_unauth_streak := n\<rparr>))))" for m n ms
    using assms by (auto simp: tok_inv_def tok_states_def tok_pre_def)
  have clear: "tok_pre (set_error m (tok_save p (clear_token (?sm\<lparr>t_plain_unauth_streak := n\<rparr>))))" for m n
    using assms(1) by (simp add: tok_pre_def clear_token_def)
  show "fst (handle_unauthorized p sm) \<Longrightarrow> tok_pre (snd (handle_unauthorized p sm))"
    "\<not> fst (handle_unauthorized p sm) \<Longrightarrow> tok_inv (snd (handle_unauthorized p sm))"
    using err keep clear by (auto simp: handle_unauthorized_def Let_def)
qed

lemma verify_refused_inv:
  assumes "tok_pre sm" and "t_state sm \<in> {ESPOS_SK_TOK_OPEN, ESPOS_SK_TOK_APPROVED, ESPOS_SK_TOK_VERIFYING}"
    and "t_state sm = ESPOS_SK_TOK_OPEN \<or> s_token (t_store sm) \<noteq> ''''" and "\<not> t_busy sm"
  shows "tok_inv (verify_refused p sm)"
  using assms handle_unauthorized_inv [of sm p]
  by (auto simp: verify_refused_def split_beta do_request_inv)

lemma verify_answer_inv:
  assumes "tok_pre sm" and "t_state sm \<in> {ESPOS_SK_TOK_OPEN, ESPOS_SK_TOK_APPROVED, ESPOS_SK_TOK_VERIFYING}"
    and "t_state sm = ESPOS_SK_TOK_OPEN \<or> s_token (t_store sm) \<noteq> ''''"
  shows "tok_inv (verify_answer p r sm)"
proof -
  let ?sm = "\<lambda>i c t. sm\<lparr>t_busy := False, t_last_http_status := i, t_ctx := c, t_last_check_ms := t\<rparr>"
  have pre: "tok_pre (?sm i c t)" for i c t using assms(1) by (simp add: tok_pre_def)
  show ?thesis
    using verify_ok_inv [OF pre] verify_refused_inv [OF pre] enter_error_inv [OF pre]
      enter_cert_error_inv [OF tok_pre_base [OF pre]] assms(2,3)
    by (simp add: verify_answer_def Let_def tok_now_def)
qed

subsection \<open>Every event keeps the invariant\<close>

lemma tok_ev_start_inv: "tok_inv sm \<Longrightarrow> tok_inv (tok_ev_start p sm)"
  by (simp add: tok_ev_start_def evaluate_inv tok_inv_def [of sm])

lemma tok_ev_stop_inv: "tok_inv sm \<Longrightarrow> tok_inv (tok_ev_stop p sm)"
  by (simp add: tok_ev_stop_def tok_inv_def tok_states_def tok_cancel_def Let_def)

lemma tok_ev_config_inv:
  assumes "tok_inv sm"
  shows "tok_inv (tok_ev_config p c sm)"
proof -
  have "tok_inv (sm\<lparr>t_cfg := k\<rparr>)" "tok_inv (tok_arm p ms (sm\<lparr>t_cfg := k\<rparr>))" for k ms
    using assms by (simp_all add: tok_inv_def tok_states_def)
  with assms show ?thesis by (cases c) (simp_all add: tok_ev_config_def Let_def)
qed

lemma tok_inv_notify [simp]: "tok_inv (tok_notify p sm) = tok_inv sm"
  by (simp add: tok_inv_def tok_states_def)

lemma tok_inv_server [simp]: "tok_inv (sm\<lparr>t_server := v\<rparr>) = tok_inv sm"
  by (simp add: tok_inv_def tok_states_def)

lemma tok_inv_frame:
  assumes "tok_inv sm" and "tok_base sm'" and "t_state sm' = t_state sm"
    and "t_has_server sm' = t_has_server sm" and "t_busy sm' = t_busy sm" and "t_started sm' = t_started sm"
    and "t_reeval sm' = t_reeval sm" and "t_timer_due_ms sm' = t_timer_due_ms sm"
    and "s_token (t_store sm') = s_token (t_store sm)"
    and "s_pending_href (t_store sm') = s_pending_href (t_store sm)"
  shows "tok_inv sm'"
  using assms by (simp add: tok_inv_def tok_states_def)

lemma server_again_inv:
  assumes "tok_inv sm"
  shows "tok_inv (server_again p srv sm)"
  using assms by (rule tok_inv_frame) (use assms in \<open>simp_all add: server_again_def Let_def tok_inv_def\<close>)

lemma tok_ev_server_inv:
  assumes "tok_inv sm"
  shows "tok_inv (tok_ev_server p arg sm)"
proof -
  have new: "tok_inv (if t_busy sm then tok_notify p (sm'\<lparr>t_reeval := True\<rparr>) else evaluate p sm')"
    if "sm' = set_error m (sm\<lparr>t_server := v, t_has_server := b, t_error_backoff_ms := ERR_MIN_MS,
          t_dup_backoff_ms := DUP_MIN_MS\<rparr>)" for sm' m v b
  proof -
    from assms have base: "tok_base sm'" and st: "tok_states sm" by (simp_all add: that tok_inv_def)
    have flds: "t_state sm' = t_state sm" "t_has_server sm' = b" "t_busy sm' = t_busy sm"
      "t_started sm' = t_started sm" "t_reeval sm' = t_reeval sm" "t_timer_due_ms sm' = t_timer_due_ms sm"
      "t_store sm' = t_store sm" by (simp_all add: that)
    consider "t_busy sm" | "\<not> t_busy sm" "t_started sm" | "\<not> t_busy sm" "\<not> t_started sm" by blast
    then show ?thesis
      using base st flds by cases (simp_all add: tok_inv_def tok_states_def evaluate_inv [unfolded tok_inv_def tok_states_def])
  qed
  show ?thesis
  proof (cases arg)
    case None
    with new [OF refl, where b = False] show ?thesis by (simp add: tok_ev_server_def Let_def)
  next
    case (Some srv)
    with new [OF refl, where b = True] assms show ?thesis
      by (simp add: tok_ev_server_def Let_def server_again_inv)
  qed
qed

lemma tok_ev_request_result_inv:
  assumes "tok_inv sm"
  shows "tok_inv (tok_ev_request_result p r sm)"
proof -
  have "tok_pre sm" if "\<not> (t_reeval sm \<and> t_busy sm)" "t_state sm = ESPOS_SK_TOK_IDLE"
    using that by (intro tok_inv_pre [OF assms]) simp_all
  then show ?thesis
    using assms drop_stale_inv [OF assms] request_answer_inv [of sm]
    by (simp add: tok_ev_request_result_def)
qed

lemma tok_ev_poll_result_inv:
  assumes "tok_inv sm"
  shows "tok_inv (tok_ev_poll_result p r sm)"
proof -
  have "tok_pre sm \<and> t_started sm \<and> s_pending_href (t_store sm) \<noteq> ''''"
    if "\<not> (t_reeval sm \<and> t_busy sm)" "t_state sm = ESPOS_SK_TOK_REQUESTED" "t_busy sm"
    using that assms tok_inv_pre [OF assms] by (auto simp: tok_inv_def tok_states_def)
  then show ?thesis
    using assms drop_stale_inv [OF assms] poll_answer_inv [of sm]
    by (simp add: tok_ev_poll_result_def)
qed

lemma tok_inv_token:
  "tok_inv sm \<Longrightarrow> t_state sm = ESPOS_SK_TOK_APPROVED \<or> t_state sm = ESPOS_SK_TOK_VERIFYING \<Longrightarrow>
     s_token (t_store sm) \<noteq> ''''"
  by (auto simp: tok_inv_def tok_states_def)

lemma tok_ev_verify_result_inv:
  assumes "tok_inv sm"
  shows "tok_inv (tok_ev_verify_result p r sm)"
proof -
  have "tok_inv (verify_answer p r sm)"
    if "\<not> (t_reeval sm \<and> t_busy sm)"
      "t_state sm \<in> {ESPOS_SK_TOK_OPEN, ESPOS_SK_TOK_APPROVED, ESPOS_SK_TOK_VERIFYING}"
    using that tok_inv_token [OF assms]
    by (intro verify_answer_inv tok_inv_pre [OF assms]) auto
  then show ?thesis
    using assms drop_stale_inv [OF assms]
    by (auto simp: tok_ev_verify_result_def Let_def)
qed

lemma do_verify_check_inv:
  assumes "tok_inv sm" and "\<not> t_busy sm"
    and "t_state sm = ESPOS_SK_TOK_APPROVED \<or> t_state sm = ESPOS_SK_TOK_VERIFYING"
  shows "tok_inv (do_verify p True (sm\<lparr>t_ctx := c, t_timer_due_ms := d\<rparr>))"
  using assms by (auto simp: do_verify_def tok_inv_def tok_states_def tok_cancel_def Let_def)

lemma tok_ev_timer_inv:
  assumes "tok_inv sm"
  shows "tok_inv (tok_ev_timer p sm)"
proof (cases "t_started sm \<and> \<not> t_busy sm \<and> t_timer_due_ms sm \<noteq> 0")
  case True
  let ?sm = "sm\<lparr>t_ctx := snd (tp_now_ms p (t_ctx sm)), t_timer_due_ms := 0\<rparr>"
  have ctx: "tok_inv (sm\<lparr>t_ctx := c\<rparr>)" for c
    using assms by (simp add: tok_inv_def tok_states_def)
  have base: "tok_base sm" using assms by (simp add: tok_inv_def)
  have pre: "tok_pre ?sm" if "t_state sm \<noteq> ESPOS_SK_TOK_NO_SERVER" "t_state sm \<noteq> ESPOS_SK_TOK_CERT_ERROR"
    using tok_inv_pre [OF assms] that True by (simp add: tok_pre_def)
  have pend: "s_pending_href (t_store sm) \<noteq> ''''" if "t_state sm = ESPOS_SK_TOK_REQUESTED"
    using that assms True by (auto simp: tok_inv_def tok_states_def)
  have rest: "tok_inv ?sm" if "t_state sm = ESPOS_SK_TOK_DENIED \<or> t_state sm = ESPOS_SK_TOK_NO_SERVER"
    using that assms by (auto simp add: tok_inv_def tok_states_def)
  have idle: "t_state sm \<noteq> ESPOS_SK_TOK_IDLE"
    using assms True by (auto simp: tok_inv_def tok_states_def)
  show ?thesis
    using True ctx pre pend rest idle base
    by (cases "t_state sm") (simp_all add: tok_ev_timer_def Let_def tok_now_def do_poll_inv do_request_inv
        evaluate_inv do_verify_check_inv [OF assms])
qed (use assms in \<open>auto simp: tok_ev_timer_def\<close>)

lemma tok_ev_manual_token_inv:
  assumes "tok_inv sm"
  shows "tok_inv (tok_ev_manual_token p arg sm)"
proof (cases arg)
  case (Some tok)
  show ?thesis
  proof (cases "tok = '''' \<or> \<not> token_fits p tok")
    case True
    with assms Some show ?thesis by (auto simp: tok_ev_manual_token_def)
  next
    case False
    define sm1 where "sm1 = tok_save p (clear_pending (snd (set_token_addr
        (if t_has_server sm then v_host (t_server sm) else '''') (if t_has_server sm then v_port (t_server sm) else 0)
        (sm\<lparr>t_store := (t_store sm)\<lparr>s_token := cbuf ESPOS_SK_TOKEN_MAX tok, s_token_self := cbuf ESPOS_SK_SELF_MAX
            (if t_has_server sm then v_self (t_server sm) else '''')\<rparr>\<rparr>))))"
    define sm2 where "sm2 = set_error '''' (sm1\<lparr>t_error_backoff_ms := ERR_MIN_MS, t_dup_backoff_ms := DUP_MIN_MS\<rparr>)"
    have base: "tok_base sm2" using assms by (simp add: sm1_def sm2_def tok_inv_def)
    have flds: "t_state sm2 = t_state sm" "t_has_server sm2 = t_has_server sm" "t_busy sm2 = t_busy sm"
      "t_started sm2 = t_started sm" "t_reeval sm2 = t_reeval sm" "s_token (t_store sm2) \<noteq> ''''"
      "t_timer_due_ms sm2 = t_timer_due_ms sm" "s_pending_href (t_store sm2) = ''''"
      using False by (simp_all add: sm1_def sm2_def)
    have ev: "tok_ev_manual_token p arg sm =
        (if \<not> t_has_server sm2 then tok_notify p sm2
         else if t_busy sm2 then tok_notify p (sm2\<lparr>t_reeval := True\<rparr>) else do_verify p False sm2)"
      using False by (simp add: tok_ev_manual_token_def Some Let_def split_beta sm1_def sm2_def)
    consider "\<not> t_has_server sm" | "t_has_server sm" "t_busy sm" | "t_has_server sm" "\<not> t_busy sm" by blast
    then show ?thesis
    proof cases
      case 3
      with base flds show ?thesis by (simp add: ev do_verify_inv tok_pre_def)
    qed (use assms base flds in \<open>auto simp: ev tok_inv_def tok_states_def\<close>)
  qed
qed (use assms in \<open>simp add: tok_ev_manual_token_def\<close>)

lemma tok_ev_retry_inv:
  assumes "tok_inv sm"
  shows "tok_inv (tok_ev_retry p sm)"
proof (cases "t_started sm \<and> t_has_server sm \<and> \<not> t_busy sm")
  case True
  with assms have "tok_pre (sm\<lparr>t_error_backoff_ms := ERR_MIN_MS, t_dup_backoff_ms := DUP_MIN_MS\<rparr>)"
    by (simp add: tok_pre_def tok_inv_def)
  with True show ?thesis
    by (simp add: tok_ev_retry_def Let_def do_request_inv evaluate_inv)
qed (use assms in \<open>auto simp: tok_ev_retry_def\<close>)

lemma tok_ev_unauthorized_inv:
  assumes "tok_inv sm"
  shows "tok_inv (tok_ev_unauthorized p sm)"
proof (cases "t_state sm = ESPOS_SK_TOK_APPROVED \<and> \<not> t_busy sm")
  case True
  with assms handle_unauthorized_inv [of sm p] tok_inv_pre [OF assms] tok_inv_token [OF assms] show ?thesis
    by (simp add: tok_ev_unauthorized_def split_beta do_request_inv)
qed (use assms in \<open>auto simp: tok_ev_unauthorized_def\<close>)

lemma tok_ev_cert_error_inv: "tok_inv sm \<Longrightarrow> tok_inv (tok_ev_cert_error p reason sm)"
  by (simp add: tok_ev_cert_error_def enter_cert_error_inv tok_inv_def [of sm])

lemma tok_event_inv: "tok_inv sm \<Longrightarrow> tok_inv (espos_sk_tok_event p sm e)"
  by (cases e) (simp_all add: tok_ev_start_inv tok_ev_stop_inv tok_ev_config_inv tok_ev_server_inv
      tok_ev_request_result_inv tok_ev_poll_result_inv tok_ev_verify_result_inv tok_ev_timer_inv
      tok_ev_manual_token_inv tok_ev_retry_inv tok_ev_unauthorized_inv tok_ev_cert_error_inv)

lemma tok_init_inv: "tok_inv (espos_sk_tok_init p c cfg store)"
  by (cases store) (simp_all add: espos_sk_tok_init_def Let_def tok_inv_def tok_states_def tok_base_defs
      clear_token_def tok_save_def set_error_def)

interpretation tok: started_machine "espos_sk_tok_event p" tok_inv "espos_sk_tok_init p c cfg store"
  for p :: "'c tok_port" and c cfg store
  by unfold_locales (simp_all add: tok_event_inv tok_init_inv)

text \<open>The machine after the events \<open>es\<close>, from boot.\<close>

definition tok_run ::
  "'c tok_port \<Rightarrow> 'c \<Rightarrow> tok_cfg \<Rightarrow> tok_store option \<Rightarrow> tok_event list \<Rightarrow> 'c tok_sm" where
  "tok_run p c cfg store es = foldl (espos_sk_tok_event p) (espos_sk_tok_init p c cfg store) es"

lemma tok_run_inv: "tok_inv (tok_run p c cfg store es)"
  unfolding tok_run_def by (rule tok.reach_inv)

text \<open>
  Wherever a run leads, from any stored credential: the status mirrors the store, a state
  that hands the token out or has it checked holds one, and the three delay ladders stay
  between their ends (errors 10 s to 300 s, duplicate requests 60 s to 600 s, polls 5 s to 60 s).
\<close>

theorem tok_status_mirrors_store:
  fixes p :: "'c tok_port"
  assumes "sm = tok_run p c cfg store es"
  shows "t_has_token sm = (s_token (t_store sm) \<noteq> '''') \<and>
     t_pending_href sm = cbuf ESPOS_SK_HREF_MAX (s_pending_href (t_store sm)) \<and>
     (t_state sm = ESPOS_SK_TOK_APPROVED \<longrightarrow> espos_sk_tok_token sm \<noteq> '''') \<and>
     (t_state sm = ESPOS_SK_TOK_VERIFYING \<longrightarrow> t_has_token sm) \<and>
     unat (t_error_backoff_ms sm) \<in> {10000..300000} \<and> unat (t_dup_backoff_ms sm) \<in> {60000..600000} \<and>
     unat (t_poll_interval_ms sm) \<in> {5000..60000}"
  using tok_run_inv [of p c cfg store es, folded assms]
  by (auto simp: tok_inv_def tok_base_defs tok_states_def espos_sk_tok_token_def word_le_nat_alt)

text \<open>A port that counts its clock and does nothing else, for the witnesses.\<close>

definition quiet_port :: "nat tok_port" where
  "quiet_port = \<lparr>tp_http_request = (\<lambda>c _ _. c), tp_http_poll = (\<lambda>c _ _. c), tp_http_verify = (\<lambda>c _ _. c),
     tp_store_save = (\<lambda>c _. c), tp_arm_timer = (\<lambda>c _. c), tp_cancel_timer = (\<lambda>c. c),
     tp_now_ms = (\<lambda>c. (of_nat c, Suc c)), tp_random = (\<lambda>c. (7, c)), tp_status_changed = None,
     tp_token_cap = 1024\<rparr>"

definition boat_cfg :: tok_cfg where
  "boat_cfg = \<lparr>k_client_id = ''c0ffee'', k_description = ''bilge'', k_permissions = ''readwrite'',
     k_check_interval_ms = 600000\<rparr>"

definition boat_server :: sk_server where
  "boat_server = \<lparr>v_host = ''10.0.0.5'', v_port = 3000, v_tls = False, v_self = ''urn:a'', v_by_self = False\<rparr>"

definition answer :: "int \<Rightarrow> http_result" where
  "answer status = \<lparr>r_http_status = status, r_state = '''', r_permission = '''', r_href = '''', r_token = '''',
     r_message = '''', r_self = '''', r_cert_error = False, r_cert_reason = ''''\<rparr>"

text \<open>A server appears, a token is pasted, the request that was out answers, then the check.\<close>

definition pasted :: "int \<Rightarrow> nat tok_sm" where
  "pasted status = tok_run quiet_port 1 boat_cfg None
      [ESPOS_SK_EV_START, ESPOS_SK_EV_SERVER (Some boat_server), ESPOS_SK_EV_MANUAL_TOKEN (Some ''jwt''),
       ESPOS_SK_EV_REQUEST_RESULT (answer 0), ESPOS_SK_EV_VERIFY_RESULT (answer status)]"

theorem tok_status_mirrors_store_witness:
  "t_state (pasted 200) = ESPOS_SK_TOK_APPROVED \<and> espos_sk_tok_token (pasted 200) \<noteq> ''''"
proof -
  have "t_state (pasted 200) = ESPOS_SK_TOK_APPROVED" by code_simp
  with tok_status_mirrors_store [OF pasted_def [of 200]] show ?thesis by simp
qed

text \<open>
  C5. A started machine that knows a server is never stuck: unless access was denied, which
  waits for the user, either an answer is out or the timer is armed.
\<close>

theorem tok_never_stuck:
  fixes p :: "'c tok_port"
  assumes "sm = tok_run p c cfg store es"
    and "t_started sm" and "t_has_server sm" and "t_state sm \<noteq> ESPOS_SK_TOK_DENIED"
  shows "t_busy sm \<or> t_timer_due_ms sm \<noteq> 0"
  using tok_run_inv [of p c cfg store es, folded assms(1)] assms(2-)
  by (auto simp: tok_inv_def tok_states_def)

theorem tok_never_stuck_witness: "\<not> t_busy (pasted 0) \<and> t_timer_due_ms (pasted 0) \<noteq> 0"
proof -
  have "t_started (pasted 0)" "t_has_server (pasted 0)" "t_state (pasted 0) = ESPOS_SK_TOK_ERROR" "\<not> t_busy (pasted 0)"
    by code_simp+
  with tok_never_stuck [OF pasted_def [of 0]] show ?thesis by simp
qed

subsection \<open>When the token is dropped\<close>

lemma token_kept_simple [simp]:
  "s_token (t_store (do_request p sm)) = s_token (t_store sm)"
  "s_token (t_store (do_poll p sm)) = s_token (t_store sm)"
  "s_token (t_store (do_verify p b sm)) = s_token (t_store sm)"
  "s_token (t_store (enter_error p m sm)) = s_token (t_store sm)"
  "s_token (t_store (enter_cert_error p r sm)) = s_token (t_store sm)"
  by (simp_all add: do_request_def do_poll_def do_verify_def enter_error_def enter_cert_error_def Let_def
      tok_cancel_def tok_random_def)

lemma token_kept_evaluate [simp]:
  "s_token (t_store (use_token p sm)) = s_token (t_store sm)"
  "s_token (t_store (evaluate p sm)) = s_token (t_store sm)"
  "s_token (t_store (drop_stale p sm)) = s_token (t_store sm)"
  by (simp_all add: use_token_def evaluate_def drop_stale_def Let_def tok_now_def tok_cancel_def)

lemma token_kept_answers [simp]:
  "s_token (t_store (request_answer p r sm)) = s_token (t_store sm)"
  "s_token (t_store (verify_ok p r sm)) = s_token (t_store sm)"
  "s_token (t_store (server_again p srv sm)) = s_token (t_store sm)"
  by (simp_all add: request_answer_def request_accepted_def request_duplicate_def verify_ok_def
      server_again_def Let_def tok_now_def tok_random_def tok_cancel_def)

lemma poll_answer_token:
  "s_token (t_store sm) \<noteq> '''' \<Longrightarrow> s_token (t_store (poll_answer p r sm)) \<noteq> ''''"
  by (simp add: poll_answer_def poll_completed_def poll_denied_def poll_approved_def poll_pending_def
      poll_lost_def Let_def split_beta tok_cancel_def)

lemma handle_unauthorized_token:
  assumes "s_token (t_store sm) \<noteq> ''''"
    and "s_token (t_store (snd (handle_unauthorized p sm))) = ''''"
  shows "(v_tls (t_server sm) \<or> t_plain_unauth_streak sm \<noteq> 0) \<and> \<not> v_by_self (t_server sm)"
  using assms by (auto simp: handle_unauthorized_def Let_def split: if_splits)

text \<open>A refusal that carried the stored token, in a state that was using it.\<close>

definition refusal :: "'c tok_sm \<Rightarrow> tok_event \<Rightarrow> bool" where
  "refusal sm e \<longleftrightarrow>
     e = ESPOS_SK_EV_UNAUTHORIZED \<and> t_state sm = ESPOS_SK_TOK_APPROVED \<and> \<not> t_busy sm \<or>
     (\<exists>r. e = ESPOS_SK_EV_VERIFY_RESULT r \<and> r_http_status r \<in> {401, 403} \<and> \<not> r_cert_error r \<and>
        t_busy sm \<and> \<not> t_reeval sm \<and> t_state sm \<in> {ESPOS_SK_TOK_APPROVED, ESPOS_SK_TOK_VERIFYING})"

lemma token_drop_step:
  assumes "s_token (t_store sm) \<noteq> ''''"
    and "s_token (t_store (espos_sk_tok_event p sm e)) = ''''"
  shows "(v_tls (t_server sm) \<or> t_plain_unauth_streak sm \<noteq> 0) \<and> \<not> v_by_self (t_server sm) \<and> refusal sm e"

proof (cases e)
  case (ESPOS_SK_EV_VERIFY_RESULT r)
  let ?sm = "sm\<lparr>t_busy := False, t_last_http_status := r_http_status r,
      t_ctx := snd (tp_now_ms p (t_ctx sm)), t_last_check_ms := fst (tp_now_ms p (t_ctx sm))\<rparr>"
  have ans: "\<not> (t_reeval sm \<and> t_busy sm)" "t_busy sm"
    "t_state sm \<in> {ESPOS_SK_TOK_APPROVED, ESPOS_SK_TOK_VERIFYING, ESPOS_SK_TOK_OPEN}"
    "s_token (t_store (verify_answer p r sm)) = ''''"
    using assms ESPOS_SK_EV_VERIFY_RESULT by (auto simp: tok_ev_verify_result_def Let_def split: if_splits)
  then have "r_http_status r \<in> {401, 403}" "\<not> r_cert_error r" "s_token (t_store (verify_refused p ?sm)) = ''''"
    using assms(1) by (auto simp: verify_answer_def Let_def tok_now_def split: if_splits)
  moreover from this(3) have "t_state sm \<noteq> ESPOS_SK_TOK_OPEN"
    "s_token (t_store (snd (handle_unauthorized p ?sm))) = ''''"
    using assms(1) by (auto simp: verify_refused_def split_beta split: if_splits)
  ultimately show ?thesis
    using handle_unauthorized_token [of ?sm p] assms(1) ans ESPOS_SK_EV_VERIFY_RESULT by (auto simp: refusal_def)
next
  case ESPOS_SK_EV_UNAUTHORIZED
  with assms handle_unauthorized_token [of sm p] show ?thesis
    by (auto simp: tok_ev_unauthorized_def refusal_def split_beta split: if_splits)
qed (use assms poll_answer_token in \<open>auto simp: tok_ev_start_def tok_ev_stop_def tok_ev_server_def tok_ev_config_def
    tok_ev_request_result_def tok_ev_poll_result_def tok_ev_timer_def tok_ev_manual_token_def tok_ev_retry_def
    tok_ev_cert_error_def tok_cancel_def tok_now_def Let_def split_beta
    split: if_splits option.splits espos_sk_tok_state.splits\<close>)

lemma streak_frame [simp]:
  "t_plain_unauth_streak (tok_arm p ms sm) = t_plain_unauth_streak sm" "t_plain_unauth_streak (tok_cancel p sm) = t_plain_unauth_streak sm"
  "t_plain_unauth_streak (tok_save p sm) = t_plain_unauth_streak sm" "t_plain_unauth_streak (set_error m sm) = t_plain_unauth_streak sm"
  "t_plain_unauth_streak (clear_pending sm) = t_plain_unauth_streak sm" "t_plain_unauth_streak (clear_token sm) = t_plain_unauth_streak sm"
  "t_plain_unauth_streak (snd (set_token_addr h pt sm)) = t_plain_unauth_streak sm"
  by (simp_all add: tok_ops set_token_addr_def)

lemma streak_actions [simp]:
  "t_plain_unauth_streak (do_request p sm) = t_plain_unauth_streak sm" "t_plain_unauth_streak (do_poll p sm) = t_plain_unauth_streak sm"
  "t_plain_unauth_streak (do_verify p b sm) = t_plain_unauth_streak sm" "t_plain_unauth_streak (enter_error p m sm) = t_plain_unauth_streak sm"
  "t_plain_unauth_streak (enter_cert_error p re sm) = t_plain_unauth_streak sm"
  by (simp_all add: do_request_def do_poll_def do_verify_def enter_error_def enter_cert_error_def tok_random_def Let_def split_beta)

lemma streak_evaluate [simp]: "t_plain_unauth_streak (evaluate p sm) = t_plain_unauth_streak sm"
  by (simp add: evaluate_def use_token_def tok_now_def Let_def split_beta)

lemma streak_answers [simp]:
  "t_plain_unauth_streak (request_answer p r sm) = t_plain_unauth_streak sm" "t_plain_unauth_streak (poll_answer p r sm) = t_plain_unauth_streak sm"
  "t_plain_unauth_streak (server_again p srv sm) = t_plain_unauth_streak sm"
  by (simp_all add: request_answer_def request_accepted_def request_duplicate_def poll_answer_def poll_completed_def poll_denied_def
      poll_approved_def poll_pending_def poll_lost_def server_again_def tok_random_def tok_now_def Let_def split_beta)

lemma streak_verify_ok [simp]: "t_plain_unauth_streak (verify_ok p r sm) = 0"
  by (simp add: verify_ok_def learn_server_def tok_now_def Let_def split_beta)

lemma handle_unauthorized_streak: "t_plain_unauth_streak (snd (handle_unauthorized p sm)) \<noteq> 0 \<Longrightarrow> t_plain_unauth_streak sm \<noteq> 0 \<or> \<not> v_tls (t_server sm)"
  by (auto simp: handle_unauthorized_def Let_def split: if_splits)

lemma streak_step:
  assumes "t_plain_unauth_streak (espos_sk_tok_event p sm e) \<noteq> 0" and "t_plain_unauth_streak sm = 0"
  shows "refusal sm e \<and> \<not> v_tls (t_server sm)"
proof (cases e)
  case (ESPOS_SK_EV_VERIFY_RESULT r)
  let ?sm = "sm\<lparr>t_busy := False, t_last_http_status := r_http_status r,
      t_ctx := snd (tp_now_ms p (t_ctx sm)), t_last_check_ms := fst (tp_now_ms p (t_ctx sm))\<rparr>"
  have ans: "\<not> (t_reeval sm \<and> t_busy sm)" "t_busy sm"
    "t_state sm \<in> {ESPOS_SK_TOK_APPROVED, ESPOS_SK_TOK_VERIFYING, ESPOS_SK_TOK_OPEN}"
    "t_plain_unauth_streak (verify_answer p r sm) \<noteq> 0"
    using assms ESPOS_SK_EV_VERIFY_RESULT by (auto simp: tok_ev_verify_result_def drop_stale_def Let_def split: if_splits)
  then have "r_http_status r \<in> {401, 403}" "\<not> r_cert_error r" "t_plain_unauth_streak (verify_refused p ?sm) \<noteq> 0"
    using assms(2) by (auto simp: verify_answer_def Let_def tok_now_def split: if_splits)
  moreover from this(3) have "t_state sm \<noteq> ESPOS_SK_TOK_OPEN" "t_plain_unauth_streak (snd (handle_unauthorized p ?sm)) \<noteq> 0"
    using assms(2) by (auto simp: verify_refused_def split_beta split: if_splits)
  ultimately show ?thesis
    using handle_unauthorized_streak [of p ?sm] assms(2) ans ESPOS_SK_EV_VERIFY_RESULT by (auto simp: refusal_def)
next
  case ESPOS_SK_EV_UNAUTHORIZED
  with assms handle_unauthorized_streak [of p sm] show ?thesis
    by (auto simp: tok_ev_unauthorized_def refusal_def split_beta split: if_splits)
qed (use assms in \<open>auto simp: tok_ev_start_def tok_ev_stop_def tok_ev_server_def tok_ev_config_def drop_stale_def
    tok_ev_request_result_def tok_ev_poll_result_def tok_ev_timer_def tok_ev_manual_token_def tok_ev_retry_def
    tok_ev_cert_error_def tok_now_def Let_def split_beta split: if_splits option.splits espos_sk_tok_state.splits\<close>)

lemma streak_history:
  "t_plain_unauth_streak (tok_run p c cfg store es) \<noteq> 0 \<Longrightarrow>
   \<exists>es1 e1 es2. es = es1 @ e1 # es2 \<and> refusal (tok_run p c cfg store es1) e1 \<and> \<not> v_tls (t_server (tok_run p c cfg store es1))"
proof (induction es rule: rev_induct)
  case Nil
  then show ?case by (simp add: tok_run_def espos_sk_tok_init_def Let_def tok_save_def set_error_def clear_token_def split: if_splits)
next
  case (snoc e es)
  have step: "tok_run p c cfg store (es @ [e]) = espos_sk_tok_event p (tok_run p c cfg store es) e" by (simp add: tok_run_def)
  show ?case
  proof (cases "t_plain_unauth_streak (tok_run p c cfg store es) = 0")
    case True
    from streak_step [OF snoc.prems [unfolded step] True] show ?thesis by blast
  next
    case False
    from snoc.IH [OF this] obtain es1 e1 es2 where "es = es1 @ e1 # es2" "refusal (tok_run p c cfg store es1) e1"
      "\<not> v_tls (t_server (tok_run p c cfg store es1))" by blast
    then show ?thesis by (intro exI [of _ es1] exI [of _ e1] exI [of _ "es2 @ [e]"]) simp
  qed
qed

text \<open>
  C13. In a run from boot the stored token is dropped by one thing only: a refusal (401 or 403) that carried it, in a
  state that was using it, from a server that does not merely share the vessel's identity, and either over TLS or after
  an earlier refusal over plaintext in the same run, of this token or of one it replaced. At boot it is dropped only when it is
  longer than the build allows. No transport failure, certificate error, server change, configuration, stale answer, denial or timer
  costs the pairing.
\<close>

theorem tok_dropped_only_when_refused:
  assumes "sm = tok_run p c cfg store es" and "s_token (t_store sm) \<noteq> ''''"
  shows "(s_token (t_store (espos_sk_tok_event p sm e)) = '''' \<longrightarrow>
      refusal sm e \<and> \<not> v_by_self (t_server sm) \<and>
      (v_tls (t_server sm) \<or>
       (\<exists>es1 e1 es2. es = es1 @ e1 # es2 \<and> refusal (tok_run p c cfg store es1) e1 \<and>
          \<not> v_tls (t_server (tok_run p c cfg store es1))))) \<and>
     (let tok = (case store of None \<Rightarrow> '''' | Some st \<Rightarrow> s_token st)
      in s_token (t_store (espos_sk_tok_init p c cfg store)) = (if length tok < tp_token_cap p then tok else ''''))"
proof
  show "s_token (t_store (espos_sk_tok_event p sm e)) = '''' \<longrightarrow>
      refusal sm e \<and> \<not> v_by_self (t_server sm) \<and>
      (v_tls (t_server sm) \<or>
       (\<exists>es1 e1 es2. es = es1 @ e1 # es2 \<and> refusal (tok_run p c cfg store es1) e1 \<and>
          \<not> v_tls (t_server (tok_run p c cfg store es1))))"
    using token_drop_step [OF assms(2), of p e] streak_history [of p c cfg store es] assms(1) by blast
qed (simp add: espos_sk_tok_init_def token_fits_def Let_def tok_save_def set_error_def clear_token_def store_zero_def split: option.splits)

definition shaky_events :: "tok_event list" where
  "shaky_events = [ESPOS_SK_EV_START, ESPOS_SK_EV_SERVER (Some boat_server),
     ESPOS_SK_EV_VERIFY_RESULT (answer 200), ESPOS_SK_EV_UNAUTHORIZED]"

theorem tok_dropped_only_when_refused_witness:
  "let sm = tok_run quiet_port 1 boat_cfg (Some (store_zero\<lparr>s_token := ''jwt''\<rparr>)) shaky_events
   in s_token (t_store (espos_sk_tok_event quiet_port sm ESPOS_SK_EV_UNAUTHORIZED)) = '''' \<and>
      refusal sm ESPOS_SK_EV_UNAUTHORIZED \<and> \<not> v_by_self (t_server sm)"
proof -
  let ?sm = "tok_run quiet_port 1 boat_cfg (Some (store_zero\<lparr>s_token := ''jwt''\<rparr>)) shaky_events"
  have "s_token (t_store ?sm) \<noteq> ''''" "s_token (t_store (espos_sk_tok_event quiet_port ?sm ESPOS_SK_EV_UNAUTHORIZED)) = ''''"
    by code_simp+
  from tok_dropped_only_when_refused [OF refl this(1), of ESPOS_SK_EV_UNAUTHORIZED] this(2) show ?thesis by (simp add: Let_def)
qed

subsection \<open>One HTTP action at a time\<close>

fun is_result :: "tok_event \<Rightarrow> bool" where
  "is_result (ESPOS_SK_EV_REQUEST_RESULT r) = True"
| "is_result (ESPOS_SK_EV_POLL_RESULT r) = True"
| "is_result (ESPOS_SK_EV_VERIFY_RESULT r) = True"
| "is_result e = False"

text \<open>A port that counts the HTTP actions it is asked for, beside the context it wraps.\<close>

definition counting :: "'c tok_port \<Rightarrow> ('c \<times> nat) tok_port" where
  "counting p =
     \<lparr>tp_http_request = (\<lambda>(c, n) s k. (tp_http_request p c s k, Suc n)), tp_http_poll = (\<lambda>(c, n) s h. (tp_http_poll p c s h, Suc n)),
      tp_http_verify = (\<lambda>(c, n) s t. (tp_http_verify p c s t, Suc n)), tp_store_save = (\<lambda>(c, n) s. (tp_store_save p c s, n)),
      tp_arm_timer = (\<lambda>(c, n) ms. (tp_arm_timer p c ms, n)), tp_cancel_timer = (\<lambda>(c, n). (tp_cancel_timer p c, n)),
      tp_now_ms = (\<lambda>(c, n). (fst (tp_now_ms p c), snd (tp_now_ms p c), n)), tp_random = (\<lambda>(c, n). (fst (tp_random p c), snd (tp_random p c), n)),
      tp_status_changed = map_option (\<lambda>f (c, n). (f c, n)) (tp_status_changed p), tp_token_cap = tp_token_cap p\<rparr>"

definition legs :: "('c \<times> nat) tok_sm \<Rightarrow> nat" where
  "legs sm = snd (t_ctx sm)"

lemma legs_fields [simp]:
  "legs (sm\<lparr>t_state := s\<rparr>) = legs sm" "legs (sm\<lparr>t_busy := b\<rparr>) = legs sm" "legs (sm\<lparr>t_reeval := b\<rparr>) = legs sm"
  "legs (sm\<lparr>t_started := b\<rparr>) = legs sm" "legs (sm\<lparr>t_server := v\<rparr>) = legs sm" "legs (sm\<lparr>t_has_server := b\<rparr>) = legs sm"
  "legs (sm\<lparr>t_last_http_status := i\<rparr>) = legs sm" "legs (sm\<lparr>t_last_check_ms := n\<rparr>) = legs sm"
  "legs (sm\<lparr>t_timer_due_ms := n\<rparr>) = legs sm" "legs (sm\<lparr>t_requested_since_ms := n\<rparr>) = legs sm" "legs (sm\<lparr>t_cfg := k\<rparr>) = legs sm"
  "legs (sm\<lparr>t_approved_since_ms := n\<rparr>) = legs sm" "legs (sm\<lparr>t_plain_unauth_streak := n\<rparr>) = legs sm"
  "legs (sm\<lparr>t_unauthorized_count := n\<rparr>) = legs sm" "legs (sm\<lparr>t_request_count := n\<rparr>) = legs sm" "legs (sm\<lparr>t_deny_count := n\<rparr>) = legs sm"
  "legs (sm\<lparr>t_approve_count := n\<rparr>) = legs sm" "legs (sm\<lparr>t_cert_error_count := n\<rparr>) = legs sm" "legs (sm\<lparr>t_store := st\<rparr>) = legs sm"
  "legs (sm\<lparr>t_error_backoff_ms := n\<rparr>) = legs sm" "legs (sm\<lparr>t_dup_backoff_ms := n\<rparr>) = legs sm" "legs (sm\<lparr>t_poll_interval_ms := n\<rparr>) = legs sm"
  by (simp_all add: legs_def)

lemma legs_ops [simp]:
  "legs (tok_notify (counting p) sm) = legs sm" "legs (snd (tok_now (counting p) sm)) = legs sm" "legs (snd (tok_random (counting p) sm)) = legs sm"
  "legs (set_error m sm) = legs sm" "legs (tok_arm (counting p) ms sm) = legs sm" "legs (tok_cancel (counting p) sm) = legs sm"
  "legs (tok_save (counting p) sm) = legs sm" "legs (clear_pending sm) = legs sm" "legs (clear_token sm) = legs sm"
  "legs (snd (set_token_addr h pt sm)) = legs sm"
  by (simp_all add: legs_def counting_def tok_notify_def tok_ops set_token_addr_def split_beta split: option.splits)

lemma legs_actions [simp]:
  "legs (do_request (counting p) sm) = Suc (legs sm)" "legs (do_poll (counting p) sm) = Suc (legs sm)" "legs (do_verify (counting p) b sm) = Suc (legs sm)"
  "t_busy (do_request q sm)" "t_busy (do_poll q sm)" "t_busy (do_verify q b sm)"
proof -
  have http: "legs (sm'\<lparr>t_ctx := tp_http_request (counting p) (t_ctx sm') s k\<rparr>) = Suc (legs sm')"
    "legs (sm'\<lparr>t_ctx := tp_http_poll (counting p) (t_ctx sm') s h\<rparr>) = Suc (legs sm')"
    "legs (sm'\<lparr>t_ctx := tp_http_verify (counting p) (t_ctx sm') s h\<rparr>) = Suc (legs sm')" for sm' s k h
    by (simp_all add: legs_def counting_def split_beta)
  show "legs (do_request (counting p) sm) = Suc (legs sm)" "legs (do_poll (counting p) sm) = Suc (legs sm)" "legs (do_verify (counting p) b sm) = Suc (legs sm)"
    by (simp_all add: do_request_def do_poll_def do_verify_def Let_def http)
  show "t_busy (do_request q sm)" "t_busy (do_poll q sm)" "t_busy (do_verify q b sm)"
    by (simp_all add: do_request_def do_poll_def do_verify_def tok_cancel_def Let_def)
qed

text \<open>What an operation may do: one HTTP action, after which the machine waits for its answer, or none.\<close>

definition one_leg :: "('c \<times> nat) tok_sm \<Rightarrow> ('c \<times> nat) tok_sm \<Rightarrow> bool" where
  "one_leg sm sm' \<longleftrightarrow> legs sm' = legs sm \<or> legs sm' = Suc (legs sm) \<and> t_busy sm'"

lemma legs_quiet [simp]:
  "legs (enter_error (counting p) m sm) = legs sm" "legs (enter_cert_error (counting p) re sm) = legs sm"
  "legs (snd (handle_unauthorized (counting p) sm)) = legs sm" "legs (learn_server (counting p) r sm) = legs sm"
  "legs (verify_ok (counting p) r sm) = legs sm" "legs (request_answer (counting p) r sm) = legs sm" "legs (server_again (counting p) srv sm) = legs sm"
  by (simp_all add: enter_error_def enter_cert_error_def handle_unauthorized_def learn_server_def verify_ok_def request_answer_def
      request_accepted_def request_duplicate_def server_again_def Let_def split_beta)

lemma one_leg_evaluate: "legs sm' = legs sm \<Longrightarrow> one_leg sm (evaluate (counting p) sm')"
  by (auto simp: one_leg_def evaluate_def use_token_def Let_def split_beta)

lemma one_leg_poll: "one_leg sm (poll_answer (counting p) r sm)"
  by (auto simp: one_leg_def poll_answer_def poll_completed_def poll_denied_def poll_approved_def poll_pending_def poll_lost_def Let_def split_beta)

lemma one_leg_verify: "one_leg sm (verify_answer (counting p) r sm)"
  by (auto simp: one_leg_def verify_answer_def verify_refused_def Let_def split_beta)

lemma one_leg_event: "one_leg sm (espos_sk_tok_event (counting p) sm e)"
proof (cases e)
  case ESPOS_SK_EV_START
  then show ?thesis using one_leg_evaluate [of "sm\<lparr>t_started := True\<rparr>" sm p] by (simp add: tok_ev_start_def one_leg_def)
next
  case (ESPOS_SK_EV_SERVER srv)
  have "one_leg sm (evaluate (counting p) (set_error m (sm\<lparr>t_server := v, t_has_server := b, t_error_backoff_ms := x, t_dup_backoff_ms := y\<rparr>)))" for m v b x y
    by (rule one_leg_evaluate) simp
  with ESPOS_SK_EV_SERVER show ?thesis
    by (auto simp: tok_ev_server_def Let_def split: option.splits) (auto simp: one_leg_def)
next
  case (ESPOS_SK_EV_VERIFY_RESULT r)
  then show ?thesis using one_leg_verify [of sm p r] one_leg_evaluate [of "sm\<lparr>t_reeval := False, t_busy := False\<rparr>" sm p]
    by (auto simp: tok_ev_verify_result_def drop_stale_def Let_def) (auto simp: one_leg_def)
next
  case (ESPOS_SK_EV_POLL_RESULT r)
  then show ?thesis using one_leg_poll [of sm p r] one_leg_evaluate [of "sm\<lparr>t_reeval := False, t_busy := False\<rparr>" sm p]
    by (auto simp: tok_ev_poll_result_def drop_stale_def) (auto simp: one_leg_def)
next
  case (ESPOS_SK_EV_REQUEST_RESULT r)
  then show ?thesis using one_leg_evaluate [of "sm\<lparr>t_reeval := False, t_busy := False\<rparr>" sm p]
    by (auto simp: tok_ev_request_result_def drop_stale_def) (auto simp: one_leg_def)
next
  case ESPOS_SK_EV_TIMER
  have "one_leg sm (evaluate (counting p) ((snd (tok_now (counting p) sm))\<lparr>t_timer_due_ms := 0\<rparr>))" by (rule one_leg_evaluate) simp
  with ESPOS_SK_EV_TIMER show ?thesis
    by (auto simp: tok_ev_timer_def Let_def split_beta split: espos_sk_tok_state.splits) (auto simp: one_leg_def)
next
  case ESPOS_SK_EV_RETRY
  have "one_leg sm (evaluate (counting p) (set_error m (sm\<lparr>t_error_backoff_ms := x, t_dup_backoff_ms := y\<rparr>)))" for m x y
    by (rule one_leg_evaluate) simp
  with ESPOS_SK_EV_RETRY show ?thesis by (auto simp: tok_ev_retry_def Let_def) (auto simp: one_leg_def)
qed (auto simp: one_leg_def tok_ev_stop_def tok_ev_config_def tok_ev_manual_token_def tok_ev_unauthorized_def tok_ev_cert_error_def
    Let_def split_beta split: option.splits)

text \<open>
  C25. An event makes at most one HTTP action, and the machine waits for an answer after it. While a started machine
  waits for one, no event but an answer makes another: a server change, a pasted token, a retry, a timer or a refusal
  reported by the stream makes none, and the machine goes on waiting; only a stop and a certificate error make it give the wait up.
\<close>

theorem tok_one_action_at_a_time:
  assumes "sm' = espos_sk_tok_event (counting p) sm e"
  shows "(legs sm' = legs sm \<or> legs sm' = Suc (legs sm) \<and> t_busy sm') \<and>
    (t_busy sm \<and> t_started sm \<and> \<not> is_result e \<longrightarrow>
       legs sm' = legs sm \<and> (t_busy sm' \<or> e = ESPOS_SK_EV_STOP \<or> (\<exists>r. e = ESPOS_SK_EV_CERT_ERROR r)))"
proof -
  have again: "t_busy (server_again (counting p) srv sm)" if "t_busy sm" for srv
    using that by (simp add: server_again_def Let_def)
  have "legs sm' = legs sm \<and> (t_busy sm' \<or> e = ESPOS_SK_EV_STOP \<or> (\<exists>r. e = ESPOS_SK_EV_CERT_ERROR r))"
    if "t_busy sm" "t_started sm" "\<not> is_result e"
    using that again unfolding assms
    by (cases e) (auto simp: tok_ev_start_def tok_ev_stop_def tok_ev_server_def tok_ev_config_def
        tok_ev_timer_def tok_ev_manual_token_def tok_ev_retry_def tok_ev_unauthorized_def tok_ev_cert_error_def
        Let_def split_beta split: option.splits)
  with one_leg_event [of sm p e] assms show ?thesis by (auto simp: one_leg_def)
qed

theorem tok_one_action_at_a_time_witness:
  "let sm = tok_run (counting quiet_port) (1, 0) boat_cfg None [ESPOS_SK_EV_START, ESPOS_SK_EV_SERVER (Some boat_server)];
       sm' = espos_sk_tok_event (counting quiet_port) sm ESPOS_SK_EV_RETRY
   in legs sm = 1 \<and> legs sm' = 1 \<and> t_busy sm'"
proof -
  let ?sm = "tok_run (counting quiet_port) (1, 0) boat_cfg None [ESPOS_SK_EV_START, ESPOS_SK_EV_SERVER (Some boat_server)]"
  have "t_busy ?sm" "t_started ?sm" "legs ?sm = 1" by code_simp+
  with tok_one_action_at_a_time [of "espos_sk_tok_event (counting quiet_port) ?sm ESPOS_SK_EV_RETRY" quiet_port ?sm ESPOS_SK_EV_RETRY]
  show ?thesis by (simp add: Let_def)
qed

subsection \<open>Delays\<close>

lemma jitter_bounds:
  fixes d rnd :: u32
  assumes "unat d \<le> 600000"
  shows "unat (d - d div 10 + rnd mod (d div 5 + 1)) \<in> {unat d - unat d div 10 .. unat d - unat d div 10 + unat d div 5}"
proof -
  have div: "unat (d div 10) = unat d div 10" "unat (d div 5) = unat d div 5" by (simp_all add: unat_div)
  have "d div 10 \<le> d" by (simp add: word_le_nat_alt div)
  then have sub: "unat (d - d div 10) = unat d - unat d div 10" by (simp add: unat_sub_u32 div)
  have one: "unat (d div 5 + 1) = unat d div 5 + 1" using assms by (simp add: unat_word_ariths div)
  have j: "unat (rnd mod (d div 5 + 1)) = unat rnd mod (unat d div 5 + 1)"
    by (simp only: unat_mod one)
  have jle: "unat rnd mod (unat d div 5 + 1) \<le> unat d div 5"
    by (metis One_nat_def add.commute less_Suc_eq_le mod_less_divisor plus_1_eq_Suc zero_less_Suc)
  have "unat (d - d div 10) + unat (rnd mod (d div 5 + 1)) < 4294967296"
    using assms jle unfolding sub j by linarith
  then have "unat (d - d div 10 + rnd mod (d div 5 + 1)) = unat d - unat d div 10 + unat rnd mod (unat d div 5 + 1)"
    by (subst unat_add_u32) (simp_all add: sub j)
  with jle show ?thesis unfolding atLeastAtMost_iff by linarith
qed

text \<open>
  The wait after an error is within 10 per cent of the ladder's step, whatever random word
  the port draws, and the ladder doubles up to 300 s: nothing wraps.
\<close>

theorem tok_error_delay_bounds:
  fixes p :: "'c tok_port"
  assumes "sm = tok_run p c cfg store es" and "d = unat (t_error_backoff_ms sm)"
  shows "\<exists>delay. t_next_action_ms (enter_error p msg sm) =
             fst (tp_now_ms p (snd (tp_random p (t_ctx sm)))) + delay \<and>
           d - d div 10 \<le> unat delay \<and> unat delay \<le> d - d div 10 + d div 5 \<and>
           unat (t_error_backoff_ms (enter_error p msg sm)) = min 300000 (2 * d)"
proof -
  have inv: "t_error_backoff_ms sm \<in> {ERR_MIN_MS..ERR_MAX_MS}"
    using tok_run_inv [of p c cfg store es, folded assms(1)] by (simp add: tok_inv_def tok_base_defs)
  then have d: "10000 \<le> d" "d \<le> 300000" by (simp_all add: assms(2) word_le_nat_alt)
  have "unat (double_to ERR_MAX_MS (t_error_backoff_ms sm)) = min 300000 (2 * d)"
    using d by (auto simp: assms(2) double_to_def word_less_nat_alt unat_word_ariths min_def)
  moreover have "t_error_backoff_ms (enter_error p msg sm) = double_to ERR_MAX_MS (t_error_backoff_ms sm)"
    by (simp add: enter_error_def Let_def tok_random_def)
  moreover have "t_next_action_ms (tok_notify p s) = t_next_action_ms s" for s
    by (simp add: tok_notify_def split: option.splits)
  ultimately show ?thesis
    using jitter_bounds [of "t_error_backoff_ms sm" "fst (tp_random p (t_ctx sm))"] d assms(2)
    by (intro exI [of _ "t_error_backoff_ms sm - t_error_backoff_ms sm div 10 +
          fst (tp_random p (t_ctx sm)) mod (t_error_backoff_ms sm div 5 + 1)"])
      (simp add: enter_error_def Let_def tok_ops)
qed

theorem tok_error_delay_bounds_witness:
  "\<exists>delay. t_next_action_ms (enter_error quiet_port ''x'' (pasted 0)) =
       fst (tp_now_ms quiet_port (snd (tp_random quiet_port (t_ctx (pasted 0))))) + delay \<and> 18000 \<le> unat delay"
proof -
  have "20000 = unat (t_error_backoff_ms (pasted 0))" by code_simp
  from tok_error_delay_bounds [OF pasted_def this, of "''x''"] show ?thesis by auto
qed

subsection \<open>Two runs that lose what they should keep\<close>

definition slow_port :: "nat tok_port" where
  "slow_port = quiet_port\<lparr>tp_now_ms := (\<lambda>c. (100000 * of_nat c, Suc c))\<rparr>"

text \<open>
  \<open>EV_CERT_ERROR\<close> ends the action in flight but leaves the mark that its answer is
  stale. The mark then meets the answer of the next action, which belongs to the new server:
  an access request the server accepted (202 with the address to poll) is thrown away and a
  second one is posted, with nothing on file to poll.
\<close>

theorem tok_cert_error_loses_request:
  "let secure = boat_server\<lparr>v_tls := True\<rparr>;
       other = \<lparr>v_host = ''10.0.0.9'', v_port = 3443, v_tls = True, v_self = ''urn:b'', v_by_self = False\<rparr>;
       sm = tok_run slow_port 1 boat_cfg None
              [ESPOS_SK_EV_START, ESPOS_SK_EV_SERVER (Some secure), ESPOS_SK_EV_REQUEST_RESULT (answer 404),
               ESPOS_SK_EV_MANUAL_TOKEN (Some ''jwt''), ESPOS_SK_EV_SERVER (Some other),
               ESPOS_SK_EV_CERT_ERROR None, ESPOS_SK_EV_TIMER];
       sm' = espos_sk_tok_event slow_port sm
               (ESPOS_SK_EV_REQUEST_RESULT ((answer 202)\<lparr>r_href := ''/requests/7''\<rparr>))
   in t_state sm = ESPOS_SK_TOK_IDLE \<and> t_busy sm \<and> t_server sm = other \<and> t_request_count sm = 2 \<and>
      t_state sm' = ESPOS_SK_TOK_IDLE \<and> t_request_count sm' = 3 \<and> s_pending_href (t_store sm') = ''''"
  by code_simp

text \<open>
  The count of plaintext refusals is not reset when a new token is pasted: the refusal of
  the old token counts against the new one, which is dropped at its first 401, although a
  single 401 over plaintext is meant to be checked again.
\<close>

theorem tok_new_token_dropped_at_first_refusal:
  "let run = \<lambda>es. tok_run quiet_port 1 boat_cfg None
          ([ESPOS_SK_EV_START, ESPOS_SK_EV_SERVER (Some boat_server), ESPOS_SK_EV_REQUEST_RESULT (answer 404),
            ESPOS_SK_EV_MANUAL_TOKEN (Some ''old''), ESPOS_SK_EV_VERIFY_RESULT (answer 401)] @ es);
       first = run [];
       fresh = run [ESPOS_SK_EV_MANUAL_TOKEN (Some ''new'')];
       refused = run [ESPOS_SK_EV_MANUAL_TOKEN (Some ''new''), ESPOS_SK_EV_VERIFY_RESULT (answer 401)]
   in s_token (t_store first) = ''old'' \<and> s_token (t_store fresh) = ''new'' \<and>
      s_token (t_store refused) = ''''"
  by code_simp

end
