(* ===== verification/Auth_Policy.thy ===== *)
theory Auth_Policy
  imports Espos_Prelude
begin

unbundle bit_operations_syntax

text \<open>
  components/espos_httpd/src/auth_policy.c: API key, session cookies, failure throttle, recovery
  window and the decision on a request.

  The session table is the caller's array, a list. A session id is the array of its 32
  characters, all NUL in a zeroed slot. \<open>now_s\<close> and \<open>random\<close> are functions on the
  port's context; a \<open>const\<close> operation still reads the clock, so it returns the policy with
  the context it left. NULL-able strings are options.
\<close>

subsection \<open>Data\<close>

abbreviation (input) ESPOS_HTTPD_AUTH_KEY_MAX :: nat where "ESPOS_HTTPD_AUTH_KEY_MAX \<equiv> 64"
abbreviation (input) ESPOS_HTTPD_AUTH_SID_LEN :: nat where "ESPOS_HTTPD_AUTH_SID_LEN \<equiv> 32"
abbreviation (input) ESPOS_HTTPD_AUTH_FAIL_MAX :: u32 where "ESPOS_HTTPD_AUTH_FAIL_MAX \<equiv> 5"
abbreviation (input) ESPOS_HTTPD_AUTH_FAIL_WINDOW_S :: u32 where "ESPOS_HTTPD_AUTH_FAIL_WINDOW_S \<equiv> 60"
abbreviation (input) ESPOS_HTTPD_AUTH_LOCKOUT_S :: u32 where "ESPOS_HTTPD_AUTH_LOCKOUT_S \<equiv> 30"
abbreviation (input) ESPOS_HTTPD_AUTH_RECOVERY_MAX_S :: u32 where "ESPOS_HTTPD_AUTH_RECOVERY_MAX_S \<equiv> 86400"

datatype espos_httpd_auth_method =
    ESPOS_HTTPD_AUTH_NONE
  | ESPOS_HTTPD_AUTH_BEARER
  | ESPOS_HTTPD_AUTH_COOKIE
  | ESPOS_HTTPD_AUTH_PORTAL
  | ESPOS_HTTPD_AUTH_METHOD_MAX

datatype espos_httpd_auth_verdict =
    ESPOS_HTTPD_AUTH_ALLOW
  | ESPOS_HTTPD_AUTH_UNAUTHORIZED
  | ESPOS_HTTPD_AUTH_FORBIDDEN_ORIGIN
  | ESPOS_HTTPD_AUTH_UNCONFIGURED
  | ESPOS_HTTPD_AUTH_THROTTLED

record auth_session =
  ss_id :: string
  ss_expires_s :: u32
  ss_last_seen_s :: u32
  ss_used :: bool

record 'c auth_port =
  ap_now_s :: "'c clock"
  ap_random :: "'c clock"

record auth_request =
  rq_bearer :: "string option"
  rq_cookie_sid :: "string option"
  rq_host :: "string option"
  rq_origin :: "string option"
  rq_state_changing :: bool
  rq_from_portal :: bool

record 'c auth_policy =
  a_ctx :: 'c
  a_sessions :: "auth_session list"
  a_ttl_s :: u32
  a_require_key :: bool
  a_key :: string
  a_fail_count :: u32
  a_fail_first_s :: u32
  a_lockout_until_s :: u32
  a_locked :: bool
  a_recovery_until_s :: u32
  a_recovery :: bool

definition session_zero :: auth_session where
  "session_zero = \<lparr>ss_id = replicate ESPOS_HTTPD_AUTH_SID_LEN (CHR 0x00), ss_expires_s = 0,
     ss_last_seen_s = 0, ss_used = False\<rparr>"

subsection \<open>Comparing without an early exit\<close>

definition byte_at :: "string \<Rightarrow> nat \<Rightarrow> nat \<Rightarrow> u32" where
  "byte_at s len i = (if i < len then of_char (s ! i) else 0)"

definition ct_equal :: "string \<Rightarrow> nat \<Rightarrow> string \<Rightarrow> nat \<Rightarrow> nat \<Rightarrow> bool" where
  "ct_equal a alen b blen width =
     (fold (\<lambda>i diff. diff OR (byte_at a alen i XOR byte_at b blen i)) [0..<width]
        (word_of_nat alen XOR word_of_nat blen) = 0)"

definition auth_now_s :: "'c auth_port \<Rightarrow> 'c auth_policy \<Rightarrow> u32 \<times> 'c auth_policy" where
  "auth_now_s port p = (fst (ap_now_s port (a_ctx p)), p\<lparr>a_ctx := snd (ap_now_s port (a_ctx p))\<rparr>)"

definition espos_httpd_auth_policy_init ::
  "'c \<Rightarrow> nat \<Rightarrow> u32 \<Rightarrow> bool \<Rightarrow> 'c auth_policy" where
  "espos_httpd_auth_policy_init ctx session_count ttl_s require_key =
     \<lparr>a_ctx = ctx, a_sessions = replicate session_count session_zero, a_ttl_s = ttl_s,
      a_require_key = require_key, a_key = '''', a_fail_count = 0, a_fail_first_s = 0,
      a_lockout_until_s = 0, a_locked = False, a_recovery_until_s = 0, a_recovery = False\<rparr>"

definition espos_httpd_auth_policy_sessions_clear :: "'c auth_policy \<Rightarrow> 'c auth_policy" where
  "espos_httpd_auth_policy_sessions_clear p =
     p\<lparr>a_sessions := replicate (length (a_sessions p)) session_zero\<rparr>"

definition espos_httpd_auth_policy_set_key :: "string option \<Rightarrow> 'c auth_policy \<Rightarrow> 'c auth_policy" where
  "espos_httpd_auth_policy_set_key key p =
     (let key = (case key of None \<Rightarrow> '''' | Some k \<Rightarrow> k);
          p = p\<lparr>a_key := cbuf (ESPOS_HTTPD_AUTH_KEY_MAX + 1) key\<rparr>
      in espos_httpd_auth_policy_sessions_clear p)"

definition espos_httpd_auth_policy_set_ttl :: "u32 \<Rightarrow> 'c auth_policy \<Rightarrow> 'c auth_policy" where
  "espos_httpd_auth_policy_set_ttl ttl_s p = p\<lparr>a_ttl_s := ttl_s\<rparr>"

definition espos_httpd_auth_policy_configured :: "'c auth_policy \<Rightarrow> bool" where
  "espos_httpd_auth_policy_configured p \<longleftrightarrow> a_key p \<noteq> ''''"

definition espos_httpd_auth_policy_required :: "'c auth_policy \<Rightarrow> bool" where
  "espos_httpd_auth_policy_required p \<longleftrightarrow> a_require_key p \<or> espos_httpd_auth_policy_configured p"

subsection \<open>The throttle\<close>

definition espos_httpd_auth_policy_throttled ::
  "'c auth_port \<Rightarrow> 'c auth_policy \<Rightarrow> bool \<times> 'c auth_policy" where
  "espos_httpd_auth_policy_throttled port p =
     (if a_locked p then (let (now, p) = auth_now_s port p in (\<not> reached now (a_lockout_until_s p), p))
      else (False, p))"

definition espos_httpd_auth_policy_retry_after_s ::
  "'c auth_port \<Rightarrow> 'c auth_policy \<Rightarrow> u32 \<times> 'c auth_policy" where
  "espos_httpd_auth_policy_retry_after_s port p =
     (let (throttled, p) = espos_httpd_auth_policy_throttled port p
      in if \<not> throttled then (0, p)
         else (let (now, p) = auth_now_s port p in (a_lockout_until_s p - now, p)))"

text \<open>What a wrong key does to the counters.\<close>

definition key_miss :: "u32 \<Rightarrow> 'c auth_policy \<Rightarrow> 'c auth_policy" where
  "key_miss now p =
     (let p = (if a_fail_count p = 0 \<or> now - a_fail_first_s p \<ge> ESPOS_HTTPD_AUTH_FAIL_WINDOW_S
               then p\<lparr>a_fail_count := 0, a_fail_first_s := now\<rparr> else p);
          p = p\<lparr>a_fail_count := a_fail_count p + 1\<rparr>
      in if a_fail_count p \<ge> ESPOS_HTTPD_AUTH_FAIL_MAX
         then p\<lparr>a_locked := True, a_lockout_until_s := now + ESPOS_HTTPD_AUTH_LOCKOUT_S, a_fail_count := 0\<rparr>
         else p)"

definition espos_httpd_auth_policy_check_key ::
  "'c auth_port \<Rightarrow> string option \<Rightarrow> 'c auth_policy \<Rightarrow> espos_httpd_auth_verdict \<times> 'c auth_policy" where
  "espos_httpd_auth_policy_check_key port presented p =
     (let (now, p) = auth_now_s port p
      in if a_locked p \<and> \<not> reached now (a_lockout_until_s p) then (ESPOS_HTTPD_AUTH_THROTTLED, p)
         else
           (let p = p\<lparr>a_locked := False\<rparr>
            in if \<not> espos_httpd_auth_policy_configured p then (ESPOS_HTTPD_AUTH_UNAUTHORIZED, p)
               else
                 (let presented = (case presented of None \<Rightarrow> '''' | Some s \<Rightarrow> s);
                      plen = min (length presented) (ESPOS_HTTPD_AUTH_KEY_MAX + 1)
                  in if ct_equal (a_key p) (length (a_key p)) presented plen (ESPOS_HTTPD_AUTH_KEY_MAX + 1)
                     then (ESPOS_HTTPD_AUTH_ALLOW, p\<lparr>a_fail_count := 0\<rparr>)
                     else (ESPOS_HTTPD_AUTH_UNAUTHORIZED, key_miss now p))))"

subsection \<open>The recovery window\<close>

definition espos_httpd_auth_policy_recovery_open ::
  "'c auth_port \<Rightarrow> u32 \<Rightarrow> 'c auth_policy \<Rightarrow> 'c auth_policy" where
  "espos_httpd_auth_policy_recovery_open port seconds p =
     (if seconds = 0 then p\<lparr>a_recovery := False, a_recovery_until_s := 0\<rparr>
      else
        (let seconds = (if seconds > ESPOS_HTTPD_AUTH_RECOVERY_MAX_S
                        then ESPOS_HTTPD_AUTH_RECOVERY_MAX_S else seconds);
             p = p\<lparr>a_recovery := True\<rparr>;
             (now, p) = auth_now_s port p
         in p\<lparr>a_recovery_until_s := now + seconds\<rparr>))"

definition recovery_open :: "'c auth_port \<Rightarrow> 'c auth_policy \<Rightarrow> bool \<times> 'c auth_policy" where
  "recovery_open port p =
     (if a_recovery p then (let (now, p) = auth_now_s port p in (\<not> reached now (a_recovery_until_s p), p))
      else (False, p))"

definition espos_httpd_auth_policy_recovery_s_left ::
  "'c auth_port \<Rightarrow> 'c auth_policy \<Rightarrow> u32 \<times> 'c auth_policy" where
  "espos_httpd_auth_policy_recovery_s_left port p =
     (let (op, p) = recovery_open port p
      in if \<not> op then (0, p) else (let (now, p) = auth_now_s port p in (a_recovery_until_s p - now, p)))"

subsection \<open>Sessions\<close>

definition sweep :: "u32 \<Rightarrow> auth_session list \<Rightarrow> auth_session list" where
  "sweep now = map (\<lambda>s. if ss_used s \<and> reached now (ss_expires_s s) then session_zero else s)"

text \<open>The loop of \<open>session_open\<close>: the first free slot, else the one idle longest.\<close>

function pick_slot :: "auth_session list \<Rightarrow> nat \<Rightarrow> nat option \<Rightarrow> nat option" where
  "pick_slot ss i slot =
     (if length ss \<le> i then slot
      else if \<not> ss_used (ss ! i) then Some i
      else pick_slot ss (Suc i)
             (case slot of
                None \<Rightarrow> Some i
              | Some k \<Rightarrow> if sint (ss_last_seen_s (ss ! i) - ss_last_seen_s (ss ! k)) < 0 then Some i else slot))"
  by pat_completeness auto
termination
  by (relation "measure (\<lambda>(ss, i, slot). length ss - i)") auto

declare pick_slot.simps [simp del]

definition hex_digits :: string where
  "hex_digits = ''0123456789abcdef''"

definition sid_block :: "u32 \<Rightarrow> string" where
  "sid_block r = map (\<lambda>j. hex_digits ! unat (drop_bit (4 * j) r AND 15)) [0..<8]"

definition auth_random :: "'c auth_port \<Rightarrow> 'c auth_policy \<Rightarrow> u32 \<times> 'c auth_policy" where
  "auth_random port p = (fst (ap_random port (a_ctx p)), p\<lparr>a_ctx := snd (ap_random port (a_ctx p))\<rparr>)"

definition new_sid :: "'c auth_port \<Rightarrow> 'c auth_policy \<Rightarrow> string \<times> 'c auth_policy" where
  "new_sid port p =
     (let (r0, p) = auth_random port p;
          (r1, p) = auth_random port p;
          (r2, p) = auth_random port p;
          (r3, p) = auth_random port p
      in (sid_block r0 @ sid_block r1 @ sid_block r2 @ sid_block r3, p))"

definition espos_httpd_auth_policy_session_open ::
  "'c auth_port \<Rightarrow> bool \<Rightarrow> nat \<Rightarrow> 'c auth_policy \<Rightarrow> string option \<times> 'c auth_policy" where
  "espos_httpd_auth_policy_session_open port has_out id_size p =
     (if a_sessions p = [] \<or> \<not> has_out \<or> id_size < ESPOS_HTTPD_AUTH_SID_LEN + 1 then (None, p)
      else
        (let (now, p) = auth_now_s port p;
             p = p\<lparr>a_sessions := sweep now (a_sessions p)\<rparr>
         in case pick_slot (a_sessions p) 0 None of
              None \<Rightarrow> (None, p)
            | Some k \<Rightarrow>
                (let (sid, p) = new_sid port p
                 in (Some sid,
                     p\<lparr>a_sessions := (a_sessions p)
                         [k := \<lparr>ss_id = sid, ss_expires_s = now + a_ttl_s p, ss_last_seen_s = now,
                               ss_used = True\<rparr>]\<rparr>))))"

text \<open>The loop of \<open>find\<close>: every slot is compared, the last match counts.\<close>

definition find_hit :: "string \<Rightarrow> auth_session list \<Rightarrow> nat option" where
  "find_hit sid ss =
     fold (\<lambda>i hit. if ss_used (ss ! i) \<and>
             ct_equal (ss_id (ss ! i)) ESPOS_HTTPD_AUTH_SID_LEN sid
               (min (length sid) (ESPOS_HTTPD_AUTH_SID_LEN + 1)) (ESPOS_HTTPD_AUTH_SID_LEN + 1)
           then Some i else hit) [0..<length ss] None"

definition auth_find ::
  "string option \<Rightarrow> u32 \<Rightarrow> 'c auth_policy \<Rightarrow> nat option \<times> 'c auth_policy" where
  "auth_find sid now p =
     (case sid of
        None \<Rightarrow> (None, p)
      | Some s \<Rightarrow>
          (let p = p\<lparr>a_sessions := sweep now (a_sessions p)\<rparr> in (find_hit s (a_sessions p), p)))"

definition espos_httpd_auth_policy_session_valid ::
  "'c auth_port \<Rightarrow> string option \<Rightarrow> 'c auth_policy \<Rightarrow> bool \<times> 'c auth_policy" where
  "espos_httpd_auth_policy_session_valid port sid p =
     (let (now, p) = auth_now_s port p;
          (hit, p) = auth_find sid now p
      in case hit of
           None \<Rightarrow> (False, p)
         | Some k \<Rightarrow>
             (True, p\<lparr>a_sessions := (a_sessions p)[k := (a_sessions p ! k)\<lparr>ss_last_seen_s := now\<rparr>]\<rparr>))"

definition espos_httpd_auth_policy_session_close ::
  "'c auth_port \<Rightarrow> string option \<Rightarrow> 'c auth_policy \<Rightarrow> 'c auth_policy" where
  "espos_httpd_auth_policy_session_close port sid p =
     (let (now, p) = auth_now_s port p;
          (hit, p) = auth_find sid now p
      in case hit of None \<Rightarrow> p | Some k \<Rightarrow> p\<lparr>a_sessions := (a_sessions p)[k := session_zero]\<rparr>)"

definition espos_httpd_auth_policy_sessions_live ::
  "'c auth_port \<Rightarrow> 'c auth_policy \<Rightarrow> nat \<times> 'c auth_policy" where
  "espos_httpd_auth_policy_sessions_live port p =
     (let (now, p) = auth_now_s port p;
          p = p\<lparr>a_sessions := sweep now (a_sessions p)\<rparr>
      in (length (filter ss_used (a_sessions p)), p))"

subsection \<open>Origins\<close>

fun find_sub :: "string \<Rightarrow> string \<Rightarrow> nat option" where
  "find_sub needle [] = (if needle = [] then Some 0 else None)"
| "find_sub needle (c # s) =
     (if take (length needle) (c # s) = needle then Some 0 else map_option Suc (find_sub needle s))"

definition c_tolower :: "char \<Rightarrow> char" where
  "c_tolower c = (let n = (of_char c :: nat) in if 65 \<le> n \<and> n \<le> 90 then char_of (n + 32) else c)"

definition authority :: "string \<Rightarrow> string" where
  "authority s =
     (let p = (case find_sub ''://'' s of None \<Rightarrow> s | Some k \<Rightarrow> drop (k + 3) s);
          n = length (takeWhile (\<lambda>c. c \<notin> set ''/?#'') p);
          n = (if 3 \<le> n \<and> take 3 (drop (n - 3) p) = '':80'' then n - 3 else n)
      in take n p)"

definition espos_httpd_auth_origin_matches :: "string option \<Rightarrow> string option \<Rightarrow> bool" where
  "espos_httpd_auth_origin_matches origin host =
     (case (origin, host) of
        (Some o', Some h) \<Rightarrow>
          if o' = '''' \<or> h = '''' then False
          else (let a = authority o'; b = authority h
                in if a = '''' \<or> length a \<noteq> length b then False
                   else \<forall>i<length a. c_tolower (a ! i) = c_tolower (b ! i))
      | _ \<Rightarrow> False)"

subsection \<open>The decision\<close>

definition portal_exempt :: "'c auth_port \<Rightarrow> 'c auth_policy \<Rightarrow> bool \<times> 'c auth_policy" where
  "portal_exempt port p =
     (if \<not> espos_httpd_auth_policy_configured p then (True, p) else recovery_open port p)"

definition decide_credential ::
  "'c auth_port \<Rightarrow> auth_request \<Rightarrow> 'c auth_policy \<Rightarrow>
   (espos_httpd_auth_verdict \<times> espos_httpd_auth_method) \<times> 'c auth_policy" where
  "decide_credential port rq p =
     (case rq_bearer rq of
        Some key \<Rightarrow>
          (let (v, p) = espos_httpd_auth_policy_check_key port (Some key) p
           in ((v, if v = ESPOS_HTTPD_AUTH_ALLOW then ESPOS_HTTPD_AUTH_BEARER else ESPOS_HTTPD_AUTH_NONE), p))
      | None \<Rightarrow>
          (case rq_cookie_sid rq of
             None \<Rightarrow> ((ESPOS_HTTPD_AUTH_UNAUTHORIZED, ESPOS_HTTPD_AUTH_NONE), p)
           | Some sid \<Rightarrow>
               (let (valid, p) = espos_httpd_auth_policy_session_valid port (Some sid) p
                in if valid
                   then ((if rq_state_changing rq \<and>
                             \<not> espos_httpd_auth_origin_matches (rq_origin rq) (rq_host rq)
                          then ESPOS_HTTPD_AUTH_FORBIDDEN_ORIGIN else ESPOS_HTTPD_AUTH_ALLOW,
                          ESPOS_HTTPD_AUTH_COOKIE), p)
                   else ((ESPOS_HTTPD_AUTH_UNAUTHORIZED, ESPOS_HTTPD_AUTH_NONE), p))))"

definition espos_httpd_auth_policy_decide ::
  "'c auth_port \<Rightarrow> auth_request \<Rightarrow> 'c auth_policy \<Rightarrow>
   (espos_httpd_auth_verdict \<times> espos_httpd_auth_method) \<times> 'c auth_policy" where
  "espos_httpd_auth_policy_decide port rq p =
     (let (exempt, p) = (if rq_from_portal rq then portal_exempt port p else (False, p))
      in if exempt then ((ESPOS_HTTPD_AUTH_ALLOW, ESPOS_HTTPD_AUTH_PORTAL), p)
         else if \<not> espos_httpd_auth_policy_configured p
         then ((if a_require_key p then ESPOS_HTTPD_AUTH_UNCONFIGURED else ESPOS_HTTPD_AUTH_ALLOW,
                ESPOS_HTTPD_AUTH_NONE), p)
         else decide_credential port rq p)"

definition espos_httpd_auth_method_str :: "espos_httpd_auth_method \<Rightarrow> string" where
  "espos_httpd_auth_method_str m =
     (case m of
        ESPOS_HTTPD_AUTH_BEARER \<Rightarrow> ''bearer''
      | ESPOS_HTTPD_AUTH_COOKIE \<Rightarrow> ''cookie''
      | ESPOS_HTTPD_AUTH_PORTAL \<Rightarrow> ''portal''
      | _ \<Rightarrow> ''none'')"

subsection \<open>The comparison decides equality\<close>

lemma fold_or_eq_0: "fold (\<lambda>i diff. diff OR f i) xs d = (0 :: u32) \<longleftrightarrow> d = 0 \<and> (\<forall>i\<in>set xs. f i = 0)"
  by (induction xs arbitrary: d) (auto simp: or_eq_0_iff)

lemma xor_eq_0_iff_u32: "(a XOR b :: u32) = 0 \<longleftrightarrow> a = b"
  by (metis xor.assoc xor.comm_neutral xor_self_eq)

lemma unat_of_char [simp]: "unat (of_char c :: u32) = of_char c"
proof -
  have lt: "(of_char c :: nat) < 256"
    by (metis mod_less_divisor of_char_mod_256 zero_less_numeral)
  have "(of_char c :: nat) mod 2 ^ 32 = of_char c" using less_trans [OF lt, of "2 ^ 32"] by simp
  moreover have "(of_char c :: u32) = of_nat (of_char c)" by (rule of_nat_of_char [symmetric])
  ultimately show ?thesis by (simp only: unat_of_nat) simp
qed

lemma of_char_u32_inj [simp]: "(of_char c :: u32) = of_char d \<longleftrightarrow> c = d"
  by (metis of_char_eq_iff unat_of_char)

lemma of_nat_u32_inj: "a < 2 ^ 32 \<Longrightarrow> b < 2 ^ 32 \<Longrightarrow> (word_of_nat a :: u32) = word_of_nat b \<longleftrightarrow> a = b"
  by (auto dest: arg_cong [where f = unat] simp: unat_of_nat)

lemma ct_equal_iff:
  assumes "alen \<le> width" and "blen \<le> width" and "width < 2 ^ 32"
    and "alen \<le> length a" and "blen \<le> length b"
  shows "ct_equal a alen b blen width \<longleftrightarrow> take alen a = take blen b"
proof -
  have len: "(word_of_nat alen XOR word_of_nat blen :: u32) = 0 \<longleftrightarrow> alen = blen"
    using assms by (simp add: xor_eq_0_iff_u32 of_nat_u32_inj)
  have "ct_equal a alen b blen width \<longleftrightarrow>
      alen = blen \<and> (\<forall>i<width. byte_at a alen i = byte_at b blen i)"
    by (simp only: ct_equal_def fold_or_eq_0 len) (auto simp: xor_eq_0_iff_u32)
  also have "\<dots> \<longleftrightarrow> alen = blen \<and> (\<forall>i<alen. a ! i = b ! i)"
    using assms(1) by (auto simp: byte_at_def)
  also have "\<dots> \<longleftrightarrow> take alen a = take blen b"
  proof
    assume "alen = blen \<and> (\<forall>i<alen. a ! i = b ! i)"
    with assms show "take alen a = take blen b" by (auto intro: nth_equalityI)
  next
    assume eq: "take alen a = take blen b"
    then have "alen = blen" using assms by (metis length_take min.absorb2)
    moreover have "a ! i = b ! i" if "i < alen" for i
      using eq that calculation by (metis nth_take)
    ultimately show "alen = blen \<and> (\<forall>i<alen. a ! i = b ! i)" by blast
  qed
  finally show ?thesis .
qed

text \<open>With the lengths the two callers use, it is string equality.\<close>

lemma ct_equal_key:
  assumes "length key \<le> ESPOS_HTTPD_AUTH_KEY_MAX"
  shows "ct_equal key (length key) s (min (length s) (ESPOS_HTTPD_AUTH_KEY_MAX + 1)) (ESPOS_HTTPD_AUTH_KEY_MAX + 1)
     \<longleftrightarrow> s = key"
proof -
  have "ct_equal key (length key) s (min (length s) 65) 65 \<longleftrightarrow> key = take (min (length s) 65) s"
    using assms by (subst ct_equal_iff) simp_all
  also have "\<dots> \<longleftrightarrow> s = key"
    using assms by (cases "length s \<le> 65") auto
  finally show ?thesis by simp
qed

lemma ct_equal_sid:
  assumes "length i = ESPOS_HTTPD_AUTH_SID_LEN"
  shows "ct_equal i ESPOS_HTTPD_AUTH_SID_LEN s (min (length s) (ESPOS_HTTPD_AUTH_SID_LEN + 1)) (ESPOS_HTTPD_AUTH_SID_LEN + 1)
     \<longleftrightarrow> s = i"
proof -
  have "ct_equal i 32 s (min (length s) 33) 33 \<longleftrightarrow> i = take (min (length s) 33) s"
    using assms by (subst ct_equal_iff) simp_all
  also have "\<dots> \<longleftrightarrow> s = i"
    using assms by (cases "length s \<le> 33") auto
  finally show ?thesis by simp
qed

subsection \<open>Invariant\<close>

definition session_ok :: "auth_session \<Rightarrow> bool" where
  "session_ok s \<longleftrightarrow> length (ss_id s) = ESPOS_HTTPD_AUTH_SID_LEN"

definition auth_inv :: "'c auth_policy \<Rightarrow> bool" where
  "auth_inv p \<longleftrightarrow> length (a_key p) \<le> ESPOS_HTTPD_AUTH_KEY_MAX \<and>
     a_fail_count p < ESPOS_HTTPD_AUTH_FAIL_MAX \<and> (\<forall>s\<in>set (a_sessions p). session_ok s)"

lemma session_zero_ok [simp]: "session_ok session_zero"
  by (simp add: session_ok_def session_zero_def)

lemma length_sid_block [simp]: "length (sid_block r) = 8"
  by (simp add: sid_block_def)

lemma length_new_sid [simp]: "length (fst (new_sid port p)) = ESPOS_HTTPD_AUTH_SID_LEN"
  by (simp add: new_sid_def Let_def auth_random_def)

lemma length_sweep [simp]: "length (sweep now ss) = length ss"
  by (simp add: sweep_def)

lemma sweep_ok: "\<forall>s\<in>set ss. session_ok s \<Longrightarrow> \<forall>s\<in>set (sweep now ss). session_ok s"
  by (auto simp: sweep_def)

lemma new_sid_frame [frame, simp]:
  "a_sessions (snd (new_sid port p)) = a_sessions p" "a_key (snd (new_sid port p)) = a_key p"
  "a_fail_count (snd (new_sid port p)) = a_fail_count p" "a_ttl_s (snd (new_sid port p)) = a_ttl_s p"
  by (simp_all add: new_sid_def Let_def auth_random_def)

datatype auth_call =
    Set_Key "string option"
  | Set_Ttl u32
  | Check_Key "string option"
  | Recovery_Open u32
  | Session_Open bool nat
  | Session_Valid "string option"
  | Session_Close "string option"
  | Sessions_Clear
  | Decide auth_request

fun auth_step :: "'c auth_port \<Rightarrow> 'c auth_policy \<Rightarrow> auth_call \<Rightarrow> 'c auth_policy" where
  "auth_step port p (Set_Key k) = espos_httpd_auth_policy_set_key k p"
| "auth_step port p (Set_Ttl t) = espos_httpd_auth_policy_set_ttl t p"
| "auth_step port p (Check_Key k) = snd (espos_httpd_auth_policy_check_key port k p)"
| "auth_step port p (Recovery_Open s) = espos_httpd_auth_policy_recovery_open port s p"
| "auth_step port p (Session_Open out n) = snd (espos_httpd_auth_policy_session_open port out n p)"
| "auth_step port p (Session_Valid s) = snd (espos_httpd_auth_policy_session_valid port s p)"
| "auth_step port p (Session_Close s) = espos_httpd_auth_policy_session_close port s p"
| "auth_step port p Sessions_Clear = espos_httpd_auth_policy_sessions_clear p"
| "auth_step port p (Decide rq) = snd (espos_httpd_auth_policy_decide port rq p)"

lemma key_miss_inv: "auth_inv p \<Longrightarrow> auth_inv (key_miss now p)"
  by (simp add: auth_inv_def key_miss_def Let_def not_le)

lemma check_key_inv [keeps]:
  assumes "auth_inv p"
  shows "auth_inv (snd (espos_httpd_auth_policy_check_key port k p))"
proof -
  have "auth_inv (p\<lparr>a_ctx := c\<rparr>)" "auth_inv (p\<lparr>a_ctx := c, a_locked := b\<rparr>)"
    "auth_inv (p\<lparr>a_ctx := c, a_locked := b, a_fail_count := 0\<rparr>)" for c b
    using assms by (simp_all add: auth_inv_def)
  then show ?thesis
    by (simp add: espos_httpd_auth_policy_check_key_def Let_def auth_now_s_def key_miss_inv)
qed

lemma pick_slot_less:
  "pick_slot ss i slot = Some k \<Longrightarrow> (\<And>j. slot = Some j \<Longrightarrow> j < length ss) \<Longrightarrow> k < length ss"
proof (induction ss i slot rule: pick_slot.induct)
  case (1 ss i slot)
  from "1.prems" show ?case
    by (simp add: pick_slot.simps [of ss i slot] split: if_splits)
      (rule "1.IH"; auto split: option.splits if_splits)
qed

lemma update_ok: "\<forall>s\<in>set ss. session_ok s \<Longrightarrow> session_ok x \<Longrightarrow> \<forall>s\<in>set (ss[k := x]). session_ok s"
  using set_update_subset_insert [of ss k x] by blast

lemma auth_inv_update: "auth_inv p \<Longrightarrow> session_ok s \<Longrightarrow> auth_inv (p\<lparr>a_sessions := (a_sessions p)[k := s]\<rparr>)"
  using update_ok [of "a_sessions p" s k] by (simp add: auth_inv_def)

lemma session_open_inv [keeps]:
  assumes "auth_inv p"
  shows "auth_inv (snd (espos_httpd_auth_policy_session_open port out n p))"
proof -
  let ?t = "fst (ap_now_s port (a_ctx p))"
  let ?p = "p\<lparr>a_ctx := snd (ap_now_s port (a_ctx p)), a_sessions := sweep ?t (a_sessions p)\<rparr>"
  have q: "auth_inv ?p" using assms sweep_ok [of "a_sessions p"] by (simp add: auth_inv_def)
  then have "auth_inv (snd (new_sid port ?p))" by (simp add: auth_inv_def)
  moreover have "session_ok \<lparr>ss_id = fst (new_sid port ?p), ss_expires_s = e, ss_last_seen_s = l, ss_used = u\<rparr>" for e l u
    by (simp add: session_ok_def)
  ultimately have "auth_inv (snd (new_sid port ?p)\<lparr>a_sessions := (a_sessions (snd (new_sid port ?p)))[k :=
      \<lparr>ss_id = fst (new_sid port ?p), ss_expires_s = e, ss_last_seen_s = l, ss_used = u\<rparr>]\<rparr>)" for k e l u
    by (rule auth_inv_update)
  with assms q show ?thesis
    by (simp add: espos_httpd_auth_policy_session_open_def Let_def auth_now_s_def split_beta split: option.splits)
qed

text \<open>A loop that keeps the last index with a property.\<close>

lemma fold_last_some:
  "fold (\<lambda>i hit. if P i then Some i else hit) is h = Some k \<Longrightarrow> h = Some k \<or> k \<in> set is \<and> P k"
  by (induction "is" arbitrary: h) (auto split: if_splits)

lemma fold_last_none:
  "fold (\<lambda>i hit. if P i then Some i else hit) is h = None \<longleftrightarrow> h = None \<and> (\<forall>i\<in>set is. \<not> P i)"
  by (induction "is" arbitrary: h) simp_all

lemma find_hit_some:
  assumes "find_hit sid ss = Some k" and "\<forall>s\<in>set ss. session_ok s"
  shows "k < length ss \<and> ss_used (ss ! k) \<and> ss_id (ss ! k) = sid"
proof -
  from fold_last_some [OF assms(1) [unfolded find_hit_def]]
  have k: "k < length ss" "ss_used (ss ! k)" and
    eq: "ct_equal (ss_id (ss ! k)) 32 sid (min (length sid) (32 + 1)) (32 + 1)" by simp_all
  from k assms(2) have "length (ss_id (ss ! k)) = 32" by (simp add: session_ok_def)
  with ct_equal_sid [of "ss_id (ss ! k)" sid] eq k show ?thesis by simp
qed

lemma find_hit_none:
  assumes "find_hit sid ss = None" and "\<forall>s\<in>set ss. session_ok s" and "k < length ss"
  shows "\<not> (ss_used (ss ! k) \<and> ss_id (ss ! k) = sid)"
proof -
  from assms(1) have "\<forall>i<length ss. \<not> (ss_used (ss ! i) \<and>
      ct_equal (ss_id (ss ! i)) 32 sid (min (length sid) (32 + 1)) (32 + 1))"
    unfolding find_hit_def fold_last_none by simp
  then have "\<not> (ss_used (ss ! k) \<and> ct_equal (ss_id (ss ! k)) 32 sid (min (length sid) (32 + 1)) (32 + 1))"
    using assms(3) by simp
  moreover have "length (ss_id (ss ! k)) = 32" using assms(2,3) by (simp add: session_ok_def)
  ultimately show ?thesis using ct_equal_sid [of "ss_id (ss ! k)" sid] by auto
qed

lemma auth_find_some:
  assumes "auth_find sid now p = (hit, q)" and "auth_inv p"
  shows "auth_inv q" and "hit = Some k \<Longrightarrow> k < length (a_sessions q) \<and> ss_used (a_sessions q ! k) \<and> Some (ss_id (a_sessions q ! k)) = sid"
proof -
  have ok: "\<forall>s\<in>set (sweep now (a_sessions p)). session_ok s"
    using assms(2) by (intro sweep_ok) (simp add: auth_inv_def)
  then show "auth_inv q" using assms by (cases sid) (auto simp: auth_find_def auth_inv_def Let_def)
  assume "hit = Some k"
  with assms(1) obtain s where "sid = Some s" "find_hit s (a_sessions q) = Some k" "a_sessions q = sweep now (a_sessions p)"
    by (cases sid) (auto simp: auth_find_def Let_def)
  with find_hit_some [of s "a_sessions q" k] ok
  show "k < length (a_sessions q) \<and> ss_used (a_sessions q ! k) \<and> Some (ss_id (a_sessions q ! k)) = sid" by simp
qed

lemma session_ok_nth: "auth_inv p \<Longrightarrow> k < length (a_sessions p) \<Longrightarrow> session_ok (a_sessions p ! k)"
  by (simp add: auth_inv_def)

lemma auth_inv_ctx [simp]: "auth_inv (p\<lparr>a_ctx := c\<rparr>) = auth_inv p"
  by (simp add: auth_inv_def)

lemma session_valid_inv [keeps]:
  assumes "auth_inv p"
  shows "auth_inv (snd (espos_httpd_auth_policy_session_valid port s p))"
proof -
  let ?p = "p\<lparr>a_ctx := snd (ap_now_s port (a_ctx p))\<rparr>" and ?t = "fst (ap_now_s port (a_ctx p))"
  obtain hit q where f: "auth_find s ?t ?p = (hit, q)" by fastforce
  note q = auth_find_some [OF f, simplified, OF assms]
  have "auth_inv (q\<lparr>a_sessions := (a_sessions q)[k := (a_sessions q ! k)\<lparr>ss_last_seen_s := ?t\<rparr>]\<rparr>)" if "hit = Some k" for k
    using q session_ok_nth [OF q(1), of k] that by (intro auth_inv_update) (auto simp: session_ok_def)
  with q(1) show ?thesis
    by (simp add: espos_httpd_auth_policy_session_valid_def auth_now_s_def f split: option.splits)
qed

lemma session_close_inv [keeps]:
  assumes "auth_inv p"
  shows "auth_inv (espos_httpd_auth_policy_session_close port s p)"
proof -
  let ?p = "p\<lparr>a_ctx := snd (ap_now_s port (a_ctx p))\<rparr>" and ?t = "fst (ap_now_s port (a_ctx p))"
  obtain hit q where f: "auth_find s ?t ?p = (hit, q)" by fastforce
  note q = auth_find_some [OF f, simplified, OF assms]
  with auth_inv_update [OF q(1) session_zero_ok] show ?thesis
    by (simp add: espos_httpd_auth_policy_session_close_def auth_now_s_def f split: option.splits)
qed

lemma recovery_open_frame [frame, simp]:
  "a_sessions (snd (recovery_open port p)) = a_sessions p" "a_key (snd (recovery_open port p)) = a_key p"
  "a_fail_count (snd (recovery_open port p)) = a_fail_count p" "a_locked (snd (recovery_open port p)) = a_locked p"
  "a_lockout_until_s (snd (recovery_open port p)) = a_lockout_until_s p"
  "auth_inv (snd (recovery_open port p)) = auth_inv p"
  by (simp_all add: recovery_open_def Let_def auth_now_s_def auth_inv_def)

lemma decide_inv [keeps]:
  assumes "auth_inv p"
  shows "auth_inv (snd (espos_httpd_auth_policy_decide port rq p))"
proof -
  have cred: "auth_inv (snd (decide_credential port rq q))" if "auth_inv q" for q
    using that
    by (cases "rq_bearer rq"; cases "rq_cookie_sid rq")
      (simp_all add: decide_credential_def split_beta check_key_inv session_valid_inv)
  show ?thesis
    using assms cred
    by (simp add: espos_httpd_auth_policy_decide_def portal_exempt_def Let_def split_beta)
qed

lemma clear_inv [keeps]: "auth_inv p \<Longrightarrow> auth_inv (espos_httpd_auth_policy_sessions_clear p)"
  by (simp add: espos_httpd_auth_policy_sessions_clear_def auth_inv_def)

lemma set_key_inv [keeps]: "auth_inv p \<Longrightarrow> auth_inv (espos_httpd_auth_policy_set_key k p)"
  unfolding espos_httpd_auth_policy_set_key_def Let_def
  by (rule clear_inv) (simp add: auth_inv_def cbuf_def)

lemma auth_step_inv: "auth_inv p \<Longrightarrow> auth_inv (auth_step port p c)"
proof (cases c)
  case (Recovery_Open s)
  assume "auth_inv p"
  then show ?thesis
    by (simp add: Recovery_Open espos_httpd_auth_policy_recovery_open_def auth_now_s_def Let_def)
      (simp add: auth_inv_def)
next
  case (Set_Ttl t)
  assume "auth_inv p"
  then show ?thesis by (simp add: Set_Ttl espos_httpd_auth_policy_set_ttl_def auth_inv_def)
qed (simp_all add: check_key_inv session_open_inv session_valid_inv session_close_inv decide_inv clear_inv set_key_inv)

lemma auth_init_inv: "auth_inv (espos_httpd_auth_policy_init c n ttl req)"
  by (auto simp: auth_inv_def espos_httpd_auth_policy_init_def)

interpretation auth: started_machine "auth_step port" auth_inv "espos_httpd_auth_policy_init c n ttl req"
  for port :: "'c auth_port" and c n ttl req
  by unfold_locales (simp_all add: auth_step_inv auth_init_inv)

definition auth_run :: "'c auth_port \<Rightarrow> 'c \<Rightarrow> nat \<Rightarrow> u32 \<Rightarrow> bool \<Rightarrow> auth_call list \<Rightarrow> 'c auth_policy" where
  "auth_run port c n ttl req cs = foldl (auth_step port) (espos_httpd_auth_policy_init c n ttl req) cs"

lemma auth_run_inv: "auth_inv (auth_run port c n ttl req cs)"
  unfolding auth_run_def by (rule auth.reach_inv)

subsection \<open>The key check\<close>

lemma check_key_verdict:
  assumes "length (a_key p) \<le> ESPOS_HTTPD_AUTH_KEY_MAX"
  shows "fst (espos_httpd_auth_policy_check_key port (Some s) p) =
     (if a_locked p \<and> \<not> reached (fst (ap_now_s port (a_ctx p))) (a_lockout_until_s p)
      then ESPOS_HTTPD_AUTH_THROTTLED
      else if a_key p \<noteq> '''' \<and> s = a_key p then ESPOS_HTTPD_AUTH_ALLOW else ESPOS_HTTPD_AUTH_UNAUTHORIZED)"
  using ct_equal_key [OF assms, of s]
  by (cases "s = a_key p") (simp_all add: espos_httpd_auth_policy_check_key_def Let_def auth_now_s_def espos_httpd_auth_policy_configured_def)

subsection \<open>Who gets in\<close>

lemma session_valid_iff:
  assumes "auth_inv p" and "t = fst (ap_now_s port (a_ctx p))"
  shows "fst (espos_httpd_auth_policy_session_valid port (Some sid) p) \<longleftrightarrow>
     (\<exists>s\<in>set (a_sessions p). ss_used s \<and> ss_id s = sid \<and> \<not> reached t (ss_expires_s s))"
proof -
  let ?ss = "sweep t (a_sessions p)"
  have ok: "\<forall>s\<in>set ?ss. session_ok s" using assms(1) by (intro sweep_ok) (simp add: auth_inv_def)
  have "fst (espos_httpd_auth_policy_session_valid port (Some sid) p) \<longleftrightarrow> find_hit sid ?ss \<noteq> None"
    by (simp add: espos_httpd_auth_policy_session_valid_def auth_find_def Let_def auth_now_s_def assms(2)
        split: option.splits)
  also have "\<dots> \<longleftrightarrow> (\<exists>k<length ?ss. ss_used (?ss ! k) \<and> ss_id (?ss ! k) = sid)"
    using find_hit_some [OF _ ok, of sid] find_hit_none [OF _ ok, of sid] by (metis not_None_eq)
  also have "\<dots> \<longleftrightarrow> (\<exists>s\<in>set ?ss. ss_used s \<and> ss_id s = sid)" by (metis in_set_conv_nth)
  also have "\<dots> \<longleftrightarrow> (\<exists>s\<in>set (a_sessions p). ss_used s \<and> ss_id s = sid \<and> \<not> reached t (ss_expires_s s))"
    by (auto simp: sweep_def session_zero_def)
  finally show ?thesis .
qed

text \<open>
  C6. Whatever calls led there and on whatever clock, exactly when a request judged at second
  \<open>t\<close> is allowed. A device with no key lets in the access point, and everybody when no key is
  required. A device with a key lets in the access point while the recovery window is open; the
  key itself as bearer token, while no lockout runs; and, when no bearer token is presented, the
  id of a live session, and then a request that changes state needs a matching origin.
\<close>

theorem auth_allow_iff_credential:
  fixes port port0 :: "'c auth_port"
  assumes "p = auth_run port0 c n ttl req cs" and "\<And>c. ap_now_s port c = (t, c)"
  shows "fst (fst (espos_httpd_auth_policy_decide port rq p)) = ESPOS_HTTPD_AUTH_ALLOW \<longleftrightarrow>
     (if a_key p = '''' then rq_from_portal rq \<or> \<not> a_require_key p
      else
        rq_from_portal rq \<and> a_recovery p \<and> \<not> reached t (a_recovery_until_s p) \<or>
        rq_bearer rq = Some (a_key p) \<and> \<not> (a_locked p \<and> \<not> reached t (a_lockout_until_s p)) \<or>
        rq_bearer rq = None \<and>
          (\<exists>s\<in>set (a_sessions p). ss_used s \<and> rq_cookie_sid rq = Some (ss_id s) \<and> \<not> reached t (ss_expires_s s)) \<and>
          (rq_state_changing rq \<longrightarrow> espos_httpd_auth_origin_matches (rq_origin rq) (rq_host rq)))"
proof (cases "a_key p = ''''")
  case True
  then show ?thesis
    by (auto simp: espos_httpd_auth_policy_decide_def portal_exempt_def espos_httpd_auth_policy_configured_def Let_def)
next
  case False
  have inv: "auth_inv p" unfolding assms(1) by (rule auth_run_inv)
  then have key: "length (a_key p) \<le> ESPOS_HTTPD_AUTH_KEY_MAX" by (simp add: auth_inv_def)
  have cred: "fst (fst (decide_credential port rq p)) = ESPOS_HTTPD_AUTH_ALLOW \<longleftrightarrow>
     rq_bearer rq = Some (a_key p) \<and> \<not> (a_locked p \<and> \<not> reached t (a_lockout_until_s p)) \<or>
     rq_bearer rq = None \<and>
       (\<exists>s\<in>set (a_sessions p). ss_used s \<and> rq_cookie_sid rq = Some (ss_id s) \<and> \<not> reached t (ss_expires_s s)) \<and>
       (rq_state_changing rq \<longrightarrow> espos_httpd_auth_origin_matches (rq_origin rq) (rq_host rq))"
  proof (cases "rq_bearer rq")
    case None
    show ?thesis
    proof (cases "rq_cookie_sid rq")
      case (Some sid)
      with None session_valid_iff [OF inv, where port = port and sid = sid] show ?thesis
        by (auto simp: decide_credential_def split_beta assms(2))
    qed (simp add: decide_credential_def None)
  next
    case (Some k)
    with check_key_verdict [OF key, of port k] False assms(2) show ?thesis
      by (simp add: decide_credential_def split_beta)
  qed
  have rec: "recovery_open port p = (a_recovery p \<and> \<not> reached t (a_recovery_until_s p), p)"
    by (simp add: recovery_open_def Let_def auth_now_s_def assms(2))
  have "espos_httpd_auth_policy_decide port rq p =
      (if rq_from_portal rq \<and> a_recovery p \<and> \<not> reached t (a_recovery_until_s p)
       then ((ESPOS_HTTPD_AUTH_ALLOW, ESPOS_HTTPD_AUTH_PORTAL), p) else decide_credential port rq p)"
    using False rec
    by (simp add: espos_httpd_auth_policy_decide_def portal_exempt_def espos_httpd_auth_policy_configured_def Let_def)
  with cred False show ?thesis
    by (cases "rq_from_portal rq \<and> a_recovery p \<and> \<not> reached t (a_recovery_until_s p)") auto
qed

definition still_port :: "unit auth_port" where
  "still_port = \<lparr>ap_now_s = (\<lambda>c. (100, c)), ap_random = (\<lambda>c. (0xCAFE, c))\<rparr>"

definition get_with :: "string \<Rightarrow> auth_request" where
  "get_with key = \<lparr>rq_bearer = Some key, rq_cookie_sid = None, rq_host = None, rq_origin = None,
     rq_state_changing = False, rq_from_portal = False\<rparr>"

theorem auth_allow_iff_credential_witness:
  "fst (fst (espos_httpd_auth_policy_decide still_port (get_with ''sesame42'')
      (auth_run still_port () 4 3600 False [Set_Key (Some ''sesame42'')]))) = ESPOS_HTTPD_AUTH_ALLOW \<and>
   fst (fst (espos_httpd_auth_policy_decide still_port (get_with ''guess'')
      (auth_run still_port () 4 3600 False [Set_Key (Some ''sesame42'')]))) \<noteq> ESPOS_HTTPD_AUTH_ALLOW"
proof -
  let ?p = "auth_run still_port () 4 3600 False [Set_Key (Some ''sesame42'')]"
  have k: "a_key ?p = ''sesame42''" "\<not> a_locked ?p"
    by (simp_all add: auth_run_def espos_httpd_auth_policy_set_key_def espos_httpd_auth_policy_sessions_clear_def
        espos_httpd_auth_policy_init_def cbuf_def)
  have clk: "ap_now_s still_port c = (100, c)" for c by (simp add: still_port_def)
  show ?thesis
    using auth_allow_iff_credential [OF refl clk, of "get_with ''sesame42''" still_port "()" 4 3600 False "[Set_Key (Some ''sesame42'')]"]
      auth_allow_iff_credential [OF refl clk, of "get_with ''guess''" still_port "()" 4 3600 False "[Set_Key (Some ''sesame42'')]"]
    by (simp add: get_with_def k)
qed

subsection \<open>A new key\<close>

text \<open>
  C17. Setting a key ends every session, whatever key it is: no cookie is valid afterwards and
  none is counted live. Nothing but the key and the sessions changes: the count of misses, its window, a
  lockout in progress, the recovery window and the settings are as before.
\<close>

theorem auth_set_key_ends_sessions:
  fixes port :: "'c auth_port"
  defines "q \<equiv> \<lambda>(p :: 'c auth_policy) key. espos_httpd_auth_policy_set_key key p"
  shows "\<not> fst (espos_httpd_auth_policy_session_valid port sid (q p key)) \<and>
         fst (espos_httpd_auth_policy_sessions_live port (q p key)) = 0 \<and>
         (q p key)\<lparr>a_key := a_key p, a_sessions := a_sessions p\<rparr> = p"
proof -
  have zero: "sweep t (replicate n session_zero) = replicate n session_zero" for t n
    by (simp add: sweep_def session_zero_def)
  have unused: "\<not> ss_used session_zero" by (simp add: session_zero_def)
  have hit: "find_hit s (replicate n session_zero) = None" for s n
    by (auto simp: find_hit_def fold_last_none session_zero_def)
  have ss: "a_sessions (q p key) = replicate (length (a_sessions p)) session_zero" "a_locked (q p key) = a_locked p"
    "a_lockout_until_s (q p key) = a_lockout_until_s p" "a_ctx (q p key) = a_ctx p"
    by (simp_all add: q_def espos_httpd_auth_policy_set_key_def espos_httpd_auth_policy_sessions_clear_def Let_def)
  have "\<not> fst (espos_httpd_auth_policy_session_valid port sid (q p key))"
    by (cases sid) (simp_all add: espos_httpd_auth_policy_session_valid_def auth_find_def Let_def auth_now_s_def ss zero hit)
  moreover have "fst (espos_httpd_auth_policy_sessions_live port (q p key)) = 0"
    by (simp add: espos_httpd_auth_policy_sessions_live_def auth_now_s_def Let_def ss zero filter_empty_conv unused)
  moreover have "(q p key)\<lparr>a_key := a_key p, a_sessions := a_sessions p\<rparr> = p"
    by (simp add: q_def espos_httpd_auth_policy_set_key_def espos_httpd_auth_policy_sessions_clear_def Let_def)
  ultimately show ?thesis by simp
qed

subsection \<open>The throttle\<close>

text \<open>A port whose clock is a script of readings: any behaviour of a clock is one.\<close>

definition script_port :: "u32 list auth_port" where
  "script_port = \<lparr>ap_now_s = (\<lambda>ts. (hd ts, tl ts)), ap_random = (\<lambda>ts. (0, ts))\<rparr>"

text \<open>A miss, from the first of a window to the one that locks.\<close>

lemma check_key_miss:
  assumes "length (a_key p) \<le> ESPOS_HTTPD_AUTH_KEY_MAX" and "a_key p \<noteq> ''''" and "s \<noteq> a_key p" and "\<not> a_locked p"
    and "a_ctx p = t # ts"
  shows "espos_httpd_auth_policy_check_key script_port (Some s) p =
     (ESPOS_HTTPD_AUTH_UNAUTHORIZED, key_miss t (p\<lparr>a_ctx := ts\<rparr>))"
proof -
  have "p\<lparr>a_ctx := ts, a_locked := False\<rparr> = p\<lparr>a_ctx := ts\<rparr>" using assms(4) by (cases p) simp
  then have "key_miss t (p\<lparr>a_ctx := ts, a_locked := False\<rparr>) = key_miss t (p\<lparr>a_ctx := ts\<rparr>)" by (simp only:)
  then show ?thesis
    using ct_equal_key [OF assms(1), of s] assms(2-)
    by (simp add: espos_httpd_auth_policy_check_key_def Let_def auth_now_s_def script_port_def
        espos_httpd_auth_policy_configured_def)
qed

lemma key_miss_first: "a_fail_count p = 0 \<Longrightarrow> key_miss t p = p\<lparr>a_fail_first_s := t, a_fail_count := 1\<rparr>"
  by (simp add: key_miss_def Let_def word_le_nat_alt)

lemma key_miss_more:
  assumes "a_fail_count p < 4" and "a_fail_count p \<noteq> 0" and "t - a_fail_first_s p < 60"
  shows "key_miss t p = p\<lparr>a_fail_count := a_fail_count p + 1\<rparr>"
proof -
  have "a_fail_count p + 1 < 5" using assms(1) by (simp add: word_less_nat_alt unat_word_ariths)
  with assms show ?thesis by (simp add: key_miss_def Let_def not_le)
qed

lemma key_miss_last:
  assumes "a_fail_count p = 4" and "t - a_fail_first_s p < 60"
  shows "key_miss t p = p\<lparr>a_locked := True, a_lockout_until_s := t + 30, a_fail_count := 0\<rparr>"
  using assms by (simp add: key_miss_def Let_def not_le)

fun check_keys ::
  "'c auth_port \<Rightarrow> string list \<Rightarrow> 'c auth_policy \<Rightarrow> espos_httpd_auth_verdict list \<times> 'c auth_policy" where
  "check_keys port [] p = ([], p)"
| "check_keys port (s # ss) p =
     (let (v, p) = espos_httpd_auth_policy_check_key port (Some s) p;
          (vs, p) = check_keys port ss p
      in (v # vs, p))"

text \<open>
  C26. Five wrong keys within a minute lock the device: the five are answered 401, and for the
  next 30 seconds every key, the right one included, is answered 429; after that the right key
  works again. The clock may wrap anywhere in between.
\<close>

theorem auth_five_misses_lock:
  fixes p :: "u32 list auth_policy"
  assumes "length (a_key p) \<le> ESPOS_HTTPD_AUTH_KEY_MAX" and "a_key p \<noteq> ''''"
    and "a_fail_count p = 0" and "\<not> a_locked p"
    and "g1 \<noteq> a_key p" "g2 \<noteq> a_key p" "g3 \<noteq> a_key p" "g4 \<noteq> a_key p" "g5 \<noteq> a_key p"
    and "t2 - t1 < 60" "t3 - t1 < 60" "t4 - t1 < 60" "t5 - t1 < 60"
    and "uint (t - t5) < 2 ^ 31"
  shows "fst (check_keys script_port [g1, g2, g3, g4, g5, s] (p\<lparr>a_ctx := [t1, t2, t3, t4, t5, t]\<rparr>)) =
     replicate 5 ESPOS_HTTPD_AUTH_UNAUTHORIZED @
     [if t - t5 < 30 then ESPOS_HTTPD_AUTH_THROTTLED
      else if s = a_key p then ESPOS_HTTPD_AUTH_ALLOW else ESPOS_HTTPD_AUTH_UNAUTHORIZED]"
proof -
  have lock: "reached t (t5 + 30) \<longleftrightarrow> \<not> t - t5 < 30"
    using reached_plus_iff [OF assms(14), of 30] by (simp add: not_less)
  define q where "q = (\<lambda>k ts. p\<lparr>a_ctx := ts, a_fail_first_s := t1, a_fail_count := k\<rparr>)"
  define r where "r = q 4 [t]\<lparr>a_locked := True, a_lockout_until_s := t5 + 30, a_fail_count := 0\<rparr>"
  have s1: "espos_httpd_auth_policy_check_key script_port (Some g1) (p\<lparr>a_ctx := [t1, t2, t3, t4, t5, t]\<rparr>) =
      (ESPOS_HTTPD_AUTH_UNAUTHORIZED, q 1 [t2, t3, t4, t5, t])"
    using assms(1-5) check_key_miss [of "p\<lparr>a_ctx := [t1, t2, t3, t4, t5, t]\<rparr>" g1 t1 "[t2, t3, t4, t5, t]"]
      key_miss_first [of "p\<lparr>a_ctx := [t2, t3, t4, t5, t]\<rparr>" t1] by (simp add: q_def)
  have s2: "espos_httpd_auth_policy_check_key script_port (Some g) (q k (t' # ts)) =
      (ESPOS_HTTPD_AUTH_UNAUTHORIZED, q (k + 1) ts)"
    if "g \<noteq> a_key p" "t' - t1 < 60" "k < 4" "k \<noteq> 0" for g t' k ts
    using that assms(1,2,4) check_key_miss [of "q k (t' # ts)" g t' ts]
      key_miss_more [of "q k (t' # ts)\<lparr>a_ctx := ts\<rparr>" t'] by (simp add: q_def)
  have s5: "espos_httpd_auth_policy_check_key script_port (Some g5) (q 4 [t5, t]) = (ESPOS_HTTPD_AUTH_UNAUTHORIZED, r)"
    using assms check_key_miss [of "q 4 [t5, t]" g5 t5 "[t]"] key_miss_last [of "q 4 [t5, t]\<lparr>a_ctx := [t]\<rparr>" t5]
    by (simp add: q_def r_def)
  have "fst (espos_httpd_auth_policy_check_key script_port (Some s) r) =
      (if t - t5 < 30 then ESPOS_HTTPD_AUTH_THROTTLED
      else if s = a_key p then ESPOS_HTTPD_AUTH_ALLOW else ESPOS_HTTPD_AUTH_UNAUTHORIZED)"
    using check_key_verdict [of r script_port s] assms(1,2) lock by (simp add: script_port_def r_def q_def)
  moreover have "replicate 5 x = [x, x, x, x, x]" for x :: espos_httpd_auth_verdict
    by (simp add: numeral_eq_Suc)
  ultimately show ?thesis
    using s2 [of g2 t2 1] s2 [of g3 t3 2] s2 [of g4 t4 3] assms(5-13)
    by (simp add: s1 s5 Let_def split_beta)
qed

theorem auth_five_misses_lock_witness:
  "fst (check_keys script_port [''a'', ''b'', ''c'', ''d'', ''e'', ''sesame42'']
      ((espos_httpd_auth_policy_init [] 4 3600 False)\<lparr>a_key := ''sesame42'',
         a_ctx := [4294967290, 4294967291, 4294967295, 0, 1, 20]\<rparr>)) =
   replicate 5 ESPOS_HTTPD_AUTH_UNAUTHORIZED @ [ESPOS_HTTPD_AUTH_THROTTLED]"
  using auth_five_misses_lock [of "(espos_httpd_auth_policy_init [] 4 3600 False)\<lparr>a_key := ''sesame42''\<rparr>"
      "''a''" "''b''" "''c''" "''d''" "''e''" 4294967291 4294967290 4294967295 0 1 20 "''sesame42''"]
  by (simp add: espos_httpd_auth_policy_init_def)

subsection \<open>Sessions\<close>

lemma pick_slot_some: "slot \<noteq> None \<or> i < length ss \<Longrightarrow> pick_slot ss i slot \<noteq> None"
proof (induction ss i slot rule: pick_slot.induct)
  case (1 ss i slot)
  show ?case
  proof (cases "length ss \<le> i \<or> \<not> ss_used (ss ! i)")
    case True
    with "1.prems" show ?thesis by (auto simp: pick_slot.simps [of ss i slot])
  next
    case False
    with "1.IH" show ?thesis by (simp add: pick_slot.simps [of ss i slot] split: option.splits)
  qed
qed

lemma pick_slot_free:
  "pick_slot ss i slot = Some k \<Longrightarrow> \<exists>j<length ss. i \<le> j \<and> \<not> ss_used (ss ! j) \<Longrightarrow> \<not> ss_used (ss ! k)"
proof (induction ss i slot rule: pick_slot.induct)
  case (1 ss i slot)
  show ?case
  proof (cases "length ss \<le> i \<or> \<not> ss_used (ss ! i)")
    case True
    with "1.prems" show ?thesis by (auto simp: pick_slot.simps [of ss i slot] split: if_splits)
  next
    case False
    then have "\<exists>j<length ss. Suc i \<le> j \<and> \<not> ss_used (ss ! j)"
      using "1.prems"(2) by (metis not_less_eq_eq le_antisym)
    with False "1.IH" "1.prems"(1) show ?thesis by (simp add: pick_slot.simps [of ss i slot])
  qed
qed

text \<open>A full table: the slot seen longest ago, on times within half the clock's range of \<open>b\<close>.\<close>

lemma seen_before:
  assumes "uint (x - b) < 2 ^ 31" and "uint (y - b) < 2 ^ 31"
  shows "sint (x - y :: u32) < 0 \<longleftrightarrow> x - b < y - b"
proof -
  have "reached x (b + (y - b)) \<longleftrightarrow> y - b \<le> x - b"
    using assms by (intro reached_plus_iff) simp_all
  then show ?thesis by (auto simp: reached_def)
qed

lemma pick_slot_idlest:
  assumes "\<forall>j<length ss. ss_used (ss ! j) \<and> uint (ss_last_seen_s (ss ! j) - b) < 2 ^ 31"
  shows "pick_slot ss i slot = Some k \<Longrightarrow>
     (case slot of None \<Rightarrow> i = 0 | Some m \<Rightarrow> m < length ss \<and>
        (\<forall>j<min i (length ss). ss_last_seen_s (ss ! m) - b \<le> ss_last_seen_s (ss ! j) - b)) \<Longrightarrow>
     \<forall>j<length ss. ss_last_seen_s (ss ! k) - b \<le> ss_last_seen_s (ss ! j) - b"
proof (induction "length ss - i" arbitrary: i slot)
  case 0
  then have "length ss \<le> i" by simp
  with 0 show ?case by (auto simp: pick_slot.simps [of ss i slot] split: option.splits)
next
  case (Suc n)
  define slot' where "slot' = (case slot of None \<Rightarrow> Some i
     | Some k \<Rightarrow> if sint (ss_last_seen_s (ss ! i) - ss_last_seen_s (ss ! k)) < 0 then Some i else slot)"
  from Suc.hyps(2) have i: "i < length ss" by simp
  then have "pick_slot ss (Suc i) slot' = Some k"
    using assms Suc.prems(1) by (simp add: pick_slot.simps [of ss i slot] slot'_def)
  moreover have "case slot' of None \<Rightarrow> Suc i = 0 | Some m \<Rightarrow> m < length ss \<and>
        (\<forall>j<min (Suc i) (length ss). ss_last_seen_s (ss ! m) - b \<le> ss_last_seen_s (ss ! j) - b)"
  proof (cases slot)
    case None
    with Suc.prems(2) i show ?thesis by (simp add: slot'_def)
  next
    case (Some m)
    with Suc.prems(2) i have m: "m < length ss"
      and min: "\<And>j. j < i \<Longrightarrow> ss_last_seen_s (ss ! m) - b \<le> ss_last_seen_s (ss ! j) - b" by simp_all
    have "sint (ss_last_seen_s (ss ! i) - ss_last_seen_s (ss ! m)) < 0 \<longleftrightarrow>
        ss_last_seen_s (ss ! i) - b < ss_last_seen_s (ss ! m) - b"
      using assms m i by (intro seen_before) simp_all
    with m i min show ?thesis
      by (auto simp: slot'_def Some less_Suc_eq not_less intro: order.trans less_imp_le)
  qed
  moreover have "n = length ss - Suc i" using Suc.hyps(2) by simp
  ultimately show ?case by (intro Suc.hyps(1))
qed

lemma session_open_some:
  assumes "espos_httpd_auth_policy_session_open port out n p = (Some sid, q)"
    and "t = fst (ap_now_s port (a_ctx p))"
  obtains k where "pick_slot (sweep t (a_sessions p)) 0 None = Some k" and "k < length (a_sessions p)"
    and "a_sessions q = (sweep t (a_sessions p))[k := \<lparr>ss_id = sid, ss_expires_s = t + a_ttl_s p,
           ss_last_seen_s = t, ss_used = True\<rparr>]"
    and "a_sessions p \<noteq> []"
proof -
  from assms obtain k where k: "pick_slot (sweep t (a_sessions p)) 0 None = Some k"
    and q: "a_sessions q = (sweep t (a_sessions p))[k := \<lparr>ss_id = sid, ss_expires_s = t + a_ttl_s p,
           ss_last_seen_s = t, ss_used = True\<rparr>]" and "a_sessions p \<noteq> []"
    by (auto simp: espos_httpd_auth_policy_session_open_def Let_def auth_now_s_def split_beta
        split: if_splits option.splits)
  moreover have "k < length (a_sessions p)" using pick_slot_less [OF k] by simp
  ultimately show thesis using that by blast
qed

text \<open>
  C27. A login works until it expires and no longer: in the table \<open>session_open\<close> leaves, the id it hands out names a
  live session at every instant before its lifetime is over, and none from then on unless an earlier session has the same
  random id. The clock may wrap; it is read less than 2^31 seconds after the login, and the lifetime is at most that.
\<close>

theorem auth_session_round_trip:
  fixes port port0 port' :: "'c auth_port"
  assumes "p = auth_run port0 c n ttl req cs"
    and "espos_httpd_auth_policy_session_open port True 33 p = (Some sid, q)"
    and "t0 = fst (ap_now_s port (a_ctx p))" and "t = fst (ap_now_s port' (a_ctx q))"
    and "uint (t - t0) < 2 ^ 31" and "uint (a_ttl_s p) \<le> 2 ^ 31"
  shows "(t - t0 < a_ttl_s p \<longrightarrow> fst (espos_httpd_auth_policy_session_valid port' (Some sid) q)) \<and>
         (a_ttl_s p \<le> t - t0 \<and> (\<forall>s \<in> set (a_sessions p). ss_used s \<longrightarrow> ss_id s \<noteq> sid) \<longrightarrow>
            \<not> fst (espos_httpd_auth_policy_session_valid port' (Some sid) q))"
proof -
  have inv: "auth_inv q"
    using session_open_inv [of p port True 33] auth_run_inv [of port0 c n ttl req cs] assms(1,2) by simp
  let ?new = "\<lparr>ss_id = sid, ss_expires_s = t0 + a_ttl_s p, ss_last_seen_s = t0, ss_used = True\<rparr>"
  obtain k where k: "k < length (a_sessions p)" and q: "a_sessions q = (sweep t0 (a_sessions p))[k := ?new]"
    by (rule session_open_some [OF assms(2,3)])
  have new: "?new \<in> set (a_sessions q)" using k q by (simp add: set_update_memI)
  have old: "s = ?new \<or> s \<in> set (a_sessions p) \<or> \<not> ss_used s" if "s \<in> set (a_sessions q)" for s
  proof -
    have "s = ?new \<or> s \<in> set (sweep t0 (a_sessions p))" using that q set_update_subset_insert by fastforce
    then show ?thesis by (auto simp: sweep_def session_zero_def)
  qed
  have over: "reached t (t0 + a_ttl_s p) \<longleftrightarrow> a_ttl_s p \<le> t - t0" by (rule reached_plus_iff [OF assms(5,6)])
  show ?thesis unfolding session_valid_iff [OF inv assms(4)]
  proof (intro conjI impI)
    assume "t - t0 < a_ttl_s p"
    then show "\<exists>s \<in> set (a_sessions q). ss_used s \<and> ss_id s = sid \<and> \<not> reached t (ss_expires_s s)"
      using new over by (intro bexI [of _ ?new]) auto
  next
    assume "a_ttl_s p \<le> t - t0 \<and> (\<forall>s \<in> set (a_sessions p). ss_used s \<longrightarrow> ss_id s \<noteq> sid)"
    then have no: "\<forall>s \<in> set (a_sessions p). ss_used s \<longrightarrow> ss_id s \<noteq> sid" and ttl: "reached t (ss_expires_s ?new)"
      using over by simp_all
    have "reached t (ss_expires_s s)" if "s \<in> set (a_sessions q)" "ss_used s" "ss_id s = sid" for s
      using old [OF that(1)] no that(2,3) ttl by (elim disjE) simp_all
    then show "\<not> (\<exists>s \<in> set (a_sessions q). ss_used s \<and> ss_id s = sid \<and> \<not> reached t (ss_expires_s s))"
      by blast
  qed
qed

theorem auth_session_round_trip_witness:
  "case espos_httpd_auth_policy_session_open still_port True 33
       (auth_run still_port () 2 3600 False [Set_Key (Some ''sesame42'')]) of
     (None, q) \<Rightarrow> False
   | (Some sid, q) \<Rightarrow> sid = ''efac0000efac0000efac0000efac0000'' \<and>
       fst (espos_httpd_auth_policy_session_valid (still_port\<lparr>ap_now_s := (\<lambda>c. (3699, c))\<rparr>) (Some sid) q) \<and>
       \<not> fst (espos_httpd_auth_policy_session_valid (still_port\<lparr>ap_now_s := (\<lambda>c. (3700, c))\<rparr>) (Some sid) q)"
proof -
  let ?p = "auth_run still_port () 2 3600 False [Set_Key (Some ''sesame42'')]"
  have sid: "fst (espos_httpd_auth_policy_session_open still_port True 33 ?p) = Some ''efac0000efac0000efac0000efac0000''"
    and ttl: "a_ttl_s ?p = 3600" "fst (ap_now_s still_port (a_ctx ?p)) = 100" by code_simp+
  have none: "\<forall>s \<in> set (a_sessions ?p). \<not> ss_used s" by code_simp
  obtain q where q: "espos_httpd_auth_policy_session_open still_port True 33 ?p =
      (Some ''efac0000efac0000efac0000efac0000'', q)" using sid by (metis prod.collapse)
  from auth_session_round_trip [OF refl q ttl(2) [symmetric],
      where port' = "still_port\<lparr>ap_now_s := (\<lambda>c. (3699, c))\<rparr>" and t = 3699]
    auth_session_round_trip [OF refl q ttl(2) [symmetric],
      where port' = "still_port\<lparr>ap_now_s := (\<lambda>c. (3700, c))\<rparr>" and t = 3700]
  show ?thesis using none by (simp add: q ttl word_less_nat_alt word_le_nat_alt)
qed

text \<open>
  A login costs another session only when the table is full of unexpired ones, and then it
  costs the one idle longest: every other slot is kept as it was.
\<close>

theorem auth_session_open_evicts_idlest:
  fixes port :: "'c auth_port"
  assumes "espos_httpd_auth_policy_session_open port out n p = (Some sid, q)"
    and "t = fst (ap_now_s port (a_ctx p))"
  shows "\<exists>k<length (a_sessions p).
     (\<forall>j<length (a_sessions p). j \<noteq> k \<longrightarrow> a_sessions q ! j = sweep t (a_sessions p) ! j) \<and>
     ((\<exists>j<length (a_sessions p). \<not> ss_used (sweep t (a_sessions p) ! j)) \<longrightarrow> \<not> ss_used (sweep t (a_sessions p) ! k)) \<and>
     ((\<forall>s\<in>set (sweep t (a_sessions p)). ss_used s \<and> uint (ss_last_seen_s s - b) < 2 ^ 31) \<longrightarrow>
        (\<forall>s\<in>set (sweep t (a_sessions p)). ss_last_seen_s (sweep t (a_sessions p) ! k) - b \<le> ss_last_seen_s s - b))"
proof -
  let ?ss = "sweep t (a_sessions p)"
  obtain k where k: "pick_slot ?ss 0 None = Some k" "k < length (a_sessions p)"
    and q: "a_sessions q = ?ss[k := \<lparr>ss_id = sid, ss_expires_s = t + a_ttl_s p, ss_last_seen_s = t, ss_used = True\<rparr>]"
    by (rule session_open_some [OF assms])
  have "\<forall>s\<in>set ?ss. ss_last_seen_s (?ss ! k) - b \<le> ss_last_seen_s s - b"
    if full: "\<forall>s\<in>set ?ss. ss_used s \<and> uint (ss_last_seen_s s - b) < 2 ^ 31"
  proof -
    have "\<forall>j<length ?ss. ss_used (?ss ! j) \<and> uint (ss_last_seen_s (?ss ! j) - b) < 2 ^ 31"
      using full nth_mem by blast
    from pick_slot_idlest [OF this k(1)] show ?thesis by (auto simp: in_set_conv_nth)
  qed
  with k q pick_slot_free [OF k(1)] show ?thesis by (intro exI [of _ k]) auto
qed

theorem auth_session_open_evicts_idlest_witness:
  "let s = \<lparr>ss_id = replicate 32 CHR ''a'', ss_expires_s = 900, ss_last_seen_s = 50, ss_used = True\<rparr>;
       p = (espos_httpd_auth_policy_init () 2 3600 False)\<lparr>a_sessions := [s, session_zero]\<rparr>
   in a_sessions (snd (espos_httpd_auth_policy_session_open still_port True 33 p)) ! 0 = s"
proof -
  let ?s = "\<lparr>ss_id = replicate 32 CHR ''a'', ss_expires_s = 900, ss_last_seen_s = 50, ss_used = True\<rparr>"
  let ?p = "(espos_httpd_auth_policy_init () 2 3600 False)\<lparr>a_sessions := [?s, session_zero]\<rparr>"
  have ss: "a_sessions ?p = [?s, session_zero]" "sweep 100 [?s, session_zero] = [?s, session_zero]"
    "fst (ap_now_s still_port (a_ctx ?p)) = 100"
    by (simp_all add: sweep_def reached_def still_port_def espos_httpd_auth_policy_init_def session_zero_def)
  have "fst (espos_httpd_auth_policy_session_open still_port True 33 ?p) \<noteq> None" by code_simp
  then obtain sid q where open': "espos_httpd_auth_policy_session_open still_port True 33 ?p = (Some sid, q)"
    by (metis not_None_eq prod.collapse)
  obtain k where "\<forall>j<length (a_sessions ?p). j \<noteq> k \<longrightarrow> a_sessions q ! j = sweep 100 (a_sessions ?p) ! j"
    and free: "(\<exists>j<length (a_sessions ?p). \<not> ss_used (sweep 100 (a_sessions ?p) ! j)) \<longrightarrow>
          \<not> ss_used (sweep 100 (a_sessions ?p) ! k)"
    using auth_session_open_evicts_idlest [OF open' ss(3) [symmetric], of 0] by blast
  moreover have "\<not> ss_used (sweep 100 (a_sessions ?p) ! 1)" "1 < length (a_sessions ?p)"
    by (simp_all only: ss) (simp_all add: session_zero_def)
  moreover from this free have "k \<noteq> 0" by (metis nth_Cons_0 ss(1,2) auth_session.select_convs(4))
  ultimately have "a_sessions q ! 0 = ?s" by (simp add: ss)
  with open' show ?thesis by (simp add: Let_def)
qed

subsection \<open>Origins\<close>

lemma find_sub_none: "CHR ''/'' \<notin> set s \<Longrightarrow> find_sub ''://'' s = None"
proof (induction s)
  case (Cons a s)
  have "take 3 (a # s) \<noteq> ''://''"
  proof
    assume t: "take 3 (a # s) = ''://''"
    have "CHR ''/'' \<in> set (take 3 (a # s))" unfolding t by simp
    then show False using Cons.prems by (meson in_set_takeD)
  qed
  then show ?case using Cons by (simp add: numeral_2_eq_2)
qed simp

lemma find_sub_scheme: "CHR '':'' \<notin> set s \<Longrightarrow> find_sub ''://'' (s @ ''://'' @ r) = Some (length s)"
  by (induction s) auto

definition plain_host :: "string \<Rightarrow> bool" where
  "plain_host h \<longleftrightarrow> h \<noteq> '''' \<and> set h \<inter> set '':/?#'' = {}"

text \<open>A host name with or without a port, the port that is meant, and what is left when the port is dropped if it is 80.\<close>

definition host_port :: "string \<Rightarrow> nat option \<Rightarrow> string" where
  "host_port h port = h @ (case port of None \<Rightarrow> '''' | Some n \<Rightarrow> '':'' @ dec_of_nat n)"

definition port_meant :: "nat option \<Rightarrow> nat" where
  "port_meant port = (case port of None \<Rightarrow> 80 | Some n \<Rightarrow> n)"

definition shown :: "string \<Rightarrow> nat option \<Rightarrow> string" where
  "shown h port = (if port_meant port = 80 then h else host_port h port)"

lemma dec_80: "dec_of_nat 80 = ''80''"
  by code_simp

lemma dec_chars: "set (dec_of_nat n) \<inter> set '':/?#'' = {}"
proof -
  have "digit d \<notin> set '':/?#''" if "d < 10" for d
  proof -
    have "(of_char (digit d) :: nat) = 48 + d" using that by (simp add: digit_def)
    then show ?thesis using that by auto
  qed
  then show ?thesis using set_dec_of_nat [of n] by blast
qed

lemma host_port_chars: "plain_host h \<Longrightarrow> host_port h port \<noteq> '''' \<and> set (host_port h port) \<inter> set ''/?#'' = {}"
  using dec_chars by (cases port) (auto simp: plain_host_def host_port_def)

lemma takeWhile_host:
  "plain_host h \<Longrightarrow> rest = '''' \<or> hd rest \<in> set ''/?#'' \<Longrightarrow> takeWhile (\<lambda>c. c \<notin> set ''/?#'') (host_port h port @ rest) = host_port h port"
  using host_port_chars [of h port] by (cases rest) (auto simp: takeWhile_append2 takeWhile_eq_all_conv disjoint_iff)

lemma colon_split: "c \<notin> set x \<Longrightarrow> c \<notin> set x' \<Longrightarrow> x @ c # y = x' @ c # y' \<longleftrightarrow> x = x' \<and> y = y'"
proof (induction x arbitrary: x')
  case Nil
  then show ?case by (cases x') auto
next
  case (Cons a x)
  then show ?case by (cases x') auto
qed

lemma drops_80:
  assumes "plain_host h"
  shows "(3 \<le> length (host_port h port) \<and> drop (length (host_port h port) - 3) (host_port h port) = '':80'') \<longleftrightarrow> port = Some 80"
proof
  let ?x = "host_port h port"
  assume "3 \<le> length ?x \<and> drop (length ?x - 3) ?x = '':80''"
  then have x: "?x = take (length ?x - 3) ?x @ CHR '':'' # ''80''" by (metis append_take_drop_id)
  have c: "CHR '':'' \<notin> set h" "CHR '':'' \<notin> set (dec_of_nat n)" for n using assms dec_chars [of n] by (auto simp: plain_host_def)
  have "CHR '':'' \<in> set ?x" using x by (metis in_set_conv_decomp)
  then obtain n where n: "port = Some n" using c(1) by (cases port) (auto simp: host_port_def)
  have xn: "?x = h @ CHR '':'' # dec_of_nat n" using n by (simp add: host_port_def)
  have "rev ?x = rev (dec_of_nat n) @ CHR '':'' # rev h" "rev ?x = rev ''80'' @ CHR '':'' # rev (take (length ?x - 3) ?x)"
    using xn arg_cong [OF x, of rev] by simp_all
  then have "rev (dec_of_nat n) @ CHR '':'' # rev h = rev ''80'' @ CHR '':'' # rev (take (length ?x - 3) ?x)" by metis
  moreover have "CHR '':'' \<notin> set (rev (dec_of_nat n))" "CHR '':'' \<notin> set (rev ''80'')" using c(2) by simp_all
  ultimately have "rev (dec_of_nat n) = rev ''80''" by (metis colon_split)
  then have "dec_of_nat n = dec_of_nat 80" using dec_80 by (metis rev_rev_ident)
  then show "port = Some 80" using n dec_of_nat_inject by simp
next
  assume "port = Some 80"
  then show "3 \<le> length (host_port h port) \<and> drop (length (host_port h port) - 3) (host_port h port) = '':80''"
    by (simp add: host_port_def dec_80)
qed

lemma authority_shown:
  assumes "plain_host h" and "rest = '''' \<or> hd rest \<in> set ''/?#''"
  shows "(let n = length (takeWhile (\<lambda>c. c \<notin> set ''/?#'') (host_port h port @ rest));
          n = (if 3 \<le> n \<and> take 3 (drop (n - 3) (host_port h port @ rest)) = '':80'' then n - 3 else n)
      in take n (host_port h port @ rest)) = shown h port"
proof -
  let ?x = "host_port h port"
  have t: "take 3 (drop (length ?x - 3) (?x @ rest)) = drop (length ?x - 3) ?x" if "3 \<le> length ?x" using that by simp
  have "(if port = Some 80 then take (length ?x - 3) (?x @ rest) else ?x) = shown h port"
    by (cases port) (auto simp: shown_def port_meant_def host_port_def dec_80)
  then show ?thesis unfolding Let_def takeWhile_host [OF assms, of port] using drops_80 [OF assms(1), of port] t by auto
qed

lemma authority_host: "plain_host h \<Longrightarrow> authority (host_port h port) = shown h port"
  using authority_shown [of h "''''" port] find_sub_none [of "host_port h port"] host_port_chars [of h port]
  by (simp add: authority_def Let_def)

lemma authority_url:
  assumes "plain_host h" and "CHR '':'' \<notin> set scheme" and "rest = '''' \<or> hd rest \<in> set ''/?#''"
  shows "authority (scheme @ ''://'' @ host_port h port @ rest) = shown h port"
proof -
  have "drop (length scheme + 3) (scheme @ ''://'' @ host_port h port @ rest) = host_port h port @ rest" by simp
  with authority_shown [OF assms(1,3)] find_sub_scheme [OF assms(2), of "host_port h port @ rest"]
  show ?thesis by (simp only: authority_def Let_def option.case)
qed

lemma lower_colon: "c_tolower c = CHR '':'' \<longleftrightarrow> c = CHR '':''"
proof -
  have "of_char (c_tolower c) = (58 :: nat) \<longleftrightarrow> of_char c = (58 :: nat)" by (auto simp: c_tolower_def Let_def)
  moreover have "of_char (CHR '':'') = (58 :: nat)" by simp
  ultimately show ?thesis by (metis of_char_eq_iff)
qed

lemma lower_dec: "map c_tolower (dec_of_nat n) = dec_of_nat n"
proof (rule map_idI)
  fix c assume "c \<in> set (dec_of_nat n)"
  then obtain d where "d < 10" "c = digit d" using set_dec_of_nat [of n] by auto
  then show "c_tolower c = c" by (simp add: c_tolower_def digit_def)
qed

lemma shown_equal:
  assumes "plain_host a" and "plain_host b"
  shows "map c_tolower (shown a p) = map c_tolower (shown b q) \<longleftrightarrow> map c_tolower a = map c_tolower b \<and> port_meant p = port_meant q"
proof -
  have colon: "CHR '':'' \<notin> set (map c_tolower h)" if "plain_host h" for h
  proof
    assume "CHR '':'' \<in> set (map c_tolower h)"
    then obtain c where "c \<in> set h" "c_tolower c = CHR '':''" by (metis in_set_conv_nth length_map nth_map)
    then have "CHR '':'' \<in> set h" using lower_colon by simp
    then show False using that by (simp add: plain_host_def)
  qed
  have form: "map c_tolower (shown h r) = map c_tolower h @ (if port_meant r = 80 then '''' else CHR '':'' # dec_of_nat (port_meant r))" for h r
    using lower_dec lower_colon [of "CHR '':''"] by (cases r) (auto simp: shown_def host_port_def port_meant_def)
  have no: "map c_tolower h \<noteq> x @ CHR '':'' # y" if "plain_host h" for h x y using colon [OF that] by (metis in_set_conv_decomp)
  show ?thesis
  proof (cases "port_meant p = 80"; cases "port_meant q = 80")
    assume p: "port_meant p \<noteq> 80" and q: "port_meant q \<noteq> 80"
    show ?thesis unfolding form
      using p q colon_split [OF colon [OF assms(1)] colon [OF assms(2)]] dec_of_nat_inject by simp
  qed (use no [OF assms(1)] no [OF assms(2)] no [OF assms(2), symmetric] in \<open>auto simp only: form if_True if_False append_Nil2 simp_thms dest: sym\<close>)
qed

text \<open>
  C28. A cookie alone changes nothing for a page of another site: an origin or referer of the
  form scheme, host, port, path is accepted for the device's host name and port exactly when the host
  names are equal up to upper and lower case and the ports are equal, where a missing port is 80,
  whatever the path says; no origin at all is refused.
\<close>

theorem auth_origin_is_same_host:
  assumes "plain_host a" and "plain_host b" and "CHR '':'' \<notin> set scheme"
    and "rest = '''' \<or> hd rest \<in> set ''/?#''"
  shows "espos_httpd_auth_origin_matches (Some (scheme @ ''://'' @ host_port a p @ rest)) (Some (host_port b q)) =
           (map c_tolower a = map c_tolower b \<and> port_meant p = port_meant q) \<and>
         \<not> espos_httpd_auth_origin_matches None (Some (host_port b q))"
proof -
  have "map c_tolower x = map c_tolower y \<longleftrightarrow>
      length x = length y \<and> (\<forall>i<length x. c_tolower (x ! i) = c_tolower (y ! i))" for x y
    by (auto simp: list_eq_iff_nth_eq)
  moreover have "shown a p \<noteq> ''''" using host_port_chars [OF assms(1)] assms(1) by (simp add: shown_def plain_host_def)
  moreover have "host_port b q \<noteq> ''''" using host_port_chars [OF assms(2)] by simp
  ultimately show ?thesis
    using shown_equal [OF assms(1,2), of p q] authority_url [OF assms(1,3,4)] authority_host [OF assms(2)]
    by (auto simp: espos_httpd_auth_origin_matches_def Let_def)
qed

theorem auth_origin_is_same_host_witness:
  "espos_httpd_auth_origin_matches (Some ''http://BOAT.local:80/ui'') (Some ''boat.local'') \<and>
   \<not> espos_httpd_auth_origin_matches (Some ''http://boat.local:81/'') (Some ''boat.local'') \<and>
   \<not> espos_httpd_auth_origin_matches (Some ''http://evil.example/boat.local'') (Some ''boat.local'')"
proof -
  have h: "plain_host ''BOAT.local''" "plain_host ''boat.local''" "plain_host ''evil.example''"
    by (simp_all add: plain_host_def)
  have "map c_tolower ''BOAT.local'' = map c_tolower ''boat.local''"
    "map c_tolower ''evil.example'' \<noteq> map c_tolower ''boat.local''" by code_simp+
  moreover have "host_port ''BOAT.local'' (Some 80) = ''BOAT.local:80''" "host_port ''boat.local'' (Some 81) = ''boat.local:81''"
    "host_port ''evil.example'' None = ''evil.example''" "host_port ''boat.local'' None = ''boat.local''"
    by code_simp+
  ultimately show ?thesis
    using auth_origin_is_same_host [OF h(1,2), of "''http''" "''/ui''" "Some 80" None]
      auth_origin_is_same_host [OF h(2,2), of "''http''" "''/''" "Some 81" None]
      auth_origin_is_same_host [OF h(3,2), of "''http''" "''/boat.local''" None None]
    by (simp add: port_meant_def)
qed

end
