(* ===== verification/Health_Table.thy ===== *)
theory Health_Table
  imports Espos_Prelude
begin

unbundle bit_operations_syntax

text \<open>
  components/espos_health/src/espos_health.c: the table of health conditions, the sinks it fans
  out to, and the synthetic conditions of a drill.

  The one static \<open>s\<close> is the record \<open>health\<close>. \<open>lock()\<close> waits at most 200 ms and may
  fail; what each call of it returns is the script \<open>h_locks\<close>, and the lock is free once the
  script is used up. Whether \<open>test_lock\<close> was taken and what the clock shows are arguments of
  the two operations that use them. A sink is an opaque \<open>(fn, arg)\<close>; the calls it gets are
  appended to \<open>h_calls\<close>. The sizes of the two tables are the build's
  (\<open>CONFIG_ESPOS_HEALTH_MAX_CONDITIONS\<close>, \<open>CONFIG_ESPOS_HEALTH_MAX_SINKS\<close>). Sinks
  that call back into the table, and other tasks between two critical sections of one call, are
  not modelled.
\<close>

subsection \<open>Data\<close>

abbreviation (input) ESPOS_HEALTH_KEY_MAX :: nat where "ESPOS_HEALTH_KEY_MAX \<equiv> 24"
abbreviation (input) ESPOS_HEALTH_MSG_MAX :: nat where "ESPOS_HEALTH_MSG_MAX \<equiv> 96"
abbreviation (input) ESPOS_HEALTH_F_REBOOT_ON_ALARM :: u32 where "ESPOS_HEALTH_F_REBOOT_ON_ALARM \<equiv> 1"
abbreviation (input) ESPOS_HEALTH_TEST_PREFIX :: string where "ESPOS_HEALTH_TEST_PREFIX \<equiv> ''test.''"
abbreviation (input) ESPOS_HEALTH_TEST_TTL_MAX_MS :: u32 where "ESPOS_HEALTH_TEST_TTL_MAX_MS \<equiv> 300000"

text \<open>\<open>ESPOS_HEALTH_INVALID\<close> is any other value of the enum's type.\<close>

datatype espos_health_state =
    ESPOS_HEALTH_NORMAL
  | ESPOS_HEALTH_WARN
  | ESPOS_HEALTH_ALARM
  | ESPOS_HEALTH_INVALID

record health_condition =
  hc_key :: string
  hc_state :: espos_health_state
  hc_message :: string
  hc_flags :: u32

record 'k health =
  h_cond :: "health_condition list"
  h_sink :: "'k list"
  h_test_key :: string
  h_test_deadline_ms :: u32
  h_test_armed :: bool
  h_test_pending_clear :: string
  h_locks :: "bool list"
  h_calls :: "('k \<times> string \<times> espos_health_state \<times> string) list"

definition health_lock :: "'k health \<Rightarrow> bool \<times> 'k health" where
  "health_lock s = (case h_locks s of [] \<Rightarrow> (True, s) | b # bs \<Rightarrow> (b, s\<lparr>h_locks := bs\<rparr>))"

definition espos_health_state_str :: "espos_health_state \<Rightarrow> string" where
  "espos_health_state_str st =
     (case st of ESPOS_HEALTH_ALARM \<Rightarrow> ''alarm'' | ESPOS_HEALTH_WARN \<Rightarrow> ''warn'' | _ \<Rightarrow> ''normal'')"

subsection \<open>Reports\<close>

definition fan_out :: "string \<Rightarrow> espos_health_state \<Rightarrow> string \<Rightarrow> 'k health \<Rightarrow> 'k health" where
  "fan_out key st message s =
     (let (ok, s) = health_lock s
      in if \<not> ok then s
         else s\<lparr>h_calls := h_calls s @ map (\<lambda>k. (k, key, st, message)) (h_sink s)\<rparr>)"

fun find_cond :: "string \<Rightarrow> health_condition list \<Rightarrow> nat option" where
  "find_cond key [] = None"
| "find_cond key (c # cs) = (if hc_key c = key then Some 0 else map_option Suc (find_cond key cs))"

text \<open>The table's part of a report: what was recorded, and whether the sinks hear of it.\<close>

definition record_condition ::
  "nat \<Rightarrow> string \<Rightarrow> espos_health_state \<Rightarrow> string \<Rightarrow> u32 \<Rightarrow> health_condition list \<Rightarrow>
   esp_err \<times> bool \<times> health_condition list" where
  "record_condition maxc key st message flags cs =
     (case find_cond key cs of
        None \<Rightarrow>
          if maxc \<le> length cs then (ESP_ERR_NO_MEM, False, cs)
          else (ESP_OK, True,
                cs @ [\<lparr>hc_key = cbuf ESPOS_HEALTH_KEY_MAX key, hc_state = st,
                       hc_message = cbuf ESPOS_HEALTH_MSG_MAX message, hc_flags = flags\<rparr>])
      | Some i \<Rightarrow>
          if hc_state (cs ! i) = st \<and> hc_message (cs ! i) = message
          then (ESP_OK, False, cs[i := (cs ! i)\<lparr>hc_flags := flags\<rparr>])
          else (ESP_OK, True,
                cs[i := (cs ! i)\<lparr>hc_state := st, hc_flags := flags,
                                hc_message := cbuf ESPOS_HEALTH_MSG_MAX message\<rparr>]))"

definition espos_health_report_ex ::
  "nat \<Rightarrow> string option \<Rightarrow> espos_health_state \<Rightarrow> string option \<Rightarrow> u32 \<Rightarrow> 'k health \<Rightarrow>
   esp_err \<times> 'k health" where
  "espos_health_report_ex maxc key st message flags s =
     (case key of
        None \<Rightarrow> (ESP_ERR_INVALID_ARG, s)
      | Some k \<Rightarrow>
          if k = '''' then (ESP_ERR_INVALID_ARG, s)
          else if flags AND NOT ESPOS_HEALTH_F_REBOOT_ON_ALARM \<noteq> 0 then (ESP_ERR_INVALID_ARG, s)
          else
            (let m = (case message of None \<Rightarrow> '''' | Some m \<Rightarrow> m)
             in if ESPOS_HEALTH_KEY_MAX \<le> length k then (ESP_ERR_INVALID_SIZE, s)
                else if ESPOS_HEALTH_MSG_MAX \<le> length m then (ESP_ERR_INVALID_SIZE, s)
                else if st = ESPOS_HEALTH_INVALID then (ESP_ERR_INVALID_ARG, s)
                else
                  (let (ok, s) = health_lock s
                   in if \<not> ok then (ESP_ERR_TIMEOUT, s)
                      else
                        (let (err, tell, cs) = record_condition maxc k st m flags (h_cond s);
                             s = s\<lparr>h_cond := cs\<rparr>
                         in if tell then (err, fan_out k st m s) else (err, s)))))"

definition espos_health_report ::
  "nat \<Rightarrow> string option \<Rightarrow> espos_health_state \<Rightarrow> string option \<Rightarrow> 'k health \<Rightarrow> esp_err \<times> 'k health" where
  "espos_health_report maxc key st message s = espos_health_report_ex maxc key st message 0 s"

subsection \<open>Sinks\<close>

text \<open>
  \<open>replay\<close> sends the sink every condition, taking the lock before and after each; nothing
  changes the table in between here, so the second look is always settled.
\<close>

fun replay_from :: "'k \<Rightarrow> health_condition list \<Rightarrow> 'k health \<Rightarrow> esp_err \<times> 'k health" where
  "replay_from sink [] s = (let (ok, s) = health_lock s in (if ok then ESP_OK else ESP_ERR_TIMEOUT, s))"
| "replay_from sink (c # cs) s =
     (let (ok, s) = health_lock s
      in if \<not> ok then (ESP_ERR_TIMEOUT, s)
         else
           (let s = s\<lparr>h_calls := h_calls s @ [(sink, hc_key c, hc_state c, hc_message c)]\<rparr>;
                (ok, s) = health_lock s
            in if \<not> ok then (ESP_ERR_TIMEOUT, s) else replay_from sink cs s))"

definition espos_health_replay :: "'k option \<Rightarrow> 'k health \<Rightarrow> esp_err \<times> 'k health" where
  "espos_health_replay sink s =
     (case sink of None \<Rightarrow> (ESP_ERR_INVALID_ARG, s) | Some k \<Rightarrow> replay_from k (h_cond s) s)"

definition espos_health_add_sink :: "nat \<Rightarrow> 'k option \<Rightarrow> 'k health \<Rightarrow> esp_err \<times> 'k health" where
  "espos_health_add_sink maxs sink s =
     (case sink of
        None \<Rightarrow> (ESP_ERR_INVALID_ARG, s)
      | Some k \<Rightarrow>
          (let (ok, s) = health_lock s
           in if \<not> ok then (ESP_ERR_TIMEOUT, s)
              else if k \<in> set (h_sink s) then (ESP_ERR_INVALID_STATE, s)
              else if maxs \<le> length (h_sink s) then (ESP_ERR_NO_MEM, s)
              else (let s = s\<lparr>h_sink := h_sink s @ [k]\<rparr>; (_, s) = espos_health_replay (Some k) s
                    in (ESP_OK, s))))"

fun index_of :: "'k \<Rightarrow> 'k list \<Rightarrow> nat option" where
  "index_of k [] = None"
| "index_of k (x # xs) = (if x = k then Some 0 else map_option Suc (index_of k xs))"

definition espos_health_remove_sink :: "'k \<Rightarrow> 'k health \<Rightarrow> esp_err \<times> 'k health" where
  "espos_health_remove_sink k s =
     (let (ok, s) = health_lock s
      in if \<not> ok then (ESP_ERR_TIMEOUT, s)
         else (case index_of k (h_sink s) of
                 None \<Rightarrow> (ESP_ERR_NOT_FOUND, s)
               | Some i \<Rightarrow> (ESP_OK, s\<lparr>h_sink := butlast ((h_sink s)[i := last (h_sink s)])\<rparr>)))"

subsection \<open>Inspection\<close>

definition espos_health_snapshot :: "nat option \<Rightarrow> 'k health \<Rightarrow> nat \<times> health_condition list \<times> 'k health" where
  "espos_health_snapshot room s =
     (let (ok, s) = health_lock s
      in if \<not> ok then (0, [], s)
         else (length (h_cond s), (case room of None \<Rightarrow> [] | Some n \<Rightarrow> take n (h_cond s)), s))"

fun state_rank :: "espos_health_state \<Rightarrow> nat" where
  "state_rank ESPOS_HEALTH_NORMAL = 0"
| "state_rank ESPOS_HEALTH_WARN = 1"
| "state_rank ESPOS_HEALTH_ALARM = 2"
| "state_rank ESPOS_HEALTH_INVALID = 3"

definition espos_health_worst :: "'k health \<Rightarrow> espos_health_state \<times> 'k health" where
  "espos_health_worst s =
     (let (ok, s) = health_lock s
      in if \<not> ok then (ESPOS_HEALTH_NORMAL, s)
         else (fold (\<lambda>c worst. if state_rank worst < state_rank (hc_state c) then hc_state c else worst)
                 (h_cond s) ESPOS_HEALTH_NORMAL, s))"

definition fatal_cond :: "health_condition \<Rightarrow> bool" where
  "fatal_cond c \<longleftrightarrow> hc_state c = ESPOS_HEALTH_ALARM \<and> hc_flags c AND ESPOS_HEALTH_F_REBOOT_ON_ALARM \<noteq> 0"

definition espos_health_fatal_alarm :: "'k health \<Rightarrow> health_condition option \<times> 'k health" where
  "espos_health_fatal_alarm s =
     (let (ok, s) = health_lock s in if \<not> ok then (None, s) else (List.find fatal_cond (h_cond s), s))"

subsection \<open>Drills\<close>

definition flush_pending_clear :: "nat \<Rightarrow> 'k health \<Rightarrow> bool \<times> 'k health" where
  "flush_pending_clear maxc s =
     (let (ok, s) = health_lock s
      in if \<not> ok then (False, s)
         else
           (let due = h_test_pending_clear s
            in if due = '''' then (True, s)
               else
                 (let (err, s) = espos_health_report_ex maxc (Some due) ESPOS_HEALTH_NORMAL (Some '''') 0 s
                  in if err \<noteq> ESP_OK then (False, s)
                     else
                       (let (ok, s) = health_lock s
                        in if \<not> ok then (False, s)
                           else (True, if h_test_pending_clear s = due
                                       then s\<lparr>h_test_pending_clear := ''''\<rparr> else s)))))"

definition test_key_ok :: "string \<Rightarrow> bool" where
  "test_key_ok key \<longleftrightarrow> take 5 key = ESPOS_HEALTH_TEST_PREFIX \<and> length key \<noteq> 5"

text \<open>The bookkeeping of a transition, in the lock: what to clear afterwards, and the new state.\<close>

definition drill_book :: "u32 \<Rightarrow> string \<Rightarrow> bool \<Rightarrow> u32 \<Rightarrow> 'k health \<Rightarrow> string \<times> 'k health" where
  "drill_book now key raising ttl_ms s =
     (let previous = (if h_test_armed s \<and> h_test_key s \<noteq> key then h_test_key s else '''');
          s = (if h_test_armed s \<and> h_test_key s \<noteq> key then s\<lparr>h_test_pending_clear := previous\<rparr> else s);
          s = (if raising
               then s\<lparr>h_test_key := cbuf ESPOS_HEALTH_KEY_MAX key, h_test_deadline_ms := now + ttl_ms,
                      h_test_armed := True\<rparr>
               else if h_test_key s = key then s\<lparr>h_test_armed := False, h_test_key := ''''\<rparr> else s)
      in (previous, s))"

definition drill_rollback :: "'k health \<Rightarrow> string \<Rightarrow> 'k health \<Rightarrow> 'k health" where
  "drill_rollback saved previous s =
     (let (ok, s) = health_lock s
      in if \<not> ok then s
         else
           (let s = s\<lparr>h_test_key := h_test_key saved, h_test_deadline_ms := h_test_deadline_ms saved,
                      h_test_armed := h_test_armed saved\<rparr>
            in if previous \<noteq> '''' \<and> h_test_pending_clear s = previous
               then s\<lparr>h_test_pending_clear := ''''\<rparr> else s))"

definition drill_clear_previous :: "nat \<Rightarrow> string \<Rightarrow> 'k health \<Rightarrow> 'k health" where
  "drill_clear_previous maxc previous s =
     (if previous = '''' then s
      else
        (let (err, s) = espos_health_report_ex maxc (Some previous) ESPOS_HEALTH_NORMAL (Some '''') 0 s
         in if err = ESP_OK
            then (let (ok, s) = health_lock s
                  in if ok \<and> h_test_pending_clear s = previous
                     then s\<lparr>h_test_pending_clear := ''''\<rparr> else s)
            else s))"

definition drill_transition ::
  "nat \<Rightarrow> u32 \<Rightarrow> string \<Rightarrow> espos_health_state \<Rightarrow> string option \<Rightarrow> u32 \<Rightarrow> 'k health \<Rightarrow> esp_err \<times> 'k health" where
  "drill_transition maxc now key st message ttl_ms s =
     (let (flushed, s) = flush_pending_clear maxc s
      in if \<not> flushed then (ESP_ERR_TIMEOUT, s)
         else
           (let (ok, s) = health_lock s
            in if \<not> ok then (ESP_ERR_TIMEOUT, s)
               else
                 (let saved = s;
                      (previous, s) = drill_book now key (st \<noteq> ESPOS_HEALTH_NORMAL) ttl_ms s;
                      (err, s) = espos_health_report_ex maxc (Some key) st
                                   (Some (case message of None \<Rightarrow> '''' | Some m \<Rightarrow> m)) 0 s
                  in if err \<noteq> ESP_OK then (err, drill_rollback saved previous s)
                     else (ESP_OK, drill_clear_previous maxc previous s))))"

definition espos_health_report_test ::
  "nat \<Rightarrow> bool \<Rightarrow> u32 \<Rightarrow> string option \<Rightarrow> espos_health_state \<Rightarrow> string option \<Rightarrow> u32 \<Rightarrow> 'k health \<Rightarrow>
   esp_err \<times> 'k health" where
  "espos_health_report_test maxc test_lock now key st message ttl_ms s =
     (case key of
        None \<Rightarrow> (ESP_ERR_INVALID_ARG, s)
      | Some k \<Rightarrow>
          if \<not> test_key_ok k then (ESP_ERR_INVALID_ARG, s)
          else if st = ESPOS_HEALTH_INVALID then (ESP_ERR_INVALID_ARG, s)
          else if st \<noteq> ESPOS_HEALTH_NORMAL \<and> (ttl_ms = 0 \<or> ttl_ms > ESPOS_HEALTH_TEST_TTL_MAX_MS)
          then (ESP_ERR_INVALID_ARG, s)
          else if ESPOS_HEALTH_KEY_MAX \<le> length k then (ESP_ERR_INVALID_SIZE, s)
          else if (case message of None \<Rightarrow> False | Some m \<Rightarrow> ESPOS_HEALTH_MSG_MAX \<le> length m)
          then (ESP_ERR_INVALID_SIZE, s)
          else if \<not> test_lock then (ESP_ERR_TIMEOUT, s)
          else drill_transition maxc now k st message ttl_ms s)"

definition espos_health_test_expire :: "nat \<Rightarrow> bool \<Rightarrow> u32 \<Rightarrow> 'k health \<Rightarrow> bool \<times> 'k health" where
  "espos_health_test_expire maxc test_lock now s =
     (if \<not> test_lock then (False, s)
      else
        (let (_, s) = flush_pending_clear maxc s;
             (ok, s) = health_lock s
         in if \<not> ok then (False, s)
            else
              (let due = (if h_test_armed s \<and> 0 \<le> sint (now - h_test_deadline_ms s)
                          then h_test_key s else '''')
               in if due = '''' then (False, s)
                  else
                    (let (err, s) = espos_health_report_ex maxc (Some due) ESPOS_HEALTH_NORMAL (Some '''') 0 s
                     in if err \<noteq> ESP_OK then (False, s)
                        else
                          (let (ok, s) = health_lock s
                           in (True,
                               if ok \<and> h_test_armed s \<and> h_test_key s = due
                               then s\<lparr>h_test_armed := False, h_test_key := ''''\<rparr> else s))))))"

definition espos_health_reset :: "'k health \<Rightarrow> 'k health" where
  "espos_health_reset s =
     (let (ok, s) = health_lock s
      in if \<not> ok then s
         else s\<lparr>h_cond := [], h_sink := [], h_test_armed := False, h_test_key := '''',
                h_test_pending_clear := ''''\<rparr>)"

subsection \<open>The table as a map\<close>

definition health_lookup :: "'k health \<Rightarrow> string \<Rightarrow> health_condition option" where
  "health_lookup s k = map_option (\<lambda>i. h_cond s ! i) (find_cond k (h_cond s))"

definition health_inv :: "nat \<Rightarrow> 'k health \<Rightarrow> bool" where
  "health_inv maxc s \<longleftrightarrow> length (h_cond s) \<le> maxc \<and> distinct (map hc_key (h_cond s)) \<and>
     (\<forall>c\<in>set (h_cond s). hc_key c \<noteq> '''' \<and> length (hc_key c) < ESPOS_HEALTH_KEY_MAX \<and>
        length (hc_message c) < ESPOS_HEALTH_MSG_MAX \<and> hc_state c \<noteq> ESPOS_HEALTH_INVALID)"

lemma find_cond_some: "find_cond k cs = Some i \<Longrightarrow> i < length cs \<and> hc_key (cs ! i) = k"
  by (induction cs arbitrary: i) (auto split: if_splits)

lemma find_cond_none: "find_cond k cs = None \<longleftrightarrow> k \<notin> hc_key ` set cs"
  by (induction cs) auto

lemma find_cond_append:
  "find_cond k (cs @ [c]) =
     (case find_cond k cs of Some i \<Rightarrow> Some i | None \<Rightarrow> if hc_key c = k then Some (length cs) else None)"
  by (induction cs) (auto split: option.splits)

lemma find_cond_update: "hc_key c = hc_key (cs ! i) \<Longrightarrow> i < length cs \<Longrightarrow> find_cond k (cs[i := c]) = find_cond k cs"
proof (induction cs arbitrary: i)
  case (Cons d cs)
  then show ?case by (cases i) auto
qed simp

lemma health_lock_frame [frame, simp]:
  "h_cond (snd (health_lock s)) = h_cond s" "h_sink (snd (health_lock s)) = h_sink s"
  "h_test_key (snd (health_lock s)) = h_test_key s" "h_test_armed (snd (health_lock s)) = h_test_armed s"
  "h_test_pending_clear (snd (health_lock s)) = h_test_pending_clear s"
  "h_test_deadline_ms (snd (health_lock s)) = h_test_deadline_ms s"
  "h_calls (snd (health_lock s)) = h_calls s"
  by (simp_all add: health_lock_def split: list.splits)

lemma health_lock_free [simp]: "h_locks s = [] \<Longrightarrow> health_lock s = (True, s)"
  by (simp add: health_lock_def)

lemma fan_out_frame [frame, simp]:
  "h_cond (fan_out k st m s) = h_cond s" "h_sink (fan_out k st m s) = h_sink s"
  "h_test_key (fan_out k st m s) = h_test_key s" "h_test_armed (fan_out k st m s) = h_test_armed s"
  "h_test_pending_clear (fan_out k st m s) = h_test_pending_clear s"
  "h_test_deadline_ms (fan_out k st m s) = h_test_deadline_ms s"
  "h_locks s = [] \<Longrightarrow> h_locks (fan_out k st m s) = []"
  by (simp_all add: fan_out_def Let_def split_beta)

lemma health_lookup_cong: "h_cond s' = h_cond s \<Longrightarrow> health_lookup s' = health_lookup s"
  by (rule ext) (simp add: health_lookup_def)

text \<open>What a report leaves of the bookkeeping: everything.\<close>

lemma report_ex_frame [frame, simp]:
  "h_test_key (snd (espos_health_report_ex n k st m f s)) = h_test_key s"
  "h_test_armed (snd (espos_health_report_ex n k st m f s)) = h_test_armed s"
  "h_test_pending_clear (snd (espos_health_report_ex n k st m f s)) = h_test_pending_clear s"
  "h_test_deadline_ms (snd (espos_health_report_ex n k st m f s)) = h_test_deadline_ms s"
  "h_sink (snd (espos_health_report_ex n k st m f s)) = h_sink s"
  "h_locks s = [] \<Longrightarrow> h_locks (snd (espos_health_report_ex n k st m f s)) = []"
  by (simp_all add: espos_health_report_ex_def Let_def split_beta split: option.splits)

text \<open>A report that is refused changes no condition; one that is taken sets one key.\<close>

lemma record_condition_lookup:
  assumes "record_condition n k st m f cs = (err, tell, cs')" and "length k < ESPOS_HEALTH_KEY_MAX"
    and "length m < ESPOS_HEALTH_MSG_MAX"
  shows "err \<noteq> ESP_OK \<Longrightarrow> cs' = cs"
    and "err = ESP_OK \<Longrightarrow> map_option (\<lambda>i. cs' ! i) (find_cond j cs') =
          (if j = k then Some \<lparr>hc_key = k, hc_state = st, hc_message = m, hc_flags = f\<rparr>
           else map_option (\<lambda>i. cs ! i) (find_cond j cs))"
proof -
  show "err \<noteq> ESP_OK \<Longrightarrow> cs' = cs"
    using assms(1) by (auto simp: record_condition_def split: option.splits if_splits)
  assume ok: "err = ESP_OK"
  show "map_option (\<lambda>i. cs' ! i) (find_cond j cs') =
          (if j = k then Some \<lparr>hc_key = k, hc_state = st, hc_message = m, hc_flags = f\<rparr>
           else map_option (\<lambda>i. cs ! i) (find_cond j cs))"
  proof (cases "find_cond k cs")
    case None
    with assms ok have cs': "cs' = cs @ [\<lparr>hc_key = k, hc_state = st, hc_message = m, hc_flags = f\<rparr>]"
      by (auto simp: record_condition_def split: if_splits)
    show ?thesis
      using None find_cond_some [of j cs]
      by (auto simp: cs' find_cond_append nth_append split: option.splits)
  next
    case (Some i)
    note i = find_cond_some [OF Some]
    define c where c: "c = \<lparr>hc_key = k, hc_state = st, hc_message = m, hc_flags = f\<rparr>"
    have "(cs ! i)\<lparr>hc_flags := f\<rparr> = c" if "hc_state (cs ! i) = st" "hc_message (cs ! i) = m"
      using that i by (intro health_condition.equality) (simp_all add: c)
    moreover have "(cs ! i)\<lparr>hc_state := st, hc_flags := f, hc_message := m\<rparr> = c"
      using i by (intro health_condition.equality) (simp_all add: c)
    ultimately have cs': "cs' = cs[i := c]"
      using assms Some by (simp add: record_condition_def split: if_splits)
    have "find_cond j cs' = find_cond j cs" using i c by (simp add: cs' find_cond_update)
    moreover have "l = i \<longleftrightarrow> j = k" if "find_cond j cs = Some l" for l
      using Some i that find_cond_some [OF that] by (metis option.inject)
    ultimately show ?thesis
      using Some conjunct1 [OF i]
      by (cases "j = k"; cases "find_cond j cs") (simp_all add: cs' c nth_list_update)
  qed
qed

lemma report_ex_cond:
  assumes "espos_health_report_ex n (Some k) st (Some m) f s = (err, s')"
    and "record_condition n k st m f (h_cond s) = (e, tell, cs')"
  shows "err \<noteq> ESP_OK \<and> h_cond s' = h_cond s \<or>
     err = e \<and> h_cond s' = cs' \<and> k \<noteq> '''' \<and> length k < ESPOS_HEALTH_KEY_MAX \<and>
       length m < ESPOS_HEALTH_MSG_MAX \<and> st \<noteq> ESPOS_HEALTH_INVALID"
  using assms(1) by (auto simp: espos_health_report_ex_def Let_def split_beta assms(2) split: if_splits)

lemma report_ex_lookup:
  assumes "espos_health_report_ex n (Some k) st (Some m) f s = (err, s')"
  shows "health_lookup s' = (if err = ESP_OK
     then (health_lookup s)(k \<mapsto> \<lparr>hc_key = k, hc_state = st, hc_message = m, hc_flags = f\<rparr>)
     else health_lookup s)"
proof -
  obtain e tell cs' where rc: "record_condition n k st m f (h_cond s) = (e, tell, cs')"
    by (metis prod_cases3)
  from report_ex_cond [OF assms rc] show ?thesis
  proof (elim disjE conjE)
    assume "err = e" "h_cond s' = cs'" "length k < ESPOS_HEALTH_KEY_MAX" "length m < ESPOS_HEALTH_MSG_MAX"
    with record_condition_lookup [OF rc] show ?thesis
      by (cases "e = ESP_OK") (simp_all add: health_lookup_def fun_eq_iff)
  qed (simp add: health_lookup_def fun_eq_iff)
qed

lemma report_ex_inv [keeps]:
  assumes "health_inv n s" and "espos_health_report_ex n (Some k) st (Some m) f s = (err, s')"
  shows "health_inv n s'"
proof -
  obtain e tell cs' where rc: "record_condition n k st m f (h_cond s) = (e, tell, cs')"
    by (metis prod_cases3)
  have "h_cond s' = h_cond s \<or> h_cond s' = cs' \<and> k \<noteq> '''' \<and> length k < ESPOS_HEALTH_KEY_MAX \<and>
      length m < ESPOS_HEALTH_MSG_MAX \<and> st \<noteq> ESPOS_HEALTH_INVALID"
    using report_ex_cond [OF assms(2) rc] by blast
  moreover have "health_inv n (s\<lparr>h_cond := cs'\<rparr>)"
    if "k \<noteq> ''''" "length k < ESPOS_HEALTH_KEY_MAX" "length m < ESPOS_HEALTH_MSG_MAX" "st \<noteq> ESPOS_HEALTH_INVALID"
  proof (cases "find_cond k (h_cond s)")
    case None
    with rc that assms(1) show ?thesis
      by (auto simp: record_condition_def health_inv_def find_cond_none split: if_splits)
  next
    case (Some i)
    note i = find_cond_some [OF Some]
    from rc that Some i obtain c where cs': "cs' = (h_cond s)[i := c]" and c: "hc_key c = k" "length (hc_message c) < ESPOS_HEALTH_MSG_MAX"
      "hc_state c \<noteq> ESPOS_HEALTH_INVALID"
      by (auto simp: record_condition_def split: if_splits)
    have "map hc_key cs' = map hc_key (h_cond s)" using i c by (simp add: cs' map_update list_update_same_conv)
    moreover have "x = c \<or> x \<in> set (h_cond s)" if "x \<in> set cs'" for x
      using that set_update_subset_insert [of "h_cond s" i c] by (auto simp: cs')
    ultimately show ?thesis
      using assms(1) that c by (auto simp: health_inv_def cs')
  qed
  ultimately show ?thesis using assms(1) by (auto simp: health_inv_def)
qed

subsection \<open>What a drill leaves behind\<close>

definition raised :: "'k health \<Rightarrow> string \<Rightarrow> bool" where
  "raised s k = (case health_lookup s k of None \<Rightarrow> False | Some c \<Rightarrow> hc_state c \<noteq> ESPOS_HEALTH_NORMAL)"

text \<open>A raised drill is the one that is running or the one still to be cleared.\<close>

definition drill_tracked :: "'k health \<Rightarrow> bool" where
  "drill_tracked s \<longleftrightarrow> (\<forall>k. test_key_ok k \<and> raised s k \<longrightarrow>
     h_test_armed s \<and> h_test_key s = k \<or> h_test_pending_clear s = k)"

lemma raised_cong: "h_cond s' = h_cond s \<Longrightarrow> raised s' k = raised s k"
  by (simp add: raised_def health_lookup_def)

lemma raised_empty: "h_cond s = [] \<Longrightarrow> \<not> raised s k"
  by (simp add: raised_def health_lookup_def)

lemma raised_lock [simp]: "raised (snd (health_lock s)) k = raised s k"
  by (rule raised_cong) simp

lemma raised_fields [simp]:
  "raised (s\<lparr>h_test_key := a\<rparr>) k = raised s k" "raised (s\<lparr>h_test_armed := b\<rparr>) k = raised s k"
  "raised (s\<lparr>h_test_pending_clear := a\<rparr>) k = raised s k" "raised (s\<lparr>h_test_deadline_ms := d\<rparr>) k = raised s k"
  "raised (s\<lparr>h_locks := l\<rparr>) k = raised s k"
  by (simp_all add: raised_def health_lookup_def)

lemma test_key_not_empty [simp]: "\<not> test_key_ok ''''"
  by (simp add: test_key_ok_def)

lemma report_ex_raised:
  assumes "espos_health_report_ex n (Some k) st (Some m) f s = (err, s')"
  shows "raised s' j = (if err = ESP_OK \<and> j = k then st \<noteq> ESPOS_HEALTH_NORMAL else raised s j)"
  by (simp add: raised_def report_ex_lookup [OF assms])

lemma report_ex_keeps:
  assumes "espos_health_report_ex n (Some k) st (Some m) f s = (err, s')"
  shows "h_test_key s' = h_test_key s" "h_test_armed s' = h_test_armed s"
    "h_test_pending_clear s' = h_test_pending_clear s"
  by (metis assms report_ex_frame(1) snd_conv) (metis assms report_ex_frame(2,3) snd_conv)+

lemma flush_pending_clear_result:
  assumes "flush_pending_clear n s = (b, s')"
  shows "h_test_key s' = h_test_key s" and "h_test_armed s' = h_test_armed s"
    and "b \<Longrightarrow> h_test_pending_clear s' = ''''"
    and "raised s' k \<Longrightarrow> raised s k"
    and "h_test_pending_clear s' = h_test_pending_clear s \<or> \<not> raised s' (h_test_pending_clear s)"
proof -
  let ?s = "snd (health_lock s)"
  obtain err t where r: "espos_health_report_ex n (Some (h_test_pending_clear s)) ESPOS_HEALTH_NORMAL (Some '''') 0 ?s = (err, t)"
    by (metis surj_pair)
  note k = report_ex_keeps [OF r, simplified] report_ex_raised [OF r, simplified]
  have s': "s' = ?s \<and> (b \<longrightarrow> h_test_pending_clear s = '''') \<or> s' = t \<and> \<not> b \<or>
      err = ESP_OK \<and> (s' = snd (health_lock t) \<and> \<not> b \<or> s' = snd (health_lock t)\<lparr>h_test_pending_clear := ''''\<rparr>)"
    using assms k by (auto simp: flush_pending_clear_def Let_def split_beta r split: if_splits)
  show "h_test_key s' = h_test_key s" "h_test_armed s' = h_test_armed s"
    "b \<Longrightarrow> h_test_pending_clear s' = ''''" "raised s' k \<Longrightarrow> raised s k"
    "h_test_pending_clear s' = h_test_pending_clear s \<or> \<not> raised s' (h_test_pending_clear s)"
    using s' k by (auto split: if_splits)
qed

lemma flush_tracked [keeps]:
  "drill_tracked s \<Longrightarrow> flush_pending_clear n s = (b, s') \<Longrightarrow> drill_tracked s'"
  unfolding drill_tracked_def by (metis flush_pending_clear_result)

text \<open>Bookkeeping comes before the report, so a raised key is named whatever the locks do.\<close>

lemma drill_book_result:
  assumes "drill_book now key raising ttl s = (previous, s')" and "length key < ESPOS_HEALTH_KEY_MAX"
    and "h_test_pending_clear s = ''''"
  shows "raised s' k = raised s k"
    and "previous = (if h_test_armed s \<and> h_test_key s \<noteq> key then h_test_key s else '''')"
    and "h_test_pending_clear s' = previous"
    and "raising \<Longrightarrow> h_test_armed s' \<and> h_test_key s' = key"
    and "\<not> raising \<Longrightarrow> h_test_key s \<noteq> key \<Longrightarrow> h_test_armed s' = h_test_armed s \<and> h_test_key s' = h_test_key s"
    and "h_locks s' = h_locks s"
  using assms by (auto simp: drill_book_def Let_def split: if_splits)


lemma drill_rollback_result:
  fixes s0 s :: "'k health" and previous
  defines "s' \<equiv> drill_rollback s0 previous s"
  shows "raised s' k = raised s k"
    and "s' = snd (health_lock s) \<and> h_locks s \<noteq> [] \<or> h_test_key s' = h_test_key s0 \<and> h_test_armed s' = h_test_armed s0 \<and>
       (h_test_pending_clear s' = h_test_pending_clear s \<or> h_test_pending_clear s = previous)"
  using health_lock_free [of s] by (auto simp: s'_def drill_rollback_def Let_def split_beta split: if_splits)

lemma clear_previous_tracked:
  assumes "drill_tracked s"
  shows "drill_tracked (drill_clear_previous n previous s)"
proof (cases "previous = ''''")
  case False
  obtain err t where r: "espos_health_report_ex n (Some previous) ESPOS_HEALTH_NORMAL (Some '''') 0 s = (err, t)"
    by (metis surj_pair)
  note k = report_ex_keeps [OF r] report_ex_raised [OF r]
  show ?thesis
    using assms False k by (auto simp: drill_clear_previous_def Let_def split_beta r drill_tracked_def split: if_splits)
qed (use assms in \<open>simp add: drill_clear_previous_def\<close>)

lemma drill_transition_tracked:
  assumes "drill_tracked s" and "length key < ESPOS_HEALTH_KEY_MAX"
    and "st \<noteq> ESPOS_HEALTH_NORMAL \<or> h_locks s = []"
  shows "drill_tracked (snd (drill_transition n now key st message ttl s))"
proof -
  obtain b s1 where f: "flush_pending_clear n s = (b, s1)" by (metis surj_pair)
  have t1: "drill_tracked s1" by (rule flush_tracked [OF assms(1) f])
  have free: "h_locks s1 = []" if "h_locks s = []"
    using that f by (auto simp: flush_pending_clear_def Let_def split_beta split: if_splits)
  let ?s2 = "snd (health_lock s1)"
  have t2: "drill_tracked ?s2" using t1 by (simp add: drill_tracked_def)
  obtain previous s3 where bk: "drill_book now key (st \<noteq> ESPOS_HEALTH_NORMAL) ttl ?s2 = (previous, s3)"
    by (metis surj_pair)
  obtain err s4 where r: "espos_health_report_ex n (Some key) st
      (Some (case message of None \<Rightarrow> '''' | Some m \<Rightarrow> m)) 0 s3 = (err, s4)" by (metis surj_pair)
  show ?thesis
  proof (cases "b \<and> fst (health_lock s1)")
    case False
    then show ?thesis using t1 t2 by (auto simp: drill_transition_def Let_def split_beta f)
  next
    case True
    have p2: "h_test_pending_clear ?s2 = ''''" using flush_pending_clear_result(3) [OF f] True by simp
    note B = drill_book_result [OF bk assms(2) p2]
    note R = report_ex_keeps [OF r] report_ex_raised [OF r]
    have eq: "snd (drill_transition n now key st message ttl s) =
        (if err \<noteq> ESP_OK then drill_rollback ?s2 previous s4 else drill_clear_previous n previous s4)"
      using True by (simp add: drill_transition_def Let_def split_beta f bk r)
    have own: "h_test_armed ?s2 \<and> h_test_key ?s2 = k" if "test_key_ok k" "raised ?s2 k" for k
      using t2 p2 that by (auto simp: drill_tracked_def)
    show ?thesis
    proof (cases "err = ESP_OK")
      case ok: True
      have "drill_tracked s4" unfolding drill_tracked_def
        using B R own ok by (smt (verit))
      then show ?thesis using ok by (simp add: eq clear_previous_tracked)
    next
      case bad: False
      let ?s5 = "drill_rollback ?s2 previous s4"
      have same: "raised ?s5 k = raised ?s2 k" for k
        using drill_rollback_result(1) [of ?s2 previous s4] R B(1) bad by simp
      have free4: "h_locks s4 = []" if "h_locks s = []"
        using free [OF that] B(6) report_ex_frame(6) [of s3] by (metis r health_lock_free snd_conv)
      have "drill_tracked ?s5"
        unfolding drill_tracked_def same
      proof (intro allI impI)
        fix k assume "test_key_ok k \<and> raised ?s2 k"
        then have k: "h_test_armed ?s2 \<and> h_test_key ?s2 = k" using own by blast
        show "h_test_armed ?s5 \<and> h_test_key ?s5 = k \<or> h_test_pending_clear ?s5 = k"
          using drill_rollback_result(2) [of ?s2 previous s4]
        proof
          assume lost: "?s5 = snd (health_lock s4) \<and> h_locks s4 \<noteq> []"
          then have "st \<noteq> ESPOS_HEALTH_NORMAL" using free4 assms(3) by blast
          then show ?thesis using lost k B(2,3,4) R by auto
        qed (use k in auto)
      qed
      then show ?thesis using bad by (simp add: eq)
    qed
  qed
qed


lemma report_test_tracked [keeps]:
  assumes "drill_tracked s" and "st \<noteq> ESPOS_HEALTH_NORMAL \<or> h_locks s = []"
  shows "drill_tracked (snd (espos_health_report_test n held now key st m ttl s))"
  using assms by (auto simp: espos_health_report_test_def drill_transition_tracked split: option.splits)

lemma test_expire_tracked [keeps]:
  assumes "drill_tracked s"
  shows "drill_tracked (snd (espos_health_test_expire n held now s))"
proof -
  obtain b s1 where f: "flush_pending_clear n s = (b, s1)" by (metis surj_pair)
  have t1: "drill_tracked s1" by (rule flush_tracked [OF assms f])
  let ?s2 = "snd (health_lock s1)"
  obtain err t where r: "espos_health_report_ex n (Some (h_test_key ?s2)) ESPOS_HEALTH_NORMAL (Some '''') 0 ?s2 = (err, t)"
    by (metis surj_pair)
  note R = report_ex_keeps [OF r] report_ex_raised [OF r]
  have t2: "drill_tracked ?s2" using t1 by (simp add: drill_tracked_def)
  have "drill_tracked t" using t2 R unfolding drill_tracked_def by (simp split: if_splits)
  moreover have "drill_tracked (snd (health_lock t)\<lparr>h_test_armed := False, h_test_key := ''''\<rparr>)" if "err = ESP_OK"
    using t2 R that unfolding drill_tracked_def by (simp split: if_splits) blast
  moreover have "drill_tracked (snd (health_lock t))" using calculation(1) by (simp add: drill_tracked_def)
  ultimately show ?thesis
    using assms t1 t2 r by (simp add: espos_health_test_expire_def Let_def split_beta f)
qed

lemma report_ordinary_tracked [keeps]:
  assumes "drill_tracked s" and "\<not> test_key_ok k"
  shows "drill_tracked (snd (espos_health_report_ex n (Some k) st (Some m) f s))"
proof -
  obtain err t where r: "espos_health_report_ex n (Some k) st (Some m) f s = (err, t)" by (metis surj_pair)
  show ?thesis
    using assms report_ex_keeps [OF r] report_ex_raised [OF r] by (auto simp: r drill_tracked_def)
qed

subsection \<open>Runs of calls\<close>

text \<open>A call of the interface, and a step: the call with the outcomes of the locks it will take.\<close>

datatype health_call =
    Report string espos_health_state string u32
  | Report_Test string espos_health_state "string option" u32
  | Test_Expire
  | Reset

fun health_step :: "nat \<Rightarrow> 'k health \<Rightarrow> bool list \<times> bool \<times> u32 \<times> health_call \<Rightarrow> 'k health" where
  "health_step n s (locks, held, now, Report k st m f) =
     snd (espos_health_report_ex n (Some k) st (Some m) f (s\<lparr>h_locks := locks\<rparr>))"
| "health_step n s (locks, held, now, Report_Test k st m ttl) =
     snd (espos_health_report_test n held now (Some k) st m ttl (s\<lparr>h_locks := locks\<rparr>))"
| "health_step n s (locks, held, now, Test_Expire) =
     snd (espos_health_test_expire n held now (s\<lparr>h_locks := locks\<rparr>))"
| "health_step n s (locks, held, now, Reset) = espos_health_reset (s\<lparr>h_locks := locks\<rparr>)"

text \<open>
  The calls whose drills are accounted for: reports of its own keys by the firmware, and drill
  transitions; a transition that ends a drill gets its locks.
\<close>

fun drill_call :: "bool list \<times> bool \<times> u32 \<times> health_call \<Rightarrow> bool" where
  "drill_call (locks, held, now, Report k st m f) = (\<not> test_key_ok k)"
| "drill_call (locks, held, now, Report_Test k st m ttl) = (st \<noteq> ESPOS_HEALTH_NORMAL \<or> locks = [])"
| "drill_call (locks, held, now, _) = True"

definition health_zero :: "'k health" where
  "health_zero = \<lparr>h_cond = [], h_sink = [], h_test_key = '''', h_test_deadline_ms = 0, h_test_armed = False,
     h_test_pending_clear = '''', h_locks = [], h_calls = []\<rparr>"

lemma drill_tracked_zero: "drill_tracked health_zero"
  by (simp add: health_zero_def drill_tracked_def raised_def health_lookup_def)

lemma drill_tracked_locks [simp]: "drill_tracked (s\<lparr>h_locks := l\<rparr>) = drill_tracked s"
  by (simp add: drill_tracked_def)

lemma health_reset_tracked [keeps]: "drill_tracked s \<Longrightarrow> drill_tracked (espos_health_reset s)"
  by (simp add: espos_health_reset_def Let_def split_beta drill_tracked_def raised_empty)

lemma health_step_tracked:
  "drill_tracked s \<Longrightarrow> drill_call c \<Longrightarrow> drill_tracked (health_step n s c)"
  by (cases c rule: drill_call.cases)
    (simp_all add: report_ordinary_tracked report_test_tracked test_expire_tracked health_reset_tracked)


text \<open>The running and the outstanding drill of any sequence of accounted calls.\<close>

interpretation drills: guarded_machine "health_step n" drill_call drill_tracked
  by unfold_locales (rule health_step_tracked)

text \<open>
  C21. In any sequence of calls in which the firmware's own reports keep off the drills' keys and a call that ends a drill
  by hand gets its locks, a drill that is still raised is either the one running, which its deadline will end, or the one
  the next expiry pass clears; the locks of a call that starts a drill, of an expiry pass and of a report may time out.
\<close>

theorem health_no_orphan_drill:
  assumes "list_all drill_call calls" and "s = foldl (health_step n) health_zero calls"
    and "test_key_ok k" and "raised s k"
  shows "h_test_armed s \<and> h_test_key s = k \<or> h_test_pending_clear s = k"
  using drills.guarded_run [OF drill_tracked_zero assms(1)] assms(2-4) unfolding drill_tracked_def by blast

text \<open>The previous drill's clear fails twice on a lock; its key stays named by the pending slot.\<close>

definition drill_script :: "(bool list \<times> bool \<times> u32 \<times> health_call) list" where
  "drill_script =
     [([], True, 0, Report ''mem'' ESPOS_HEALTH_WARN ''low'' 1),
      ([], True, 10, Report_Test ''test.a'' ESPOS_HEALTH_ALARM None 1000),
      ([True, True, True, True, False], True, 20, Report_Test ''test.b'' ESPOS_HEALTH_WARN None 1000),
      ([False], True, 30, Test_Expire)]"

theorem health_no_orphan_drill_witness:
  "raised (foldl (health_step 4) (health_zero :: nat health) drill_script) ''test.a'' \<and>
   h_test_pending_clear (foldl (health_step 4) (health_zero :: nat health) drill_script) = ''test.a''"
proof -
  have h: "list_all drill_call drill_script" "test_key_ok ''test.a''"
    "raised (foldl (health_step 4) (health_zero :: nat health) drill_script) ''test.a''"
    "h_test_key (foldl (health_step 4) (health_zero :: nat health) drill_script) = ''test.b''"
    by code_simp+
  show ?thesis using health_no_orphan_drill [OF h(1) refl h(2,3)] h(3,4) by simp
qed

text \<open>
  The condition the previous property puts on a call that ends a drill is needed: when the
  report of NORMAL and then the rollback's lock both time out, the drill's key stays raised and
  neither the running key nor the pending slot names it, so no expiry pass ever clears it.
\<close>

theorem health_clear_can_orphan_drill:
  "(let s = health_step 4 (health_zero :: nat health) ([], True, 0, Report_Test ''test.a'' ESPOS_HEALTH_ALARM None 1000);
        t = health_step 4 s ([True, True, False, False], True, 10, Report_Test ''test.a'' ESPOS_HEALTH_NORMAL None 0);
        u = health_step 4 t ([], True, 5000, Test_Expire)
    in raised t ''test.a'' \<and> \<not> h_test_armed t \<and> h_test_key t = '''' \<and> h_test_pending_clear t = '''' \<and>
       raised u ''test.a'')"
  by code_simp

subsection \<open>Reports, seen from outside\<close>

definition report_refusal :: "string option \<Rightarrow> espos_health_state \<Rightarrow> string option \<Rightarrow> u32 \<Rightarrow> esp_err option" where
  "report_refusal key st message flags =
     (if key = None \<or> key = Some '''' \<or> flags \<notin> {0, ESPOS_HEALTH_F_REBOOT_ON_ALARM} then Some ESP_ERR_INVALID_ARG
      else if ESPOS_HEALTH_KEY_MAX \<le> length (the key) \<or>
              ESPOS_HEALTH_MSG_MAX \<le> length (case message of None \<Rightarrow> '''' | Some m \<Rightarrow> m)
      then Some ESP_ERR_INVALID_SIZE
      else if st = ESPOS_HEALTH_INVALID then Some ESP_ERR_INVALID_ARG else None)"

lemma flags_mask: "(f :: u32) AND - 2 = 0 \<longleftrightarrow> f \<in> {0, 1}"
proof
  assume "f AND - 2 = 0"
  then have *: "f AND NOT 1 = 0" by simp
  have "f = f AND 1"
  proof (rule bit_word_eqI)
    fix n assume "n < LENGTH(32)"
    have "\<not> bit (f AND NOT 1) n" unfolding * by simp
    then show "bit f n = bit (f AND 1) n"
      using \<open>n < LENGTH(32)\<close> by (auto simp: bit_simps)
  qed
  also have "f AND 1 = of_bool (odd f)" by (simp add: and_one_eq mod_2_eq_odd)
  finally show "f \<in> {0, 1}" by (cases "odd f") auto
qed auto

lemma health_report_refused:
  "report_refusal key st m f = Some e \<Longrightarrow> espos_health_report_ex n key st m f s = (e, s)"
  by (auto simp: report_refusal_def espos_health_report_ex_def Let_def flags_mask split: if_splits option.splits)

lemma health_report_accepted:
  assumes "report_refusal (Some k) st (Some m) f = None" and "h_locks s = []"
  shows "fst (espos_health_report_ex n (Some k) st (Some m) f s) =
     (if health_lookup s k = None \<and> n \<le> length (h_cond s) then ESP_ERR_NO_MEM else ESP_OK)"
  using assms
  by (auto simp: report_refusal_def espos_health_report_ex_def Let_def flags_mask record_condition_def
      split_beta health_lookup_def split: if_splits option.splits)

text \<open>A table whose locks are free: a report that repeats the last one tells no sink.\<close>

lemma record_condition_repeat:
  assumes "find_cond k cs = Some i" and "hc_state (cs ! i) = st" and "hc_message (cs ! i) = m"
  shows "fst (snd (record_condition n k st m f cs)) = False"
  using assms by (simp add: record_condition_def)

lemma report_repeat_quiet:
  assumes "health_lookup s k = Some c" and "hc_state c = st" and "hc_message c = m"
  shows "h_calls (snd (espos_health_report_ex n (Some k) st (Some m) f s)) = h_calls s"
proof -
  obtain i where "find_cond k (h_cond s) = Some i" "h_cond s ! i = c"
    using assms(1) by (auto simp: health_lookup_def)
  then have "fst (snd (record_condition n k st m f (h_cond s))) = False"
    using assms record_condition_repeat by blast
  then show ?thesis
    by (simp add: espos_health_report_ex_def Let_def split_beta)
qed


subsection \<open>The table as a service\<close>

text \<open>
  What a client of the condition table relies on: \<open>report\<close> sets one key or nothing, a key
  that is known is always accepted, and \<open>fatal\<close> finds a condition that is fatal when there
  is one. \<open>ok\<close> is the provider's invariant.
\<close>

locale condition_table =
  fixes report :: "'c \<Rightarrow> string \<Rightarrow> espos_health_state \<Rightarrow> string \<Rightarrow> u32 \<Rightarrow> esp_err \<times> 'c"
    and fatal :: "'c \<Rightarrow> health_condition option \<times> 'c"
    and cond :: "'c \<Rightarrow> string \<Rightarrow> health_condition option"
    and ok :: "'c \<Rightarrow> bool"
  assumes report_keeps_ok: "ok c \<Longrightarrow> ok (snd (report c k st m f))"
    and report_sets: "ok c \<Longrightarrow> cond (snd (report c k st m f)) =
      (if fst (report c k st m f) = ESP_OK
       then (cond c)(k \<mapsto> \<lparr>hc_key = k, hc_state = st, hc_message = m, hc_flags = f\<rparr>) else cond c)"
    and report_known: "ok c \<Longrightarrow> cond c k \<noteq> None \<Longrightarrow> report_refusal (Some k) st (Some m) f = None \<Longrightarrow>
      fst (report c k st m f) = ESP_OK"
    and fatal_keeps: "ok c \<Longrightarrow> cond (snd (fatal c)) = cond c \<and> ok (snd (fatal c))"
    and fatal_none: "ok c \<Longrightarrow> fst (fatal c) = None \<longleftrightarrow> (\<forall>k x. cond c k = Some x \<longrightarrow> \<not> fatal_cond x)"
    and fatal_some: "ok c \<Longrightarrow> fst (fatal c) = Some x \<Longrightarrow> cond c (hc_key x) = Some x \<and> fatal_cond x"
begin

text \<open>A known key reported as a fatal alarm is found, whatever else the table holds.\<close>

lemma fatal_after_report:
  assumes "ok c" and "cond c k \<noteq> None" and "report_refusal (Some k) ESPOS_HEALTH_ALARM (Some m) 1 = None"
  shows "fst (fatal (snd (report c k ESPOS_HEALTH_ALARM m 1))) \<noteq> None"
proof -
  let ?c = "snd (report c k ESPOS_HEALTH_ALARM m 1)"
  have "cond ?c k = Some \<lparr>hc_key = k, hc_state = ESPOS_HEALTH_ALARM, hc_message = m, hc_flags = 1\<rparr>"
    using report_sets [OF assms(1)] report_known [OF assms] by simp
  moreover have "fatal_cond \<lparr>hc_key = k, hc_state = ESPOS_HEALTH_ALARM, hc_message = m, hc_flags = 1\<rparr>"
    by (simp add: fatal_cond_def)
  ultimately show ?thesis using fatal_none [OF report_keeps_ok [OF assms(1)]] by blast
qed

end

lemma health_lookup_set:
  assumes "health_inv n s"
  shows "health_lookup s k = Some c \<longleftrightarrow> c \<in> set (h_cond s) \<and> hc_key c = k"
proof
  assume "health_lookup s k = Some c"
  then show "c \<in> set (h_cond s) \<and> hc_key c = k"
    using find_cond_some [of k "h_cond s"] by (auto simp: health_lookup_def)
next
  assume c: "c \<in> set (h_cond s) \<and> hc_key c = k"
  then obtain i where i: "find_cond k (h_cond s) = Some i"
    using find_cond_none [of k "h_cond s"] by (cases "find_cond k (h_cond s)") auto
  have "h_cond s ! i = c"
    using c find_cond_some [OF i] assms unfolding health_inv_def
    by (metis distinct_map inj_on_eq_iff nth_mem)
  then show "health_lookup s k = Some c" by (simp add: health_lookup_def i)
qed

lemma health_locks_free:
  "h_locks s = [] \<Longrightarrow> h_locks (snd (espos_health_report_ex n k st m f s)) = []"
  by (rule report_ex_frame(6))

interpretation table: condition_table
  "\<lambda>s k st m f. espos_health_report_ex n (Some k) st (Some m) f s" espos_health_fatal_alarm health_lookup
  "\<lambda>s. health_inv n s \<and> h_locks s = []"
proof (unfold_locales, goal_cases)
  case (1 c k st m f)
  then show ?case by (metis report_ex_inv health_locks_free prod.collapse)
next
  case (2 c k st m f)
  show ?case using report_ex_lookup [OF prod.collapse [symmetric]] by blast
next
  case (3 c k st m f)
  then show ?case by (simp add: health_report_accepted)
next
  case (4 c)
  then show ?case by (simp add: espos_health_fatal_alarm_def)
next
  case (5 c)
  then show ?case
    by (auto simp: espos_health_fatal_alarm_def find_None_iff health_lookup_set)
next
  case (6 c x)
  then show ?case
    using health_lookup_set [of n c "hc_key x" x] by (auto simp: espos_health_fatal_alarm_def find_Some_iff in_set_conv_nth)
qed


text \<open>
  What a report does, on every branch, when the lock is free: an argument that breaks the
  limits is refused with its code and nothing changes; a key the table does not know is refused
  when the table is full; otherwise exactly that key's condition is set.
\<close>

theorem health_report_law:
  assumes "h_locks s = []" and "espos_health_report_ex n key st m f s = (err, s')"
  shows "case report_refusal key st m f of
           Some e \<Rightarrow> err = e \<and> s' = s
         | None \<Rightarrow>
             if health_lookup s (the key) = None \<and> n \<le> length (h_cond s)
             then err = ESP_ERR_NO_MEM \<and> health_lookup s' = health_lookup s
             else err = ESP_OK \<and> health_lookup s' = (health_lookup s)(the key \<mapsto>
                    \<lparr>hc_key = the key, hc_state = st, hc_message = (case m of None \<Rightarrow> '''' | Some x \<Rightarrow> x), hc_flags = f\<rparr>)"
proof (cases "report_refusal key st m f")
  case None
  then obtain k where k: "key = Some k" by (cases key) (auto simp: report_refusal_def)
  define x where "x = (case m of None \<Rightarrow> '''' | Some x \<Rightarrow> x)"
  have "espos_health_report_ex n key st m f s = espos_health_report_ex n key st (Some x) f s"
    by (simp add: espos_health_report_ex_def x_def split: option.splits)
  then have r: "espos_health_report_ex n (Some k) st (Some x) f s = (err, s')" using assms(2) k by simp
  have "report_refusal (Some k) st (Some x) f = None"
    using None k by (simp add: report_refusal_def x_def split: if_splits)
  from health_report_accepted [OF this assms(1), of n] report_ex_lookup [OF r] show ?thesis
    using None k r by (simp add: x_def split: if_splits)
qed (use assms health_report_refused [of key st m f _ n s] in auto)

text \<open>A first report at a table with room, one at a full table, and one with a key too long.\<close>

theorem health_report_law_witness:
  "(let (e1, s1) = espos_health_report_ex 1 (Some ''mem'') ESPOS_HEALTH_WARN None 0 (health_zero :: nat health);
        (e2, s2) = espos_health_report_ex 1 (Some ''disk'') ESPOS_HEALTH_WARN None 0 s1
    in e1 = ESP_OK \<and> e2 = ESP_ERR_NO_MEM \<and> health_lookup s2 = health_lookup s1)"
proof -
  obtain e1 s1 where r1: "espos_health_report_ex 1 (Some ''mem'') ESPOS_HEALTH_WARN None 0 (health_zero :: nat health) = (e1, s1)"
    by (metis surj_pair)
  obtain e2 s2 where r2: "espos_health_report_ex 1 (Some ''disk'') ESPOS_HEALTH_WARN None 0 s1 = (e2, s2)"
    by (metis surj_pair)
  have f: "h_locks s1 = []" using r1 by (auto simp: espos_health_report_ex_def health_zero_def
      record_condition_def fan_out_def health_lock_def)
  have c: "length (h_cond s1) = 1" using r1 by (auto simp: espos_health_report_ex_def health_zero_def
      record_condition_def fan_out_def health_lock_def)
  have "e1 = ESP_OK \<and> health_lookup s1 ''disk'' = None"
    using health_report_law [OF _ r1] by (simp add: report_refusal_def health_zero_def health_lookup_def)
  with health_report_law [OF f r2] show ?thesis
    using c by (simp add: report_refusal_def r1 [simplified] r2 [simplified])
qed

text \<open>
  Repeating a report that was taken tells no sink, even with other flags: a condition that
  holds is announced once.
\<close>

theorem health_repeat_is_quiet:
  assumes "espos_health_report_ex n (Some k) st (Some m) f s = (ESP_OK, s')"
  shows "h_calls (snd (espos_health_report_ex n (Some k) st (Some m) f' s')) = h_calls s'"
  using report_ex_lookup [OF assms] by (intro report_repeat_quiet) auto

theorem health_repeat_is_quiet_witness:
  "h_calls (snd (espos_health_report_ex 4 (Some ''mem'') ESPOS_HEALTH_WARN (Some ''low'') 1
     (snd (espos_health_report_ex 4 (Some ''mem'') ESPOS_HEALTH_WARN (Some ''low'') 0 (health_zero\<lparr>h_sink := [7 :: nat]\<rparr>)))))
   = [(7, ''mem'', ESPOS_HEALTH_WARN, ''low'')]"
proof -
  let ?s = "snd (espos_health_report_ex 4 (Some ''mem'') ESPOS_HEALTH_WARN (Some ''low'') 0 (health_zero\<lparr>h_sink := [7 :: nat]\<rparr>))"
  have "fst (espos_health_report_ex 4 (Some ''mem'') ESPOS_HEALTH_WARN (Some ''low'') 0 (health_zero\<lparr>h_sink := [7 :: nat]\<rparr>)) = ESP_OK"
    "h_calls ?s = [(7, ''mem'', ESPOS_HEALTH_WARN, ''low'')]"
    by code_simp+
  then show ?thesis
    using health_repeat_is_quiet [of 4 "''mem''" ESPOS_HEALTH_WARN "''low''" 0 "health_zero\<lparr>h_sink := [7 :: nat]\<rparr>" ?s 1]
    by (simp add: prod_eq_iff)
qed

end
