(* ===== verification/Health_Policy.thy ===== *)
theory Health_Policy
  imports Health_Table "HOL-Library.Sublist"
begin

text \<open>
  The watchdog policy of src/components/espos_health/src/health_policy.c: the rule for low
  memory, the low-water mark, the watched tasks and the tick that counts strikes. The port is
  a record of functions on its own context; a task's identity is a value of type \<open>'t\<close>, the
  NULL of a free slot is \<open>None\<close>. Message buffers of the C code are passed as their size,
  \<open>None\<close> for a NULL pointer.

  The strike counting refines an automaton with two fields, and a table that keeps the contract
  of \<open>condition_table\<close> makes a persisting fatal condition restart the device.
\<close>

subsection \<open>Data\<close>

abbreviation (input) RECORD_MAGIC :: u32 where "RECORD_MAGIC \<equiv> 0x6865616C"
abbreviation (input) ESPOS_HEALTH_TASK_NAME_MAX :: nat where "ESPOS_HEALTH_TASK_NAME_MAX \<equiv> 16"

record health_heap =
  hh_total_free :: u32
  hh_total_min :: u32
  hh_internal_free :: u32
  hh_internal_min :: u32
  hh_largest_block :: u32

record health_policy_cfg =
  hk_strikes :: u32
  hk_heap_warn_kb :: u32
  hk_internal_warn_kb :: u32
  hk_internal_alarm_kb :: u32
  hk_largest_block_alarm_kb :: u32
  hk_internal_trough_warn_kb :: u32

record reset_record =
  rr_magic :: u32
  rr_key :: string
  rr_message :: string
  rr_min_free_heap :: u32
  rr_min_internal :: u32
  rr_largest_block :: u32
  rr_uptime_s :: u32
  rr_unix_ms :: u64

record 'c health_policy_port =
  hp_now_ms :: "'c clock"
  hp_uptime_s :: "'c clock"
  hp_unix_ms :: "'c \<Rightarrow> u64 \<times> 'c"
  hp_heap :: "'c \<Rightarrow> health_heap \<times> 'c"
  hp_report :: "'c \<Rightarrow> string \<Rightarrow> espos_health_state \<Rightarrow> string \<Rightarrow> u32 \<Rightarrow> esp_err \<times> 'c"
  hp_fatal_alarm :: "'c \<Rightarrow> health_condition option \<times> 'c"
  hp_store_record :: "'c \<Rightarrow> reset_record \<Rightarrow> 'c"
  hp_restart :: "'c \<Rightarrow> 'c"

record 't watched =
  w_task :: "'t option"
  w_name :: string
  w_timeout_ms :: u32
  w_last_kick_ms :: u32

text \<open>\<open>p_has_port\<close> is \<open>p->port != NULL\<close>: false until the policy is initialised.\<close>

record ('c, 't) health_policy =
  p_has_port :: bool
  p_ctx :: 'c
  p_cfg :: health_policy_cfg
  p_strikes :: u32
  p_ticks :: u32
  p_restarting :: bool
  p_fatal :: health_condition
  p_watched :: "'t watched list"
  p_ever_watched :: bool

definition watched_zero :: "'t watched" where
  "watched_zero = \<lparr>w_task = None, w_name = '''', w_timeout_ms = 0, w_last_kick_ms = 0\<rparr>"

definition condition_zero :: health_condition where
  "condition_zero = \<lparr>hc_key = '''', hc_state = ESPOS_HEALTH_NORMAL, hc_message = '''', hc_flags = 0\<rparr>"

definition espos_health_policy_init :: "nat \<Rightarrow> 'c \<Rightarrow> health_policy_cfg \<Rightarrow> ('c, 't) health_policy" where
  "espos_health_policy_init maxw ctx cfg =
     \<lparr>p_has_port = True, p_ctx = ctx,
      p_cfg = (if hk_strikes cfg = 0 then cfg\<lparr>hk_strikes := 1\<rparr> else cfg),
      p_strikes = 0, p_ticks = 0, p_restarting = False, p_fatal = condition_zero,
      p_watched = replicate maxw watched_zero, p_ever_watched = False\<rparr>"

subsection \<open>The rules on memory\<close>

text \<open>\<open>snprintf\<close> into the caller's buffer, if there is one.\<close>

definition msg_out :: "nat option \<Rightarrow> string \<Rightarrow> string option" where
  "msg_out room m = (case room of None \<Rightarrow> None | Some n \<Rightarrow> if n = 0 then None else Some (cbuf n m))"

definition below_kb :: "u32 \<Rightarrow> u32 \<Rightarrow> bool" where
  "below_kb v kb \<longleftrightarrow> v < kb * 1024"

definition dec_of_u32 :: "u32 \<Rightarrow> string" where
  "dec_of_u32 w = dec_of_nat (unat w)"

text \<open>Alarms first, then warnings; the message names the threshold, never the live figure.\<close>

definition memory_rule :: "health_policy_cfg \<Rightarrow> health_heap \<Rightarrow> espos_health_state \<times> u32 \<times> string" where
  "memory_rule cfg h =
     (if hk_internal_alarm_kb cfg \<noteq> 0 \<and> below_kb (hh_internal_free h) (hk_internal_alarm_kb cfg) then
        (ESPOS_HEALTH_ALARM, ESPOS_HEALTH_F_REBOOT_ON_ALARM,
         cbuf ESPOS_HEALTH_MSG_MAX (''internal RAM exhausted (below '' @ dec_of_u32 (hk_internal_alarm_kb cfg) @ '' KB free)''))
      else if hk_largest_block_alarm_kb cfg \<noteq> 0 \<and> below_kb (hh_largest_block h) (hk_largest_block_alarm_kb cfg) then
        (let low = (hk_internal_warn_kb cfg \<noteq> 0 \<and> below_kb (hh_internal_free h) (hk_internal_warn_kb cfg)) \<or>
                   below_kb (hh_internal_free h) (hk_largest_block_alarm_kb cfg)
         in (ESPOS_HEALTH_ALARM, ESPOS_HEALTH_F_REBOOT_ON_ALARM,
             cbuf ESPOS_HEALTH_MSG_MAX (''internal RAM '' @ (if low then ''low'' else ''fragmented'') @
               '' (largest block below '' @ dec_of_u32 (hk_largest_block_alarm_kb cfg) @ '' KB)'')))
      else if hk_internal_warn_kb cfg \<noteq> 0 \<and> below_kb (hh_internal_free h) (hk_internal_warn_kb cfg) then
        (ESPOS_HEALTH_WARN, 0,
         cbuf ESPOS_HEALTH_MSG_MAX (''internal RAM low (below '' @ dec_of_u32 (hk_internal_warn_kb cfg) @ '' KB free)''))
      else if hk_heap_warn_kb cfg \<noteq> 0 \<and> below_kb (hh_total_free h) (hk_heap_warn_kb cfg) then
        (ESPOS_HEALTH_WARN, 0,
         cbuf ESPOS_HEALTH_MSG_MAX (''heap low (below '' @ dec_of_u32 (hk_heap_warn_kb cfg) @ '' KB free)''))
      else (ESPOS_HEALTH_NORMAL, 0, ''''))"

definition espos_health_policy_memory ::
  "health_policy_cfg \<Rightarrow> health_heap \<Rightarrow> nat option \<Rightarrow> espos_health_state \<times> string option \<times> u32" where
  "espos_health_policy_memory cfg h room = (let (st, f, m) = memory_rule cfg h in (st, msg_out room m, f))"

definition espos_health_policy_trough ::
  "health_policy_cfg \<Rightarrow> health_heap \<Rightarrow> nat option \<Rightarrow> espos_health_state \<times> string option" where
  "espos_health_policy_trough cfg h room =
     (if hk_internal_trough_warn_kb cfg \<noteq> 0 \<and> below_kb (hh_internal_min h) (hk_internal_trough_warn_kb cfg) then
        (ESPOS_HEALTH_WARN, msg_out room (cbuf ESPOS_HEALTH_MSG_MAX
           (''internal RAM low-water mark below '' @ dec_of_u32 (hk_internal_trough_warn_kb cfg) @ '' KB since boot'')))
      else (ESPOS_HEALTH_NORMAL, msg_out room ''''))"

subsection \<open>Watched tasks\<close>

text \<open>A stamp in the future means alive: its age is zero.\<close>

definition kick_age :: "u32 \<Rightarrow> 't watched \<Rightarrow> u32" where
  "kick_age now w = (if sint (now - w_last_kick_ms w) < 0 then 0 else now - w_last_kick_ms w)"

fun find_stalled :: "u32 \<Rightarrow> 't watched list \<Rightarrow> 't watched option \<times> u32 \<Rightarrow> 't watched option \<times> u32" where
  "find_stalled now [] acc = acc"
| "find_stalled now (w # ws) (stalled, worst_age) =
     (if w_task w = None then find_stalled now ws (stalled, worst_age)
      else if w_timeout_ms w < kick_age now w \<and> worst_age \<le> kick_age now w
      then find_stalled now ws (Some w, kick_age now w)
      else find_stalled now ws (stalled, worst_age))"

definition policy_report ::
  "'c health_policy_port \<Rightarrow> string \<Rightarrow> espos_health_state \<Rightarrow> string \<Rightarrow> u32 \<Rightarrow> ('c, 't) health_policy \<Rightarrow> ('c, 't) health_policy" where
  "policy_report port key st m f p = p\<lparr>p_ctx := snd (hp_report port (p_ctx p) key st m f)\<rparr>"

definition stall_message :: "'t watched \<Rightarrow> u32 \<Rightarrow> string" where
  "stall_message w age = cbuf ESPOS_HEALTH_MSG_MAX
     (w_name w @ '' silent for '' @ dec_of_u32 (age div 1000) @ '' s (limit '' @ dec_of_u32 (w_timeout_ms w div 1000) @ '' s)'')"

definition check_tasks :: "'c health_policy_port \<Rightarrow> u32 \<Rightarrow> ('c, 't) health_policy \<Rightarrow> ('c, 't) health_policy" where
  "check_tasks port now p =
     (case find_stalled now (p_watched p) (None, 0) of
        (Some w, worst_age) \<Rightarrow>
          policy_report port ''taskStalled'' ESPOS_HEALTH_ALARM (stall_message w worst_age)
            ESPOS_HEALTH_F_REBOOT_ON_ALARM p
      | (None, _) \<Rightarrow>
          policy_report port ''taskStalled'' ESPOS_HEALTH_NORMAL '''' ESPOS_HEALTH_F_REBOOT_ON_ALARM p)"

subsection \<open>The tick\<close>

text \<open>The reports of a tick; the heap reading is kept for the record.\<close>

definition tick_reports ::
  "'c health_policy_port \<Rightarrow> ('c, 't) health_policy \<Rightarrow> health_heap \<times> ('c, 't) health_policy" where
  "tick_reports port p =
     (let p = p\<lparr>p_ticks := p_ticks p + 1\<rparr>;
          (now, c) = hp_now_ms port (p_ctx p);
          (h, c) = hp_heap port c;
          p = p\<lparr>p_ctx := c\<rparr>;
          (st, msg, flags) = espos_health_policy_memory (p_cfg p) h (Some ESPOS_HEALTH_MSG_MAX);
          p = policy_report port ''lowMemory'' st (the msg) flags p;
          (tst, trough_msg) = espos_health_policy_trough (p_cfg p) h (Some ESPOS_HEALTH_MSG_MAX);
          p = policy_report port ''memoryTrough'' tst (the trough_msg) 0 p
      in (h, if p_ever_watched p then check_tasks port now p else p))"

definition tick_restart ::
  "'c health_policy_port \<Rightarrow> health_heap \<Rightarrow> health_condition \<Rightarrow> ('c, 't) health_policy \<Rightarrow> ('c, 't) health_policy" where
  "tick_restart port h c p =
     (let (up, ctx) = hp_uptime_s port (p_ctx p);
          (unix, ctx) = hp_unix_ms port ctx;
          rec = \<lparr>rr_magic = RECORD_MAGIC, rr_key = cbuf ESPOS_HEALTH_KEY_MAX (hc_key c),
                 rr_message = take 63 (hc_message c), rr_min_free_heap = hh_total_min h,
                 rr_min_internal = hh_internal_min h, rr_largest_block = hh_largest_block h,
                 rr_uptime_s = up, rr_unix_ms = unix\<rparr>;
          ctx = hp_store_record port ctx rec
      in p\<lparr>p_restarting := True, p_ctx := hp_restart port ctx\<rparr>)"

definition tick_count ::
  "'c health_policy_port \<Rightarrow> health_heap \<Rightarrow> ('c, 't) health_policy \<Rightarrow> u32 \<times> ('c, 't) health_policy" where
  "tick_count port h p =
     (let (r, c) = hp_fatal_alarm port (p_ctx p); p = p\<lparr>p_ctx := c\<rparr>
      in case r of
           None \<Rightarrow> (0, p\<lparr>p_strikes := 0\<rparr>)
         | Some c \<Rightarrow>
             (let p = p\<lparr>p_fatal := c, p_strikes := p_strikes p + 1\<rparr>
              in if p_strikes p < hk_strikes (p_cfg p) then (p_strikes p, p)
                 else (let p = tick_restart port h c p in (p_strikes p, p))))"

definition espos_health_policy_tick ::
  "'c health_policy_port \<Rightarrow> ('c, 't) health_policy \<Rightarrow> u32 \<times> ('c, 't) health_policy" where
  "espos_health_policy_tick port p =
     (if p_restarting p then (p_strikes p, p)
      else (let (h, p) = tick_reports port p in tick_count port h p))"

subsection \<open>The registry\<close>

fun find_task :: "'t option \<Rightarrow> 't watched list \<Rightarrow> nat option" where
  "find_task task [] = None"
| "find_task task (w # ws) = (if w_task w = task then Some 0 else map_option Suc (find_task task ws))"

definition espos_health_policy_watch ::
  "'c health_policy_port \<Rightarrow> 't option \<Rightarrow> string option \<Rightarrow> u32 \<Rightarrow> ('c, 't) health_policy \<Rightarrow> esp_err \<times> ('c, 't) health_policy" where
  "espos_health_policy_watch port task name timeout_ms p =
     (if task = None \<or> name = None \<or> name = Some '''' \<or> \<not> p_has_port p then (ESP_ERR_INVALID_ARG, p)
      else case (case find_task task (p_watched p) of Some i \<Rightarrow> Some i | None \<Rightarrow> find_task None (p_watched p)) of
             None \<Rightarrow> (ESP_ERR_NO_MEM, p)
           | Some i \<Rightarrow>
               (let (now, c) = hp_now_ms port (p_ctx p);
                    w = \<lparr>w_task = task, w_name = cbuf ESPOS_HEALTH_TASK_NAME_MAX (the name),
                         w_timeout_ms = timeout_ms, w_last_kick_ms = now\<rparr>
                in (ESP_OK, p\<lparr>p_ctx := c, p_watched := (p_watched p)[i := w], p_ever_watched := True\<rparr>)))"

definition espos_health_policy_unwatch ::
  "'t option \<Rightarrow> ('c, 't) health_policy \<Rightarrow> esp_err \<times> ('c, 't) health_policy" where
  "espos_health_policy_unwatch task p =
     (case (if task = None then None else find_task task (p_watched p)) of
        None \<Rightarrow> (ESP_ERR_NOT_FOUND, p)
      | Some i \<Rightarrow> (ESP_OK, p\<lparr>p_watched := (p_watched p)[i := (p_watched p ! i)\<lparr>w_task := None\<rparr>]\<rparr>))"

definition espos_health_policy_kick ::
  "'c health_policy_port \<Rightarrow> 't option \<Rightarrow> ('c, 't) health_policy \<Rightarrow> ('c, 't) health_policy" where
  "espos_health_policy_kick port task p =
     (if \<not> p_has_port p \<or> task = None then p
      else case find_task task (p_watched p) of
             None \<Rightarrow> p
           | Some i \<Rightarrow>
               (let (now, c) = hp_now_ms port (p_ctx p)
                in p\<lparr>p_ctx := c, p_watched := (p_watched p)[i := (p_watched p ! i)\<lparr>w_last_kick_ms := now\<rparr>]\<rparr>))"

subsection \<open>Strikes\<close>

text \<open>The counting on its own: an automaton on what each tick found.\<close>

fun strike_step :: "nat \<Rightarrow> nat \<times> bool \<Rightarrow> bool \<Rightarrow> nat \<times> bool" where
  "strike_step n (k, restarting) fatal =
     (if restarting then (k, True) else if \<not> fatal then (0, False) else (Suc k, n \<le> Suc k))"

lemma suffix_replicate_snoc:
  "suffix (replicate (Suc m) True) (bs @ [b]) \<longleftrightarrow> b \<and> suffix (replicate m True) bs"
proof -
  have "replicate (Suc m) True = replicate m True @ [True]" by (simp add: replicate_append_same)
  then show ?thesis by (simp only: snoc_suffix_snoc) auto
qed

text \<open>It restarts on the first run of \<open>n\<close> consecutive fatal ticks.\<close>

lemma strike_automaton:
  assumes "0 < n" and "foldl (strike_step n) (0, False) bs = (k, r)"
  shows "r = sublist (replicate n True) bs \<and> (\<not> r \<longrightarrow> k < n \<and> (\<forall>m. suffix (replicate m True) bs = (m \<le> k)))"
  using assms(2)
proof (induction bs arbitrary: k r rule: rev_induct)
  case Nil
  with assms(1) show ?case by auto
next
  case (snoc b bs)
  obtain k' r' where p: "foldl (strike_step n) (0, False) bs = (k', r')" by (metis surj_pair)
  note IH = snoc.IH [OF p]
  obtain m where m: "n = Suc m" using assms(1) gr0_implies_Suc by blast
  have split: "sublist (replicate n True) (bs @ [b]) \<longleftrightarrow> b \<and> suffix (replicate m True) bs \<or> sublist (replicate n True) bs"
    unfolding m sublist_snoc suffix_replicate_snoc ..
  have suf: "suffix (replicate i True) (bs @ [b]) \<longleftrightarrow> i = 0 \<or> b \<and> suffix (replicate (i - 1) True) bs" for i
    by (cases i) (simp_all only: suffix_replicate_snoc, simp_all)
  from snoc.prems p have step: "(k, r) = strike_step n (k', r') b" by simp
  show ?case
  proof (cases r')
    case True
    with IH step split show ?thesis by simp
  next
    case False
    with IH have k': "k' < n" "\<And>m. suffix (replicate m True) bs = (m \<le> k')" "\<not> sublist (replicate n True) bs"
      by auto
    show ?thesis
    proof (cases b)
      case True
      have "i = 0 \<or> i - 1 \<le> k' \<longleftrightarrow> i \<le> Suc k'" for i by linarith
      with True step False split suf k' m show ?thesis by (simp del: suffix_snoc replicate.simps)
    qed (use step False split suf k' assms(1) in \<open>simp del: suffix_snoc\<close>)
  qed
qed


definition strikes_abs :: "('c, 't) health_policy \<Rightarrow> nat \<times> bool" where
  "strikes_abs p = (unat (p_strikes p), p_restarting p)"

definition policy_inv :: "health_policy_cfg \<Rightarrow> ('c, 't) health_policy \<Rightarrow> bool" where
  "policy_inv cfg p \<longleftrightarrow> p_cfg p = cfg \<and> 0 < hk_strikes cfg \<and> (p_restarting p \<or> p_strikes p < hk_strikes cfg)"

text \<open>Whether a tick finds a fatal condition held once it has reported.\<close>

definition tick_fatal :: "'c health_policy_port \<Rightarrow> ('c, 't) health_policy \<Rightarrow> bool" where
  "tick_fatal port p \<longleftrightarrow> fst (hp_fatal_alarm port (p_ctx (snd (tick_reports port p)))) \<noteq> None"

lemma policy_report_frame [frame, simp]:
  "p_cfg (policy_report port k st m f p) = p_cfg p" "p_strikes (policy_report port k st m f p) = p_strikes p"
  "p_restarting (policy_report port k st m f p) = p_restarting p"
  "p_watched (policy_report port k st m f p) = p_watched p"
  "p_ever_watched (policy_report port k st m f p) = p_ever_watched p"
  by (simp_all add: policy_report_def)

lemma check_tasks_frame [frame, simp]:
  "p_cfg (check_tasks port now p) = p_cfg p" "p_strikes (check_tasks port now p) = p_strikes p"
  "p_restarting (check_tasks port now p) = p_restarting p" "p_watched (check_tasks port now p) = p_watched p"
  "p_ever_watched (check_tasks port now p) = p_ever_watched p"
  by (simp_all add: check_tasks_def split: prod.splits option.splits)

lemma tick_reports_frame [frame, simp]:
  "p_cfg (snd (tick_reports port p)) = p_cfg p" "p_strikes (snd (tick_reports port p)) = p_strikes p"
  "p_restarting (snd (tick_reports port p)) = p_restarting p"
  "p_watched (snd (tick_reports port p)) = p_watched p"
  "p_ever_watched (snd (tick_reports port p)) = p_ever_watched p"
  by (simp_all add: tick_reports_def Let_def split_beta)

lemma tick_restart_frame [frame, simp]:
  "p_cfg (tick_restart port h c p) = p_cfg p" "p_strikes (tick_restart port h c p) = p_strikes p"
  "p_restarting (tick_restart port h c p)"
  by (simp_all add: tick_restart_def Let_def split_beta)

lemma strikes_inc: "(k :: u32) < n \<Longrightarrow> unat (k + 1) = Suc (unat k)"
  using unat_add_u32 [of k 1] unat_u32_less [of n] by (simp add: word_less_nat_alt del: unat_u32_less)

lemma tick_refines:
  assumes "policy_inv cfg p"
  shows "strikes_abs (snd (espos_health_policy_tick port p)) =
     strike_step (unat (hk_strikes cfg)) (strikes_abs p) (tick_fatal port p)"
    and "policy_inv cfg (snd (espos_health_policy_tick port p))"
proof -
  obtain h q where r: "tick_reports port p = (h, q)" by (metis surj_pair)
  have q: "p_strikes q = p_strikes p" "p_restarting q = p_restarting p" "p_cfg q = p_cfg p"
    using tick_reports_frame [of port p] by (simp_all add: r)
  have lt: "unat a < unat b \<longleftrightarrow> a < b" for a b :: u32 by (simp add: word_less_nat_alt)
  show "strikes_abs (snd (espos_health_policy_tick port p)) =
     strike_step (unat (hk_strikes cfg)) (strikes_abs p) (tick_fatal port p)"
    "policy_inv cfg (snd (espos_health_policy_tick port p))"
    using assms q strikes_inc [of "p_strikes p" "hk_strikes cfg"] lt [of "p_strikes p + 1" "hk_strikes cfg"]
    by (auto simp: espos_health_policy_tick_def tick_count_def tick_fatal_def r Let_def split_beta
        strikes_abs_def policy_inv_def split: option.splits)
qed

text \<open>The count a tick returns is zero exactly when it found nothing fatal.\<close>

lemma tick_counts_fatal:
  assumes "policy_inv cfg p" and "\<not> p_restarting p"
  shows "fst (espos_health_policy_tick port p) \<noteq> 0 \<longleftrightarrow> tick_fatal port p"
proof -
  obtain h q where r: "tick_reports port p = (h, q)" by (metis surj_pair)
  have "p_strikes q = p_strikes p" using tick_reports_frame(2) [of port p] by (simp add: r)
  moreover have "p_strikes p + 1 \<noteq> 0"
    using strikes_inc [of "p_strikes p" "hk_strikes cfg"] assms by (auto simp: policy_inv_def)
  ultimately show ?thesis
    using assms(2) by (auto simp: espos_health_policy_tick_def tick_count_def tick_fatal_def r Let_def split_beta
        split: option.splits)
qed

subsection \<open>Runs\<close>

text \<open>The calls of the policy's interface; \<open>World\<close> is the rest of the firmware changing the context.\<close>

datatype ('c, 't) policy_call =
    Tick
  | Watch "'t option" "string option" u32
  | Unwatch "'t option"
  | Kick "'t option"
  | World "'c \<Rightarrow> 'c"

fun policy_step :: "'c health_policy_port \<Rightarrow> ('c, 't) health_policy \<Rightarrow> ('c, 't) policy_call \<Rightarrow> ('c, 't) health_policy" where
  "policy_step port p Tick = snd (espos_health_policy_tick port p)"
| "policy_step port p (Watch task name timeout) = snd (espos_health_policy_watch port task name timeout p)"
| "policy_step port p (Unwatch task) = snd (espos_health_policy_unwatch task p)"
| "policy_step port p (Kick task) = espos_health_policy_kick port task p"
| "policy_step port p (World f) = p\<lparr>p_ctx := f (p_ctx p)\<rparr>"

text \<open>What each tick of a run found.\<close>

fun tick_trace :: "'c health_policy_port \<Rightarrow> ('c, 't) health_policy \<Rightarrow> ('c, 't) policy_call list \<Rightarrow> bool list" where
  "tick_trace port p [] = []"
| "tick_trace port p (e # es) =
     (case e of Tick \<Rightarrow> [tick_fatal port p] | _ \<Rightarrow> []) @ tick_trace port (policy_step port p e) es"

lemma registry_frame [frame, simp]:
  "p_cfg (snd (espos_health_policy_watch port task name timeout p)) = p_cfg p"
  "p_strikes (snd (espos_health_policy_watch port task name timeout p)) = p_strikes p"
  "p_restarting (snd (espos_health_policy_watch port task name timeout p)) = p_restarting p"
  "p_cfg (snd (espos_health_policy_unwatch task p)) = p_cfg p"
  "p_strikes (snd (espos_health_policy_unwatch task p)) = p_strikes p"
  "p_restarting (snd (espos_health_policy_unwatch task p)) = p_restarting p"
  "p_cfg (espos_health_policy_kick port task p) = p_cfg p"
  "p_strikes (espos_health_policy_kick port task p) = p_strikes p"
  "p_restarting (espos_health_policy_kick port task p) = p_restarting p"
  by (simp_all add: espos_health_policy_watch_def espos_health_policy_unwatch_def espos_health_policy_kick_def
      Let_def split_beta split: option.splits)

lemma policy_step_inv: "policy_inv cfg p \<Longrightarrow> policy_inv cfg (policy_step port p e)"
  by (cases e) (simp_all add: tick_refines(2), simp_all add: policy_inv_def)

interpretation policy: event_machine "policy_step port" "policy_inv cfg"
  by unfold_locales (rule policy_step_inv)

lemma trace_refines:
  "policy_inv cfg p \<Longrightarrow>
   strikes_abs (foldl (policy_step port) p es) =
     foldl (strike_step (unat (hk_strikes cfg))) (strikes_abs p) (tick_trace port p es)"
proof (induction es arbitrary: p)
  case (Cons e es)
  have "strikes_abs (policy_step port p e) =
      foldl (strike_step (unat (hk_strikes cfg))) (strikes_abs p) (case e of Tick \<Rightarrow> [tick_fatal port p] | _ \<Rightarrow> [])"
    using tick_refines(1) [OF Cons.prems] by (cases e) (simp_all, simp_all add: strikes_abs_def)
  with Cons.IH [OF policy_step_inv [OF Cons.prems]] show ?case by simp
qed simp

lemma policy_init_inv:
  "policy_inv (cfg\<lparr>hk_strikes := max 1 (hk_strikes cfg)\<rparr>) (espos_health_policy_init maxw ctx cfg)"
proof (cases "hk_strikes cfg = 0")
  case False
  then have "1 \<le> hk_strikes cfg" by (simp add: word_neq_0_conv [symmetric] word_le_nat_alt unat_eq_zero [symmetric])
  then show ?thesis using False by (simp add: policy_inv_def espos_health_policy_init_def max_def word_gt_0)
qed (simp add: policy_inv_def espos_health_policy_init_def)

text \<open>
  C11. Over any sequence of ticks, task registrations, kicks and reports of the rest of the
  firmware, the policy has requested the restart exactly when that many consecutive ticks found
  a fatal condition held as the configuration asks for (0 counts as 1).
\<close>

theorem health_restart_iff_strikes:
  fixes port :: "'c health_policy_port" and cfg maxw ctx and es :: "('c, 't) policy_call list"
  defines "p \<equiv> espos_health_policy_init maxw ctx cfg :: ('c, 't) health_policy"
  shows "p_restarting (foldl (policy_step port) p es) =
     sublist (replicate (unat (max 1 (hk_strikes cfg))) True) (tick_trace port p es)"
proof -
  let ?cfg = "cfg\<lparr>hk_strikes := max 1 (hk_strikes cfg)\<rparr>"
  have inv: "policy_inv ?cfg p" unfolding p_def by (rule policy_init_inv)
  then have pos: "0 < unat (max 1 (hk_strikes cfg))" by (simp add: policy_inv_def word_less_nat_alt)
  have zero: "strikes_abs p = (0, False)" by (simp add: p_def strikes_abs_def espos_health_policy_init_def)
  obtain k r where r: "foldl (strike_step (unat (max 1 (hk_strikes cfg)))) (0, False) (tick_trace port p es) = (k, r)"
    by (metis surj_pair)
  from strike_automaton [OF pos r] trace_refines [OF inv, of port es] zero r show ?thesis
    by (simp add: strikes_abs_def)
qed

subsection \<open>What a tick sees\<close>

definition stalled_task :: "u32 \<Rightarrow> 't watched \<Rightarrow> bool" where
  "stalled_task now w \<longleftrightarrow> w_task w \<noteq> None \<and> w_timeout_ms w < kick_age now w"

lemma find_stalled_keeps: "fst (find_stalled now ws (Some w, a)) \<noteq> None"
  by (induction ws arbitrary: w a) auto

lemma find_stalled_none: "fst (find_stalled now ws (None, 0)) = None \<longleftrightarrow> (\<forall>w\<in>set ws. \<not> stalled_task now w)"
  by (induction ws) (auto simp: stalled_task_def find_stalled_keeps)

lemma find_stalled_worst:
  assumes "find_stalled now ws (st, a) = (Some w, b)" and "\<And>v. st = Some v \<Longrightarrow> a = kick_age now v"
  shows "b = kick_age now w \<and> a \<le> b \<and> (w \<in> set ws \<and> stalled_task now w \<or> st = Some w) \<and>
     (\<forall>x\<in>set ws. stalled_task now x \<longrightarrow> kick_age now x \<le> b)"
  using assms
proof (induction ws arbitrary: st a)
  case (Cons x ws)
  show ?case
  proof (cases "stalled_task now x \<and> a \<le> kick_age now x")
    case True
    then have "find_stalled now ws (Some x, kick_age now x) = (Some w, b)"
      using Cons.prems(1) by (auto simp: stalled_task_def)
    from Cons.IH [OF this] True show ?thesis by auto
  next
    case False
    then have "find_stalled now ws (st, a) = (Some w, b)"
      using Cons.prems(1) by (auto simp: stalled_task_def split: if_splits)
    from Cons.IH [OF this Cons.prems(2)] False show ?thesis by fastforce
  qed
qed simp

text \<open>Less than half the clock's range after a kick, the age is the time since.\<close>

lemma kick_age_since: "uint (now - w_last_kick_ms w) < 2 ^ 31 \<Longrightarrow> kick_age now w = now - w_last_kick_ms w"
  using sint_nonneg_iff [of "now - w_last_kick_ms w"] by (simp add: kick_age_def)

definition memory_alarm :: "health_policy_cfg \<Rightarrow> health_heap \<Rightarrow> bool" where
  "memory_alarm cfg h \<longleftrightarrow>
     hk_internal_alarm_kb cfg \<noteq> 0 \<and> below_kb (hh_internal_free h) (hk_internal_alarm_kb cfg) \<or>
     hk_largest_block_alarm_kb cfg \<noteq> 0 \<and> below_kb (hh_largest_block h) (hk_largest_block_alarm_kb cfg)"

lemma msg_out_fits: "0 < n \<Longrightarrow> n \<le> ESPOS_HEALTH_MSG_MAX \<Longrightarrow> \<exists>x. msg_out (Some n) m = Some x \<and> length x < ESPOS_HEALTH_MSG_MAX"
  using length_cbuf [of n m] by (simp add: msg_out_def)

lemma length_msg_out: "length (the (msg_out (Some ESPOS_HEALTH_MSG_MAX) m)) < ESPOS_HEALTH_MSG_MAX"
  using msg_out_fits [of 96 m] by auto

lemma memory_rule_state:
  "fst (memory_rule cfg h) = ESPOS_HEALTH_ALARM \<longleftrightarrow> memory_alarm cfg h"
  "fst (memory_rule cfg h) \<noteq> ESPOS_HEALTH_INVALID"
  "fst (snd (memory_rule cfg h)) = (if memory_alarm cfg h then ESPOS_HEALTH_F_REBOOT_ON_ALARM else 0)"
  by (simp_all only: memory_rule_def Let_def fst_conv snd_conv memory_alarm_def split: if_split) simp_all

lemma trough_result:
  "fst (espos_health_policy_trough cfg h room) = ESPOS_HEALTH_NORMAL \<or> fst (espos_health_policy_trough cfg h room) = ESPOS_HEALTH_WARN"
  "length (the (snd (espos_health_policy_trough cfg h (Some ESPOS_HEALTH_MSG_MAX)))) < ESPOS_HEALTH_MSG_MAX"
  by (simp_all only: espos_health_policy_trough_def fst_conv snd_conv length_msg_out split: if_split) simp_all

definition tick_now :: "'c health_policy_port \<Rightarrow> ('c, 't) health_policy \<Rightarrow> u32" where
  "tick_now port p = fst (hp_now_ms port (p_ctx p))"

definition tick_heap :: "'c health_policy_port \<Rightarrow> ('c, 't) health_policy \<Rightarrow> health_heap" where
  "tick_heap port p = fst (hp_heap port (snd (hp_now_ms port (p_ctx p))))"

definition fatal_at :: "(string \<Rightarrow> health_condition option) \<Rightarrow> string \<Rightarrow> bool" where
  "fatal_at t k \<longleftrightarrow> (\<exists>x. t k = Some x \<and> fatal_cond x)"

lemma some_key_fatal:
  assumes "a \<noteq> b"
  shows "(\<exists>j. if j = a then A else if E \<and> j = b then S else j \<noteq> c \<and> F j) \<longleftrightarrow>
     A \<or> E \<and> S \<or> (\<exists>k. k \<noteq> a \<and> k \<noteq> c \<and> (k \<noteq> b \<or> \<not> E) \<and> F k)"
  using assms by (cases E) auto

lemma check_tasks_ctx:
  "\<exists>m. length m < ESPOS_HEALTH_MSG_MAX \<and> p_ctx (check_tasks port now p) =
     snd (hp_report port (p_ctx p) ''taskStalled''
       (if \<exists>w\<in>set (p_watched p). stalled_task now w then ESPOS_HEALTH_ALARM else ESPOS_HEALTH_NORMAL) m 1)"
proof (cases "find_stalled now (p_watched p) (None, 0)")
  case (Pair r a)
  then have "(\<exists>w\<in>set (p_watched p). stalled_task now w) \<longleftrightarrow> r \<noteq> None"
    using find_stalled_none [of now "p_watched p"] by auto
  then show ?thesis
    by (intro exI [of _ "case r of None \<Rightarrow> '''' | Some w \<Rightarrow> stall_message w a"])
      (auto simp: check_tasks_def Pair policy_report_def stall_message_def length_cbuf split: option.splits)
qed

lemma tick_reports_ctx:
  fixes port :: "'c health_policy_port" and p :: "('c, 't) health_policy"
  defines "c \<equiv> snd (hp_heap port (snd (hp_now_ms port (p_ctx p))))"
  obtains m1 m2 where "length m1 < ESPOS_HEALTH_MSG_MAX" and "length m2 < ESPOS_HEALTH_MSG_MAX"
    and "p_ctx (snd (tick_reports port p)) =
      (let (st, f, _) = memory_rule (p_cfg p) (tick_heap port p);
           c = snd (hp_report port c ''lowMemory'' st m1 f);
           c = snd (hp_report port c ''memoryTrough'' (fst (espos_health_policy_trough (p_cfg p) (tick_heap port p) (Some 96))) m2 0)
       in if p_ever_watched p then p_ctx (check_tasks port (tick_now port p) (p\<lparr>p_ctx := c\<rparr>)) else c)"
proof -
  obtain st f m where R: "memory_rule (p_cfg p) (tick_heap port p) = (st, f, m)" by (metis prod_cases3)
  have ct: "p_ctx (check_tasks port n (p\<lparr>p_ticks := t, p_ctx := x\<rparr>)) = p_ctx (check_tasks port n (p\<lparr>p_ctx := x\<rparr>))" for n t x
    by (simp add: check_tasks_def policy_report_def split: prod.splits option.splits)
  show ?thesis
    by (rule that [OF length_msg_out [of m] trough_result(2) [of "p_cfg p" "tick_heap port p"]])
      (simp add: c_def tick_reports_def Let_def split_beta policy_report_def tick_now_def
        espos_health_policy_memory_def R [unfolded tick_heap_def] tick_heap_def ct)
qed

subsection \<open>The policy on a table\<close>

text \<open>A port whose reports go to a condition table, and whose clock and heap reading leave it alone.\<close>

locale policy_table = condition_table "hp_report port" "hp_fatal_alarm port" cond ok
  for port :: "'c health_policy_port" and cond :: "'c \<Rightarrow> string \<Rightarrow> health_condition option" and ok :: "'c \<Rightarrow> bool" +
  assumes now_keeps: "ok c \<Longrightarrow> cond (snd (hp_now_ms port c)) = cond c \<and> ok (snd (hp_now_ms port c))"
    and heap_keeps: "ok c \<Longrightarrow> cond (snd (hp_heap port c)) = cond c \<and> ok (snd (hp_heap port c))"
begin

text \<open>A well-formed report decides whether its key is fatal and leaves the other keys alone.\<close>

lemma reported:
  assumes "ok c" and "report_refusal (Some k) st (Some m) f = None"
  defines "c' \<equiv> snd (hp_report port c k st m f)"
  shows "ok c'" and "cond c j \<noteq> None \<Longrightarrow> cond c' j \<noteq> None"
    and "fatal_at (cond c') j \<longleftrightarrow>
      (if j = k then st = ESPOS_HEALTH_ALARM \<and> f AND 1 \<noteq> 0 \<and> cond c' k \<noteq> None else fatal_at (cond c) j)"
  using report_sets [OF assms(1), of k st m f] report_known [OF assms(1) _ assms(2)] report_keeps_ok [OF assms(1)]
  by (cases "cond c k"; auto simp: c'_def fatal_at_def fatal_cond_def split: if_splits)+

lemma reports_fatal:
  assumes "ok (p_ctx p)" and "cond (p_ctx p) ''lowMemory'' \<noteq> None"
    and "p_ever_watched p \<Longrightarrow> cond (p_ctx p) ''taskStalled'' \<noteq> None"
  shows "ok (p_ctx (snd (tick_reports port p))) \<and>
     (\<forall>j. fatal_at (cond (p_ctx (snd (tick_reports port p)))) j \<longleftrightarrow>
       (if j = ''lowMemory'' then memory_alarm (p_cfg p) (tick_heap port p)
        else if p_ever_watched p \<and> j = ''taskStalled''
        then \<exists>w\<in>set (p_watched p). stalled_task (tick_now port p) w
        else j \<noteq> ''memoryTrough'' \<and> fatal_at (cond (p_ctx p)) j))"
proof -
  let ?c = "p_ctx (snd (tick_reports port p))" and ?A = "memory_alarm (p_cfg p) (tick_heap port p)"
    and ?S = "\<exists>w\<in>set (p_watched p). stalled_task (tick_now port p) w"
  define c2 where "c2 = snd (hp_heap port (snd (hp_now_ms port (p_ctx p))))"
  have c2: "ok c2" "cond c2 = cond (p_ctx p)"
    using assms(1) now_keeps [of "p_ctx p"] heap_keeps [of "snd (hp_now_ms port (p_ctx p))"] unfolding c2_def by auto
  obtain m1 m2 where m: "length m1 < 96" "length m2 < 96" and ctx: "?c =
      (let (st, f, _) = memory_rule (p_cfg p) (tick_heap port p);
           c = snd (hp_report port c2 ''lowMemory'' st m1 f);
           c = snd (hp_report port c ''memoryTrough'' (fst (espos_health_policy_trough (p_cfg p) (tick_heap port p) (Some 96))) m2 0)
       in if p_ever_watched p then p_ctx (check_tasks port (tick_now port p) (p\<lparr>p_ctx := c\<rparr>)) else c)"
    using tick_reports_ctx [of port p] unfolding c2_def by blast
  obtain st f x where R: "memory_rule (p_cfg p) (tick_heap port p) = (st, f, x)" by (metis prod_cases3)
  note R' = memory_rule_state [of "p_cfg p" "tick_heap port p", unfolded R, simplified]
  define c3 where "c3 = snd (hp_report port c2 ''lowMemory'' st m1 f)"
  have "report_refusal (Some ''lowMemory'') st (Some m1) f = None"
    using m R' by (simp add: report_refusal_def)
  note r3 = reported [OF c2(1) this, folded c3_def]
  define tst where "tst = fst (espos_health_policy_trough (p_cfg p) (tick_heap port p) (Some 96))"
  define c4 where "c4 = snd (hp_report port c3 ''memoryTrough'' tst m2 0)"
  have "report_refusal (Some ''memoryTrough'') tst (Some m2) 0 = None"
    using m trough_result(1) [of "p_cfg p" "tick_heap port p" "Some 96"] by (auto simp: report_refusal_def tst_def)
  note r4 = reported [OF r3(1) this, folded c4_def]
  have f4: "ok c4" "cond c4 ''lowMemory'' \<noteq> None" "p_ever_watched p \<Longrightarrow> cond c4 ''taskStalled'' \<noteq> None"
    using r3(1,2) r4(1,2) c2(2) assms by auto
  have g4: "fatal_at (cond c4) j \<longleftrightarrow> (if j = ''lowMemory'' then ?A else j \<noteq> ''memoryTrough'' \<and> fatal_at (cond (p_ctx p)) j)" for j
    using r3(2) [of "''lowMemory''"] assms(2) R' unfolding r4(3) r3(3) c2(2) by auto
  have "ok ?c \<and> (\<forall>j. fatal_at (cond ?c) j \<longleftrightarrow> (if p_ever_watched p \<and> j = ''taskStalled'' then ?S else fatal_at (cond c4) j))"
  proof (cases "p_ever_watched p")
    case True
    obtain m3 where m3: "length m3 < 96" "?c = snd (hp_report port c4 ''taskStalled''
        (if ?S then ESPOS_HEALTH_ALARM else ESPOS_HEALTH_NORMAL) m3 1)"
      using check_tasks_ctx [of port "tick_now port p" "p\<lparr>p_ctx := c4\<rparr>"] True ctx
      by (auto simp: R c3_def c4_def tst_def Let_def)
    have "report_refusal (Some ''taskStalled'') (if ?S then ESPOS_HEALTH_ALARM else ESPOS_HEALTH_NORMAL) (Some m3) 1 = None"
      using m3 by (simp add: report_refusal_def)
    note r5 = reported [OF f4(1) this, folded m3(2)]
    show ?thesis using r5(1) r5(2) [of "''taskStalled''"] f4(3) True unfolding r5(3) by auto
  qed (use ctx f4(1) in \<open>simp add: R c3_def c4_def tst_def Let_def\<close>)
  then show ?thesis using g4 by auto
qed

text \<open>
  A tick is fatal exactly when memory is at its alarm, a watched task is silent beyond its
  limit, or some other condition of the table is fatal.
\<close>

lemma tick_fatal_iff:
  assumes "ok (p_ctx p)" and "cond (p_ctx p) ''lowMemory'' \<noteq> None"
    and "p_ever_watched p \<Longrightarrow> cond (p_ctx p) ''taskStalled'' \<noteq> None"
  shows "tick_fatal port p \<longleftrightarrow>
     memory_alarm (p_cfg p) (tick_heap port p) \<or>
     p_ever_watched p \<and> (\<exists>w\<in>set (p_watched p). stalled_task (tick_now port p) w) \<or>
     (\<exists>k. k \<noteq> ''lowMemory'' \<and> k \<noteq> ''memoryTrough'' \<and> (k \<noteq> ''taskStalled'' \<or> \<not> p_ever_watched p) \<and>
          fatal_at (cond (p_ctx p)) k)"
proof -
  let ?c = "p_ctx (snd (tick_reports port p))"
  have r: "ok ?c" "\<And>j. fatal_at (cond ?c) j \<longleftrightarrow>
       (if j = ''lowMemory'' then memory_alarm (p_cfg p) (tick_heap port p)
        else if p_ever_watched p \<and> j = ''taskStalled''
        then \<exists>w\<in>set (p_watched p). stalled_task (tick_now port p) w
        else j \<noteq> ''memoryTrough'' \<and> fatal_at (cond (p_ctx p)) j)"
    using reports_fatal [OF assms] by blast+
  have "tick_fatal port p \<longleftrightarrow> (\<exists>k. fatal_at (cond ?c) k)"
    unfolding tick_fatal_def fatal_at_def using fatal_none [OF r(1)] by auto
  then show ?thesis unfolding r(2) by (subst (asm) some_key_fatal) simp_all
qed

end

subsection \<open>The registry of watched tasks\<close>

lemma find_task_some: "find_task task ws = Some i \<Longrightarrow> i < length ws \<and> w_task (ws ! i) = task"
  by (induction ws arbitrary: i) (auto split: if_splits)

lemma find_task_none: "find_task task ws = None \<longleftrightarrow> (\<forall>w\<in>set ws. w_task w \<noteq> task)"
  by (induction ws) auto

text \<open>A task has one slot.\<close>

definition registry_ok :: "'t watched list \<Rightarrow> bool" where
  "registry_ok ws \<longleftrightarrow> (\<forall>i<length ws. \<forall>j<length ws. i \<noteq> j \<longrightarrow> w_task (ws ! i) \<noteq> None \<longrightarrow> w_task (ws ! i) \<noteq> w_task (ws ! j))"

lemma registry_update:
  assumes "registry_ok ws" and "i < length ws"
    and "\<And>j. j < length ws \<Longrightarrow> j \<noteq> i \<Longrightarrow> w_task w \<noteq> None \<Longrightarrow> w_task (ws ! j) \<noteq> w_task w"
  shows "registry_ok (ws[i := w])"
  unfolding registry_ok_def
proof (intro allI impI)
  fix a b assume "a < length (ws[i := w])" "b < length (ws[i := w])" "a \<noteq> b" "w_task (ws[i := w] ! a) \<noteq> None"
  then show "w_task (ws[i := w] ! a) \<noteq> w_task (ws[i := w] ! b)"
    using assms unfolding registry_ok_def by (cases "a = i"; cases "b = i"; fastforce)
qed

lemma registry_slot:
  assumes "registry_ok ws" and "find_task (Some t) ws = Some i" and "j < length ws" and "w_task (ws ! j) = Some t"
  shows "j = i"
  using assms find_task_some [OF assms(2)] unfolding registry_ok_def by fastforce

lemma registry_watch:
  assumes "registry_ok (p_watched p)"
  shows "registry_ok (p_watched (snd (espos_health_policy_watch port task name timeout p)))"
proof (cases "find_task task (p_watched p)")
  case None
  then have "w_task (p_watched p ! j) \<noteq> task" if "j < length (p_watched p)" for j
    using find_task_none [of task "p_watched p"] that by auto
  with None assms show ?thesis
    by (auto simp: espos_health_policy_watch_def Let_def split_beta split: option.splits
        intro!: registry_update dest: find_task_some)
next
  case (Some i)
  with assms find_task_some [OF Some] registry_slot [OF assms] show ?thesis
    by (auto simp: espos_health_policy_watch_def Let_def split_beta intro!: registry_update)
qed

lemma registry_slot_update:
  assumes "registry_ok ws" and "i < length ws" and "w_task w = w_task (ws ! i) \<or> w_task w = None"
  shows "registry_ok (ws[i := w])"
proof (intro registry_update assms(1,2))
  fix j assume "j < length ws" "j \<noteq> i" "w_task w \<noteq> None"
  with assms show "w_task (ws ! j) \<noteq> w_task w" unfolding registry_ok_def by metis
qed

lemma tick_watched [frame, simp]: "p_watched (snd (espos_health_policy_tick port p)) = p_watched p"
proof -
  have [simp]: "p_watched (tick_restart port h c q) = p_watched q" for h c and q :: "('b, 'a) health_policy"
    by (simp add: tick_restart_def Let_def split_beta)
  show ?thesis
    using tick_reports_frame(4) [of port p]
    by (simp add: espos_health_policy_tick_def tick_count_def Let_def split_beta split: option.splits)
qed

lemma registry_step: "registry_ok (p_watched p) \<Longrightarrow> registry_ok (p_watched (policy_step port p e))"
  by (cases e)
    (auto simp: registry_watch espos_health_policy_unwatch_def espos_health_policy_kick_def Let_def split_beta
      intro!: registry_slot_update dest: find_task_some split: option.splits)

interpretation registry: started_machine "policy_step port" "\<lambda>p. registry_ok (p_watched p)" "espos_health_policy_init maxw ctx cfg"
  by unfold_locales (simp_all add: registry_step, simp add: registry_ok_def espos_health_policy_init_def watched_zero_def)

text \<open>
  After any sequence of calls, a task that stamps itself alive at time \<open>t\<close> is taken for
  stalled at \<open>now\<close> exactly when \<open>now\<close> is not before the stamp and more than its limit has
  passed; a stamp that overtook the tick's own reading of the clock never counts as silence.
\<close>

theorem health_kicked_task_is_alive:
  assumes "p = foldl (policy_step port) (espos_health_policy_init maxw ctx cfg) es"
    and "fst (hp_now_ms port (p_ctx p)) = t" and "p_has_port p"
    and "w \<in> set (p_watched (espos_health_policy_kick port (Some task) p))" and "w_task w = Some task"
  shows "stalled_task now w \<longleftrightarrow> reached now t \<and> w_timeout_ms w < now - t"
proof -
  have ok: "registry_ok (p_watched p)" unfolding assms(1) by (rule registry.reach_inv)
  from assms(4,5) find_task_none [of "Some task" "p_watched p"]
  obtain i where i: "find_task (Some task) (p_watched p) = Some i"
    by (cases "find_task (Some task) (p_watched p)") (auto simp: espos_health_policy_kick_def assms(3))
  let ?w = "(p_watched p ! i)\<lparr>w_last_kick_ms := t\<rparr>"
  have "p_watched (espos_health_policy_kick port (Some task) p) = (p_watched p)[i := ?w]"
    using i assms(2,3) by (simp add: espos_health_policy_kick_def Let_def split_beta)
  with assms(4) obtain j where j: "j < length (p_watched p)" "w = (p_watched p)[i := ?w] ! j"
    by (auto simp: in_set_conv_nth)
  have "j = i"
    using registry_slot [OF ok i j(1)] j assms(5) by (cases "j = i") auto
  with j find_task_some [OF i] have "w_last_kick_ms w = t" by simp
  then show ?thesis
    using assms(5) by (auto simp: stalled_task_def kick_age_def reached_def)
qed

text \<open>A port whose clock stands still and whose table is empty.\<close>

definition still_health_port :: "u32 \<Rightarrow> unit health_policy_port" where
  "still_health_port t =
     \<lparr>hp_now_ms = (\<lambda>c. (t, c)), hp_uptime_s = (\<lambda>c. (0, c)), hp_unix_ms = (\<lambda>c. (0, c)),
      hp_heap = (\<lambda>c. (\<lparr>hh_total_free = 0, hh_total_min = 0, hh_internal_free = 0, hh_internal_min = 0, hh_largest_block = 0\<rparr>, c)),
      hp_report = (\<lambda>c k st m f. (ESP_OK, c)), hp_fatal_alarm = (\<lambda>c. (None, c)),
      hp_store_record = (\<lambda>c r. c), hp_restart = (\<lambda>c. c)\<rparr>"

theorem health_kicked_task_is_alive_witness:
  "(let cfg = \<lparr>hk_strikes = 3, hk_heap_warn_kb = 0, hk_internal_warn_kb = 0, hk_internal_alarm_kb = 8,
                hk_largest_block_alarm_kb = 0, hk_internal_trough_warn_kb = 0\<rparr>;
        p = foldl (policy_step (still_health_port 100)) (espos_health_policy_init 2 () cfg) [Watch (Some (7 :: nat)) (Some ''net'') 50];
        w = p_watched (espos_health_policy_kick (still_health_port 100) (Some 7) p) ! 0
    in \<not> stalled_task 150 w \<and> stalled_task 151 w \<and> \<not> stalled_task 99 w)"
proof -
  let ?cfg = "\<lparr>hk_strikes = 3, hk_heap_warn_kb = 0, hk_internal_warn_kb = 0, hk_internal_alarm_kb = 8,
                hk_largest_block_alarm_kb = 0, hk_internal_trough_warn_kb = 0\<rparr> :: health_policy_cfg"
  let ?p = "foldl (policy_step (still_health_port 100)) (espos_health_policy_init 2 () ?cfg) [Watch (Some (7 :: nat)) (Some ''net'') 50]"
  let ?w = "p_watched (espos_health_policy_kick (still_health_port 100) (Some 7) ?p) ! 0"
  have h: "fst (hp_now_ms (still_health_port 100) (p_ctx ?p)) = 100" "p_has_port ?p"
    "w_task ?w = Some 7" "w_timeout_ms ?w = 50" "0 < length (p_watched (espos_health_policy_kick (still_health_port 100) (Some 7) ?p))"
    by code_simp+
  from health_kicked_task_is_alive [OF refl h(1,2) nth_mem [OF h(5)] h(3)] h(4) show ?thesis
    by (simp add: reached_def)
qed

end
