(* ===== verification/Health_Watchdog.thy ===== *)
theory Health_Watchdog
  imports Health_Policy
begin

text \<open>
  The one policy instance a device runs, src/components/espos_health/src/health_watchdog.c: the
  policy of \<open>Health_Policy\<close> wired to the condition table of \<open>Health_Table\<close> through its port,
  the registry behind the public calls, and the record the last boot left.

  The platform's functions (health_port.h) are a record of functions on a world of type
  \<open>'w\<close>; the policy's context is the pair of the table and the world. The recursive lock is
  the list of the outcomes its next takings have, as in the table. The build's configuration
  (the thresholds, the tick period, the sizes of the tables) is a parameter.
\<close>

record ('w, 't) health_plat =
  pl_now_ms :: "'w clock"
  pl_uptime_s :: "'w clock"
  pl_unix_ms :: "'w \<Rightarrow> u64 \<times> 'w"
  pl_heap :: "'w \<Rightarrow> health_heap \<times> 'w"
  pl_restart :: "'w \<Rightarrow> 'w"
  pl_record_store :: "'w \<Rightarrow> reset_record \<Rightarrow> 'w"
  pl_record_take :: "'w \<Rightarrow> reset_record option \<times> 'w"
  pl_tick_start :: "'w \<Rightarrow> u32 \<Rightarrow> esp_err \<times> 'w"
  pl_twdt_add :: "'w \<Rightarrow> esp_err \<times> 'w"
  pl_twdt_delete :: "'w \<Rightarrow> 'w"
  pl_twdt_reset :: "'w \<Rightarrow> 'w"
  pl_self :: "'w \<Rightarrow> 't option"

record health_build =
  hb_max_conditions :: nat
  hb_max_watched :: nat
  hb_cfg :: health_policy_cfg
  hb_tick_s :: u32

record ('k, 'w, 't) watchdog =
  d_policy :: "('k health \<times> 'w, 't) health_policy"
  d_policy_ready :: bool
  d_started :: bool
  d_record_checked :: bool
  d_record :: "reset_record option"
  d_twdt_warned :: bool
  d_locks :: "bool list"

definition watchdog_lock :: "('k, 'w, 't) watchdog \<Rightarrow> bool \<times> ('k, 'w, 't) watchdog" where
  "watchdog_lock d = (case d_locks d of [] \<Rightarrow> (True, d) | b # bs \<Rightarrow> (b, d\<lparr>d_locks := bs\<rparr>))"

subsection \<open>The port\<close>

definition on_world :: "('w \<Rightarrow> 'a \<times> 'w) \<Rightarrow> 'h \<times> 'w \<Rightarrow> 'a \<times> ('h \<times> 'w)" where
  "on_world f c = (case f (snd c) of (x, w) \<Rightarrow> (x, (fst c, w)))"

definition on_table :: "('h \<Rightarrow> 'a \<times> 'h) \<Rightarrow> 'h \<times> 'w \<Rightarrow> 'a \<times> ('h \<times> 'w)" where
  "on_table f c = (case f (fst c) of (x, s) \<Rightarrow> (x, (s, snd c)))"

definition PORT :: "health_build \<Rightarrow> ('w, 't) health_plat \<Rightarrow> ('k health \<times> 'w) health_policy_port" where
  "PORT b plat =
     \<lparr>hp_now_ms = on_world (pl_now_ms plat),
      hp_uptime_s = on_world (pl_uptime_s plat),
      hp_unix_ms = on_world (pl_unix_ms plat),
      hp_heap = on_world (pl_heap plat),
      hp_report = (\<lambda>c k st m f. on_table (espos_health_report_ex (hb_max_conditions b) (Some k) st (Some m) f) c),
      hp_fatal_alarm = on_table espos_health_fatal_alarm,
      hp_store_record = (\<lambda>c r. (fst c, pl_record_store plat (snd c) r)),
      hp_restart = (\<lambda>c. (fst c, pl_restart plat (snd c)))\<rparr>"

definition ensure_policy :: "health_build \<Rightarrow> ('k, 'w, 't) watchdog \<Rightarrow> ('k, 'w, 't) watchdog" where
  "ensure_policy b d =
     (if d_policy_ready d then d
      else d\<lparr>d_policy := espos_health_policy_init (hb_max_watched b) (p_ctx (d_policy d)) (hb_cfg b),
             d_policy_ready := True\<rparr>)"

text \<open>A platform call outside the policy, on the world its context holds.\<close>

definition plat_call :: "('w \<Rightarrow> 'a \<times> 'w) \<Rightarrow> ('k, 'w, 't) watchdog \<Rightarrow> 'a \<times> ('k, 'w, 't) watchdog" where
  "plat_call f d =
     (case on_world f (p_ctx (d_policy d)) of (x, c) \<Rightarrow> (x, d\<lparr>d_policy := (d_policy d)\<lparr>p_ctx := c\<rparr>\<rparr>))"

definition take_record :: "('w, 't) health_plat \<Rightarrow> ('k, 'w, 't) watchdog \<Rightarrow> ('k, 'w, 't) watchdog" where
  "take_record plat d =
     (if d_record_checked d then d
      else (let (r, d) = plat_call (pl_record_take plat) (d\<lparr>d_record_checked := True\<rparr>) in d\<lparr>d_record := r\<rparr>))"

subsection \<open>The tick\<close>

text \<open>\<open>held\<close>: the drills' own lock was taken. The clock is read once for the expiry.\<close>

definition watchdog_tick ::
  "health_build \<Rightarrow> ('w, 't) health_plat \<Rightarrow> bool \<Rightarrow> ('k, 'w, 't) watchdog \<Rightarrow> ('k, 'w, 't) watchdog" where
  "watchdog_tick b plat held d =
     (let (now, d) = plat_call (pl_now_ms plat) d;
          (_, c) = on_table (espos_health_test_expire (hb_max_conditions b) held now) (p_ctx (d_policy d));
          d = d\<lparr>d_policy := (d_policy d)\<lparr>p_ctx := c\<rparr>\<rparr>;
          (ok, d) = watchdog_lock d
      in if \<not> ok then d
         else d\<lparr>d_policy := snd (espos_health_policy_tick (PORT b plat) (d_policy d))\<rparr>)"

definition espos_health_policy_start ::
  "health_build \<Rightarrow> ('w, 't) health_plat \<Rightarrow> ('k, 'w, 't) watchdog \<Rightarrow> esp_err \<times> ('k, 'w, 't) watchdog" where
  "espos_health_policy_start b plat d =
     (let (ok, d) = watchdog_lock d
      in if \<not> ok then (ESP_ERR_TIMEOUT, d)
         else if d_started d then (ESP_OK, d)
         else
           (let d = ensure_policy b (take_record plat d);
                (err, d) = plat_call (\<lambda>w. pl_tick_start plat w (hb_tick_s b * 1000)) d
            in (err, if err = ESP_OK then d\<lparr>d_started := True\<rparr> else d)))"

subsection \<open>Watched tasks\<close>

definition espos_health_watch_task ::
  "health_build \<Rightarrow> ('w, 't) health_plat \<Rightarrow> string option \<Rightarrow> u32 \<Rightarrow> ('k, 'w, 't) watchdog \<Rightarrow> esp_err \<times> ('k, 'w, 't) watchdog" where
  "espos_health_watch_task b plat name timeout_ms d =
     (if name = None \<or> name = Some '''' then (ESP_ERR_INVALID_ARG, d)
      else
        (let (ok, d) = watchdog_lock d
         in if \<not> ok then (ESP_ERR_TIMEOUT, d)
            else
              (let d = ensure_policy b d;
                   (err, p) = espos_health_policy_watch (PORT b plat) (pl_self plat (snd (p_ctx (d_policy d)))) name timeout_ms (d_policy d);
                   d = d\<lparr>d_policy := p\<rparr>
               in if err = ESP_OK
                  then (let (werr, d) = plat_call (pl_twdt_add plat) d
                        in (err, if werr \<noteq> ESP_OK \<and> \<not> d_twdt_warned d then d\<lparr>d_twdt_warned := True\<rparr> else d))
                  else (err, d))))"

definition espos_health_unwatch_task ::
  "('w, 't) health_plat \<Rightarrow> ('k, 'w, 't) watchdog \<Rightarrow> esp_err \<times> ('k, 'w, 't) watchdog" where
  "espos_health_unwatch_task plat d =
     (let (ok, d) = watchdog_lock d
      in if \<not> ok then (ESP_ERR_TIMEOUT, d)
         else
           (let (err, p) = espos_health_policy_unwatch (pl_self plat (snd (p_ctx (d_policy d)))) (d_policy d);
                d = d\<lparr>d_policy := p\<rparr>
            in (err, if err = ESP_OK then snd (plat_call (\<lambda>w. ((), pl_twdt_delete plat w)) d) else d)))"

definition espos_health_kick ::
  "health_build \<Rightarrow> ('w, 't) health_plat \<Rightarrow> ('k, 'w, 't) watchdog \<Rightarrow> ('k, 'w, 't) watchdog" where
  "espos_health_kick b plat d =
     (let d = snd (plat_call (\<lambda>w. ((), pl_twdt_reset plat w)) d)
      in if d_policy_ready d
         then d\<lparr>d_policy := espos_health_policy_kick (PORT b plat) (pl_self plat (snd (p_ctx (d_policy d)))) (d_policy d)\<rparr>
         else d)"

definition espos_health_last_reset ::
  "('w, 't) health_plat \<Rightarrow> ('k, 'w, 't) watchdog \<Rightarrow> reset_record option \<times> ('k, 'w, 't) watchdog" where
  "espos_health_last_reset plat d =
     (let (ok, d) = watchdog_lock d
      in if \<not> ok then (None, d) else (let d = take_record plat d in (d_record d, d)))"

subsection \<open>The policy on the device's table\<close>

lemma on_table_snd [simp]: "snd (on_table f c) = (snd (f (fst c)), snd c)" "fst (on_table f c) = fst (f (fst c))"
  by (simp_all add: on_table_def split_beta)

lemma on_world_snd [simp]: "snd (on_world f c) = (fst c, snd (f (snd c)))" "fst (on_world f c) = fst (f (snd c))"
  by (simp_all add: on_world_def split_beta)

interpretation device: policy_table "PORT b plat" "\<lambda>c. health_lookup (fst c)"
  "\<lambda>c. health_inv (hb_max_conditions b) (fst c) \<and> h_locks (fst c) = []"
proof (unfold_locales, goal_cases)
  case (1 c k st m f)
  then show ?case using table.report_keeps_ok [of "hb_max_conditions b" "fst c"] by (simp add: PORT_def)
next
  case (2 c k st m f)
  then show ?case using table.report_sets [of "hb_max_conditions b" "fst c"] by (simp add: PORT_def)
next
  case (3 c k st m f)
  then show ?case using table.report_known [of "hb_max_conditions b" "fst c"] by (simp add: PORT_def)
next
  case (4 c)
  then show ?case using table.fatal_keeps [of "hb_max_conditions b" "fst c"] by (simp add: PORT_def)
next
  case (5 c)
  then show ?case using table.fatal_none [of "hb_max_conditions b" "fst c"] by (simp add: PORT_def)
next
  case (6 c x)
  then show ?case using table.fatal_some [of "hb_max_conditions b" "fst c"] by (simp add: PORT_def)
qed (simp_all add: PORT_def)

text \<open>
  On a device whose table knows the built-in conditions, a tick counts a strike exactly when
  the heap reading is below an alarm threshold, a watched task has been silent beyond its
  limit, or some other condition of the table is a fatal alarm; a low-water mark alone never
  counts.
\<close>

theorem watchdog_tick_strikes_iff:
  assumes "health_inv (hb_max_conditions b) s" and "h_locks s = []" and "p_ctx p = (s, w)"
    and "policy_inv cfg p" and "\<not> p_restarting p"
    and "health_lookup s ''lowMemory'' \<noteq> None" and "p_ever_watched p \<Longrightarrow> health_lookup s ''taskStalled'' \<noteq> None"
  shows "fst (espos_health_policy_tick (PORT b plat) p) \<noteq> 0 \<longleftrightarrow>
     memory_alarm cfg (tick_heap (PORT b plat) p) \<or>
     p_ever_watched p \<and> (\<exists>v\<in>set (p_watched p). stalled_task (fst (pl_now_ms plat w)) v) \<or>
     (\<exists>k. k \<noteq> ''lowMemory'' \<and> k \<noteq> ''memoryTrough'' \<and> (k \<noteq> ''taskStalled'' \<or> \<not> p_ever_watched p) \<and>
          fatal_at (health_lookup s) k)"
proof -
  have "tick_now (PORT b plat) p = fst (pl_now_ms plat w)"
    by (simp add: tick_now_def PORT_def assms(3))
  moreover have "p_cfg p = cfg" using assms(4) by (simp add: policy_inv_def)
  moreover have "fst (espos_health_policy_tick (PORT b plat) p) \<noteq> 0 \<longleftrightarrow> tick_fatal (PORT b plat) p"
    by (rule tick_counts_fatal [OF assms(4,5)])
  ultimately show ?thesis
    using device.tick_fatal_iff [of b p plat] assms(1,2,3,6,7) by simp
qed


text \<open>A board with one kilobyte of internal RAM left against a limit of eight.\<close>

definition low_plat :: "(unit, nat) health_plat" where
  "low_plat =
     \<lparr>pl_now_ms = (\<lambda>w. (1000, w)), pl_uptime_s = (\<lambda>w. (1, w)), pl_unix_ms = (\<lambda>w. (0, w)),
      pl_heap = (\<lambda>w. (\<lparr>hh_total_free = 90000, hh_total_min = 80000, hh_internal_free = 1024, hh_internal_min = 512, hh_largest_block = 512\<rparr>, w)),
      pl_restart = (\<lambda>w. w), pl_record_store = (\<lambda>w r. w), pl_record_take = (\<lambda>w. (None, w)),
      pl_tick_start = (\<lambda>w t. (ESP_OK, w)), pl_twdt_add = (\<lambda>w. (ESP_OK, w)), pl_twdt_delete = (\<lambda>w. w),
      pl_twdt_reset = (\<lambda>w. w), pl_self = (\<lambda>w. Some 1)\<rparr>"

definition low_build :: health_build where
  "low_build = \<lparr>hb_max_conditions = 4, hb_max_watched = 2,
     hb_cfg = \<lparr>hk_strikes = 3, hk_heap_warn_kb = 0, hk_internal_warn_kb = 0, hk_internal_alarm_kb = 8,
               hk_largest_block_alarm_kb = 0, hk_internal_trough_warn_kb = 0\<rparr>, hb_tick_s = 10\<rparr>"

definition low_policy :: "(nat health \<times> unit, nat) health_policy" where
  "low_policy = snd (espos_health_policy_tick (PORT low_build low_plat)
     (espos_health_policy_init 2 (health_zero, ()) (hb_cfg low_build)))"

theorem watchdog_tick_strikes_iff_witness:
  "fst (espos_health_policy_tick (PORT low_build low_plat) low_policy) \<noteq> 0 \<and> p_strikes low_policy = 1"
proof -
  let ?s = "fst (p_ctx low_policy)"
  have inv: "health_inv (hb_max_conditions low_build) ?s" by code_simp
  have h: "h_locks ?s = []" "\<not> p_restarting low_policy" "health_lookup ?s ''lowMemory'' \<noteq> None"
    "\<not> p_ever_watched low_policy" "p_strikes low_policy = 1"
    "memory_alarm (hb_cfg low_build) (tick_heap (PORT low_build low_plat) low_policy)"
    by code_simp+
  have "policy_inv (hb_cfg low_build) low_policy"
    unfolding policy_inv_def by (intro conjI; code_simp)
  from watchdog_tick_strikes_iff [OF inv h(1) _ this h(2,3)] h show ?thesis
    by (metis prod.collapse)
qed

text \<open>
  The record the last boot left is read from the platform once: every later call of the
  same boot, the start of the policy in between included, returns the same record.
\<close>

theorem watchdog_record_read_once:
  assumes "espos_health_last_reset plat d = (r, d')" and "d_locks d = []"
    and "espos_health_policy_start b plat d' = (err, d'')"
  shows "fst (espos_health_last_reset plat d') = r \<and> fst (espos_health_last_reset plat d'') = r"
proof -
  have lk: "watchdog_lock x = (True, x)" if "d_locks x = []" for x :: "('a, 'b, 'c) watchdog"
    using that by (simp add: watchdog_lock_def)
  have pc: "d_record (snd (plat_call f x)) = d_record x" "d_record_checked (snd (plat_call f x)) = d_record_checked x"
    "d_locks (snd (plat_call f x)) = d_locks x" for f :: "'b \<Rightarrow> 'x \<times> 'b" and x :: "('a, 'b, 'c) watchdog"
    by (simp_all add: plat_call_def split_beta)
  have tk: "d_record_checked (take_record plat x)" "d_locks (take_record plat x) = d_locks x" for x :: "('a, 'b, 'c) watchdog"
    by (simp_all add: take_record_def Let_def split_beta plat_call_def)
  have d': "d_record_checked d'" "d_record d' = r" "d_locks d' = []"
    using assms(1,2) tk [of d] by (auto simp: espos_health_last_reset_def lk Let_def)
  then have "d_record_checked d'' \<and> d_record d'' = r \<and> d_locks d'' = []"
    using assms(3)
    by (auto simp: espos_health_policy_start_def lk Let_def split_beta take_record_def ensure_policy_def plat_call_def split: if_splits)
  with d' show ?thesis by (simp add: espos_health_last_reset_def lk take_record_def)
qed


text \<open>A platform whose memory holds a record until it is taken.\<close>

definition kept_record :: reset_record where
  "kept_record = \<lparr>rr_magic = RECORD_MAGIC, rr_key = ''lowMemory'', rr_message = '''', rr_min_free_heap = 0,
     rr_min_internal = 0, rr_largest_block = 0, rr_uptime_s = 60, rr_unix_ms = 0\<rparr>"

definition taking_plat :: "(bool, nat) health_plat" where
  "taking_plat =
     \<lparr>pl_now_ms = (\<lambda>w. (0, w)), pl_uptime_s = (\<lambda>w. (1, w)), pl_unix_ms = (\<lambda>w. (0, w)),
      pl_heap = (\<lambda>w. (\<lparr>hh_total_free = 90000, hh_total_min = 80000, hh_internal_free = 1024, hh_internal_min = 512, hh_largest_block = 512\<rparr>, w)),
      pl_restart = (\<lambda>w. w), pl_record_store = (\<lambda>w r. w), pl_record_take = (\<lambda>w. (if w then Some kept_record else None, False)),
      pl_tick_start = (\<lambda>w t. (ESP_OK, w)), pl_twdt_add = (\<lambda>w. (ESP_OK, w)), pl_twdt_delete = (\<lambda>w. w),
      pl_twdt_reset = (\<lambda>w. w), pl_self = (\<lambda>w. Some 1)\<rparr>"

definition booted :: "(nat, bool, nat) watchdog" where
  "booted = \<lparr>d_policy = espos_health_policy_init 2 (health_zero, True) (hb_cfg low_build), d_policy_ready = False,
     d_started = False, d_record_checked = False, d_record = None, d_twdt_warned = False, d_locks = []\<rparr>"

theorem watchdog_record_read_once_witness:
  "fst (espos_health_last_reset taking_plat (snd (espos_health_policy_start low_build taking_plat
     (snd (espos_health_last_reset taking_plat booted))))) = Some kept_record"
proof -
  have r: "fst (espos_health_last_reset taking_plat booted) = Some kept_record" by code_simp
  have "d_locks booted = []" by (simp add: booted_def)
  from watchdog_record_read_once [OF prod.collapse [symmetric] this prod.collapse [symmetric]] r show ?thesis
    by simp
qed

end
