(* ===== verification/Sk_Select.thy ===== *)
theory Sk_Select
  imports Token_Sm
begin

text \<open>
  Which discovered server is "ours", src/components/espos_sk/src/sk_select.c: the anchor of the
  stored pairing, the election order, the list of one discovery round and the merge of a round
  into the server table.

  An index or \<open>-1\<close> is a \<open>nat option\<close>. An array with its count is a list; the two
  parallel arrays of the table (the entries and their avoid stamps) are one list of pairs. The
  anchor's fields and the current host point into the store or to an empty literal and are never
  NULL (\<open>espos_sk_store_anchor\<close>, the callers in espos_sk.c), so they are strings.
\<close>

record sk_discovered =
  d_host :: string
  d_port :: u16
  d_self :: string
  d_name :: string
  d_roles :: string
  d_swname :: string
  d_swvers :: string
  d_tls :: bool
  d_seen_ms :: u32

record sk_anchor =
  an_host :: string
  an_port :: u16
  an_self :: string

text \<open>The server in use and whether the self URN may stand in for the address.\<close>

record sk_keep =
  kp_anchor :: sk_anchor
  kp_cur_host :: string
  kp_cur_port :: u16
  kp_self_fallback :: bool

record sk_merge_in =
  mi_table :: "(sk_discovered \<times> u32) list"
  mi_found :: "sk_discovered list"
  mi_anchor :: sk_anchor
  mi_cur_host :: string
  mi_cur_port :: u16
  mi_self_fallback :: bool
  mi_now_ms :: u32
  mi_carry_ms :: u32

text \<open>\<open>strcmp\<close> on bytes, by its sign.\<close>

fun strcmp :: "string \<Rightarrow> string \<Rightarrow> int" where
  "strcmp [] [] = 0"
| "strcmp [] (y # ys) = - 1"
| "strcmp (x # xs) [] = 1"
| "strcmp (x # xs) (y # ys) = (if x = y then strcmp xs ys else of_char x - of_char y)"

definition espos_sk_store_anchor :: "tok_store \<Rightarrow> sk_anchor" where
  "espos_sk_store_anchor st =
     (if s_token st \<noteq> '''' then \<lparr>an_host = s_token_host st, an_port = s_token_port st, an_self = s_token_self st\<rparr>
      else if s_pending_href st \<noteq> ''''
      then \<lparr>an_host = s_pending_host st, an_port = s_pending_port st, an_self = s_pending_self st\<rparr>
      else \<lparr>an_host = '''', an_port = 0, an_self = ''''\<rparr>)"

definition espos_sk_same_addr :: "sk_discovered \<Rightarrow> string \<Rightarrow> u16 \<Rightarrow> bool" where
  "espos_sk_same_addr d host port \<longleftrightarrow> host \<noteq> '''' \<and> d_port d = port \<and> strcmp (d_host d) host = 0"

definition espos_sk_disc_before :: "string \<Rightarrow> u16 \<Rightarrow> sk_discovered \<Rightarrow> sk_discovered \<Rightarrow> bool" where
  "espos_sk_disc_before cur_host cur_port a b =
     (let c = strcmp (d_self a) (d_self b)
      in if c \<noteq> 0 then c < 0
         else
           (let a_cur = espos_sk_same_addr a cur_host cur_port; b_cur = espos_sk_same_addr b cur_host cur_port
            in if a_cur \<noteq> b_cur then a_cur
               else
                 (let c = strcmp (d_host a) (d_host b)
                  in if c \<noteq> 0 then c < 0 else d_port a < d_port b)))"

definition espos_sk_is_anchor :: "sk_discovered \<Rightarrow> sk_anchor \<Rightarrow> bool" where
  "espos_sk_is_anchor d anchor =
     (let self_ok = (an_self anchor = '''' \<or> d_self d = '''' \<or> strcmp (d_self d) (an_self anchor) = 0)
      in self_ok \<and> espos_sk_same_addr d (an_host anchor) (an_port anchor))"

fun anchor_index :: "sk_anchor \<Rightarrow> sk_discovered list \<Rightarrow> nat option" where
  "anchor_index anchor [] = None"
| "anchor_index anchor (d # ds) =
     (if espos_sk_is_anchor d anchor then Some 0 else map_option Suc (anchor_index anchor ds))"

text \<open>The loops that keep the first entry in election order among those that pass a test.\<close>

definition elect :: "(nat \<Rightarrow> bool) \<Rightarrow> string \<Rightarrow> u16 \<Rightarrow> sk_discovered list \<Rightarrow> nat option" where
  "elect ok cur_host cur_port list =
     foldl (\<lambda>idx i. if \<not> ok i then idx
              else case idx of
                     None \<Rightarrow> Some i
                   | Some j \<Rightarrow> if espos_sk_disc_before cur_host cur_port (list ! i) (list ! j) then Some i else idx)
       None [0..<length list]"

definition espos_sk_find_anchored ::
  "sk_discovered list \<Rightarrow> sk_anchor \<Rightarrow> string \<Rightarrow> u16 \<Rightarrow> bool \<Rightarrow> nat option" where
  "espos_sk_find_anchored list anchor cur_host cur_port self_fallback =
     (case anchor_index anchor list of
        Some i \<Rightarrow> Some i
      | None \<Rightarrow>
          if an_self anchor = '''' \<or> an_host anchor \<noteq> '''' \<and> \<not> self_fallback then None
          else elect (\<lambda>i. strcmp (d_self (list ! i)) (an_self anchor) = 0) cur_host cur_port list)"

fun addr_index :: "string \<Rightarrow> u16 \<Rightarrow> sk_discovered list \<Rightarrow> nat option" where
  "addr_index host port [] = None"
| "addr_index host port (d # ds) =
     (if espos_sk_same_addr d host port then Some 0 else map_option Suc (addr_index host port ds))"

definition espos_sk_disc_add ::
  "nat \<Rightarrow> sk_keep option \<Rightarrow> sk_discovered list \<Rightarrow> sk_discovered \<Rightarrow> sk_discovered list" where
  "espos_sk_disc_add cap keep out d =
     (case addr_index (d_host d) (d_port d) out of
        Some i \<Rightarrow> out[i := d]
      | None \<Rightarrow>
          if length out < cap then out @ [d]
          else if cap = 0 then out
          else case keep of
                 None \<Rightarrow> out
               | Some k \<Rightarrow>
                   (let find = (\<lambda>l. espos_sk_find_anchored l (kp_anchor k) (kp_cur_host k) (kp_cur_port k) (kp_self_fallback k));
                        cur = find out;
                        pair = (case cur of Some c \<Rightarrow> [out ! c] | None \<Rightarrow> []) @ [d]
                    in if find pair \<noteq> Some (length pair - 1) then out
                       else out[(case cur of Some c \<Rightarrow> c | None \<Rightarrow> cap - 1) := d]))"

definition carry_avoid :: "(sk_discovered \<times> u32) list \<Rightarrow> sk_discovered \<Rightarrow> u32 \<Rightarrow> u32" where
  "carry_avoid table d avoid =
     foldl (\<lambda>avoid (e, a). if espos_sk_same_addr e (d_host d) (d_port d) then a else avoid) avoid table"

text \<open>The first slot: the anchored server of the table, this round's copy of it, or the one of this round.\<close>

definition merge_reserve :: "sk_merge_in \<Rightarrow> (sk_discovered \<times> u32) option" where
  "merge_reserve m =
     (let find = (\<lambda>l. espos_sk_find_anchored l (mi_anchor m) (mi_cur_host m) (mi_cur_port m) (mi_self_fallback m));
          kept =
            (case find (map fst (mi_table m)) of
               None \<Rightarrow> None
             | Some keep \<Rightarrow>
                 (let (e, avoid) = mi_table m ! keep
                  in case addr_index (d_host e) (d_port e) (mi_found m) of
                       Some k \<Rightarrow> Some ((mi_found m ! k)\<lparr>d_seen_ms := mi_now_ms m\<rparr>, avoid)
                     | None \<Rightarrow>
                         if sint (mi_now_ms m - d_seen_ms e) < sint (mi_carry_ms m) then Some (e, avoid) else None))
      in case kept of
           Some x \<Rightarrow> Some x
         | None \<Rightarrow>
             (case find (mi_found m) of
                None \<Rightarrow> None
              | Some k \<Rightarrow>
                  Some ((mi_found m ! k)\<lparr>d_seen_ms := mi_now_ms m\<rparr>, carry_avoid (mi_table m) (mi_found m ! k) 0)))"

fun merge_found ::
  "sk_merge_in \<Rightarrow> nat \<Rightarrow> bool \<Rightarrow> sk_discovered list \<Rightarrow> (sk_discovered \<times> u32) list \<Rightarrow> (sk_discovered \<times> u32) list" where
  "merge_found m cap reserved [] out = out"
| "merge_found m cap reserved (f # fs) out =
     (if length out < cap then
        (if reserved \<and> espos_sk_same_addr f (d_host (fst (hd out))) (d_port (fst (hd out)))
         then merge_found m cap reserved fs out
         else merge_found m cap reserved fs (out @ [(f\<lparr>d_seen_ms := mi_now_ms m\<rparr>, carry_avoid (mi_table m) f 0)]))
      else out)"

fun merge_carried ::
  "sk_merge_in \<Rightarrow> nat \<Rightarrow> (sk_discovered \<times> u32) list \<Rightarrow> (sk_discovered \<times> u32) list \<Rightarrow> (sk_discovered \<times> u32) list" where
  "merge_carried m cap [] out = out"
| "merge_carried m cap ((e, avoid) # es) out =
     (if length out < cap then
        (let dup = list_ex (\<lambda>(o', _). espos_sk_same_addr o' (d_host e) (d_port e)) out
         in if \<not> dup \<and> sint (mi_now_ms m - d_seen_ms e) < sint (mi_carry_ms m)
            then merge_carried m cap es (out @ [(e, avoid)]) else merge_carried m cap es out)
      else out)"

definition espos_sk_merge_servers :: "sk_merge_in \<Rightarrow> nat \<Rightarrow> (sk_discovered \<times> u32) list" where
  "espos_sk_merge_servers m cap =
     (if cap = 0 then []
      else
        (let reserve = merge_reserve m;
             out = (case reserve of None \<Rightarrow> [] | Some x \<Rightarrow> [x]);
             out = merge_found m cap (reserve \<noteq> None) (mi_found m) out
         in merge_carried m cap (mi_table m) out))"

subsection \<open>The election order\<close>

lemma strcmp_0 [simp]: "strcmp a b = 0 \<longleftrightarrow> a = b"
  by (induction a b rule: strcmp.induct) auto

lemma strcmp_refl [simp]: "strcmp a a = 0"
  by simp

lemma strcmp_neg: "strcmp b a < 0 \<longleftrightarrow> 0 < strcmp a b"
  by (induction a b rule: strcmp.induct) auto

lemma strcmp_trans: "strcmp a b < 0 \<Longrightarrow> strcmp b c < 0 \<Longrightarrow> strcmp a c < 0"
proof (induction a b arbitrary: c rule: strcmp.induct)
  case (2 y ys)
  then show ?case by (cases c) auto
next
  case (4 x xs y ys)
  then show ?case by (cases c) (auto split: if_splits)
qed auto

definition addr :: "sk_discovered \<Rightarrow> string \<times> u16" where
  "addr d = (d_host d, d_port d)"

lemma same_addr_iff: "espos_sk_same_addr d host port \<longleftrightarrow> host \<noteq> '''' \<and> addr d = (host, port)"
  by (auto simp: espos_sk_same_addr_def addr_def)

lemma addr_seen [simp]: "addr (d\<lparr>d_seen_ms := t\<rparr>) = addr d"
  by (simp add: addr_def)

lemma before_irrefl: "\<not> espos_sk_disc_before h p d d"
  by (simp add: espos_sk_disc_before_def Let_def)

lemma before_trans:
  "espos_sk_disc_before h p a b \<Longrightarrow> espos_sk_disc_before h p b c \<Longrightarrow> espos_sk_disc_before h p a c"
  using strcmp_trans [of "d_self a" "d_self b" "d_self c"] strcmp_trans [of "d_host a" "d_host b" "d_host c"]
  by (auto simp: espos_sk_disc_before_def Let_def split: if_splits dest: less_trans)

lemma before_total:
  "\<not> espos_sk_disc_before h p a b \<Longrightarrow> \<not> espos_sk_disc_before h p b a \<Longrightarrow> addr a = addr b \<and> d_self a = d_self b"
  using strcmp_neg [of "d_self a" "d_self b"] strcmp_neg [of "d_host a" "d_host b"]
    strcmp_0 [of "d_self a" "d_self b"] strcmp_0 [of "d_host a" "d_host b"]
    strcmp_0 [of "d_self b" "d_self a"] strcmp_0 [of "d_host b" "d_host a"]
  by (auto simp: espos_sk_disc_before_def addr_def Let_def simp del: strcmp_0 split: if_splits)

definition elected :: "(nat \<Rightarrow> bool) \<Rightarrow> string \<Rightarrow> u16 \<Rightarrow> sk_discovered list \<Rightarrow> nat \<Rightarrow> nat option \<Rightarrow> bool" where
  "elected ok h p list n idx \<longleftrightarrow>
     (case idx of
        None \<Rightarrow> \<forall>j<n. \<not> ok j
      | Some i \<Rightarrow> i < n \<and> ok i \<and> (\<forall>j<n. ok j \<longrightarrow> \<not> espos_sk_disc_before h p (list ! j) (list ! i)))"

lemma elect_elected: "elected ok h p list (length list) (elect ok h p list)"
proof -
  let ?f = "\<lambda>idx i. if \<not> ok i then idx
              else case idx of
                     None \<Rightarrow> Some i
                   | Some j \<Rightarrow> if espos_sk_disc_before h p (list ! i) (list ! j) then Some i else idx"
  have "elected ok h p list n (foldl ?f None [0..<n])" for n
  proof (induction n)
    case 0
    then show ?case by (simp add: elected_def)
  next
    case (Suc n)
    then show ?case
      by (auto simp: elected_def less_Suc_eq before_irrefl split: option.splits intro: before_trans)
  qed
  then show ?thesis by (simp add: elect_def)
qed

lemma elect_Some:
  assumes "elect ok h p list = Some i"
  shows "i < length list" "ok i"
    "\<And>j. j < length list \<Longrightarrow> ok j \<Longrightarrow> \<not> espos_sk_disc_before h p (list ! j) (list ! i)"
  using elect_elected [of ok h p list] assms by (auto simp: elected_def)

lemma elect_None: "elect ok h p list = None \<longleftrightarrow> (\<forall>j<length list. \<not> ok j)"
  using elect_elected [of ok h p list] by (auto simp: elected_def split: option.splits)

subsection \<open>The anchored server of a list\<close>

lemma anchor_index_None: "anchor_index an ds = None \<longleftrightarrow> (\<forall>d\<in>set ds. \<not> espos_sk_is_anchor d an)"
  by (induction ds) auto

lemma anchor_index_Some: "anchor_index an ds = Some i \<Longrightarrow> i < length ds \<and> espos_sk_is_anchor (ds ! i) an"
  by (induction ds arbitrary: i) (auto split: if_splits)

lemma addr_index_None: "addr_index h p ds = None \<longleftrightarrow> (\<forall>d\<in>set ds. \<not> espos_sk_same_addr d h p)"
  by (induction ds) auto

lemma addr_index_Some: "addr_index h p ds = Some i \<Longrightarrow> i < length ds \<and> espos_sk_same_addr (ds ! i) h p"
  by (induction ds arbitrary: i) (auto split: if_splits)

lemma is_anchor_addr: "espos_sk_is_anchor d an \<Longrightarrow> addr d = (an_host an, an_port an) \<and> an_host an \<noteq> ''''"
  by (auto simp: espos_sk_is_anchor_def same_addr_iff Let_def)

definition anchored :: "sk_discovered list \<Rightarrow> sk_anchor \<Rightarrow> string \<Rightarrow> u16 \<Rightarrow> bool \<Rightarrow> sk_discovered option" where
  "anchored ds an h p fb = map_option ((!) ds) (espos_sk_find_anchored ds an h p fb)"

text \<open>What the choice is, on the set of the servers.\<close>

definition anchored_spec :: "sk_discovered set \<Rightarrow> sk_anchor \<Rightarrow> string \<Rightarrow> u16 \<Rightarrow> bool \<Rightarrow> sk_discovered \<Rightarrow> bool" where
  "anchored_spec S an h p fb d \<longleftrightarrow>
     d \<in> S \<and>
     (espos_sk_is_anchor d an \<or>
      (\<forall>e\<in>S. \<not> espos_sk_is_anchor e an) \<and> an_self an \<noteq> '''' \<and> (an_host an = '''' \<or> fb) \<and> d_self d = an_self an \<and>
      (\<forall>e\<in>S. d_self e = an_self an \<longrightarrow> \<not> espos_sk_disc_before h p e d))"

lemma anchored_Some: "anchored ds an h p fb = Some d \<Longrightarrow> anchored_spec (set ds) an h p fb d"
proof (cases "anchor_index an ds")
  case (Some i)
  moreover assume "anchored ds an h p fb = Some d"
  ultimately show ?thesis
    using anchor_index_Some [OF Some] by (auto simp: anchored_def espos_sk_find_anchored_def anchored_spec_def)
next
  case None
  assume a: "anchored ds an h p fb = Some d"
  with None obtain i where i: "elect (\<lambda>i. strcmp (d_self (ds ! i)) (an_self an) = 0) h p ds = Some i" "d = ds ! i"
    and ok: "an_self an \<noteq> ''''" "an_host an = '''' \<or> fb"
    by (auto simp: anchored_def espos_sk_find_anchored_def split: if_splits)
  from elect_Some [OF i(1)] i(2) ok None show ?thesis
    by (auto simp: anchored_spec_def anchor_index_None in_set_conv_nth)
qed

lemma anchored_None:
  "anchored ds an h p fb = None \<longleftrightarrow>
     (\<forall>d\<in>set ds. \<not> espos_sk_is_anchor d an) \<and>
     (an_self an = '''' \<or> an_host an \<noteq> '''' \<and> \<not> fb \<or> (\<forall>d\<in>set ds. d_self d \<noteq> an_self an))"
  by (auto simp: anchored_def espos_sk_find_anchored_def elect_None anchor_index_None [symmetric] all_set_conv_all_nth
      split: option.splits)

lemma anchored_spec_unique:
  assumes "inj_on addr S" and "anchored_spec S an h p fb d" and "anchored_spec S an h p fb e"
  shows "d = e"
proof -
  have S: "d \<in> S" "e \<in> S" using assms(2,3) by (simp_all add: anchored_spec_def)
  have "addr d = addr e"
  proof (cases "espos_sk_is_anchor d an")
    case True
    with assms(3) S(1) have "espos_sk_is_anchor e an" by (auto simp: anchored_spec_def)
    from is_anchor_addr [OF this] is_anchor_addr [OF True] show ?thesis by simp
  next
    case False
    with assms(2) S have d: "\<forall>e\<in>S. \<not> espos_sk_is_anchor e an" "d_self d = an_self an"
      "\<forall>e\<in>S. d_self e = an_self an \<longrightarrow> \<not> espos_sk_disc_before h p e d" by (simp_all add: anchored_spec_def)
    with assms(3) S have e: "d_self e = an_self an" "\<not> espos_sk_disc_before h p d e" by (simp_all add: anchored_spec_def)
    from d(3) e(1) S(2) have "\<not> espos_sk_disc_before h p e d" by blast
    from before_total [OF this e(2)] show ?thesis by simp
  qed
  with assms(1) S show ?thesis by (auto dest: inj_onD)
qed

lemma anchored_eqI:
  assumes "inj_on addr (set ds)" and "anchored_spec (set ds) an h p fb d"
  shows "anchored ds an h p fb = Some d"
proof (cases "anchored ds an h p fb")
  case None
  with assms(2) show ?thesis by (auto simp: anchored_None anchored_spec_def)
next
  case (Some e)
  from anchored_spec_unique [OF assms(1) assms(2) anchored_Some [OF Some]] Some show ?thesis by simp
qed

text \<open>
  C33. Which server the device takes for its own does not depend on the order in which the servers
  answered: two lists of the same servers, each at its own address, give the same server.
\<close>

theorem sk_choice_ignores_answer_order:
  assumes "inj_on addr (set ds)" and "set ds' = set ds"
  shows "map_option ((!) ds') (espos_sk_find_anchored ds' an cur_host cur_port fb) =
         map_option ((!) ds) (espos_sk_find_anchored ds an cur_host cur_port fb)"
proof (cases "anchored ds' an cur_host cur_port fb")
  case None
  with assms(2) have "anchored ds an cur_host cur_port fb = None" by (simp add: anchored_None)
  with None show ?thesis by (simp only: anchored_def)
next
  case (Some d)
  from anchored_Some [OF Some] assms(2) have "anchored ds an cur_host cur_port fb = Some d"
    by (simp add: anchored_eqI [OF assms(1)])
  with Some show ?thesis by (simp only: anchored_def)
qed

definition twin_at :: "string \<Rightarrow> sk_discovered" where
  "twin_at host = \<lparr>d_host = host, d_port = 3000, d_self = ''urn:mrn:1'', d_name = '''', d_roles = ''master'', d_swname = '''',
     d_swvers = '''', d_tls = False, d_seen_ms = 0\<rparr>"

definition by_self_anchor :: sk_anchor where
  "by_self_anchor = \<lparr>an_host = '''', an_port = 0, an_self = ''urn:mrn:1''\<rparr>"

theorem sk_choice_ignores_answer_order_witness:
  "map_option ((!) [twin_at ''b'', twin_at ''a'']) (espos_sk_find_anchored [twin_at ''b'', twin_at ''a''] by_self_anchor '''' 0 False) =
     Some (twin_at ''a'')"
proof -
  have "inj_on addr (set [twin_at ''a'', twin_at ''b''])" by (simp add: addr_def twin_at_def)
  from sk_choice_ignores_answer_order [OF this, of "[twin_at ''b'', twin_at ''a'']" by_self_anchor "''''" 0 False]
  show ?thesis
    by (auto simp: espos_sk_find_anchored_def elect_def espos_sk_is_anchor_def same_addr_iff by_self_anchor_def
        espos_sk_disc_before_def twin_at_def Let_def)
qed

subsection \<open>One discovery round\<close>

lemma find_anchored_lt: "espos_sk_find_anchored ds an h p fb = Some i \<Longrightarrow> i < length ds"
  by (auto simp: espos_sk_find_anchored_def dest: anchor_index_Some elect_Some(1) split: option.splits if_splits)

lemma find_anchoredE:
  assumes "anchored ds an h p fb = Some d"
  obtains i where "espos_sk_find_anchored ds an h p fb = Some i" "i < length ds" "ds ! i = d"
  using assms find_anchored_lt by (auto simp: anchored_def)

definition disc_inv :: "sk_discovered list \<Rightarrow> bool" where
  "disc_inv out \<longleftrightarrow> distinct (map addr out) \<and> (\<forall>d\<in>set out. d_host d \<noteq> '''')"

lemma disc_inv_inj: "disc_inv out \<Longrightarrow> inj_on addr (set out)"
  by (simp add: disc_inv_def distinct_map)

lemma same_addr_disc: "d_host d \<noteq> '''' \<Longrightarrow> espos_sk_same_addr e (d_host d) (d_port d) \<longleftrightarrow> addr e = addr d"
  by (simp add: same_addr_iff addr_def)

lemma disc_inv_update:
  assumes "disc_inv out" and "i < length out" and "d_host d \<noteq> ''''" and "addr d \<notin> addr ` (set out - {out ! i})"
  shows "disc_inv (out[i := d])"
proof -
  have di: "distinct out" using assms(1) by (auto simp: disc_inv_def distinct_map)
  have "distinct ((map addr out)[i := addr d])"
  proof (rule distinct_list_update)
    show "distinct (map addr out)" using assms(1) by (simp add: disc_inv_def)
    show "addr d \<notin> set (map addr out) - {map addr out ! i}" using assms(2,4) by auto
  qed
  then show ?thesis using assms(1,3) set_update_subset_insert [of out i d]
    by (auto simp: disc_inv_def map_update)
qed

lemma disc_add_cases [consumes 2, case_names listed room refused replaced]:
  assumes "disc_inv out" and "d_host d \<noteq> ''''"
  obtains (listed) i where "i < length out" "addr (out ! i) = addr d" "espos_sk_disc_add cap keep out d = out[i := d]"
  | (room) "addr d \<notin> addr ` set out" "length out < cap" "espos_sk_disc_add cap keep out d = out @ [d]"
  | (refused) "addr d \<notin> addr ` set out" "\<not> length out < cap" "espos_sk_disc_add cap keep out d = out"
  | (replaced) k i where "addr d \<notin> addr ` set out" "\<not> length out < cap" "keep = Some k"
      "i = (case espos_sk_find_anchored out (kp_anchor k) (kp_cur_host k) (kp_cur_port k) (kp_self_fallback k) of
              Some c \<Rightarrow> c | None \<Rightarrow> cap - 1)"
      "espos_sk_disc_add cap keep out d = out[i := d]" "0 < cap"
proof (cases "addr_index (d_host d) (d_port d) out")
  case (Some i)
  from addr_index_Some [OF Some] assms(2) Some listed [of i] show ?thesis
    by (simp add: same_addr_disc espos_sk_disc_add_def)
next
  case None
  then have n: "addr d \<notin> addr ` set out" using assms(2) by (auto simp: addr_index_None same_addr_disc)
  show ?thesis
  proof (cases "length out < cap")
    case True
    with None n room show ?thesis by (simp add: espos_sk_disc_add_def)
  next
    case full: False
    show ?thesis
    proof (cases "cap = 0 \<or> keep = None")
      case True
      with None n full refused show ?thesis by (auto simp: espos_sk_disc_add_def)
    next
      case False
      then obtain k where k: "keep = Some k" "cap \<noteq> 0" by auto
      with None full have "espos_sk_disc_add cap keep out d = out \<or> espos_sk_disc_add cap keep out d =
          out[(case espos_sk_find_anchored out (kp_anchor k) (kp_cur_host k) (kp_cur_port k) (kp_self_fallback k) of
                 Some c \<Rightarrow> c | None \<Rightarrow> cap - 1) := d]"
        by (auto simp: espos_sk_disc_add_def Let_def split: option.splits)
      with n full k refused replaced show ?thesis by blast
    qed
  qed
qed

lemma disc_add_inv:
  assumes "disc_inv out" and "d_host d \<noteq> ''''" and "length out \<le> cap"
  shows "disc_inv (espos_sk_disc_add cap keep out d) \<and> length (espos_sk_disc_add cap keep out d) \<le> cap"
using assms(1,2)
proof (cases rule: disc_add_cases [where cap = cap and keep = keep])
  case (listed i)
  have "addr d \<notin> addr ` (set out - {out ! i})"
    using listed(1,2) disc_inv_inj [OF assms(1)] by (auto simp: inj_on_def)
  with listed assms show ?thesis by (simp add: disc_inv_update)
next
  case room
  with assms show ?thesis by (auto simp: disc_inv_def)
next
  case refused
  with assms show ?thesis by simp
next
  case (replaced k i)
  have "i < length out"
    using replaced(2,4,6) assms(3) by (auto dest: find_anchored_lt split: option.splits)
  with replaced(1) have "disc_inv (out[i := d])"
    by (intro disc_inv_update assms) (auto simp: image_iff)
  with replaced(5) assms show ?thesis by simp
qed

text \<open>The anchored server gets in whenever it answers, and stays.\<close>

lemma pair_pick:
  assumes "espos_sk_is_anchor x an" and "x \<in> set pair" and "inj_on addr (set pair)"
    and "espos_sk_find_anchored pair an h p fb = Some i" 
  shows "pair ! i = x"
proof -
  have "anchored pair an h p fb = Some x"
    using assms(1,2) by (intro anchored_eqI [OF assms(3)]) (simp add: anchored_spec_def)
  with assms(4) show ?thesis by (simp add: anchored_def)
qed

lemma anchored_anchor:
  assumes "espos_sk_is_anchor x an" and "x \<in> set ds" and "inj_on addr (set ds)"
  obtains i where "espos_sk_find_anchored ds an h p fb = Some i" "i < length ds" "ds ! i = x"
proof -
  have "anchored ds an h p fb = Some x"
    using assms(1,2) by (intro anchored_eqI [OF assms(3)]) (simp add: anchored_spec_def)
  then show ?thesis by (rule find_anchoredE) (rule that)
qed

lemma disc_add_keeps:
  assumes "disc_inv out" and "d_host d \<noteq> ''''" and "a \<in> set out" and "espos_sk_is_anchor a (kp_anchor k)" and "addr d \<noteq> addr a"
  shows "a \<in> set (espos_sk_disc_add cap (Some k) out d)"
using assms(1,2)
proof (cases rule: disc_add_cases [where cap = cap and keep = "Some k"])
  case (listed i)
  with assms(3,5) show ?thesis by (auto simp: in_set_conv_nth nth_list_update) metis
next
  case (replaced k' i)
  let ?find = "\<lambda>l. espos_sk_find_anchored l (kp_anchor k) (kp_cur_host k) (kp_cur_port k) (kp_self_fallback k)"
  obtain c where c: "?find out = Some c" "c < length out" "out ! c = a"
    by (rule anchored_anchor [OF assms(4,3) disc_inv_inj [OF assms(1)]])
  have inj: "inj_on addr (set [a, d])" using assms(5) by auto
  obtain j where j: "?find [a, d] = Some j" "j < length [a, d]" "[a, d] ! j = a"
    by (rule anchored_anchor [OF assms(4) _ inj]) simp
  have "j = 0" using j(2,3) assms(5) by (cases j) auto
  have "addr_index (d_host d) (d_port d) out = None"
    using replaced(1) unfolding addr_index_None same_addr_disc [OF assms(2)] by (metis imageI)
  with replaced(2,6) c j(1) \<open>j = 0\<close> assms(3) show ?thesis by (simp add: espos_sk_disc_add_def)
qed (use assms(3) in auto)

lemma disc_add_takes:
  assumes "disc_inv out" and "length out \<le> cap" and "0 < cap" and "espos_sk_is_anchor d (kp_anchor k)"
  shows "d \<in> set (espos_sk_disc_add cap (Some k) out d)"
proof -
  have h: "d_host d \<noteq> ''''" using is_anchor_addr [OF assms(4)] by (auto simp: addr_def)
  show ?thesis using assms(1) h
  proof (cases rule: disc_add_cases [where cap = cap and keep = "Some k"])
    case (listed i)
    then show ?thesis by (auto simp: set_update_memI)
  next
    case refused
    let ?find = "\<lambda>l. espos_sk_find_anchored l (kp_anchor k) (kp_cur_host k) (kp_cur_port k) (kp_self_fallback k)"
    let ?pair = "(case ?find out of Some c \<Rightarrow> [out ! c] | None \<Rightarrow> []) @ [d]"
    have n: "addr_index (d_host d) (d_port d) out = None"
      using refused(1) h unfolding addr_index_None same_addr_disc [OF h] by (metis imageI)
    have o: "addr (out ! c) \<noteq> addr d" if "?find out = Some c" for c
      using refused(1) find_anchored_lt [OF that] by (metis imageI nth_mem)
    have inj: "inj_on addr (set ?pair)" using o by (cases "?find out") auto
    obtain j where j: "?find ?pair = Some j" "j < length ?pair" "?pair ! j = d"
      by (rule anchored_anchor [OF assms(4) _ inj]) simp
    have "j = length ?pair - 1" using j(2,3) o by (cases "?find out") (auto simp: less_Suc_eq)
    with j(1) n refused(2) assms(2,3) show ?thesis
      by (auto simp: espos_sk_disc_add_def Let_def dest: find_anchored_lt intro!: set_update_memI split: option.splits)
  next
    case (replaced k' i)
    have "i < length out"
      using replaced(2,4,6) assms(2) by (auto dest: find_anchored_lt split: option.splits)
    with replaced(5) show ?thesis by (simp add: set_update_memI)
  qed auto
qed

lemma disc_round_inv:
  assumes "disc_inv out" and "length out \<le> cap" and "\<And>d. d \<in> set as \<Longrightarrow> d_host d \<noteq> ''''"
  shows "disc_inv (foldl (espos_sk_disc_add cap keep) out as) \<and> length (foldl (espos_sk_disc_add cap keep) out as) \<le> cap"
  using assms
proof (induction as arbitrary: out)
  case (Cons d as)
  with disc_add_inv [of out d cap keep] show ?case by simp
qed simp

lemma disc_round_keeps:
  assumes "disc_inv out" and "length out \<le> cap" and "\<And>d. d \<in> set as \<Longrightarrow> d_host d \<noteq> ''''"
    and "a \<in> set out" and "espos_sk_is_anchor a (kp_anchor k)" and "\<And>d. d \<in> set as \<Longrightarrow> addr d \<noteq> addr a"
  shows "a \<in> set (foldl (espos_sk_disc_add cap (Some k)) out as)"
  using assms
proof (induction as arbitrary: out)
  case (Cons d as)
  with disc_add_inv [of out d cap "Some k"] disc_add_keeps [of out d a k cap] show ?case by simp
qed simp

text \<open>The list of a round holds the anchored server if it answered: its last answer.\<close>

lemma disc_round_anchor:
  assumes "\<And>d. d \<in> set (as @ a # bs) \<Longrightarrow> d_host d \<noteq> ''''" and "0 < cap"
    and "espos_sk_is_anchor a (kp_anchor k)" and "\<And>b. b \<in> set bs \<Longrightarrow> addr b \<noteq> addr a"
  shows "a \<in> set (foldl (espos_sk_disc_add cap (Some k)) [] (as @ a # bs))"
proof -
  let ?out = "foldl (espos_sk_disc_add cap (Some k)) [] as"
  have inv: "disc_inv ?out \<and> length ?out \<le> cap"
    using assms(1) by (intro disc_round_inv) (auto simp: disc_inv_def)
  have a: "d_host a \<noteq> ''''" using assms(1) by simp
  have inv': "disc_inv (espos_sk_disc_add cap (Some k) ?out a) \<and> length (espos_sk_disc_add cap (Some k) ?out a) \<le> cap"
    using inv a by (simp add: disc_add_inv)
  have "a \<in> set (espos_sk_disc_add cap (Some k) ?out a)" using inv assms(2,3) by (simp add: disc_add_takes)
  with inv' show ?thesis using assms by (simp add: disc_round_keeps)
qed

subsection \<open>The merge\<close>

lemma merge_found_prefix: "\<exists>zs. merge_found m cap r fs out = out @ zs"
proof (induction fs arbitrary: out)
  case (Cons f fs)
  show ?case using Cons [of out] Cons [of "out @ [(f\<lparr>d_seen_ms := mi_now_ms m\<rparr>, carry_avoid (mi_table m) f 0)]"] by auto
qed simp

lemma merge_carried_prefix: "\<exists>zs. merge_carried m cap es out = out @ zs"
proof (induction es arbitrary: out)
  case (Cons e es)
  obtain d av where e: "e = (d, av)" by force
  show ?case unfolding e using Cons [of out] Cons [of "out @ [(d, av)]"] by (auto simp: Let_def)
qed simp

lemma merge_servers_reserve:
  assumes "merge_reserve m = Some x" and "0 < cap"
  shows "\<exists>ys. espos_sk_merge_servers m cap = x # ys"
proof -
  obtain zs where "merge_found m cap True (mi_found m) [x] = [x] @ zs" using merge_found_prefix by blast
  moreover obtain ws where "merge_carried m cap (mi_table m) ([x] @ zs) = ([x] @ zs) @ ws" using merge_carried_prefix by blast
  ultimately show ?thesis using assms by (simp add: espos_sk_merge_servers_def)
qed

lemma merge_reserve_answered:
  assumes "disc_inv (mi_found m)" and "a \<in> set (mi_found m)" and "espos_sk_is_anchor a (mi_anchor m)"
    and "\<not> mi_self_fallback m"
  shows "\<exists>av. merge_reserve m = Some (a\<lparr>d_seen_ms := mi_now_ms m\<rparr>, av)"
proof -
  let ?find = "\<lambda>l. espos_sk_find_anchored l (mi_anchor m) (mi_cur_host m) (mi_cur_port m) (mi_self_fallback m)"
  note inj = disc_inv_inj [OF assms(1)]
  obtain k where k: "?find (mi_found m) = Some k" "mi_found m ! k = a"
    by (rule anchored_anchor [OF assms(3,2) inj])
  have h: "addr a = (an_host (mi_anchor m), an_port (mi_anchor m))" "an_host (mi_anchor m) \<noteq> ''''"
    using is_anchor_addr [OF assms(3)] by simp_all
  show ?thesis
  proof (cases "?find (map fst (mi_table m))")
    case None
    with k show ?thesis by (simp add: merge_reserve_def Let_def)
  next
    case (Some keep)
    define e av where "e = fst (mi_table m ! keep)" and "av = snd (mi_table m ! keep)"
    have kl: "keep < length (mi_table m)" using find_anchored_lt [OF Some] by simp
    have "anchored (map fst (mi_table m)) (mi_anchor m) (mi_cur_host m) (mi_cur_port m) (mi_self_fallback m) = Some e"
      using Some kl by (simp add: anchored_def e_def)
    from anchored_Some [OF this] have "espos_sk_is_anchor e (mi_anchor m)"
      using h(2) assms(4) by (simp add: anchored_spec_def)
    from is_anchor_addr [OF this] h have ea: "addr e = addr a" "d_host e \<noteq> ''''" by (auto simp: addr_def)
    have ne: "addr_index (d_host e) (d_port e) (mi_found m) \<noteq> None"
      using assms(2) ea by (auto simp: addr_index_None same_addr_disc)
    then obtain j where j: "addr_index (d_host e) (d_port e) (mi_found m) = Some j" by auto
    from addr_index_Some [OF j] ea have "j < length (mi_found m)" "addr (mi_found m ! j) = addr a"
      by (simp_all add: same_addr_disc)
    then have "mi_found m ! j = a" using inj assms(2) by (metis inj_onD nth_mem)
    moreover have "mi_table m ! keep = (e, av)" by (simp add: e_def av_def)
    ultimately show ?thesis using Some j by (simp add: merge_reserve_def Let_def)
  qed
qed

lemma merge_reserve_carried:
  assumes "disc_inv (map fst (mi_table m))" and "(e, av) \<in> set (mi_table m)" and "espos_sk_is_anchor e (mi_anchor m)"
    and "\<And>f. f \<in> set (mi_found m) \<Longrightarrow> addr f \<noteq> addr e"
    and "sint (mi_now_ms m - d_seen_ms e) < sint (mi_carry_ms m)"
  shows "\<exists>av. merge_reserve m = Some (e, av)"
proof -
  have e: "e \<in> set (map fst (mi_table m))" using assms(2) by force
  obtain k where k: "espos_sk_find_anchored (map fst (mi_table m)) (mi_anchor m) (mi_cur_host m) (mi_cur_port m) (mi_self_fallback m) = Some k"
    "k < length (map fst (mi_table m))" "map fst (mi_table m) ! k = e"
    by (rule anchored_anchor [OF assms(3) e disc_inv_inj [OF assms(1)]])
  obtain av' where t: "mi_table m ! k = (e, av')" using k(2,3) by (cases "mi_table m ! k") simp
  have "d_host e \<noteq> ''''" using is_anchor_addr [OF assms(3)] by (auto simp: addr_def)
  then have "addr_index (d_host e) (d_port e) (mi_found m) = None"
    using assms(4) by (auto simp: addr_index_None same_addr_disc)
  with k(1) t assms(5) show ?thesis by (simp add: merge_reserve_def Let_def)
qed

text \<open>The merged table lists every server once.\<close>

lemma merge_found_inv:
  assumes "disc_inv (map fst out)" and "distinct (map addr fs)" and "\<And>f. f \<in> set fs \<Longrightarrow> d_host f \<noteq> ''''"
    and "\<And>f. f \<in> set fs \<Longrightarrow> addr f \<in> addr ` fst ` set out \<Longrightarrow> r \<and> addr f = addr (fst (hd out))"
    and "r \<Longrightarrow> out \<noteq> []" and "length out \<le> cap"
  shows "disc_inv (map fst (merge_found m cap r fs out)) \<and> length (merge_found m cap r fs out) \<le> cap"
  using assms
proof (induction fs arbitrary: out)
  case (Cons f fs)
  show ?case
  proof (cases "length out < cap")
    case True
    have h: "d_host (fst (hd out)) \<noteq> ''''" if r using Cons.prems(1,5) that by (cases out) (auto simp: disc_inv_def)
    show ?thesis
    proof (cases "r \<and> addr f = addr (fst (hd out))")
      case skip: True
      then have "espos_sk_same_addr f (d_host (fst (hd out))) (d_port (fst (hd out)))" using h by (simp add: same_addr_disc)
      moreover have "disc_inv (map fst (merge_found m cap r fs out)) \<and> length (merge_found m cap r fs out) \<le> cap"
        using Cons.prems by (intro Cons.IH) auto
      ultimately show ?thesis using True skip by simp
    next
      case add: False
      let ?out = "out @ [(f\<lparr>d_seen_ms := mi_now_ms m\<rparr>, carry_avoid (mi_table m) f 0)]"
      have "\<not> (r \<and> espos_sk_same_addr f (d_host (fst (hd out))) (d_port (fst (hd out))))"
        using add h by (auto simp: same_addr_disc)
      moreover have "disc_inv (map fst (merge_found m cap r fs ?out)) \<and> length (merge_found m cap r fs ?out) \<le> cap"
      proof (rule Cons.IH)
        have "addr f \<notin> addr ` fst ` set out" using Cons.prems(4) [of f] add by auto
        then show "disc_inv (map fst ?out)" using Cons.prems(1,3) by (auto simp: disc_inv_def image_image)
        show "r \<and> addr g = addr (fst (hd ?out))" if "g \<in> set fs" "addr g \<in> addr ` fst ` set ?out" for g
        proof -
          have "addr g \<noteq> addr f" using that(1) Cons.prems(2) by (metis distinct.simps(2) image_eqI list.set_map list.simps(9))
          with that(2) have "addr g \<in> addr ` fst ` set out" by auto
          with Cons.prems(4) [of g] that(1) show ?thesis by (cases out) auto
        qed
      qed (use Cons.prems True in auto)
      ultimately show ?thesis using True by (simp only: merge_found.simps if_True if_False)
    qed
  next
    case False
    with Cons.prems show ?thesis by simp
  qed
qed simp

lemma merge_carried_inv:
  assumes "disc_inv (map fst out)" and "\<And>e. e \<in> fst ` set es \<Longrightarrow> d_host e \<noteq> ''''" and "length out \<le> cap"
  shows "disc_inv (map fst (merge_carried m cap es out)) \<and> length (merge_carried m cap es out) \<le> cap"
  using assms
proof (induction es arbitrary: out)
  case (Cons x es)
  obtain e av where x: "x = (e, av)" by force
  have h: "d_host e \<noteq> ''''" using Cons.prems(2) by (simp add: x)
  have dup: "list_ex (\<lambda>(o', _). espos_sk_same_addr o' (d_host e) (d_port e)) out \<longleftrightarrow> addr e \<in> addr ` fst ` set out"
    unfolding list_ex_iff split_def same_addr_disc [OF h] by (metis (no_types, lifting) image_iff)
  show ?case
  proof (cases "length out < cap \<and> addr e \<notin> addr ` fst ` set out \<and> sint (mi_now_ms m - d_seen_ms e) < sint (mi_carry_ms m)")
    case True
    then have "disc_inv (map fst (out @ [(e, av)]))" using Cons.prems(1) h by (auto simp: disc_inv_def image_image)
    with Cons.IH [of "out @ [(e, av)]"] Cons.prems True show ?thesis by (simp add: x dup)
  next
    case False
    with Cons.IH [of out] Cons.prems show ?thesis by (auto simp: x dup)
  qed
qed simp

lemma merge_reserve_member:
  "merge_reserve m = Some (d, av) \<Longrightarrow> d \<in> fst ` set (mi_table m) \<or> (\<exists>f\<in>set (mi_found m). d = f\<lparr>d_seen_ms := mi_now_ms m\<rparr>)"
  by (force simp: merge_reserve_def Let_def split: option.splits prod.splits if_splits
      dest: find_anchored_lt addr_index_Some intro: nth_mem rev_image_eqI)

lemma merge_servers_inv:
  assumes "disc_inv (mi_found m)" and "disc_inv (map fst (mi_table m))"
  shows "disc_inv (map fst (espos_sk_merge_servers m cap)) \<and> length (espos_sk_merge_servers m cap) \<le> cap"
proof (cases "cap = 0")
  case True
  then show ?thesis by (simp add: espos_sk_merge_servers_def disc_inv_def)
next
  case False
  let ?out = "case merge_reserve m of None \<Rightarrow> [] | Some x \<Rightarrow> [x]"
  have "disc_inv (map fst ?out)"
  proof (cases "merge_reserve m")
    case (Some x)
    obtain d av where x: "x = (d, av)" by force
    from merge_reserve_member [OF Some [unfolded x]] assms have "d_host d \<noteq> ''''"
      by (auto simp: disc_inv_def)
    with Some show ?thesis by (simp add: x disc_inv_def)
  qed (simp add: disc_inv_def)
  then have "disc_inv (map fst (merge_found m cap (merge_reserve m \<noteq> None) (mi_found m) ?out)) \<and>
      length (merge_found m cap (merge_reserve m \<noteq> None) (mi_found m) ?out) \<le> cap"
    using assms(1) False by (intro merge_found_inv) (auto simp: disc_inv_def split: option.splits)
  then have "disc_inv (map fst (merge_carried m cap (mi_table m) (merge_found m cap (merge_reserve m \<noteq> None) (mi_found m) ?out))) \<and>
      length (merge_carried m cap (mi_table m) (merge_found m cap (merge_reserve m \<noteq> None) (mi_found m) ?out)) \<le> cap"
    using assms(2) by (intro merge_carried_inv) (auto simp: disc_inv_def)
  with False show ?thesis by (simp only: espos_sk_merge_servers_def Let_def if_False)
qed

end
