(* ===== verification/Sk_Server.thy ===== *)
theory Sk_Server
  imports Sk_Select
begin

text \<open>
  The choice of the server in src/components/espos_sk/src/espos_sk.c: the scheme of a server, the
  count of the rounds the paired address was not heard in, \<open>select_server\<close> and
  \<open>run_discovery\<close>, on top of sk_select.c and of the token machine, whose events they send.

  What the task reaches through other components is an argument: the clock and the status
  callback are the token machine's port, \<open>sk_env\<close> has the build settings, whether the network
  is up and the probe of sk_http.c. The answers of one mDNS browse are a list in the order of
  arrival. The events and documents that go out are entries of \<open>sk_out\<close>. A copy between two
  buffers of the same size is the value.
\<close>

datatype espos_sk_probe = ESPOS_SK_PROBE_NO_ANSWER | ESPOS_SK_PROBE_PLAIN | ESPOS_SK_PROBE_TLS

record 'c sk_env =
  ve_tls_built :: bool
  ve_servers_cap :: nat
  ve_net_is_up :: "'c \<Rightarrow> bool \<times> 'c"
  ve_probe_https :: "'c \<Rightarrow> string \<Rightarrow> u16 \<Rightarrow> (espos_sk_probe \<times> u16) \<times> 'c"

datatype sk_output = SK_SERVER_SELECTED string u16 | SSE_SERVERS

record 'c sk =
  sk_sm :: "'c tok_sm"
  sk_discover_interval_ms :: u32
  sk_cfg_self :: string
  sk_cfg_pin :: bool
  sk_cfg_host :: string
  sk_cfg_port :: u16
  sk_cfg_scheme :: u8
  sk_probed_host :: string
  sk_probed_port :: u16
  sk_probed_tls :: bool
  sk_probed_use_port :: u16
  sk_probed_valid :: bool
  sk_scheme_provisional :: bool
  sk_have_server :: bool
  sk_server :: sk_server
  sk_server_source :: string
  sk_servers :: "(sk_discovered \<times> u32) list"
  sk_unheard_host :: string
  sk_unheard_port :: u16
  sk_unheard_rounds :: u32
  sk_last_discovery_ms :: u32
  sk_out :: "sk_output list"

definition sk_now :: "'c tok_port \<Rightarrow> 'c sk \<Rightarrow> u32 \<times> 'c sk" where
  "sk_now p s = (let (t, sm) = tok_now p (sk_sm s) in (t, s\<lparr>sk_sm := sm\<rparr>))"

definition sk_put :: "sk_output \<Rightarrow> 'c sk \<Rightarrow> 'c sk" where
  "sk_put x s = s\<lparr>sk_out := sk_out s @ [x]\<rparr>"

definition sk_event :: "'c tok_port \<Rightarrow> tok_event \<Rightarrow> 'c sk \<Rightarrow> 'c sk" where
  "sk_event p ev s = s\<lparr>sk_sm := espos_sk_tok_event p (sk_sm s) ev\<rparr>"

definition sk_status_changed :: "'c tok_port \<Rightarrow> 'c sk \<Rightarrow> 'c sk" where
  "sk_status_changed p s = s\<lparr>sk_sm := tok_notify p (sk_sm s)\<rparr>"

subsection \<open>http or https\<close>

definition resolve_scheme :: "'c sk_env \<Rightarrow> int \<Rightarrow> sk_server \<Rightarrow> 'c sk \<Rightarrow> bool \<times> sk_server \<times> 'c sk" where
  "resolve_scheme env advertised srv s =
     (if \<not> ve_tls_built env then (False, srv, s)
      else if sk_cfg_scheme s = 1 then (False, srv, s)
      else if sk_cfg_scheme s = 2 then (True, srv, s)
      else if 0 \<le> advertised then (advertised \<noteq> 0, srv, s)
      else if sk_probed_valid s \<and> strcmp (sk_probed_host s) (v_host srv) = 0 \<and> sk_probed_port s = v_port srv
      then (sk_probed_tls s, srv\<lparr>v_port := sk_probed_use_port s\<rparr>, s)
      else
        (let (up, c) = ve_net_is_up env (t_ctx (sk_sm s)); s = s\<lparr>sk_sm := (sk_sm s)\<lparr>t_ctx := c\<rparr>\<rparr>
         in if \<not> up then (False, srv, s\<lparr>sk_scheme_provisional := True\<rparr>)
            else
              (let ((probe, use), c) = ve_probe_https env (t_ctx (sk_sm s)) (v_host srv) (v_port srv);
                   s = s\<lparr>sk_sm := (sk_sm s)\<lparr>t_ctx := c\<rparr>\<rparr>
               in if probe = ESPOS_SK_PROBE_NO_ANSWER then (False, srv, s\<lparr>sk_scheme_provisional := True\<rparr>)
                  else
                    (let tls = (probe = ESPOS_SK_PROBE_TLS);
                         s = s\<lparr>sk_probed_host := v_host srv, sk_probed_port := v_port srv,
                               sk_probed_use_port := use, sk_probed_tls := tls, sk_probed_valid := True\<rparr>
                     in (tls, srv\<lparr>v_port := use\<rparr>, s)))))"

subsection \<open>The table\<close>

definition carry_window_ms :: "'c sk \<Rightarrow> u32" where
  "carry_window_ms s = 2 * sk_discover_interval_ms s + 5000"

definition entry_fresh :: "'c sk \<Rightarrow> sk_discovered \<Rightarrow> u32 \<Rightarrow> bool" where
  "entry_fresh s d t \<longleftrightarrow> t - d_seen_ms d < carry_window_ms s"

definition prune_stale_servers :: "'c tok_port \<Rightarrow> 'c sk \<Rightarrow> 'c sk" where
  "prune_stale_servers p s =
     (let (t, s) = sk_now p s in s\<lparr>sk_servers := filter (\<lambda>(d, _). entry_fresh s d t) (sk_servers s)\<rparr>)"

abbreviation (input) ANCHOR_UNHEARD_ROUNDS :: u32 where "ANCHOR_UNHEARD_ROUNDS \<equiv> 2"

definition is_anchor_key :: "'c sk \<Rightarrow> sk_anchor \<Rightarrow> bool" where
  "is_anchor_key s a \<longleftrightarrow> strcmp (sk_unheard_host s) (an_host a) = 0 \<and> sk_unheard_port s = an_port a"

definition anchor_note_answers :: "sk_anchor \<Rightarrow> sk_discovered list \<Rightarrow> 'c sk \<Rightarrow> 'c sk" where
  "anchor_note_answers a found s =
     (if an_host a = '''' \<or> found = [] then s
      else
        (let s = (if is_anchor_key s a then s
                  else s\<lparr>sk_unheard_host := an_host a, sk_unheard_port := an_port a, sk_unheard_rounds := 0\<rparr>)
         in if list_ex (\<lambda>d. espos_sk_is_anchor d a) found then s\<lparr>sk_unheard_rounds := 0\<rparr>
            else s\<lparr>sk_unheard_rounds := sk_unheard_rounds s + 1\<rparr>))"

definition anchor_self_fallback :: "'c sk \<Rightarrow> sk_anchor \<Rightarrow> bool" where
  "anchor_self_fallback s a =
     (if an_host a = '''' then True
      else if list_ex (\<lambda>(d, _). espos_sk_is_anchor d a) (sk_servers s) then False
      else is_anchor_key s a \<and> sk_unheard_rounds s \<ge> ANCHOR_UNHEARD_ROUNDS)"

subsection \<open>The choice\<close>

definition store_anchor :: "'c sk \<Rightarrow> sk_anchor" where
  "store_anchor s = espos_sk_store_anchor (t_store (sk_sm s))"

definition cur_host :: "'c sk \<Rightarrow> string" where
  "cur_host s = (if sk_have_server s then v_host (sk_server s) else '''')"

definition cur_port :: "'c sk \<Rightarrow> u16" where
  "cur_port s = (if sk_have_server s then v_port (sk_server s) else 0)"

text \<open>The server of a manual host and what discovery knows of its scheme, -1 for nothing.\<close>

definition select_manual :: "u32 \<Rightarrow> 'c sk \<Rightarrow> sk_server \<times> int" where
  "select_manual t s =
     (let chosen = server_zero\<lparr>v_host := sk_cfg_host s, v_port := sk_cfg_port s\<rparr>
      in case filter (\<lambda>(d, _). entry_fresh s d t \<and> strcmp (d_host d) (v_host chosen) = 0 \<and> d_port d = v_port chosen)
                (sk_servers s) of
           [] \<Rightarrow> (chosen, - 1)
         | (d, _) # _ \<Rightarrow> (chosen\<lparr>v_self := d_self d\<rparr>, if d_tls d then 1 else 0))"

definition elect_pass :: "nat \<Rightarrow> bool \<Rightarrow> sk_anchor \<Rightarrow> u32 \<Rightarrow> 'c sk \<Rightarrow> nat option" where
  "elect_pass pass twins_held anchor t s =
     elect (\<lambda>i. case sk_servers s ! i of
              (d, avoid) \<Rightarrow>
                \<not> (avoid \<noteq> 0 \<and> 0 < sint (avoid - t) \<or> pass = 0 \<and> \<not> strstr (d_roles d) ''master'' \<or>
                   twins_held \<and> strcmp (d_self d) (an_self anchor) = 0))
       (cur_host s) (cur_port s) (map fst (sk_servers s))"

text \<open>The index in the table and the anchor it was looked up with.\<close>

definition select_index :: "u32 \<Rightarrow> 'c sk \<Rightarrow> nat option \<times> sk_anchor" where
  "select_index t s =
     (let anchor = store_anchor s;
          fallback = anchor_self_fallback s anchor;
          find = (\<lambda>a. espos_sk_find_anchored (map fst (sk_servers s)) a (cur_host s) (cur_port s) fallback)
      in if sk_cfg_self s \<noteq> '''' then
           (let anchor = (if strcmp (an_self anchor) (sk_cfg_self s) \<noteq> 0
                          then anchor\<lparr>an_host := '''', an_port := 0\<rparr> else anchor);
                anchor = anchor\<lparr>an_self := sk_cfg_self s\<rparr>
            in (find anchor, anchor))
         else
           (case find anchor of
              Some i \<Rightarrow> (Some i, anchor)
            | None \<Rightarrow>
                (let twins_held = (an_host anchor \<noteq> '''' \<and> \<not> fallback)
                 in case elect_pass 0 twins_held anchor t s of
                      Some i \<Rightarrow> (Some i, anchor)
                    | None \<Rightarrow> (elect_pass 1 twins_held anchor t s, anchor))))"

text \<open>The server, where it comes from, whether there is one, and its advertised scheme.\<close>

definition select_discovered :: "u32 \<Rightarrow> 'c sk \<Rightarrow> sk_server \<times> string \<times> bool \<times> int" where
  "select_discovered t s =
     (case select_index t s of
        (None, anchor) \<Rightarrow>
          if sk_cfg_pin s \<and> sk_have_server s \<and> v_host (sk_server s) \<noteq> ''''
          then (sk_server s, ''pinned'', True, if v_tls (sk_server s) then 1 else 0)
          else (server_zero, '''', False, - 1)
      | (Some idx, anchor) \<Rightarrow>
          (let d = fst (sk_servers s ! idx);
               by_self = (an_host anchor \<noteq> '''' \<and> an_self anchor \<noteq> '''' \<and> \<not> espos_sk_is_anchor d anchor \<and>
                          strcmp (d_self d) (an_self anchor) = 0)
           in (\<lparr>v_host = d_host d, v_port = d_port d, v_tls = False, v_self = d_self d, v_by_self = by_self\<rparr>,
               ''discovered'', True, if d_tls d then 1 else 0)))"

definition server_moved :: "bool \<Rightarrow> sk_server \<Rightarrow> 'c sk \<Rightarrow> bool" where
  "server_moved have chosen s \<longleftrightarrow>
     have \<noteq> sk_have_server s \<or>
     have \<and> (strcmp (v_host chosen) (v_host (sk_server s)) \<noteq> 0 \<or> v_port chosen \<noteq> v_port (sk_server s) \<or>
             v_tls chosen \<noteq> v_tls (sk_server s) \<or> strcmp (v_self chosen) (v_self (sk_server s)) \<noteq> 0)"

text \<open>The new choice is stored and told; the result says whether the list was published.\<close>

definition commit_server :: "'c tok_port \<Rightarrow> sk_server \<Rightarrow> string \<Rightarrow> bool \<Rightarrow> 'c sk \<Rightarrow> bool \<times> 'c sk" where
  "commit_server p chosen source have s =
     (let changed = server_moved have chosen s;
          source_changed = (strcmp source (sk_server_source s) \<noteq> 0);
          by_self_changed = (have \<and> \<not> changed \<and> v_by_self chosen \<noteq> v_by_self (sk_server s));
          s = s\<lparr>sk_have_server := have, sk_server := chosen, sk_server_source := source\<rparr>;
          s = (if \<not> changed \<and> source_changed then sk_status_changed p s else s);
          s = (if by_self_changed then sk_event p (ESPOS_SK_EV_SERVER (Some chosen)) s else s);
          s = (if changed then
                 (let s = sk_event p (ESPOS_SK_EV_SERVER (if have then Some chosen else None)) s
                  in if have then sk_put (SK_SERVER_SELECTED (v_host chosen) (v_port chosen)) (sk_status_changed p s) else s)
               else s);
          publish = (changed \<or> source_changed \<or> by_self_changed)
      in (publish, if publish then sk_put SSE_SERVERS s else s))"

definition select_server :: "'c tok_port \<Rightarrow> 'c sk_env \<Rightarrow> 'c sk \<Rightarrow> bool \<times> 'c sk" where
  "select_server p env s =
     (let (t, s) = sk_now p s;
          (chosen, source, have, discovered_tls) =
            (if sk_cfg_host s \<noteq> '''' then (case select_manual t s of (c, tls) \<Rightarrow> (c, ''manual'', True, tls))
             else select_discovered t s);
          s = s\<lparr>sk_scheme_provisional := False\<rparr>;
          (tls, chosen, s) = (if have then resolve_scheme env discovered_tls chosen s else (False, chosen, s))
      in commit_server p (chosen\<lparr>v_tls := tls\<rparr>) source have s)"

subsection \<open>A discovery round\<close>

definition espos_sk_discovery_run :: "nat \<Rightarrow> sk_keep option \<Rightarrow> sk_discovered list \<Rightarrow> sk_discovered list" where
  "espos_sk_discovery_run cap keep answers = foldl (espos_sk_disc_add cap keep) [] answers"

definition round_keep :: "'c sk \<Rightarrow> sk_keep" where
  "round_keep s = \<lparr>kp_anchor = store_anchor s, kp_cur_host = cur_host s, kp_cur_port = cur_port s,
     kp_self_fallback = anchor_self_fallback s (store_anchor s)\<rparr>"

definition round_merge :: "'c tok_port \<Rightarrow> 'c sk_env \<Rightarrow> sk_discovered list \<Rightarrow> 'c sk \<Rightarrow> 'c sk" where
  "round_merge p env found s =
     (let (t, s) = sk_now p s;
          anchor = store_anchor s;
          s = anchor_note_answers anchor found s;
          m = \<lparr>mi_table = sk_servers s, mi_found = found, mi_anchor = anchor, mi_cur_host = cur_host s,
               mi_cur_port = cur_port s, mi_self_fallback = anchor_self_fallback s anchor, mi_now_ms = t,
               mi_carry_ms = carry_window_ms s\<rparr>
      in s\<lparr>sk_servers := espos_sk_merge_servers m (ve_servers_cap env), sk_last_discovery_ms := t\<rparr>)"

text \<open>\<open>None\<close>: the two lists could not be allocated.\<close>

definition run_discovery :: "'c tok_port \<Rightarrow> 'c sk_env \<Rightarrow> sk_discovered list option \<Rightarrow> 'c sk \<Rightarrow> 'c sk" where
  "run_discovery p env answers s =
     (case answers of
        None \<Rightarrow> s
      | Some as \<Rightarrow>
          (let found = espos_sk_discovery_run (ve_servers_cap env) (Some (round_keep s)) as;
               s = round_merge p env found s;
               (published, s) = select_server p env s
           in if published then s else sk_put SSE_SERVERS s))"

subsection \<open>The paired server is never lost\<close>

lemma sk_now_fields [simp]:
  "sk_servers (snd (sk_now p s)) = sk_servers s" "store_anchor (snd (sk_now p s)) = store_anchor s"
  "cur_host (snd (sk_now p s)) = cur_host s" "cur_port (snd (sk_now p s)) = cur_port s"
  "sk_cfg_host (snd (sk_now p s)) = sk_cfg_host s" "sk_cfg_self (snd (sk_now p s)) = sk_cfg_self s"
  "sk_unheard_host (snd (sk_now p s)) = sk_unheard_host s" "sk_unheard_port (snd (sk_now p s)) = sk_unheard_port s"
  "sk_unheard_rounds (snd (sk_now p s)) = sk_unheard_rounds s"
  by (simp_all add: sk_now_def tok_now_def store_anchor_def cur_host_def cur_port_def)

lemma note_fields [simp]:
  "sk_servers (anchor_note_answers a f s) = sk_servers s" "store_anchor (anchor_note_answers a f s) = store_anchor s"
  "cur_host (anchor_note_answers a f s) = cur_host s" "cur_port (anchor_note_answers a f s) = cur_port s"
  "sk_cfg_host (anchor_note_answers a f s) = sk_cfg_host s" "sk_cfg_self (anchor_note_answers a f s) = sk_cfg_self s"
  by (simp_all add: anchor_note_answers_def Let_def store_anchor_def cur_host_def cur_port_def)

text \<open>A round in which the paired address answered switches the fallback off.\<close>

lemma note_heard_no_fallback:
  assumes "a \<in> set found" and "espos_sk_is_anchor a an"
  shows "\<not> anchor_self_fallback (anchor_note_answers an found s) an"
proof -
  have "an_host an \<noteq> ''''" using is_anchor_addr [OF assms(2)] by simp
  moreover have "found \<noteq> []" "list_ex (\<lambda>d. espos_sk_is_anchor d an) found"
    using assms by (auto simp: list_ex_iff)
  ultimately have "sk_unheard_rounds (anchor_note_answers an found s) = 0"
    by (simp add: anchor_note_answers_def Let_def)
  with \<open>an_host an \<noteq> ''''\<close> show ?thesis by (simp add: anchor_self_fallback_def)
qed

lemma resolve_scheme_fields [simp]:
  "sk_servers (snd (snd (resolve_scheme env adv srv s))) = sk_servers s"
  "sk_unheard_host (snd (snd (resolve_scheme env adv srv s))) = sk_unheard_host s"
  "sk_unheard_port (snd (snd (resolve_scheme env adv srv s))) = sk_unheard_port s"
  "sk_unheard_rounds (snd (snd (resolve_scheme env adv srv s))) = sk_unheard_rounds s"
  by (simp_all add: resolve_scheme_def Let_def split_beta)

lemma resolve_scheme_advertised: "0 \<le> adv \<Longrightarrow> fst (snd (resolve_scheme env adv srv s)) = srv"
  by (simp add: resolve_scheme_def)

lemma sk_simple_fields [simp]:
  "sk_servers (sk_status_changed p s) = sk_servers s" "sk_servers (sk_event p ev s) = sk_servers s" "sk_servers (sk_put x s) = sk_servers s"
  "sk_server (sk_status_changed p s) = sk_server s" "sk_server (sk_event p ev s) = sk_server s" "sk_server (sk_put x s) = sk_server s"
  "sk_have_server (sk_status_changed p s) = sk_have_server s" "sk_have_server (sk_event p ev s) = sk_have_server s" "sk_have_server (sk_put x s) = sk_have_server s"
  "sk_unheard_host (sk_status_changed p s) = sk_unheard_host s" "sk_unheard_host (sk_event p ev s) = sk_unheard_host s" "sk_unheard_host (sk_put x s) = sk_unheard_host s"
  "sk_unheard_port (sk_status_changed p s) = sk_unheard_port s" "sk_unheard_port (sk_event p ev s) = sk_unheard_port s" "sk_unheard_port (sk_put x s) = sk_unheard_port s"
  "sk_unheard_rounds (sk_status_changed p s) = sk_unheard_rounds s" "sk_unheard_rounds (sk_event p ev s) = sk_unheard_rounds s" "sk_unheard_rounds (sk_put x s) = sk_unheard_rounds s"
  by (simp_all add: sk_status_changed_def sk_event_def sk_put_def)

lemma commit_server_fields:
  "sk_servers (snd (commit_server p c src have s)) = sk_servers s"
  "sk_server (snd (commit_server p c src have s)) = c"
  "sk_have_server (snd (commit_server p c src have s)) = have"
  "sk_unheard_host (snd (commit_server p c src have s)) = sk_unheard_host s"
  "sk_unheard_port (snd (commit_server p c src have s)) = sk_unheard_port s"
  "sk_unheard_rounds (snd (commit_server p c src have s)) = sk_unheard_rounds s"
  by (simp_all add: commit_server_def Let_def)

lemma select_server_keeps:
  "sk_servers (snd (select_server p env s)) = sk_servers s"
  "sk_unheard_host (snd (select_server p env s)) = sk_unheard_host s"
  "sk_unheard_port (snd (select_server p env s)) = sk_unheard_port s"
  "sk_unheard_rounds (snd (select_server p env s)) = sk_unheard_rounds s"
  by (simp_all add: select_server_def split_beta Let_def commit_server_fields)

lemma is_anchor_seen [simp]: "espos_sk_is_anchor (d\<lparr>d_seen_ms := t\<rparr>) an = espos_sk_is_anchor d an"
  by (simp add: espos_sk_is_anchor_def same_addr_iff Let_def)

lemma round_merge_anchor:
  assumes "disc_inv found" and "a \<in> set found" and "espos_sk_is_anchor a (store_anchor s)" and "0 < ve_servers_cap env"
  shows "\<exists>t av rest. sk_servers (round_merge p env found s) = (a\<lparr>d_seen_ms := t\<rparr>, av) # rest"
proof -
  define t s1 where "t = fst (sk_now p s)" and "s1 = anchor_note_answers (store_anchor s) found (snd (sk_now p s))"
  define m where "m = \<lparr>mi_table = sk_servers s1, mi_found = found, mi_anchor = store_anchor s, mi_cur_host = cur_host s1,
      mi_cur_port = cur_port s1, mi_self_fallback = anchor_self_fallback s1 (store_anchor s), mi_now_ms = t,
      mi_carry_ms = carry_window_ms s1\<rparr>"
  have "\<not> mi_self_fallback m"
    using note_heard_no_fallback [OF assms(2,3)] by (simp add: m_def s1_def)
  with merge_reserve_answered [of m a] assms(1-3) obtain av where "merge_reserve m = Some (a\<lparr>d_seen_ms := t\<rparr>, av)"
    by (auto simp: m_def)
  from merge_servers_reserve [OF this assms(4)]
  obtain ys where "espos_sk_merge_servers m (ve_servers_cap env) = (a\<lparr>d_seen_ms := t\<rparr>, av) # ys" by blast
  moreover have "sk_servers (round_merge p env found s) = espos_sk_merge_servers m (ve_servers_cap env)"
    by (simp add: round_merge_def split_beta Let_def m_def s1_def t_def)
  ultimately have "sk_servers (round_merge p env found s) = (a\<lparr>d_seen_ms := t\<rparr>, av) # ys" by simp
  then show ?thesis by (intro exI)
qed

lemma round_merge_fields [simp]:
  "store_anchor (round_merge p env found s) = store_anchor s" "sk_cfg_host (round_merge p env found s) = sk_cfg_host s"
  "sk_cfg_self (round_merge p env found s) = sk_cfg_self s"
  by (simp_all add: round_merge_def split_beta Let_def)
     (simp_all add: store_anchor_def sk_now_def tok_now_def anchor_note_answers_def Let_def)

text \<open>With the paired server in the first slot, it is the choice.\<close>

lemma select_server_anchor:
  assumes "sk_servers s = (d, av) # rest" and "espos_sk_is_anchor d (store_anchor s)" and "sk_cfg_host s = ''''"
    and "sk_cfg_self s = '''' \<or> sk_cfg_self s = an_self (store_anchor s)"
  shows "sk_have_server (snd (select_server p env s)) \<and>
     v_host (sk_server (snd (select_server p env s))) = d_host d \<and>
     v_port (sk_server (snd (select_server p env s))) = d_port d \<and>
     \<not> v_by_self (sk_server (snd (select_server p env s)))"
proof -
  define u where "u = snd (sk_now p s)"
  have u: "sk_servers u = (d, av) # rest" "store_anchor u = store_anchor s" "sk_cfg_host u = ''''" "sk_cfg_self u = sk_cfg_self s"
    using assms by (simp_all add: u_def)
  have same: "(store_anchor s)\<lparr>an_self := an_self (store_anchor s)\<rparr> = store_anchor s" by simp
  have find: "espos_sk_find_anchored (map fst (sk_servers u)) (store_anchor s) h q fb = Some 0" for h q fb
    using assms(2) by (simp add: espos_sk_find_anchored_def u)
  have "select_index (fst (sk_now p s)) u = (Some 0, store_anchor s)"
  proof (cases "sk_cfg_self s = ''''")
    case True
    then show ?thesis by (simp add: select_index_def u(2,4) find)
  next
    case False
    with assms(4) have "sk_cfg_self s = an_self (store_anchor s)" by simp
    with False show ?thesis by (simp add: select_index_def u(2,4) find same Let_def)
  qed
  then have sd: "select_discovered (fst (sk_now p s)) u =
      (\<lparr>v_host = d_host d, v_port = d_port d, v_tls = False, v_self = d_self d, v_by_self = False\<rparr>,
       ''discovered'', True, if d_tls d then 1 else 0)"
    using assms(2) by (simp add: select_discovered_def u Let_def)
  show ?thesis
    by (simp add: select_server_def split_beta Let_def u_def [symmetric] u(3) sd commit_server_fields resolve_scheme_advertised)
qed

text \<open>
  C19. On a device with no manual host, and whose configured self URN is empty or the paired server's: if the server the
  device is paired with answers a discovery round, at the end of the round it is first in the table and it is the server in
  use, whatever else answers before or after it, however many there are, whatever the table held and whatever its self
  URN shares. Its last answer counts, every answer names a host, and the table has at least one place.
\<close>

theorem sk_paired_server_wins:
  fixes s :: "'c sk" and p :: "'c tok_port" and env :: "'c sk_env" and before after :: "sk_discovered list" and a :: sk_discovered
  assumes "\<And>d. d \<in> set (before @ a # after) \<Longrightarrow> d_host d \<noteq> ''''" and "espos_sk_is_anchor a (store_anchor s)"
    and "\<And>b. b \<in> set after \<Longrightarrow> addr b \<noteq> addr a" and "0 < ve_servers_cap env"
    and "sk_cfg_host s = ''''" and "sk_cfg_self s = '''' \<or> sk_cfg_self s = an_self (store_anchor s)"
  defines "s' \<equiv> run_discovery p env (Some (before @ a # after)) s"
  shows "(\<exists>t av rest. sk_servers s' = (a\<lparr>d_seen_ms := t\<rparr>, av) # rest) \<and> sk_have_server s' \<and>
     v_host (sk_server s') = d_host a \<and> v_port (sk_server s') = d_port a \<and> \<not> v_by_self (sk_server s')"
proof -
  define found where "found = espos_sk_discovery_run (ve_servers_cap env) (Some (round_keep s)) (before @ a # after)"
  define s1 where "s1 = round_merge p env found s"
  have "disc_inv found" unfolding found_def espos_sk_discovery_run_def
    by (rule disc_round_inv [THEN conjunct1]) (use assms(1) in \<open>auto simp: disc_inv_def\<close>)
  moreover have "a \<in> set found" unfolding found_def espos_sk_discovery_run_def
    using assms(2) by (intro disc_round_anchor assms(1,3,4)) (simp_all add: round_keep_def)
  ultimately have "\<exists>t av rest. sk_servers s1 = (a\<lparr>d_seen_ms := t\<rparr>, av) # rest"
    unfolding s1_def by (rule round_merge_anchor [OF _ _ assms(2,4)])
  then obtain t av rest where T: "sk_servers s1 = (a\<lparr>d_seen_ms := t\<rparr>, av) # rest" by (elim exE)
  have "s' = snd (select_server p env s1) \<or> s' = sk_put SSE_SERVERS (snd (select_server p env s1))"
    by (simp add: s'_def run_discovery_def Let_def split_beta found_def s1_def)
  moreover have "sk_have_server (snd (select_server p env s1)) \<and>
     v_host (sk_server (snd (select_server p env s1))) = d_host (a\<lparr>d_seen_ms := t\<rparr>) \<and>
     v_port (sk_server (snd (select_server p env s1))) = d_port (a\<lparr>d_seen_ms := t\<rparr>) \<and>
     \<not> v_by_self (sk_server (snd (select_server p env s1)))"
    using assms(2,5,6) by (intro select_server_anchor [OF T]) (simp_all add: s1_def)
  ultimately show ?thesis using T by (auto simp: select_server_keeps)
qed

definition paired_store :: tok_store where
  "paired_store = store_zero\<lparr>s_token := ''t'', s_token_host := ''a'', s_token_port := 3000, s_token_self := ''urn:mrn:1''\<rparr>"

text \<open>A table of one server, and a device paired with the server at \<open>a\<close>.\<close>

definition lan_env :: "nat sk_env" where
  "lan_env = \<lparr>ve_tls_built = False, ve_servers_cap = 1, ve_net_is_up = (\<lambda>c. (True, c)),
     ve_probe_https = (\<lambda>c h q. ((ESPOS_SK_PROBE_NO_ANSWER, q), c))\<rparr>"

definition paired_sk :: "nat sk" where
  "paired_sk = \<lparr>sk_sm = espos_sk_tok_init quiet_port 0 boat_cfg (Some paired_store),
     sk_discover_interval_ms = 60000, sk_cfg_self = '''', sk_cfg_pin = False, sk_cfg_host = '''', sk_cfg_port = 80, sk_cfg_scheme = 0,
     sk_probed_host = '''', sk_probed_port = 0, sk_probed_tls = False, sk_probed_use_port = 0, sk_probed_valid = False,
     sk_scheme_provisional = False, sk_have_server = False, sk_server = server_zero, sk_server_source = '''', sk_servers = [],
     sk_unheard_host = '''', sk_unheard_port = 0, sk_unheard_rounds = 0, sk_last_discovery_ms = 0, sk_out = []\<rparr>"

lemma paired_sk_anchor: "store_anchor paired_sk = \<lparr>an_host = ''a'', an_port = 3000, an_self = ''urn:mrn:1''\<rparr>"
  by (simp add: store_anchor_def paired_sk_def espos_sk_tok_init_def paired_store_def espos_sk_store_anchor_def Let_def
      token_fits_def quiet_port_def)

theorem sk_paired_server_wins_witness:
  "v_host (sk_server (run_discovery quiet_port lan_env (Some ([twin_at ''b''] @ twin_at ''a'' # [twin_at ''c''])) paired_sk)) = ''a''"
proof -
  have "espos_sk_is_anchor (twin_at ''a'') (store_anchor paired_sk)"
    by (simp add: paired_sk_anchor espos_sk_is_anchor_def same_addr_iff addr_def twin_at_def)
  moreover have "d_host d \<noteq> ''''" if "d \<in> set ([twin_at ''b''] @ twin_at ''a'' # [twin_at ''c''])" for d
    using that by (auto simp: twin_at_def)
  moreover have "addr b \<noteq> addr (twin_at ''a'')" if "b \<in> set [twin_at ''c'']" for b
    using that by (simp add: addr_def twin_at_def)
  moreover have "0 < ve_servers_cap lan_env" "sk_cfg_host paired_sk = ''''" "sk_cfg_self paired_sk = ''''"
    by (simp_all add: lan_env_def paired_sk_def)
  ultimately have "v_host (sk_server (run_discovery quiet_port lan_env (Some ([twin_at ''b''] @ twin_at ''a'' # [twin_at ''c''])) paired_sk)) =
      d_host (twin_at ''a'')"
    using sk_paired_server_wins [of "[twin_at ''b'']" "twin_at ''a''" "[twin_at ''c'']" paired_sk lan_env quiet_port] by blast
  then show ?thesis by (simp add: twin_at_def)
qed

subsection \<open>A twin has to wait\<close>

datatype sk_step = Round "sk_discovered list option" | Token tok_event | Elect | Prune

fun sk_do :: "'c tok_port \<Rightarrow> 'c sk_env \<Rightarrow> 'c sk \<Rightarrow> sk_step \<Rightarrow> 'c sk" where
  "sk_do p env s (Round answers) = run_discovery p env answers s"
| "sk_do p env s (Token ev) = sk_event p ev s"
| "sk_do p env s Elect = snd (select_server p env s)"
| "sk_do p env s Prune = prune_stale_servers p s"

text \<open>The rounds somebody answered while the device was paired with an address: the anchor and the answers.\<close>

fun round_heard :: "'c sk_env \<Rightarrow> 'c sk \<Rightarrow> sk_step \<Rightarrow> (sk_anchor \<times> sk_discovered list) list" where
  "round_heard env s (Round (Some as)) =
     (let found = espos_sk_discovery_run (ve_servers_cap env) (Some (round_keep s)) as
      in if an_host (store_anchor s) = '''' \<or> found = [] then [] else [(store_anchor s, found)])"
| "round_heard env s _ = []"

fun answered_rounds :: "'c tok_port \<Rightarrow> 'c sk_env \<Rightarrow> 'c sk \<Rightarrow> sk_step list \<Rightarrow> (sk_anchor \<times> sk_discovered list) list" where
  "answered_rounds p env s [] = []"
| "answered_rounds p env s (st # sts) = round_heard env s st @ answered_rounds p env (sk_do p env s st) sts"

definition silent_for :: "string \<times> u16 \<Rightarrow> sk_anchor \<times> sk_discovered list \<Rightarrow> bool" where
  "silent_for at = (\<lambda>(an, found). (an_host an, an_port an) = at \<and> (\<forall>d\<in>set found. \<not> espos_sk_is_anchor d an))"

definition unheard_inv :: "(sk_anchor \<times> sk_discovered list) list \<Rightarrow> 'c sk \<Rightarrow> bool" where
  "unheard_inv hs s \<longleftrightarrow>
     (\<exists>xs ys. hs = xs @ ys \<and> unat (sk_unheard_rounds s) \<le> length ys \<and>
        (\<forall>y\<in>set ys. silent_for (sk_unheard_host s, sk_unheard_port s) y))"

lemma unheard_inv_zero: "sk_unheard_rounds s = 0 \<Longrightarrow> unheard_inv hs s"
  unfolding unheard_inv_def by (intro exI [of _ hs] exI [of _ "[]"]) simp

lemma unat_Suc_le: "unat (w + 1 :: u32) \<le> Suc (unat w)"
  using mod_less_eq_dividend [of "unat w + unat (1 :: u32)" "2 ^ 32"] by (simp add: unat_word_ariths(1))

lemma unheard_inv_note:
  assumes "unheard_inv hs s" and "an_host an \<noteq> ''''" and "found \<noteq> []"
  shows "unheard_inv (hs @ [(an, found)]) (anchor_note_answers an found s)"
proof (cases "list_ex (\<lambda>d. espos_sk_is_anchor d an) found")
  case True
  then show ?thesis using assms(2,3) by (intro unheard_inv_zero) (simp add: anchor_note_answers_def Let_def)
next
  case False
  define s1 where "s1 = (if is_anchor_key s an then s
    else s\<lparr>sk_unheard_host := an_host an, sk_unheard_port := an_port an, sk_unheard_rounds := 0\<rparr>)"
  have inv: "unheard_inv hs s1" using assms(1) by (simp add: s1_def unheard_inv_zero)
  have key: "(sk_unheard_host s1, sk_unheard_port s1) = (an_host an, an_port an)" by (auto simp: s1_def is_anchor_key_def)
  have new: "silent_for (an_host an, an_port an) (an, found)" using False by (auto simp: silent_for_def list_ex_iff)
  obtain xs ys where xy: "hs = xs @ ys" "unat (sk_unheard_rounds s1) \<le> length ys"
    "\<forall>y\<in>set ys. silent_for (an_host an, an_port an) y"
    using inv key unfolding unheard_inv_def by auto
  have "anchor_note_answers an found s = s1\<lparr>sk_unheard_rounds := sk_unheard_rounds s1 + 1\<rparr>"
    using assms(2,3) False by (simp add: anchor_note_answers_def s1_def Let_def)
  moreover have "unat (sk_unheard_rounds s1 + 1) \<le> length (ys @ [(an, found)])"
    using xy(2) unat_Suc_le [of "sk_unheard_rounds s1"] by simp
  ultimately show ?thesis
    unfolding unheard_inv_def using xy(1,3) new key
    by (intro exI [of _ xs] exI [of _ "ys @ [(an, found)]"]) auto
qed

lemma unheard_inv_cong:
  assumes "unheard_inv hs s" and "sk_unheard_rounds s' = sk_unheard_rounds s" "sk_unheard_host s' = sk_unheard_host s"
    "sk_unheard_port s' = sk_unheard_port s"
  shows "unheard_inv hs s'"
  using assms by (simp add: unheard_inv_def)

lemma round_merge_unheard:
  "sk_unheard_rounds (round_merge p env found s) = sk_unheard_rounds (anchor_note_answers (store_anchor s) found s)"
  "sk_unheard_host (round_merge p env found s) = sk_unheard_host (anchor_note_answers (store_anchor s) found s)"
  "sk_unheard_port (round_merge p env found s) = sk_unheard_port (anchor_note_answers (store_anchor s) found s)"
  by (simp_all add: round_merge_def split_beta Let_def anchor_note_answers_def is_anchor_key_def)

lemma unheard_inv_step:
  assumes "unheard_inv hs s"
  shows "unheard_inv (hs @ round_heard env s st) (sk_do p env s st)"
proof (cases st)
  case (Round answers)
  show ?thesis
  proof (cases answers)
    case (Some as)
    let ?f = "espos_sk_discovery_run (ve_servers_cap env) (Some (round_keep s)) as"
    have "unheard_inv (hs @ round_heard env s st) (anchor_note_answers (store_anchor s) ?f s)"
      using assms unheard_inv_note [OF assms, of "store_anchor s" ?f]
      by (auto simp: Round Some Let_def anchor_note_answers_def)
    then show ?thesis
      by (rule unheard_inv_cong)
         (simp_all add: Round Some run_discovery_def split_beta Let_def select_server_keeps round_merge_unheard)
  qed (use assms in \<open>simp add: Round run_discovery_def\<close>)
next
  case Prune
  with assms show ?thesis
    by (auto simp: prune_stale_servers_def split_beta elim: unheard_inv_cong)
qed (use assms in \<open>auto simp: select_server_keeps elim: unheard_inv_cong\<close>)

lemma unheard_inv_run:
  "unheard_inv hs s \<Longrightarrow> unheard_inv (hs @ answered_rounds p env s sts) (foldl (sk_do p env) s sts)"
proof (induction sts arbitrary: hs s)
  case (Cons st sts)
  from Cons.IH [OF unheard_inv_step [OF Cons.prems, of env st p]] show ?case by simp
qed simp

text \<open>A stand-in is only ever chosen with the fallback on.\<close>

lemma by_self_fallback:
  assumes "select_discovered t s = (chosen, ''discovered'', have, tls)" and "v_by_self chosen"
  shows "anchor_self_fallback s (store_anchor s) \<and> an_host (store_anchor s) \<noteq> ''''"
proof -
  obtain idx an where si: "select_index t s = (idx, an)" by force
  with assms(1) obtain i where i: "idx = Some i" by (cases idx) (auto simp: select_discovered_def split: if_splits)
  define d where "d = fst (sk_servers s ! i)"
  have b: "an_host an \<noteq> ''''" "an_self an \<noteq> ''''" "\<not> espos_sk_is_anchor d an" "d_self d = an_self an"
    using assms si i by (auto simp: select_discovered_def Let_def d_def)
  let ?fb = "anchor_self_fallback s (store_anchor s)"
  have found: ?fb if "espos_sk_find_anchored (map fst (sk_servers s)) an (cur_host s) (cur_port s) ?fb = Some i"
  proof -
    have "anchored (map fst (sk_servers s)) an (cur_host s) (cur_port s) ?fb = Some d"
      using that find_anchored_lt [OF that] by (simp add: anchored_def d_def)
    from anchored_Some [OF this] b show ?thesis by (auto simp: anchored_spec_def)
  qed
  have elected: "d_self d \<noteq> an_self an" if "elect_pass n True an t s = Some i" for n
    using elect_Some(2) [OF that [unfolded elect_pass_def]] by (auto simp: d_def split: prod.splits)
  show ?thesis
  proof (cases "sk_cfg_self s = ''''")
    case True
    have an: "an = store_anchor s" using si True by (auto simp: select_index_def Let_def split: option.splits)
    show ?thesis
    proof (cases "espos_sk_find_anchored (map fst (sk_servers s)) an (cur_host s) (cur_port s) ?fb")
      case (Some j)
      then have "j = i" using si True i an by (simp add: select_index_def Let_def)
      with found Some b(1) an show ?thesis by simp
    next
      case None
      have "\<not> (an_host an \<noteq> '''' \<and> \<not> ?fb)"
      proof
        assume "an_host an \<noteq> '''' \<and> \<not> ?fb"
        then have "elect_pass 0 True an t s = Some i \<or> elect_pass 1 True an t s = Some i"
          using si True None i an by (auto simp: select_index_def Let_def split: option.splits)
        with elected b(4) show False by blast
      qed
      with b(1) an show ?thesis by simp
    qed
  next
    case False
    have an: "an_host an = an_host (store_anchor s)" and f: "espos_sk_find_anchored (map fst (sk_servers s)) an (cur_host s) (cur_port s) ?fb = Some i"
      using si False i b(1) by (auto simp: select_index_def Let_def split: if_splits)
    from found [OF f] an b(1) show ?thesis by simp
  qed
qed

text \<open>
  C32. A server that only shares the self URN of the paired one is chosen in its place only after
  the paired address was silent in the last two discovery rounds that anybody answered: one
  lossy round, and any number of rounds nobody answered, do not hand the pairing over.
\<close>

theorem sk_twin_needs_two_silent_rounds:
  assumes "sk_unheard_rounds s0 = 0" and "s = foldl (sk_do p env) s0 steps"
    and "select_discovered t s = (chosen, ''discovered'', have, tls)" and "v_by_self chosen"
  shows "\<exists>xs r1 r2. answered_rounds p env s0 steps = xs @ [r1, r2] \<and>
     silent_for (an_host (store_anchor s), an_port (store_anchor s)) r1 \<and>
     silent_for (an_host (store_anchor s), an_port (store_anchor s)) r2"
proof -
  let ?a = "store_anchor s"
  from by_self_fallback [OF assms(3,4)] have key: "sk_unheard_host s = an_host ?a" "sk_unheard_port s = an_port ?a"
    and two: "2 \<le> sk_unheard_rounds s"
    by (auto simp: anchor_self_fallback_def is_anchor_key_def split: if_splits)
  have "unheard_inv ([] @ answered_rounds p env s0 steps) s"
    unfolding assms(2) by (intro unheard_inv_run unheard_inv_zero assms(1))
  then obtain xs ys where xy: "answered_rounds p env s0 steps = xs @ ys" "unat (sk_unheard_rounds s) \<le> length ys"
    "\<forall>y\<in>set ys. silent_for (an_host ?a, an_port ?a) y"
    unfolding unheard_inv_def key by auto
  have "2 \<le> length ys" using two xy(2) by (simp add: word_le_nat_alt)
  then obtain zs r1 r2 where "ys = zs @ [r1, r2]"
    by (metis (no_types, lifting) append_Cons append_Nil append_assoc le_zero_eq length_0_conv length_append_singleton not_less_eq_eq numeral_2_eq_2 rev_exhaust)
  with xy(1,3) show ?thesis by (intro exI [of _ "xs @ zs"] exI [of _ r1] exI [of _ r2]) simp
qed

definition silent_rounds :: "sk_step list" where
  "silent_rounds = [Round (Some [twin_at ''b'']), Round (Some []), Round (Some [twin_at ''b''])]"

theorem sk_twin_needs_two_silent_rounds_witness:
  "\<exists>xs r1 r2. answered_rounds quiet_port lan_env paired_sk silent_rounds = xs @ [r1, r2] \<and>
     silent_for (an_host (store_anchor (foldl (sk_do quiet_port lan_env) paired_sk silent_rounds)),
                 an_port (store_anchor (foldl (sk_do quiet_port lan_env) paired_sk silent_rounds))) r1"
proof -
  let ?s = "foldl (sk_do quiet_port lan_env) paired_sk silent_rounds"
  have r: "map_prod v_by_self id (select_discovered 0 ?s) = (True, ''discovered'', True, 0)" by code_simp
  obtain chosen src hv tls where sd: "select_discovered 0 ?s = (chosen, src, hv, tls)" by (metis prod_cases4)
  with r have "src = ''discovered''" "v_by_self chosen" by simp_all
  moreover have "sk_unheard_rounds paired_sk = 0" by (simp add: paired_sk_def)
  ultimately show ?thesis using sk_twin_needs_two_silent_rounds [OF _ refl, of paired_sk 0 quiet_port lan_env silent_rounds] sd
    by blast
qed

end
