(* ===== verification/Sched.thy ===== *)
theory Sched
  imports Espos_Prelude
begin

text \<open>
  The timer table behind the flow loop: src/components/espos_flow/src/espos_sched.c with
  include/espos_sched.h. The slots are a list, a callback with its argument is a value of type
  \<open>'cb\<close>; the pointers to the scheduler, its table and the handle are not NULL.

  A callback may add and cancel timers and call the sweep again. What it does is a script of
  such calls that may depend on their answers and on a world of type \<open>'w\<close>; the sweep runs
  the script against the table it is sweeping. The sweep's endless loop has as much fuel as the
  table has slots, and that is shown to be enough whatever the callbacks do.
\<close>

unbundle bit_operations_syntax

subsection \<open>Data\<close>

abbreviation (input) ESPOS_SCHED_MAX_DELAY_MS :: u32 where "ESPOS_SCHED_MAX_DELAY_MS \<equiv> 0x7FFFFFFF"
abbreviation (input) ESPOS_SCHED_HANDLE_NONE :: u32 where "ESPOS_SCHED_HANDLE_NONE \<equiv> 0"

record 'cb sched_timer =
  st_cb :: "'cb option"
  st_due_ms :: u32
  st_period_ms :: u32
  st_gen :: u16
  st_used :: bool
  st_cancelled :: bool
  st_swept :: bool
  st_fresh :: bool

record 'cb sched =
  sc_slots :: "'cb sched_timer list"
  sc_seq :: u32
  sc_firing :: bool

definition timer_zero :: "'cb sched_timer" where
  "timer_zero = \<lparr>st_cb = None, st_due_ms = 0, st_period_ms = 0, st_gen = 0, st_used = False,
     st_cancelled = False, st_swept = False, st_fresh = False\<rparr>"

definition H_MAKE :: "nat \<Rightarrow> u16 \<Rightarrow> u32" where
  "H_MAKE idx gen = push_bit 16 (ucast gen) OR (of_nat idx AND 0xFFFF)"

definition H_IDX :: "u32 \<Rightarrow> nat" where
  "H_IDX h = unat (h AND 0xFFFF)"

definition H_GEN :: "u32 \<Rightarrow> u16" where
  "H_GEN h = ucast (drop_bit 16 h)"

subsection \<open>Operations\<close>

definition espos_sched_init :: "nat \<Rightarrow> esp_err \<times> 'cb sched option" where
  "espos_sched_init cap =
     (if cap = 0 \<or> 0xFFFF < cap then (ESP_ERR_INVALID_ARG, None)
      else (ESP_OK, Some \<lparr>sc_slots = replicate cap timer_zero, sc_seq = 1, sc_firing = False\<rparr>))"

fun free_slot :: "'cb sched_timer list \<Rightarrow> nat option" where
  "free_slot [] = None"
| "free_slot (t # ts) = (if st_used t then map_option Suc (free_slot ts) else Some 0)"

text \<open>The next generation; 0 is skipped, it would make an all-zero handle.\<close>

definition next_gen :: "u32 \<Rightarrow> u16 \<times> u32" where
  "next_gen seq =
     (let gen = ucast (seq AND 0xFFFF); seq = seq + 1
      in if gen = 0 then (ucast (seq AND 0xFFFF), seq + 1) else (gen, seq))"

definition espos_sched_add ::
  "u32 \<Rightarrow> u32 \<Rightarrow> u32 \<Rightarrow> 'cb option \<Rightarrow> 'cb sched \<Rightarrow> esp_err \<times> u32 option \<times> 'cb sched" where
  "espos_sched_add now_ms delay_ms period_ms cb s =
     (if cb = None then (ESP_ERR_INVALID_ARG, None, s)
      else if delay_ms > ESPOS_SCHED_MAX_DELAY_MS \<or> period_ms > ESPOS_SCHED_MAX_DELAY_MS
      then (ESP_ERR_INVALID_ARG, None, s)
      else case free_slot (sc_slots s) of
             None \<Rightarrow> (ESP_ERR_NO_MEM, Some ESPOS_SCHED_HANDLE_NONE, s)
           | Some i \<Rightarrow>
               (let (gen, seq) = next_gen (sc_seq s);
                    t = \<lparr>st_cb = cb, st_due_ms = now_ms + delay_ms, st_period_ms = period_ms, st_gen = gen,
                         st_used = True, st_cancelled = False, st_swept = False, st_fresh = sc_firing s\<rparr>
                in (ESP_OK, Some (H_MAKE i gen), s\<lparr>sc_slots := (sc_slots s)[i := t], sc_seq := seq\<rparr>)))"

definition resolve :: "'cb sched \<Rightarrow> u32 \<Rightarrow> nat option" where
  "resolve s h =
     (if h = ESPOS_SCHED_HANDLE_NONE then None
      else
        (let idx = H_IDX h
         in if length (sc_slots s) \<le> idx then None
            else
              (let t = sc_slots s ! idx
               in if \<not> st_used t \<or> st_cancelled t \<or> st_gen t \<noteq> H_GEN h then None else Some idx)))"

definition espos_sched_cancel :: "u32 \<Rightarrow> 'cb sched \<Rightarrow> esp_err \<times> 'cb sched" where
  "espos_sched_cancel h s =
     (case resolve s h of
        None \<Rightarrow> (ESP_ERR_NOT_FOUND, s)
      | Some i \<Rightarrow>
          (let t = (sc_slots s ! i)\<lparr>st_cancelled := True\<rparr>;
               t = (if sc_firing s then t else t\<lparr>st_used := False\<rparr>)
           in (ESP_OK, s\<lparr>sc_slots := (sc_slots s)[i := t]\<rparr>)))"

definition timer_live :: "'cb sched_timer \<Rightarrow> bool" where
  "timer_live t \<longleftrightarrow> st_used t \<and> \<not> st_cancelled t"

definition due_in :: "u32 \<Rightarrow> 'cb sched_timer \<Rightarrow> u32" where
  "due_in now_ms t = (if reached now_ms (st_due_ms t) then 0 else st_due_ms t - now_ms)"

fun best_due :: "u32 \<Rightarrow> 'cb sched_timer list \<Rightarrow> u32 \<Rightarrow> u32" where
  "best_due now_ms [] best = best"
| "best_due now_ms (t # ts) best =
     (if \<not> timer_live t then best_due now_ms ts best
      else
        (let best = (if due_in now_ms t < best then due_in now_ms t else best)
         in if best = 0 then best else best_due now_ms ts best))"

definition espos_sched_next_due :: "'cb sched \<Rightarrow> u32 \<Rightarrow> u32" where
  "espos_sched_next_due s now_ms = best_due now_ms (sc_slots s) UINT32_MAX"

definition espos_sched_count :: "'cb sched \<Rightarrow> nat" where
  "espos_sched_count s = length (filter timer_live (sc_slots s))"

subsection \<open>The sweep\<close>

definition eligible :: "u32 \<Rightarrow> 'cb sched_timer \<Rightarrow> bool" where
  "eligible now_ms t \<longleftrightarrow>
     st_used t \<and> \<not> st_cancelled t \<and> \<not> st_swept t \<and> \<not> st_fresh t \<and> reached now_ms (st_due_ms t)"

text \<open>The loop that picks the earliest deadline: the slots from \<open>i\<close> on, the pick so far.\<close>

function pick_timer :: "u32 \<Rightarrow> 'cb sched_timer list \<Rightarrow> nat \<Rightarrow> nat option \<Rightarrow> nat option" where
  "pick_timer now_ms ts i pick =
     (if length ts \<le> i then pick
      else if \<not> eligible now_ms (ts ! i) then pick_timer now_ms ts (Suc i) pick
      else
        (case pick of
           None \<Rightarrow> pick_timer now_ms ts (Suc i) (Some i)
         | Some p \<Rightarrow>
             if sint (st_due_ms (ts ! i) - st_due_ms (ts ! p)) < 0
             then pick_timer now_ms ts (Suc i) (Some i) else pick_timer now_ms ts (Suc i) pick))"
  by pat_completeness auto
termination
  by (relation "measure (\<lambda>(_, ts, i, _). length ts - i)") auto

declare pick_timer.simps [simp del]

text \<open>A one-shot is spent; a periodic timer gets the next deadline of its grid after now.\<close>

definition next_deadline :: "u32 \<Rightarrow> u32 \<Rightarrow> u32 \<Rightarrow> u32" where
  "next_deadline now_ms due period =
     (let nxt = due + period
      in if reached now_ms nxt
         then (let behind = now_ms - due; skip = behind - (behind mod period) + period in due + skip)
         else nxt)"

definition spend :: "u32 \<Rightarrow> 'cb sched_timer \<Rightarrow> 'cb sched_timer" where
  "spend now_ms t =
     (let t = t\<lparr>st_swept := True\<rparr>
      in if st_period_ms t = 0 then t\<lparr>st_cancelled := True\<rparr>
         else t\<lparr>st_due_ms := next_deadline now_ms (st_due_ms t) (st_period_ms t)\<rparr>)"

text \<open>What a callback does to the table.\<close>

datatype 'cb script =
    Done
  | Add u32 u32 u32 "'cb option" "esp_err \<times> u32 option \<Rightarrow> 'cb script"
  | Cancel u32 "esp_err \<Rightarrow> 'cb script"
  | Fire_Again "nat \<Rightarrow> 'cb script"

text \<open>Calling the sweep from a callback is refused: it answers 0.\<close>

primrec run_script :: "'cb script \<Rightarrow> 'cb sched \<Rightarrow> 'cb sched" where
  "run_script Done s = s"
| "run_script (Add now delay period cb k) s =
     (case espos_sched_add now delay period cb s of (err, h, s) \<Rightarrow> run_script (k (err, h)) s)"
| "run_script (Cancel h k) s = (case espos_sched_cancel h s of (err, s) \<Rightarrow> run_script (k err) s)"
| "run_script (Fire_Again k) s = run_script (k 0) s"

text \<open>The loop: the scheduler, the callbacks run so far. \<open>None\<close> when the fuel runs out.\<close>

fun fire_loop ::
  "nat \<Rightarrow> u32 \<Rightarrow> ('cb \<Rightarrow> 'w \<Rightarrow> 'w \<times> 'cb script) \<Rightarrow> 'cb list \<times> 'w \<times> 'cb sched \<Rightarrow> ('cb list \<times> 'w \<times> 'cb sched) option" where
  "fire_loop fuel now_ms behave (fired, w, s) =
     (case pick_timer now_ms (sc_slots s) 0 None of
        None \<Rightarrow> Some (fired, w, s)
      | Some p \<Rightarrow>
          (case fuel of
             0 \<Rightarrow> None
           | Suc fuel \<Rightarrow>
               (let cb = the (st_cb (sc_slots s ! p));
                    s = s\<lparr>sc_slots := (sc_slots s)[p := spend now_ms (sc_slots s ! p)]\<rparr>;
                    (w, script) = behave cb w
                in fire_loop fuel now_ms behave (fired @ [cb], w, run_script script s))))"

declare fire_loop.simps [simp del]

definition reap :: "'cb sched_timer \<Rightarrow> 'cb sched_timer" where
  "reap t =
     (let t = t\<lparr>st_swept := False, st_fresh := False\<rparr>
      in if st_used t \<and> st_cancelled t then t\<lparr>st_used := False\<rparr> else t)"

definition espos_sched_fire ::
  "u32 \<Rightarrow> ('cb \<Rightarrow> 'w \<Rightarrow> 'w \<times> 'cb script) \<Rightarrow> 'w \<Rightarrow> 'cb sched \<Rightarrow> ('cb list \<times> 'w \<times> 'cb sched) option" where
  "espos_sched_fire now_ms behave w s =
     (if sc_firing s then Some ([], w, s)
      else
        (case fire_loop (length (sc_slots s)) now_ms behave ([], w, s\<lparr>sc_firing := True\<rparr>) of
           None \<Rightarrow> None
         | Some (fired, w, s) \<Rightarrow>
             Some (fired, w, s\<lparr>sc_firing := False, sc_slots := map reap (sc_slots s)\<rparr>)))"

subsection \<open>Deadlines on the wrapping clock\<close>

lemma word_mod_lt: "0 < (p :: u32) \<Longrightarrow> b mod p < p"
  by (simp add: word_less_nat_alt unat_mod)

text \<open>The next deadline of a periodic timer is after now, at most a period ahead, and on its grid.\<close>

lemma next_deadline_eq:
  assumes "reached now (due + period)"
  shows "next_deadline now due period = now + (period - (now - due) mod period)"
  using assms by (simp add: next_deadline_def Let_def)

lemma next_deadline_after:
  assumes "reached now due" and "0 < period" and "period \<le> ESPOS_SCHED_MAX_DELAY_MS"
  shows "\<not> reached now (next_deadline now due period)"
proof (cases "reached now (due + period)")
  case True
  define m where "m = (now - due) mod period"
  have m: "m < period" using assms(2) by (simp add: m_def word_mod_lt)
  have "uint (period - m) = uint period - uint m" using m by (simp add: uint_minus_simple_alt [THEN iffD1])
  moreover have "uint period \<le> 2147483647" using assms(3) by (simp add: word_le_def)
  moreover have "uint m < uint period" using m by (simp add: word_less_def)
  ultimately have "0 < uint (period - m)" "uint (period - m) \<le> 2147483648" using uint_ge_0 [of m] by linarith+
  then have "0 < uint (period - m)" "uint (period - m) \<le> 2 ^ 31" by simp_all
  then show ?thesis unfolding next_deadline_eq [OF True] m_def by (rule not_reached_before)
qed (simp add: next_deadline_def Let_def)

text \<open>Among deadlines that are due, the signed difference orders by how long they have been due.\<close>

lemma due_order:
  assumes "reached now a" and "reached now b"
  shows "sint (a - b) < 0 \<longleftrightarrow> now - b < now - a"
proof -
  have "reached (now - b) (0 + (now - a)) \<longleftrightarrow> now - a \<le> now - b - 0"
    using assms by (intro reached_plus_iff) (simp_all add: reached_iff)
  then show ?thesis by (simp add: reached_def not_le [symmetric])
qed

subsection \<open>The pick\<close>

text \<open>The best eligible slot in front of \<open>i\<close>: the one due longest.\<close>

definition best_of :: "u32 \<Rightarrow> 'cb sched_timer list \<Rightarrow> nat \<Rightarrow> nat option \<Rightarrow> bool" where
  "best_of now ts i pick \<longleftrightarrow>
     (case pick of
        None \<Rightarrow> \<forall>j<i. \<not> eligible now (ts ! j)
      | Some p \<Rightarrow> p < i \<and> eligible now (ts ! p) \<and>
          (\<forall>j<i. eligible now (ts ! j) \<longrightarrow> now - st_due_ms (ts ! j) \<le> now - st_due_ms (ts ! p)))"

lemma eligible_reached: "eligible now t \<Longrightarrow> reached now (st_due_ms t)"
  by (simp add: eligible_def)

lemma pick_timer_best:
  "i \<le> length ts \<Longrightarrow> best_of now ts i pick \<Longrightarrow> best_of now ts (length ts) (pick_timer now ts i pick)"
proof (induction now ts i pick rule: pick_timer.induct)
  case (1 now ts i pick)
  show ?case
  proof (cases "i < length ts")
    case False
    with "1.prems" show ?thesis by (simp add: pick_timer.simps)
  next
    case True
    define pick' where "pick' = (if \<not> eligible now (ts ! i) then pick
       else case pick of None \<Rightarrow> Some i
          | Some p \<Rightarrow> if sint (st_due_ms (ts ! i) - st_due_ms (ts ! p)) < 0 then Some i else pick)"
    have step: "pick_timer now ts i pick = pick_timer now ts (Suc i) pick'"
      using True by (subst pick_timer.simps) (simp add: pick'_def split: option.splits)
    have "best_of now ts (Suc i) pick'"
    proof (cases "eligible now (ts ! i)")
      case False
      with "1.prems"(2) show ?thesis by (auto simp: best_of_def pick'_def less_Suc_eq split: option.splits)
    next
      case el: True
      show ?thesis
      proof (cases pick)
        case None
        with "1.prems"(2) el show ?thesis by (auto simp: best_of_def pick'_def less_Suc_eq)
      next
        case (Some p)
        with "1.prems"(2) have p: "p < i" "eligible now (ts ! p)"
          "\<And>j. j < i \<Longrightarrow> eligible now (ts ! j) \<Longrightarrow> now - st_due_ms (ts ! j) \<le> now - st_due_ms (ts ! p)"
          by (auto simp: best_of_def)
        show ?thesis
          using p el due_order [OF eligible_reached [OF el] eligible_reached [OF p(2)]]
          by (auto simp: best_of_def pick'_def Some less_Suc_eq not_less intro: less_imp_le order_trans)
      qed
    qed
    with "1.IH" True show ?thesis unfolding step
      by (cases "eligible now (ts ! i)"; cases pick) (auto simp: pick'_def split: if_splits)
  qed
qed

lemma pick_timer_none: "pick_timer now ts 0 None = None \<Longrightarrow> t \<in> set ts \<Longrightarrow> \<not> eligible now t"
  using pick_timer_best [of 0 ts now None] by (auto simp: best_of_def in_set_conv_nth)

lemma pick_timer_some:
  assumes "pick_timer now ts 0 None = Some p"
  shows "p < length ts" "eligible now (ts ! p)"
    "\<And>t. t \<in> set ts \<Longrightarrow> eligible now t \<Longrightarrow> now - st_due_ms t \<le> now - st_due_ms (ts ! p)"
  using pick_timer_best [of 0 ts now None] assms by (auto simp: best_of_def in_set_conv_nth)

subsection \<open>What a callback can do to the sweep\<close>

text \<open>A slot in use is at most cancelled; a free one at most becomes a timer of the next sweep.\<close>

definition slot_rel :: "'cb sched_timer \<Rightarrow> 'cb sched_timer \<Rightarrow> bool" where
  "slot_rel t t' \<longleftrightarrow>
     (if st_used t then t' = t\<lparr>st_cancelled := st_cancelled t'\<rparr> \<and> (st_cancelled t \<longrightarrow> st_cancelled t')
      else t' = t \<or> st_used t' \<and> st_fresh t' \<and> \<not> st_swept t' \<and> st_period_ms t' \<le> ESPOS_SCHED_MAX_DELAY_MS)"

definition sweep_rel :: "'cb sched \<Rightarrow> 'cb sched \<Rightarrow> bool" where
  "sweep_rel s s' \<longleftrightarrow> sc_firing s' \<and> list_all2 slot_rel (sc_slots s) (sc_slots s')"

lemma slot_rel_refl [simp]: "slot_rel t t"
  by (simp add: slot_rel_def)

lemma slot_rel_trans:
  assumes "slot_rel t u" and "slot_rel u v" shows "slot_rel t v"
proof (cases "st_used t")
  case True
  with assms(1) have u: "u = t\<lparr>st_cancelled := st_cancelled u\<rparr>" "st_cancelled t \<longrightarrow> st_cancelled u"
    by (simp_all add: slot_rel_def)
  then have "st_used u" using True by (metis sched_timer.ext_inject sched_timer.surjective sched_timer.update_convs(6))
  then have "v = u\<lparr>st_cancelled := st_cancelled v\<rparr>" "st_cancelled u \<longrightarrow> st_cancelled v"
    using assms(2) by (simp_all add: slot_rel_def)
  then show ?thesis using u True unfolding slot_rel_def
    by (metis (no_types, lifting) sched_timer.surjective sched_timer.update_convs(6))
next
  case False
  then show ?thesis using assms unfolding slot_rel_def
    by (metis (no_types, lifting) sched_timer.ext_inject sched_timer.surjective sched_timer.update_convs(6))
qed

lemma sweep_rel_trans:
  assumes "sweep_rel s t" and "sweep_rel t u" shows "sweep_rel s u"
proof -
  have "list_all2 slot_rel (sc_slots s) (sc_slots u)"
    by (rule list_all2_trans [of slot_rel slot_rel slot_rel _ "sc_slots t", OF slot_rel_trans])
      (use assms in \<open>auto simp: sweep_rel_def\<close>)
  then show ?thesis using assms(2) by (simp add: sweep_rel_def)
qed

lemma free_slot_some: "free_slot ts = Some i \<Longrightarrow> i < length ts \<and> \<not> st_used (ts ! i)"
  by (induction ts arbitrary: i) (auto split: if_splits)

lemma list_all2_update_rel:
  "(\<And>x. R x x) \<Longrightarrow> i < length xs \<Longrightarrow> R (xs ! i) y \<Longrightarrow> list_all2 R xs (xs[i := y])"
  by (auto simp: list_all2_conv_all_nth nth_list_update)

lemma sched_add_some:
  assumes "free_slot (sc_slots s) = Some i" and "next_gen (sc_seq s) = (gen, seq)" and "cb \<noteq> None"
    and "delay \<le> ESPOS_SCHED_MAX_DELAY_MS" and "period \<le> ESPOS_SCHED_MAX_DELAY_MS"
  shows "espos_sched_add now delay period cb s = (ESP_OK, Some (H_MAKE i gen),
     s\<lparr>sc_slots := (sc_slots s)[i := \<lparr>st_cb = cb, st_due_ms = now + delay, st_period_ms = period, st_gen = gen,
         st_used = True, st_cancelled = False, st_swept = False, st_fresh = sc_firing s\<rparr>], sc_seq := seq\<rparr>)"
  using assms by (simp add: espos_sched_add_def not_less)

lemma sched_add_rel:
  assumes "sc_firing s" shows "sweep_rel s (snd (snd (espos_sched_add now delay period cb s)))"
proof (cases "cb = None \<or> delay > ESPOS_SCHED_MAX_DELAY_MS \<or> period > ESPOS_SCHED_MAX_DELAY_MS \<or> free_slot (sc_slots s) = None")
  case True
  then have "snd (snd (espos_sched_add now delay period cb s)) = s"
    by (auto simp: espos_sched_add_def)
  then show ?thesis using assms by (simp add: sweep_rel_def list_all2_refl)
next
  case False
  then obtain i gen seq where i: "free_slot (sc_slots s) = Some i" and g: "next_gen (sc_seq s) = (gen, seq)"
    by (metis not_None_eq surj_pair)
  have "list_all2 slot_rel (sc_slots s) ((sc_slots s)[i := \<lparr>st_cb = cb, st_due_ms = now + delay, st_period_ms = period,
      st_gen = gen, st_used = True, st_cancelled = False, st_swept = False, st_fresh = True\<rparr>])"
    using free_slot_some [OF i] False by (intro list_all2_update_rel) (simp_all add: slot_rel_def not_less)
  then show ?thesis
    using assms False sched_add_some [OF i g, of cb delay period now] by (simp add: sweep_rel_def not_less)
qed

lemma resolve_some: "resolve s h = Some i \<Longrightarrow> i < length (sc_slots s) \<and> timer_live (sc_slots s ! i) \<and> i = H_IDX h"
  by (auto simp: resolve_def Let_def timer_live_def split: if_splits)

lemma sched_cancel_rel:
  assumes "sc_firing s" shows "sweep_rel s (snd (espos_sched_cancel h s))"
proof (cases "resolve s h")
  case None
  with assms show ?thesis by (simp add: espos_sched_cancel_def sweep_rel_def list_all2_refl)
next
  case (Some i)
  have "list_all2 slot_rel (sc_slots s) ((sc_slots s)[i := (sc_slots s ! i)\<lparr>st_cancelled := True\<rparr>])"
    using resolve_some [OF Some] by (intro list_all2_update_rel) (auto simp: slot_rel_def timer_live_def)
  with Some assms show ?thesis by (simp add: espos_sched_cancel_def sweep_rel_def)
qed

lemma run_script_rel: "sc_firing s \<Longrightarrow> sweep_rel s (run_script sc s)"
proof (induction sc arbitrary: s)
  case (Add now delay period cb k)
  obtain err h s1 where a: "espos_sched_add now delay period cb s = (err, h, s1)" by (metis prod_cases3)
  have "sweep_rel s s1" using sched_add_rel [OF Add.prems, of now delay period cb] by (simp add: a)
  moreover from this have "sweep_rel s1 (run_script (k (err, h)) s1)" using Add.IH by (simp add: sweep_rel_def)
  ultimately show ?case by (simp add: a) (rule sweep_rel_trans)
next
  case (Cancel h k)
  obtain err s1 where a: "espos_sched_cancel h s = (err, s1)" by (metis surj_pair)
  have "sweep_rel s s1" using sched_cancel_rel [OF Cancel.prems, of h] by (simp add: a)
  moreover from this have "sweep_rel s1 (run_script (k err) s1)" using Cancel.IH by (simp add: sweep_rel_def)
  ultimately show ?case by (simp add: a) (rule sweep_rel_trans)
qed (simp_all add: sweep_rel_def list_all2_refl)

subsection \<open>The sweep ends\<close>

text \<open>Slots the sweep may still run: in use since before it, and not run yet.\<close>

definition sweep_left :: "'cb sched_timer list \<Rightarrow> nat set" where
  "sweep_left ts = {i. i < length ts \<and> st_used (ts ! i) \<and> \<not> st_fresh (ts ! i) \<and> \<not> st_swept (ts ! i)}"

text \<open>The table during a sweep that began with the slots \<open>ts0\<close>.\<close>

definition sweeping :: "u32 \<Rightarrow> 'cb sched_timer list \<Rightarrow> 'cb sched \<Rightarrow> bool" where
  "sweeping now ts0 s \<longleftrightarrow> sc_firing s \<and> length (sc_slots s) = length ts0 \<and>
     (\<forall>i<length ts0. let t = sc_slots s ! i in
        (st_used (ts0 ! i) \<longrightarrow> st_used t \<and> \<not> st_fresh t) \<and>
        (\<not> st_used (ts0 ! i) \<and> st_used t \<longrightarrow> st_fresh t \<and> \<not> st_swept t) \<and>
        (st_used t \<longrightarrow> st_period_ms t \<le> ESPOS_SCHED_MAX_DELAY_MS) \<and>
        (timer_live t \<and> st_swept t \<longrightarrow> \<not> reached now (st_due_ms t)))"

lemma slot_rel_used:
  assumes "slot_rel t t'" and "st_used t"
  shows "st_used t'" "st_fresh t' = st_fresh t" "st_swept t' = st_swept t" "st_due_ms t' = st_due_ms t"
    "st_period_ms t' = st_period_ms t" "timer_live t' \<Longrightarrow> timer_live t"
proof -
  obtain b where "t' = t\<lparr>st_cancelled := b\<rparr>" "st_cancelled t \<longrightarrow> b"
    using assms by (metis slot_rel_def)
  then show "st_used t'" "st_fresh t' = st_fresh t" "st_swept t' = st_swept t" "st_due_ms t' = st_due_ms t"
    "st_period_ms t' = st_period_ms t" "timer_live t' \<Longrightarrow> timer_live t"
    using assms(2) by (auto simp: timer_live_def)
qed

lemma slot_rel_free:
  "slot_rel t t' \<Longrightarrow> \<not> st_used t \<Longrightarrow> t' = t \<or> st_used t' \<and> st_fresh t' \<and> \<not> st_swept t' \<and> st_period_ms t' \<le> ESPOS_SCHED_MAX_DELAY_MS"
  by (simp add: slot_rel_def)

lemma sweeping_rel:
  assumes "sweeping now ts0 s" and "sweep_rel s s'"
  shows "sweeping now ts0 s'" and "sweep_left (sc_slots s') = sweep_left (sc_slots s)"
proof -
  have len: "length (sc_slots s') = length (sc_slots s)" and r: "\<And>i. i < length (sc_slots s) \<Longrightarrow> slot_rel (sc_slots s ! i) (sc_slots s' ! i)"
    using assms(2) by (auto simp: sweep_rel_def list_all2_conv_all_nth)
  have "st_used (sc_slots s' ! i) \<and> \<not> st_fresh (sc_slots s' ! i) \<and> \<not> st_swept (sc_slots s' ! i) \<longleftrightarrow>
      st_used (sc_slots s ! i) \<and> \<not> st_fresh (sc_slots s ! i) \<and> \<not> st_swept (sc_slots s ! i)" if "i < length (sc_slots s)" for i
    using slot_rel_used [OF r [OF that]] slot_rel_free [OF r [OF that]] by (cases "st_used (sc_slots s ! i)") auto
  then show "sweep_left (sc_slots s') = sweep_left (sc_slots s)" by (auto simp: sweep_left_def len)
  show "sweeping now ts0 s'"
    unfolding sweeping_def Let_def
  proof (intro conjI allI impI)
    show "sc_firing s'" using assms(2) by (simp add: sweep_rel_def)
    show "length (sc_slots s') = length ts0" using assms(1) len by (simp add: sweeping_def)
    fix i assume i: "i < length ts0"
    with assms(1) have i': "i < length (sc_slots s)" by (simp add: sweeping_def)
    note S = assms(1) [unfolded sweeping_def Let_def, THEN conjunct2, THEN conjunct2, rule_format, OF i]
    note U = slot_rel_used [OF r [OF i']] and F = slot_rel_free [OF r [OF i']]
    show "st_used (sc_slots s' ! i)" "\<not> st_fresh (sc_slots s' ! i)" if "st_used (ts0 ! i)" using S U that by auto
    show "st_fresh (sc_slots s' ! i)" "\<not> st_swept (sc_slots s' ! i)" if "\<not> st_used (ts0 ! i) \<and> st_used (sc_slots s' ! i)"
      using S U F that by (cases "st_used (sc_slots s ! i)"; auto)+
    show "st_period_ms (sc_slots s' ! i) \<le> ESPOS_SCHED_MAX_DELAY_MS" if "st_used (sc_slots s' ! i)"
      using S U F that by (cases "st_used (sc_slots s ! i)"; auto)
    show "\<not> reached now (st_due_ms (sc_slots s' ! i))" if "timer_live (sc_slots s' ! i) \<and> st_swept (sc_slots s' ! i)"
      using S U F that by (cases "st_used (sc_slots s ! i)"; auto simp: timer_live_def)
  qed
qed

lemma spend_fields:
  "st_used (spend now t) = st_used t" "st_fresh (spend now t) = st_fresh t" "st_swept (spend now t)"
  "st_period_ms (spend now t) = st_period_ms t"
  by (simp_all add: spend_def Let_def)

lemma spend_not_due:
  assumes "eligible now t" and "st_period_ms t \<le> ESPOS_SCHED_MAX_DELAY_MS" and "timer_live (spend now t)"
  shows "\<not> reached now (st_due_ms (spend now t))"
  using assms next_deadline_after [of now "st_due_ms t" "st_period_ms t"]
  by (auto simp: spend_def Let_def timer_live_def eligible_def word_gt_0 split: if_splits)

lemma sweeping_spend:
  assumes "sweeping now ts0 s" and "p < length (sc_slots s)" and "eligible now (sc_slots s ! p)"
  defines "s' \<equiv> s\<lparr>sc_slots := (sc_slots s)[p := spend now (sc_slots s ! p)]\<rparr>"
  shows "sweeping now ts0 s'" and "card (sweep_left (sc_slots s)) = Suc (card (sweep_left (sc_slots s')))"
proof -
  have p: "p < length ts0" using assms(1,2) by (simp add: sweeping_def)
  note S = assms(1) [unfolded sweeping_def Let_def, THEN conjunct2, THEN conjunct2, rule_format]
  have el: "st_used (sc_slots s ! p)" "\<not> st_fresh (sc_slots s ! p)" "\<not> st_swept (sc_slots s ! p)"
    using assms(3) by (simp_all add: eligible_def)
  have used0: "st_used (ts0 ! p)" using S [OF p] el by blast
  have "sweep_left (sc_slots s) = insert p (sweep_left (sc_slots s'))" "p \<notin> sweep_left (sc_slots s')"
    using assms(2) el by (auto simp: sweep_left_def s'_def nth_list_update spend_fields split: if_splits)
  moreover have "finite (sweep_left (sc_slots s'))" by (simp add: sweep_left_def)
  ultimately show "card (sweep_left (sc_slots s)) = Suc (card (sweep_left (sc_slots s')))" by simp
  have new: "\<not> reached now (st_due_ms (spend now (sc_slots s ! p)))" if "timer_live (spend now (sc_slots s ! p))"
    using spend_not_due [OF assms(3) _ that] S [OF p] el by blast
  show "sweeping now ts0 s'"
    using assms(1,2) new used0 S [OF p] el unfolding sweeping_def s'_def Let_def
    by (simp add: nth_list_update spend_fields)
qed

text \<open>
  What the sweep has done so far: the slots \<open>ks\<close> it has run, in order, were in use and due when it began and
  each has been spent; the callbacks can only have cancelled what else was in use; and what
  is still to run has been due for no longer than what has been run.
\<close>

definition due_for :: "u32 \<Rightarrow> 'cb sched_timer \<Rightarrow> u32" where
  "due_for now t = now - st_due_ms t"

definition swept_so_far :: "u32 \<Rightarrow> 'cb sched_timer list \<Rightarrow> nat list \<Rightarrow> 'cb sched \<Rightarrow> bool" where
  "swept_so_far now ts0 ks s \<longleftrightarrow> distinct ks \<and>
     sorted_wrt (\<lambda>i j. due_for now (ts0 ! j) \<le> due_for now (ts0 ! i)) ks \<and>
     (\<forall>i\<in>set ks. i < length ts0 \<and> eligible now (ts0 ! i) \<and>
        (\<forall>t\<in>set (sc_slots s). eligible now t \<longrightarrow> due_for now t \<le> due_for now (ts0 ! i))) \<and>
     (\<forall>i<length ts0. st_used (ts0 ! i) \<longrightarrow>
        slot_rel (if i \<in> set ks then spend now (ts0 ! i) else ts0 ! i) (sc_slots s ! i))"

lemma slot_rel_eligible: "slot_rel t t' \<Longrightarrow> eligible now t' \<Longrightarrow> t' = t"
  by (cases "st_used t") (auto simp: slot_rel_def eligible_def)

lemma swept_so_far_rel:
  assumes "swept_so_far now ts0 ks s" and "sweep_rel s s'" and "length (sc_slots s) = length ts0"
  shows "swept_so_far now ts0 ks s'"
proof -
  have len: "length (sc_slots s') = length (sc_slots s)" and r: "\<And>i. i < length (sc_slots s) \<Longrightarrow> slot_rel (sc_slots s ! i) (sc_slots s' ! i)"
    using assms(2) by (auto simp: sweep_rel_def list_all2_conv_all_nth)
  have el: "t \<in> set (sc_slots s)" if "t \<in> set (sc_slots s')" "eligible now t" for t
    using that slot_rel_eligible [OF r] len by (metis in_set_conv_nth)
  have "slot_rel (if i \<in> set ks then spend now (ts0 ! i) else ts0 ! i) (sc_slots s' ! i)"
    if "i < length ts0" "st_used (ts0 ! i)" for i
  proof (rule slot_rel_trans)
    show "slot_rel (if i \<in> set ks then spend now (ts0 ! i) else ts0 ! i) (sc_slots s ! i)"
      using assms(1) that by (simp add: swept_so_far_def)
    show "slot_rel (sc_slots s ! i) (sc_slots s' ! i)" using r that(1) assms(3) by simp
  qed
  then show ?thesis using assms(1) el unfolding swept_so_far_def by blast
qed

lemma swept_so_far_spend:
  assumes "swept_so_far now ts0 ks s" and "sweeping now ts0 s" and "pick_timer now (sc_slots s) 0 None = Some p"
  shows "swept_so_far now ts0 (ks @ [p]) (s\<lparr>sc_slots := (sc_slots s)[p := spend now (sc_slots s ! p)]\<rparr>)"
    and "sc_slots s ! p = ts0 ! p"
proof -
  note P = pick_timer_some [OF assms(3)]
  have p: "p < length ts0" and u: "st_used (ts0 ! p)"
    using P(1,2) assms(2) by (auto simp: sweeping_def eligible_def Let_def)
  have rel: "slot_rel (if p \<in> set ks then spend now (ts0 ! p) else ts0 ! p) (sc_slots s ! p)"
    using assms(1) p u by (simp add: swept_so_far_def)
  have new: "p \<notin> set ks"
  proof
    assume "p \<in> set ks"
    with slot_rel_used(3) [of "spend now (ts0 ! p)" "sc_slots s ! p"] rel u have "st_swept (sc_slots s ! p)"
      by (simp add: spend_fields)
    with P(2) show False by (simp add: eligible_def)
  qed
  with slot_rel_eligible [OF rel P(2)] show same: "sc_slots s ! p = ts0 ! p" by simp
  have "\<not> eligible now (spend now (sc_slots s ! p))" by (simp add: eligible_def spend_fields)
  then have el: "t \<in> set (sc_slots s)" if "t \<in> set ((sc_slots s)[p := spend now (sc_slots s ! p)])" "eligible now t" for t
    using that set_update_subset_insert [of "sc_slots s" p "spend now (sc_slots s ! p)"] by blast
  have "length (sc_slots s) = length ts0" using assms(2) by (simp add: sweeping_def)
  then show "swept_so_far now ts0 (ks @ [p]) (s\<lparr>sc_slots := (sc_slots s)[p := spend now (sc_slots s ! p)]\<rparr>)"
    using assms(1) P new p el same nth_mem [OF P(1)]
    by (auto simp: swept_so_far_def sorted_wrt_append due_for_def nth_list_update)
qed

lemma fire_loop_ends:
  assumes "sweeping now ts0 s" and "card (sweep_left (sc_slots s)) \<le> fuel" and "swept_so_far now ts0 ks s"
    and "fired = map (\<lambda>i. the (st_cb (ts0 ! i))) ks"
  shows "\<exists>ks' w' s'. fire_loop fuel now behave (fired, w, s) = Some (map (\<lambda>i. the (st_cb (ts0 ! i))) ks', w', s') \<and>
     sweeping now ts0 s' \<and> swept_so_far now ts0 ks' s' \<and> (\<forall>t\<in>set (sc_slots s'). \<not> eligible now t)"
  using assms
proof (induction fuel arbitrary: fired w s ks)
  case 0
  have "finite (sweep_left (sc_slots s))" by (simp add: sweep_left_def)
  with 0 have "sweep_left (sc_slots s) = {}" by simp
  then have "pick_timer now (sc_slots s) 0 None = None"
    using pick_timer_some [of now "sc_slots s"] by (cases "pick_timer now (sc_slots s) 0 None") (auto simp: sweep_left_def eligible_def)
  with 0 pick_timer_none [of now "sc_slots s"] show ?case by (auto simp: fire_loop.simps intro!: exI [of _ ks])
next
  case (Suc fuel)
  show ?case
  proof (cases "pick_timer now (sc_slots s) 0 None")
    case None
    with Suc.prems pick_timer_none [of now "sc_slots s"] show ?thesis by (auto simp: fire_loop.simps intro!: exI [of _ ks])
  next
    case (Some p)
    define s1 where "s1 = s\<lparr>sc_slots := (sc_slots s)[p := spend now (sc_slots s ! p)]\<rparr>"
    let ?cb = "the (st_cb (sc_slots s ! p))"
    obtain w1 script where b: "behave ?cb w = (w1, script)" by (metis surj_pair)
    note S1 = sweeping_spend [OF Suc.prems(1) pick_timer_some(1,2) [OF Some], folded s1_def]
    have rel: "sweep_rel s1 (run_script script s1)" using S1(1) by (intro run_script_rel) (simp add: sweeping_def)
    note S2 = sweeping_rel [OF S1(1) this]
    have c: "card (sweep_left (sc_slots (run_script script s1))) \<le> fuel" using S1(2) S2(2) Suc.prems(2) by simp
    note L = swept_so_far_spend [OF Suc.prems(3,1) Some, folded s1_def]
    have l2: "swept_so_far now ts0 (ks @ [p]) (run_script script s1)"
      using swept_so_far_rel [OF L(1) rel] S1(1) by (simp add: sweeping_def)
    have "fired @ [?cb] = map (\<lambda>i. the (st_cb (ts0 ! i))) (ks @ [p])" using Suc.prems(4) L(2) by simp
    from Suc.IH [OF S2(1) c l2 this, of w1] show ?thesis
      by (subst fire_loop.simps) (simp add: Some b s1_def [symmetric])
  qed
qed

subsection \<open>The interface\<close>

definition sched_wf :: "'cb sched \<Rightarrow> bool" where
  "sched_wf s \<longleftrightarrow> \<not> sc_firing s \<and>
     (\<forall>t\<in>set (sc_slots s). \<not> st_fresh t \<and> \<not> st_swept t \<and>
        (st_used t \<longrightarrow> \<not> st_cancelled t \<and> st_period_ms t \<le> ESPOS_SCHED_MAX_DELAY_MS))"

lemma sched_wf_update:
  "sched_wf s \<Longrightarrow> \<not> st_fresh t \<Longrightarrow> \<not> st_swept t \<Longrightarrow>
   (st_used t \<Longrightarrow> \<not> st_cancelled t \<and> st_period_ms t \<le> ESPOS_SCHED_MAX_DELAY_MS) \<Longrightarrow>
   sched_wf (s\<lparr>sc_slots := (sc_slots s)[i := t], sc_seq := q\<rparr>)"
  using set_update_subset_insert [of "sc_slots s" i t] by (auto simp: sched_wf_def)

lemma sched_init_wf: "espos_sched_init cap = (ESP_OK, Some s) \<Longrightarrow> sched_wf s"
  by (auto simp: espos_sched_init_def sched_wf_def timer_zero_def split: if_splits)

lemma sched_add_wf [keeps]:
  assumes "sched_wf s" shows "sched_wf (snd (snd (espos_sched_add now delay period cb s)))"
  using assms sched_wf_update [OF assms]
  by (auto simp: espos_sched_add_def Let_def split_beta not_less sched_wf_def [of s] split: option.splits)

lemma sched_cancel_wf [keeps]:
  assumes "sched_wf s" shows "sched_wf (snd (espos_sched_cancel h s))"
proof (cases "resolve s h")
  case (Some i)
  have t: "sc_slots s ! i \<in> set (sc_slots s)" using resolve_some [OF Some] by simp
  with sched_wf_update [OF assms, where t = "(sc_slots s ! i)\<lparr>st_cancelled := True, st_used := False\<rparr>" and i = i and q = "sc_seq s"] assms Some
  show ?thesis by (simp add: espos_sched_cancel_def sched_wf_def)
qed (simp add: assms espos_sched_cancel_def)

lemma sweeping_start:
  assumes "sched_wf s" shows "sweeping now (sc_slots s) (s\<lparr>sc_firing := True\<rparr>)"
  using assms by (auto simp: sweeping_def sched_wf_def timer_live_def Let_def)

lemma card_sweep_left: "card (sweep_left ts) \<le> length ts"
proof -
  have "sweep_left ts \<subseteq> {..<length ts}" by (auto simp: sweep_left_def)
  then show ?thesis by (metis card_lessThan card_mono finite_lessThan)
qed

lemma reap_fields:
  "\<not> st_fresh (reap t)" "\<not> st_swept (reap t)" "st_due_ms (reap t) = st_due_ms t"
  "timer_live (reap t) = timer_live t" "st_used (reap t) \<Longrightarrow> timer_live t" "st_period_ms (reap t) = st_period_ms t"
  by (auto simp: reap_def timer_live_def Let_def split: if_splits)

lemma sched_wf_eligible: "sched_wf s \<Longrightarrow> t \<in> set (sc_slots s) \<Longrightarrow> eligible now t \<longleftrightarrow> timer_live t \<and> reached now (st_due_ms t)"
  by (auto simp: sched_wf_def eligible_def timer_live_def)

lemma reap_id: "timer_live t \<Longrightarrow> \<not> st_swept t \<Longrightarrow> \<not> st_fresh t \<Longrightarrow> reap t = t"
  by (simp add: reap_def timer_live_def)

lemma reap_spend:
  "timer_live (spend now t) \<Longrightarrow> \<not> st_swept t \<Longrightarrow> \<not> st_fresh t \<Longrightarrow>
   reap (spend now t) = t\<lparr>st_due_ms := next_deadline now (st_due_ms t) (st_period_ms t)\<rparr> \<and> st_period_ms t \<noteq> 0"
  by (auto simp: reap_def spend_def timer_live_def Let_def split: if_splits)

lemma slot_rel_live: "slot_rel t t' \<Longrightarrow> st_used t \<Longrightarrow> timer_live t' \<Longrightarrow> t' = t"
  by (auto simp: slot_rel_def timer_live_def)

text \<open>
  C16. Whatever the callbacks add, cancel or try to fire, a sweep ends. What it runs are the callbacks of
  distinct slots \<open>ks\<close> whose timers were live and due when it began, the longest due first: no slot runs twice
  and no timer added by a callback runs. A timer that was live and due and was not run has been cancelled; one that was
  run is still live only when it is periodic, with its next deadline; any other timer is as it was, or cancelled. The
  table stays well-formed, and a timer that is left due was added by a callback of this very sweep.
\<close>

theorem sched_sweep_ends:
  assumes "sched_wf s"
  shows "\<exists>ks w' s'. espos_sched_fire now behave w s = Some (map (\<lambda>i. the (st_cb (sc_slots s ! i))) ks, w', s') \<and>
     distinct ks \<and> sorted_wrt (\<lambda>i j. now - st_due_ms (sc_slots s ! j) \<le> now - st_due_ms (sc_slots s ! i)) ks \<and>
     (\<forall>i\<in>set ks. i < length (sc_slots s) \<and> timer_live (sc_slots s ! i) \<and> reached now (st_due_ms (sc_slots s ! i))) \<and>
     sched_wf s' \<and> length (sc_slots s') = length (sc_slots s) \<and>
     (\<forall>i<length (sc_slots s). timer_live (sc_slots s' ! i) \<longrightarrow>
        (if \<not> st_used (sc_slots s ! i) then True
         else if i \<in> set ks then st_period_ms (sc_slots s ! i) \<noteq> 0 \<and>
           sc_slots s' ! i = (sc_slots s ! i)\<lparr>st_due_ms :=
             next_deadline now (st_due_ms (sc_slots s ! i)) (st_period_ms (sc_slots s ! i))\<rparr> \<and>
           \<not> reached now (st_due_ms (sc_slots s' ! i))
         else sc_slots s' ! i = sc_slots s ! i \<and> \<not> reached now (st_due_ms (sc_slots s ! i))))"
proof -
  have nf: "\<not> sc_firing s" using assms by (simp add: sched_wf_def)
  have start: "swept_so_far now (sc_slots s) [] (s\<lparr>sc_firing := True\<rparr>)" by (simp add: swept_so_far_def)
  obtain ks w' s1 where f: "fire_loop (length (sc_slots s)) now behave ([], w, s\<lparr>sc_firing := True\<rparr>) =
        Some (map (\<lambda>i. the (st_cb (sc_slots s ! i))) ks, w', s1)"
    "sweeping now (sc_slots s) s1" "swept_so_far now (sc_slots s) ks s1" "\<And>t. t \<in> set (sc_slots s1) \<Longrightarrow> \<not> eligible now t"
    using fire_loop_ends [OF sweeping_start [OF assms] _ start, of "length (sc_slots s)" "[]" behave w] card_sweep_left [of "sc_slots s"]
    by auto
  define s' where "s' = s1\<lparr>sc_firing := False, sc_slots := map reap (sc_slots s1)\<rparr>"
  note S = f(2) [unfolded sweeping_def Let_def] and K = f(3) [unfolded swept_so_far_def]
  have wf: "sched_wf s'"
    using S by (auto simp: sched_wf_def s'_def reap_fields in_set_conv_nth dest!: reap_fields(5)) (auto simp: timer_live_def reap_def Let_def)
  have ks: "i < length (sc_slots s) \<and> timer_live (sc_slots s ! i) \<and> reached now (st_due_ms (sc_slots s ! i))" if "i \<in> set ks" for i
    using that K sched_wf_eligible [OF assms nth_mem] by blast
  have left: "if i \<in> set ks then st_period_ms (sc_slots s ! i) \<noteq> 0 \<and>
           sc_slots s' ! i = (sc_slots s ! i)\<lparr>st_due_ms :=
             next_deadline now (st_due_ms (sc_slots s ! i)) (st_period_ms (sc_slots s ! i))\<rparr> \<and>
           \<not> reached now (st_due_ms (sc_slots s' ! i))
         else sc_slots s' ! i = sc_slots s ! i \<and> \<not> reached now (st_due_ms (sc_slots s ! i))"
    if i: "i < length (sc_slots s)" and l: "timer_live (sc_slots s' ! i)" and u: "st_used (sc_slots s ! i)" for i
  proof -
    have i1: "i < length (sc_slots s1)" using i S by simp
    have live: "timer_live (sc_slots s1 ! i)" and s': "sc_slots s' ! i = reap (sc_slots s1 ! i)"
      using l i1 by (simp_all add: s'_def reap_fields)
    have due: "\<not> reached now (st_due_ms (sc_slots s1 ! i))"
      using f(4) [OF nth_mem [OF i1]] S i u live by (auto simp: eligible_def timer_live_def)
    have marks: "\<not> st_swept (sc_slots s ! i)" "\<not> st_fresh (sc_slots s ! i)"
      using assms nth_mem [OF i] by (auto simp: sched_wf_def)
    have "slot_rel (if i \<in> set ks then spend now (sc_slots s ! i) else sc_slots s ! i) (sc_slots s1 ! i)" using K i u by blast
    then have eq: "sc_slots s1 ! i = (if i \<in> set ks then spend now (sc_slots s ! i) else sc_slots s ! i)"
      using slot_rel_live live u by (auto simp: spend_fields split: if_splits)
    show ?thesis
    proof (cases "i \<in> set ks")
      case True
      have "\<not> reached now (st_due_ms (sc_slots s' ! i))" using due by (simp add: s' reap_fields)
      with True eq live reap_spend [OF _ marks, of now] show ?thesis by (simp add: s')
    next
      case False
      with eq live due reap_id [OF _ marks] show ?thesis by (simp add: s')
    qed
  qed
  have "espos_sched_fire now behave w s = Some (map (\<lambda>i. the (st_cb (sc_slots s ! i))) ks, w', s')"
    using f(1) nf by (simp add: espos_sched_fire_def s'_def)
  moreover have "length (sc_slots s') = length (sc_slots s)" using S by (simp add: s'_def)
  moreover have "distinct ks" "sorted_wrt (\<lambda>i j. now - st_due_ms (sc_slots s ! j) \<le> now - st_due_ms (sc_slots s ! i)) ks"
    using K by (simp_all add: due_for_def)
  ultimately show ?thesis using wf ks left by auto
qed

text \<open>Three timers: a periodic one that is late, a one-shot, and one a callback adds again at once.\<close>

definition busy_sched :: "nat sched" where
  "busy_sched = \<lparr>sc_slots =
     [\<lparr>st_cb = Some 1, st_due_ms = 90, st_period_ms = 30, st_gen = 1, st_used = True, st_cancelled = False, st_swept = False, st_fresh = False\<rparr>,
      \<lparr>st_cb = Some 2, st_due_ms = 80, st_period_ms = 0, st_gen = 2, st_used = True, st_cancelled = False, st_swept = False, st_fresh = False\<rparr>,
      timer_zero], sc_seq = 3, sc_firing = False\<rparr>"

definition add_again :: "nat \<Rightarrow> unit \<Rightarrow> unit \<times> nat script" where
  "add_again cb w = (w, if cb = 2 then Add 100 0 0 (Some 2) (\<lambda>_. Done) else Done)"

theorem sched_sweep_ends_witness:
  "\<exists>fired w' s'. espos_sched_fire 100 add_again () busy_sched = Some (fired, w', s') \<and> fired = [2, 1] \<and>
     map timer_live (sc_slots s') = [True, False, True] \<and> sched_wf s'"
proof -
  have "sched_wf busy_sched" by code_simp
  from sched_sweep_ends [OF this, of 100 add_again "()"]
  obtain fired w' s' where r: "espos_sched_fire 100 add_again () busy_sched = Some (fired, w', s')" "sched_wf s'" by metis
  have "map_option (\<lambda>(f, w, s). (f, map timer_live (sc_slots s))) (espos_sched_fire 100 add_again () busy_sched) =
      Some ([2, 1], [True, False, True])"
    by code_simp
  with r show ?thesis by auto
qed

subsection \<open>How long the loop may sleep\<close>

lemma best_due_le: "best_due now ts b \<le> b \<and> (\<forall>t\<in>set ts. timer_live t \<longrightarrow> best_due now ts b \<le> due_in now t)"
  by (induction ts arbitrary: b) (auto simp: Let_def not_less intro: order_trans less_imp_le dest: order.strict_trans1)

lemma best_due_attained: "best_due now ts b = b \<or> (\<exists>t\<in>set ts. timer_live t \<and> best_due now ts b = due_in now t)"
  by (induction ts arbitrary: b) (auto simp: Let_def split: if_splits)

lemma due_in_bound: "uint (due_in now t) \<le> 2 ^ 31"
proof (cases "reached now (st_due_ms t)")
  case False
  define x where "x = st_due_ms t - now"
  have "\<not> uint (- x) < 2 ^ 31" using False by (simp add: reached_iff x_def)
  moreover have "uint (- x) = (if x = 0 then 0 else 2 ^ 32 - uint x)"
    using uint_lt2p [of x] by (simp add: uint_word_ariths zmod_zminus1_eq_if word_uint_eq_iff)
  ultimately show ?thesis using False by (auto simp: due_in_def x_def split: if_splits)
qed (simp add: due_in_def)

lemma not_due_before:
  assumes "e < due_in now t"
  shows "\<not> reached (now + e) (st_due_ms t)"
proof -
  from assms have nr: "\<not> reached now (st_due_ms t)" and x: "due_in now t = st_due_ms t - now"
    by (auto simp: due_in_def split: if_splits)
  have e: "uint e < 2 ^ 31" using assms due_in_bound [of now t] by (simp add: word_less_def)
  have "reached (now + e) (now + due_in now t) \<longleftrightarrow> due_in now t \<le> (now + e) - now"
    using e due_in_bound [of now t] by (intro reached_plus_iff) simp_all
  with assms x show ?thesis by simp
qed

text \<open>
  C29. The time the loop may sleep is exact: before it no live timer is due, when it is over one
  is, and it is the largest value exactly when no timer is live.
\<close>

theorem sched_next_due_exact:
  "(\<forall>e<espos_sched_next_due s now. \<forall>t\<in>set (sc_slots s). timer_live t \<longrightarrow> \<not> reached (now + e) (st_due_ms t)) \<and>
   (if espos_sched_count s = 0 then espos_sched_next_due s now = UINT32_MAX
    else espos_sched_next_due s now \<noteq> UINT32_MAX \<and>
      (\<exists>t\<in>set (sc_slots s). timer_live t \<and> reached (now + espos_sched_next_due s now) (st_due_ms t)))"
proof -
  let ?d = "espos_sched_next_due s now"
  have le: "?d \<le> due_in now t" if "t \<in> set (sc_slots s)" "timer_live t" for t
    using best_due_le [of now "sc_slots s" UINT32_MAX] that by (simp add: espos_sched_next_due_def)
  have before: "\<not> reached (now + e) (st_due_ms t)" if "e < ?d" "t \<in> set (sc_slots s)" "timer_live t" for e t
    using le [OF that(2,3)] that(1) by (intro not_due_before) (rule less_le_trans)
  have small: "due_in now t \<noteq> UINT32_MAX" for t :: "'a sched_timer" using due_in_bound [of now t] by auto
  show ?thesis
  proof (cases "espos_sched_count s = 0")
    case True
    then have "\<not> timer_live t" if "t \<in> set (sc_slots s)" for t
      using that by (auto simp: espos_sched_count_def filter_empty_conv)
    with best_due_attained [of now "sc_slots s" UINT32_MAX] before True show ?thesis
      by (auto simp: espos_sched_next_due_def)
  next
    case False
    then obtain u where u: "u \<in> set (sc_slots s)" "timer_live u"
      by (auto simp: espos_sched_count_def filter_empty_conv)
    have ne: "?d \<noteq> UINT32_MAX"
    proof
      assume "?d = UINT32_MAX"
      with le [OF u] due_in_bound [of now u] show False by (simp add: word_le_def)
    qed
    with best_due_attained [of now "sc_slots s" UINT32_MAX]
    obtain t where t: "t \<in> set (sc_slots s)" "timer_live t" "?d = due_in now t"
      by (auto simp: espos_sched_next_due_def)
    have "reached (now + ?d) (st_due_ms t)" by (simp add: t(3) due_in_def)
    with t before ne False show ?thesis by auto
  qed
qed

theorem sched_next_due_exact_witness:
  "\<not> reached (60 + 19) 80 \<and> reached (60 + 20) 80 \<and> espos_sched_next_due busy_sched 60 = 20"
proof -
  have d: "espos_sched_next_due busy_sched 60 = 20" by code_simp
  let ?t = "\<lparr>st_cb = Some 2, st_due_ms = 80, st_period_ms = 0, st_gen = 2, st_used = True, st_cancelled = False, st_swept = False, st_fresh = False\<rparr> :: nat sched_timer"
  have "19 < espos_sched_next_due busy_sched 60" "?t \<in> set (sc_slots busy_sched)" "timer_live ?t"
    unfolding d by (simp_all add: busy_sched_def timer_live_def)
  from sched_next_due_exact [of busy_sched 60, THEN conjunct1, rule_format, OF this] have "\<not> reached (60 + 19) 80"
    by simp
  with d show ?thesis by simp
qed

subsection \<open>Slots are handed out again\<close>

definition rearm :: "nat \<Rightarrow> unit \<Rightarrow> unit \<times> nat script" where
  "rearm cb w = (w, Add 10 10 0 (Some cb) (\<lambda>_. Done))"

definition quiet :: "nat \<Rightarrow> unit \<Rightarrow> unit \<times> nat script" where
  "quiet cb w = (w, Done)"

text \<open>One slot with a one-shot; and two slots, the first cancelled and given to a later timer.\<close>

definition shot :: "nat \<Rightarrow> u16 \<Rightarrow> nat sched_timer" where
  "shot cb gen = \<lparr>st_cb = Some cb, st_due_ms = 10, st_period_ms = 0, st_gen = gen, st_used = True,
     st_cancelled = False, st_swept = False, st_fresh = False\<rparr>"

definition one_shot :: "nat sched" where
  "one_shot = \<lparr>sc_slots = [shot 7 1], sc_seq = 2, sc_firing = False\<rparr>"

definition two_shots :: "nat sched" where
  "two_shots = \<lparr>sc_slots = [shot 1 1, shot 2 2], sc_seq = 3, sc_firing = False\<rparr>"

definition given_again :: "nat sched" where
  "given_again = snd (snd (espos_sched_add 5 5 0 (Some 3) (snd (espos_sched_cancel 0x10000 two_shots))))"

lemma one_shot_made:
  "espos_sched_add 0 10 0 (Some 7) (the (snd (espos_sched_init 1))) = (ESP_OK, Some 0x10000, one_shot)"
  by (simp add: espos_sched_init_def espos_sched_add_def next_gen_def timer_zero_def one_shot_def shot_def H_MAKE_def)

lemma two_shots_made:
  "espos_sched_add 0 10 0 (Some 2) (snd (snd (espos_sched_add 0 10 0 (Some 1) (the (snd (espos_sched_init 2)))))) =
     (ESP_OK, Some 0x20001, two_shots)"
proof -
  have two: "replicate 2 x = [x, x]" for x :: "nat sched_timer" by (simp add: numeral_2_eq_2)
  have "espos_sched_add 0 10 0 (Some 1) (the (snd (espos_sched_init 2))) =
      (ESP_OK, Some 0x10000, \<lparr>sc_slots = [shot 1 1, timer_zero], sc_seq = 2, sc_firing = False\<rparr>)"
    by (simp add: espos_sched_init_def espos_sched_add_def next_gen_def timer_zero_def shot_def H_MAKE_def two)
  then show ?thesis
    by (simp add: espos_sched_add_def next_gen_def timer_zero_def two_shots_def shot_def H_MAKE_def)
qed

lemma given_again_eq: "given_again = \<lparr>sc_slots = [shot 3 3, shot 2 2], sc_seq = 4, sc_firing = False\<rparr>"
proof -
  have "resolve two_shots 0x10000 = Some 0" by (simp add: resolve_def two_shots_def H_IDX_def H_GEN_def shot_def)
  then show ?thesis
    by (simp add: given_again_def espos_sched_cancel_def espos_sched_add_def two_shots_def shot_def next_gen_def)
qed

text \<open>
  A slot stays taken until the sweep is over and is then handed out again, which has two
  effects the sources deny: a one-shot whose callback arms itself again needs a second slot, so
  in a full table it is lost; and of two timers with the same deadline the one that was added
  later runs first when it was given the lower slot.
\<close>

theorem sched_slot_reuse_effects:
  "map_option (\<lambda>(fired, _, s). (fired, espos_sched_count s)) (espos_sched_fire 10 rearm () one_shot) = Some ([7], 0) \<and>
   map_option fst (espos_sched_fire 10 quiet () given_again) = Some [3, 2]"
proof
  show "map_option (\<lambda>(fired, _, s). (fired, espos_sched_count s)) (espos_sched_fire 10 rearm () one_shot) = Some ([7], 0)"
    by (simp add: espos_sched_fire_def fire_loop.simps pick_timer.simps one_shot_def shot_def espos_sched_add_def
      rearm_def eligible_def reached_def spend_def espos_sched_count_def timer_live_def reap_def Let_def)
  show "map_option fst (espos_sched_fire 10 quiet () given_again) = Some [3, 2]"
    by (simp add: espos_sched_fire_def fire_loop.simps pick_timer.simps given_again_eq shot_def
      quiet_def eligible_def reached_def spend_def Let_def)
qed

end
