(* ===== verification/B64.thy ===== *)
theory B64
  imports Espos_Prelude
begin

text \<open>
  The base64 coder of the configuration store, src/components/espos_config/src/b64.c. Bytes are
  a list of 8-bit words; the encoder's groups of three are the list's, the shifts and masks are
  those of the 32-bit accumulators. The output buffer of the encoder is the string in front of
  its NUL, \<open>None\<close> when there is not even room for that.
\<close>

unbundle bit_operations_syntax

subsection \<open>Encoding\<close>

definition k_alpha :: string where
  "k_alpha = ''ABCDEFGHIJKLMNOPQRSTUVWXYZabcdefghijklmnopqrstuvwxyz0123456789+/''"

definition espos_b64_encoded_len :: "nat \<Rightarrow> nat" where
  "espos_b64_encoded_len n = ((n + 2) div 3) * 4 + 1"

definition alpha_at :: "u32 \<Rightarrow> nat \<Rightarrow> char" where
  "alpha_at v k = k_alpha ! unat (drop_bit k v AND 63)"

fun b64_groups :: "u8 list \<Rightarrow> string" where
  "b64_groups [] = []"
| "b64_groups [a] =
     (let v = push_bit 16 (ucast a) in [alpha_at v 18, alpha_at v 12, CHR ''='', CHR ''=''])"
| "b64_groups [a, b] =
     (let v = push_bit 16 (ucast a) OR push_bit 8 (ucast b)
      in [alpha_at v 18, alpha_at v 12, alpha_at v 6, CHR ''=''])"
| "b64_groups (a # b # c # rest) =
     (let v = push_bit 16 (ucast a) OR push_bit 8 (ucast b) OR ucast c
      in alpha_at v 18 # alpha_at v 12 # alpha_at v 6 # alpha_at v 0 # b64_groups rest)"

definition espos_b64_encode :: "u8 list \<Rightarrow> nat \<Rightarrow> nat \<times> string option" where
  "espos_b64_encode bs out_size =
     (if out_size < espos_b64_encoded_len (length bs) then (0, if out_size = 0 then None else Some '''')
      else (length (b64_groups bs), Some (b64_groups bs)))"

subsection \<open>Decoding\<close>

definition b64_val :: "char \<Rightarrow> int" where
  "b64_val c =
     (let n = int (of_char c)
      in if 65 \<le> n \<and> n \<le> 90 then n - 65
         else if 97 \<le> n \<and> n \<le> 122 then n - 97 + 26
         else if 48 \<le> n \<and> n \<le> 57 then n - 48 + 52
         else if n = 43 then 62
         else if n = 47 then 63
         else - 1)"

fun b64_loop :: "string \<Rightarrow> u32 \<Rightarrow> nat \<Rightarrow> nat \<Rightarrow> u8 list \<Rightarrow> esp_err \<times> u8 list" where
  "b64_loop [] acc bits out_size out = (ESP_OK, out)"
| "b64_loop (c # cs) acc bits out_size out =
     (let v = b64_val c
      in if v < 0 then (ESP_ERR_INVALID_ARG, out)
         else
           (let acc = push_bit 6 acc OR word_of_int v; bits = bits + 6
            in if 8 \<le> bits then
                 (let bits = bits - 8
                  in if out_size \<le> length out then (ESP_ERR_INVALID_SIZE, out)
                     else b64_loop cs acc bits out_size (out @ [ucast (drop_bit bits acc AND 0xFF)]))
               else b64_loop cs acc bits out_size out))"

definition strip_padding :: "string \<Rightarrow> string" where
  "strip_padding s = rev (dropWhile (\<lambda>c. c = CHR ''='') (rev s))"

definition espos_b64_decode :: "string \<Rightarrow> nat \<Rightarrow> esp_err \<times> u8 list" where
  "espos_b64_decode s out_size =
     (let s = strip_padding s
      in if length s mod 4 = 1 then (ESP_ERR_INVALID_ARG, []) else b64_loop s 0 0 out_size [])"

subsection \<open>Round trip\<close>

lemma k_alpha_vals: "map b64_val k_alpha = map int [0..<64]"
  by (simp add: k_alpha_def b64_val_def of_char_def upt_rec)

lemma length_k_alpha: "length k_alpha = 64"
  by (simp add: k_alpha_def)

lemma b64_val_alpha: "n < 64 \<Longrightarrow> b64_val (k_alpha ! n) = int n"
  using arg_cong [OF k_alpha_vals, of "\<lambda>xs. xs ! n"] by (simp add: length_k_alpha)

lemma alpha_not_pad: "n < 64 \<Longrightarrow> k_alpha ! n \<noteq> CHR ''=''"
  using nth_mem [of n k_alpha] by (auto simp: length_k_alpha k_alpha_def)

lemma sextet_less: "unat ((w :: u32) AND 63) < 64"
proof -
  have "w AND 63 \<le> 63" by (rule word_and_le1)
  then have "unat (w AND 63) \<le> unat (63 :: u32)" by (simp only: word_le_nat_alt)
  then show ?thesis by simp
qed

lemma u8_high: "8 \<le> n \<Longrightarrow> \<not> bit (x :: u8) n"
  using bit_imp_le_length [of x n] by auto

lemma masks: "(63 :: u32) = mask 6" "(255 :: u32) = mask 8"
  by (simp_all add: mask_eq_exp_minus_1)

lemma u8_eqI:
  assumes "\<And>n. n \<in> {0,1,2,3,4,5,6,7} \<Longrightarrow> bit (x :: u8) n = bit y n"
  shows "x = y"
proof (rule bit_word_eqI)
  fix n assume "n < LENGTH(8)"
  then have "n \<in> {0,1,2,3,4,5,6,7}" by auto
  then show "bit x n = bit y n" by (rule assms)
qed

text \<open>One sextet taken into the accumulator.\<close>

definition feed :: "u32 \<Rightarrow> nat \<Rightarrow> u32 \<Rightarrow> u32" where
  "feed v k acc = push_bit 6 acc OR (drop_bit k v AND 63)"

text \<open>The three bytes that come out of four sextets, whatever the accumulator held before.\<close>

lemma group_bytes:
  fixes a b c :: u8 and acc v :: u32
  assumes "v = push_bit 16 (ucast a) OR push_bit 8 (ucast b) OR ucast c"
  shows "ucast (drop_bit 4 (feed v 12 (feed v 18 acc)) AND 255) = a"
    and "ucast (drop_bit 2 (feed v 6 (feed v 12 (feed v 18 acc))) AND 255) = b"
    and "ucast (drop_bit 0 (feed v 0 (feed v 6 (feed v 12 (feed v 18 acc)))) AND 255) = c"
  unfolding feed_def assms(1) masks
  by (rule u8_eqI; elim insertE emptyE; simp add: bit_simps u8_high)+

declare b64_loop.simps(2) [simp del]

lemma loop_alpha:
  "b64_loop (alpha_at v k # cs) acc bits out_size out =
     (if 8 \<le> bits + 6 then
        (if out_size \<le> length out then (ESP_ERR_INVALID_SIZE, out)
         else b64_loop cs (feed v k acc) (bits + 6 - 8) out_size (out @ [ucast (drop_bit (bits + 6 - 8) (feed v k acc) AND 0xFF)]))
      else b64_loop cs (feed v k acc) (bits + 6) out_size out)"
  using sextet_less [of "drop_bit k v"] by (simp add: b64_loop.simps(2) alpha_at_def b64_val_alpha feed_def Let_def)

lemmas loop_bits = loop_alpha [where bits = 0, simplified] loop_alpha [where bits = 6, simplified]
  loop_alpha [where bits = 4, simplified] loop_alpha [where bits = 2, simplified]

lemma loop_group:
  assumes "v = push_bit 16 (ucast a) OR push_bit 8 (ucast b) OR ucast (c :: u8)" and "length out + 3 \<le> out_size"
  shows "\<exists>acc'. b64_loop (alpha_at v 18 # alpha_at v 12 # alpha_at v 6 # alpha_at v 0 # cs) acc 0 out_size out =
     b64_loop cs acc' 0 out_size (out @ [a, b, c])"
  using assms(2) group_bytes [OF assms(1), of acc] by (auto simp: loop_bits)

lemma loop_tail2:
  assumes "v = push_bit 16 (ucast a) OR push_bit 8 (ucast (b :: u8))" and "length out + 2 \<le> out_size"
  shows "b64_loop [alpha_at v 18, alpha_at v 12, alpha_at v 6] acc 0 out_size out = (ESP_OK, out @ [a, b])"
  using assms(2) group_bytes(1,2) [of v a b 0 acc] assms(1) by (simp add: loop_bits)

lemma loop_tail1:
  assumes "v = push_bit 16 (ucast (a :: u8))" and "length out + 1 \<le> out_size"
  shows "b64_loop [alpha_at v 18, alpha_at v 12] acc 0 out_size out = (ESP_OK, out @ [a])"
  using assms(2) group_bytes(1) [of v a 0 0 acc] assms(1) by (simp add: loop_bits)

lemma alpha_at_not_pad: "alpha_at v k \<noteq> CHR ''=''"
  unfolding alpha_at_def by (rule alpha_not_pad [OF sextet_less])

text \<open>What the padding leaves, and that it is never of an impossible length.\<close>

fun sextets :: "u8 list \<Rightarrow> string" where
  "sextets [] = []"
| "sextets [a] = take 2 (b64_groups [a])"
| "sextets [a, b] = take 3 (b64_groups [a, b])"
| "sextets (a # b # c # rest) = take 4 (b64_groups [a, b, c]) @ sextets rest"

lemma strip_snoc_pad [simp]: "strip_padding (s @ CHR ''='' # CHR ''='' # []) = strip_padding s" "strip_padding (s @ [CHR ''='']) = strip_padding s"
  by (simp_all add: strip_padding_def)

lemma strip_nopad: "list_all (\<lambda>c. c \<noteq> CHR ''='') s \<Longrightarrow> strip_padding s = s"
  by (cases s rule: rev_cases) (auto simp: strip_padding_def)

lemma sextets_nopad: "list_all (\<lambda>c. c \<noteq> CHR ''='') (sextets bs)"
  by (induction bs rule: sextets.induct) (simp_all add: Let_def alpha_at_not_pad)

lemma groups_sextets: "\<exists>pad. b64_groups bs = sextets bs @ pad \<and> pad \<in> {[], [CHR ''=''], [CHR ''='', CHR ''='']}"
  by (induction bs rule: sextets.induct) (auto simp: Let_def)

lemma strip_groups: "strip_padding (b64_groups bs) = sextets bs"
  using groups_sextets [of bs] strip_nopad [OF sextets_nopad [of bs]] by auto

lemma length_sextets: "length (sextets bs) mod 4 \<noteq> 1"
  by (induction bs rule: sextets.induct) (simp_all add: Let_def)

lemma loop_sextets:
  "length out + length bs \<le> out_size \<Longrightarrow> b64_loop (sextets bs) acc 0 out_size out = (ESP_OK, out @ bs)"
proof (induction bs arbitrary: out acc rule: sextets.induct)
  case (4 a b c rest)
  obtain acc' where "b64_loop (sextets (a # b # c # rest)) acc 0 out_size out = b64_loop (sextets rest) acc' 0 out_size (out @ [a, b, c])"
    using loop_group [OF refl, of out out_size a b c "sextets rest" acc] "4.prems" by (auto simp: Let_def)
  with "4.IH" [of "out @ [a, b, c]" acc'] "4.prems" show ?case by simp
qed (simp_all add: Let_def loop_tail1 loop_tail2)

lemma length_groups: "length (b64_groups bs) + 1 = espos_b64_encoded_len (length bs)"
proof (induction bs rule: b64_groups.induct)
  case (4 a b c rest)
  have "(length (a # b # c # rest) + 2) div 3 = Suc ((length rest + 2) div 3)" by simp
  with 4 show ?case by (simp only: espos_b64_encoded_len_def b64_groups.simps Let_def list.size) simp
qed (simp_all add: espos_b64_encoded_len_def Let_def)

lemma loop_out_of_room:
  "length out \<le> out_size \<Longrightarrow> out_size < length out + length bs \<Longrightarrow>
   fst (b64_loop (sextets bs) acc 0 out_size out) = ESP_ERR_INVALID_SIZE"
proof (induction bs arbitrary: out acc rule: sextets.induct)
  case (4 a b c rest)
  show ?case
  proof (cases "length out + 3 \<le> out_size")
    case True
    obtain acc' where "b64_loop (sextets (a # b # c # rest)) acc 0 out_size out = b64_loop (sextets rest) acc' 0 out_size (out @ [a, b, c])"
      using loop_group [OF refl True, of a b c "sextets rest" acc] by (auto simp: Let_def)
    with "4.IH" [of "out @ [a, b, c]" acc'] "4.prems" True show ?thesis by simp
  qed (use "4.prems" in \<open>simp add: Let_def loop_bits\<close>)
qed (simp_all add: Let_def loop_bits)

text \<open>
  C30. Decoding what the encoder writes gives the bytes back, whatever they are, when the output
  has room for them, and reports the missing room otherwise; the encoder writes exactly the
  length it announces.
\<close>

theorem b64_round_trip:
  assumes "espos_b64_encode bs out_size = (n, Some s)" and "espos_b64_encoded_len (length bs) \<le> out_size"
  shows "n = length s \<and> length s + 1 = espos_b64_encoded_len (length bs) \<and>
     (if length bs \<le> room then espos_b64_decode s room = (ESP_OK, bs)
      else fst (espos_b64_decode s room) = ESP_ERR_INVALID_SIZE)"
proof -
  have s: "s = b64_groups bs" "n = length (b64_groups bs)" using assms by (auto simp: espos_b64_encode_def)
  show ?thesis
    using length_groups [of bs] length_sextets [of bs] loop_sextets [of "[]" bs room 0] loop_out_of_room [of "[]" room bs 0]
    by (simp add: s espos_b64_decode_def strip_groups Let_def)
qed

theorem b64_round_trip_witness:
  "espos_b64_decode ''AP8Q'' 3 = (ESP_OK, [0, 255, 16]) \<and> fst (espos_b64_decode ''AP8Q'' 2) = ESP_ERR_INVALID_SIZE"
proof -
  have e: "espos_b64_encode [0, 255, 16] 5 = (4, Some ''AP8Q'')" "espos_b64_encoded_len (length [0, 255, 16 :: u8]) \<le> 5"
    by code_simp+
  show ?thesis using b64_round_trip [OF e, of 3] b64_round_trip [OF e, of 2] by simp
qed

end
