(* ===== verification/Time_Policy.thy ===== *)
theory Time_Policy
  imports Espos_Prelude "HOL-Library.Monad_Syntax"
begin

text \<open>
  The clock of src/components/espos_time/src/time_policy.c: which source may set it, when a time
  restored from RTC memory is stale, and the ISO 8601 conversions with the civil-calendar
  arithmetic behind them.

  \<open>int64_t\<close> milliseconds are integers: the values stay far inside the 64 bits (the
  policy adds a boot's uptime to an instant), so the wrap is not modelled. The unsigned
  intermediates of the calendar are integers as well, with the proof that they stay in range.
  C's division truncates, \<open>c_div\<close>. A C string is read until its NUL, the end of the list.
  The sources of time are the values of their enum, whose order is their ranking.
\<close>

definition c_div :: "int \<Rightarrow> int \<Rightarrow> int" where
  "c_div a b = sgn a * sgn b * (\<bar>a\<bar> div \<bar>b\<bar>)"

definition c_mod :: "int \<Rightarrow> int \<Rightarrow> int" where
  "c_mod a b = a - c_div a b * b"

subsection \<open>The policy\<close>

type_synonym espos_time_src = int

abbreviation (input) ESPOS_TIME_SRC_NONE :: espos_time_src where "ESPOS_TIME_SRC_NONE \<equiv> 0"
abbreviation (input) ESPOS_TIME_SRC_RTC :: espos_time_src where "ESPOS_TIME_SRC_RTC \<equiv> 1"
abbreviation (input) ESPOS_TIME_SRC_SK :: espos_time_src where "ESPOS_TIME_SRC_SK \<equiv> 2"
abbreviation (input) ESPOS_TIME_SRC_MANUAL :: espos_time_src where "ESPOS_TIME_SRC_MANUAL \<equiv> 3"
abbreviation (input) ESPOS_TIME_SRC_SNTP :: espos_time_src where "ESPOS_TIME_SRC_SNTP \<equiv> 4"
abbreviation (input) ESPOS_TIME_SRC_MAX :: espos_time_src where "ESPOS_TIME_SRC_MAX \<equiv> 5"
abbreviation (input) ESPOS_TIME_ISO_MAX :: nat where "ESPOS_TIME_ISO_MAX \<equiv> 25"

text \<open>The port is one function, the monotonic milliseconds at a context.\<close>

record 'c time_policy =
  tm_ctx :: 'c
  tm_src :: espos_time_src
  tm_epoch_at_zero_ms :: int
  tm_set_at_mono_ms :: int
  tm_prior_age_ms :: int
  tm_stale_after_h :: u32
  tm_sets :: u32

definition espos_time_policy_init :: "'c \<Rightarrow> u32 \<Rightarrow> 'c time_policy" where
  "espos_time_policy_init ctx stale_after_h =
     \<lparr>tm_ctx = ctx, tm_src = ESPOS_TIME_SRC_NONE, tm_epoch_at_zero_ms = 0, tm_set_at_mono_ms = 0,
      tm_prior_age_ms = 0, tm_stale_after_h = stale_after_h, tm_sets = 0\<rparr>"

definition espos_time_policy_set_aged ::
  "('c \<Rightarrow> int) \<Rightarrow> int \<Rightarrow> espos_time_src \<Rightarrow> int \<Rightarrow> 'c time_policy \<Rightarrow> esp_err \<times> 'c time_policy" where
  "espos_time_policy_set_aged now_ms unix_ms src prior_age_ms p =
     (if unix_ms \<le> 0 \<or> src \<le> ESPOS_TIME_SRC_NONE \<or> ESPOS_TIME_SRC_MAX \<le> src then (ESP_ERR_INVALID_ARG, p)
      else if tm_src p \<noteq> ESPOS_TIME_SRC_NONE \<and> src < tm_src p then (ESP_ERR_INVALID_STATE, p)
      else
        (let mono = now_ms (tm_ctx p)
         in (ESP_OK,
             p\<lparr>tm_epoch_at_zero_ms := unix_ms - mono, tm_set_at_mono_ms := mono,
               tm_prior_age_ms := (if 0 < prior_age_ms then prior_age_ms else 0),
               tm_src := src, tm_sets := tm_sets p + 1\<rparr>)))"

definition espos_time_policy_set ::
  "('c \<Rightarrow> int) \<Rightarrow> int \<Rightarrow> espos_time_src \<Rightarrow> 'c time_policy \<Rightarrow> esp_err \<times> 'c time_policy" where
  "espos_time_policy_set now_ms unix_ms src p = espos_time_policy_set_aged now_ms unix_ms src 0 p"

definition espos_time_policy_now_ms :: "('c \<Rightarrow> int) \<Rightarrow> 'c time_policy \<Rightarrow> int" where
  "espos_time_policy_now_ms now_ms p =
     (if tm_src p = ESPOS_TIME_SRC_NONE then 0 else tm_epoch_at_zero_ms p + now_ms (tm_ctx p))"

definition espos_time_policy_at_ms :: "'c time_policy \<Rightarrow> int \<Rightarrow> int" where
  "espos_time_policy_at_ms p mono_ms =
     (if tm_src p = ESPOS_TIME_SRC_NONE then 0 else tm_epoch_at_zero_ms p + mono_ms)"

definition espos_time_policy_is_synced :: "('c \<Rightarrow> int) \<Rightarrow> 'c time_policy \<Rightarrow> bool" where
  "espos_time_policy_is_synced now_ms p =
     (if tm_src p = ESPOS_TIME_SRC_NONE then False
      else if tm_src p = ESPOS_TIME_SRC_RTC \<and> 0 < tm_stale_after_h p
      then (let age_ms = tm_prior_age_ms p + (now_ms (tm_ctx p) - tm_set_at_mono_ms p)
            in age_ms < uint (tm_stale_after_h p) * 3600 * 1000)
      else True)"

subsection \<open>The civil calendar\<close>

definition days_from_civil :: "int \<Rightarrow> int \<Rightarrow> int \<Rightarrow> int" where
  "days_from_civil y m d =
     (let y = y - (if m \<le> 2 then 1 else 0);
          era = c_div (if 0 \<le> y then y else y - 399) 400;
          yoe = y - era * 400;
          doy = (153 * (m + (if 2 < m then - 3 else 9)) + 2) div 5 + d - 1;
          doe = yoe * 365 + yoe div 4 - yoe div 100 + doy
      in era * 146097 + doe - 719468)"

definition civil_from_days :: "int \<Rightarrow> int \<times> int \<times> int" where
  "civil_from_days z =
     (let z = z + 719468;
          era = c_div (if 0 \<le> z then z else z - 146096) 146097;
          doe = z - era * 146097;
          yoe = (doe - doe div 1460 + doe div 36524 - doe div 146096) div 365;
          yr = yoe + era * 400;
          doy = doe - (365 * yoe + yoe div 4 - yoe div 100);
          mp = (5 * doy + 2) div 153;
          d = doy - (153 * mp + 2) div 5 + 1;
          m = mp + (if mp < 10 then 3 else - 9)
      in (yr + (if m \<le> 2 then 1 else 0), m, d))"

subsection \<open>Formatting\<close>

text \<open>\<open>%0wd\<close> of a value that is not negative.\<close>

definition zero_padded :: "nat \<Rightarrow> int \<Rightarrow> string" where
  "zero_padded w i = (let s = dec_of_int i in replicate (w - length s) (CHR ''0'') @ s)"

definition iso_text :: "int \<Rightarrow> int \<Rightarrow> int \<Rightarrow> int \<Rightarrow> int \<Rightarrow> string" where
  "iso_text y mo d sod ms =
     zero_padded 4 y @ ''-'' @ zero_padded 2 mo @ ''-'' @ zero_padded 2 d @ ''T'' @
     zero_padded 2 (c_div sod 3600) @ '':'' @ zero_padded 2 (c_mod (c_div sod 60) 60) @ '':'' @
     zero_padded 2 (c_mod sod 60) @ ''.'' @ zero_padded 3 ms @ ''Z''"

text \<open>The length written and the buffer's string; \<open>room\<close> is \<open>None\<close> for a NULL buffer.\<close>

definition espos_time_iso8601_format :: "int \<Rightarrow> nat option \<Rightarrow> nat \<times> string" where
  "espos_time_iso8601_format unix_ms room =
     (case room of
        None \<Rightarrow> (0, '''')
      | Some n \<Rightarrow>
          if n < ESPOS_TIME_ISO_MAX then (0, '''')
          else if unix_ms \<le> 0 then (0, '''')
          else
            (let secs = c_div unix_ms 1000;
                 ms = c_mod unix_ms 1000;
                 (ms, secs) = (if ms < 0 then (ms + 1000, secs - 1) else (ms, secs));
                 days = c_div secs 86400;
                 sod = c_mod secs 86400;
                 (sod, days) = (if sod < 0 then (sod + 86400, days - 1) else (sod, days));
                 (y, mo, d) = civil_from_days days;
                 s = iso_text y mo d sod ms
             in if n \<le> length s then (0, '''') else (length s, s)))"

subsection \<open>Parsing\<close>

definition is_digit :: "char \<Rightarrow> bool" where
  "is_digit c \<longleftrightarrow> 48 \<le> (of_char c :: nat) \<and> (of_char c :: nat) \<le> 57"

definition digit_val :: "char \<Rightarrow> int" where
  "digit_val c = int (of_char c) - 48"

fun take_digits :: "nat \<Rightarrow> int \<Rightarrow> string \<Rightarrow> (int \<times> string) option" where
  "take_digits 0 v s = Some (v, s)"
| "take_digits (Suc k) v [] = None"
| "take_digits (Suc k) v (c # s) = (if is_digit c then take_digits k (v * 10 + digit_val c) s else None)"

fun expect :: "char list \<Rightarrow> string \<Rightarrow> string option" where
  "expect cs [] = None"
| "expect cs (c # s) = (if c \<in> set cs then Some s else None)"

fun frac_loop :: "nat \<Rightarrow> int \<Rightarrow> string \<Rightarrow> nat \<times> int \<times> string" where
  "frac_loop seen ms [] = (seen, ms, [])"
| "frac_loop seen ms (c # s) =
     (if is_digit c
      then (if seen < 3 then frac_loop (Suc seen) (ms * 10 + digit_val c) s else frac_loop seen ms s)
      else (seen, ms, c # s))"

text \<open>The optional fraction of a second, as milliseconds.\<close>

definition take_fraction :: "string \<Rightarrow> (int \<times> string) option" where
  "take_fraction s =
     (case expect ''.,'' s of
        None \<Rightarrow> Some (0, s)
      | Some s \<Rightarrow>
          if s = [] \<or> \<not> is_digit (hd s) then None
          else (let (seen, ms, s) = frac_loop 0 0 s in Some (ms * 10 ^ (3 - seen), s)))"

definition take_offset :: "string \<Rightarrow> (int \<times> string) option" where
  "take_offset s =
     (case s of
        [] \<Rightarrow> Some (0, s)
      | c # r \<Rightarrow>
          if c = CHR ''Z'' \<or> c = CHR ''z'' then Some (0, r)
          else if c = CHR ''+'' \<or> c = CHR ''-'' then
            do {
              let sgn = (if c = CHR ''-'' then - 1 else 1);
              (oh, r) \<leftarrow> take_digits 2 0 r;
              let r = (case expect '':'' r of Some r' \<Rightarrow> r' | None \<Rightarrow> r);
              (om, r) \<leftarrow> take_digits 2 0 r;
              Some (sgn * (oh * 3600 + om * 60), r)
            }
          else None)"

definition parse_iso :: "string \<Rightarrow> int option" where
  "parse_iso s =
     do {
       (year, s) \<leftarrow> take_digits 4 0 s;
       s \<leftarrow> expect ''-'' s;
       (month, s) \<leftarrow> take_digits 2 0 s;
       s \<leftarrow> expect ''-'' s;
       (day, s) \<leftarrow> take_digits 2 0 s;
       s \<leftarrow> expect ''Tt '' s;
       (hour, s) \<leftarrow> take_digits 2 0 s;
       s \<leftarrow> expect '':'' s;
       (minute, s) \<leftarrow> take_digits 2 0 s;
       s \<leftarrow> expect '':'' s;
       (second, s) \<leftarrow> take_digits 2 0 s;
       if month < 1 \<or> 12 < month \<or> day < 1 \<or> 31 < day \<or> 23 < hour \<or> 59 < minute \<or> 60 < second then None
       else do {
         (ms, s) \<leftarrow> take_fraction s;
         (offset_s, s) \<leftarrow> take_offset s;
         if s \<noteq> [] then None
         else (let days = days_from_civil year month day;
                   secs = days * 86400 + hour * 3600 + minute * 60 + second - offset_s
               in Some (secs * 1000 + ms))
       }
     }"

definition espos_time_iso8601_parse :: "string option \<Rightarrow> int" where
  "espos_time_iso8601_parse s =
     (case s of
        None \<Rightarrow> 0
      | Some s \<Rightarrow> (case parse_iso s of None \<Rightarrow> 0 | Some ums \<Rightarrow> if 0 < ums then ums else 0))"

subsection \<open>The calendar round trip\<close>

text \<open>Within an era of 400 years: the estimated year is in range and leaves a day of the year.\<close>

lemma era_year:
  fixes doe :: int
  assumes "0 \<le> doe" and "doe \<le> 146096"
  defines "y \<equiv> (doe - doe div 1460 + doe div 36524 - doe div 146096) div 365"
  defines "doy \<equiv> doe - (365 * y + y div 4 - y div 100)"
  shows "0 \<le> y" and "y \<le> 399" and "0 \<le> doy" and "doy \<le> 365"
proof -
  have "0 \<le> y \<and> y \<le> 399 \<and> 0 \<le> doy \<and> doy \<le> 365"
  proof (cases "doe = 146096")
    case True
    then show ?thesis by (simp add: y_def doy_def)
  next
    case False
    define a f b e where "a = doe div 1460" and "f = doe mod 1460" and "b = doe div 36524" and "e = doe mod 36524"
    have a: "doe = 1460 * a + f" "0 \<le> f" "f < 1460" by (simp_all add: a_def f_def)
    have b: "doe = 36524 * b + e" "0 \<le> e" "e < 36524" by (simp_all add: b_def e_def)
    have c: "doe div 146096 = 0" using assms False by simp
    have "0 \<le> b" "b < 4" using assms(1,2) False b by linarith+
    then have bb: "b \<in> {0, 1, 2, 3}" by auto
    have aa: "0 \<le> a" "a \<le> 100" using assms a by linarith+
    define q r where "q = (f - a + b) div 365" and "r = (f - a + b) mod 365"
    have q: "f - a + b = 365 * q + r" "0 \<le> r" "r < 365" by (simp_all add: q_def r_def)
    have "doe - a + b = 365 * (4 * a) + (f - a + b)" using a by simp
    then have "(doe - a + b) div 365 = 4 * a + q" unfolding q_def by simp
    then have y: "y = 4 * a + q" by (simp add: y_def c a_def b_def)
    have ab: "e + 25 * b \<ge> a" "e + 25 * b - a < 36500" using a b bb by auto
    have "365 * y + r = doe - a + b" using a q y by linarith
    then have "100 * b \<le> y" "y < 100 * b + 100" using ab b q bb by auto
    then have y100: "y div 100 = b" by (intro int_div_pos_eq [where r = "y - 100 * b"]) linarith+
    have q3: "- 1 \<le> q" "q \<le> 3" using q a aa bb ab b by auto
    have y4: "y div 4 = (if q = - 1 then a - 1 else a)"
    proof (cases "q = - 1")
      case True
      then show ?thesis using y by (simp add: int_div_pos_eq [where r = 3])
    next
      case False
      then show ?thesis using y q3 by (simp add: int_div_pos_eq [where r = q])
    qed
    have "doy = r + (if q = - 1 then 1 else 0)" using a q y y4 y100 by (simp add: doy_def)
    moreover have "y \<le> 399" "0 \<le> y" using \<open>100 * b \<le> y\<close> \<open>y < 100 * b + 100\<close> bb by auto
    ultimately show ?thesis using q by auto
  qed
  then show "0 \<le> y" "y \<le> 399" "0 \<le> doy" "doy \<le> 365" by blast+
qed


lemma day_of_month:
  fixes doy :: int
  assumes "0 \<le> doy" and "doy \<le> 365"
  defines "mp \<equiv> (5 * doy + 2) div 153"
  shows "0 \<le> mp" "mp \<le> 11" "0 \<le> doy - (153 * mp + 2) div 5" "doy - (153 * mp + 2) div 5 \<le> 30"
proof -
  define t where "t = (153 * mp + 2) div 5"
  have "153 * mp \<le> 5 * doy + 2" "5 * doy + 2 < 153 * mp + 153"
    using pos_mod_bound [of 153 "5 * doy + 2"] pos_mod_sign [of 153 "5 * doy + 2"] div_mult_mod_eq [of "5 * doy + 2" 153]
    unfolding mp_def by linarith+
  moreover have "5 * t \<le> 153 * mp + 2" "153 * mp + 2 < 5 * t + 5"
    using pos_mod_bound [of 5 "153 * mp + 2"] pos_mod_sign [of 5 "153 * mp + 2"] div_mult_mod_eq [of "153 * mp + 2" 5]
    unfolding t_def by linarith+
  ultimately show "0 \<le> mp" "mp \<le> 11" "0 \<le> doy - (153 * mp + 2) div 5" "doy - (153 * mp + 2) div 5 \<le> 30"
    using assms(1,2) unfolding t_def [symmetric] by linarith+
qed

text \<open>C's division of the shifted argument is the floor.\<close>

lemma c_div_pos: "0 \<le> a \<Longrightarrow> 0 < b \<Longrightarrow> c_div a b = a div b"
  by (cases "a = 0") (simp_all add: c_div_def)

lemma c_mod_pos: "0 \<le> a \<Longrightarrow> 0 < b \<Longrightarrow> c_mod a b = a mod b"
  by (simp add: c_mod_def c_div_pos minus_div_mult_eq_mod)

lemma c_div_floor:
  assumes "0 < b" shows "c_div (if 0 \<le> a then a else a - (b - 1)) b = a div b"
proof (cases "0 \<le> a")
  case False
  define q r where "q = a div b" and "r = a mod b"
  have qr: "a = b * q + r" "0 \<le> r" "r < b" using assms by (simp_all add: q_def r_def)
  have neg: "a - (b - 1) < 0" using False assms by simp
  have "(b - 1 - a) div b = - q"
    by (rule int_div_pos_eq [where r = "b - 1 - r"]) (use qr in \<open>simp_all add: algebra_simps\<close>)
  moreover have "sgn (a - (b - 1)) = - 1" "\<bar>a - (b - 1)\<bar> = b - 1 - a" using neg by simp_all
  ultimately show ?thesis using False assms by (simp add: c_div_def q_def)
qed (use assms in \<open>simp add: c_div_pos\<close>)

lemma civil_round_trip:
  assumes "civil_from_days z = (y, m, d)"
  shows "days_from_civil y m d = z" and "1 \<le> m" and "m \<le> 12" and "1 \<le> d" and "d \<le> 31"
    and "0 \<le> z \<Longrightarrow> z \<le> 2932896 \<Longrightarrow> 0 \<le> y \<and> y \<le> 9999"
proof -
  define x era doe where "x = z + 719468" and "era = x div 146097" and "doe = x mod 146097"
  have doe: "doe = x - era * 146097" "0 \<le> doe" "doe \<le> 146096"
    by (simp_all add: doe_def era_def minus_div_mult_eq_mod)
  define yoe where "yoe = (doe - doe div 1460 + doe div 36524 - doe div 146096) div 365"
  define doy where "doy = doe - (365 * yoe + yoe div 4 - yoe div 100)"
  define mp where "mp = (5 * doy + 2) div 153"
  note Y = era_year [OF doe(2,3), folded yoe_def, folded doy_def]
  note M = day_of_month [OF Y(3,4), folded mp_def]
  have era': "c_div (if 0 \<le> x then x else x - 146096) 146097 = era"
    using c_div_floor [of 146097 x] by (simp add: era_def split: if_splits)
  have "(y, m, d) = (yoe + era * 400 + (if mp + (if mp < 10 then 3 else - 9) \<le> 2 then 1 else 0),
      mp + (if mp < 10 then 3 else - 9), doy - (153 * mp + 2) div 5 + 1)"
    using assms unfolding civil_from_days_def Let_def x_def [symmetric] era' doe(1) [symmetric]
      yoe_def [symmetric] doy_def [symmetric] mp_def [symmetric] by (simp only:)
  then have m: "m = mp + (if mp < 10 then 3 else - 9)" and d: "d = doy - (153 * mp + 2) div 5 + 1"
    and y: "y = yoe + era * 400 + (if m \<le> 2 then 1 else 0)"
    by (simp_all only: prod.inject)
  show "1 \<le> m" "m \<le> 12" "1 \<le> d" "d \<le> 31" using m d M by (auto split: if_splits)
  have mp': "m + (if 2 < m then - 3 else 9) = mp" using m M by (auto split: if_splits)
  have "(yoe + era * 400) div 400 = era" using Y by simp
  then have e: "c_div (if 0 \<le> yoe + era * 400 then yoe + era * 400 else yoe + era * 400 - 399) 400 = era"
    using c_div_floor [of 400 "yoe + era * 400"] by (simp split: if_splits)
  have yy: "y - (if m \<le> 2 then 1 else 0) = yoe + era * 400" by (simp add: y)
  have "days_from_civil y m d = era * 146097 + (yoe * 365 + yoe div 4 - yoe div 100 + doy) - 719468"
    unfolding days_from_civil_def Let_def yy e mp' using d by simp
  then show "days_from_civil y m d = z" using doe(1) by (simp add: doy_def x_def)
  show "0 \<le> y \<and> y \<le> 9999" if z: "0 \<le> z" "z \<le> 2932896"
  proof
    have x: "719468 \<le> x" "x \<le> 3652364" using z by (simp_all add: x_def)
    have era: "0 \<le> era" "era \<le> 24" using x doe by linarith+
    show "0 \<le> y" using y era Y by auto
    show "y \<le> 9999"
    proof (rule ccontr)
      assume "\<not> y \<le> 9999"
      with y era Y have top: "yoe = 399" "era = 24" "m \<le> 2" by (auto split: if_splits)
      then have "10 \<le> mp" using m M by (auto split: if_splits)
      then have "306 \<le> doy" using pos_mod_sign [of 153 "5 * doy + 2"] div_mult_mod_eq [of "5 * doy + 2" 153]
        unfolding mp_def by linarith
      with top doe x show False by (simp add: doy_def)
    qed
  qed
qed


subsection \<open>Digits\<close>

lemma digit_char: "d < 10 \<Longrightarrow> is_digit (digit d) \<and> digit_val (digit d) = int d"
  by (simp add: is_digit_def digit_val_def digit_def)

text \<open>The \<open>w\<close> digits of a value, most significant first.\<close>

fun digits :: "nat \<Rightarrow> nat \<Rightarrow> string" where
  "digits 0 n = []"
| "digits (Suc w) n = digits w (n div 10) @ [digit (n mod 10)]"

lemma length_digits [simp]: "length (digits w n) = w"
  by (induction w arbitrary: n) simp_all

lemma take_digits_append:
  "take_digits (j + k) v s = Option.bind (take_digits j v s) (\<lambda>(v, s). take_digits k v s)"
  by (induction j v s rule: take_digits.induct) simp_all

lemma take_digits_digits:
  "n < 10 ^ w \<Longrightarrow> take_digits w v (digits w n @ rest) = Some (v * 10 ^ w + int n, rest)"
proof (induction w arbitrary: n v rest)
  case (Suc w)
  have n: "n div 10 < 10 ^ w" using Suc.prems by (simp add: less_mult_imp_div_less)
  have "take_digits (Suc w) v (digits (Suc w) n @ rest) =
      Option.bind (take_digits w v (digits w (n div 10) @ digit (n mod 10) # rest)) (\<lambda>(v, s). take_digits 1 v s)"
    using take_digits_append [of w 1] by simp
  also have "\<dots> = take_digits 1 (v * 10 ^ w + int (n div 10)) (digit (n mod 10) # rest)"
    by (simp add: Suc.IH [OF n])
  also have "\<dots> = Some (v * 10 ^ Suc w + int n, rest)"
    using digit_char [of "n mod 10"] by (simp add: zdiv_int zmod_int algebra_simps)
  finally show ?case .
qed simp

lemma digit_0: "digit 0 = CHR ''0''"
  by code_simp

lemma digits_zero: "digits w 0 = replicate w (CHR ''0'')"
  by (induction w) (simp_all add: digit_0 replicate_append_same)

lemma dec_of_nat_digits:
  "n < 10 ^ w \<Longrightarrow> 0 < w \<Longrightarrow> replicate (w - length (dec_of_nat n)) (CHR ''0'') @ dec_of_nat n = digits w n"
proof (induction w arbitrary: n)
  case (Suc w)
  show ?case
  proof (cases "n < 10")
    case True
    then show ?thesis by (simp add: dec_of_nat.simps [of n] digits_zero)
  next
    case False
    have "n div 10 < 10 ^ w" using Suc.prems by (simp add: less_mult_imp_div_less)
    moreover have "0 < w" using False Suc.prems(1) by (cases w) auto
    ultimately have "replicate (w - length (dec_of_nat (n div 10))) (CHR ''0'') @ dec_of_nat (n div 10) = digits w (n div 10)"
      by (rule Suc.IH)
    then show ?thesis using False by (simp add: dec_of_nat.simps [of n])
  qed
qed simp

lemma zero_padded_digits: "0 \<le> i \<Longrightarrow> i < 10 ^ w \<Longrightarrow> 0 < w \<Longrightarrow> zero_padded w i = digits w (nat i)"
  using dec_of_nat_digits [of "nat i" w] by (simp add: zero_padded_def dec_of_int_def Let_def nat_less_iff)

lemma take_zero_padded:
  "0 \<le> i \<Longrightarrow> i < 10 ^ w \<Longrightarrow> 0 < w \<Longrightarrow> take_digits w 0 (zero_padded w i @ rest) = Some (i, rest)"
  using take_digits_digits [of "nat i" w 0 rest] by (simp add: zero_padded_digits nat_less_iff)


subsection \<open>Timestamps\<close>

lemma expect_hit [simp]: "c \<in> set cs \<Longrightarrow> expect cs (c # s) = Some s"
  by simp

lemma take_three_digits:
  assumes "0 \<le> ms" and "ms < 1000"
  shows "take_fraction (CHR ''.'' # zero_padded 3 ms @ ''Z'') = Some (ms, ''Z'')"
proof -
  define n where "n = nat ms"
  have n: "n < 1000" "ms = int n" using assms by (auto simp: n_def)
  have d: "zero_padded 3 ms = [digit (n div 10 div 10 mod 10), digit (n div 10 mod 10), digit (n mod 10)]"
    using zero_padded_digits [of ms 3] assms n(2) by (simp add: numeral_3_eq_3 n_def [symmetric])
  have h: "n div 10 div 10 < 10" using n(1) by simp
  have "n = 10 * (n div 10) + n mod 10" "n div 10 = 10 * (n div 10 div 10) + n div 10 mod 10" by simp_all
  then have "(n div 10 div 10) * 100 + (n div 10 mod 10) * 10 + n mod 10 = n" by linarith
  from arg_cong [OF this, of int]
  have v: "int (n div 10 div 10) * 100 + int (n div 10 mod 10) * 10 + int (n mod 10) = int n"
    by (simp only: of_nat_add of_nat_mult of_nat_numeral)
  have "frac_loop 0 0 (zero_padded 3 ms @ ''Z'') = (3, int n, ''Z'')"
    using digit_char [of "n div 10 div 10"] digit_char [of "n div 10 mod 10"] digit_char [of "n mod 10"] h v
    by (simp add: d is_digit_def [of "CHR ''Z''"] algebra_simps)
  moreover have "is_digit (hd (zero_padded 3 ms @ ''Z''))"
    using digit_char [of "n div 10 div 10"] h by (simp add: d)
  ultimately show ?thesis using n(2) by (simp add: take_fraction_def d)
qed

lemma parse_iso_text:
  assumes "0 \<le> y" "y \<le> 9999" "1 \<le> mo" "mo \<le> 12" "1 \<le> d" "d \<le> 31" "0 \<le> sod" "sod < 86400" "0 \<le> ms" "ms < 1000"
  shows "parse_iso (iso_text y mo d sod ms) = Some ((days_from_civil y mo d * 86400 + sod) * 1000 + ms)"
proof -
  define h mi sec where "h = sod div 3600" and "mi = sod div 60 mod 60" and "sec = sod mod 60"
  have r: "0 \<le> h" "h \<le> 23" "0 \<le> mi" "mi \<le> 59" "0 \<le> sec" "sec \<le> 59" "sod = h * 3600 + mi * 60 + sec"
  proof -
    have "sod div 3600 = sod div 60 div 60" by (simp add: div_mult2_eq [symmetric] zdiv_zmult2_eq [symmetric])
    moreover have "sod = 60 * (sod div 60) + sod mod 60" "sod div 60 = 60 * (sod div 60 div 60) + sod div 60 mod 60" by simp_all
    ultimately show "sod = h * 3600 + mi * 60 + sec" unfolding h_def mi_def sec_def by linarith
    show "h \<le> 23" using assms(7,8) by (simp add: h_def)
  qed (use assms(7,8) in \<open>simp_all add: h_def mi_def sec_def\<close>)
  have t: "iso_text y mo d sod ms = zero_padded 4 y @ CHR ''-'' # zero_padded 2 mo @ CHR ''-'' # zero_padded 2 d @
      CHR ''T'' # zero_padded 2 h @ CHR '':'' # zero_padded 2 mi @ CHR '':'' # zero_padded 2 sec @ CHR ''.'' # zero_padded 3 ms @ ''Z''"
    using assms(7) by (simp add: iso_text_def c_div_pos c_mod_pos h_def mi_def sec_def)
  have s: "(days_from_civil y mo d * 86400 + sod) * 1000 + ms =
      (days_from_civil y mo d * 86400 + h * 3600 + mi * 60 + sec - 0) * 1000 + ms" using r(7) by simp
  show ?thesis
    unfolding t s parse_iso_def using assms(1-6,9,10) r(1-6) take_three_digits [OF assms(9,10)]
    by (simp add: take_zero_padded take_offset_def Let_def)
qed

text \<open>
  C31. Every instant from the first millisecond of 1970 to the end of the year 9999 is written as
  a 24-character timestamp that reads back as the same instant.
\<close>

theorem iso8601_round_trip:
  assumes "0 < ms" and "ms < 253402300800000" and "ESPOS_TIME_ISO_MAX \<le> n"
  shows "fst (espos_time_iso8601_format ms (Some n)) = 24 \<and>
     espos_time_iso8601_parse (Some (snd (espos_time_iso8601_format ms (Some n)))) = ms"
proof -
  define secs days sod f where "secs = ms div 1000" and "days = secs div 86400" and "sod = secs mod 86400" and "f = ms mod 1000"
  obtain y mo d where c: "civil_from_days days = (y, mo, d)" by (metis prod_cases3)
  have z: "0 \<le> days" "days \<le> 2932896" "0 \<le> secs" using assms(1,2) by (simp_all add: days_def secs_def)
  note C = civil_round_trip [OF c] civil_round_trip(6) [OF c z(1,2)]
  have len: "length (iso_text y mo d sod f) = 24"
    using C by (simp add: iso_text_def zero_padded_digits c_div_pos c_mod_pos sod_def f_def)
  have e: "c_div ms 1000 = secs" "c_mod ms 1000 = f" "c_div secs 86400 = days" "c_mod secs 86400 = sod" "\<not> f < 0" "\<not> sod < 0"
    using assms(1) z(3) by (simp_all add: c_div_pos c_mod_pos secs_def f_def days_def sod_def not_less)
  have "espos_time_iso8601_format ms (Some n) = (24, iso_text y mo d sod f)"
    unfolding espos_time_iso8601_format_def using assms(1,3) by (simp add: e c len)
  moreover have "parse_iso (iso_text y mo d sod f) = Some ((days * 86400 + sod) * 1000 + f)"
    using parse_iso_text [of y mo d sod f] C by (simp add: sod_def f_def)
  moreover have "(days * 86400 + sod) * 1000 + f = ms"
    by (simp add: days_def sod_def secs_def f_def)
  ultimately show ?thesis using assms(1) by (simp add: espos_time_iso8601_parse_def)
qed

text \<open>The last millisecond of a leap day.\<close>

theorem iso8601_round_trip_witness:
  "espos_time_iso8601_parse (Some ''2024-02-29T23:59:59.999Z'') = 1709251199999"
proof -
  have d: "civil_from_days 19782 = (2024, 2, 29)" by code_simp
  have s: "iso_text 2024 2 29 86399 999 = ''2024-02-29T23:59:59.999Z''" by code_simp
  have "snd (espos_time_iso8601_format 1709251199999 (Some 25)) = ''2024-02-29T23:59:59.999Z''"
    by (simp add: espos_time_iso8601_format_def c_div_pos c_mod_pos d s)
  with iso8601_round_trip [of 1709251199999 25] show ?thesis by simp
qed

subsection \<open>Whose clock it is\<close>

text \<open>An offer: the monotonic time it comes at, the instant, the source and the age.\<close>

fun time_offer :: "int time_policy \<Rightarrow> int \<times> int \<times> espos_time_src \<times> int \<Rightarrow> int time_policy" where
  "time_offer p (t0, unix_ms, src, age) = snd (espos_time_policy_set_aged (\<lambda>c. c) unix_ms src age (p\<lparr>tm_ctx := t0\<rparr>))"

definition valid_offers :: "(int \<times> int \<times> espos_time_src \<times> int) list \<Rightarrow> (int \<times> int \<times> espos_time_src \<times> int) list" where
  "valid_offers os = filter (\<lambda>(t0, unix_ms, src, age). 0 < unix_ms \<and> ESPOS_TIME_SRC_NONE < src \<and> src < ESPOS_TIME_SRC_MAX) os"

lemma time_offer_result:
  assumes "0 \<le> tm_src p"
  shows "time_offer p (t0, unix_ms, src, age) =
     (if 0 < unix_ms \<and> ESPOS_TIME_SRC_NONE < src \<and> src < ESPOS_TIME_SRC_MAX \<and> tm_src p \<le> src
      then p\<lparr>tm_ctx := t0, tm_epoch_at_zero_ms := unix_ms - t0, tm_set_at_mono_ms := t0,
             tm_prior_age_ms := max 0 age, tm_src := src, tm_sets := tm_sets p + 1\<rparr>
      else p\<lparr>tm_ctx := t0\<rparr>)"
  using assms by (auto simp: espos_time_policy_set_aged_def Let_def)

text \<open>
  Whatever sequence of offers arrives, the clock belongs to the highest-ranked source that
  ever offered a valid instant, and it reads the last instant that source offered, carried on
  by the monotonic clock: a lower source never moves it.
\<close>

theorem time_best_source_wins:
  fixes os :: "(int \<times> int \<times> espos_time_src \<times> int) list" and ctx :: int and h :: u32
  defines "p \<equiv> foldl time_offer (espos_time_policy_init ctx h) os"
  shows "tm_src p = Max (insert 0 (set (map (\<lambda>(t0, unix_ms, src, age). src) (valid_offers os)))) \<and>
     (case rev (filter (\<lambda>(t0, unix_ms, src, age). src = tm_src p) (valid_offers os)) of
        [] \<Rightarrow> espos_time_policy_at_ms p m = 0
      | (t0, unix_ms, src, age) # _ \<Rightarrow> espos_time_policy_at_ms p m = unix_ms + (m - t0))"
proof -
  let ?src = "\<lambda>(t0, unix_ms, src, age). src"
  have "0 \<le> tm_src p \<and> tm_src p = Max (insert 0 (set (map ?src (valid_offers os)))) \<and>
     (case rev (filter (\<lambda>x. ?src x = tm_src p) (valid_offers os)) of
        [] \<Rightarrow> tm_src p = 0
      | (t0, unix_ms, src, age) # _ \<Rightarrow> tm_src p \<noteq> 0 \<and> tm_epoch_at_zero_ms p = unix_ms - t0)"
    unfolding p_def
  proof (induction os rule: rev_induct)
    case Nil
    show ?case by (simp add: valid_offers_def espos_time_policy_init_def)
  next
    case (snoc x xs)
    define q where "q = foldl time_offer (espos_time_policy_init ctx h) xs"
    note IH = snoc.IH [folded q_def]
    have IH1: "0 \<le> tm_src q" and IH2: "Max (insert 0 (set (map ?src (valid_offers xs)))) = tm_src q"
      and IH3: "case rev (filter (\<lambda>x. ?src x = tm_src q) (valid_offers xs)) of
        [] \<Rightarrow> tm_src q = 0
      | (t0, unix_ms, src, age) # _ \<Rightarrow> tm_src q \<noteq> 0 \<and> tm_epoch_at_zero_ms q = unix_ms - t0"
      using IH by (blast, metis, blast)
    obtain t0 u src age where x: "x = (t0, u, src, age)" by (metis prod_cases4)
    define ok where "ok = (0 < u \<and> ESPOS_TIME_SRC_NONE < src \<and> src < ESPOS_TIME_SRC_MAX)"
    have v: "valid_offers (xs @ [x]) = valid_offers xs @ (if ok then [x] else [])"
      by (simp add: valid_offers_def x ok_def)
    have step: "foldl time_offer (espos_time_policy_init ctx h) (xs @ [x]) = time_offer q x" by (simp add: q_def)
    have m: "Max (insert 0 (set (map ?src (valid_offers xs @ [x])))) = max src (tm_src q)"
      using IH2 by (simp add: x insert_commute [of 0])
    show ?case
    proof (cases "ok \<and> tm_src q \<le> src")
      case True
      have "time_offer q x = q\<lparr>tm_ctx := t0, tm_epoch_at_zero_ms := u - t0, tm_set_at_mono_ms := t0,
             tm_prior_age_ms := max 0 age, tm_src := src, tm_sets := tm_sets q + 1\<rparr>"
        using True unfolding x time_offer_result [OF IH1] ok_def by simp
      then show ?thesis unfolding step v using m True by (simp add: x ok_def max_def)
    next
      case False
      then have "time_offer q x = q\<lparr>tm_ctx := t0\<rparr>"
        using False unfolding x time_offer_result [OF IH1] ok_def by auto
      then have off: "foldl time_offer (espos_time_policy_init ctx h) (xs @ [x]) = q\<lparr>tm_ctx := t0\<rparr>" by (simp only: step)
      have "Max (insert 0 (set (map ?src (valid_offers (xs @ [x]))))) = tm_src q"
        using m False IH2 by (cases ok) (simp_all add: v)
      moreover have "filter (\<lambda>y. ?src y = tm_src q) (valid_offers (xs @ [x])) = filter (\<lambda>y. ?src y = tm_src q) (valid_offers xs)"
        using False unfolding v by (cases ok) (simp_all add: x)
      ultimately show ?thesis using IH1 IH3 unfolding off by (simp split: list.splits prod.splits)
    qed
  qed
  then show ?thesis
    by (auto simp: espos_time_policy_at_ms_def case_prod_unfold split: list.splits)
qed

end
