(* ===== verification/Sk_Delta.thy ===== *)
theory Sk_Delta
  imports Time_Policy "HOL-Library.Sublist"
begin

text \<open>
  The delta batcher, src/components/espos_sk/src/sk_delta.c: the window of pending values, the
  messages it closes into, the bounded ring they wait in, the timestamps and the rate limit.

  A message is its text and the number of the allocation that holds it: the sources compare
  pointers to know a message again. \<open>dl_heap\<close> has the outcomes of the next allocations,
  success when it is exhausted. The ring is the array of \<open>max_msgs\<close> slots with its head and
  count. Sizes and counts are naturals, \<open>int64_t\<close> milliseconds are integers. The wall clock is
  a reading passed in, \<open>dl_wall\<close> says whether one was given. \<open>PENDING_CAP\<close> is a build
  setting of at most 32. \<open>espos_sk_json_number\<close>, which prints a double, is not modelled.
\<close>

abbreviation (input) ESPOS_SK_PATH_MAX :: nat where "ESPOS_SK_PATH_MAX \<equiv> 96"
abbreviation (input) ESPOS_SK_VALUE_MAX :: nat where "ESPOS_SK_VALUE_MAX \<equiv> 256"
abbreviation (input) ESPOS_SK_CONTEXT_MAX :: nat where "ESPOS_SK_CONTEXT_MAX \<equiv> 80"
abbreviation (input) ESPOS_SK_CONTEXTS_MAX :: nat where "ESPOS_SK_CONTEXTS_MAX \<equiv> 4"
abbreviation (input) AT_MS_MIN :: int where "AT_MS_MIN \<equiv> 946684800000"
abbreviation (input) AT_MS_MAX :: int where "AT_MS_MAX \<equiv> 253402300799999"

record delta_cfg =
  dc_batch_ms :: u32
  dc_max_msgs :: nat
  dc_max_bytes :: nat
  dc_drain_per_s :: u32
  dc_no_drop :: bool

record delta_stats =
  ds_dropped :: u32
  ds_built :: u32
  ds_taken :: u32

record pending =
  pd_path :: string
  pd_value :: string
  pd_at_ms :: int
  pd_ctx :: nat
  pd_upd :: nat

record message =
  m_ptr :: nat
  m_text :: string

record queued =
  q_msg :: "message option"
  q_batch_ms :: u32
  q_stamp_at :: nat

record sk_delta =
  dl_cfg :: delta_cfg
  dl_label :: string
  dl_pending :: "pending list"
  dl_ctx :: "string list"
  dl_upd_n :: nat
  dl_pending_since_ms :: u32
  dl_ring :: "queued list"
  dl_head :: nat
  dl_count :: nat
  dl_bytes :: nat
  dl_last_take_ms :: u32
  dl_draining :: bool
  dl_wall :: bool
  dl_unstamped :: "nat option"
  dl_unstamped_at :: nat
  dl_unstamped_batch_ms :: u32
  dl_st :: delta_stats
  dl_heap :: "bool list"
  dl_next_ptr :: nat

definition malloc :: "sk_delta \<Rightarrow> nat option \<times> sk_delta" where
  "malloc d =
     (case dl_heap d of
        False # h \<Rightarrow> (None, d\<lparr>dl_heap := h\<rparr>)
      | True # h \<Rightarrow> (Some (dl_next_ptr d), d\<lparr>dl_heap := h, dl_next_ptr := Suc (dl_next_ptr d)\<rparr>)
      | [] \<Rightarrow> (Some (dl_next_ptr d), d\<lparr>dl_next_ptr := Suc (dl_next_ptr d)\<rparr>))"

definition no_msg :: queued where
  "no_msg = \<lparr>q_msg = None, q_batch_ms = 0, q_stamp_at = 0\<rparr>"

subsection \<open>Construction and settings\<close>

text \<open>Both allocations succeed; the label may be absent.\<close>

definition espos_sk_delta_create :: "delta_cfg \<Rightarrow> string option \<Rightarrow> bool list \<Rightarrow> sk_delta" where
  "espos_sk_delta_create cfg label heap =
     (let cfg = (if dc_batch_ms cfg = 0 then cfg\<lparr>dc_batch_ms := 100\<rparr> else cfg);
          cfg = (if dc_max_msgs cfg = 0 then cfg\<lparr>dc_max_msgs := 1\<rparr> else cfg);
          cfg = (if dc_drain_per_s cfg = 0 then cfg\<lparr>dc_drain_per_s := 20\<rparr> else cfg)
      in \<lparr>dl_cfg = cfg, dl_label = cbuf 40 (case label of None \<Rightarrow> ''espos'' | Some l \<Rightarrow> l), dl_pending = [], dl_ctx = [], dl_upd_n = 0,
          dl_pending_since_ms = 0, dl_ring = replicate (dc_max_msgs cfg) no_msg, dl_head = 0, dl_count = 0, dl_bytes = 0,
          dl_last_take_ms = 0, dl_draining = False, dl_wall = False, dl_unstamped = None, dl_unstamped_at = 0,
          dl_unstamped_batch_ms = 0, dl_st = \<lparr>ds_dropped = 0, ds_built = 0, ds_taken = 0\<rparr>, dl_heap = heap, dl_next_ptr = 0\<rparr>)"

definition espos_sk_delta_set_clock :: "bool \<Rightarrow> sk_delta \<Rightarrow> sk_delta" where
  "espos_sk_delta_set_clock wall d = d\<lparr>dl_wall := wall\<rparr>"

definition espos_sk_delta_set_label :: "string option \<Rightarrow> sk_delta \<Rightarrow> sk_delta" where
  "espos_sk_delta_set_label label d = d\<lparr>dl_label := cbuf 40 (case label of None \<Rightarrow> ''espos'' | Some l \<Rightarrow> l)\<rparr>"

definition espos_sk_delta_set_timing :: "u32 \<Rightarrow> u32 \<Rightarrow> sk_delta \<Rightarrow> sk_delta" where
  "espos_sk_delta_set_timing batch_ms drain_per_s d =
     (let d = (if batch_ms \<noteq> 0 then d\<lparr>dl_cfg := (dl_cfg d)\<lparr>dc_batch_ms := batch_ms\<rparr>\<rparr> else d)
      in if drain_per_s \<noteq> 0 then d\<lparr>dl_cfg := (dl_cfg d)\<lparr>dc_drain_per_s := drain_per_s\<rparr>\<rparr> else d)"

definition espos_sk_delta_set_no_drop :: "bool \<Rightarrow> sk_delta \<Rightarrow> sk_delta" where
  "espos_sk_delta_set_no_drop no_drop d = d\<lparr>dl_cfg := (dl_cfg d)\<lparr>dc_no_drop := no_drop\<rparr>\<rparr>"

subsection \<open>The ring\<close>

definition slot_len :: "queued \<Rightarrow> nat" where
  "slot_len q = (case q_msg q of None \<Rightarrow> 0 | Some m \<Rightarrow> length (m_text m))"

definition over_limit :: "nat \<Rightarrow> sk_delta \<Rightarrow> bool" where
  "over_limit len d \<longleftrightarrow>
     dc_max_msgs (dl_cfg d) \<le> dl_count d \<or>
     dc_max_bytes (dl_cfg d) \<noteq> 0 \<and> dc_max_bytes (dl_cfg d) < dl_bytes d + len"

text \<open>Drop the oldest while over either limit.\<close>

function make_room :: "nat \<Rightarrow> sk_delta \<Rightarrow> sk_delta" where
  "make_room len d =
     (if 0 < dl_count d \<and> over_limit len d
      then make_room len
        (d\<lparr>dl_bytes := dl_bytes d - slot_len (dl_ring d ! dl_head d),
           dl_head := (dl_head d + 1) mod dc_max_msgs (dl_cfg d), dl_count := dl_count d - 1,
           dl_st := (dl_st d)\<lparr>ds_dropped := ds_dropped (dl_st d) + 1\<rparr>\<rparr>)
      else d)"
  by pat_completeness auto
termination
  by (relation "measure (\<lambda>(len, d). dl_count d)") auto

declare make_room.simps [simp del]

definition ring_push :: "message \<Rightarrow> u32 \<Rightarrow> nat \<Rightarrow> bool \<Rightarrow> sk_delta \<Rightarrow> bool \<times> sk_delta" where
  "ring_push msg batch_ms stamp_at no_drop d =
     (let len = length (m_text msg)
      in if no_drop \<and> over_limit len d then (False, d)
         else
           (let d = make_room len d
            in if dc_max_bytes (dl_cfg d) \<noteq> 0 \<and> dc_max_bytes (dl_cfg d) < len
               then (False, d\<lparr>dl_st := (dl_st d)\<lparr>ds_dropped := ds_dropped (dl_st d) + 1\<rparr>\<rparr>)
               else
                 (let slot = (dl_head d + dl_count d) mod dc_max_msgs (dl_cfg d)
                  in (True, d\<lparr>dl_ring := (dl_ring d)[slot := \<lparr>q_msg = Some msg, q_batch_ms = batch_ms, q_stamp_at = stamp_at\<rparr>],
                              dl_count := dl_count d + 1, dl_bytes := dl_bytes d + len\<rparr>))))"

definition ring_pop :: "sk_delta \<Rightarrow> (message \<times> u32 \<times> nat) option \<times> sk_delta" where
  "ring_pop d =
     (if dl_count d = 0 then (None, d)
      else
        (let q = dl_ring d ! dl_head d; m = the (q_msg q)
         in (Some (m, q_batch_ms q, q_stamp_at q),
             d\<lparr>dl_ring := (dl_ring d)[dl_head d := q\<lparr>q_msg := None\<rparr>],
               dl_head := (dl_head d + 1) mod dc_max_msgs (dl_cfg d), dl_count := dl_count d - 1,
               dl_bytes := dl_bytes d - length (m_text m)\<rparr>)))"

definition espos_sk_delta_requeue :: "message option \<Rightarrow> sk_delta \<Rightarrow> sk_delta" where
  "espos_sk_delta_requeue msg d =
     (case msg of
        None \<Rightarrow> d
      | Some msg \<Rightarrow>
          if dc_max_msgs (dl_cfg d) \<le> dl_count d
          then d\<lparr>dl_st := (dl_st d)\<lparr>ds_dropped := ds_dropped (dl_st d) + 1\<rparr>\<rparr>
          else
            (let d = d\<lparr>dl_head := (dl_head d + dc_max_msgs (dl_cfg d) - 1) mod dc_max_msgs (dl_cfg d)\<rparr>;
                 undated = (dl_unstamped d = Some (m_ptr msg))
             in d\<lparr>dl_ring := (dl_ring d)[dl_head d :=
                     \<lparr>q_msg = Some msg, q_batch_ms = (if undated then dl_unstamped_batch_ms d else 0),
                      q_stamp_at = (if undated then dl_unstamped_at d else 0)\<rparr>],
                  dl_unstamped := None, dl_count := dl_count d + 1, dl_bytes := dl_bytes d + length (m_text msg),
                  dl_st := (dl_st d)\<lparr>ds_taken := ds_taken (dl_st d) - 1\<rparr>\<rparr>))"

subsection \<open>Timestamps\<close>

text \<open>The batcher's own copy of the calendar arithmetic; the empty string is length 0.\<close>

definition sk_civil :: "int \<Rightarrow> int \<times> int \<times> int" where
  "sk_civil days =
     (let z = days + 719468;
          era = c_div (if 0 \<le> z then z else z - 146096) 146097;
          doe = z - era * 146097;
          yoe = (doe - doe div 1460 + doe div 36524 - doe div 146096) div 365;
          y = yoe + era * 400;
          doy = doe - (365 * yoe + yoe div 4 - yoe div 100);
          mp = (5 * doy + 2) div 153;
          day = doy - (153 * mp + 2) div 5 + 1;
          mon = mp + (if mp < 10 then 3 else - 9)
      in (y + (if mon \<le> 2 then 1 else 0), mon, day))"

definition sk_iso8601 :: "int \<Rightarrow> string" where
  "sk_iso8601 unix_ms =
     (if unix_ms \<le> 0 then []
      else
        (let secs = c_div unix_ms 1000;
             ms = c_mod unix_ms 1000;
             days = c_div secs 86400;
             sod = c_mod secs 86400;
             (y, mon, day) = sk_civil days;
             s = zero_padded 4 y @ ''-'' @ zero_padded 2 mon @ ''-'' @ zero_padded 2 day @ ''T'' @
                 zero_padded 2 (c_div sod 3600) @ '':'' @ zero_padded 2 (c_mod (c_div sod 60) 60) @ '':'' @
                 zero_padded 2 (c_mod sod 60) @ ''.'' @ zero_padded 3 ms @ ''Z''
         in if length s < 25 then s else []))"

subsection \<open>The window\<close>

definition quoted :: "string \<Rightarrow> string" where
  "quoted s = CHR 0x22 # s @ [CHR 0x22]"

definition SELF_CONTEXT :: string where
  "SELF_CONTEXT = ''vessels.self''"

definition context_check :: "string \<Rightarrow> esp_err" where
  "context_check c =
     (if c = '''' then ESP_ERR_INVALID_ARG
      else if ESPOS_SK_CONTEXT_MAX \<le> length c then ESP_ERR_INVALID_SIZE
      else if list_ex (\<lambda>x. (of_char x :: nat) < 0x20 \<or> x = CHR 0x22 \<or> x = CHR 0x5C) c then ESP_ERR_INVALID_ARG
      else ESP_OK)"

definition context_slot :: "string \<Rightarrow> sk_delta \<Rightarrow> nat option \<times> sk_delta" where
  "context_slot context d =
     (case find (\<lambda>i. dl_ctx d ! i = context) [0..<length (dl_ctx d)] of
        Some i \<Rightarrow> (Some i, d)
      | None \<Rightarrow>
          if length (dl_ctx d) = ESPOS_SK_CONTEXTS_MAX then (None, d)
          else (Some (length (dl_ctx d)), d\<lparr>dl_ctx := dl_ctx d @ [context]\<rparr>))"

definition update_of :: "sk_delta \<Rightarrow> nat \<Rightarrow> int \<Rightarrow> nat option" where
  "update_of d ctx at_ms = map_option pd_upd (find (\<lambda>e. pd_ctx e = ctx \<and> pd_at_ms e = at_ms) (dl_pending d))"

definition overtakes :: "sk_delta \<Rightarrow> nat \<Rightarrow> nat option \<Rightarrow> string \<Rightarrow> bool" where
  "overtakes d ctx upd path =
     (case upd of
        None \<Rightarrow> False
      | Some u \<Rightarrow> list_ex (\<lambda>e. pd_ctx e = ctx \<and> u < pd_upd e \<and> pd_path e = path) (dl_pending d))"

text \<open>The message of a context: the updates in order, each with its values in order.\<close>

definition update_entries :: "sk_delta \<Rightarrow> nat \<Rightarrow> nat \<Rightarrow> pending list" where
  "update_entries d ctx u = filter (\<lambda>e. pd_ctx e = ctx \<and> pd_upd e = u) (dl_pending d)"

definition value_text :: "bool \<Rightarrow> pending \<Rightarrow> string" where
  "value_text first e =
     (if first then '''' else '','') @ ''{'' @ quoted ''path'' @ '':'' @ quoted (pd_path e) @ '','' @ quoted ''value'' @ '':'' @ pd_value e @ ''}''"

fun values_text :: "bool \<Rightarrow> pending list \<Rightarrow> string" where
  "values_text first [] = ''''"
| "values_text first (e # es) = value_text first e @ values_text False es"

definition timestamp_text :: "string \<Rightarrow> string" where
  "timestamp_text ts = quoted ''timestamp'' @ '':'' @ quoted ts @ '',''"

definition source_text :: "string \<Rightarrow> string" where
  "source_text label = quoted ''source'' @ '':{'' @ quoted ''label'' @ '':'' @ quoted label @ ''},'' @ quoted ''values'' @ '':[''"

text \<open>One update appended: the text, the offset to stamp, whether it is the first.\<close>

definition append_update :: "sk_delta \<Rightarrow> nat \<Rightarrow> string \<times> nat \<times> bool \<Rightarrow> nat \<Rightarrow> string \<times> nat \<times> bool" where
  "append_update d ctx = (\<lambda>(m, stamp_at, first_update) u.
     (case update_entries d ctx u of
        [] \<Rightarrow> (m, stamp_at, first_update)
      | f # es \<Rightarrow>
          (let ts = sk_iso8601 (pd_at_ms f);
               m = m @ (if first_update then '''' else '','') @ ''{'';
               (m, stamp_at) = (if pd_at_ms f \<noteq> 0 \<and> ts \<noteq> '''' then (m @ timestamp_text ts, stamp_at) else (m, length m));
               m = m @ source_text (dl_label d) @ values_text True (f # es) @ '']}''
           in (m, stamp_at, False))))"

definition message_head :: "string \<Rightarrow> string" where
  "message_head context = ''{'' @ quoted ''context'' @ '':'' @ quoted context @ '','' @ quoted ''updates'' @ '':[''"

definition message_text :: "sk_delta \<Rightarrow> nat \<Rightarrow> string \<times> nat" where
  "message_text d ctx =
     (case foldl (append_update d ctx) (message_head (dl_ctx d ! ctx), 0, True) [0..<dl_upd_n d] of
        (m, stamp_at, _) \<Rightarrow> (m @ '']}'', stamp_at))"

text \<open>What \<open>build_message\<close> allocates.\<close>

definition message_need :: "sk_delta \<Rightarrow> nat \<Rightarrow> nat" where
  "message_need d ctx =
     32 + length (dl_ctx d ! ctx) +
     sum_list (map (\<lambda>e. 24 + length (pd_path e) + length (pd_value e)) (filter (\<lambda>e. pd_ctx e = ctx) (dl_pending d))) +
     sum_list (map (\<lambda>u. 128 + length (dl_label d)) (filter (\<lambda>u. update_entries d ctx u \<noteq> []) [0..<dl_upd_n d]))"

definition build_message :: "nat \<Rightarrow> sk_delta \<Rightarrow> (message \<times> nat) option \<times> sk_delta" where
  "build_message ctx d =
     (case malloc d of
        (None, d) \<Rightarrow> (None, d)
      | (Some p, d) \<Rightarrow> (case message_text d ctx of (m, stamp_at) \<Rightarrow> (Some (\<lparr>m_ptr = p, m_text = m\<rparr>, stamp_at), d)))"

text \<open>The messages of the window, a context after the other; a failed allocation leaves one out.\<close>

fun build_messages :: "nat list \<Rightarrow> sk_delta \<Rightarrow> (message \<times> nat) list \<times> sk_delta" where
  "build_messages [] d = ([], d)"
| "build_messages (c # cs) d =
     (if list_ex (\<lambda>e. pd_ctx e = c) (dl_pending d) then
        (case build_message c d of
           (None, d) \<Rightarrow> build_messages cs d
         | (Some x, d) \<Rightarrow> (case build_messages cs d of (xs, d) \<Rightarrow> (x # xs, d)))
      else build_messages cs d)"

fun push_all :: "u32 \<Rightarrow> bool \<Rightarrow> (message \<times> nat) list \<Rightarrow> sk_delta \<Rightarrow> sk_delta" where
  "push_all batch_ms no_drop [] d = d"
| "push_all batch_ms no_drop ((m, stamp_at) # xs) d =
     push_all batch_ms no_drop xs
       (snd (ring_push m batch_ms stamp_at no_drop (d\<lparr>dl_st := (dl_st d)\<lparr>ds_built := ds_built (dl_st d) + 1\<rparr>\<rparr>)))"

definition flush_window :: "sk_delta \<Rightarrow> bool \<times> sk_delta" where
  "flush_window d =
     (if dl_pending d = [] then (True, d)
      else
        (let batch_ms = dl_pending_since_ms d;
             (msgs, d) = build_messages [0..<length (dl_ctx d)] d;
             nm = length msgs;
             total = sum_list (map (\<lambda>(m, _). length (m_text m)) msgs);
             cfg = dl_cfg d;
             fits_empty = (nm \<le> dc_max_msgs cfg \<and> (dc_max_bytes cfg = 0 \<or> total \<le> dc_max_bytes cfg));
             no_drop = (dc_no_drop cfg \<and> fits_empty)
         in if no_drop \<and> (dc_max_msgs cfg < dl_count d + nm \<or> dc_max_bytes cfg \<noteq> 0 \<and> dc_max_bytes cfg < dl_bytes d + total)
            then (False, d)
            else
              (let d = push_all batch_ms no_drop msgs d
               in (True, d\<lparr>dl_pending := [], dl_ctx := [], dl_upd_n := 0\<rparr>))))"

definition espos_sk_delta_flush :: "sk_delta \<Rightarrow> esp_err \<times> sk_delta" where
  "espos_sk_delta_flush d = (case flush_window d of (ok, d) \<Rightarrow> (if ok then ESP_OK else ESP_ERR_NO_MEM, d))"

text \<open>A value joins the window: over the value of its path and timestamp, or behind the others.\<close>

definition same_entry :: "nat \<Rightarrow> int \<Rightarrow> string \<Rightarrow> pending \<Rightarrow> bool" where
  "same_entry ctx at_ms path e \<longleftrightarrow> pd_ctx e = ctx \<and> pd_at_ms e = at_ms \<and> pd_path e = path"

definition append_pending :: "nat \<Rightarrow> string \<Rightarrow> string \<Rightarrow> int \<Rightarrow> u32 \<Rightarrow> sk_delta \<Rightarrow> sk_delta" where
  "append_pending ctx path value at_ms now_ms d =
     (let d = (if dl_pending d = [] then d\<lparr>dl_pending_since_ms := now_ms\<rparr> else d);
          (upd, upd_n) = (case update_of d ctx at_ms of Some u \<Rightarrow> (u, dl_upd_n d) | None \<Rightarrow> (dl_upd_n d, Suc (dl_upd_n d)))
      in d\<lparr>dl_pending := dl_pending d @ [\<lparr>pd_path = path, pd_value = value, pd_at_ms = at_ms, pd_ctx = ctx mod 256, pd_upd = upd mod 256\<rparr>],
           dl_upd_n := upd_n\<rparr>)"

text \<open>The index of the value that a new one replaces.\<close>

definition pending_hit :: "nat \<Rightarrow> int \<Rightarrow> string \<Rightarrow> sk_delta \<Rightarrow> nat option" where
  "pending_hit ctx at_ms path d = find (\<lambda>i. same_entry ctx at_ms path (dl_pending d ! i)) [0..<length (dl_pending d)]"

definition close_and_append ::
  "string \<Rightarrow> string \<Rightarrow> string \<Rightarrow> int \<Rightarrow> u32 \<Rightarrow> sk_delta \<Rightarrow> esp_err \<times> sk_delta" where
  "close_and_append context path value at_ms now_ms d =
     (case flush_window d of
        (False, d) \<Rightarrow> (ESP_ERR_NO_MEM, d)
      | (True, d) \<Rightarrow>
          (case context_slot context d of (ctx, d) \<Rightarrow> (ESP_OK, append_pending (the ctx) path value at_ms now_ms d)))"

text \<open>What a publish does once its arguments have been checked.\<close>

definition join_window ::
  "nat \<Rightarrow> string \<Rightarrow> string \<Rightarrow> string \<Rightarrow> int \<Rightarrow> u32 \<Rightarrow> sk_delta \<Rightarrow> esp_err \<times> sk_delta" where
  "join_window PENDING_CAP context path value at_ms now_ms d =
     (case context_slot context d of
        (None, d) \<Rightarrow> close_and_append context path value at_ms now_ms d
      | (Some ctx, d) \<Rightarrow>
          if overtakes d ctx (update_of d ctx at_ms) path then close_and_append context path value at_ms now_ms d
          else
            (case pending_hit ctx at_ms path d of
               Some i \<Rightarrow> (ESP_OK, d\<lparr>dl_pending := (dl_pending d)[i := (dl_pending d ! i)\<lparr>pd_value := value\<rparr>]\<rparr>)
             | None \<Rightarrow>
                 if length (dl_pending d) = PENDING_CAP then close_and_append context path value at_ms now_ms d
                 else (ESP_OK, append_pending ctx path value at_ms now_ms d)))"

definition espos_sk_delta_publish_at ::
  "nat \<Rightarrow> string option \<Rightarrow> string option \<Rightarrow> string option \<Rightarrow> int \<Rightarrow> u32 \<Rightarrow> sk_delta \<Rightarrow> esp_err \<times> sk_delta" where
  "espos_sk_delta_publish_at PENDING_CAP context path value_json at_ms now_ms d =
     (let path = (case path of None \<Rightarrow> [] | Some p \<Rightarrow> p);
          value = (case value_json of None \<Rightarrow> [] | Some v \<Rightarrow> v);
          context = (case context of None \<Rightarrow> SELF_CONTEXT | Some c \<Rightarrow> c)
      in if path = [] \<or> value = [] \<or> at_ms \<noteq> 0 \<and> (at_ms < AT_MS_MIN \<or> AT_MS_MAX < at_ms) then (ESP_ERR_INVALID_ARG, d)
         else if context_check context \<noteq> ESP_OK then (context_check context, d)
         else if ESPOS_SK_PATH_MAX \<le> length path \<or> ESPOS_SK_VALUE_MAX \<le> length value then (ESP_ERR_INVALID_SIZE, d)
         else join_window PENDING_CAP context path value at_ms now_ms d)"

definition espos_sk_delta_publish_ctx ::
  "nat \<Rightarrow> string option \<Rightarrow> string option \<Rightarrow> string option \<Rightarrow> u32 \<Rightarrow> sk_delta \<Rightarrow> esp_err \<times> sk_delta" where
  "espos_sk_delta_publish_ctx PENDING_CAP context path value_json now_ms d =
     espos_sk_delta_publish_at PENDING_CAP context path value_json 0 now_ms d"

definition espos_sk_delta_publish ::
  "nat \<Rightarrow> string option \<Rightarrow> string option \<Rightarrow> u32 \<Rightarrow> sk_delta \<Rightarrow> esp_err \<times> sk_delta" where
  "espos_sk_delta_publish PENDING_CAP path value_json now_ms d =
     espos_sk_delta_publish_ctx PENDING_CAP None path value_json now_ms d"

subsection \<open>Sending\<close>

definition batch_due :: "sk_delta \<Rightarrow> u32 \<Rightarrow> bool" where
  "batch_due d now_ms \<longleftrightarrow>
     dl_pending d \<noteq> [] \<and> 0 \<le> sint (now_ms - (dl_pending_since_ms d + dc_batch_ms (dl_cfg d)))"

definition stamp :: "int \<Rightarrow> message \<Rightarrow> u32 \<Rightarrow> u32 \<Rightarrow> nat \<Rightarrow> sk_delta \<Rightarrow> message \<times> sk_delta" where
  "stamp wall_now msg now_ms batch_ms at d =
     (if \<not> dl_wall d \<or> wall_now \<le> 0 then (msg, d)
      else
        (let ts = sk_iso8601 (wall_now - uint (now_ms - batch_ms))
         in if ts = '''' then (msg, d)
            else if at = 0 \<or> length (m_text msg) \<le> at \<or> m_text msg ! (at - 1) \<noteq> CHR ''{'' then (msg, d)
            else
              (case malloc d of
                 (None, d) \<Rightarrow> (msg, d)
               | (Some p, d) \<Rightarrow>
                   (\<lparr>m_ptr = p, m_text = take at (m_text msg) @ timestamp_text ts @ drop at (m_text msg)\<rparr>, d))))"

definition drain_gap :: "sk_delta \<Rightarrow> u32" where
  "drain_gap d = 1000 div dc_drain_per_s (dl_cfg d)"

definition take_now :: "int \<Rightarrow> u32 \<Rightarrow> sk_delta \<Rightarrow> message option \<times> sk_delta" where
  "take_now wall_now now_ms d =
     (let (r, d) = ring_pop d;
          (m, batch_ms, stamp_at) = the r;
          d = d\<lparr>dl_last_take_ms := now_ms, dl_st := (dl_st d)\<lparr>ds_taken := ds_taken (dl_st d) + 1\<rparr>, dl_unstamped := None\<rparr>
      in if stamp_at \<noteq> 0 then
           (let (out, d) = stamp wall_now m now_ms batch_ms stamp_at d
            in (Some out,
                if m_ptr out = m_ptr m
                then d\<lparr>dl_unstamped := Some (m_ptr m), dl_unstamped_at := stamp_at, dl_unstamped_batch_ms := batch_ms\<rparr> else d))
         else (Some m, d))"

definition espos_sk_delta_take :: "int \<Rightarrow> u32 \<Rightarrow> bool \<Rightarrow> sk_delta \<Rightarrow> message option \<times> sk_delta" where
  "espos_sk_delta_take wall_now now_ms connected d =
     (let d = (if batch_due d now_ms then snd (espos_sk_delta_flush d) else d)
      in if \<not> connected \<or> dl_count d = 0 then (None, d\<lparr>dl_draining := False\<rparr>)
         else if 1 < dl_count d \<or> dl_draining d then
           (if ds_taken (dl_st d) \<noteq> 0 \<and> sint (now_ms - (dl_last_take_ms d + drain_gap d)) < 0 then (None, d)
            else take_now wall_now now_ms (d\<lparr>dl_draining := (1 < dl_count d)\<rparr>))
         else take_now wall_now now_ms d)"

definition espos_sk_delta_next_due_ms :: "sk_delta \<Rightarrow> u32 \<Rightarrow> bool \<Rightarrow> u32" where
  "espos_sk_delta_next_due_ms d now_ms connected =
     (let cfg = dl_cfg d;
          due =
            (if dl_pending d \<noteq> [] then
               (let left = (dl_pending_since_ms d + dc_batch_ms cfg) - now_ms;
                    due = (if 0 < sint left then left else 0)
                in if due = 0 \<and> dc_no_drop cfg \<and>
                      (dc_max_msgs cfg \<le> dl_count d \<or> dc_max_bytes cfg \<noteq> 0 \<and> dc_max_bytes cfg \<le> dl_bytes d)
                   then (if dc_batch_ms cfg \<noteq> 0 then dc_batch_ms cfg else 100) else due)
             else UINT32_MAX)
      in if connected \<and> 0 < dl_count d then
           (let left = (dl_last_take_ms d + drain_gap d) - now_ms;
                w = (if (1 < dl_count d \<or> dl_draining d) \<and> ds_taken (dl_st d) \<noteq> 0 \<and> 0 < sint left then left else 0)
            in if w < due then w else due)
         else due)"

text \<open>The counters, with the lengths read from the state: pending, buffered, buffered bytes.\<close>

definition espos_sk_delta_stats :: "sk_delta \<Rightarrow> nat \<times> nat \<times> nat \<times> delta_stats" where
  "espos_sk_delta_stats d = (length (dl_pending d), dl_count d, dl_bytes d, dl_st d)"

text \<open>A string as a JSON string, cut where it does not fit; the text in the buffer.\<close>

definition hex_digit :: "nat \<Rightarrow> char" where
  "hex_digit k = (''0123456789abcdef'' ! k)"

definition json_char :: "char \<Rightarrow> string" where
  "json_char x =
     (if x = CHR 0x22 \<or> x = CHR 0x5C then [CHR 0x5C, x]
      else if (of_char x :: nat) < 0x20
      then CHR 0x5C # ''u00'' @ [hex_digit (of_char x div 16), hex_digit (of_char x mod 16)]
      else [x])"

fun json_loop :: "nat \<Rightarrow> string \<Rightarrow> string \<Rightarrow> string" where
  "json_loop n buf [] = buf"
| "json_loop n buf (x # s) = (if length buf + 7 < n then json_loop n (buf @ json_char x) s else buf)"

definition espos_sk_json_string :: "nat \<Rightarrow> string \<Rightarrow> string option" where
  "espos_sk_json_string n s =
     (if n < 3 then None else Some (json_loop n [CHR 0x22] s @ [CHR 0x22]))"

subsection \<open>One calendar, written twice\<close>

text \<open>
  The batcher carries its own copy of the calendar arithmetic and writes exactly the
  timestamps of the clock component, for every instant.
\<close>

theorem delta_iso8601_is_the_clocks:
  "sk_iso8601 ms = snd (espos_time_iso8601_format ms (Some ESPOS_TIME_ISO_MAX))"
proof (cases "ms \<le> 0")
  case True
  then show ?thesis by (simp add: sk_iso8601_def espos_time_iso8601_format_def)
next
  case False
  then have ms: "0 < ms" by simp
  have "0 \<le> c_mod ms 1000" "0 \<le> c_div ms 1000" using ms by (simp_all add: c_mod_pos c_div_pos)
  moreover from this have "0 \<le> c_mod (c_div ms 1000) 86400" by (simp add: c_mod_pos)
  moreover have "sk_civil = civil_from_days" by (rule ext) (unfold sk_civil_def civil_from_days_def, rule refl)
  ultimately show ?thesis
    using ms by (simp add: sk_iso8601_def espos_time_iso8601_format_def iso_text_def Let_def split_beta not_less)
qed

lemma sk_iso8601_length: "length (sk_iso8601 ms) \<le> 24"
  by (simp add: sk_iso8601_def Let_def split_beta)

subsection \<open>A message fits its allocation\<close>

lemma length_quoted [simp]: "length (quoted s) = length s + 2"
  by (simp add: quoted_def)

lemma values_text_length:
  "length (values_text first es) \<le> sum_list (map (\<lambda>e. 24 + length (pd_path e) + length (pd_value e)) es)"
proof (induction es arbitrary: first)
  case (Cons e es)
  from Cons [of False] show ?case by (simp add: value_text_def)
qed simp

lemma append_update_length:
  "length (fst (append_update d ctx (m, at, first) u)) \<le>
     length m + (if update_entries d ctx u = [] then 0 else 128 + length (dl_label d)) +
     sum_list (map (\<lambda>e. 24 + length (pd_path e) + length (pd_value e)) (update_entries d ctx u))"
proof (cases "update_entries d ctx u")
  case Nil
  then show ?thesis by (simp add: append_update_def)
next
  case (Cons f es)
  have "length (values_text True (f # es)) \<le> sum_list (map (\<lambda>e. 24 + length (pd_path e) + length (pd_value e)) (f # es))"
    by (rule values_text_length)
  with Cons sk_iso8601_length [of "pd_at_ms f"] show ?thesis
    by (simp add: append_update_def Let_def timestamp_text_def source_text_def del: values_text.simps)
qed

lemma updates_length:
  "length (fst (foldl (append_update d ctx) (m, at, first) us)) \<le>
     length m + sum_list (map (\<lambda>u. 128 + length (dl_label d)) (filter (\<lambda>u. update_entries d ctx u \<noteq> []) us)) +
     sum_list (map (\<lambda>u. sum_list (map (\<lambda>e. 24 + length (pd_path e) + length (pd_value e)) (update_entries d ctx u))) us)"
proof (induction us arbitrary: m at first)
  case (Cons u us)
  obtain m' at' first' where a: "append_update d ctx (m, at, first) u = (m', at', first')" by (metis prod_cases3)
  from Cons [of m' at' first'] append_update_length [of d ctx m at first u] show ?case
    by (cases "update_entries d ctx u = []") (simp_all add: a)
qed simp

text \<open>The updates split the values of a context.\<close>

lemma entries_split:
  fixes f :: "pending \<Rightarrow> nat"
  assumes "distinct us"
  shows "sum_list (map (\<lambda>u. sum_list (map f (filter (\<lambda>e. pd_ctx e = ctx \<and> pd_upd e = u) es))) us) \<le>
     sum_list (map f (filter (\<lambda>e. pd_ctx e = ctx) es))"
proof (induction es)
  case (Cons e es)
  let ?P = "\<lambda>u e. pd_ctx e = ctx \<and> pd_upd e = u"
  have s: "sum_list (map f (filter (?P u) (e # es))) = (if ?P u e then f e else 0) + sum_list (map f (filter (?P u) es))" for u
    by simp
  have "sum_list (map (\<lambda>u. if ?P u e then f e else 0) us) \<le> (if pd_ctx e = ctx then f e else 0)"
    using assms by (induction us) auto
  with Cons show ?case unfolding s sum_list_addf by (cases "pd_ctx e = ctx") simp_all
qed simp

text \<open>
  C34. The buffer of a message is always large enough: whatever the window holds, the text that
  \<open>build_message\<close> writes, with its terminating NUL, fits the size it computed and allocated.
\<close>

theorem delta_message_fits: "length (fst (message_text d ctx)) < message_need d ctx"
proof -
  let ?f = "\<lambda>e. 24 + length (pd_path e) + length (pd_value e)"
  obtain m at first where r: "foldl (append_update d ctx) (message_head (dl_ctx d ! ctx), 0, True) [0..<dl_upd_n d] = (m, at, first)"
    by (metis prod_cases3)
  have "sum_list (map (\<lambda>u. sum_list (map ?f (update_entries d ctx u))) [0..<dl_upd_n d]) \<le>
      sum_list (map ?f (filter (\<lambda>e. pd_ctx e = ctx) (dl_pending d)))"
    unfolding update_entries_def by (rule entries_split) simp
  moreover have "length (message_head (dl_ctx d ! ctx)) = 25 + length (dl_ctx d ! ctx)"
    by (simp add: message_head_def)
  ultimately show ?thesis
    using updates_length [of d ctx "message_head (dl_ctx d ! ctx)" 0 True "[0..<dl_upd_n d]"]
    by (simp add: r message_text_def message_need_def)
qed

subsection \<open>The ring is a bounded queue\<close>

text \<open>
  What a bounded queue promises its client: a push leaves of the queue and the pushed entry what the limits keep,
  and counts what it loses. When keeping in steps is keeping at once, any number of pushes leave what the limits keep of
  all that was there and was pushed, and the counter tells how many entries that has cost.
\<close>

locale bounded_fifo =
  fixes inv :: "'s \<Rightarrow> bool" and queue :: "'s \<Rightarrow> 'q list" and push :: "'q \<Rightarrow> 's \<Rightarrow> 's"
    and limits :: "'s \<Rightarrow> 'c" and keep :: "'c \<Rightarrow> 'q list \<Rightarrow> 'q list" and lost :: "'s \<Rightarrow> u32"
  assumes push_inv: "inv s \<Longrightarrow> inv (push q s)"
    and push_limits: "inv s \<Longrightarrow> limits (push q s) = limits s"
    and push_queue: "inv s \<Longrightarrow> queue (push q s) = keep (limits s) (queue s @ [q])"
    and push_lost: "inv s \<Longrightarrow> lost (push q s) + of_nat (length (queue (push q s))) = lost s + of_nat (Suc (length (queue s)))"
    and keep_again: "keep c (keep c xs @ ys) = keep c (xs @ ys)"
begin

lemma pushes_inv: "inv s \<Longrightarrow> inv (foldl (\<lambda>s q. push q s) s qs)"
  by (induction qs arbitrary: s) (simp_all add: push_inv)

lemma pushes_queue:
  "inv s \<Longrightarrow> queue (foldl (\<lambda>s q. push q s) s qs) = (if qs = [] then queue s else keep (limits s) (queue s @ qs))"
proof (induction qs arbitrary: s)
  case (Cons q qs)
  from Cons.IH [OF push_inv [OF Cons.prems, of q]] keep_again [of "limits s" "queue s @ [q]" qs]
  show ?case by (simp add: push_queue [OF Cons.prems] push_limits [OF Cons.prems])
qed simp

lemma pushes_lost:
  "inv s \<Longrightarrow> lost (foldl (\<lambda>s q. push q s) s qs) + of_nat (length (queue (foldl (\<lambda>s q. push q s) s qs))) =
     lost s + of_nat (length (queue s) + length qs)"
proof (induction qs arbitrary: s)
  case (Cons q qs)
  from Cons.IH [OF push_inv [OF Cons.prems, of q]] push_lost [OF Cons.prems, of q]
  show ?case by (simp add: algebra_simps)
qed simp

end

definition slot :: "sk_delta \<Rightarrow> nat \<Rightarrow> queued" where
  "slot d i = dl_ring d ! ((dl_head d + i) mod dc_max_msgs (dl_cfg d))"

definition ring_queue :: "sk_delta \<Rightarrow> queued list" where
  "ring_queue d = map (slot d) [0..<dl_count d]"

definition ring_inv :: "sk_delta \<Rightarrow> bool" where
  "ring_inv d \<longleftrightarrow>
     length (dl_ring d) = dc_max_msgs (dl_cfg d) \<and> dl_head d < dc_max_msgs (dl_cfg d) \<and> dl_count d \<le> dc_max_msgs (dl_cfg d) \<and>
     (\<forall>q\<in>set (ring_queue d). q_msg q \<noteq> None) \<and> dl_bytes d = sum_list (map slot_len (ring_queue d))"

fun trim :: "delta_cfg \<Rightarrow> nat \<Rightarrow> queued list \<Rightarrow> queued list" where
  "trim cfg len [] = []"
| "trim cfg len (q # qs) =
     (if dc_max_msgs cfg \<le> length (q # qs) \<or> dc_max_bytes cfg \<noteq> 0 \<and> dc_max_bytes cfg < sum_list (map slot_len (q # qs)) + len
      then trim cfg len qs else q # qs)"

lemma trim_suffix: "suffix (trim cfg len qs) qs"
  by (induction qs) (auto intro: suffix_ConsI)

lemma trim_length: "0 < dc_max_msgs cfg \<Longrightarrow> length (trim cfg len qs) < dc_max_msgs cfg"
  by (induction qs) auto

lemma trim_fits:
  "qs \<noteq> [] \<longrightarrow> length qs < dc_max_msgs cfg \<and> (dc_max_bytes cfg = 0 \<or> sum_list (map slot_len qs) + len \<le> dc_max_bytes cfg) \<Longrightarrow>
   trim cfg len qs = qs"
  by (cases qs) auto

lemma wrap_add: "h < m \<Longrightarrow> i < m \<Longrightarrow> (h + i) mod m = (if h + i < m then h + i else h + i - m)" for m :: nat
  by (simp add: mod_if)

lemma wrap_inj: "h < m \<Longrightarrow> i < m \<Longrightarrow> j < m \<Longrightarrow> (h + i) mod m = (h + j) mod m \<longleftrightarrow> i = j" for m :: nat
  by (auto simp: wrap_add split: if_splits)

lemma ring_queue_length [simp]: "length (ring_queue d) = dl_count d"
  by (simp add: ring_queue_def)

lemma ring_queue_cong:
  "dl_ring d' = dl_ring d \<Longrightarrow> dl_head d' = dl_head d \<Longrightarrow> dl_count d' = dl_count d \<Longrightarrow> dl_cfg d' = dl_cfg d \<Longrightarrow> ring_queue d' = ring_queue d"
  by (simp add: ring_queue_def slot_def)

lemma ring_queue_Cons:
  assumes "ring_inv d" and "0 < dl_count d"
  shows "ring_queue d = dl_ring d ! dl_head d #
     ring_queue (d\<lparr>dl_head := (dl_head d + 1) mod dc_max_msgs (dl_cfg d), dl_count := dl_count d - 1\<rparr>)"
proof -
  have "dl_head d < dc_max_msgs (dl_cfg d)" using assms by (simp add: ring_inv_def)
  then have "slot d 0 = dl_ring d ! dl_head d" by (simp add: slot_def)
  moreover have "[0..<dl_count d] = 0 # map Suc [0..<dl_count d - 1]"
    using assms(2) by (metis Suc_pred' map_Suc_upt upt_conv_Cons)
  moreover have "slot d (Suc i) = slot (d\<lparr>dl_head := (dl_head d + 1) mod dc_max_msgs (dl_cfg d), dl_count := dl_count d - 1\<rparr>) i" for i
    by (simp add: slot_def mod_Suc_eq mod_add_left_eq)
  ultimately show ?thesis by (simp add: ring_queue_def comp_def)
qed

lemma ring_inv_cong:
  "dl_ring d' = dl_ring d \<Longrightarrow> dl_head d' = dl_head d \<Longrightarrow> dl_count d' = dl_count d \<Longrightarrow> dl_cfg d' = dl_cfg d \<Longrightarrow>
   dl_bytes d' = dl_bytes d \<Longrightarrow> ring_inv d' = ring_inv d"
  by (simp add: ring_inv_def ring_queue_cong [of d' d])

text \<open>Forgetting the oldest.\<close>

lemma ring_drop_head:
  assumes "ring_inv d" and "0 < dl_count d"
  defines "d' \<equiv> d\<lparr>dl_bytes := dl_bytes d - slot_len (dl_ring d ! dl_head d),
       dl_head := (dl_head d + 1) mod dc_max_msgs (dl_cfg d), dl_count := dl_count d - 1,
       dl_st := (dl_st d)\<lparr>ds_dropped := ds_dropped (dl_st d) + 1\<rparr>\<rparr>"
  shows "ring_inv d'" and "ring_queue d = dl_ring d ! dl_head d # ring_queue d'"
proof -
  have q: "ring_queue d = dl_ring d ! dl_head d # ring_queue d'"
    using ring_queue_Cons [OF assms(1,2)] ring_queue_cong [of d' "d\<lparr>dl_head := (dl_head d + 1) mod dc_max_msgs (dl_cfg d), dl_count := dl_count d - 1\<rparr>"]
    by (simp add: d'_def)
  then show "ring_queue d = dl_ring d ! dl_head d # ring_queue d'" .
  show "ring_inv d'" using assms(1,2) q unfolding ring_inv_def by (auto simp: d'_def)
qed

lemma make_room_shape:
  "\<exists>b h c k. make_room len d = d\<lparr>dl_bytes := b, dl_head := h, dl_count := c, dl_st := (dl_st d)\<lparr>ds_dropped := k\<rparr>\<rparr>"
proof (induction len d rule: make_room.induct)
  case (1 len d)
  show ?case
  proof (cases "0 < dl_count d \<and> over_limit len d")
    case True
    from "1.IH" [OF True] show ?thesis by (elim exE) (simp add: make_room.simps [of len d] True, blast)
  next
    case False
    have "d = d\<lparr>dl_bytes := dl_bytes d, dl_head := dl_head d, dl_count := dl_count d, dl_st := (dl_st d)\<lparr>ds_dropped := ds_dropped (dl_st d)\<rparr>\<rparr>"
      by simp
    with False show ?thesis by (simp only: make_room.simps [of len d] if_False) blast
  qed
qed

lemma make_room_frame [simp]:
  "dl_cfg (make_room len d) = dl_cfg d" "dl_pending (make_room len d) = dl_pending d" "dl_ctx (make_room len d) = dl_ctx d"
  "dl_upd_n (make_room len d) = dl_upd_n d" "dl_label (make_room len d) = dl_label d" "dl_ring (make_room len d) = dl_ring d"
  "dl_heap (make_room len d) = dl_heap d" "dl_next_ptr (make_room len d) = dl_next_ptr d"
  "dl_pending_since_ms (make_room len d) = dl_pending_since_ms d"
  using make_room_shape [of len d] by auto

lemma make_room_lost: "ds_dropped (dl_st (make_room len d)) + of_nat (dl_count (make_room len d)) = ds_dropped (dl_st d) + of_nat (dl_count d)"
proof (induction len d rule: make_room.induct)
  case (1 len d)
  show ?case
  proof (cases "0 < dl_count d \<and> over_limit len d")
    case True
    then have "(of_nat (dl_count d) :: u32) = of_nat (dl_count d - 1) + 1" by (metis Suc_pred' of_nat_Suc add.commute)
    with "1.IH" [OF True] show ?thesis by (subst (1 2) make_room.simps) (simp only: if_P [OF True], simp add: algebra_simps)
  qed (simp only: make_room.simps [of len d] if_False)
qed

lemma make_room_queue:
  "ring_inv d \<Longrightarrow> ring_inv (make_room len d) \<and> ring_queue (make_room len d) = trim (dl_cfg d) len (ring_queue d)"
proof (induction len d rule: make_room.induct)
  case (1 len d)
  show ?case
  proof (cases "0 < dl_count d \<and> over_limit len d")
    case True
    note D = ring_drop_head [OF "1.prems" conjunct1 [OF True]]
    from True have "over_limit len d" by simp
    then have "dc_max_msgs (dl_cfg d) \<le> length (ring_queue d) \<or>
        dc_max_bytes (dl_cfg d) \<noteq> 0 \<and> dc_max_bytes (dl_cfg d) < sum_list (map slot_len (ring_queue d)) + len"
      using "1.prems" by (simp add: over_limit_def ring_inv_def)
    with D(2) have "trim (dl_cfg d) len (ring_queue d) = trim (dl_cfg d) len (tl (ring_queue d))"
      by (metis list.sel(3) trim.simps(2))
    with "1.IH" [OF True D(1)] D(2) True show ?thesis by (simp add: make_room.simps [of len d])
  next
    case False
    then have "trim (dl_cfg d) len (ring_queue d) = ring_queue d"
      using "1.prems" ring_queue_length [of d] by (intro trim_fits) (auto simp: over_limit_def ring_inv_def ring_queue_def)
    moreover have "make_room len d = d" using False by (simp only: make_room.simps [of len d] if_False)
    ultimately show ?thesis using "1.prems" by simp
  qed
qed

definition queue_room :: "queued list \<Rightarrow> sk_delta \<Rightarrow> bool" where
  "queue_room qs d \<longleftrightarrow>
     dl_count d + length qs \<le> dc_max_msgs (dl_cfg d) \<and>
     (dc_max_bytes (dl_cfg d) = 0 \<or> dl_bytes d + sum_list (map slot_len qs) \<le> dc_max_bytes (dl_cfg d)) \<and>
     (\<forall>q\<in>set qs. q_msg q \<noteq> None)"

definition entry :: "message \<Rightarrow> u32 \<Rightarrow> nat \<Rightarrow> queued" where
  "entry m b at = \<lparr>q_msg = Some m, q_batch_ms = b, q_stamp_at = at\<rparr>"

text \<open>Appending behind a queue with a free slot.\<close>

lemma ring_append:
  fixes d :: sk_delta and m :: message and b :: u32 and at :: nat
  assumes "ring_inv d" and "dl_count d < dc_max_msgs (dl_cfg d)"
  defines "d' \<equiv> d\<lparr>dl_ring := (dl_ring d)[(dl_head d + dl_count d) mod dc_max_msgs (dl_cfg d) := entry m b at],
     dl_count := dl_count d + 1, dl_bytes := dl_bytes d + length (m_text m)\<rparr>"
  shows "ring_inv d'" and "ring_queue d' = ring_queue d @ [entry m b at]"
proof -
  let ?M = "dc_max_msgs (dl_cfg d)"
  have h: "dl_head d < ?M" "length (dl_ring d) = ?M" using assms(1) by (simp_all add: ring_inv_def)
  have "slot d' i = slot d i" if "i < dl_count d" for i
    using that h assms(2) by (auto simp: slot_def d'_def nth_list_update wrap_inj)
  moreover have "slot d' (dl_count d) = entry m b at"
    using h assms(2) by (simp add: slot_def d'_def)
  ultimately show q: "ring_queue d' = ring_queue d @ [entry m b at]"
    by (simp add: ring_queue_def d'_def)
  show "ring_inv d'"
    using assms(1,2) q unfolding ring_inv_def by (auto simp: d'_def entry_def slot_len_def)
qed

lemma ring_push_accepts:
  assumes "ring_inv d" and "\<not> (nd \<and> over_limit (length (m_text m)) d)"
    and "dc_max_bytes (dl_cfg d) = 0 \<or> length (m_text m) \<le> dc_max_bytes (dl_cfg d)"
  shows "ring_inv (snd (ring_push m b at nd d)) \<and>
     ring_queue (snd (ring_push m b at nd d)) = trim (dl_cfg d) (length (m_text m)) (ring_queue d) @ [entry m b at]"
proof -
  let ?d = "make_room (length (m_text m)) d"
  note R = make_room_queue [OF assms(1), of "length (m_text m)"]
  have "0 < dc_max_msgs (dl_cfg d)" using assms(1) by (auto simp: ring_inv_def)
  then have "dl_count ?d < dc_max_msgs (dl_cfg ?d)"
    using R trim_length [of "dl_cfg d"] ring_queue_length [of ?d] by (metis make_room_frame(1))
  from ring_append [OF conjunct1 [OF R] this, of m b at] R assms(2,3) show ?thesis
    by (auto simp: ring_push_def Let_def entry_def)
qed

lemma ring_push_too_long:
  assumes "ring_inv d" and "dc_max_bytes (dl_cfg d) \<noteq> 0" and "dc_max_bytes (dl_cfg d) < length (m_text m)"
  shows "ring_inv (snd (ring_push m b at False d)) \<and> ring_queue (snd (ring_push m b at False d)) = []"
proof -
  have "trim (dl_cfg d) (length (m_text m)) qs = []" for qs using assms(2,3) by (induction qs) auto
  with make_room_queue [OF assms(1), of "length (m_text m)"] assms(2,3) show ?thesis
    by (simp add: ring_push_def Let_def ring_inv_def ring_queue_def slot_def)
qed

lemma ring_push_fits:
  assumes "ring_inv d" and "queue_room (entry m b at # qs) d"
  shows "fst (ring_push m b at nd d) \<and> ring_inv (snd (ring_push m b at nd d)) \<and>
     ring_queue (snd (ring_push m b at nd d)) = ring_queue d @ [entry m b at] \<and> queue_room qs (snd (ring_push m b at nd d)) \<and>
     ds_dropped (dl_st (snd (ring_push m b at nd d))) = ds_dropped (dl_st d)"
proof -
  have r: "dl_count d < dc_max_msgs (dl_cfg d)" "dc_max_bytes (dl_cfg d) = 0 \<or> dl_bytes d + length (m_text m) \<le> dc_max_bytes (dl_cfg d)"
    using assms(2) by (auto simp: queue_room_def entry_def slot_len_def)
  then have no: "\<not> over_limit (length (m_text m)) d" by (auto simp: over_limit_def)
  then have m: "make_room (length (m_text m)) d = d" by (simp only: make_room.simps [of "length (m_text m)" d]) simp
  have e: "ring_push m b at nd d = (True, d\<lparr>dl_ring := (dl_ring d)[(dl_head d + dl_count d) mod dc_max_msgs (dl_cfg d) := entry m b at],
     dl_count := dl_count d + 1, dl_bytes := dl_bytes d + length (m_text m)\<rparr>)"
    using no r by (auto simp: ring_push_def Let_def m entry_def)
  show ?thesis unfolding e using ring_append [OF assms(1) r(1), of m b at] assms(2)
    by (auto simp: queue_room_def entry_def slot_len_def)
qed

text \<open>
  The ring provides the bounded queue, of messages with their batch time and offset. What its limits keep of a list of
  messages is the longest end of the list that has at most \<open>max_msgs\<close> messages and \<open>max_bytes\<close> bytes of text.
\<close>

definition waiting :: "sk_delta \<Rightarrow> (message \<times> u32 \<times> nat) list" where
  "waiting d = map (\<lambda>q. (the (q_msg q), q_batch_ms q, q_stamp_at q)) (ring_queue d)"

definition text_bytes :: "(message \<times> u32 \<times> nat) list \<Rightarrow> nat" where
  "text_bytes ms = sum_list (map (\<lambda>(m, _). length (m_text m)) ms)"

fun newest_fitting :: "delta_cfg \<Rightarrow> (message \<times> u32 \<times> nat) list \<Rightarrow> (message \<times> u32 \<times> nat) list" where
  "newest_fitting cfg [] = []"
| "newest_fitting cfg (x # xs) =
     (if length (x # xs) \<le> dc_max_msgs cfg \<and> (dc_max_bytes cfg = 0 \<or> text_bytes (x # xs) \<le> dc_max_bytes cfg)
      then x # xs else newest_fitting cfg xs)"

definition push_dropping :: "message \<times> u32 \<times> nat \<Rightarrow> sk_delta \<Rightarrow> sk_delta" where
  "push_dropping = (\<lambda>(m, b, at) d. snd (ring_push m b at False (d\<lparr>dl_st := (dl_st d)\<lparr>ds_built := ds_built (dl_st d) + 1\<rparr>\<rparr>)))"

definition waiting_room :: "(message \<times> u32 \<times> nat) list \<Rightarrow> sk_delta \<Rightarrow> bool" where
  "waiting_room ms d = queue_room (map (\<lambda>(m, b, at). entry m b at) ms) d"

lemma waiting_entry [simp]: "(\<lambda>q. (the (q_msg q), q_batch_ms q, q_stamp_at q)) (entry m b at) = (m, b, at)"
  by (simp add: entry_def)

lemma length_waiting [simp]: "length (waiting d) = dl_count d"
  by (simp add: waiting_def)

lemma text_bytes_simps [simp]:
  "text_bytes [] = 0" "text_bytes (x # xs) = length (m_text (fst x)) + text_bytes xs" "text_bytes (xs @ ys) = text_bytes xs + text_bytes ys"
  by (simp_all add: text_bytes_def split_def)

lemma newest_fitting_suffix: "suffix (newest_fitting cfg xs) xs"
  by (induction xs) (auto intro: suffix_ConsI)

lemma newest_fitting_all:
  "length xs \<le> dc_max_msgs cfg \<Longrightarrow> dc_max_bytes cfg = 0 \<or> text_bytes xs \<le> dc_max_bytes cfg \<Longrightarrow> newest_fitting cfg xs = xs"
  by (cases xs) auto

lemma newest_fitting_again: "newest_fitting cfg (newest_fitting cfg xs @ ys) = newest_fitting cfg (xs @ ys)"
  by (induction xs) auto

lemma newest_fitting_too_long:
  "dc_max_bytes cfg \<noteq> 0 \<Longrightarrow> dc_max_bytes cfg < length (m_text (fst x)) \<Longrightarrow> newest_fitting cfg (xs @ [x]) = []"
  by (induction xs) auto

lemma newest_fitting_trim:
  assumes "0 < dc_max_msgs cfg" and "dc_max_bytes cfg = 0 \<or> length (m_text (fst x)) \<le> dc_max_bytes cfg"
    and "\<forall>q\<in>set qs. q_msg q \<noteq> None" and "view = (\<lambda>q. (the (q_msg q), q_batch_ms q, q_stamp_at q))"
  shows "newest_fitting cfg (map view qs @ [x]) = map view (trim cfg (length (m_text (fst x))) qs) @ [x]"
  using assms(3)
proof (induction qs)
  case Nil
  with assms(1,2) show ?case by auto
next
  case (Cons q qs)
  have "text_bytes (map view ps) = sum_list (map slot_len ps)" if "\<forall>q\<in>set ps. q_msg q \<noteq> None" for ps
    using that by (induction ps) (auto simp: assms(4) slot_len_def)
  from this [of "q # qs"] this [of qs] Cons show ?case by (auto simp: not_le not_less)
qed

lemma ring_same:
  assumes "dl_ring d' = dl_ring d" "dl_head d' = dl_head d" "dl_count d' = dl_count d" "dl_bytes d' = dl_bytes d"
    "dc_max_msgs (dl_cfg d') = dc_max_msgs (dl_cfg d)"
  shows "ring_inv d' = ring_inv d" and "waiting d' = waiting d"
proof -
  have "slot d' = slot d" using assms by (simp add: fun_eq_iff slot_def)
  then have "ring_queue d' = ring_queue d" using assms by (simp add: ring_queue_def)
  then show "ring_inv d' = ring_inv d" "waiting d' = waiting d" using assms by (simp_all add: ring_inv_def waiting_def)
qed

interpretation ring: bounded_fifo ring_inv waiting push_dropping dl_cfg newest_fitting "\<lambda>d. ds_dropped (dl_st d)"
proof
  fix d0 :: sk_delta and x :: "message \<times> u32 \<times> nat"
  assume inv0: "ring_inv d0"
  obtain m b at where x: "x = (m, b, at)" by (metis prod_cases3)
  define d where "d = d0\<lparr>dl_st := (dl_st d0)\<lparr>ds_built := ds_built (dl_st d0) + 1\<rparr>\<rparr>"
  have D: "ring_inv d = ring_inv d0" "waiting d = waiting d0" by (rule ring_same; simp add: d_def)+
  have E: "dl_cfg d0 = dl_cfg d" "dl_count d0 = dl_count d" "ds_dropped (dl_st d0) = ds_dropped (dl_st d)" by (simp_all add: d_def)
  have p: "push_dropping x d0 = snd (ring_push m b at False d)" by (simp add: push_dropping_def x d_def)
  have inv: "ring_inv d" using inv0 D by simp
  have pos: "0 < dc_max_msgs (dl_cfg d)" and some: "\<forall>q\<in>set (ring_queue d). q_msg q \<noteq> None" using inv by (auto simp: ring_inv_def)
  have "ring_inv (push_dropping x d0) \<and> waiting (push_dropping x d0) = newest_fitting (dl_cfg d) (waiting d @ [x])"
  proof (cases "dc_max_bytes (dl_cfg d) = 0 \<or> length (m_text m) \<le> dc_max_bytes (dl_cfg d)")
    case True
    from ring_push_accepts [OF inv _ True, of False b at] newest_fitting_trim [OF pos _ some refl, of x] True show ?thesis
      unfolding p by (simp add: x waiting_def entry_def)
  next
    case False
    with ring_push_too_long [OF inv, of m b at] newest_fitting_too_long [of "dl_cfg d" x "waiting d"] show ?thesis
      unfolding p by (auto simp: x waiting_def)
  qed
  then show "ring_inv (push_dropping x d0)" "waiting (push_dropping x d0) = newest_fitting (dl_cfg d0) (waiting d0 @ [x])"
    by (simp_all add: E(1) D(2))
  show "dl_cfg (push_dropping x d0) = dl_cfg d0" by (simp add: p E(1) ring_push_def Let_def)
  show "ds_dropped (dl_st (push_dropping x d0)) + of_nat (length (waiting (push_dropping x d0))) =
      ds_dropped (dl_st d0) + of_nat (Suc (length (waiting d0)))"
    using make_room_lost [of "length (m_text m)" d] by (simp add: p E ring_push_def Let_def algebra_simps)
next
  show "newest_fitting c (newest_fitting c xs @ ys) = newest_fitting c (xs @ ys)" for c xs ys
    by (rule newest_fitting_again)
qed

lemma ring_pop_waiting:
  assumes "ring_inv d"
  shows "case waiting d of
       [] \<Rightarrow> ring_pop d = (None, d)
     | x # xs \<Rightarrow> fst (ring_pop d) = Some x \<and> waiting (snd (ring_pop d)) = xs \<and> ring_inv (snd (ring_pop d))"
proof (cases "dl_count d = 0")
  case True
  then show ?thesis by (simp add: waiting_def ring_queue_def ring_pop_def)
next
  case False
  let ?M = "dc_max_msgs (dl_cfg d)" and ?q = "dl_ring d ! dl_head d"
  let ?e = "d\<lparr>dl_head := (dl_head d + 1) mod ?M, dl_count := dl_count d - 1\<rparr>"
  note C = ring_queue_Cons [OF assms]
  have h: "dl_head d < ?M" "length (dl_ring d) = ?M" "dl_count d \<le> ?M" using assms by (simp_all add: ring_inv_def)
  have m: "q_msg ?q \<noteq> None" using assms C False by (simp add: ring_inv_def)
  have "slot (snd (ring_pop d)) i = slot ?e i" if "i < dl_count d - 1" for i
  proof -
    have "((dl_head d + 1) mod ?M + i) mod ?M = (dl_head d + Suc i) mod ?M" by (simp add: mod_add_left_eq)
    moreover have "(dl_head d + Suc i) mod ?M \<noteq> (dl_head d + 0) mod ?M"
      using that h by (subst wrap_inj) auto
    ultimately show ?thesis using False h by (simp add: ring_pop_def Let_def slot_def)
  qed
  then have q: "ring_queue (snd (ring_pop d)) = ring_queue ?e"
    using False by (simp add: ring_queue_def ring_pop_def Let_def)
  have w: "ring_queue d = ?q # ring_queue (snd (ring_pop d))" using C False by (simp add: q)
  have "ring_inv (snd (ring_pop d))"
    using assms False w m unfolding ring_inv_def
    by (auto simp: ring_pop_def Let_def slot_len_def)
  with w False show ?thesis by (simp add: waiting_def ring_pop_def Let_def)
qed

lemma requeue_waiting:
  assumes "ring_inv d"
  shows "ring_inv (espos_sk_delta_requeue (Some m) d) \<and>
     (if dl_count d < dc_max_msgs (dl_cfg d)
      then \<exists>b at. waiting (espos_sk_delta_requeue (Some m) d) = (m, b, at) # waiting d
      else waiting (espos_sk_delta_requeue (Some m) d) = waiting d)"
proof (cases "dl_count d < dc_max_msgs (dl_cfg d)")
  case False
  then have e: "espos_sk_delta_requeue (Some m) d = d\<lparr>dl_st := (dl_st d)\<lparr>ds_dropped := ds_dropped (dl_st d) + 1\<rparr>\<rparr>"
    by (simp add: espos_sk_delta_requeue_def)
  have "ring_inv (d\<lparr>dl_st := st\<rparr>) = ring_inv d" "ring_queue (d\<lparr>dl_st := st\<rparr>) = ring_queue d" for st
    by (rule ring_inv_cong, simp_all) (rule ring_queue_cong, simp_all)
  then show ?thesis using False assms by (simp add: e waiting_def)
next
  case True
  let ?M = "dc_max_msgs (dl_cfg d)" and ?d = "espos_sk_delta_requeue (Some m) d"
  define h' where "h' = (dl_head d + ?M - 1) mod ?M"
  have h: "dl_head d < ?M" "length (dl_ring d) = ?M" using assms by (simp_all add: ring_inv_def)
  have h': "h' < ?M" "(h' + 1) mod ?M = dl_head d"
    using h by (auto simp: h'_def mod_if) 
  obtain b at where e: "?d = d\<lparr>dl_head := h', dl_ring := (dl_ring d)[h' := entry m b at], dl_unstamped := None,
      dl_count := dl_count d + 1, dl_bytes := dl_bytes d + length (m_text m), dl_st := (dl_st d)\<lparr>ds_taken := ds_taken (dl_st d) - 1\<rparr>\<rparr>"
    using True by (simp add: espos_sk_delta_requeue_def Let_def h'_def entry_def)
  have "slot ?d (Suc i) = slot d i" if "i < dl_count d" for i
  proof -
    have "(h' + Suc i) mod ?M = (dl_head d + i) mod ?M"
      by (metis h'(2) add.assoc add.commute mod_add_left_eq plus_1_eq_Suc)
    moreover have "(h' + Suc i) mod ?M \<noteq> (h' + 0) mod ?M" using that True h'(1) by (subst wrap_inj) auto
    ultimately show ?thesis using h'(1) h by (simp add: e slot_def)
  qed
  moreover have "slot ?d 0 = entry m b at" using h' h by (simp add: e slot_def)
  moreover have "[0..<Suc (dl_count d)] = 0 # map Suc [0..<dl_count d]" by (simp add: upt_conv_Cons map_Suc_upt)
  ultimately have q: "ring_queue ?d = entry m b at # ring_queue d"
    by (simp add: ring_queue_def e comp_def)
  have "ring_inv ?d" using assms True q h' unfolding ring_inv_def by (auto simp: e entry_def slot_len_def)
  with q True show ?thesis by (auto simp: waiting_def entry_def)
qed

subsection \<open>What leaves the window alone\<close>

text \<open>Allocating changes nothing else.\<close>

definition strip :: "sk_delta \<Rightarrow> sk_delta" where
  "strip d = d\<lparr>dl_heap := [], dl_next_ptr := 0\<rparr>"

lemma strip_malloc [simp]: "strip (snd (malloc d)) = strip d"
  by (auto simp: malloc_def strip_def split: list.splits bool.splits)

lemma strip_build_message [simp]: "strip (snd (build_message c d)) = strip d"
  using strip_malloc [of d] by (cases "malloc d") (auto simp: build_message_def split: option.splits prod.splits)

lemma strip_build_messages [simp]: "strip (snd (build_messages cs d)) = strip d"
proof (induction cs arbitrary: d)
  case (Cons c cs)
  show ?case
    using Cons [of "snd (build_message c d)"] Cons [of d]
    by (cases "build_message c d") (auto split: option.splits prod.splits simp flip: strip_build_message [of c d])
qed simp

lemma strip_fields:
  assumes "strip d' = strip d"
  shows "dl_pending d' = dl_pending d" "dl_ctx d' = dl_ctx d" "dl_upd_n d' = dl_upd_n d" "dl_label d' = dl_label d"
    "dl_cfg d' = dl_cfg d" "dl_st d' = dl_st d" "dl_bytes d' = dl_bytes d" "dl_count d' = dl_count d" "dl_head d' = dl_head d"
    "dl_ring d' = dl_ring d"
  using arg_cong [OF assms, of dl_pending] arg_cong [OF assms, of dl_ctx] arg_cong [OF assms, of dl_upd_n]
    arg_cong [OF assms, of dl_label] arg_cong [OF assms, of dl_cfg] arg_cong [OF assms, of dl_st] arg_cong [OF assms, of dl_bytes]
    arg_cong [OF assms, of dl_count] arg_cong [OF assms, of dl_head] arg_cong [OF assms, of dl_ring]
  by (simp_all add: strip_def)

lemma strip_ring:
  assumes "strip d' = strip d"
  shows "ring_inv d' = ring_inv d" and "waiting d' = waiting d"
proof -
  show "ring_inv d' = ring_inv d" by (rule ring_inv_cong) (simp_all add: strip_fields [OF assms])
  have "ring_queue d' = ring_queue d" by (rule ring_queue_cong) (simp_all add: strip_fields [OF assms])
  then show "waiting d' = waiting d" by (simp add: waiting_def)
qed

lemma strip_message_text:
  assumes "strip d' = strip d"
  shows "message_text d' c = message_text d c"
  by (simp add: message_text_def append_update_def update_entries_def strip_fields [OF assms] cong: list.case_cong)

lemma ring_push_frame [simp]:
  "dl_pending (snd (ring_push m b at nd d)) = dl_pending d" "dl_ctx (snd (ring_push m b at nd d)) = dl_ctx d"
  "dl_upd_n (snd (ring_push m b at nd d)) = dl_upd_n d" "dl_cfg (snd (ring_push m b at nd d)) = dl_cfg d"
  "dl_label (snd (ring_push m b at nd d)) = dl_label d"
  by (simp_all add: ring_push_def Let_def)

lemma push_all_frame [simp]:
  "dl_pending (push_all b nd xs d) = dl_pending d" "dl_ctx (push_all b nd xs d) = dl_ctx d"
  "dl_upd_n (push_all b nd xs d) = dl_upd_n d" "dl_cfg (push_all b nd xs d) = dl_cfg d"
  by (induction b nd xs d rule: push_all.induct) simp_all

lemma flush_window_cases:
  obtains (kept) d' where "flush_window d = (False, d')" "strip d' = strip d" "dl_pending d \<noteq> []"
  | (empty) "flush_window d = (True, d)" "dl_pending d = []"
  | (closed) d' where "flush_window d = (True, d')" "dl_pending d' = []" "dl_ctx d' = []" "dl_upd_n d' = 0" "dl_cfg d' = dl_cfg d"
proof (cases "dl_pending d = []")
  case True
  then show ?thesis by (intro empty) (simp_all add: flush_window_def)
next
  case False
  obtain msgs d1 where b: "build_messages [0..<length (dl_ctx d)] d = (msgs, d1)" by force
  with strip_build_messages [of "[0..<length (dl_ctx d)]" d] have s: "strip d1 = strip d" by simp
  show ?thesis
  proof (cases "fst (flush_window d)")
    case True
    with False b s show ?thesis
      by (intro closed [of "snd (flush_window d)"]) (auto simp: flush_window_def Let_def strip_fields [OF s] split: if_splits)
  next
    case nf: False
    with False b s show ?thesis
      by (intro kept [of d1]) (auto simp: flush_window_def Let_def split: if_splits)
  qed
qed

subsection \<open>The order of a path's values\<close>

definition win_inv :: "nat \<Rightarrow> sk_delta \<Rightarrow> bool" where
  "win_inv cap d \<longleftrightarrow>
     length (dl_pending d) \<le> cap \<and> dl_upd_n d \<le> length (dl_pending d) \<and> length (dl_ctx d) \<le> ESPOS_SK_CONTEXTS_MAX \<and>
     (\<forall>e\<in>set (dl_pending d). pd_ctx e < length (dl_ctx d) \<and> pd_upd e < dl_upd_n d) \<and>
     (\<forall>e\<in>set (dl_pending d). \<forall>f\<in>set (dl_pending d). pd_upd e = pd_upd f \<longleftrightarrow> pd_ctx e = pd_ctx f \<and> pd_at_ms e = pd_at_ms f) \<and>
     sorted_wrt (\<lambda>e f. pd_ctx e = pd_ctx f \<and> pd_path e = pd_path f \<longrightarrow> pd_upd e < pd_upd f) (dl_pending d)"

lemma win_inv_cong:
  "dl_pending d' = dl_pending d \<Longrightarrow> dl_ctx d' = dl_ctx d \<Longrightarrow> dl_upd_n d' = dl_upd_n d \<Longrightarrow> win_inv cap d' = win_inv cap d"
  by (simp add: win_inv_def)

lemma win_inv_empty: "dl_pending d = [] \<Longrightarrow> length (dl_ctx d) \<le> ESPOS_SK_CONTEXTS_MAX \<Longrightarrow> dl_upd_n d = 0 \<Longrightarrow> win_inv cap d"
  by (simp add: win_inv_def)

lemma context_slot_cases:
  assumes "length (dl_ctx d) \<le> ESPOS_SK_CONTEXTS_MAX"
  obtains (old) c where "context_slot context d = (Some c, d)" "c < length (dl_ctx d)" "dl_ctx d ! c = context"
  | (new) "context_slot context d = (Some (length (dl_ctx d)), d\<lparr>dl_ctx := dl_ctx d @ [context]\<rparr>)" "length (dl_ctx d) < ESPOS_SK_CONTEXTS_MAX"
  | (full) "context_slot context d = (None, d)" "length (dl_ctx d) = ESPOS_SK_CONTEXTS_MAX"
proof (cases "find (\<lambda>i. dl_ctx d ! i = context) [0..<length (dl_ctx d)]")
  case None
  with assms that(2,3) show ?thesis by (cases "length (dl_ctx d) = ESPOS_SK_CONTEXTS_MAX") (simp_all add: context_slot_def)
next
  case (Some c)
  then have "c < length (dl_ctx d)" "dl_ctx d ! c = context" by (auto simp: find_Some_iff)
  with Some that(1) show ?thesis by (simp add: context_slot_def)
qed

lemma context_slot_inv:
  assumes "win_inv cap d" and "context_slot context d = (r, d')"
  shows "win_inv cap d' \<and> dl_pending d' = dl_pending d \<and> dl_upd_n d' = dl_upd_n d \<and> dl_cfg d' = dl_cfg d \<and>
     (case r of None \<Rightarrow> True | Some c \<Rightarrow> c < length (dl_ctx d') \<and> dl_ctx d' ! c = context)"
proof -
  have l: "length (dl_ctx d) \<le> ESPOS_SK_CONTEXTS_MAX" using assms(1) by (simp add: win_inv_def)
  then show ?thesis
  proof (cases rule: context_slot_cases [of d "context"])
    case new
    with assms show ?thesis by (auto simp: win_inv_def less_Suc_eq)
  qed (use assms in auto)
qed

text \<open>The value behind the others comes last in its path.\<close>

lemma append_pending_inv:
  fixes d :: sk_delta and v :: string and now :: u32
  assumes "win_inv cap d" and "cap \<le> 32" and "length (dl_pending d) < cap" and "c < length (dl_ctx d)"
    and "\<not> overtakes d c (update_of d c at) path" and "\<forall>e\<in>set (dl_pending d). \<not> same_entry c at path e"
  defines "d' \<equiv> append_pending c path v at now d"
  shows "win_inv cap d' \<and> dl_ctx d' = dl_ctx d \<and>
     (\<exists>e. dl_pending d' = dl_pending d @ [e] \<and> pd_ctx e = c \<and> pd_path e = path \<and> pd_value e = v \<and> pd_at_ms e = at)"
proof -
  note I = assms(1) [unfolded win_inv_def]
  define u n where "u = (case update_of d c at of Some u \<Rightarrow> u | None \<Rightarrow> dl_upd_n d)"
    and "n = (case update_of d c at of Some u \<Rightarrow> dl_upd_n d | None \<Rightarrow> Suc (dl_upd_n d))"
  define e where "e = \<lparr>pd_path = path, pd_value = v, pd_at_ms = at, pd_ctx = c, pd_upd = u\<rparr>"
  have old: "\<exists>f\<in>set (dl_pending d). pd_ctx f = c \<and> pd_at_ms f = at \<and> pd_upd f = u0" if "update_of d c at = Some u0" for u0
    using that by (auto simp: update_of_def find_Some_iff)
  have fresh: "\<not> (pd_ctx f = c \<and> pd_at_ms f = at)" if "update_of d c at = None" "f \<in> set (dl_pending d)" for f
    using that by (auto simp: update_of_def find_None_iff)
  have un: "u < n" "dl_upd_n d \<le> n" "n \<le> Suc (length (dl_pending d))" "u < 256"
    using I old assms(2,3) by (fastforce simp: u_def n_def split: option.splits)+
  have c: "c < 256" using assms(4) I by simp
  have uat: "pd_upd f = u \<longleftrightarrow> pd_ctx f = c \<and> pd_at_ms f = at" if "f \<in> set (dl_pending d)" for f
  proof (cases "update_of d c at")
    case None
    with fresh [OF None that] I that show ?thesis by (auto simp: u_def)
  next
    case (Some u0)
    from old [OF Some] I that Some show ?thesis by (auto simp: u_def)
  qed
  have later: "pd_upd f < u" if "f \<in> set (dl_pending d)" "pd_ctx f = c" "pd_path f = path" for f
  proof (cases "update_of d c at")
    case None
    with I that show ?thesis by (simp add: u_def)
  next
    case (Some u0)
    with assms(5) that have "pd_upd f \<le> u" by (auto simp: overtakes_def list_ex_iff u_def not_less)
    moreover have "pd_upd f \<noteq> u" using uat [OF that(1)] that assms(6) by (auto simp: same_entry_def)
    ultimately show ?thesis by simp
  qed
  have d': "dl_pending d' = dl_pending d @ [e]" "dl_ctx d' = dl_ctx d" "dl_upd_n d' = n"
    using un(4) c by (auto simp: d'_def append_pending_def Let_def e_def u_def n_def update_of_def split: option.splits)
  have "win_inv cap d'"
    unfolding win_inv_def d'
  proof (intro conjI)
    show "sorted_wrt (\<lambda>e f. pd_ctx e = pd_ctx f \<and> pd_path e = pd_path f \<longrightarrow> pd_upd e < pd_upd f) (dl_pending d @ [e])"
      using I later by (auto simp: sorted_wrt_append e_def)
    show "\<forall>e'\<in>set (dl_pending d @ [e]). \<forall>f\<in>set (dl_pending d @ [e]).
        (pd_upd e' = pd_upd f) = (pd_ctx e' = pd_ctx f \<and> pd_at_ms e' = pd_at_ms f)"
      using I uat by (auto simp: e_def)
  qed (use I un assms(3,4) in \<open>auto simp: e_def less_le_trans\<close>)
  then show ?thesis using d' by (auto simp: e_def)
qed

text \<open>An entry that is the newest of its path and context.\<close>

definition newest :: "sk_delta \<Rightarrow> pending \<Rightarrow> bool" where
  "newest d e \<longleftrightarrow> e \<in> set (dl_pending d) \<and>
     (\<forall>f\<in>set (dl_pending d). pd_ctx f = pd_ctx e \<and> pd_path f = pd_path e \<longrightarrow> pd_upd f \<le> pd_upd e)"

definition holds_newest :: "sk_delta \<Rightarrow> string \<Rightarrow> string \<Rightarrow> string \<Rightarrow> int \<Rightarrow> bool" where
  "holds_newest d context path v at \<longleftrightarrow>
     (\<exists>e. newest d e \<and> pd_ctx e < length (dl_ctx d) \<and> dl_ctx d ! pd_ctx e = context \<and> pd_path e = path \<and> pd_value e = v \<and> pd_at_ms e = at)"

lemma append_holds_newest:
  assumes "win_inv cap d" and "cap \<le> 32" and "length (dl_pending d) < cap" and "c < length (dl_ctx d)" and "dl_ctx d ! c = context"
    and "\<not> overtakes d c (update_of d c at) path" and "\<forall>e\<in>set (dl_pending d). \<not> same_entry c at path e"
  shows "win_inv cap (append_pending c path v at now d) \<and> holds_newest (append_pending c path v at now d) context path v at"
proof -
  let ?d = "append_pending c path v at now d"
  note A = append_pending_inv [OF assms(1-4,6,7), of v now]
  from A obtain e where e: "dl_pending ?d = dl_pending d @ [e]" "pd_ctx e = c" "pd_path e = path" "pd_value e = v" "pd_at_ms e = at"
    and w: "win_inv cap ?d" and c: "dl_ctx ?d = dl_ctx d" by blast
  have "\<forall>f\<in>set (dl_pending d). pd_ctx f = c \<and> pd_path f = path \<longrightarrow> pd_upd f < pd_upd e"
    using w e by (simp add: win_inv_def sorted_wrt_append)
  then have "newest ?d e" using e by (auto simp: newest_def less_imp_le)
  with e c assms(4,5) w show ?thesis by (auto simp: holds_newest_def)
qed

lemma close_and_append_inv:
  assumes "win_inv cap d" and "0 < cap" and "cap \<le> 32" and "close_and_append context path v at now d = (err, d')"
    and "dl_pending d = [] \<longrightarrow> dl_ctx d = []"
  shows "win_inv cap d' \<and> (err = ESP_OK \<longrightarrow> holds_newest d' context path v at)"
proof -
  have go: ?thesis if "flush_window d = (True, d1)" "dl_pending d1 = []" "dl_ctx d1 = []" "dl_upd_n d1 = 0" for d1
  proof -
    have w: "win_inv cap d1" using that by (simp add: win_inv_empty)
    have s: "context_slot context d1 = (Some 0, d1\<lparr>dl_ctx := [context]\<rparr>)" using that by (simp add: context_slot_def)
    have "win_inv cap (d1\<lparr>dl_ctx := [context]\<rparr>)" using context_slot_inv [OF w s] by simp
    then have "win_inv cap (append_pending 0 path v at now (d1\<lparr>dl_ctx := [context]\<rparr>)) \<and>
        holds_newest (append_pending 0 path v at now (d1\<lparr>dl_ctx := [context]\<rparr>)) context path v at"
      using that assms(2,3) by (intro append_holds_newest) (simp_all add: update_of_def overtakes_def)
    with assms(4) that s show ?thesis by (auto simp: close_and_append_def)
  qed
  show ?thesis
  proof (cases rule: flush_window_cases [of d])
    case (kept d1)
    then have "win_inv cap d1" using assms(1) by (simp add: win_inv_def strip_fields [OF kept(2)])
    with kept assms(4) show ?thesis by (auto simp: close_and_append_def)
  next
    case empty
    with assms(1,5) show ?thesis by (intro go [of d]) (auto simp: win_inv_def)
  next
    case (closed d1)
    then show ?thesis by (intro go)
  qed
qed

definition window_ok :: "nat \<Rightarrow> sk_delta \<Rightarrow> bool" where
  "window_ok cap d \<longleftrightarrow> win_inv cap d \<and> (dl_pending d = [] \<longrightarrow> dl_ctx d = [])"

lemma holds_newest_pending: "holds_newest d context path v at \<Longrightarrow> dl_pending d \<noteq> []"
  by (auto simp: holds_newest_def newest_def)

lemma close_and_append_ok:
  assumes "win_inv cap d" and "0 < cap" and "cap \<le> 32" and "dl_pending d \<noteq> []"
    and "close_and_append context path v at now d = (err, d')"
  shows "window_ok cap d' \<and> (err = ESP_OK \<longrightarrow> holds_newest d' context path v at)"
proof -
  have w: "win_inv cap d' \<and> (err = ESP_OK \<longrightarrow> holds_newest d' context path v at)"
    using assms by (intro close_and_append_inv [OF assms(1-3,5)]) simp
  have "dl_pending d' \<noteq> []"
  proof (cases "err = ESP_OK")
    case True
    with w holds_newest_pending show ?thesis by blast
  next
    case False
    show ?thesis
    proof (cases rule: flush_window_cases [of d])
      case (kept d1)
      with assms(4,5) strip_fields(1) [OF kept(2)] show ?thesis by (auto simp: close_and_append_def)
    qed (use False assms(5) in \<open>auto simp: close_and_append_def split: prod.splits\<close>)
  qed
  with w show ?thesis by (simp add: window_ok_def)
qed

lemma replace_value_ok:
  fixes d :: sk_delta and v :: string
  assumes "win_inv cap d" and "\<not> overtakes d c (update_of d c at) path" and "pending_hit c at path d = Some i"
    and "c < length (dl_ctx d)" and "dl_ctx d ! c = context"
  defines "d' \<equiv> d\<lparr>dl_pending := (dl_pending d)[i := (dl_pending d ! i)\<lparr>pd_value := v\<rparr>]\<rparr>"
  shows "window_ok cap d' \<and> holds_newest d' context path v at"
proof -
  note I = assms(1) [unfolded win_inv_def]
  define e e' where "e = dl_pending d ! i" and "e' = e\<lparr>pd_value := v\<rparr>"
  from assms(3) have i: "i < length (dl_pending d)" and e: "pd_ctx e = c" "pd_at_ms e = at" "pd_path e = path"
    by (auto simp: pending_hit_def find_Some_iff same_entry_def e_def)
  have ein: "e \<in> set (dl_pending d)" using i by (simp add: e_def)
  have p: "dl_pending d' = (dl_pending d)[i := e']" "dl_ctx d' = dl_ctx d" "dl_upd_n d' = dl_upd_n d" by (simp_all add: d'_def e_def e'_def)
  have n: "dl_pending d' ! j = (if j = i then e' else dl_pending d ! j)" if "j < length (dl_pending d)" for j
    using that i by (simp add: p)
  have same: "pd_ctx (dl_pending d' ! j) = pd_ctx (dl_pending d ! j)" "pd_at_ms (dl_pending d' ! j) = pd_at_ms (dl_pending d ! j)"
    "pd_upd (dl_pending d' ! j) = pd_upd (dl_pending d ! j)" "pd_path (dl_pending d' ! j) = pd_path (dl_pending d ! j)"
    if "j < length (dl_pending d)" for j
    using n [OF that] by (auto simp: e'_def e_def)
  have l: "length (dl_pending d') = length (dl_pending d)" by (simp add: p)
  have w: "win_inv cap d'"
    using I unfolding win_inv_def all_set_conv_all_nth sorted_wrt_iff_nth_less l p(2,3)
    by (simp add: same)
  have "pd_upd f \<le> pd_upd e" if "f \<in> set (dl_pending d)" "pd_ctx f = c" "pd_path f = path" for f
  proof -
    have "find (\<lambda>e. pd_ctx e = c \<and> pd_at_ms e = at) (dl_pending d) \<noteq> None"
      using ein e by (auto simp: find_None_iff)
    then obtain g where g: "find (\<lambda>e. pd_ctx e = c \<and> pd_at_ms e = at) (dl_pending d) = Some g" by auto
    then have "g \<in> set (dl_pending d)" "pd_ctx g = c" "pd_at_ms g = at" by (auto simp: find_Some_iff)
    with I ein e have "pd_upd g = pd_upd e" by auto
    with assms(2) g that show ?thesis by (auto simp: overtakes_def update_of_def list_ex_iff not_less)
  qed
  then have "newest d' e'"
    using i e set_update_subset_insert [of "dl_pending d" i e'] set_update_memI [OF i, of e'] unfolding newest_def p
    by (auto simp: e'_def)
  then have "holds_newest d' context path v at"
    using e assms(4,5) unfolding holds_newest_def p(2) by (intro exI [of _ e']) (simp add: e'_def)
  moreover have "dl_pending d' \<noteq> []" using i by (auto simp: p)
  ultimately show ?thesis using w by (simp add: window_ok_def)
qed

lemma join_window_ok:
  assumes "window_ok cap d" and "0 < cap" and "cap \<le> 32" and "join_window cap context path v at now d = (err, d')"
  shows "window_ok cap d' \<and> (err = ESP_OK \<longrightarrow> holds_newest d' context path v at)"
proof -
  have w: "win_inv cap d" and idle: "dl_pending d = [] \<longrightarrow> dl_ctx d = []" using assms(1) by (simp_all add: window_ok_def)
  obtain r d1 where s: "context_slot context d = (r, d1)" by force
  note S = context_slot_inv [OF w s]
  show ?thesis
  proof (cases r)
    case None
    then have "dl_pending d1 \<noteq> []" using s S idle by (auto simp: context_slot_def)
    with None s S assms(2-4) show ?thesis by (intro close_and_append_ok [of cap d1]) (simp_all add: join_window_def)
  next
    case (Some c)
    with S have c: "c < length (dl_ctx d1)" "dl_ctx d1 ! c = context" by simp_all
    show ?thesis
    proof (cases "overtakes d1 c (update_of d1 c at) path")
      case True
      then have "dl_pending d1 \<noteq> []" by (auto simp: overtakes_def split: option.splits)
      with True Some s S assms(2-4) show ?thesis by (intro close_and_append_ok [of cap d1]) (simp_all add: join_window_def)
    next
      case no: False
      show ?thesis
      proof (cases "pending_hit c at path d1")
        case (Some i)
        with no \<open>r = Some c\<close> s assms(4) have "err = ESP_OK" "d' = d1\<lparr>dl_pending := (dl_pending d1)[i := (dl_pending d1 ! i)\<lparr>pd_value := v\<rparr>]\<rparr>"
          by (simp_all add: join_window_def)
        with replace_value_ok [OF _ no Some c, of cap v] S show ?thesis by simp
      next
        case None
        then have none: "\<forall>e\<in>set (dl_pending d1). \<not> same_entry c at path e"
          by (auto simp: pending_hit_def find_None_iff in_set_conv_nth)
        show ?thesis
        proof (cases "length (dl_pending d1) = cap")
          case True
          then have "dl_pending d1 \<noteq> []" using assms(2) by auto
          with True None no \<open>r = Some c\<close> s S assms(2-4) show ?thesis
            by (intro close_and_append_ok [of cap d1]) (simp_all add: join_window_def)
        next
          case False
          with S have "length (dl_pending d1) < cap" unfolding win_inv_def by (metis le_neq_implies_less)
          with append_holds_newest [OF _ assms(3) this c no none, of v now] S
          have "win_inv cap (append_pending c path v at now d1) \<and> holds_newest (append_pending c path v at now d1) context path v at" by blast
          moreover have "err = ESP_OK" "d' = append_pending c path v at now d1"
            using False None no \<open>r = Some c\<close> s assms(4) by (simp_all add: join_window_def)
          ultimately show ?thesis using holds_newest_pending by (auto simp: window_ok_def)
        qed
      qed
    qed
  qed
qed

text \<open>
  The values of a context in the order the message has them, and the text of a list of values laid out in their order: a
  comma between values of one update, the end of an update and the head of the next one between values of two.
\<close>

definition value_object :: "pending \<Rightarrow> string" where
  "value_object e = ''{'' @ quoted ''path'' @ '':'' @ quoted (pd_path e) @ '','' @ quoted ''value'' @ '':'' @ pd_value e @ ''}''"

definition update_head :: "string \<Rightarrow> pending \<Rightarrow> string" where
  "update_head label e =
     ''{'' @ (if pd_at_ms e \<noteq> 0 \<and> sk_iso8601 (pd_at_ms e) \<noteq> '''' then timestamp_text (sk_iso8601 (pd_at_ms e)) else '''') @ source_text label"

fun laid_out :: "string \<Rightarrow> pending list \<Rightarrow> string" where
  "laid_out label [] = ''''"
| "laid_out label [e] = value_object e"
| "laid_out label (e # f # es) =
     value_object e @ (if pd_upd e = pd_upd f then '','' else '']},'' @ update_head label f) @ laid_out label (f # es)"

lemma laid_out_append:
  "es \<noteq> [] \<Longrightarrow> fs \<noteq> [] \<Longrightarrow> pd_upd (last es) \<noteq> pd_upd (hd fs) \<Longrightarrow>
   laid_out label (es @ fs) = laid_out label es @ '']},'' @ update_head label (hd fs) @ laid_out label fs"
proof (induction label es rule: laid_out.induct)
  case (2 label e)
  then show ?case by (cases fs) auto
qed auto

lemma values_text_laid_out: "\<forall>e\<in>set es. pd_upd e = u \<Longrightarrow> values_text True es = laid_out label es"
proof (induction label es rule: laid_out.induct)
  case (3 label e f es)
  have "values_text False (f # es) = '','' @ values_text True (f # es)" by (simp add: value_text_def)
  with 3 show ?case by (simp add: value_text_def value_object_def)
qed (simp_all add: value_text_def value_object_def)

lemma append_update_text:
  "fst (append_update d c (m, at, first) u) =
     (case update_entries d c u of [] \<Rightarrow> m
      | f # es \<Rightarrow> m @ (if first then '''' else '','') @ update_head (dl_label d) f @ laid_out (dl_label d) (f # es) @ '']}'') \<and>
   snd (snd (append_update d c (m, at, first) u)) = (first \<and> update_entries d c u = [])"
proof (cases "update_entries d c u")
  case (Cons f es)
  have "\<forall>e\<in>set (f # es). pd_upd e = u" using Cons [symmetric] by (simp add: update_entries_def)
  from values_text_laid_out [OF this, of "dl_label d"] Cons show ?thesis
    by (auto simp: append_update_def Let_def update_head_def)
qed (simp add: append_update_def)

lemma append_updates_text:
  assumes "distinct us" and "foldl (append_update d c) (m, at, first) us = (m', at', first')"
    and "vs = concat (map (update_entries d c) us)"
  shows "m' = (if vs = [] then m
     else m @ (if first then '''' else '','') @ update_head (dl_label d) (hd vs) @ laid_out (dl_label d) vs @ '']}'')"
  using assms
proof (induction us arbitrary: m at first vs)
  case Nil
  then show ?case by simp
next
  case (Cons u us)
  obtain m1 at1 first1 where a: "append_update d c (m, at, first) u = (m1, at1, first1)" by (metis prod_cases3)
  define ws where "ws = concat (map (update_entries d c) us)"
  have ih: "m' = (if ws = [] then m1
     else m1 @ (if first1 then '''' else '','') @ update_head (dl_label d) (hd ws) @ laid_out (dl_label d) ws @ '']}'')"
    using Cons.prems a by (intro Cons.IH) (simp_all add: ws_def)
  have vs: "vs = update_entries d c u @ ws" using Cons.prems(3) by (simp add: ws_def)
  show ?case
  proof (cases "update_entries d c u")
    case Nil
    with ih vs append_update_text [of d c m at "first" u] show ?thesis by (simp add: a)
  next
    case es: (Cons f es)
    have m1: "m1 = m @ (if first then '''' else '','') @ update_head (dl_label d) f @ laid_out (dl_label d) (f # es) @ '']}''" "\<not> first1"
      using append_update_text [of d c m at "first" u] es by (simp_all add: a)
    show ?thesis
    proof (cases "ws = []")
      case True
      with ih vs es m1 show ?thesis by simp
    next
      case False
      have "\<forall>e\<in>set (f # es). pd_upd e = u" using es [symmetric] by (simp add: update_entries_def)
      then have "pd_upd (last (f # es)) = u" using last_in_set [of "f # es"] by blast
      moreover have "hd ws \<in> set ws" using False by simp
      then have "pd_upd (hd ws) \<in> set us" unfolding ws_def by (auto simp: update_entries_def)
      ultimately have "pd_upd (last (f # es)) \<noteq> pd_upd (hd ws)" using Cons.prems(1) by auto
      from laid_out_append [OF _ False this] ih vs es m1 False show ?thesis by simp
    qed
  qed
qed

definition message_values :: "sk_delta \<Rightarrow> nat \<Rightarrow> pending list" where
  "message_values d ctx = concat (map (update_entries d ctx) [0..<dl_upd_n d])"

lemma message_text_laid_out:
  assumes "message_values d c \<noteq> []"
  shows "fst (message_text d c) = message_head (dl_ctx d ! c) @ update_head (dl_label d) (hd (message_values d c)) @
     laid_out (dl_label d) (message_values d c) @ '']}]}''"
proof -
  obtain m at first where r: "foldl (append_update d c) (message_head (dl_ctx d ! c), 0, True) [0..<dl_upd_n d] = (m, at, first)"
    by (metis prod_cases3)
  from append_updates_text [OF _ r message_values_def] assms show ?thesis by (simp add: message_text_def r)
qed

lemma concat_by_key:
  fixes k :: "'a \<Rightarrow> nat"
  assumes "sorted_wrt (\<lambda>e f. k e < k f) xs" and "\<forall>e\<in>set xs. k e < n"
  shows "concat (map (\<lambda>u. filter (\<lambda>e. k e = u) xs) [0..<n]) = xs"
  using assms
proof (induction n arbitrary: xs)
  case 0
  then show ?case by simp
next
  case (Suc n)
  have split: "filter (\<lambda>e. k e < n) xs @ filter (\<lambda>e. k e = n) xs = xs"
    using Suc.prems
  proof (induction xs)
    case (Cons x xs)
    show ?case
    proof (cases "k x < n")
      case True
      with Cons show ?thesis by auto
    next
      case False
      with Cons.prems have "xs = []" by (cases xs) auto
      with False Cons.prems show ?thesis by auto
    qed
  qed simp
  have "concat (map (\<lambda>u. filter (\<lambda>e. k e = u) xs) [0..<n]) = concat (map (\<lambda>u. filter (\<lambda>e. k e = u) (filter (\<lambda>e. k e < n) xs)) [0..<n])"
    by (intro arg_cong [where f = concat] map_cong) (auto intro: filter_cong)
  also have "\<dots> = filter (\<lambda>e. k e < n) xs"
    using Suc.prems(1) by (intro Suc.IH) (auto intro: sorted_wrt_filter)
  finally show ?case using split by simp
qed

lemma message_values_order:
  assumes "win_inv cap d"
  shows "filter (\<lambda>e. pd_path e = path) (message_values d c) = filter (\<lambda>e. pd_ctx e = c \<and> pd_path e = path) (dl_pending d)"
proof -
  let ?xs = "filter (\<lambda>e. pd_ctx e = c \<and> pd_path e = path) (dl_pending d)"
  note I = assms [unfolded win_inv_def]
  have "sorted_wrt (\<lambda>e f. pd_ctx e = pd_ctx f \<and> pd_path e = pd_path f \<longrightarrow> pd_upd e < pd_upd f) ?xs"
    using I by (auto intro: sorted_wrt_filter)
  then have "sorted_wrt (\<lambda>e f. pd_upd e < pd_upd f) ?xs"
    by (rule sorted_wrt_mono_rel [rotated]) auto
  then have "concat (map (\<lambda>u. filter (\<lambda>e. pd_upd e = u) ?xs) [0..<dl_upd_n d]) = ?xs"
    using I by (intro concat_by_key) auto
  moreover have "filter (\<lambda>e. pd_path e = path) (message_values d c) = concat (map (\<lambda>u. filter (\<lambda>e. pd_upd e = u) ?xs) [0..<dl_upd_n d])"
    unfolding message_values_def filter_concat map_map comp_def update_entries_def filter_filter
    by (intro arg_cong [where f = concat] map_cong refl filter_cong) auto
  ultimately show ?thesis by simp
qed

lemma last_newest:
  assumes "win_inv cap d" and "newest d e"
  shows "filter (\<lambda>f. pd_ctx f = pd_ctx e \<and> pd_path f = pd_path e) (dl_pending d) \<noteq> [] \<and>
     last (filter (\<lambda>f. pd_ctx f = pd_ctx e \<and> pd_path f = pd_path e) (dl_pending d)) = e"
proof -
  let ?xs = "filter (\<lambda>f. pd_ctx f = pd_ctx e \<and> pd_path f = pd_path e) (dl_pending d)"
  have e: "e \<in> set ?xs" "\<forall>f\<in>set ?xs. pd_upd f \<le> pd_upd e" using assms(2) by (auto simp: newest_def)
  have "sorted_wrt (\<lambda>e f. pd_ctx e = pd_ctx f \<and> pd_path e = pd_path f \<longrightarrow> pd_upd e < pd_upd f) ?xs"
    using assms(1) by (auto simp: win_inv_def intro: sorted_wrt_filter)
  then have s: "sorted_wrt (\<lambda>e f. pd_upd e < pd_upd f) ?xs"
    by (rule sorted_wrt_mono_rel [rotated]) auto
  obtain ys z where yz: "?xs = ys @ [z]" using e(1) by (cases ?xs rule: rev_cases) auto
  from s yz have "\<forall>y\<in>set ys. pd_upd y < pd_upd z" by (simp add: sorted_wrt_append)
  with e yz have "e = z" by (metis Un_iff leD list.set_intros(1) set_append set_ConsD empty_iff list.set(1))
  with yz show ?thesis by simp
qed

subsection \<open>Every operation keeps both\<close>

datatype delta_op =
    Publish "string option" "string option" "string option" int u32
  | Flush
  | Take int u32 bool
  | Requeue "message option"
  | Set_Label "string option"
  | Set_Timing u32 u32
  | Set_No_Drop bool
  | Set_Clock bool

fun delta_do :: "nat \<Rightarrow> sk_delta \<Rightarrow> delta_op \<Rightarrow> sk_delta" where
  "delta_do cap d (Publish ctx path v at now) = snd (espos_sk_delta_publish_at cap ctx path v at now d)"
| "delta_do cap d Flush = snd (espos_sk_delta_flush d)"
| "delta_do cap d (Take wall now conn) = snd (espos_sk_delta_take wall now conn d)"
| "delta_do cap d (Requeue m) = espos_sk_delta_requeue m d"
| "delta_do cap d (Set_Label l) = espos_sk_delta_set_label l d"
| "delta_do cap d (Set_Timing b r) = espos_sk_delta_set_timing b r d"
| "delta_do cap d (Set_No_Drop b) = espos_sk_delta_set_no_drop b d"
| "delta_do cap d (Set_Clock b) = espos_sk_delta_set_clock b d"

definition delta_run :: "nat \<Rightarrow> delta_cfg \<Rightarrow> string option \<Rightarrow> bool list \<Rightarrow> delta_op list \<Rightarrow> sk_delta" where
  "delta_run cap cfg label heap ops = foldl (delta_do cap) (espos_sk_delta_create cfg label heap) ops"

definition delta_ok :: "nat \<Rightarrow> sk_delta \<Rightarrow> bool" where
  "delta_ok cap d \<longleftrightarrow> window_ok cap d \<and> ring_inv d"

lemma window_same:
  "dl_pending d' = dl_pending d \<Longrightarrow> dl_ctx d' = dl_ctx d \<Longrightarrow> dl_upd_n d' = dl_upd_n d \<Longrightarrow> window_ok cap d' = window_ok cap d"
  by (simp add: window_ok_def win_inv_def)

text \<open>Closing the window pushes its messages one after the other.\<close>

lemma push_all_dropping: "push_all b False xs d = foldl (\<lambda>d x. push_dropping x d) d (map (\<lambda>(m, at). (m, b, at)) xs)"
  by (induction b False xs d rule: push_all.induct) (simp_all add: push_dropping_def)

lemma push_all_room:
  assumes "ring_inv d" and "waiting_room (map (\<lambda>(m, at). (m, b, at)) xs) d"
  shows "ring_inv (push_all b nd xs d) \<and> waiting (push_all b nd xs d) = waiting d @ map (\<lambda>(m, at). (m, b, at)) xs \<and>
     ds_dropped (dl_st (push_all b nd xs d)) = ds_dropped (dl_st d)"
  using assms
proof (induction b nd xs d rule: push_all.induct)
  case (2 b nd m at xs d)
  let ?d = "d\<lparr>dl_st := (dl_st d)\<lparr>ds_built := ds_built (dl_st d) + 1\<rparr>\<rparr>"
  have same: "ring_inv ?d = ring_inv d" "waiting ?d = waiting d" by (rule ring_same; simp)+
  have "queue_room (entry m b at # map (\<lambda>(m, b, at). entry m b at) (map (\<lambda>(m, at). (m, b, at)) xs)) ?d"
    using 2(3) by (simp add: waiting_room_def queue_room_def)
  with ring_push_fits [of ?d m b at _ nd] same 2(2)
  have p: "ring_inv (snd (ring_push m b at nd ?d))" "ring_queue (snd (ring_push m b at nd ?d)) = ring_queue ?d @ [entry m b at]"
    "queue_room (map (\<lambda>(m, b, at). entry m b at) (map (\<lambda>(m, at). (m, b, at)) xs)) (snd (ring_push m b at nd ?d))"
    "ds_dropped (dl_st (snd (ring_push m b at nd ?d))) = ds_dropped (dl_st d)"
    by auto
  have "waiting (snd (ring_push m b at nd ?d)) = waiting d @ [(m, b, at)]"
    using p(2) same(2) by (simp add: waiting_def entry_def)
  with 2(1) [OF p(1)] p(3,4) show ?case by (simp add: waiting_room_def)
qed simp

definition window_messages :: "sk_delta \<Rightarrow> (message \<times> u32 \<times> nat) list" where
  "window_messages d = map (\<lambda>(m, at). (m, dl_pending_since_ms d, at)) (fst (build_messages [0..<length (dl_ctx d)] d))"

definition window_fits_ring :: "sk_delta \<Rightarrow> bool" where
  "window_fits_ring d \<longleftrightarrow>
     length (window_messages d) \<le> dc_max_msgs (dl_cfg d) \<and>
     (dc_max_bytes (dl_cfg d) = 0 \<or> sum_list (map (\<lambda>(m, _). length (m_text m)) (window_messages d)) \<le> dc_max_bytes (dl_cfg d))"

definition no_room :: "sk_delta \<Rightarrow> bool" where
  "no_room d \<longleftrightarrow>
     dc_max_msgs (dl_cfg d) < dl_count d + length (window_messages d) \<or>
     dc_max_bytes (dl_cfg d) \<noteq> 0 \<and>
       dc_max_bytes (dl_cfg d) < dl_bytes d + sum_list (map (\<lambda>(m, _). length (m_text m)) (window_messages d))"

lemma waiting_bytes: "ring_inv d \<Longrightarrow> dl_bytes d = text_bytes (waiting d)"
proof -
  have "sum_list (map slot_len qs) = text_bytes (map (\<lambda>q. (the (q_msg q), q_batch_ms q, q_stamp_at q)) qs)"
    if "\<forall>q\<in>set qs. q_msg q \<noteq> None" for qs
    using that by (induction qs) (auto simp: slot_len_def)
  then show "ring_inv d \<Longrightarrow> dl_bytes d = text_bytes (waiting d)" by (simp add: ring_inv_def waiting_def)
qed

text \<open>A flush, by its three outcomes.\<close>

lemma flush_window_result:
  assumes "ring_inv d" and "dl_pending d \<noteq> []" and "flush_window d = (ok, d')"
  shows "ring_inv d'"
    and "ok = (\<not> (dc_no_drop (dl_cfg d) \<and> window_fits_ring d \<and> no_room d))"
    and "\<not> ok \<Longrightarrow> strip d' = strip d"
    and "ok \<Longrightarrow> waiting d' = (if window_messages d = [] then waiting d else newest_fitting (dl_cfg d) (waiting d @ window_messages d)) \<and>
      ds_dropped (dl_st d') + of_nat (length (waiting d')) = ds_dropped (dl_st d) + of_nat (length (waiting d) + length (window_messages d))"
    and "ok \<Longrightarrow> \<not> no_room d \<Longrightarrow> waiting d' = waiting d @ window_messages d"
proof -
  obtain msgs d1 where b: "build_messages [0..<length (dl_ctx d)] d = (msgs, d1)" by force
  with strip_build_messages [of "[0..<length (dl_ctx d)]" d] have s: "strip d1 = strip d" by simp
  note F = strip_fields [OF s]
  have wm: "window_messages d = map (\<lambda>(m, at). (m, dl_pending_since_ms d, at)) msgs" by (simp add: window_messages_def b)
  have len: "length (window_messages d) = length msgs"
    "sum_list (map (\<lambda>(m, _). length (m_text m)) (window_messages d)) = sum_list (map (\<lambda>(m, _). length (m_text m)) msgs)"
    by (simp_all add: wm comp_def split_def)
  define nd where "nd = (dc_no_drop (dl_cfg d) \<and> window_fits_ring d)"
  have fw: "flush_window d = (if nd \<and> no_room d then (False, d1)
      else (True, (push_all (dl_pending_since_ms d) nd msgs d1)\<lparr>dl_pending := [], dl_ctx := [], dl_upd_n := 0\<rparr>))"
    using assms(2) len unfolding flush_window_def b nd_def window_fits_ring_def no_room_def by (simp add: F Let_def)
  have inv1: "ring_inv d1" using strip_ring(1) [OF s] assms(1) by simp
  have w1: "waiting d1 = waiting d" using strip_ring(2) [OF s] by simp
  let ?p = "push_all (dl_pending_since_ms d) nd msgs d1"
  have room: "waiting_room (map (\<lambda>(m, at). (m, dl_pending_since_ms d, at)) msgs) d1" if "\<not> no_room d"
    using that unfolding no_room_def len by (auto simp: waiting_room_def queue_room_def F comp_def split_def entry_def slot_len_def)
  have all: "newest_fitting (dl_cfg d) (waiting d @ window_messages d) = waiting d @ window_messages d" if "\<not> no_room d"
    using that waiting_bytes [OF assms(1)] unfolding no_room_def text_bytes_def [symmetric]
    by (intro newest_fitting_all) auto
  have P: "ring_inv ?p \<and>
      waiting ?p = (if window_messages d = [] then waiting d else newest_fitting (dl_cfg d) (waiting d @ window_messages d)) \<and>
      ds_dropped (dl_st ?p) + of_nat (length (waiting ?p)) = ds_dropped (dl_st d) + of_nat (length (waiting d) + length (window_messages d))"
    if "\<not> (nd \<and> no_room d)"
  proof (cases nd)
    case True
    with that push_all_room [OF inv1 room, of nd] all show ?thesis by (simp add: w1 wm F)
  next
    case False
    let ?ms = "map (\<lambda>(m, at). (m, dl_pending_since_ms d, at)) msgs"
    from False have "?p = foldl (\<lambda>d x. push_dropping x d) d1 ?ms" by (simp add: push_all_dropping)
    with ring.pushes_inv [OF inv1, of ?ms] ring.pushes_queue [OF inv1, of ?ms] ring.pushes_lost [OF inv1, of ?ms]
    show ?thesis by (simp add: w1 wm F)
  qed
  have same: "ring_inv (?p\<lparr>dl_pending := [], dl_ctx := [], dl_upd_n := 0\<rparr>) = ring_inv ?p"
    "waiting (?p\<lparr>dl_pending := [], dl_ctx := [], dl_upd_n := 0\<rparr>) = waiting ?p" by (rule ring_same; simp)+
  show "ok = (\<not> (dc_no_drop (dl_cfg d) \<and> window_fits_ring d \<and> no_room d))"
    using assms(3) by (auto simp: fw nd_def split: if_splits)
  show "ring_inv d'" "\<not> ok \<Longrightarrow> strip d' = strip d"
    using assms(3) P inv1 s same by (auto simp: fw split: if_splits)
  show W: "waiting d' = (if window_messages d = [] then waiting d else newest_fitting (dl_cfg d) (waiting d @ window_messages d)) \<and>
      ds_dropped (dl_st d') + of_nat (length (waiting d')) = ds_dropped (dl_st d) + of_nat (length (waiting d) + length (window_messages d))"
    if ok
  proof -
    have no: "\<not> (nd \<and> no_room d)" and d': "d' = ?p\<lparr>dl_pending := [], dl_ctx := [], dl_upd_n := 0\<rparr>"
      using assms(3) that by (auto simp: fw split: if_splits)
    have "waiting d' = waiting ?p" "ds_dropped (dl_st d') = ds_dropped (dl_st ?p)" using same(2) by (simp_all add: d')
    with P [OF no] show ?thesis by metis
  qed
  show "waiting d' = waiting d @ window_messages d" if ok "\<not> no_room d"
    using W [OF that(1)] all [OF that(2)] by (simp split: if_splits)
qed

lemma flush_window_ok:
  assumes "delta_ok cap d" and "flush_window d = (ok, d')"
  shows "delta_ok cap d'"
proof (cases rule: flush_window_cases [of d])
  case (kept d1)
  have "window_ok cap d1 = window_ok cap d" by (rule window_same) (simp_all add: strip_fields [OF kept(2)])
  with kept assms strip_ring(1) [OF kept(2)] show ?thesis by (simp add: delta_ok_def)
next
  case empty
  with assms show ?thesis by simp
next
  case (closed d1)
  show ?thesis
  proof (cases "dl_pending d = []")
    case True
    with assms show ?thesis by (simp add: flush_window_def)
  next
    case False
    from flush_window_result(1) [OF _ False assms(2)] assms closed show ?thesis
      by (simp add: delta_ok_def window_ok_def win_inv_empty)
  qed
qed

lemma append_pending_ring: "ring_inv (append_pending c path v at now d) = ring_inv d"
  by (rule ring_same) (auto simp: append_pending_def Let_def split: option.splits)

lemma context_slot_ring: "ring_inv (snd (context_slot context d)) = ring_inv d"
  by (rule ring_same) (auto simp: context_slot_def split: option.splits)

lemma flush_window_ring: "ring_inv d \<Longrightarrow> flush_window d = (ok, d') \<Longrightarrow> ring_inv d'"
  using flush_window_result(1) [of d ok d'] by (cases "dl_pending d = []") (auto simp: flush_window_def)

lemma close_and_append_ring: "ring_inv d \<Longrightarrow> ring_inv (snd (close_and_append context path v at now d))"
proof -
  assume inv: "ring_inv d"
  obtain ok d1 where f: "flush_window d = (ok, d1)" by force
  from flush_window_ring [OF inv f] show ?thesis
    using context_slot_ring [of "context" d1]
    by (cases ok; cases "context_slot context d1") (simp_all add: close_and_append_def f append_pending_ring)
qed

lemma join_window_ring:
  assumes "ring_inv d" shows "ring_inv (snd (join_window cap context path v at now d))"
proof -
  obtain r d1 where s: "context_slot context d = (r, d1)" by force
  have inv: "ring_inv d1" using context_slot_ring [of "context" d] assms by (simp add: s)
  have "ring_inv (d1\<lparr>dl_pending := ps\<rparr>) = ring_inv d1" for ps by (rule ring_same) simp_all
  with inv close_and_append_ring [OF inv, of "context" path v at now] show ?thesis
    by (auto simp: join_window_def s append_pending_ring split: option.splits)
qed

lemma publish_cases:
  "espos_sk_delta_publish_at cap ctx path v at now d = (err, d') \<Longrightarrow>
   err \<noteq> ESP_OK \<and> d' = d \<or>
   (\<exists>p w. path = Some p \<and> v = Some w \<and>
      join_window cap (case ctx of None \<Rightarrow> SELF_CONTEXT | Some c \<Rightarrow> c) p w at now d = (err, d'))"
  by (auto simp: espos_sk_delta_publish_at_def Let_def split: option.splits if_splits)

lemma publish_ok:
  assumes "delta_ok cap d" and "0 < cap" and "cap \<le> 32" and "espos_sk_delta_publish_at cap ctx path v at now d = (err, d')"
  shows "delta_ok cap d'"
    and "err = ESP_OK \<Longrightarrow> holds_newest d' (case ctx of None \<Rightarrow> SELF_CONTEXT | Some c \<Rightarrow> c) (the path) (the v) at"
proof -
  have "delta_ok cap d' \<and> (err = ESP_OK \<longrightarrow> holds_newest d' (case ctx of None \<Rightarrow> SELF_CONTEXT | Some c \<Rightarrow> c) (the path) (the v) at)"
    using publish_cases [OF assms(4)]
  proof
    assume "\<exists>p w. path = Some p \<and> v = Some w \<and> join_window cap (case ctx of None \<Rightarrow> SELF_CONTEXT | Some c \<Rightarrow> c) p w at now d = (err, d')"
    then obtain p w where pw: "path = Some p" "v = Some w" "join_window cap (case ctx of None \<Rightarrow> SELF_CONTEXT | Some c \<Rightarrow> c) p w at now d = (err, d')"
      by blast
    have "window_ok cap d" "ring_inv d" using assms(1) by (simp_all add: delta_ok_def)
    from join_window_ok [OF this(1) assms(2,3) pw(3)] join_window_ring [OF this(2), of cap "case ctx of None \<Rightarrow> SELF_CONTEXT | Some c \<Rightarrow> c" p w at now] pw
    show ?thesis by (simp add: delta_ok_def)
  qed (use assms(1) in simp)
  then show "delta_ok cap d'" "err = ESP_OK \<Longrightarrow> holds_newest d' (case ctx of None \<Rightarrow> SELF_CONTEXT | Some c \<Rightarrow> c) (the path) (the v) at"
    by blast+
qed

text \<open>Sending takes the oldest message, stamped or not.\<close>

lemma stamp_strip: "strip (snd (stamp wall m now b at d)) = strip d"
  using strip_malloc [of d] by (cases "malloc d") (auto simp: stamp_def Let_def split: option.splits)

lemma delta_same:
  assumes "dl_ring d' = dl_ring d" "dl_head d' = dl_head d" "dl_count d' = dl_count d" "dl_bytes d' = dl_bytes d"
    "dc_max_msgs (dl_cfg d') = dc_max_msgs (dl_cfg d)" "dl_pending d' = dl_pending d" "dl_ctx d' = dl_ctx d" "dl_upd_n d' = dl_upd_n d"
  shows "delta_ok cap d' = delta_ok cap d"
  unfolding delta_ok_def using ring_same(1) [of d' d] window_same [of d' d cap] assms by simp

lemma delta_strip: "strip d' = strip d \<Longrightarrow> delta_ok cap d' = delta_ok cap d"
  using delta_same [of d' d cap] strip_fields [of d' d] by simp

lemma ring_pop_ok:
  assumes "delta_ok cap d"
  shows "delta_ok cap (snd (ring_pop d))"
proof -
  have w: "window_ok cap (snd (ring_pop d)) = window_ok cap d"
    by (rule window_same) (simp_all add: ring_pop_def Let_def)
  have "ring_inv (snd (ring_pop d))"
    using ring_pop_waiting [of d] assms by (cases "waiting d") (simp_all add: delta_ok_def)
  with w assms show ?thesis by (simp add: delta_ok_def)
qed

lemma take_now_ok:
  assumes "delta_ok cap d" shows "delta_ok cap (snd (take_now wall now d))"
proof -
  obtain r d1 where p: "ring_pop d = (r, d1)" by force
  have d1: "delta_ok cap d1" using ring_pop_ok [OF assms] by (simp add: p)
  obtain m b at where r: "the r = (m, b, at)" by (metis prod_cases3)
  let ?d = "d1\<lparr>dl_last_take_ms := now, dl_st := (dl_st d1)\<lparr>ds_taken := ds_taken (dl_st d1) + 1\<rparr>, dl_unstamped := None\<rparr>"
  have d2: "delta_ok cap ?d" using d1 delta_same [of ?d d1 cap] by simp
  obtain out d3 where s: "stamp wall m now b at ?d = (out, d3)" by force
  have d3: "delta_ok cap d3" using d2 delta_strip [OF stamp_strip [of wall m now b at ?d], of cap] by (simp add: s)
  have "delta_ok cap (d3\<lparr>dl_unstamped := x, dl_unstamped_at := y, dl_unstamped_batch_ms := z\<rparr>) = delta_ok cap d3" for x y z
    by (rule delta_same) simp_all
  with d2 d3 show ?thesis by (simp add: take_now_def p r s Let_def)
qed

lemma take_ok:
  assumes "delta_ok cap d" shows "delta_ok cap (snd (espos_sk_delta_take wall now conn d))"
proof -
  define d1 where "d1 = (if batch_due d now then snd (espos_sk_delta_flush d) else d)"
  have d1: "delta_ok cap d1"
    using assms flush_window_ok [OF assms] by (cases "flush_window d") (auto simp: d1_def espos_sk_delta_flush_def)
  have dr: "delta_ok cap (d1\<lparr>dl_draining := x\<rparr>) = delta_ok cap d1" for x by (rule delta_same) simp_all
  have "delta_ok cap (snd (take_now wall now (d1\<lparr>dl_draining := x\<rparr>)))" for x
    by (rule take_now_ok) (use d1 dr in simp)
  with d1 dr take_now_ok [OF d1, of wall now] show ?thesis
    by (simp add: espos_sk_delta_take_def Let_def d1_def [symmetric])
qed

lemma requeue_ok:
  assumes "delta_ok cap d" shows "delta_ok cap (espos_sk_delta_requeue m d)"
proof (cases m)
  case (Some x)
  have "window_ok cap (espos_sk_delta_requeue m d) = window_ok cap d"
    by (rule window_same) (simp_all add: espos_sk_delta_requeue_def Some Let_def)
  with requeue_waiting [of d x] assms Some show ?thesis by (simp add: delta_ok_def)
qed (use assms in \<open>simp add: espos_sk_delta_requeue_def\<close>)

lemma delta_do_ok:
  assumes "delta_ok cap d" and "0 < cap" and "cap \<le> 32" shows "delta_ok cap (delta_do cap d op)"
proof (cases op)
  case (Publish ctx path v at now)
  with publish_ok(1) [OF assms, of ctx path v at now] show ?thesis by (metis delta_do.simps(1) prod.collapse)
next
  case Flush
  with flush_window_ok [OF assms(1)] show ?thesis by (cases "flush_window d") (simp add: espos_sk_delta_flush_def)
next
  case (Take wall now conn)
  with take_ok [OF assms(1)] show ?thesis by simp
next
  case (Requeue m)
  with requeue_ok [OF assms(1)] show ?thesis by simp
next
  case (Set_Label l)
  have "delta_ok cap (espos_sk_delta_set_label l d) = delta_ok cap d" by (rule delta_same) (simp_all add: espos_sk_delta_set_label_def)
  with Set_Label assms(1) show ?thesis by simp
next
  case (Set_Timing b r)
  have "delta_ok cap (espos_sk_delta_set_timing b r d) = delta_ok cap d" by (rule delta_same) (simp_all add: espos_sk_delta_set_timing_def Let_def)
  with Set_Timing assms(1) show ?thesis by simp
next
  case (Set_No_Drop b)
  have "delta_ok cap (espos_sk_delta_set_no_drop b d) = delta_ok cap d" by (rule delta_same) (simp_all add: espos_sk_delta_set_no_drop_def)
  with Set_No_Drop assms(1) show ?thesis by simp
next
  case (Set_Clock b)
  have "delta_ok cap (espos_sk_delta_set_clock b d) = delta_ok cap d" by (rule delta_same) (simp_all add: espos_sk_delta_set_clock_def)
  with Set_Clock assms(1) show ?thesis by simp
qed

lemma create_ok: "delta_ok cap (espos_sk_delta_create cfg label heap)"
  by (simp add: delta_ok_def window_ok_def win_inv_def ring_inv_def ring_queue_def espos_sk_delta_create_def Let_def)

lemma delta_run_ok:
  assumes "0 < cap" and "cap \<le> 32" shows "delta_ok cap (delta_run cap cfg label heap ops)"
proof -
  have "delta_ok cap (foldl (delta_do cap) d ops)" if "delta_ok cap d" for d
    using that by (induction ops arbitrary: d) (simp_all add: delta_do_ok assms)
  then show ?thesis by (simp add: delta_run_def create_ok)
qed

text \<open>A queue with one of its two slots taken and a window of two messages, which it holds back.\<close>

definition held_cfg :: delta_cfg where
  "held_cfg = \<lparr>dc_batch_ms = 100, dc_max_msgs = 2, dc_max_bytes = 0, dc_drain_per_s = 20, dc_no_drop = True\<rparr>"

definition held_ops :: "delta_op list" where
  "held_ops = [Publish None (Some ''p'') (Some ''1'') 0 5, Flush, Publish None (Some ''p'') (Some ''2'') 0 6,
     Publish (Some ''vessels.urn:b'') (Some ''p'') (Some ''3'') 0 7]"

definition held :: sk_delta where
  "held = delta_run 24 held_cfg None [] held_ops"

subsection \<open>What the queue promises\<close>

text \<open>C10. Whatever the queue has been through, an accepted value is the last of its path in the message of its context. The text
  that is built for the context lays out a list \<open>vs\<close> of values, in this order; of every path the list has exactly the values
  that are in the window, in the order they were published; and the last of the accepted value's path is that value,
  with its timestamp. So a receiver that applies the message from front to back ends on the newest.\<close>

theorem delta_newest_value_last:
  assumes "0 < cap" and "cap \<le> 32"
    and "espos_sk_delta_publish_at cap ctx (Some path) (Some v) at now (delta_run cap cfg label heap ops) = (ESP_OK, d)"
  shows "\<exists>c < length (dl_ctx d). \<exists>vs.
     dl_ctx d ! c = (case ctx of None \<Rightarrow> SELF_CONTEXT | Some x \<Rightarrow> x) \<and>
     fst (message_text d c) = message_head (dl_ctx d ! c) @ update_head (dl_label d) (hd vs) @ laid_out (dl_label d) vs @ '']}]}'' \<and>
     (\<forall>p. filter (\<lambda>e. pd_path e = p) vs = filter (\<lambda>e. pd_ctx e = c \<and> pd_path e = p) (dl_pending d)) \<and>
     filter (\<lambda>e. pd_path e = path) vs \<noteq> [] \<and>
     pd_value (last (filter (\<lambda>e. pd_path e = path) vs)) = v \<and> pd_at_ms (last (filter (\<lambda>e. pd_path e = path) vs)) = at"
proof -
  have ok: "delta_ok cap d" and new: "holds_newest d (case ctx of None \<Rightarrow> SELF_CONTEXT | Some c \<Rightarrow> c) path v at"
    using publish_ok [OF delta_run_ok [OF assms(1,2)] assms] by simp_all
  from ok have w: "win_inv cap d" by (simp add: delta_ok_def window_ok_def)
  from new obtain e where e: "newest d e" "pd_ctx e < length (dl_ctx d)" "pd_path e = path" "pd_value e = v" "pd_at_ms e = at"
    "dl_ctx d ! pd_ctx e = (case ctx of None \<Rightarrow> SELF_CONTEXT | Some c \<Rightarrow> c)" unfolding holds_newest_def by auto
  note O = message_values_order [OF w, of _ "pd_ctx e"]
  have ne: "filter (\<lambda>f. pd_path f = path) (message_values d (pd_ctx e)) \<noteq> []" using last_newest [OF w e(1)] O [of path] e(3) by simp
  then have "message_values d (pd_ctx e) \<noteq> []" by auto
  from message_text_laid_out [OF this] last_newest [OF w e(1)] O e ne show ?thesis
    by (intro exI [of _ "pd_ctx e"] conjI exI [of _ "message_values d (pd_ctx e)"]) simp_all
qed

theorem delta_newest_value_last_witness:
  "\<exists>d c vs. espos_sk_delta_publish_at 24 None (Some ''p'') (Some ''4'') 1768000000000 8 held = (ESP_OK, d) \<and>
     c < length (dl_ctx d) \<and> dl_ctx d ! c = SELF_CONTEXT \<and>
     fst (message_text d c) = message_head SELF_CONTEXT @ update_head (dl_label d) (hd vs) @ laid_out (dl_label d) vs @ '']}]}'' \<and>
     pd_value (last (filter (\<lambda>e. pd_path e = ''p'') vs)) = ''4''"
proof -
  have "fst (espos_sk_delta_publish_at 24 None (Some ''p'') (Some ''4'') 1768000000000 8 held) = ESP_OK" by code_simp
  then obtain d where d: "espos_sk_delta_publish_at 24 None (Some ''p'') (Some ''4'') 1768000000000 8 held = (ESP_OK, d)"
    by (metis prod.collapse)
  from delta_newest_value_last [of 24 None "''p''" "''4''" 1768000000000 8 held_cfg None "[]" held_ops d] d
  obtain c vs where "c < length (dl_ctx d)" "dl_ctx d ! c = SELF_CONTEXT"
    "fst (message_text d c) = message_head SELF_CONTEXT @ update_head (dl_label d) (hd vs) @ laid_out (dl_label d) vs @ '']}]}''"
    "pd_value (last (filter (\<lambda>e. pd_path e = ''p'') vs)) = ''4''"
    by (auto simp: held_def)
  with d show ?thesis by blast
qed

text \<open>C14. A flush is refused in one case: the no-drop rule is set, the window's messages would fit an empty ring, and they do
  not fit behind those waiting now; then the ring, the window and the counters stay as they are. In every other case the
  window is closed, and the ring has the longest end of the messages waiting and the window's messages, in this
  order, that is within both limits, all of them when they fit (the messages waiting as they are when no message of the window
  could be allocated); each message that is not kept is counted as dropped.\<close>

theorem delta_flush_keeps_order:
  assumes "0 < cap" and "cap \<le> 32" and "d = delta_run cap cfg label heap ops" and "dl_pending d \<noteq> []"
    and "espos_sk_delta_flush d = (err, d')"
  shows "if dc_no_drop (dl_cfg d) \<and> window_fits_ring d \<and> no_room d
     then err = ESP_ERR_NO_MEM \<and> waiting d' = waiting d \<and> dl_pending d' = dl_pending d \<and> dl_st d' = dl_st d
     else err = ESP_OK \<and> dl_pending d' = [] \<and>
       waiting d' = (if window_messages d = [] then waiting d else newest_fitting (dl_cfg d) (waiting d @ window_messages d)) \<and>
       (\<not> no_room d \<longrightarrow> waiting d' = waiting d @ window_messages d) \<and>
       ds_dropped (dl_st d') + of_nat (length (waiting d')) = ds_dropped (dl_st d) + of_nat (length (waiting d @ window_messages d))"
proof -
  have ri: "ring_inv d" using delta_run_ok [OF assms(1,2)] assms(3) by (simp add: delta_ok_def)
  obtain ok where f: "flush_window d = (ok, d')" and err: "err = (if ok then ESP_OK else ESP_ERR_NO_MEM)"
    using assms(5) by (auto simp: espos_sk_delta_flush_def split: prod.splits)
  note R = flush_window_result [OF ri assms(4) f]
  have kept: "waiting d' = waiting d \<and> dl_pending d' = dl_pending d \<and> dl_st d' = dl_st d" if "\<not> ok"
    using strip_ring(2) [OF R(3) [OF that]] strip_fields [OF R(3) [OF that]] by simp
  have closed: "dl_pending d' = []" if ok
    using that f assms(4) by (cases rule: flush_window_cases [of d]) simp_all
  show ?thesis
  proof (cases ok)
    case True
    with R(2) have c: "\<not> (dc_no_drop (dl_cfg d) \<and> window_fits_ring d \<and> no_room d)" by simp
    show ?thesis unfolding if_not_P [OF c] length_append      using R(4,5) [OF True] closed [OF True] err [unfolded if_P [OF True]] by blast
  next
    case False
    with R(2) kept err show ?thesis by simp
  qed
qed

theorem delta_flush_keeps_order_witness:
  "\<exists>d'. espos_sk_delta_flush held = (ESP_ERR_NO_MEM, d') \<and> waiting d' = waiting held \<and> dl_pending d' = dl_pending held"
proof -
  obtain err d' where f: "espos_sk_delta_flush held = (err, d')" by force
  have "dl_pending held \<noteq> []" by code_simp
  from delta_flush_keeps_order [OF _ _ held_def this f]
  have "if dc_no_drop (dl_cfg held) \<and> window_fits_ring held \<and> no_room held
     then err = ESP_ERR_NO_MEM \<and> waiting d' = waiting held \<and> dl_pending d' = dl_pending held else True"
    by (simp split: if_splits)
  moreover have "dc_no_drop (dl_cfg held) \<and> window_fits_ring held \<and> no_room held" by code_simp
  ultimately show ?thesis using f by simp
qed

lemma flush_window_refused: "flush_window d = (False, d') \<Longrightarrow> dc_no_drop (dl_cfg d)"
  using strip_fields(5) [OF strip_build_messages [of "[0..<length (dl_ctx d)]" d]]
  by (auto simp: flush_window_def Let_def split: if_splits prod.splits)

lemma not_late_and_early: "0 \<le> sint (a - b) \<Longrightarrow> sint (b - a) \<le> 0" for a b :: u32
proof (cases "a = b")
  case False
  assume "0 \<le> sint (a - b)"
  then have "uint (a - b) < 2 ^ 31" by (simp add: sint_nonneg_iff)
  moreover have "uint (b - a) = 2 ^ 32 - uint (a - b)"
    using False uint_word_ariths(4) [of "a - b"] uint_lt2p [of "a - b"] unsigned_eq_0_iff [of "a - b"]
    by (simp add: zmod_zminus1_eq_if)
  ultimately have "\<not> uint (b - a) < 2 ^ 31" by simp
  then show ?thesis unfolding sint_nonneg_iff [symmetric] by simp
qed simp

text \<open>A due window that the no-drop rule holds back is reported due again at once while the ring has a slot and a byte
  left, however many messages the window needs: the offline sender then runs every millisecond. The retry delay
  applies only when the ring is full to the last slot or byte.\<close>

theorem delta_held_window_due_at_once:
  assumes "batch_due d now" and "espos_sk_delta_flush d = (ESP_ERR_NO_MEM, d1)"
    and "espos_sk_delta_take wall now False d = (m, d')"
  shows "m = None \<and> dl_pending d' = dl_pending d \<and>
     espos_sk_delta_next_due_ms d' now False =
      (if dl_count d < dc_max_msgs (dl_cfg d) \<and> (dc_max_bytes (dl_cfg d) = 0 \<or> dl_bytes d < dc_max_bytes (dl_cfg d)) then 0
       else if dc_batch_ms (dl_cfg d) = 0 then 100 else dc_batch_ms (dl_cfg d))"
proof -
  have f: "flush_window d = (False, d1)"
    using assms(2) by (auto simp: espos_sk_delta_flush_def split: prod.splits if_splits)
  have d': "m = None" "d' = d1\<lparr>dl_draining := False\<rparr>" using assms by (auto simp: espos_sk_delta_take_def)
  have s: "strip d1 = strip d" using f by (cases rule: flush_window_cases [of d]) simp_all
  have since: "dl_pending_since_ms d1 = dl_pending_since_ms d"
    using arg_cong [OF s, of dl_pending_since_ms] by (simp add: strip_def)
  have nd: "dc_no_drop (dl_cfg d)" by (rule flush_window_refused [OF f])
  have "\<not> 0 < sint (dl_pending_since_ms d + dc_batch_ms (dl_cfg d) - now)" "dl_pending d \<noteq> []"
    using assms(1) not_late_and_early [of now "dl_pending_since_ms d + dc_batch_ms (dl_cfg d)"] by (simp_all add: batch_due_def)
  then show ?thesis using nd strip_fields [OF s] since
    by (auto simp: d' espos_sk_delta_next_due_ms_def Let_def)
qed

theorem delta_held_window_due_at_once_witness:
  "\<exists>d'. espos_sk_delta_take 0 200 False held = (None, d') \<and> dl_pending d' = dl_pending held \<and>
     espos_sk_delta_next_due_ms d' 200 False = 0"
proof -
  have "fst (espos_sk_delta_flush held) = ESP_ERR_NO_MEM" by code_simp
  then obtain d1 where f: "espos_sk_delta_flush held = (ESP_ERR_NO_MEM, d1)" by (metis prod.collapse)
  obtain m d' where t: "espos_sk_delta_take 0 200 False held = (m, d')" by force
  have due: "batch_due held 200" by code_simp
  have "dl_count held < dc_max_msgs (dl_cfg held) \<and> dc_max_bytes (dl_cfg held) = 0" by code_simp
  with delta_held_window_due_at_once [OF due f t] t show ?thesis by simp
qed

end
