(* ===== verification/Cfg_Desc.thy ===== *)
theory Cfg_Desc
  imports Espos_Prelude
begin

text \<open>
  What the configuration store knows of a setting: the descriptors of
  src/components/espos_config/include/espos_config_desc.h, the values of espos_config_priv.h and
  the validation of a value in src/components/espos_config/src/espos_config.c.

  A \<open>float\<close> is its IEEE 754 bit pattern, a 32-bit word: an exponent of all ones is an infinity or
  not a number, and the order of the others is that of sign and magnitude. An \<open>int32_t\<close> is a
  32-bit word compared signed. The default, minimum and maximum are C unions of which the type of
  the key names the valid member; they are a field per member. A pointer that may be NULL is an
  option. Titles of keys, units and the presentation hints are not modelled.
\<close>

unbundle bit_operations_syntax

type_synonym i32 = "32 word"

abbreviation ESP_ERR_NOT_SUPPORTED :: esp_err where
  "ESP_ERR_NOT_SUPPORTED \<equiv> ESP_ERR_CODE 0x106"

subsection \<open>Single-precision numbers\<close>

definition f_isnan :: "u32 \<Rightarrow> bool" where
  "f_isnan x \<longleftrightarrow> 0x7F800000 < x AND 0x7FFFFFFF"

definition f_isinf :: "u32 \<Rightarrow> bool" where
  "f_isinf x \<longleftrightarrow> x AND 0x7FFFFFFF = 0x7F800000"

definition f_ord :: "u32 \<Rightarrow> int" where
  "f_ord x = (if bit x 31 then - uint (x AND 0x7FFFFFFF) else uint (x AND 0x7FFFFFFF))"

definition f_less :: "u32 \<Rightarrow> u32 \<Rightarrow> bool" where
  "f_less x y \<longleftrightarrow> \<not> f_isnan x \<and> \<not> f_isnan y \<and> f_ord x < f_ord y"

definition f_eq :: "u32 \<Rightarrow> u32 \<Rightarrow> bool" where
  "f_eq x y \<longleftrightarrow> \<not> f_isnan x \<and> \<not> f_isnan y \<and> f_ord x = f_ord y"

subsection \<open>Descriptors\<close>

datatype cfg_type =
    ESPOS_CFG_TYPE_BOOL
  | ESPOS_CFG_TYPE_INT
  | ESPOS_CFG_TYPE_FLOAT
  | ESPOS_CFG_TYPE_STRING
  | ESPOS_CFG_TYPE_BLOB
  | CFG_TYPE_UNKNOWN nat

record cfg_scalar =
  sc_b :: bool
  sc_i :: i32
  sc_f :: u32
  sc_s :: "string option"

record cfg_key =
  k_name :: "string option"
  k_type :: cfg_type
  k_flags :: u32
  k_def :: cfg_scalar
  k_min :: cfg_scalar
  k_max :: cfg_scalar
  k_has_min :: bool
  k_has_max :: bool
  k_max_len :: nat
  k_enum_values :: "string list option"

record cfg_ns =
  n_name :: "string option"
  n_title :: "string option"
  n_version :: u16
  n_keys :: "cfg_key list option"

definition ESPOS_CFG_FLAG_SECRET :: u32 where
  "ESPOS_CFG_FLAG_SECRET = 1"

definition ESPOS_CFG_FLAG_RESTART_REQUIRED :: u32 where
  "ESPOS_CFG_FLAG_RESTART_REQUIRED = 2"

definition ESPOS_CFG_FLAG_READ_ONLY :: u32 where
  "ESPOS_CFG_FLAG_READ_ONLY = 4"

definition ESPOS_CFG_NS_NAME_MAX :: nat where
  "ESPOS_CFG_NS_NAME_MAX = 15"

definition ESPOS_CFG_RUNTIME_ID_MAX :: nat where
  "ESPOS_CFG_RUNTIME_ID_MAX = 12"

definition ESPOS_CFG_RUNTIME_NS_PREFIX :: string where
  "ESPOS_CFG_RUNTIME_NS_PREFIX = ''f_''"

definition ESPOS_CFG_VERSION_KEY :: string where
  "ESPOS_CFG_VERSION_KEY = ''config_version''"

text \<open>The keys and the name of a descriptor whose pointers are set.\<close>

definition keys_of :: "cfg_ns \<Rightarrow> cfg_key list" where
  "keys_of nd = (case n_keys nd of None \<Rightarrow> [] | Some ks \<Rightarrow> ks)"

definition espos_config_find_key :: "cfg_ns \<Rightarrow> string option \<Rightarrow> cfg_key option" where
  "espos_config_find_key nd key = (if key = None then None else find (\<lambda>k. k_name k = key) (keys_of nd))"

subsection \<open>Values\<close>

text \<open>A blob is its bytes, or NULL with the length that was claimed for it.\<close>

datatype blob = Blob "u8 list" | Null_Blob nat

fun blob_len :: "blob \<Rightarrow> nat" where
  "blob_len (Blob bs) = length bs"
| "blob_len (Null_Blob n) = n"

datatype cfg_value =
    V_Bool bool
  | V_Int i32
  | V_Float u32
  | V_String "string option"
  | V_Blob blob

fun type_of :: "cfg_value \<Rightarrow> cfg_type" where
  "type_of (V_Bool _) = ESPOS_CFG_TYPE_BOOL"
| "type_of (V_Int _) = ESPOS_CFG_TYPE_INT"
| "type_of (V_Float _) = ESPOS_CFG_TYPE_FLOAT"
| "type_of (V_String _) = ESPOS_CFG_TYPE_STRING"
| "type_of (V_Blob _) = ESPOS_CFG_TYPE_BLOB"

text \<open>Whether a value passes; the reason that is written for one that does not is not modelled.\<close>

definition espos_config_validate :: "cfg_key \<Rightarrow> cfg_value \<Rightarrow> bool" where
  "espos_config_validate key val =
     (if type_of val \<noteq> k_type key then False
      else
        (case val of
           V_Bool b \<Rightarrow> True
         | V_Int i \<Rightarrow> \<not> (sint i < sint (sc_i (k_min key)) \<or> sint (sc_i (k_max key)) < sint i)
         | V_Float f \<Rightarrow>
             if f_isnan f \<or> f_isinf f then False
             else if k_has_min key \<and> f_less f (sc_f (k_min key)) then False
             else if k_has_max key \<and> f_less (sc_f (k_max key)) f then False
             else True
         | V_String None \<Rightarrow> False
         | V_String (Some s) \<Rightarrow>
             if k_max_len key < length s then False
             else (case k_enum_values key of Some es \<Rightarrow> list_ex (\<lambda>e. e = s) es | None \<Rightarrow> True)
         | V_Blob b \<Rightarrow>
             if k_max_len key < blob_len b then False
             else (case b of Null_Blob n \<Rightarrow> n = 0 | Blob _ \<Rightarrow> True)))"

text \<open>The default of a key as a value; a blob has none.\<close>

definition default_value :: "cfg_key \<Rightarrow> cfg_value" where
  "default_value key =
     (case k_type key of
        ESPOS_CFG_TYPE_BOOL \<Rightarrow> V_Bool (sc_b (k_def key))
      | ESPOS_CFG_TYPE_INT \<Rightarrow> V_Int (sc_i (k_def key))
      | ESPOS_CFG_TYPE_FLOAT \<Rightarrow> V_Float (sc_f (k_def key))
      | ESPOS_CFG_TYPE_STRING \<Rightarrow> V_String (sc_s (k_def key))
      | _ \<Rightarrow> V_Blob (Null_Blob 0))"

text \<open>A scalar in memory is its bytes from the lowest up.\<close>

definition word_bytes :: "u32 \<Rightarrow> u8 list" where
  "word_bytes w = [ucast w, ucast (drop_bit 8 w), ucast (drop_bit 16 w), ucast (drop_bit 24 w)]"

fun bytes_word :: "u8 list \<Rightarrow> u32" where
  "bytes_word [a, b, c, d] = ucast a OR push_bit 8 (ucast b) OR push_bit 16 (ucast c) OR push_bit 24 (ucast d)"
| "bytes_word _ = 0"

lemma bytes_word_bytes [simp]: "bytes_word (word_bytes w) = w"
proof (rule bit_word_eqI)
  fix n assume "n < LENGTH(32)"
  then show "bit (bytes_word (word_bytes w)) n = bit w n"
    unfolding word_bytes_def bytes_word.simps by (cases "24 \<le> n"; cases "16 \<le> n") (auto simp: bit_simps)
qed

lemma length_word_bytes [simp]: "length (word_bytes w) = 4"
  by (simp add: word_bytes_def)

end
