(* ===== verification/Cfg_Backend.thy ===== *)
theory Cfg_Backend
  imports Cfg_Desc
begin

text \<open>
  The storage behind the configuration store: the interface of
  src/components/espos_config/include/espos_config_backend.h as a record of functions on the
  backend's own context, the contract its clients rely on as a locale, and the in-memory backend
  of src/components/espos_config/src/backend_mem.c, which meets it.

  A handle is the address of the backend's namespace node. The outcomes of the next allocations
  are a list, success when it is exhausted.
\<close>

record ('b, 'h) backend =
  be_init :: "'b \<Rightarrow> esp_err \<times> bool \<times> 'b"
  be_open :: "string \<Rightarrow> 'b \<Rightarrow> esp_err \<times> 'h option \<times> 'b"
  be_close :: "'h \<Rightarrow> 'b \<Rightarrow> 'b"
  be_get :: "'h \<Rightarrow> string \<Rightarrow> cfg_type \<Rightarrow> bool \<Rightarrow> nat \<Rightarrow> 'b \<Rightarrow> esp_err \<times> u8 list \<times> nat"
  be_set :: "'h \<Rightarrow> string \<Rightarrow> cfg_type \<Rightarrow> u8 list \<Rightarrow> nat \<Rightarrow> 'b \<Rightarrow> esp_err \<times> 'b"
  be_erase_key :: "'h \<Rightarrow> string \<Rightarrow> 'b \<Rightarrow> esp_err \<times> 'b"
  be_erase_all :: "'h \<Rightarrow> 'b \<Rightarrow> esp_err \<times> 'b"
  be_commit :: "'h \<Rightarrow> 'b \<Rightarrow> esp_err \<times> 'b"
  be_erase_storage :: "'b \<Rightarrow> esp_err \<times> 'b"

text \<open>What a set stores of the buffer it is given.\<close>

definition scalar_size :: "cfg_type \<Rightarrow> nat" where
  "scalar_size t =
     (case t of ESPOS_CFG_TYPE_BOOL \<Rightarrow> 1 | ESPOS_CFG_TYPE_INT \<Rightarrow> 4 | ESPOS_CFG_TYPE_FLOAT \<Rightarrow> 4 | _ \<Rightarrow> 0)"

definition payload :: "cfg_type \<Rightarrow> u8 list \<Rightarrow> nat \<Rightarrow> u8 list" where
  "payload ty buf len =
     (case ty of
        ESPOS_CFG_TYPE_STRING \<Rightarrow> takeWhile (\<lambda>b. b \<noteq> 0) buf @ [0]
      | ESPOS_CFG_TYPE_BLOB \<Rightarrow> take len buf
      | _ \<Rightarrow> take (scalar_size ty) buf)"

subsection \<open>The contract\<close>

text \<open>
  A client sees a backend as the values stored under a namespace and a key, and the namespace that
  an open handle stands for.
\<close>

fun known :: "cfg_type \<Rightarrow> bool" where
  "known (CFG_TYPE_UNKNOWN _) = False"
| "known _ = True"

locale config_backend =
  fixes be :: "('b, 'h) backend"
    and ok :: "'b \<Rightarrow> bool"
    and stored :: "'b \<Rightarrow> string \<Rightarrow> string \<Rightarrow> (cfg_type \<times> u8 list) option"
    and ns_of :: "'b \<Rightarrow> 'h \<Rightarrow> string option"
  assumes init_law: "ok b \<Longrightarrow> be_init be b = (err, reset, b') \<Longrightarrow>
      ok b' \<and> stored b' = (if reset then (\<lambda>_ _. None) else stored b)"
    and open_law: "ok b \<Longrightarrow> be_open be ns b = (err, r, b') \<Longrightarrow>
      ok b' \<and> stored b' = stored b \<and> (ns_of b h = Some n \<longrightarrow> ns_of b' h = Some n) \<and>
      (if err = ESP_OK then r \<noteq> None \<and> ns_of b' (the r) = Some ns else r = None)"
    and close_law: "ok b \<Longrightarrow> ok (be_close be h b) \<and> stored (be_close be h b) = stored b \<and>
      (ns_of b h' = Some n \<and> h' \<noteq> h \<longrightarrow> ns_of (be_close be h b) h' = Some n)"
    and get_law: "ok b \<Longrightarrow> ns_of b h = Some n \<Longrightarrow> known ty \<Longrightarrow>
      (case stored b n key of
         Some (t, d) \<Rightarrow> if t = ty \<and> length d \<le> len then be_get be h key ty True len b = (ESP_OK, d, length d)
           else fst (be_get be h key ty True len b) \<notin> {ESP_OK, ESP_ERR_NOT_FOUND}
       | None \<Rightarrow> fst (be_get be h key ty True len b) \<noteq> ESP_OK)"
    and set_law: "ok b \<Longrightarrow> be_set be h key ty buf len b = (err, b') \<Longrightarrow>
      ok b' \<and> ns_of b' = ns_of b \<and>
      (ns_of b h = Some n \<longrightarrow> stored b' = (if err = ESP_OK then (stored b)(n := (stored b n)(key \<mapsto> (ty, payload ty buf len))) else stored b))"
    and erase_law: "ok b \<Longrightarrow> be_erase_key be h key b = (err, b') \<Longrightarrow>
      ok b' \<and> ns_of b' = ns_of b \<and>
      (ns_of b h = Some n \<longrightarrow>
         stored b' = (if err \<in> {ESP_OK, ESP_ERR_NOT_FOUND} then (stored b)(n := (stored b n)(key := None)) else stored b))"
    and commit_law: "ok b \<Longrightarrow> be_commit be h b = (err, b') \<Longrightarrow> ok b' \<and> stored b' = stored b \<and> ns_of b' = ns_of b"
    and wipe_law: "ok b \<Longrightarrow> be_erase_storage be b = (err, b') \<Longrightarrow> ok b' \<and> (err = ESP_OK \<longrightarrow> stored b' n key = None)"

subsection \<open>The in-memory backend\<close>

record mem_entry =
  e_key :: string
  e_type :: cfg_type
  e_data :: "u8 list"

record mem_ns =
  mn_addr :: nat
  mn_name :: string
  mn_entries :: "mem_entry list"

record mem =
  m_namespaces :: "mem_ns list"
  m_write_fault :: esp_err
  m_inited :: bool
  m_next_addr :: nat
  m_heap :: "bool list"

definition mem_alloc :: "mem \<Rightarrow> bool \<times> mem" where
  "mem_alloc m = (case m_heap m of [] \<Rightarrow> (True, m) | ok # hs \<Rightarrow> (ok, m\<lparr>m_heap := hs\<rparr>))"

definition espos_config_mem_create :: "bool list \<Rightarrow> mem" where
  "espos_config_mem_create heap = \<lparr>m_namespaces = [], m_write_fault = ESP_OK, m_inited = False, m_next_addr = 0, m_heap = heap\<rparr>"

definition espos_config_mem_set_write_fault :: "esp_err \<Rightarrow> mem \<Rightarrow> mem" where
  "espos_config_mem_set_write_fault err m = m\<lparr>m_write_fault := err\<rparr>"

definition mem_find_ns :: "string \<Rightarrow> bool \<Rightarrow> mem \<Rightarrow> nat option \<times> mem" where
  "mem_find_ns name create m =
     (case find (\<lambda>n. mn_name n = name) (m_namespaces m) of
        Some n \<Rightarrow> (Some (mn_addr n), m)
      | None \<Rightarrow>
          if \<not> create \<or> 15 < length name then (None, m)
          else
            (case mem_alloc m of
               (False, m) \<Rightarrow> (None, m)
             | (True, m) \<Rightarrow>
                 (Some (m_next_addr m),
                  m\<lparr>m_namespaces := \<lparr>mn_addr = m_next_addr m, mn_name = name, mn_entries = []\<rparr> # m_namespaces m,
                    m_next_addr := Suc (m_next_addr m)\<rparr>)))"

text \<open>The node at an address, and an update of its entries.\<close>

definition node :: "mem \<Rightarrow> nat \<Rightarrow> mem_ns option" where
  "node m h = find (\<lambda>n. mn_addr n = h) (m_namespaces m)"

definition entries :: "mem \<Rightarrow> nat \<Rightarrow> mem_entry list" where
  "entries m h = (case node m h of None \<Rightarrow> [] | Some n \<Rightarrow> mn_entries n)"

definition with_entries :: "nat \<Rightarrow> mem_entry list \<Rightarrow> mem \<Rightarrow> mem" where
  "with_entries h es m = m\<lparr>m_namespaces := map (\<lambda>n. if mn_addr n = h then n\<lparr>mn_entries := es\<rparr> else n) (m_namespaces m)\<rparr>"

definition find_entry :: "mem_entry list \<Rightarrow> string \<Rightarrow> mem_entry option" where
  "find_entry es key = find (\<lambda>e. e_key e = key) es"

definition put_entry :: "mem_entry \<Rightarrow> mem_entry list \<Rightarrow> mem_entry list" where
  "put_entry e es = map (\<lambda>x. if e_key x = e_key e then e else x) es"

definition mem_too_long :: "cfg_type \<Rightarrow> u8 list \<Rightarrow> nat \<Rightarrow> esp_err" where
  "mem_too_long ty buf len =
     (case ty of
        ESPOS_CFG_TYPE_STRING \<Rightarrow> if 4000 < length (payload ty buf len) then ESP_ERR_INVALID_SIZE else ESP_OK
      | ESPOS_CFG_TYPE_BLOB \<Rightarrow> if 508000 < len then ESP_ERR_INVALID_SIZE else ESP_OK
      | _ \<Rightarrow> if scalar_size ty = 0 then ESP_ERR_INVALID_ARG else ESP_OK)"

text \<open>A new entry is linked before its data are allocated: it has neither type nor data until then.\<close>

definition raw_set :: "nat \<Rightarrow> string \<Rightarrow> cfg_type \<Rightarrow> u8 list \<Rightarrow> nat \<Rightarrow> mem \<Rightarrow> esp_err \<times> mem" where
  "raw_set h key ty buf len m =
     (if 15 < length key then (ESP_ERR_INVALID_ARG, m)
      else if mem_too_long ty buf len \<noteq> ESP_OK then (mem_too_long ty buf len, m)
      else
        (let (ok, m) =
           (if find_entry (entries m h) key \<noteq> None then (True, m)
            else (case mem_alloc m of
                    (False, m) \<Rightarrow> (False, m)
                  | (True, m) \<Rightarrow> (True, with_entries h (\<lparr>e_key = key, e_type = CFG_TYPE_UNKNOWN 0, e_data = []\<rparr> # entries m h) m)))
         in if \<not> ok then (ESP_ERR_NO_MEM, m)
            else
              (case mem_alloc m of
                 (False, m) \<Rightarrow> (ESP_ERR_NO_MEM, m)
               | (True, m) \<Rightarrow>
                   (ESP_OK, with_entries h (put_entry \<lparr>e_key = key, e_type = ty, e_data = payload ty buf len\<rparr> (entries m h)) m))))"

definition espos_config_mem_plant :: "string \<Rightarrow> string \<Rightarrow> cfg_type \<Rightarrow> u8 list \<Rightarrow> nat \<Rightarrow> mem \<Rightarrow> esp_err \<times> mem" where
  "espos_config_mem_plant ns key ty buf len m =
     (case mem_find_ns ns True m of
        (None, m) \<Rightarrow> (ESP_ERR_NO_MEM, m)
      | (Some h, m) \<Rightarrow> raw_set h key ty buf len m)"

definition espos_config_mem_key_count :: "string \<Rightarrow> mem \<Rightarrow> nat" where
  "espos_config_mem_key_count ns m = (case fst (mem_find_ns ns False m) of None \<Rightarrow> 0 | Some h \<Rightarrow> length (entries m h))"

definition espos_config_mem_has_key :: "string \<Rightarrow> string \<Rightarrow> mem \<Rightarrow> bool" where
  "espos_config_mem_has_key ns key m =
     (case fst (mem_find_ns ns False m) of None \<Rightarrow> False | Some h \<Rightarrow> find_entry (entries m h) key \<noteq> None)"

definition mem_init :: "mem \<Rightarrow> esp_err \<times> bool \<times> mem" where
  "mem_init m = (ESP_OK, False, m\<lparr>m_inited := True\<rparr>)"

definition mem_open :: "string \<Rightarrow> mem \<Rightarrow> esp_err \<times> nat option \<times> mem" where
  "mem_open ns m =
     (if \<not> m_inited m then (ESP_ERR_INVALID_STATE, None, m)
      else (case mem_find_ns ns True m of
              (None, m) \<Rightarrow> (ESP_ERR_NO_MEM, None, m)
            | (Some h, m) \<Rightarrow> (ESP_OK, Some h, m)))"

definition mem_close :: "nat \<Rightarrow> mem \<Rightarrow> mem" where
  "mem_close h m = m"

definition mem_get :: "nat \<Rightarrow> string \<Rightarrow> cfg_type \<Rightarrow> bool \<Rightarrow> nat \<Rightarrow> mem \<Rightarrow> esp_err \<times> u8 list \<times> nat" where
  "mem_get h key ty buf len m =
     (case find_entry (entries m h) key of
        None \<Rightarrow> (ESP_ERR_NOT_FOUND, [], len)
      | Some e \<Rightarrow>
          if e_type e \<noteq> ty then (ESP_ERR_INVALID_STATE, [], len)
          else if ty = ESPOS_CFG_TYPE_STRING \<or> ty = ESPOS_CFG_TYPE_BLOB then
            (if \<not> buf then (ESP_OK, [], length (e_data e))
             else if len < length (e_data e) then (ESP_ERR_INVALID_SIZE, [], length (e_data e))
             else (ESP_OK, e_data e, length (e_data e)))
          else if len < length (e_data e) then (ESP_ERR_INVALID_SIZE, [], len)
          else (ESP_OK, e_data e, length (e_data e)))"

definition mem_set :: "nat \<Rightarrow> string \<Rightarrow> cfg_type \<Rightarrow> u8 list \<Rightarrow> nat \<Rightarrow> mem \<Rightarrow> esp_err \<times> mem" where
  "mem_set h key ty buf len m =
     (if m_write_fault m \<noteq> ESP_OK then (m_write_fault m, m) else raw_set h key ty buf len m)"

definition mem_erase_key :: "nat \<Rightarrow> string \<Rightarrow> mem \<Rightarrow> esp_err \<times> mem" where
  "mem_erase_key h key m =
     (if m_write_fault m \<noteq> ESP_OK then (m_write_fault m, m)
      else if find_entry (entries m h) key \<noteq> None
      then (ESP_OK, with_entries h (remove1 (the (find_entry (entries m h) key)) (entries m h)) m)
      else (ESP_ERR_NOT_FOUND, m))"

definition mem_erase_all :: "nat \<Rightarrow> mem \<Rightarrow> esp_err \<times> mem" where
  "mem_erase_all h m =
     (if m_write_fault m \<noteq> ESP_OK then (m_write_fault m, m) else (ESP_OK, with_entries h [] m))"

definition mem_commit :: "nat \<Rightarrow> mem \<Rightarrow> esp_err \<times> mem" where
  "mem_commit h m = (m_write_fault m, m)"

definition mem_erase_storage :: "mem \<Rightarrow> esp_err \<times> mem" where
  "mem_erase_storage m = (ESP_OK, m\<lparr>m_namespaces := [], m_inited := False\<rparr>)"

definition espos_config_backend_mem :: "(mem, nat) backend" where
  "espos_config_backend_mem =
     \<lparr>be_init = mem_init, be_open = mem_open, be_close = mem_close, be_get = mem_get, be_set = mem_set,
      be_erase_key = mem_erase_key, be_erase_all = mem_erase_all, be_commit = mem_commit,
      be_erase_storage = mem_erase_storage\<rparr>"

subsection \<open>The in-memory backend meets the contract\<close>

text \<open>An injected fault is not the code by which an erase says that there was nothing to erase.\<close>

definition mem_ok :: "mem \<Rightarrow> bool" where
  "mem_ok m \<longleftrightarrow>
     m_write_fault m \<noteq> ESP_ERR_NOT_FOUND \<and>
     distinct (map mn_name (m_namespaces m)) \<and> distinct (map mn_addr (m_namespaces m)) \<and>
     (\<forall>n\<in>set (m_namespaces m). mn_addr n < m_next_addr m \<and> distinct (map e_key (mn_entries n)))"

definition entry_value :: "mem_entry option \<Rightarrow> (cfg_type \<times> u8 list) option" where
  "entry_value r = (case r of None \<Rightarrow> None | Some e \<Rightarrow> if known (e_type e) then Some (e_type e, e_data e) else None)"

definition mem_stored :: "mem \<Rightarrow> string \<Rightarrow> string \<Rightarrow> (cfg_type \<times> u8 list) option" where
  "mem_stored m ns key =
     (case find (\<lambda>n. mn_name n = ns) (m_namespaces m) of None \<Rightarrow> None | Some n \<Rightarrow> entry_value (find_entry (mn_entries n) key))"

definition mem_ns_of :: "mem \<Rightarrow> nat \<Rightarrow> string option" where
  "mem_ns_of m h = map_option mn_name (node m h)"

lemma entry_value_None [simp]: "entry_value None = None"
  by (simp add: entry_value_def)

text \<open>In a list without repetitions of \<open>f\<close>, an element is found by its \<open>f\<close>.\<close>

lemma find_key: "distinct (map f xs) \<Longrightarrow> x \<in> set xs \<Longrightarrow> find (\<lambda>y. f y = f x) xs = Some x"
  by (induction xs) (auto simp: image_iff)

lemma find_key_None: "find (\<lambda>y. f y = k) xs = None \<longleftrightarrow> k \<notin> f ` set xs"
  by (auto simp: find_None_iff)

lemma node_stored:
  assumes "mem_ok m" and "mem_ns_of m h = Some n"
  shows "mem_stored m n key = entry_value (find_entry (entries m h) key)"
proof -
  obtain x where x: "node m h = Some x" "mn_name x = n" using assms(2) by (auto simp: mem_ns_of_def)
  then have "x \<in> set (m_namespaces m)" by (auto simp: node_def find_Some_iff)
  with find_key [of mn_name "m_namespaces m" x] x assms(1) show ?thesis
    by (simp add: mem_stored_def mem_ok_def entries_def)
qed

lemma mem_alloc_frame:
  "mem_alloc m = (ok, m') \<Longrightarrow> mem_ok m' = mem_ok m \<and> mem_stored m' = mem_stored m \<and> mem_ns_of m' = mem_ns_of m \<and> entries m' = entries m \<and>
     m_namespaces m' = m_namespaces m \<and> m_next_addr m' = m_next_addr m"
  by (auto simp: mem_alloc_def mem_ok_def mem_stored_def mem_ns_of_def node_def entries_def fun_eq_iff split: list.splits)

text \<open>Replacing the entries of a node.\<close>

lemma find_map_same: "(\<And>x. P (f x) = P x) \<Longrightarrow> find P (map f xs) = map_option f (find P xs)"
  by (induction xs) auto

lemma with_entries_laws:
  assumes "mem_ok m" and "distinct (map e_key es)"
  shows "mem_ok (with_entries h es m)" and "mem_ns_of (with_entries h es m) = mem_ns_of m"
    and "mem_ns_of m h = Some n \<Longrightarrow> entries (with_entries h es m) h = es"
    and "mem_ns_of m h = Some n \<Longrightarrow>
      mem_stored (with_entries h es m) = (mem_stored m)(n := (\<lambda>key. entry_value (find_entry es key)))"
proof -
  let ?f = "\<lambda>n. if mn_addr n = h then n\<lparr>mn_entries := es\<rparr> else n"
  have f: "mn_name (?f x) = mn_name x" "mn_addr (?f x) = mn_addr x" for x by simp_all
  have names: "map mn_name (map ?f xs) = map mn_name xs" "map mn_addr (map ?f xs) = map mn_addr xs" for xs by (simp_all add: f)
  show ok: "mem_ok (with_entries h es m)"
    using assms unfolding mem_ok_def with_entries_def by (auto simp: names simp del: map_map)
  show ns: "mem_ns_of (with_entries h es m) = mem_ns_of m"
    by (rule ext) (simp add: mem_ns_of_def node_def with_entries_def find_map_same f option.map_comp comp_def)
  show entries: "entries (with_entries h es m) h = es" if live: "mem_ns_of m h = Some n" for n
  proof -
    obtain x where x: "find (\<lambda>n. mn_addr n = h) (m_namespaces m) = Some x" using live by (auto simp: mem_ns_of_def node_def)
    then have "mn_addr x = h" by (auto simp: find_Some_iff)
    with x show ?thesis by (simp add: entries_def node_def with_entries_def find_map_same f)
  qed
  show "mem_stored (with_entries h es m) = (mem_stored m)(n := (\<lambda>key. entry_value (find_entry es key)))" if h: "mem_ns_of m h = Some n"
  proof (intro ext)
    fix k key
    show "mem_stored (with_entries h es m) k key = ((mem_stored m)(n := (\<lambda>key. entry_value (find_entry es key)))) k key"
    proof (cases "k = n")
      case True
      have "mem_ns_of (with_entries h es m) h = Some n" using h ns by simp
      from node_stored [OF ok this] entries [OF h] True show ?thesis by simp
    next
      case False
      obtain x where x: "node m h = Some x" "mn_name x = n" using h by (auto simp: mem_ns_of_def)
      have "find (\<lambda>n. mn_name n = k) (map ?f (m_namespaces m)) = find (\<lambda>n. mn_name n = k) (m_namespaces m)"
        if "find (\<lambda>n. mn_name n = k) (m_namespaces m) = Some y" for y
      proof -
        from that have y: "y \<in> set (m_namespaces m)" "mn_name y = k" by (auto simp: find_Some_iff)
        have "mn_addr y \<noteq> h"
        proof
          assume "mn_addr y = h"
          with find_key [of mn_addr "m_namespaces m" y] y(1) assms(1) have "node m h = Some y" by (simp add: node_def mem_ok_def)
          with x y(2) False show False by simp
        qed
        with that show ?thesis by (simp add: find_map_same f)
      qed
      then show ?thesis using False
        by (cases "find (\<lambda>n. mn_name n = k) (m_namespaces m)")
          (auto simp: mem_stored_def with_entries_def find_map_same f)
    qed
  qed
qed

lemma find_entry_put: "find_entry (put_entry e es) key = (if key = e_key e \<and> find_entry es key \<noteq> None then Some e else find_entry es key)"
  by (induction es) (auto simp: find_entry_def put_entry_def)

lemma keys_put [simp]: "map e_key (put_entry e es) = map e_key es"
  by (simp add: put_entry_def comp_def cong: if_cong)

lemma find_entry_remove:
  assumes "distinct (map e_key es)" and "find_entry es k = Some e"
  shows "find_entry (remove1 e es) key = (if key = k then None else find_entry es key)"
proof -
  have "e_key e = k" "e \<in> set es" using assms(2) by (auto simp: find_entry_def find_Some_iff)
  with assms(1) show ?thesis
    by (induction es) (auto simp: find_entry_def find_None_iff image_iff)
qed

lemma distinct_remove_entry: "distinct (map f xs) \<Longrightarrow> distinct (map f (remove1 x xs))"
  by (induction xs) (auto dest: set_remove1_subset [THEN subsetD])

lemma mem_entries_distinct: "mem_ok m \<Longrightarrow> distinct (map e_key (entries m h))"
  by (auto simp: entries_def node_def mem_ok_def find_Some_iff split: option.splits)

text \<open>Linking an entry without data does not change what is stored.\<close>

lemma find_entry_blank:
  "entry_value (find_entry (\<lparr>e_key = k, e_type = CFG_TYPE_UNKNOWN i, e_data = d\<rparr> # es) key) =
     (if key = k then None else entry_value (find_entry es key))"
  by (simp add: find_entry_def entry_value_def)

lemma raw_set_laws:
  assumes "mem_ok m" and "raw_set h key ty buf len m = (err, m')"
  shows "mem_ok m' \<and> mem_ns_of m' = mem_ns_of m \<and>
     (mem_ns_of m h = Some n \<longrightarrow>
        mem_stored m' = (if err = ESP_OK then (mem_stored m)(n := (mem_stored m n)(key \<mapsto> (ty, payload ty buf len))) else mem_stored m))"
proof -
  define m1 where "m1 =
    (if find_entry (entries m h) key \<noteq> None then (True, m)
     else (case mem_alloc m of
             (False, m) \<Rightarrow> (False, m)
           | (True, m) \<Rightarrow> (True, with_entries h (\<lparr>e_key = key, e_type = CFG_TYPE_UNKNOWN 0, e_data = []\<rparr> # entries m h) m)))"
  have d: "distinct (map e_key (entries m h))" by (rule mem_entries_distinct [OF assms(1)])
  have m1: "mem_ok (snd m1) \<and> mem_ns_of (snd m1) = mem_ns_of m \<and> (mem_ns_of m h = Some n \<longrightarrow> mem_stored (snd m1) = mem_stored m) \<and>
      (mem_ns_of m h = Some n \<and> fst m1 \<longrightarrow> find_entry (entries (snd m1) h) key \<noteq> None)"
  proof (cases "find_entry (entries m h) key")
    case None
    obtain ok m0 where a: "mem_alloc m = (ok, m0)" by force
    let ?es = "\<lparr>e_key = key, e_type = CFG_TYPE_UNKNOWN 0, e_data = []\<rparr> # entries m h"
    note F = mem_alloc_frame [OF a]
    have dd: "distinct (map e_key ?es)" using d None by (auto simp: find_entry_def find_None_iff)
    have ok0: "mem_ok m0" using F assms(1) by simp
    note W = with_entries_laws [OF ok0 dd, of h]
    have "mem_stored (with_entries h ?es m0) = mem_stored m" if "mem_ns_of m h = Some n"
    proof -
      have "mem_ns_of m0 h = Some n" using F that by simp
      moreover have "(\<lambda>k. entry_value (find_entry ?es k)) = mem_stored m n"
        using node_stored [OF assms(1) that] None by (auto simp: fun_eq_iff find_entry_blank)
      ultimately show ?thesis using W(4) [of n] F by simp
    qed
    then show ?thesis using F W assms(1) None a
      by (cases ok) (auto simp: m1_def find_entry_def)
  qed (simp add: m1_def assms(1))
  show ?thesis
  proof (cases "15 < length key \<or> mem_too_long ty buf len \<noteq> ESP_OK \<or> \<not> fst m1")
    case True
    then show ?thesis using assms m1 unfolding raw_set_def m1_def [symmetric] by (auto simp: Let_def split: if_splits prod.splits)
  next
    case False
    then have known: "known ty" by (cases ty) (auto simp: mem_too_long_def scalar_size_def)
    obtain ok m2 where a: "mem_alloc (snd m1) = (ok, m2)" by force
    note F = mem_alloc_frame [OF a]
    let ?e = "\<lparr>e_key = key, e_type = ty, e_data = payload ty buf len\<rparr>"
    let ?es = "put_entry ?e (entries m2 h)"
    have ok2: "mem_ok m2" using F m1 by simp
    have "distinct (map e_key ?es)" using mem_entries_distinct [OF ok2] by simp
    note W = with_entries_laws [OF ok2 this, of h]
    have st: "mem_stored (with_entries h ?es m2) = (mem_stored m)(n := (mem_stored m n)(key \<mapsto> (ty, payload ty buf len)))"
      if h: "mem_ns_of m h = Some n"
    proof -
      have h2: "mem_ns_of m2 h = Some n" using F m1 h by simp
      have "entry_value (find_entry ?es k) = ((mem_stored m n)(key \<mapsto> (ty, payload ty buf len))) k" for k
        using node_stored [OF ok2 h2, of k] F m1 h False known by (auto simp: find_entry_put entry_value_def)
      then show ?thesis using W(4) [OF h2] F m1 h by (simp add: fun_eq_iff)
    qed
    show ?thesis using assms(2) False F W m1 st ok2 a unfolding raw_set_def m1_def [symmetric]
      by (cases ok) (auto simp: Let_def split: if_splits prod.splits)
  qed
qed

lemma mem_find_ns_laws:
  assumes "mem_ok m" and "mem_find_ns ns True m = (r, m')"
  shows "mem_ok m'" and "mem_stored m' = mem_stored m" and "mem_ns_of m h = Some n \<Longrightarrow> mem_ns_of m' h = Some n"
    and "r = Some a \<Longrightarrow> mem_ns_of m' a = Some ns"
proof -
  have "mem_ok m' \<and> mem_stored m' = mem_stored m \<and> (\<forall>h n. mem_ns_of m h = Some n \<longrightarrow> mem_ns_of m' h = Some n) \<and>
      (\<forall>a. r = Some a \<longrightarrow> mem_ns_of m' a = Some ns)"
  proof (cases "find (\<lambda>n. mn_name n = ns) (m_namespaces m)")
    case (Some x)
    then have "x \<in> set (m_namespaces m)" "mn_name x = ns" by (auto simp: find_Some_iff)
    with find_key [of mn_addr "m_namespaces m" x] assms Some show ?thesis
      by (auto simp: mem_find_ns_def mem_ns_of_def node_def mem_ok_def)
  next
    case None
    obtain ok m1 where a: "mem_alloc m = (ok, m1)" by force
    note F = mem_alloc_frame [OF a]
    have fresh: "mn_addr x \<noteq> m_next_addr m" if "x \<in> set (m_namespaces m)" for x using assms(1) that by (auto simp: mem_ok_def)
    let ?x = "\<lparr>mn_addr = m_next_addr m1, mn_name = ns, mn_entries = []\<rparr>"
    let ?m = "m1\<lparr>m_namespaces := ?x # m_namespaces m1, m_next_addr := Suc (m_next_addr m1)\<rparr>"
    have "mem_ok ?m" using assms(1) None F by (auto simp: mem_ok_def find_None_iff intro: less_SucI)
    moreover have "mem_stored ?m = mem_stored m"
      using None F by (auto simp: mem_stored_def fun_eq_iff find_entry_def)
    moreover have "mem_ns_of ?m h = Some n" if live: "mem_ns_of m h = Some n" for h n
    proof -
      obtain x where x: "find (\<lambda>n. mn_addr n = h) (m_namespaces m) = Some x" "mn_name x = n"
        using live by (auto simp: mem_ns_of_def node_def)
      then have "x \<in> set (m_namespaces m)" "mn_addr x = h" by (auto simp: find_Some_iff)
      with fresh [of x] have "h \<noteq> m_next_addr m" by simp
      with x F show ?thesis by (auto simp: mem_ns_of_def node_def)
    qed
    ultimately show ?thesis using assms None F a
      by (cases ok) (auto simp: mem_find_ns_def mem_ns_of_def node_def split: if_splits)
  qed
  then show "mem_ok m'" "mem_stored m' = mem_stored m" "mem_ns_of m h = Some n \<Longrightarrow> mem_ns_of m' h = Some n"
    "r = Some a \<Longrightarrow> mem_ns_of m' a = Some ns" by auto
qed

lemma mem_erase_laws:
  assumes "mem_ok m" and "mem_erase_key h key m = (err, m')"
  shows "mem_ok m' \<and> mem_ns_of m' = mem_ns_of m \<and>
    (mem_ns_of m h = Some n \<longrightarrow>
       mem_stored m' = (if err \<in> {ESP_OK, ESP_ERR_NOT_FOUND} then (mem_stored m)(n := (mem_stored m n)(key := None)) else mem_stored m))"
proof (cases "m_write_fault m = ESP_OK")
  case True
  have d: "distinct (map e_key (entries m h))" by (rule mem_entries_distinct [OF assms(1)])
  show ?thesis
  proof (cases "find_entry (entries m h) key")
    case None
    have "(mem_stored m)(n := (mem_stored m n)(key := None)) = mem_stored m" if "mem_ns_of m h = Some n"
      using node_stored [OF assms(1) that, of key] None by (simp add: fun_upd_idem)
    moreover have "err = ESP_ERR_NOT_FOUND" "m' = m" using assms(2) None True by (simp_all add: mem_erase_key_def)
    ultimately show ?thesis using assms(1) by simp
  next
    case (Some e)
    let ?es = "remove1 e (entries m h)"
    have "distinct (map e_key ?es)" by (rule distinct_remove_entry [OF d])
    note W = with_entries_laws [OF assms(1) this, of h]
    have "mem_stored (with_entries h ?es m) = (mem_stored m)(n := (mem_stored m n)(key := None))" if h: "mem_ns_of m h = Some n"
    proof -
      have "(\<lambda>k. entry_value (find_entry ?es k)) = (mem_stored m n)(key := None)"
        using node_stored [OF assms(1) h] find_entry_remove [OF d Some] by (auto simp: fun_eq_iff)
      with W(4) [OF h] show ?thesis by simp
    qed
    moreover have "err = ESP_OK" "m' = with_entries h ?es m" using assms(2) Some True by (simp_all add: mem_erase_key_def)
    ultimately show ?thesis using W(1,2) by simp
  qed
next
  case False
  with assms show ?thesis by (auto simp: mem_erase_key_def mem_ok_def)
qed

interpretation mem: config_backend espos_config_backend_mem mem_ok mem_stored mem_ns_of
proof
  fix b b' :: mem and err reset assume "mem_ok b" "be_init espos_config_backend_mem b = (err, reset, b')"
  then show "mem_ok b' \<and> mem_stored b' = (if reset then (\<lambda>_ _. None) else mem_stored b)"
    by (auto simp: espos_config_backend_mem_def mem_init_def mem_ok_def mem_stored_def fun_eq_iff)
next
  fix b b' :: mem and ns err r h n assume "mem_ok b" "be_open espos_config_backend_mem ns b = (err, r, b')"
  then show "mem_ok b' \<and> mem_stored b' = mem_stored b \<and> (mem_ns_of b h = Some n \<longrightarrow> mem_ns_of b' h = Some n) \<and>
      (if err = ESP_OK then r \<noteq> None \<and> mem_ns_of b' (the r) = Some ns else r = None)"
    using mem_find_ns_laws [of b ns] by (auto simp: espos_config_backend_mem_def mem_open_def split: if_splits prod.splits option.splits)
next
  fix b :: mem and h h' n assume "mem_ok b"
  then show "mem_ok (be_close espos_config_backend_mem h b) \<and> mem_stored (be_close espos_config_backend_mem h b) = mem_stored b \<and>
      (mem_ns_of b h' = Some n \<and> h' \<noteq> h \<longrightarrow> mem_ns_of (be_close espos_config_backend_mem h b) h' = Some n)"
    by (simp add: espos_config_backend_mem_def mem_close_def)
next
  fix b :: mem and h n ty key len assume "mem_ok b" "mem_ns_of b h = Some n" "known ty"
  then show "case mem_stored b n key of
         Some (t, d) \<Rightarrow> if t = ty \<and> length d \<le> len then be_get espos_config_backend_mem h key ty True len b = (ESP_OK, d, length d)
           else fst (be_get espos_config_backend_mem h key ty True len b) \<notin> {ESP_OK, ESP_ERR_NOT_FOUND}
       | None \<Rightarrow> fst (be_get espos_config_backend_mem h key ty True len b) \<noteq> ESP_OK"
    by (auto simp: espos_config_backend_mem_def mem_get_def node_stored entry_value_def split: option.splits)
next
  fix b b' :: mem and h key ty buf len err n assume "mem_ok b" "be_set espos_config_backend_mem h key ty buf len b = (err, b')"
  then show "mem_ok b' \<and> mem_ns_of b' = mem_ns_of b \<and>
      (mem_ns_of b h = Some n \<longrightarrow>
        mem_stored b' = (if err = ESP_OK then (mem_stored b)(n := (mem_stored b n)(key \<mapsto> (ty, payload ty buf len))) else mem_stored b))"
    using raw_set_laws [of b h key ty buf len err b' n] by (auto simp: espos_config_backend_mem_def mem_set_def split: if_splits)
next
  fix b b' :: mem and h key err n assume "mem_ok b" "be_erase_key espos_config_backend_mem h key b = (err, b')"
  then show "mem_ok b' \<and> mem_ns_of b' = mem_ns_of b \<and>
      (mem_ns_of b h = Some n \<longrightarrow>
        mem_stored b' = (if err \<in> {ESP_OK, ESP_ERR_NOT_FOUND} then (mem_stored b)(n := (mem_stored b n)(key := None)) else mem_stored b))"
    using mem_erase_laws [of b h key err b' n] by (simp add: espos_config_backend_mem_def)
next
  fix b b' :: mem and h err assume "mem_ok b" "be_commit espos_config_backend_mem h b = (err, b')"
  then show "mem_ok b' \<and> mem_stored b' = mem_stored b \<and> mem_ns_of b' = mem_ns_of b"
    by (auto simp: espos_config_backend_mem_def mem_commit_def)
next
  fix b b' :: mem and err n key assume "mem_ok b" "be_erase_storage espos_config_backend_mem b = (err, b')"
  then show "mem_ok b' \<and> (err = ESP_OK \<longrightarrow> mem_stored b' n key = None)"
    by (auto simp: espos_config_backend_mem_def mem_erase_storage_def mem_ok_def mem_stored_def)
qed

end
