(* ===== verification/Cfg_Store.thy ===== *)
theory Cfg_Store
  imports Cfg_Backend
begin

text \<open>
  The configuration store, src/components/espos_config/src/espos_config.c: the tables of built-in
  and registered namespaces, typed and validated access, versions and migrations, factory reset,
  the batch plan and the change notification.

  The static struct \<open>s\<close> of the source is a record; the generated table
  \<open>espos_cfg_namespaces\<close> is its field \<open>c_tab\<close>, which never changes, and the backend is an argument.
  A descriptor is known by its address: its index for a built-in one, a number for a registered
  one. The mutex is not modelled beyond its creation: every operation is one step. A subscriber is a
  number, and its calls are recorded. A migration is a program over the raw accessors, so that what
  it does next may depend on what it read. The outcomes of the next allocations are a list,
  success when it is exhausted. The text of an alarm is the constructor that names its cause.
\<close>

definition CONFIG_ESPOS_CONFIG_MAX_MIGRATIONS :: nat where
  "CONFIG_ESPOS_CONFIG_MAX_MIGRATIONS = 16"

definition CONFIG_ESPOS_CONFIG_MAX_SUBSCRIBERS :: nat where
  "CONFIG_ESPOS_CONFIG_MAX_SUBSCRIBERS = 8"

definition CONFIG_ESPOS_CONFIG_MAX_RUNTIME_NS :: nat where
  "CONFIG_ESPOS_CONFIG_MAX_RUNTIME_NS = 32"

datatype migrate =
    Return esp_err
  | Migrate_Get string cfg_type bool nat "esp_err \<times> u8 list \<times> nat \<Rightarrow> migrate"
  | Migrate_Set string cfg_type "u8 list" nat "esp_err \<Rightarrow> migrate"
  | Migrate_Erase string "esp_err \<Rightarrow> migrate"

record migration =
  mg_ns :: string
  mg_from :: u16
  mg_fn :: "u16 \<Rightarrow> migrate"

datatype flow_alarm =
    Bad_Namespace_Name
  | No_Keys
  | Bad_Key_Name nat
  | Reserved_Key string
  | Unknown_Key_Type string
  | No_Max_Len string
  | No_Default string
  | Duplicate_Key string
  | Is_Built_In
  | Already_Registered
  | No_Slot
  | Cannot_Open esp_err

record 'h rt_slot =
  rt_desc :: "(nat \<times> cfg_ns) option"
  rt_h :: "'h option"

record ('b, 'h) cfg =
  c_be_ctx :: 'b
  c_tab :: "cfg_ns list"
  c_ns :: "'h option list"
  c_lock :: bool
  c_inited :: bool
  c_storage_reset :: bool
  c_migrations :: "migration list"
  c_subs :: "(nat \<times> nat) option list"
  c_rt :: "'h rt_slot list"
  c_generation :: u32
  c_heap :: "bool list"
  c_calls :: "(nat \<times> nat \<times> string option \<times> string option) list"
  c_alarms :: "(string option \<times> flow_alarm) list"

definition cfg_alloc :: "('b, 'h) cfg \<Rightarrow> bool \<times> ('b, 'h) cfg" where
  "cfg_alloc c = (case c_heap c of [] \<Rightarrow> (True, c) | ok # hs \<Rightarrow> (ok, c\<lparr>c_heap := hs\<rparr>))"

definition no_slot :: "'h rt_slot" where
  "no_slot = \<lparr>rt_desc = None, rt_h = None\<rparr>"

text \<open>The state before the first call.\<close>

definition cfg_zero :: "cfg_ns list \<Rightarrow> bool list \<Rightarrow> 'b \<Rightarrow> ('b, 'h) cfg" where
  "cfg_zero tab heap b =
     \<lparr>c_be_ctx = b, c_tab = tab, c_ns = [], c_lock = False, c_inited = False, c_storage_reset = False, c_migrations = [],
      c_subs = replicate CONFIG_ESPOS_CONFIG_MAX_SUBSCRIBERS None, c_rt = replicate CONFIG_ESPOS_CONFIG_MAX_RUNTIME_NS no_slot,
      c_generation = 0, c_heap = heap, c_calls = [], c_alarms = []\<rparr>"

subsection \<open>The tables\<close>

datatype ns_ptr = Static nat | Runtime nat

datatype slot = Ns nat | Rt nat

definition ensure_lock :: "('b, 'h) cfg \<Rightarrow> esp_err \<times> ('b, 'h) cfg" where
  "ensure_lock c =
     (if c_lock c then (ESP_OK, c)
      else (case cfg_alloc c of (ok, c) \<Rightarrow> if ok then (ESP_OK, c\<lparr>c_lock := True\<rparr>) else (ESP_ERR_NO_MEM, c)))"

definition find_runtime_ns :: "string option \<Rightarrow> ('b, 'h) cfg \<Rightarrow> (nat \<times> cfg_ns) option" where
  "find_runtime_ns ns c = find (\<lambda>(a, nd). n_name nd = ns) (map the (filter (\<lambda>d. d \<noteq> None) (map rt_desc (c_rt c))))"

definition espos_config_find_ns :: "string option \<Rightarrow> ('b, 'h) cfg \<Rightarrow> (ns_ptr \<times> cfg_ns) option" where
  "espos_config_find_ns ns c =
     (if ns = None then None
      else
        (case find (\<lambda>i. n_name (c_tab c ! i) = ns) [0..<length (c_tab c)] of
           Some i \<Rightarrow> Some (Static i, c_tab c ! i)
         | None \<Rightarrow> map_option (\<lambda>(a, nd). (Runtime a, nd)) (find_runtime_ns ns c)))"

definition ns_at :: "nat \<Rightarrow> ('b, 'h) cfg \<Rightarrow> (ns_ptr \<times> cfg_ns) option" where
  "ns_at i c =
     (if i < length (c_tab c) then Some (Static i, c_tab c ! i)
      else
        (let want = i - length (c_tab c); rts = map the (filter (\<lambda>d. d \<noteq> None) (map rt_desc (c_rt c)))
         in if want < length rts then Some (case rts ! want of (a, nd) \<Rightarrow> (Runtime a, nd)) else None))"

definition espos_config_runtime_ns_count :: "('b, 'h) cfg \<Rightarrow> nat" where
  "espos_config_runtime_ns_count c = length (filter (\<lambda>r. rt_desc r \<noteq> None) (c_rt c))"

definition espos_config_ns_total_locked :: "('b, 'h) cfg \<Rightarrow> nat" where
  "espos_config_ns_total_locked c = length (c_tab c) + espos_config_runtime_ns_count c"

definition ns_state_for :: "ns_ptr \<Rightarrow> ('b, 'h) cfg \<Rightarrow> slot option" where
  "ns_state_for p c =
     (case p of
        Static i \<Rightarrow> if i < length (c_tab c) then Some (Ns i) else None
      | Runtime a \<Rightarrow> map_option Rt (find (\<lambda>i. map_option fst (rt_desc (c_rt c ! i)) = Some a) [0..<length (c_rt c)]))"

definition slot_h :: "slot \<Rightarrow> ('b, 'h) cfg \<Rightarrow> 'h option" where
  "slot_h st c = (case st of Ns i \<Rightarrow> if i < length (c_ns c) then c_ns c ! i else None | Rt i \<Rightarrow> rt_h (c_rt c ! i))"

definition slot_desc :: "slot \<Rightarrow> ('b, 'h) cfg \<Rightarrow> cfg_ns" where
  "slot_desc st c = (case st of Ns i \<Rightarrow> c_tab c ! i | Rt i \<Rightarrow> snd (the (rt_desc (c_rt c ! i))))"

definition lookup :: "string option \<Rightarrow> string option \<Rightarrow> ('b, 'h) cfg \<Rightarrow> (slot \<times> ns_ptr \<times> cfg_ns \<times> cfg_key) option" where
  "lookup ns key c =
     (case espos_config_find_ns ns c of
        None \<Rightarrow> None
      | Some (p, nd) \<Rightarrow>
          (case espos_config_find_key nd key of
             None \<Rightarrow> None
           | Some k \<Rightarrow> (case ns_state_for p c of None \<Rightarrow> None | Some st \<Rightarrow> Some (st, p, nd, k))))"

subsection \<open>Raw storage\<close>

text \<open>The value that the bytes of a successful get stand for, when it is acceptable.\<close>

definition decode_value :: "cfg_key \<Rightarrow> u8 list \<Rightarrow> cfg_value option" where
  "decode_value key d =
     (case k_type key of
        ESPOS_CFG_TYPE_BOOL \<Rightarrow>
          (let u = (case d of [] \<Rightarrow> 0 | x # _ \<Rightarrow> x) in if u \<le> 1 then Some (V_Bool (u \<noteq> 0)) else None)
      | ESPOS_CFG_TYPE_INT \<Rightarrow>
          (let i = bytes_word d
           in if sint (sc_i (k_min key)) \<le> sint i \<and> sint i \<le> sint (sc_i (k_max key)) then Some (V_Int i) else None)
      | ESPOS_CFG_TYPE_FLOAT \<Rightarrow>
          (let f = bytes_word d in if espos_config_validate key (V_Float f) then Some (V_Float f) else None)
      | ESPOS_CFG_TYPE_STRING \<Rightarrow>
          (let s = bytes_cstr (take (k_max_len key) d)
           in if espos_config_validate key (V_String (Some s)) then Some (V_String (Some s)) else None)
      | ESPOS_CFG_TYPE_BLOB \<Rightarrow> if length d \<le> k_max_len key then Some (V_Blob (Blob d)) else None
      | CFG_TYPE_UNKNOWN _ \<Rightarrow> None)"

text \<open>The value a key has when nothing acceptable is stored: a string default is cut at \<open>max_len\<close>.\<close>

definition fallback_value :: "cfg_key \<Rightarrow> cfg_value" where
  "fallback_value key =
     (case k_type key of
        ESPOS_CFG_TYPE_BOOL \<Rightarrow> V_Bool (sc_b (k_def key))
      | ESPOS_CFG_TYPE_INT \<Rightarrow> V_Int (sc_i (k_def key))
      | ESPOS_CFG_TYPE_FLOAT \<Rightarrow> V_Float (sc_f (k_def key))
      | ESPOS_CFG_TYPE_STRING \<Rightarrow> V_String (Some (take (k_max_len key) (case sc_s (k_def key) of None \<Rightarrow> [] | Some s \<Rightarrow> s)))
      | _ \<Rightarrow> V_Blob (Blob []))"

definition get_size :: "cfg_key \<Rightarrow> nat" where
  "get_size key =
     (case k_type key of
        ESPOS_CFG_TYPE_STRING \<Rightarrow> k_max_len key + 1
      | ESPOS_CFG_TYPE_BLOB \<Rightarrow> k_max_len key
      | t \<Rightarrow> scalar_size t)"

definition espos_config_read_effective ::
  "('b, 'h) backend \<Rightarrow> ns_ptr \<Rightarrow> cfg_key \<Rightarrow> ('b, 'h) cfg \<Rightarrow> esp_err \<times> cfg_value \<times> bool" where
  "espos_config_read_effective be p key c =
     (case ns_state_for p c of
        None \<Rightarrow> (ESP_ERR_INVALID_STATE, fallback_value key, False)
      | Some st \<Rightarrow>
          (case slot_h st c of
             None \<Rightarrow> (ESP_ERR_INVALID_STATE, fallback_value key, False)
           | Some h \<Rightarrow>
               if \<not> known (k_type key) then (ESP_ERR_INVALID_STATE, fallback_value key, False)
               else
                 (case be_get be h (the (k_name key)) (k_type key) True (get_size key) (c_be_ctx c) of
                    (err, d, len) \<Rightarrow>
                      (case if err = ESP_OK then decode_value key d else None of
                         Some v \<Rightarrow> (ESP_OK, v, True)
                       | None \<Rightarrow> (ESP_OK, fallback_value key, False)))))"

fun same_value :: "cfg_value \<Rightarrow> cfg_value \<Rightarrow> bool" where
  "same_value (V_Bool a) (V_Bool b) = (a = b)"
| "same_value (V_Int a) (V_Int b) = (a = b)"
| "same_value (V_Float a) (V_Float b) = f_eq a b"
| "same_value (V_String a) (V_String b) = (a = b)"
| "same_value (V_Blob a) (V_Blob b) = (blob_len a = blob_len b \<and> (blob_len b = 0 \<or> a = b))"
| "same_value _ _ = False"

definition value_equals_effective ::
  "('b, 'h) backend \<Rightarrow> ns_ptr \<Rightarrow> cfg_key \<Rightarrow> cfg_value \<Rightarrow> ('b, 'h) cfg \<Rightarrow> esp_err \<times> bool \<times> ('b, 'h) cfg" where
  "value_equals_effective be p key val c =
     (let (ok, c) = (if k_type key = ESPOS_CFG_TYPE_STRING \<or> k_type key = ESPOS_CFG_TYPE_BLOB then cfg_alloc c else (True, c))
      in if \<not> ok then (ESP_ERR_NO_MEM, False, c)
         else
           (case espos_config_read_effective be p key c of
              (err, cur, is_set) \<Rightarrow> (err, err = ESP_OK \<and> same_value cur val, c)))"

text \<open>The buffer a value is written from.\<close>

fun value_bytes :: "cfg_value \<Rightarrow> u8 list" where
  "value_bytes (V_Bool b) = [if b then 1 else 0]"
| "value_bytes (V_Int i) = word_bytes i"
| "value_bytes (V_Float f) = word_bytes f"
| "value_bytes (V_String s) = cstr_bytes (case s of None \<Rightarrow> [] | Some s \<Rightarrow> s)"
| "value_bytes (V_Blob (Blob bs)) = bs"
| "value_bytes (V_Blob (Null_Blob n)) = []"

definition store_value ::
  "('b, 'h) backend \<Rightarrow> 'h \<Rightarrow> cfg_key \<Rightarrow> cfg_value \<Rightarrow> ('b, 'h) cfg \<Rightarrow> esp_err \<times> ('b, 'h) cfg" where
  "store_value be h key val c =
     (case val of
        V_Blob bl \<Rightarrow>
          if blob_len bl = 0 then
            (case be_erase_key be h (the (k_name key)) (c_be_ctx c) of
               (err, b) \<Rightarrow> (if err = ESP_ERR_NOT_FOUND then ESP_OK else err, c\<lparr>c_be_ctx := b\<rparr>))
          else
            (case be_set be h (the (k_name key)) (k_type key) (value_bytes val) (blob_len bl) (c_be_ctx c) of
               (err, b) \<Rightarrow> (err, c\<lparr>c_be_ctx := b\<rparr>))
      | _ \<Rightarrow>
          (case be_set be h (the (k_name key)) (k_type key) (value_bytes val) (length (value_bytes val)) (c_be_ctx c) of
             (err, b) \<Rightarrow> (err, c\<lparr>c_be_ctx := b\<rparr>)))"

definition commit :: "('b, 'h) backend \<Rightarrow> 'h \<Rightarrow> ('b, 'h) cfg \<Rightarrow> esp_err \<times> ('b, 'h) cfg" where
  "commit be h c = (case be_commit be h (c_be_ctx c) of (err, b) \<Rightarrow> (err, c\<lparr>c_be_ctx := b\<rparr>))"

definition write_locked ::
  "('b, 'h) backend \<Rightarrow> slot \<Rightarrow> ns_ptr \<Rightarrow> cfg_key \<Rightarrow> cfg_value \<Rightarrow> ('b, 'h) cfg \<Rightarrow> esp_err \<times> bool \<times> ('b, 'h) cfg" where
  "write_locked be st p key val c =
     (case value_equals_effective be p key val c of
        (err, eq, c) \<Rightarrow>
          if err \<noteq> ESP_OK then (err, False, c)
          else
            (let h = the (slot_h st c)
             in case store_value be h key val c of
                  (err, c) \<Rightarrow>
                    if err \<noteq> ESP_OK then (err, False, c)
                    else (case commit be h c of (err, c) \<Rightarrow> (err, err = ESP_OK \<and> \<not> eq, c))))"

definition reset_locked ::
  "('b, 'h) backend \<Rightarrow> slot \<Rightarrow> ns_ptr \<Rightarrow> cfg_key \<Rightarrow> ('b, 'h) cfg \<Rightarrow> esp_err \<times> bool \<times> ('b, 'h) cfg" where
  "reset_locked be st p key c =
     (case value_equals_effective be p key (default_value key) c of
        (err, eq, c) \<Rightarrow>
          if err \<noteq> ESP_OK then (err, False, c)
          else
            (let h = the (slot_h st c)
             in case be_erase_key be h (the (k_name key)) (c_be_ctx c) of
                  (err, b) \<Rightarrow>
                    (let c = c\<lparr>c_be_ctx := b\<rparr>;
                         err = (if err = ESP_ERR_NOT_FOUND then ESP_OK else err);
                         (err, c) = (if err = ESP_OK then commit be h c else (err, c))
                     in (err, err = ESP_OK \<and> \<not> eq, c))))"

subsection \<open>Subscribers\<close>

definition cfg_notify :: "cfg_ns \<Rightarrow> cfg_key \<Rightarrow> ('b, 'h) cfg \<Rightarrow> ('b, 'h) cfg" where
  "cfg_notify nd key c =
     c\<lparr>c_calls := c_calls c @ map (\<lambda>s. (fst (the s), snd (the s), n_name nd, k_name key)) (filter (\<lambda>s. s \<noteq> None) (c_subs c))\<rparr>"

definition espos_config_subscribe :: "nat option \<Rightarrow> nat \<Rightarrow> ('b, 'h) cfg \<Rightarrow> esp_err \<times> ('b, 'h) cfg" where
  "espos_config_subscribe cb arg c =
     (if cb = None \<or> \<not> c_inited c then (ESP_ERR_INVALID_STATE, c)
      else
        (case find (\<lambda>i. c_subs c ! i = None) [0..<length (c_subs c)] of
           None \<Rightarrow> (ESP_ERR_NO_MEM, c)
         | Some i \<Rightarrow> (ESP_OK, c\<lparr>c_subs := (c_subs c)[i := Some (the cb, arg)]\<rparr>)))"

text \<open>An empty entry of the table has NULL for both, which is 0 for the argument.\<close>

definition espos_config_unsubscribe :: "nat option \<Rightarrow> nat \<Rightarrow> ('b, 'h) cfg \<Rightarrow> esp_err \<times> ('b, 'h) cfg" where
  "espos_config_unsubscribe cb arg c =
     (if \<not> c_inited c then (ESP_ERR_INVALID_STATE, c)
      else
        (case find (\<lambda>i. (case c_subs c ! i of None \<Rightarrow> cb = None \<and> arg = 0 | Some (f, a) \<Rightarrow> cb = Some f \<and> arg = a))
                [0..<length (c_subs c)] of
           None \<Rightarrow> (ESP_ERR_NOT_FOUND, c)
         | Some i \<Rightarrow> (ESP_OK, c\<lparr>c_subs := (c_subs c)[i := None]\<rparr>)))"

subsection \<open>Migrations\<close>

definition espos_config_register_migration ::
  "string option \<Rightarrow> u16 \<Rightarrow> (u16 \<Rightarrow> migrate) option \<Rightarrow> ('b, 'h) cfg \<Rightarrow> esp_err \<times> ('b, 'h) cfg" where
  "espos_config_register_migration ns from_version fn c =
     (case (espos_config_find_ns ns c, fn) of
        (Some (p, nd), Some fn) \<Rightarrow>
          if from_version = 0 \<or> n_version nd \<le> from_version then (ESP_ERR_INVALID_ARG, c)
          else if c_inited c then (ESP_ERR_INVALID_STATE, c)
          else if list_ex (\<lambda>m. mg_from m = from_version \<and> Some (mg_ns m) = ns) (c_migrations c) then (ESP_ERR_INVALID_STATE, c)
          else if CONFIG_ESPOS_CONFIG_MAX_MIGRATIONS \<le> length (c_migrations c) then (ESP_ERR_NO_MEM, c)
          else (ESP_OK, c\<lparr>c_migrations := c_migrations c @ [\<lparr>mg_ns = the (n_name nd), mg_from = from_version, mg_fn = fn\<rparr>]\<rparr>)
      | _ \<Rightarrow> (ESP_ERR_INVALID_ARG, c))"

definition find_migration :: "string option \<Rightarrow> u16 \<Rightarrow> ('b, 'h) cfg \<Rightarrow> migration option" where
  "find_migration ns from_version c = find (\<lambda>m. mg_from m = from_version \<and> Some (mg_ns m) = ns) (c_migrations c)"

text \<open>A migration runs over the raw accessors of its namespace.\<close>

primrec run_migration :: "('b, 'h) backend \<Rightarrow> 'h \<Rightarrow> migrate \<Rightarrow> 'b \<Rightarrow> esp_err \<times> 'b" where
  "run_migration be h (Return err) b = (err, b)"
| "run_migration be h (Migrate_Get key ty buf len k) b = run_migration be h (k (be_get be h key ty buf len b)) b"
| "run_migration be h (Migrate_Set key ty buf len k) b =
     (case be_set be h key ty buf len b of (err, b) \<Rightarrow> run_migration be h (k err) b)"
| "run_migration be h (Migrate_Erase key k) b = (case be_erase_key be h key b of (err, b) \<Rightarrow> run_migration be h (k err) b)"

definition read_version :: "('b, 'h) backend \<Rightarrow> 'h \<Rightarrow> ('b, 'h) cfg \<Rightarrow> esp_err \<times> u16" where
  "read_version be h c =
     (case be_get be h ESPOS_CFG_VERSION_KEY ESPOS_CFG_TYPE_INT True 4 (c_be_ctx c) of
        (err, d, len) \<Rightarrow>
          if err \<noteq> ESP_OK then (err, 0)
          else if sint (bytes_word d) < 0 \<or> 65535 < sint (bytes_word d) then (ESP_ERR_INVALID_STATE, 0)
          else (ESP_OK, ucast (bytes_word d)))"

definition write_version :: "('b, 'h) backend \<Rightarrow> 'h \<Rightarrow> u16 \<Rightarrow> ('b, 'h) cfg \<Rightarrow> esp_err \<times> ('b, 'h) cfg" where
  "write_version be h v c =
     (case be_set be h ESPOS_CFG_VERSION_KEY ESPOS_CFG_TYPE_INT (word_bytes (ucast v)) 4 (c_be_ctx c) of
        (err, b) \<Rightarrow> if err = ESP_OK then commit be h (c\<lparr>c_be_ctx := b\<rparr>) else (err, c\<lparr>c_be_ctx := b\<rparr>))"

text \<open>One step, with its stamp; one per version below the current, and no further after a failure.\<close>

definition migrate_one :: "('b, 'h) backend \<Rightarrow> 'h \<Rightarrow> cfg_ns \<Rightarrow> u16 \<Rightarrow> ('b, 'h) cfg \<Rightarrow> esp_err \<times> ('b, 'h) cfg" where
  "migrate_one be h nd v c =
     (case find_migration (n_name nd) v c of
        Some m \<Rightarrow>
          (case run_migration be h (mg_fn m v) (c_be_ctx c) of
             (err, b) \<Rightarrow> if err \<noteq> ESP_OK then (err, c\<lparr>c_be_ctx := b\<rparr>) else write_version be h (v + 1) (c\<lparr>c_be_ctx := b\<rparr>))
      | None \<Rightarrow> write_version be h (v + 1) c)"

fun migrate_steps :: "('b, 'h) backend \<Rightarrow> 'h \<Rightarrow> cfg_ns \<Rightarrow> u16 list \<Rightarrow> ('b, 'h) cfg \<Rightarrow> ('b, 'h) cfg" where
  "migrate_steps be h nd [] c = c"
| "migrate_steps be h nd (v # vs) c =
     (case migrate_one be h nd v c of (err, c) \<Rightarrow> if err \<noteq> ESP_OK then c else migrate_steps be h nd vs c)"

definition versions :: "u16 \<Rightarrow> u16 \<Rightarrow> u16 list" where
  "versions a b = map of_nat [unat a..<unat b]"

definition migrate_ns :: "('b, 'h) backend \<Rightarrow> slot \<Rightarrow> ('b, 'h) cfg \<Rightarrow> ('b, 'h) cfg" where
  "migrate_ns be st c =
     (let nd = slot_desc st c; h = the (slot_h st c)
      in case read_version be h c of
           (err, v) \<Rightarrow>
             if err = ESP_ERR_NOT_FOUND then snd (write_version be h (n_version nd) c)
             else if err \<noteq> ESP_OK then
               snd (write_version be h (n_version nd) (c\<lparr>c_be_ctx := snd (be_erase_key be h ESPOS_CFG_VERSION_KEY (c_be_ctx c))\<rparr>))
             else if n_version nd \<le> v then c
             else migrate_steps be h nd (versions v (n_version nd)) c)"

definition espos_config_get_version :: "('b, 'h) backend \<Rightarrow> string option \<Rightarrow> ('b, 'h) cfg \<Rightarrow> esp_err \<times> u16 \<times> u16" where
  "espos_config_get_version be ns c =
     (case espos_config_find_ns ns c of
        None \<Rightarrow> (ESP_ERR_NOT_FOUND, 0, 0)
      | Some (p, nd) \<Rightarrow>
          if \<not> c_inited c then (ESP_ERR_INVALID_STATE, 0, 0)
          else
            (ESP_OK,
             case ns_state_for p c of
               None \<Rightarrow> 0
             | Some st \<Rightarrow>
                 (case slot_h st c of
                    None \<Rightarrow> 0
                  | Some h \<Rightarrow> (case read_version be h c of (err, v) \<Rightarrow> if err = ESP_OK then v else 0)),
             n_version nd))"

subsection \<open>Life cycle\<close>

definition put_ns :: "nat \<Rightarrow> 'h option \<Rightarrow> ('b, 'h) cfg \<Rightarrow> ('b, 'h) cfg" where
  "put_ns i h c = c\<lparr>c_ns := (c_ns c)[i := h]\<rparr>"

definition put_rt :: "nat \<Rightarrow> 'h rt_slot \<Rightarrow> ('b, 'h) cfg \<Rightarrow> ('b, 'h) cfg" where
  "put_rt i r c = c\<lparr>c_rt := (c_rt c)[i := r]\<rparr>"

definition migrate_runtime_locked :: "('b, 'h) backend \<Rightarrow> ('b, 'h) cfg \<Rightarrow> ('b, 'h) cfg" where
  "migrate_runtime_locked be c =
     foldl (\<lambda>c i. if rt_desc (c_rt c ! i) \<noteq> None \<and> rt_h (c_rt c ! i) \<noteq> None then migrate_ns be (Rt i) c else c) c [0..<length (c_rt c)]"

definition close_ns :: "('b, 'h) backend \<Rightarrow> ('b, 'h) cfg \<Rightarrow> nat \<Rightarrow> ('b, 'h) cfg" where
  "close_ns be c i =
     (case c_ns c ! i of
        None \<Rightarrow> c
      | Some h \<Rightarrow> put_ns i None (c\<lparr>c_be_ctx := be_close be h (c_be_ctx c)\<rparr>))"

definition close_rt :: "('b, 'h) backend \<Rightarrow> ('b, 'h) cfg \<Rightarrow> nat \<Rightarrow> ('b, 'h) cfg" where
  "close_rt be c i =
     (case rt_h (c_rt c ! i) of
        None \<Rightarrow> c
      | Some h \<Rightarrow> put_rt i ((c_rt c ! i)\<lparr>rt_h := None\<rparr>) (c\<lparr>c_be_ctx := be_close be h (c_be_ctx c)\<rparr>))"

text \<open>The built-in namespaces from \<open>i\<close> on; a failure closes the ones before it.\<close>

fun open_static :: "('b, 'h) backend \<Rightarrow> cfg_ns list \<Rightarrow> nat \<Rightarrow> ('b, 'h) cfg \<Rightarrow> esp_err \<times> ('b, 'h) cfg" where
  "open_static be [] i c = (ESP_OK, c)"
| "open_static be (nd # nds) i c =
     (case be_open be (the (n_name nd)) (c_be_ctx c) of
        (err, r, b) \<Rightarrow>
          (let c = c\<lparr>c_be_ctx := b\<rparr>;
               c = (if r \<noteq> None then put_ns i r c else c)
           in if err \<noteq> ESP_OK then (err, foldl (close_ns be) c [0..<i]) else open_static be nds (Suc i) c))"

definition open_rt :: "('b, 'h) backend \<Rightarrow> ('b, 'h) cfg \<Rightarrow> nat \<Rightarrow> ('b, 'h) cfg" where
  "open_rt be c i =
     (case c_rt c ! i of
        r \<Rightarrow>
          (case rt_desc r of
             None \<Rightarrow> c
           | Some (a, nd) \<Rightarrow>
               if rt_h r \<noteq> None then c
               else
                 (case be_open be (the (n_name nd)) (c_be_ctx c) of
                    (err, h, b) \<Rightarrow>
                      (let c = c\<lparr>c_be_ctx := b\<rparr>
                       in if err \<noteq> ESP_OK then (put_rt i no_slot c)\<lparr>c_generation := c_generation c + 1\<rparr>
                          else put_rt i (r\<lparr>rt_h := h\<rparr>) c))))"

definition open_all_locked :: "('b, 'h) backend \<Rightarrow> ('b, 'h) cfg \<Rightarrow> esp_err \<times> ('b, 'h) cfg" where
  "open_all_locked be c =
     (case open_static be (c_tab c) 0 c of
        (err, c) \<Rightarrow> if err \<noteq> ESP_OK then (err, c) else (ESP_OK, foldl (open_rt be) c [0..<length (c_rt c)]))"

definition close_all_locked :: "('b, 'h) backend \<Rightarrow> ('b, 'h) cfg \<Rightarrow> ('b, 'h) cfg" where
  "close_all_locked be c = foldl (close_rt be) (foldl (close_ns be) c [0..<length (c_ns c)]) [0..<length (c_rt c)]"

definition migrate_all :: "('b, 'h) backend \<Rightarrow> ('b, 'h) cfg \<Rightarrow> ('b, 'h) cfg" where
  "migrate_all be c = migrate_runtime_locked be (foldl (\<lambda>c i. migrate_ns be (Ns i) c) c [0..<length (c_ns c)])"

definition espos_config_init :: "('b, 'h) backend \<Rightarrow> ('b, 'h) cfg \<Rightarrow> esp_err \<times> ('b, 'h) cfg" where
  "espos_config_init be c =
     (if c_inited c then (ESP_ERR_INVALID_STATE, c)
      else
        (case ensure_lock c of
           (err, c) \<Rightarrow>
             if err \<noteq> ESP_OK then (err, c)
             else
               (case cfg_alloc c of
                  (False, c) \<Rightarrow> (ESP_ERR_NO_MEM, c)
                | (True, c) \<Rightarrow>
                    (let c = c\<lparr>c_ns := replicate (length (c_tab c)) None\<rparr>
                     in case be_init be (c_be_ctx c) of
                          (err, reset, b) \<Rightarrow>
                            (let c = c\<lparr>c_be_ctx := b\<rparr>
                             in if err \<noteq> ESP_OK then (err, c\<lparr>c_ns := []\<rparr>)
                                else
                                  (case open_all_locked be (c\<lparr>c_storage_reset := reset\<rparr>) of
                                     (err, c) \<Rightarrow>
                                       if err \<noteq> ESP_OK then (err, c\<lparr>c_ns := []\<rparr>)
                                       else (ESP_OK, (migrate_all be c)\<lparr>c_inited := True\<rparr>)))))))"

definition espos_config_deinit :: "('b, 'h) backend \<Rightarrow> ('b, 'h) cfg \<Rightarrow> ('b, 'h) cfg" where
  "espos_config_deinit be c =
     (if \<not> c_inited c then c
      else
        (let c = close_all_locked be c
         in c\<lparr>c_inited := False, c_ns := [], c_migrations := [], c_subs := replicate CONFIG_ESPOS_CONFIG_MAX_SUBSCRIBERS None,
              c_rt := replicate CONFIG_ESPOS_CONFIG_MAX_RUNTIME_NS no_slot, c_generation := c_generation c + 1\<rparr>))"

definition espos_config_factory_reset :: "('b, 'h) backend \<Rightarrow> ('b, 'h) cfg \<Rightarrow> esp_err \<times> ('b, 'h) cfg" where
  "espos_config_factory_reset be c =
     (if \<not> c_inited c then (ESP_ERR_INVALID_STATE, c)
      else
        (let c = close_all_locked be c;
             (err, b) = be_erase_storage be (c_be_ctx c);
             (err, b) = (if err = ESP_OK then (case be_init be b of (err, dummy, b) \<Rightarrow> (err, b)) else (err, b));
             c = c\<lparr>c_be_ctx := b\<rparr>;
             (err, c) = (if err = ESP_OK then open_all_locked be c else (err, c))
         in if err = ESP_OK then (ESP_OK, migrate_all be c) else (err, c\<lparr>c_inited := False, c_ns := []\<rparr>)))"

subsection \<open>Namespaces registered at run time\<close>

definition flow_config_alarm :: "string option \<Rightarrow> flow_alarm \<Rightarrow> ('b, 'h) cfg \<Rightarrow> ('b, 'h) cfg" where
  "flow_config_alarm ns a c = c\<lparr>c_alarms := c_alarms c @ [(ns, a)]\<rparr>"

definition ns_char :: "char \<Rightarrow> bool" where
  "ns_char x \<longleftrightarrow>
     (let k = (of_char x :: nat) in 97 \<le> k \<and> k \<le> 122 \<or> 48 \<le> k \<and> k \<le> 57 \<or> x = CHR ''_'')"

definition valid_ns_name :: "string option \<Rightarrow> bool" where
  "valid_ns_name n =
     (case n of None \<Rightarrow> False | Some n \<Rightarrow> 0 < length n \<and> length n \<le> ESPOS_CFG_NS_NAME_MAX \<and> list_all ns_char n)"

definition espos_config_flow_ns_name :: "string option \<Rightarrow> nat \<Rightarrow> esp_err \<times> string" where
  "espos_config_flow_ns_name ident out_size =
     (case ident of
        None \<Rightarrow> (ESP_ERR_INVALID_ARG, [])
      | Some n \<Rightarrow>
          if out_size < ESPOS_CFG_NS_NAME_MAX + 1 then (ESP_ERR_INVALID_ARG, [])
          else if length n = 0 \<or> ESPOS_CFG_RUNTIME_ID_MAX < length n then (ESP_ERR_INVALID_ARG, [])
          else if \<not> list_all ns_char n then (ESP_ERR_INVALID_ARG, [])
          else (ESP_OK, cbuf out_size (ESPOS_CFG_RUNTIME_NS_PREFIX @ n)))"

text \<open>The first fault of a key, with the keys before it.\<close>

definition key_fault :: "cfg_key list \<Rightarrow> nat \<Rightarrow> flow_alarm option" where
  "key_fault ks i =
     (let k = ks ! i; name = the (k_name k)
      in if \<not> valid_ns_name (k_name k) then Some (Bad_Key_Name i)
         else if name = ESPOS_CFG_VERSION_KEY then Some (Reserved_Key name)
         else if \<not> known (k_type k) then Some (Unknown_Key_Type name)
         else if (k_type k = ESPOS_CFG_TYPE_STRING \<or> k_type k = ESPOS_CFG_TYPE_BLOB) \<and> k_max_len k = 0 then Some (No_Max_Len name)
         else if k_type k = ESPOS_CFG_TYPE_STRING \<and> sc_s (k_def k) = None then Some (No_Default name)
         else if list_ex (\<lambda>j. k_name (ks ! j) = k_name k) [0..<i] then Some (Duplicate_Key name)
         else None)"

definition first_fault :: "cfg_key list \<Rightarrow> flow_alarm option" where
  "first_fault ks = (case find (\<lambda>i. key_fault ks i \<noteq> None) [0..<length ks] of None \<Rightarrow> None | Some i \<Rightarrow> key_fault ks i)"

definition validate_runtime_desc :: "cfg_ns \<Rightarrow> ('b, 'h) cfg \<Rightarrow> esp_err \<times> ('b, 'h) cfg" where
  "validate_runtime_desc nd c =
     (if n_name nd = None \<or> n_title nd = None \<or> n_version nd = 0 then (ESP_ERR_INVALID_ARG, c)
      else if \<not> valid_ns_name (n_name nd) then (ESP_ERR_INVALID_ARG, flow_config_alarm (n_name nd) Bad_Namespace_Name c)
      else if keys_of nd = [] then (ESP_ERR_INVALID_ARG, flow_config_alarm (n_name nd) No_Keys c)
      else
        (case first_fault (keys_of nd) of
           Some a \<Rightarrow> (ESP_ERR_INVALID_ARG, flow_config_alarm (n_name nd) a c)
         | None \<Rightarrow> (ESP_OK, c)))"

definition enter_slot :: "('b, 'h) backend \<Rightarrow> nat \<Rightarrow> nat \<Rightarrow> cfg_ns \<Rightarrow> ('b, 'h) cfg \<Rightarrow> esp_err \<times> ('b, 'h) cfg" where
  "enter_slot be i a nd c =
     (if c_inited c then
        (case be_open be (the (n_name nd)) (c_be_ctx c) of
           (err, h, b) \<Rightarrow>
             (let c = put_rt i \<lparr>rt_desc = (if err = ESP_OK then Some (a, nd) else None), rt_h = h\<rparr> (c\<lparr>c_be_ctx := b\<rparr>)
              in if err \<noteq> ESP_OK then (err, flow_config_alarm (n_name nd) (Cannot_Open err) c)
                 else (ESP_OK, (migrate_ns be (Rt i) c)\<lparr>c_generation := c_generation c + 1\<rparr>)))
      else (ESP_OK, (put_rt i \<lparr>rt_desc = Some (a, nd), rt_h = None\<rparr> c)\<lparr>c_generation := c_generation c + 1\<rparr>))"

definition espos_config_register_ns :: "('b, 'h) backend \<Rightarrow> nat \<Rightarrow> cfg_ns \<Rightarrow> ('b, 'h) cfg \<Rightarrow> esp_err \<times> ('b, 'h) cfg" where
  "espos_config_register_ns be a nd c =
     (case validate_runtime_desc nd c of
        (err, c) \<Rightarrow>
          if err \<noteq> ESP_OK then (err, c)
          else
            (case ensure_lock c of
               (err, c) \<Rightarrow>
                 if err \<noteq> ESP_OK then (ESP_ERR_NO_MEM, c)
                 else if list_ex (\<lambda>d. n_name d = n_name nd) (c_tab c)
                 then (ESP_ERR_INVALID_STATE, flow_config_alarm (n_name nd) Is_Built_In c)
                 else if find_runtime_ns (n_name nd) c \<noteq> None
                 then (ESP_ERR_INVALID_STATE, flow_config_alarm (n_name nd) Already_Registered c)
                 else
                   (case find (\<lambda>i. rt_desc (c_rt c ! i) = None) [0..<length (c_rt c)] of
                      None \<Rightarrow> (ESP_ERR_NO_MEM, flow_config_alarm (n_name nd) No_Slot c)
                    | Some i \<Rightarrow> enter_slot be i a nd c)))"

definition espos_config_unregister_ns :: "('b, 'h) backend \<Rightarrow> string option \<Rightarrow> ('b, 'h) cfg \<Rightarrow> esp_err \<times> ('b, 'h) cfg" where
  "espos_config_unregister_ns be ns c =
     (if ns = None then (ESP_ERR_INVALID_ARG, c)
      else if list_ex (\<lambda>d. n_name d = ns) (c_tab c) then (ESP_ERR_INVALID_ARG, c)
      else if \<not> c_lock c then (ESP_ERR_NOT_FOUND, c)
      else
        (case find (\<lambda>i. (case rt_desc (c_rt c ! i) of None \<Rightarrow> False | Some (a, nd) \<Rightarrow> n_name nd = ns)) [0..<length (c_rt c)] of
           None \<Rightarrow> (ESP_ERR_NOT_FOUND, c)
         | Some i \<Rightarrow>
             (let c = (case rt_h (c_rt c ! i) of None \<Rightarrow> c | Some h \<Rightarrow> c\<lparr>c_be_ctx := be_close be h (c_be_ctx c)\<rparr>)
              in (ESP_OK, (put_rt i no_slot c)\<lparr>c_generation := c_generation c + 1\<rparr>))))"

subsection \<open>Access\<close>

definition get_scalar ::
  "('b, 'h) backend \<Rightarrow> string option \<Rightarrow> string option \<Rightarrow> cfg_type \<Rightarrow> ('b, 'h) cfg \<Rightarrow> esp_err \<times> cfg_value option" where
  "get_scalar be ns key ty c =
     (if \<not> c_inited c then (ESP_ERR_INVALID_STATE, None)
      else
        (case lookup ns key c of
           None \<Rightarrow> (ESP_ERR_NOT_FOUND, None)
         | Some (st, p, nd, k) \<Rightarrow>
             if k_type k \<noteq> ty then (ESP_ERR_INVALID_ARG, None)
             else (case espos_config_read_effective be p k c of (err, v, is_set) \<Rightarrow> (err, if err = ESP_OK then Some v else None))))"

definition espos_config_get_bool ::
  "('b, 'h) backend \<Rightarrow> string option \<Rightarrow> string option \<Rightarrow> ('b, 'h) cfg \<Rightarrow> esp_err \<times> bool option" where
  "espos_config_get_bool be ns key c =
     (case get_scalar be ns key ESPOS_CFG_TYPE_BOOL c of
        (err, v) \<Rightarrow> (err, case v of Some (V_Bool b) \<Rightarrow> Some b | _ \<Rightarrow> None))"

definition espos_config_get_i32 ::
  "('b, 'h) backend \<Rightarrow> string option \<Rightarrow> string option \<Rightarrow> ('b, 'h) cfg \<Rightarrow> esp_err \<times> i32 option" where
  "espos_config_get_i32 be ns key c =
     (case get_scalar be ns key ESPOS_CFG_TYPE_INT c of
        (err, v) \<Rightarrow> (err, case v of Some (V_Int i) \<Rightarrow> Some i | _ \<Rightarrow> None))"

definition espos_config_get_float ::
  "('b, 'h) backend \<Rightarrow> string option \<Rightarrow> string option \<Rightarrow> ('b, 'h) cfg \<Rightarrow> esp_err \<times> u32 option" where
  "espos_config_get_float be ns key c =
     (case get_scalar be ns key ESPOS_CFG_TYPE_FLOAT c of
        (err, v) \<Rightarrow> (err, case v of Some (V_Float f) \<Rightarrow> Some f | _ \<Rightarrow> None))"

text \<open>The length, the copy in the caller's buffer when there is one, and the allocations left.\<close>

definition copy_str :: "bool \<Rightarrow> nat \<Rightarrow> string \<Rightarrow> esp_err \<times> string option" where
  "copy_str buf buf_size s =
     (let n = length s
      in if buf \<and> buf_size \<noteq> 0 then
           (let k = (if n < buf_size - 1 then n else buf_size - 1)
            in (if k < n then ESP_ERR_INVALID_SIZE else ESP_OK, Some (take k s)))
         else if buf_size = 0 \<and> 0 < n then (ESP_ERR_INVALID_SIZE, None)
         else (ESP_OK, None))"

definition espos_config_get_str ::
  "('b, 'h) backend \<Rightarrow> string option \<Rightarrow> string option \<Rightarrow> bool \<Rightarrow> nat \<Rightarrow> ('b, 'h) cfg \<Rightarrow>
   (esp_err \<times> nat option \<times> string option) \<times> ('b, 'h) cfg" where
  "espos_config_get_str be ns key buf buf_size c =
     (if \<not> c_inited c then ((ESP_ERR_INVALID_STATE, None, None), c)
      else
        (case lookup ns key c of
           None \<Rightarrow> ((ESP_ERR_NOT_FOUND, None, None), c)
         | Some (st, p, nd, k) \<Rightarrow>
             if k_type k \<noteq> ESPOS_CFG_TYPE_STRING then ((ESP_ERR_INVALID_ARG, None, None), c)
             else
               (case cfg_alloc c of
                  (False, c) \<Rightarrow> ((ESP_ERR_NO_MEM, None, None), c)
                | (True, c) \<Rightarrow>
                    (case espos_config_read_effective be p k c of
                       (err, v, is_set) \<Rightarrow>
                         (if err \<noteq> ESP_OK then ((err, None, None), c)
                          else
                            (case v of
                               V_String (Some s) \<Rightarrow> (case copy_str buf buf_size s of (err, out) \<Rightarrow> ((err, Some (length s), out), c))
                             | _ \<Rightarrow> ((ESP_FAIL, None, None), c)))))))"

definition espos_config_get_blob ::
  "('b, 'h) backend \<Rightarrow> string option \<Rightarrow> string option \<Rightarrow> bool \<Rightarrow> nat option \<Rightarrow> ('b, 'h) cfg \<Rightarrow>
   (esp_err \<times> nat option \<times> u8 list option) \<times> ('b, 'h) cfg" where
  "espos_config_get_blob be ns key buf len c =
     (if \<not> c_inited c then ((ESP_ERR_INVALID_STATE, len, None), c)
      else if len = None then ((ESP_ERR_INVALID_ARG, None, None), c)
      else
        (case lookup ns key c of
           None \<Rightarrow> ((ESP_ERR_NOT_FOUND, len, None), c)
         | Some (st, p, nd, k) \<Rightarrow>
             if k_type k \<noteq> ESPOS_CFG_TYPE_BLOB then ((ESP_ERR_INVALID_ARG, len, None), c)
             else
               (case cfg_alloc c of
                  (False, c) \<Rightarrow> ((ESP_ERR_NO_MEM, len, None), c)
                | (True, c) \<Rightarrow>
                    (case espos_config_read_effective be p k c of
                       (err, v, is_set) \<Rightarrow>
                         (if err \<noteq> ESP_OK then ((err, len, None), c)
                          else
                            (case v of
                               V_Blob (Blob bs) \<Rightarrow>
                                 ((if buf \<and> the len < length bs then ESP_ERR_INVALID_SIZE else ESP_OK, Some (length bs),
                                   if buf \<and> length bs \<le> the len then Some bs else None), c)
                             | _ \<Rightarrow> ((ESP_FAIL, len, None), c)))))))"

definition espos_config_is_set ::
  "('b, 'h) backend \<Rightarrow> string option \<Rightarrow> string option \<Rightarrow> ('b, 'h) cfg \<Rightarrow> bool \<times> ('b, 'h) cfg" where
  "espos_config_is_set be ns key c =
     (if \<not> c_inited c then (False, c)
      else
        (case lookup ns key c of
           None \<Rightarrow> (False, c)
         | Some (st, p, nd, k) \<Rightarrow>
             (let (ok, c) = (if k_type k = ESPOS_CFG_TYPE_STRING \<or> k_type k = ESPOS_CFG_TYPE_BLOB then cfg_alloc c else (True, c))
              in if \<not> ok then (False, c) else (snd (snd (espos_config_read_effective be p k c)), c))))"

definition set_value ::
  "('b, 'h) backend \<Rightarrow> string option \<Rightarrow> string option \<Rightarrow> cfg_value \<Rightarrow> ('b, 'h) cfg \<Rightarrow> esp_err \<times> ('b, 'h) cfg" where
  "set_value be ns key val c =
     (if \<not> c_inited c then (ESP_ERR_INVALID_STATE, c)
      else
        (case lookup ns key c of
           None \<Rightarrow> (ESP_ERR_NOT_FOUND, c)
         | Some (st, p, nd, k) \<Rightarrow>
             if k_flags k AND ESPOS_CFG_FLAG_READ_ONLY \<noteq> 0 then (ESP_ERR_NOT_SUPPORTED, c)
             else if \<not> espos_config_validate k val then (ESP_ERR_INVALID_ARG, c)
             else
               (case write_locked be st p k val c of
                  (err, changed, c) \<Rightarrow> (err, if err = ESP_OK \<and> changed then cfg_notify nd k c else c))))"

definition espos_config_set_bool ::
  "('b, 'h) backend \<Rightarrow> string option \<Rightarrow> string option \<Rightarrow> bool \<Rightarrow> ('b, 'h) cfg \<Rightarrow> esp_err \<times> ('b, 'h) cfg" where
  "espos_config_set_bool be ns key v c = set_value be ns key (V_Bool v) c"

definition espos_config_set_i32 ::
  "('b, 'h) backend \<Rightarrow> string option \<Rightarrow> string option \<Rightarrow> i32 \<Rightarrow> ('b, 'h) cfg \<Rightarrow> esp_err \<times> ('b, 'h) cfg" where
  "espos_config_set_i32 be ns key v c = set_value be ns key (V_Int v) c"

definition espos_config_set_float ::
  "('b, 'h) backend \<Rightarrow> string option \<Rightarrow> string option \<Rightarrow> u32 \<Rightarrow> ('b, 'h) cfg \<Rightarrow> esp_err \<times> ('b, 'h) cfg" where
  "espos_config_set_float be ns key v c = set_value be ns key (V_Float v) c"

definition espos_config_set_str ::
  "('b, 'h) backend \<Rightarrow> string option \<Rightarrow> string option \<Rightarrow> string option \<Rightarrow> ('b, 'h) cfg \<Rightarrow> esp_err \<times> ('b, 'h) cfg" where
  "espos_config_set_str be ns key v c =
     (if v = None then (ESP_ERR_INVALID_ARG, c) else set_value be ns key (V_String v) c)"

definition espos_config_set_blob ::
  "('b, 'h) backend \<Rightarrow> string option \<Rightarrow> string option \<Rightarrow> blob \<Rightarrow> ('b, 'h) cfg \<Rightarrow> esp_err \<times> ('b, 'h) cfg" where
  "espos_config_set_blob be ns key v c = set_value be ns key (V_Blob v) c"

definition espos_config_reset_key ::
  "('b, 'h) backend \<Rightarrow> string option \<Rightarrow> string option \<Rightarrow> ('b, 'h) cfg \<Rightarrow> esp_err \<times> ('b, 'h) cfg" where
  "espos_config_reset_key be ns key c =
     (if \<not> c_inited c then (ESP_ERR_INVALID_STATE, c)
      else
        (case lookup ns key c of
           None \<Rightarrow> (ESP_ERR_NOT_FOUND, c)
         | Some (st, p, nd, k) \<Rightarrow>
             (case reset_locked be st p k c of
                (err, changed, c) \<Rightarrow> (err, if err = ESP_OK \<and> changed then cfg_notify nd k c else c))))"

text \<open>The keys of a namespace in turn: the first error and what changed.\<close>

fun reset_keys ::
  "('b, 'h) backend \<Rightarrow> slot \<Rightarrow> ns_ptr \<Rightarrow> cfg_key list \<Rightarrow> ('b, 'h) cfg \<Rightarrow> esp_err \<times> bool list \<times> ('b, 'h) cfg" where
  "reset_keys be st p [] c = (ESP_OK, [], c)"
| "reset_keys be st p (k # ks) c =
     (case reset_locked be st p k c of
        (e, changed, c) \<Rightarrow>
          (case reset_keys be st p ks c of (err, cs, c) \<Rightarrow> (if e \<noteq> ESP_OK then e else err, changed # cs, c)))"

definition notify_changed :: "cfg_ns \<Rightarrow> cfg_key list \<Rightarrow> bool list \<Rightarrow> ('b, 'h) cfg \<Rightarrow> ('b, 'h) cfg" where
  "notify_changed nd ks cs c = foldl (\<lambda>c (k, changed). if changed then cfg_notify nd k c else c) c (zip ks cs)"

definition espos_config_reset_ns :: "('b, 'h) backend \<Rightarrow> string option \<Rightarrow> ('b, 'h) cfg \<Rightarrow> esp_err \<times> ('b, 'h) cfg" where
  "espos_config_reset_ns be ns c =
     (if \<not> c_inited c then (ESP_ERR_INVALID_STATE, c)
      else
        (case espos_config_find_ns ns c of
           None \<Rightarrow> (ESP_ERR_NOT_FOUND, c)
         | Some (p, nd) \<Rightarrow>
             (case ns_state_for p c of
                None \<Rightarrow> (ESP_ERR_NOT_FOUND, c)
              | Some st \<Rightarrow>
                  if slot_h st c = None then (ESP_ERR_NOT_FOUND, c)
                  else
                    (case cfg_alloc c of
                       (False, c) \<Rightarrow> (ESP_ERR_NO_MEM, c)
                     | (True, c) \<Rightarrow>
                         (case reset_keys be st p (keys_of nd) c of
                            (err, cs, c) \<Rightarrow> (err, notify_changed nd (keys_of nd) cs c))))))"

subsection \<open>The batch plan\<close>

record plan_entry =
  pe_ns :: ns_ptr
  pe_nd :: cfg_ns
  pe_key :: cfg_key
  pe_reset :: bool
  pe_val :: cfg_value

definition apply_entry ::
  "('b, 'h) backend \<Rightarrow> plan_entry \<Rightarrow> ('b, 'h) cfg \<Rightarrow> esp_err \<times> bool \<times> ('b, 'h) cfg" where
  "apply_entry be e c =
     (case ns_state_for (pe_ns e) c of
        None \<Rightarrow> (ESP_ERR_NOT_FOUND, False, c)
      | Some st \<Rightarrow>
          if slot_h st c = None then (ESP_ERR_NOT_FOUND, False, c)
          else if pe_reset e then reset_locked be st (pe_ns e) (pe_key e) c
          else write_locked be st (pe_ns e) (pe_key e) (pe_val e) c)"

text \<open>The first error, the entries whose effective value changed, and whether one of them needs a restart.\<close>

fun apply_entries ::
  "('b, 'h) backend \<Rightarrow> plan_entry list \<Rightarrow> ('b, 'h) cfg \<Rightarrow> esp_err \<times> plan_entry list \<times> ('b, 'h) cfg" where
  "apply_entries be [] c = (ESP_OK, [], c)"
| "apply_entries be (e # es) c =
     (case apply_entry be e c of
        (x, changed, c) \<Rightarrow>
          (case apply_entries be es c of
             (err, ch, c) \<Rightarrow> (if x \<noteq> ESP_OK then x else err, if x = ESP_OK \<and> changed then e # ch else ch, c)))"

definition espos_config_apply_plan ::
  "('b, 'h) backend \<Rightarrow> plan_entry list \<Rightarrow> ('b, 'h) cfg \<Rightarrow> (esp_err \<times> plan_entry list \<times> bool) \<times> ('b, 'h) cfg" where
  "espos_config_apply_plan be plan c =
     (if \<not> c_inited c then ((ESP_ERR_INVALID_STATE, [], False), c)
      else
        (case apply_entries be plan c of
           (err, ch, c) \<Rightarrow>
             ((err, ch, list_ex (\<lambda>e. k_flags (pe_key e) AND ESPOS_CFG_FLAG_RESTART_REQUIRED \<noteq> 0) ch),
              foldl (\<lambda>c e. cfg_notify (pe_nd e) (pe_key e) c) c ch)))"

end
