(* ===== verification/Cfg_Invariant.thy ===== *)
theory Cfg_Invariant
  imports Cfg_Store
begin

text \<open>
  What the configuration store keeps, proved over the contract of its backend: the value a key reads as a
  function of what is stored under it, the invariant of the tables and handles, the effect of a write, a reset
  and a migration on the stored values, and that every operation of the interface keeps the invariant.
\<close>

subsection \<open>What a key reads\<close>

text \<open>The value of a key as a function of what is stored under it.\<close>

definition accepted :: "cfg_key \<Rightarrow> (cfg_type \<times> u8 list) option \<Rightarrow> cfg_value option" where
  "accepted key r =
     (case r of None \<Rightarrow> None | Some (t, d) \<Rightarrow> if t = k_type key \<and> length d \<le> get_size key then decode_value key d else None)"

definition reads :: "cfg_key \<Rightarrow> (cfg_type \<times> u8 list) option \<Rightarrow> cfg_value" where
  "reads key r = (case accepted key r of None \<Rightarrow> fallback_value key | Some v \<Rightarrow> v)"

text \<open>A default that passes the validation of its own key.\<close>

definition default_ok :: "cfg_key \<Rightarrow> bool" where
  "default_ok key \<longleftrightarrow> known (k_type key) \<and> espos_config_validate key (default_value key)"

lemma decode_valid: "decode_value key d = Some v \<Longrightarrow> espos_config_validate key v"
  by (cases "k_type key") (auto simp: decode_value_def espos_config_validate_def Let_def split: if_splits list.splits)

lemma validate_type: "espos_config_validate key v \<Longrightarrow> type_of v = k_type key"
  by (simp add: espos_config_validate_def split: if_splits)

lemma fallback_default: "default_ok key \<Longrightarrow> espos_config_validate key (fallback_value key)"
  by (cases "k_type key") (auto simp: default_ok_def default_value_def fallback_value_def espos_config_validate_def split: option.splits if_splits)

lemma reads_valid: "default_ok key \<Longrightarrow> espos_config_validate key (reads key r)"
  using decode_valid fallback_default by (auto simp: reads_def accepted_def split: option.splits if_splits)


lemma type_of_known: "known (type_of v)"
  by (cases v) simp_all

lemma reads_accepted: "if accepted key r \<noteq> None then espos_config_validate key (reads key r) else reads key r = fallback_value key"
  by (auto simp: reads_def accepted_def dest: decode_valid split: option.splits if_splits)

lemma fallback_type: "known (k_type key) \<Longrightarrow> type_of (fallback_value key) = k_type key"
  by (cases "k_type key") (simp_all add: fallback_value_def)

lemma reads_type: "known (k_type key) \<Longrightarrow> type_of (reads key r) = k_type key"
  using reads_accepted [of key r] validate_type [of key "reads key r"] fallback_type [of key] by (cases "accepted key r = None") simp_all

lemma reads_blob: assumes "reads key r = V_Blob bl" shows "\<exists>bs. bl = Blob bs"
proof (cases "accepted key r")
  case None
  with assms have "fallback_value key = V_Blob bl" by (simp add: reads_def)
  then show ?thesis by (cases "k_type key") (auto simp: fallback_value_def)
next
  case (Some v)
  with assms obtain d where "decode_value key d = Some (V_Blob bl)" by (auto simp: reads_def accepted_def split: option.splits if_splits)
  then show ?thesis by (cases "k_type key") (auto simp: decode_value_def Let_def split: if_splits)
qed

text \<open>A value as it reads after it was written: a blob of no bytes is an absent one.\<close>

fun written :: "cfg_value \<Rightarrow> cfg_value" where
  "written (V_Blob bl) = (if blob_len bl = 0 then V_Blob (Blob []) else V_Blob bl)"
| "written v = v"

fun plain :: "cfg_value \<Rightarrow> bool" where
  "plain (V_String (Some s)) = c_string s"
| "plain _ = True"

text \<open>What a validated value leaves in the store reads as that value.\<close>

definition after_write :: "cfg_value \<Rightarrow> (cfg_type \<times> u8 list) option" where
  "after_write v =
     (case v of
        V_Blob bl \<Rightarrow> if blob_len bl = 0 then None else Some (type_of v, payload (type_of v) (value_bytes v) (blob_len bl))
      | _ \<Rightarrow> Some (type_of v, payload (type_of v) (value_bytes v) (length (value_bytes v))))"

lemma payload_cstr: "c_string s \<Longrightarrow> payload ESPOS_CFG_TYPE_STRING (cstr_bytes s) n = cstr_bytes s"
proof -
  assume "c_string s"
  then have "takeWhile (\<lambda>b. b \<noteq> 0) (cstr_bytes s) = map (\<lambda>c. of_nat (of_char c)) s"
    by (subst cstr_bytes_def, subst takeWhile_append2) (auto simp: c_string_def of_char_u8_eq_0)
  then show ?thesis by (simp add: payload_def cstr_bytes_def)
qed

lemma bytes_cstr_take: "c_string s \<Longrightarrow> length s \<le> n \<Longrightarrow> bytes_cstr (take n (cstr_bytes s)) = s"
proof (cases "length s = n")
  case True
  assume "c_string s"
  then have t: "takeWhile (\<lambda>b. b \<noteq> 0) (map (\<lambda>c. of_nat (of_char c) :: u8) s) = map (\<lambda>c. of_nat (of_char c)) s"
    by (auto simp: takeWhile_eq_all_conv c_string_def of_char_u8_eq_0)
  show ?thesis using True by (simp add: bytes_cstr_def cstr_bytes_def comp_def t)
qed (simp add: cstr_bytes_def flip: cstr_bytes_def)

lemma reads_after_write:
  assumes "espos_config_validate key v" and "plain v"
  shows "reads key (after_write v) = written v"
proof (cases v)
  case (V_String s)
  with assms obtain t where t: "s = Some t" "c_string t" "k_type key = ESPOS_CFG_TYPE_STRING" "length t \<le> k_max_len key"
    by (cases s) (auto simp: espos_config_validate_def split: if_splits)
  with V_String assms(1) bytes_cstr_take [OF t(2,4)] show ?thesis
    by (simp add: reads_def accepted_def after_write_def payload_cstr get_size_def decode_value_def Let_def)
next
  case (V_Blob bl)
  with assms show ?thesis
    by (cases bl) (auto simp: espos_config_validate_def reads_def accepted_def after_write_def payload_def get_size_def
        decode_value_def fallback_value_def split: if_splits)
qed (use assms in \<open>auto simp: espos_config_validate_def reads_def accepted_def after_write_def payload_def get_size_def
  scalar_size_def decode_value_def Let_def split: if_splits\<close>)

subsection \<open>The invariant\<close>

definition tab_ok :: "cfg_ns list \<Rightarrow> bool" where
  "tab_ok tab \<longleftrightarrow> distinct (map n_name tab) \<and> None \<notin> n_name ` set tab"

text \<open>
  The descriptor that a registered namespace borrows is the one in memory at its address, its name is
  not that of a built-in one, and no two registered namespaces share a name.
\<close>

definition rt_ok :: "(nat \<Rightarrow> cfg_ns) \<Rightarrow> cfg_ns list \<Rightarrow> 'h rt_slot list \<Rightarrow> bool" where
  "rt_ok memory tab rts \<longleftrightarrow>
     length rts = CONFIG_ESPOS_CONFIG_MAX_RUNTIME_NS \<and>
     (\<forall>r\<in>set rts. (rt_desc r = None \<longrightarrow> rt_h r = None) \<and>
        (\<forall>a nd. rt_desc r = Some (a, nd) \<longrightarrow> nd = memory a \<and> n_name nd \<noteq> None \<and> n_name nd \<notin> n_name ` set tab)) \<and>
     (\<forall>i j a b x y. i < length rts \<longrightarrow> j < length rts \<longrightarrow> rt_desc (rts ! i) = Some (a, x) \<longrightarrow> rt_desc (rts ! j) = Some (b, y) \<longrightarrow>
        n_name x = n_name y \<longrightarrow> i = j)"

text \<open>A handle that is held is open, and for the namespace it is held for.\<close>

definition handles_ok :: "('b \<Rightarrow> 'h \<Rightarrow> string option) \<Rightarrow> ('b, 'h) cfg \<Rightarrow> bool" where
  "handles_ok ns_of c \<longleftrightarrow>
     length (c_ns c) \<le> length (c_tab c) \<and>
     (\<forall>i h. i < length (c_ns c) \<longrightarrow> c_ns c ! i = Some h \<longrightarrow> ns_of (c_be_ctx c) h = n_name (c_tab c ! i)) \<and>
     (\<forall>r\<in>set (c_rt c). \<forall>a nd h. rt_desc r = Some (a, nd) \<longrightarrow> rt_h r = Some h \<longrightarrow> ns_of (c_be_ctx c) h = n_name nd)"

text \<open>While the store is up every namespace is open, and otherwise none is.\<close>

definition all_open :: "('b, 'h) cfg \<Rightarrow> bool" where
  "all_open c \<longleftrightarrow>
     length (c_ns c) = length (c_tab c) \<and> None \<notin> set (c_ns c) \<and> (\<forall>r\<in>set (c_rt c). rt_desc r \<noteq> None \<longrightarrow> rt_h r \<noteq> None)"

definition all_closed :: "('b, 'h) cfg \<Rightarrow> bool" where
  "all_closed c \<longleftrightarrow> (\<forall>h\<in>set (c_ns c). h = None) \<and> (\<forall>r\<in>set (c_rt c). rt_h r = None)"

lemma all_open_shrink:
  "all_open c \<Longrightarrow> c_ns c' = c_ns c \<Longrightarrow> c_tab c' = c_tab c \<Longrightarrow>
     \<forall>x\<in>set (c_rt c'). x \<in> set (c_rt c) \<or> rt_desc x = None \<and> rt_h x = None \<Longrightarrow> all_open c'"
  unfolding all_open_def by metis

lemma all_closed_shrink:
  "all_closed c \<Longrightarrow> c_ns c' = c_ns c \<Longrightarrow> \<forall>x\<in>set (c_rt c'). x \<in> set (c_rt c) \<or> rt_desc x = None \<and> rt_h x = None \<Longrightarrow> all_closed c'"
  unfolding all_closed_def by metis

definition cfg_base :: "('b \<Rightarrow> bool) \<Rightarrow> ('b \<Rightarrow> 'h \<Rightarrow> string option) \<Rightarrow> (nat \<Rightarrow> cfg_ns) \<Rightarrow> ('b, 'h) cfg \<Rightarrow> bool" where
  "cfg_base ok ns_of memory c \<longleftrightarrow> ok (c_be_ctx c) \<and> tab_ok (c_tab c) \<and> rt_ok memory (c_tab c) (c_rt c) \<and> handles_ok ns_of c"

definition cfg_inv :: "('b \<Rightarrow> bool) \<Rightarrow> ('b \<Rightarrow> 'h \<Rightarrow> string option) \<Rightarrow> (nat \<Rightarrow> cfg_ns) \<Rightarrow> ('b, 'h) cfg \<Rightarrow> bool" where
  "cfg_inv ok ns_of memory c \<longleftrightarrow> cfg_base ok ns_of memory c \<and> (if c_inited c then all_open c else all_closed c)"

lemma rt_okD:
  assumes "rt_ok memory tab rts"
  shows "r \<in> set rts \<Longrightarrow> rt_desc r = Some (a, nd) \<Longrightarrow> nd = memory a \<and> n_name nd \<noteq> None \<and> n_name nd \<notin> n_name ` set tab"
    and "r \<in> set rts \<Longrightarrow> rt_desc r = None \<Longrightarrow> rt_h r = None"
    and "i < length rts \<Longrightarrow> j < length rts \<Longrightarrow> rt_desc (rts ! i) = Some (a, x) \<Longrightarrow> rt_desc (rts ! j) = Some (b, y) \<Longrightarrow> n_name x = n_name y \<Longrightarrow> i = j"
    and "length rts = CONFIG_ESPOS_CONFIG_MAX_RUNTIME_NS"
  using assms unfolding rt_ok_def by blast+

lemma tab_okD:
  assumes "tab_ok tab" and "i < length tab"
  shows "n_name (tab ! i) \<noteq> None" and "n_name (tab ! i) \<in> n_name ` set tab" and "j < length tab \<Longrightarrow> n_name (tab ! i) = n_name (tab ! j) \<Longrightarrow> i = j"
proof -
  show "n_name (tab ! i) \<in> n_name ` set tab" using assms(2) by simp
  with assms(1) show "n_name (tab ! i) \<noteq> None" unfolding tab_ok_def by metis
  show "i = j" if "j < length tab" "n_name (tab ! i) = n_name (tab ! j)"
    using assms that nth_eq_iff_index_eq [of "map n_name tab" i j] by (simp add: tab_ok_def)
qed

lemma handles_okD:
  assumes "handles_ok ns_of c"
  shows "length (c_ns c) \<le> length (c_tab c)"
    and "i < length (c_ns c) \<Longrightarrow> c_ns c ! i = Some h \<Longrightarrow> ns_of (c_be_ctx c) h = n_name (c_tab c ! i)"
    and "r \<in> set (c_rt c) \<Longrightarrow> rt_desc r = Some (a, nd) \<Longrightarrow> rt_h r = Some h \<Longrightarrow> ns_of (c_be_ctx c) h = n_name nd"
  using assms unfolding handles_ok_def by blast+

lemma rt_ok_update:
  assumes "rt_ok memory tab rts" and "i < length rts" and "rt_desc r = None \<longrightarrow> rt_h r = None"
    and "rt_desc r = None \<or> rt_desc r = rt_desc (rts ! i)"
  shows "rt_ok memory tab (rts[i := r])"
proof -
  have d: "rt_desc (rts[i := r] ! j) = Some x \<Longrightarrow> rt_desc (rts ! j) = Some x" if "j < length rts" for j x
    using assms that by (auto simp: nth_list_update split: if_splits)
  have slots: "(rt_desc x = None \<longrightarrow> rt_h x = None) \<and>
      (\<forall>a nd. rt_desc x = Some (a, nd) \<longrightarrow> nd = memory a \<and> n_name nd \<noteq> None \<and> n_name nd \<notin> n_name ` set tab)"
    if "x \<in> set (rts[i := r])" for x
  proof (cases "x = r")
    case True
    have "rts ! i \<in> set rts" using assms(2) by simp
    from rt_okD(1) [OF assms(1) this] True assms(3,4) show ?thesis by auto
  next
    case False
    with that have "x \<in> set rts" by (metis in_set_conv_nth length_list_update nth_list_update_eq nth_list_update_neq)
    with assms(1) show ?thesis by (simp add: rt_ok_def)
  qed
  show ?thesis unfolding rt_ok_def
  proof (intro conjI allI impI)
    show "length (rts[i := r]) = CONFIG_ESPOS_CONFIG_MAX_RUNTIME_NS" using assms(1) by (simp add: rt_ok_def)
    show "\<forall>x\<in>set (rts[i := r]). (rt_desc x = None \<longrightarrow> rt_h x = None) \<and>
      (\<forall>a nd. rt_desc x = Some (a, nd) \<longrightarrow> nd = memory a \<and> n_name nd \<noteq> None \<and> n_name nd \<notin> n_name ` set tab)" using slots by blast
    fix j k a b x y
    assume "j < length (rts[i := r])" "k < length (rts[i := r])" "rt_desc (rts[i := r] ! j) = Some (a, x)" "rt_desc (rts[i := r] ! k) = Some (b, y)"
      "n_name x = n_name y"
    then have "j < length rts" "k < length rts" "rt_desc (rts ! j) = Some (a, x)" "rt_desc (rts ! k) = Some (b, y)" using d by auto
    with assms(1) \<open>n_name x = n_name y\<close> show "j = k" unfolding rt_ok_def by blast
  qed
qed

text \<open>Operations that leave the tables alone.\<close>

definition same_tables :: "('b, 'h) cfg \<Rightarrow> ('b, 'h) cfg \<Rightarrow> bool" where
  "same_tables c c' \<longleftrightarrow>
     c_tab c' = c_tab c \<and> c_ns c' = c_ns c \<and> c_rt c' = c_rt c \<and> c_inited c' = c_inited c \<and>
     c_migrations c' = c_migrations c \<and> c_subs c' = c_subs c \<and> c_lock c' = c_lock c"

lemma same_tables_refl [simp]: "same_tables c c"
  by (simp add: same_tables_def)

lemma same_tables_trans [trans]: "same_tables a b \<Longrightarrow> same_tables b c \<Longrightarrow> same_tables a c"
  by (simp add: same_tables_def)

lemma same_tables_lookup:
  assumes "same_tables c c'"
  shows "lookup ns key c' = lookup ns key c" and "espos_config_find_ns ns c' = espos_config_find_ns ns c"
    and "ns_state_for p c' = ns_state_for p c" and "slot_h st c' = slot_h st c" and "slot_desc st c' = slot_desc st c"
proof -
  have f: "c_tab c' = c_tab c" "c_ns c' = c_ns c" "c_rt c' = c_rt c" using assms by (simp_all add: same_tables_def)
  show find: "espos_config_find_ns ns c' = espos_config_find_ns ns c" for ns
    unfolding espos_config_find_ns_def find_runtime_ns_def f by (rule refl)
  show state: "ns_state_for p c' = ns_state_for p c" for p unfolding ns_state_for_def f by (rule refl)
  show "slot_h st c' = slot_h st c" "slot_desc st c' = slot_desc st c" unfolding slot_h_def slot_desc_def f by (rule refl)+
  show "lookup ns key c' = lookup ns key c" unfolding lookup_def find state by (rule refl)
qed

lemma same_tables_inv:
  assumes "same_tables c c'" and "cfg_inv ok ns_of memory c" and "ok (c_be_ctx c')" and "ns_of (c_be_ctx c') = ns_of (c_be_ctx c)"
  shows "cfg_inv ok ns_of memory c'"
proof -
  have f: "c_tab c' = c_tab c" "c_ns c' = c_ns c" "c_rt c' = c_rt c" "c_inited c' = c_inited c"
    using assms(1) by (simp_all add: same_tables_def)
  show ?thesis using assms(2-4) unfolding cfg_inv_def cfg_base_def handles_ok_def all_open_def all_closed_def f assms(4) by blast
qed

text \<open>A namespace that is found is open under its name.\<close>

lemma find_runtime_some:
  "find_runtime_ns ns c = Some (a, nd) \<Longrightarrow> \<exists>r\<in>set (c_rt c). rt_desc r = Some (a, nd) \<and> n_name nd = ns"
proof -
  let ?xs = "map the (filter (\<lambda>d. d \<noteq> None) (map rt_desc (c_rt c)))"
  assume "find_runtime_ns ns c = Some (a, nd)"
  then have "(a, nd) \<in> set ?xs" "n_name nd = ns" unfolding find_runtime_ns_def find_Some_iff by (metis nth_mem, auto)
  then show ?thesis by auto
qed

lemma find_upt_some: "find P [0..<n] = Some i \<Longrightarrow> i < n \<and> P i"
  by (auto simp: find_Some_iff)

lemma find_upt_none: "find P [0..<n] = None \<longleftrightarrow> (\<forall>i<n. \<not> P i)"
  by (auto simp: find_None_iff)

lemma find_ns_open:
  assumes "cfg_inv ok ns_of memory c" and "c_inited c" and "espos_config_find_ns ns c = Some (p, nd)"
  shows "\<exists>st h. ns_state_for p c = Some st \<and> slot_h st c = Some h \<and> ns_of (c_be_ctx c) h = ns \<and> n_name nd = ns \<and>
     ns \<noteq> None \<and> slot_desc st c = nd"
proof -
  have ns: "ns \<noteq> None" using assms(3) by (auto simp: espos_config_find_ns_def split: if_splits)
  note I = assms(1) [unfolded cfg_inv_def cfg_base_def]
  show ?thesis
  proof (cases "find (\<lambda>i. n_name (c_tab c ! i) = ns) [0..<length (c_tab c)]")
    case (Some i)
    then have i: "i < length (c_tab c)" "n_name (c_tab c ! i) = ns" by (auto dest: find_upt_some)
    have p: "p = Static i" "nd = c_tab c ! i" using assms(3) ns Some by (auto simp: espos_config_find_ns_def)
    have open_i: "i < length (c_ns c)" "c_ns c ! i \<noteq> None" using I assms(2) i(1) nth_mem [of i "c_ns c"]
      by (auto simp: all_open_def simp del: nth_mem) (metis option.exhaust)
    then obtain h where "c_ns c ! i = Some h" by auto
    with I i p open_i(1) ns show ?thesis
      by (auto simp: ns_state_for_def slot_h_def slot_desc_def handles_ok_def)
  next
    case None
    then obtain a where a: "find_runtime_ns ns c = Some (a, nd)" "p = Runtime a"
      using assms(3) ns by (auto simp: espos_config_find_ns_def)
    obtain r where r: "r \<in> set (c_rt c)" "rt_desc r = Some (a, nd)" "n_name nd = ns" using find_runtime_some [OF a(1)] by blast
    then obtain j where j: "j < length (c_rt c)" "c_rt c ! j = r" by (auto simp: in_set_conv_nth)
    then obtain i where i: "find (\<lambda>i. map_option fst (rt_desc (c_rt c ! i)) = Some a) [0..<length (c_rt c)] = Some i"
      using r(2) by (cases "find (\<lambda>i. map_option fst (rt_desc (c_rt c ! i)) = Some a) [0..<length (c_rt c)]") (auto simp: find_upt_none)
    then have i': "i < length (c_rt c)" "map_option fst (rt_desc (c_rt c ! i)) = Some a" by (auto dest: find_upt_some)
    then obtain nd' where nd': "rt_desc (c_rt c ! i) = Some (a, nd')" by auto
    have m: "c_rt c ! i \<in> set (c_rt c)" using i'(1) by simp
    have "nd' = nd" using I r nd' m unfolding rt_ok_def by (metis (no_types, lifting))
    moreover obtain h where "rt_h (c_rt c ! i) = Some h" using I assms(2) m nd' by (force simp: all_open_def)
    ultimately show ?thesis using I m nd' r(3) ns a(2) i by (auto simp: ns_state_for_def slot_h_def slot_desc_def handles_ok_def)
  qed
qed

lemma lookup_open:
  assumes "cfg_inv ok ns_of memory c" and "c_inited c" and "lookup ns key c = Some (st, p, nd, k)"
  obtains h n kn where "ns_state_for p c = Some st" "slot_h st c = Some h" "ns = Some n" "ns_of (c_be_ctx c) h = Some n" "n_name nd = Some n"
    "key = Some kn" "k_name k = Some kn" "k \<in> set (keys_of nd)"
proof -
  have f: "espos_config_find_ns ns c = Some (p, nd)" "espos_config_find_key nd key = Some k" "ns_state_for p c = Some st"
    using assms(3) by (auto simp: lookup_def split: option.splits prod.splits)
  have "key \<noteq> None \<and> k_name k = key \<and> k \<in> set (keys_of nd)"
    using f(2) by (auto simp: espos_config_find_key_def find_Some_iff split: if_splits)
  with find_ns_open [OF assms(1,2) f(1)] f(3) that show thesis by (cases key) auto
qed

subsection \<open>Reading and writing over the contract\<close>

lemma cfg_alloc_frame:
  "cfg_alloc c = (x, c') \<Longrightarrow> same_tables c c' \<and> c_be_ctx c' = c_be_ctx c \<and> c_calls c' = c_calls c \<and> c_alarms c' = c_alarms c \<and>
     c_generation c' = c_generation c"
  by (auto simp: cfg_alloc_def same_tables_def split: list.splits)

context config_backend
begin

lemma read_effective_reads:
  assumes "ok (c_be_ctx c)" and "ns_state_for p c = Some st" and "slot_h st c = Some h" and "ns_of (c_be_ctx c) h = Some n"
    and "k_name key = Some kn" and "known (k_type key)"
  shows "espos_config_read_effective be p key c =
     (ESP_OK, reads key (stored (c_be_ctx c) n kn), accepted key (stored (c_be_ctx c) n kn) \<noteq> None)"
proof -
  obtain err d l where g: "be_get be h kn (k_type key) True (get_size key) (c_be_ctx c) = (err, d, l)" by (metis prod_cases3)
  have "(if err = ESP_OK then decode_value key d else None) = accepted key (stored (c_be_ctx c) n kn)"
    using get_law [OF assms(1,4,6), of kn "get_size key"] g by (auto simp: accepted_def split: option.splits if_splits prod.splits)
  then show ?thesis using assms g
    by (auto simp: espos_config_read_effective_def reads_def split: option.splits)
qed

lemma value_equals_reads:
  assumes "ok (c_be_ctx c)" and "ns_state_for p c = Some st" and "slot_h st c = Some h" and "ns_of (c_be_ctx c) h = Some n"
    and "k_name key = Some kn" and "known (k_type key)" and "value_equals_effective be p key val c = (err, eq, c')"
  shows "same_tables c c' \<and> c_be_ctx c' = c_be_ctx c \<and> c_calls c' = c_calls c \<and>
     (err = ESP_OK \<longrightarrow> eq = same_value (reads key (stored (c_be_ctx c) n kn)) val)"
proof -
  define r where "r = (if k_type key = ESPOS_CFG_TYPE_STRING \<or> k_type key = ESPOS_CFG_TYPE_BLOB then cfg_alloc c else (True, c))"
  have F: "same_tables c (snd r) \<and> c_be_ctx (snd r) = c_be_ctx c \<and> c_calls (snd r) = c_calls c"
    using cfg_alloc_frame [of c "fst r" "snd r"] by (auto simp: r_def)
  have "espos_config_read_effective be p key (snd r) =
     (ESP_OK, reads key (stored (c_be_ctx c) n kn), accepted key (stored (c_be_ctx c) n kn) \<noteq> None)"
    using read_effective_reads [of "snd r" p st h n key kn] assms F same_tables_lookup(3,4) [of c "snd r"] by simp
  then show ?thesis using assms(7) F unfolding value_equals_effective_def r_def [symmetric]
    by (auto split: prod.splits if_splits)
qed

text \<open>A write: what it stores, what it reports as changed, what it leaves alone.\<close>

lemma store_value_law:
  assumes "ok (c_be_ctx c)" and "ns_of (c_be_ctx c) h = Some n" and "k_name key = Some kn" and "type_of val = k_type key"
    and "store_value be h key val c = (err, c')"
  shows "\<exists>b. c' = c\<lparr>c_be_ctx := b\<rparr> \<and> ok b \<and> ns_of b = ns_of (c_be_ctx c) \<and>
     stored b = (if err = ESP_OK then (stored (c_be_ctx c))(n := (stored (c_be_ctx c) n)(kn := after_write val)) else stored (c_be_ctx c))"
proof -
  have set: ?thesis if "be_set be h kn (k_type key) (value_bytes val) len (c_be_ctx c) = (err, b)" "c' = c\<lparr>c_be_ctx := b\<rparr>"
    "after_write val = Some (k_type key, payload (k_type key) (value_bytes val) len)" for len b
    using set_law [OF assms(1) that(1), of n] assms(2) that by auto
  show ?thesis
  proof (cases "\<exists>bl. val = V_Blob bl \<and> blob_len bl = 0")
    case True
    then obtain bl where bl: "val = V_Blob bl" "blob_len bl = 0" by blast
    obtain e b where e: "be_erase_key be h kn (c_be_ctx c) = (e, b)" by force
    with assms(3,5) bl have "err = (if e = ESP_ERR_NOT_FOUND then ESP_OK else e)" "c' = c\<lparr>c_be_ctx := b\<rparr>"
      by (auto simp: store_value_def)
    with erase_law [OF assms(1) e, of n] assms(2) bl show ?thesis
      by (auto simp: after_write_def split: if_splits)
  next
    case False
    define len where "len = (case val of V_Blob bl \<Rightarrow> blob_len bl | _ \<Rightarrow> length (value_bytes val))"
    obtain e b where e: "be_set be h kn (k_type key) (value_bytes val) len (c_be_ctx c) = (e, b)" by force
    have "store_value be h key val c = (e, c\<lparr>c_be_ctx := b\<rparr>)"
      using False assms(3) e by (cases val) (auto simp: store_value_def len_def)
    moreover have "after_write val = Some (k_type key, payload (k_type key) (value_bytes val) len)"
      using False assms(4) by (cases val) (auto simp: after_write_def len_def)
    ultimately show ?thesis using set e assms(5) by auto
  qed
qed

lemma commit_frame:
  assumes "ok (c_be_ctx c)" and "commit be h c = (err, c')"
  shows "\<exists>b. c' = c\<lparr>c_be_ctx := b\<rparr> \<and> ok b \<and> ns_of b = ns_of (c_be_ctx c) \<and> stored b = stored (c_be_ctx c)"
  using assms commit_law [of "c_be_ctx c" h] by (auto simp: commit_def split: prod.splits)

lemma write_locked_law:
  assumes "ok (c_be_ctx c)" and "ns_state_for p c = Some st" and "slot_h st c = Some h" and "ns_of (c_be_ctx c) h = Some n"
    and "k_name key = Some kn" and "type_of val = k_type key" and "write_locked be st p key val c = (err, changed, c')"
  shows "same_tables c c' \<and> c_calls c' = c_calls c \<and> ok (c_be_ctx c') \<and> ns_of (c_be_ctx c') = ns_of (c_be_ctx c)"
    and "err = ESP_OK \<Longrightarrow> stored (c_be_ctx c') = (stored (c_be_ctx c))(n := (stored (c_be_ctx c) n)(kn := after_write val)) \<and>
       changed = (\<not> same_value (reads key (stored (c_be_ctx c) n kn)) val)"
    and "err \<noteq> ESP_OK \<Longrightarrow> \<not> changed"
proof -
  obtain e eq c1 where v: "value_equals_effective be p key val c = (e, eq, c1)" by (metis prod_cases3)
  have kn: "known (k_type key)" using assms(6) type_of_known [of val] by simp
  note E = value_equals_reads [OF assms(1-5) kn v]
  have h1: "slot_h st c1 = Some h" using E same_tables_lookup(4) [of c c1] assms(3) by simp
  have "same_tables c c' \<and> c_calls c' = c_calls c \<and> ok (c_be_ctx c') \<and> ns_of (c_be_ctx c') = ns_of (c_be_ctx c) \<and>
    (err = ESP_OK \<longrightarrow> stored (c_be_ctx c') = (stored (c_be_ctx c))(n := (stored (c_be_ctx c) n)(kn := after_write val)) \<and>
       changed = (\<not> same_value (reads key (stored (c_be_ctx c) n kn)) val)) \<and> (err \<noteq> ESP_OK \<longrightarrow> \<not> changed)"
  proof (cases "e = ESP_OK")
    case False
    with assms(1,7) v E show ?thesis by (auto simp: write_locked_def)
  next
    case True
    obtain e2 c2 where s: "store_value be h key val c1 = (e2, c2)" by force
    have ok1: "ok (c_be_ctx c1)" "ns_of (c_be_ctx c1) h = Some n" using E assms by simp_all
    from store_value_law [OF ok1 assms(5,6) s] obtain b where b: "c2 = c1\<lparr>c_be_ctx := b\<rparr>" "ok b" "ns_of b = ns_of (c_be_ctx c1)"
      "stored b = (if e2 = ESP_OK then (stored (c_be_ctx c1))(n := (stored (c_be_ctx c1) n)(kn := after_write val)) else stored (c_be_ctx c1))"
      by blast
    show ?thesis
    proof (cases "e2 = ESP_OK")
      case False
      with assms(7) v E True h1 s b show ?thesis by (auto simp: write_locked_def Let_def same_tables_def)
    next
      case e2: True
      obtain e3 c3 where m: "commit be h c2 = (e3, c3)" by force
      have "ok (c_be_ctx c2)" using b by simp
      from commit_frame [OF this m] obtain b3 where "c3 = c2\<lparr>c_be_ctx := b3\<rparr>" "ok b3" "ns_of b3 = ns_of (c_be_ctx c2)" "stored b3 = stored (c_be_ctx c2)"
        by blast
      with assms(7) v E True h1 s b e2 m show ?thesis by (auto simp: write_locked_def Let_def same_tables_def)
    qed
  qed
  then show "same_tables c c' \<and> c_calls c' = c_calls c \<and> ok (c_be_ctx c') \<and> ns_of (c_be_ctx c') = ns_of (c_be_ctx c)"
    "err = ESP_OK \<Longrightarrow> stored (c_be_ctx c') = (stored (c_be_ctx c))(n := (stored (c_be_ctx c) n)(kn := after_write val)) \<and>
       changed = (\<not> same_value (reads key (stored (c_be_ctx c) n kn)) val)"
    "err \<noteq> ESP_OK \<Longrightarrow> \<not> changed" by blast+
qed

end

text \<open>A migration that leaves a key alone.\<close>

primrec avoids :: "string \<Rightarrow> migrate \<Rightarrow> bool" where
  "avoids key (Return err) = True"
| "avoids key (Migrate_Get k ty buf len f) = (\<forall>r. avoids key (f r))"
| "avoids key (Migrate_Set k ty buf len f) = (k \<noteq> key \<and> (\<forall>r. avoids key (f r)))"
| "avoids key (Migrate_Erase k f) = (k \<noteq> key \<and> (\<forall>r. avoids key (f r)))"

context config_backend
begin

lemma reset_locked_law:
  assumes "ok (c_be_ctx c)" and "ns_state_for p c = Some st" and "slot_h st c = Some h" and "ns_of (c_be_ctx c) h = Some n"
    and "k_name key = Some kn" and "known (k_type key)" and "reset_locked be st p key c = (err, changed, c')"
  shows "same_tables c c' \<and> c_calls c' = c_calls c \<and> ok (c_be_ctx c') \<and> ns_of (c_be_ctx c') = ns_of (c_be_ctx c)"
    and "err = ESP_OK \<Longrightarrow> stored (c_be_ctx c') = (stored (c_be_ctx c))(n := (stored (c_be_ctx c) n)(kn := None)) \<and>
       changed = (\<not> same_value (reads key (stored (c_be_ctx c) n kn)) (default_value key))"
    and "err \<noteq> ESP_OK \<Longrightarrow> \<not> changed"
proof -
  obtain e eq c1 where v: "value_equals_effective be p key (default_value key) c = (e, eq, c1)" by (metis prod_cases3)
  note E = value_equals_reads [OF assms(1-6) v]
  have h1: "slot_h st c1 = Some h" using E same_tables_lookup(4) [of c c1] assms(3) by simp
  have "same_tables c c' \<and> c_calls c' = c_calls c \<and> ok (c_be_ctx c') \<and> ns_of (c_be_ctx c') = ns_of (c_be_ctx c) \<and>
    (err = ESP_OK \<longrightarrow> stored (c_be_ctx c') = (stored (c_be_ctx c))(n := (stored (c_be_ctx c) n)(kn := None)) \<and>
       changed = (\<not> same_value (reads key (stored (c_be_ctx c) n kn)) (default_value key))) \<and> (err \<noteq> ESP_OK \<longrightarrow> \<not> changed)"
  proof (cases "e = ESP_OK")
    case False
    with assms(1,7) v E show ?thesis by (auto simp: reset_locked_def)
  next
    case True
    obtain e2 b where s: "be_erase_key be h kn (c_be_ctx c1) = (e2, b)" by force
    have "ok (c_be_ctx c1)" using E assms(1) by simp
    from erase_law [OF this s, of n] E assms(4)
    have b: "ok b" "ns_of b = ns_of (c_be_ctx c)"
      "stored b = (if e2 \<in> {ESP_OK, ESP_ERR_NOT_FOUND} then (stored (c_be_ctx c))(n := (stored (c_be_ctx c) n)(kn := None)) else stored (c_be_ctx c))"
      by simp_all
    obtain e3 c3 where m: "commit be h (c1\<lparr>c_be_ctx := b\<rparr>) = (e3, c3)" by force
    from commit_frame [OF _ m] b(1) obtain b3 where "c3 = c1\<lparr>c_be_ctx := b3\<rparr>" "ok b3" "ns_of b3 = ns_of b" "stored b3 = stored b"
      by auto
    note C = this
    let ?r = "if e2 = ESP_ERR_NOT_FOUND then ESP_OK else e2"
    have "reset_locked be st p key c =
        (case if ?r = ESP_OK then (e3, c3) else (?r, c1\<lparr>c_be_ctx := b\<rparr>) of (err, c) \<Rightarrow> (err, err = ESP_OK \<and> \<not> eq, c))"
      using v True h1 s m assms(5) by (simp add: reset_locked_def Let_def)
    moreover have "same_tables c (c1\<lparr>c_be_ctx := x\<rparr>) \<and> c_calls (c1\<lparr>c_be_ctx := x\<rparr>) = c_calls c" for x
      using E by (simp add: same_tables_def)
    ultimately show ?thesis using assms(7) C b E True by (cases "?r = ESP_OK") (simp_all split: if_splits)
  qed
  then show "same_tables c c' \<and> c_calls c' = c_calls c \<and> ok (c_be_ctx c') \<and> ns_of (c_be_ctx c') = ns_of (c_be_ctx c)"
    "err = ESP_OK \<Longrightarrow> stored (c_be_ctx c') = (stored (c_be_ctx c))(n := (stored (c_be_ctx c) n)(kn := None)) \<and>
       changed = (\<not> same_value (reads key (stored (c_be_ctx c) n kn)) (default_value key))"
    "err \<noteq> ESP_OK \<Longrightarrow> \<not> changed" by blast+
qed

lemma run_migration_law:
  assumes "ok b" and "run_migration be h m b = (err, b')"
  shows "ok b' \<and> ns_of b' = ns_of b \<and>
     (ns_of b h = Some n \<longrightarrow> (\<forall>n'. n' \<noteq> n \<longrightarrow> stored b' n' = stored b n') \<and> (\<forall>key. avoids key m \<longrightarrow> stored b' n key = stored b n key))"
  using assms
proof (induction m arbitrary: b)
  case (Migrate_Get key ty buf len k)
  let ?r = "be_get be h key ty buf len b"
  have "avoids x (k ?r)" if "avoids x (Migrate_Get key ty buf len k)" for x using that by (simp only: avoids.simps)
  moreover have r: "run_migration be h (k ?r) b = (err, b')" using Migrate_Get.prems(2) by simp
  ultimately show ?case using Migrate_Get.IH [OF rangeI Migrate_Get.prems(1) r] by blast
next
  case (Migrate_Set key ty buf len k)
  obtain e b1 where s: "be_set be h key ty buf len b = (e, b1)" by force
  note L = set_law [OF Migrate_Set.prems(1) s, of n]
  have r: "run_migration be h (k e) b1 = (err, b')" using Migrate_Set.prems(2) s by simp
  have "ok b1" using L by simp
  from Migrate_Set.IH [OF rangeI this r] L show ?case by (auto split: if_splits)
next
  case (Migrate_Erase key k)
  obtain e b1 where s: "be_erase_key be h key b = (e, b1)" by force
  note L = erase_law [OF Migrate_Erase.prems(1) s, of n]
  have r: "run_migration be h (k e) b1 = (err, b')" using Migrate_Erase.prems(2) s by simp
  have "ok b1" using L by simp
  from Migrate_Erase.IH [OF rangeI this r] L show ?case by (auto split: if_splits)
qed simp

lemma write_version_law:
  assumes "ok (c_be_ctx c)" and "write_version be h v c = (err, c')"
  shows "\<exists>b. c' = c\<lparr>c_be_ctx := b\<rparr> \<and> ok b \<and> ns_of b = ns_of (c_be_ctx c) \<and>
     (ns_of (c_be_ctx c) h = Some n \<longrightarrow> (\<forall>n'. n' \<noteq> n \<longrightarrow> stored b n' = stored (c_be_ctx c) n') \<and>
        (\<forall>key. key \<noteq> ESPOS_CFG_VERSION_KEY \<longrightarrow> stored b n key = stored (c_be_ctx c) n key) \<and>
        (err = ESP_OK \<longrightarrow> stored b n ESPOS_CFG_VERSION_KEY = Some (ESPOS_CFG_TYPE_INT, word_bytes (ucast v))))"
proof -
  obtain e b1 where s: "be_set be h ESPOS_CFG_VERSION_KEY ESPOS_CFG_TYPE_INT (word_bytes (ucast v)) 4 (c_be_ctx c) = (e, b1)" by force
  note L = set_law [OF assms(1) s, of n]
  obtain e2 c2 where m: "commit be h (c\<lparr>c_be_ctx := b1\<rparr>) = (e2, c2)" by force
  have "payload ESPOS_CFG_TYPE_INT (word_bytes x) 4 = word_bytes x" for x by (simp add: payload_def scalar_size_def)
  with commit_frame [OF _ m] L assms(2) s m show ?thesis by (fastforce simp: write_version_def split: if_splits)
qed

end

subsection \<open>The life cycle keeps the invariant\<close>

text \<open>An operation that only changes what is stored.\<close>

definition only_store :: "('b \<Rightarrow> bool) \<Rightarrow> ('b \<Rightarrow> 'h \<Rightarrow> string option) \<Rightarrow> ('b, 'h) cfg \<Rightarrow> ('b, 'h) cfg \<Rightarrow> bool" where
  "only_store ok ns_of c c' \<longleftrightarrow> (\<exists>b. c' = c\<lparr>c_be_ctx := b\<rparr> \<and> ok b \<and> ns_of b = ns_of (c_be_ctx c))"

lemma only_store_refl: "ok (c_be_ctx c) \<Longrightarrow> only_store ok ns_of c c"
  unfolding only_store_def by (intro exI [of _ "c_be_ctx c"]) simp

lemma only_store_trans: "only_store ok ns_of c c1 \<Longrightarrow> only_store ok ns_of c1 c2 \<Longrightarrow> only_store ok ns_of c c2"
  by (auto simp: only_store_def)

lemma only_store_fields:
  assumes "only_store ok ns_of c c'"
  shows "same_tables c c'" "ok (c_be_ctx c')" "ns_of (c_be_ctx c') = ns_of (c_be_ctx c)" "c_calls c' = c_calls c"
    "c_generation c' = c_generation c" "c_heap c' = c_heap c"
  using assms by (auto simp: only_store_def same_tables_def)

lemma only_store_base:
  assumes "only_store ok ns_of c c'"
  shows "ok (c_be_ctx c) \<Longrightarrow> cfg_base ok ns_of memory c' = cfg_base ok ns_of memory c"
    and "all_open c' = all_open c" and "all_closed c' = all_closed c"
  using assms by (auto simp: only_store_def cfg_base_def handles_ok_def all_open_def all_closed_def)

lemma foldl_upt_Suc: "foldl f c [0..<Suc n] = f (foldl f c [0..<n]) n"
  by simp

context config_backend
begin

lemma write_version_store: "ok (c_be_ctx c) \<Longrightarrow> only_store ok ns_of c (snd (write_version be h v c))"
  using write_version_law [of c h v "fst (write_version be h v c)" "snd (write_version be h v c)" undefined]
  unfolding only_store_def by auto

lemma migrate_one_store: "ok (c_be_ctx c) \<Longrightarrow> only_store ok ns_of c (snd (migrate_one be h nd v c))"
proof (cases "find_migration (n_name nd) v c")
  case (Some m)
  assume o: "ok (c_be_ctx c)"
  obtain err b where r: "run_migration be h (mg_fn m v) (c_be_ctx c) = (err, b)" by force
  have s: "only_store ok ns_of c (c\<lparr>c_be_ctx := b\<rparr>)" using run_migration_law [OF o r] by (auto simp: only_store_def)
  from only_store_trans [OF s write_version_store] only_store_fields(2) [OF s] s Some r show ?thesis
    by (auto simp: migrate_one_def)
qed (simp add: migrate_one_def write_version_store)

lemma migrate_steps_store: "ok (c_be_ctx c) \<Longrightarrow> only_store ok ns_of c (migrate_steps be h nd vs c)"
proof (induction vs arbitrary: c)
  case (Cons v vs)
  obtain err c1 where m: "migrate_one be h nd v c = (err, c1)" by force
  have s: "only_store ok ns_of c c1" using migrate_one_store [OF Cons.prems, of h nd v] m by simp
  from only_store_trans [OF s Cons.IH [OF only_store_fields(2) [OF s]]] s m show ?case by simp
qed (simp add: only_store_refl)

lemma migrate_ns_store:
  assumes "ok (c_be_ctx c)" shows "only_store ok ns_of c (migrate_ns be st c)"
proof -
  let ?h = "the (slot_h st c)"
  obtain e b where er: "be_erase_key be ?h ESPOS_CFG_VERSION_KEY (c_be_ctx c) = (e, b)" by force
  have s: "only_store ok ns_of c (c\<lparr>c_be_ctx := b\<rparr>)" using erase_law [OF assms er] by (auto simp: only_store_def)
  obtain err v where v: "read_version be ?h c = (err, v)" by force
  from only_store_trans [OF s write_version_store] only_store_fields(2) [OF s] assms v er show ?thesis
    by (auto simp: migrate_ns_def Let_def write_version_store migrate_steps_store only_store_refl)
qed

lemma migrate_all_store:
  assumes "ok (c_be_ctx c)" shows "only_store ok ns_of c (migrate_all be c)"
proof -
  have fold: "only_store ok ns_of c (foldl f c xs)"
    if "ok (c_be_ctx c)" "\<And>c x. ok (c_be_ctx c) \<Longrightarrow> only_store ok ns_of c (f c x)" for f :: "('b, 'h) cfg \<Rightarrow> nat \<Rightarrow> ('b, 'h) cfg" and xs c
    using that(1)
  proof (induction xs arbitrary: c)
    case (Cons x xs)
    have s: "only_store ok ns_of c (f c x)" by (rule that(2) [OF Cons.prems])
    show ?case using only_store_trans [OF s Cons.IH [OF only_store_fields(2) [OF s]]] by simp
  qed (simp add: only_store_refl)
  let ?c = "foldl (\<lambda>c i. migrate_ns be (Ns i) c) c [0..<length (c_ns c)]"
  have s: "only_store ok ns_of c ?c" by (rule fold [OF assms migrate_ns_store])
  have "only_store ok ns_of ?c (migrate_runtime_locked be ?c)"
    unfolding migrate_runtime_locked_def
    by (rule fold [OF only_store_fields(2) [OF s]]) (auto simp: migrate_ns_store only_store_refl)
  with s show ?thesis unfolding migrate_all_def by (rule only_store_trans)
qed

text \<open>Closing a handle spares those of every other namespace.\<close>

lemma close_ns_law:
  assumes "cfg_base ok ns_of memory c" and "i < length (c_ns c)"
  shows "\<exists>b. close_ns be c i = c\<lparr>c_be_ctx := b, c_ns := (c_ns c)[i := None]\<rparr> \<and> stored b = stored (c_be_ctx c) \<and>
     cfg_base ok ns_of memory (close_ns be c i)"
proof (cases "c_ns c ! i")
  case None
  then have "(c_ns c)[i := None] = c_ns c" by (metis list_update_id)
  then have "close_ns be c i = c\<lparr>c_be_ctx := c_be_ctx c, c_ns := (c_ns c)[i := None]\<rparr>"
    by (simp add: close_ns_def None)
  moreover have "close_ns be c i = c" by (simp add: close_ns_def None)
  ultimately show ?thesis using assms(1) by metis
next
  case (Some h)
  note B = assms(1) [unfolded cfg_base_def]
  let ?b = "be_close be h (c_be_ctx c)"
  have e: "close_ns be c i = c\<lparr>c_be_ctx := ?b, c_ns := (c_ns c)[i := None]\<rparr>" by (simp add: close_ns_def Some put_ns_def)
  have i: "i < length (c_tab c)" "ns_of (c_be_ctx c) h = n_name (c_tab c ! i)" using B assms(2) Some by (auto simp: handles_ok_def)
  have L: "ok ?b \<and> stored ?b = stored (c_be_ctx c)" "\<And>h' n. ns_of (c_be_ctx c) h' = Some n \<Longrightarrow> h' \<noteq> h \<Longrightarrow> ns_of ?b h' = Some n"
    using close_law [of "c_be_ctx c" h] B by auto
  have other: "ns_of ?b h' = m" if "ns_of (c_be_ctx c) h' = m" "m \<noteq> None" "m \<noteq> n_name (c_tab c ! i)" for h' m
    using L(2) that i(2) by (metis option.exhaust)
  have "handles_ok ns_of (close_ns be c i)"
    unfolding e handles_ok_def
  proof (simp, intro conjI allI impI ballI)
    show "length (c_ns c) \<le> length (c_tab c)" using B by (simp add: handles_ok_def)
  next
    fix j h' assume j: "j < length (c_ns c)" "(c_ns c)[i := None] ! j = Some h'"
    then have ne: "j \<noteq> i" using assms(2) by auto
    with j have h': "c_ns c ! j = Some h'" by simp
    have jt: "j < length (c_tab c)" using handles_okD(1) [of ns_of c] B j(1) by simp
    show "ns_of ?b h' = n_name (c_tab c ! j)"
    proof (rule other)
      show "ns_of (c_be_ctx c) h' = n_name (c_tab c ! j)" using handles_okD(2) [OF _ j(1) h'] B by blast
      show "n_name (c_tab c ! j) \<noteq> None" using tab_okD(1) [OF _ jt] B by blast
      show "n_name (c_tab c ! j) \<noteq> n_name (c_tab c ! i)" using tab_okD(3) [OF _ jt i(1)] B ne by blast
    qed
  next
    fix r a nd h' assume r: "r \<in> set (c_rt c)" "rt_desc r = Some (a, nd)" "rt_h r = Some h'"
    have nm: "n_name nd \<noteq> None" "n_name nd \<notin> n_name ` set (c_tab c)" using rt_okD(1) [OF _ r(1,2)] B by blast+
    have "n_name (c_tab c ! i) \<in> n_name ` set (c_tab c)" using i(1) by simp
    with nm have "n_name nd \<noteq> n_name (c_tab c ! i)" by metis
    moreover have "ns_of (c_be_ctx c) h' = n_name nd" using handles_okD(3) [OF _ r] B by blast
    ultimately show "ns_of ?b h' = n_name nd" using nm(1) by (intro other)
  qed
  then show ?thesis using e L B by (intro exI [of _ ?b]) (simp add: cfg_base_def)
qed

lemma rt_closed:
  assumes "cfg_base ok ns_of memory c" and "i < length (c_rt c)" and "rt_h r = None" and "rt_desc r = None \<or> rt_desc r = rt_desc (c_rt c ! i)"
    and "b = (case rt_h (c_rt c ! i) of None \<Rightarrow> c_be_ctx c | Some h \<Rightarrow> be_close be h (c_be_ctx c))"
  shows "cfg_base ok ns_of memory (c\<lparr>c_be_ctx := b, c_rt := (c_rt c)[i := r]\<rparr>) \<and> stored b = stored (c_be_ctx c)"
proof -
  note B = assms(1) [unfolded cfg_base_def]
  have rt: "rt_ok memory (c_tab c) ((c_rt c)[i := r])" using B assms(2-4) rt_ok_update by blast
  have L: "ok b" "stored b = stored (c_be_ctx c)"
    using close_law [of "c_be_ctx c"] B by (auto simp: assms(5) split: option.splits)
  have other: "ns_of b h' = Some n" if "ns_of (c_be_ctx c) h' = Some n" "rt_h (c_rt c ! i) \<noteq> Some h'" for h' n
    using close_law [of "c_be_ctx c"] B that by (auto simp: assms(5) split: option.splits)
  have mine: "\<exists>a nd. rt_desc (c_rt c ! i) = Some (a, nd) \<and> ns_of (c_be_ctx c) h = n_name nd \<and> n_name nd \<noteq> None \<and> n_name nd \<notin> n_name ` set (c_tab c)"
    if held: "rt_h (c_rt c ! i) = Some h" for h
  proof -
    have m: "c_rt c ! i \<in> set (c_rt c)" using assms(2) by simp
    have rt: "rt_ok memory (c_tab c) (c_rt c)" and ho: "handles_ok ns_of c" using B by blast+
    obtain a nd where d: "rt_desc (c_rt c ! i) = Some (a, nd)" using rt_okD(2) [OF rt m] held by (cases "rt_desc (c_rt c ! i)") auto
    with rt_okD(1) [OF rt m d] handles_okD(3) [OF ho m d held] show ?thesis by blast
  qed
  have "handles_ok ns_of (c\<lparr>c_be_ctx := b, c_rt := (c_rt c)[i := r]\<rparr>)"
    unfolding handles_ok_def
  proof (simp, intro conjI allI impI ballI)
    show "length (c_ns c) \<le> length (c_tab c)" using B by (simp add: handles_ok_def)
  next
    fix j h' assume j: "j < length (c_ns c)" "c_ns c ! j = Some h'"
    have jt: "j < length (c_tab c)" using handles_okD(1) [of ns_of c] B j(1) by simp
    have t: "n_name (c_tab c ! j) \<in> n_name ` set (c_tab c)" "n_name (c_tab c ! j) \<noteq> None" "ns_of (c_be_ctx c) h' = n_name (c_tab c ! j)"
      using tab_okD(1,2) [OF _ jt] handles_okD(2) [OF _ j] B by blast+
    then have "rt_h (c_rt c ! i) \<noteq> Some h'" using mine by metis
    with other t show "ns_of b h' = n_name (c_tab c ! j)" by (metis option.exhaust)
  next
    fix x a nd h' assume x: "x \<in> set ((c_rt c)[i := r])" "rt_desc x = Some (a, nd)" "rt_h x = Some h'"
    then obtain j where j: "j < length (c_rt c)" "x = (c_rt c)[i := r] ! j" by (auto simp: in_set_conv_nth)
    have "j \<noteq> i" using j x(3) assms(2,3) by auto
    with j have ne: "j \<noteq> i" "x = c_rt c ! j" by simp_all
    then have m: "x \<in> set (c_rt c)" using j by simp
    have n: "ns_of (c_be_ctx c) h' = n_name nd" "n_name nd \<noteq> None"
      using handles_okD(3) [OF _ m x(2,3)] rt_okD(1) [OF _ m x(2)] B by blast+
    have "rt_h (c_rt c ! i) \<noteq> Some h'"
    proof
      assume "rt_h (c_rt c ! i) = Some h'"
      from mine [OF this] n(1) obtain b' nd' where d: "rt_desc (c_rt c ! i) = Some (b', nd')" "n_name nd' = n_name nd" by auto
      have rt: "rt_ok memory (c_tab c) (c_rt c)" using B by blast
      from rt_okD(3) [OF rt j(1) assms(2), of a nd b' nd'] d x(2) ne show False by simp
    qed
    with other n show "ns_of b h' = n_name nd" by (metis option.exhaust)
  qed
  with rt L B show ?thesis by (simp add: cfg_base_def)
qed

lemma close_rt_law:
  assumes "cfg_base ok ns_of memory c" and "i < length (c_rt c)"
  shows "\<exists>b. close_rt be c i = c\<lparr>c_be_ctx := b, c_rt := (c_rt c)[i := (c_rt c ! i)\<lparr>rt_h := None\<rparr>]\<rparr> \<and> stored b = stored (c_be_ctx c) \<and>
     cfg_base ok ns_of memory (close_rt be c i)"
proof -
  let ?b = "case rt_h (c_rt c ! i) of None \<Rightarrow> c_be_ctx c | Some h \<Rightarrow> be_close be h (c_be_ctx c)"
  let ?r = "(c_rt c ! i)\<lparr>rt_h := None\<rparr>"
  have e: "close_rt be c i = c\<lparr>c_be_ctx := ?b, c_rt := (c_rt c)[i := ?r]\<rparr>"
  proof (cases "rt_h (c_rt c ! i)")
    case None
    then have "?r = c_rt c ! i" by (cases "c_rt c ! i") simp
    then have "(c_rt c)[i := ?r] = c_rt c" by simp
    with None show ?thesis by (simp add: close_rt_def)
  qed (simp add: close_rt_def put_rt_def)
  from rt_closed [OF assms, of ?r ?b] e show ?thesis by (intro exI [of _ ?b]) simp
qed

lemma close_ns_fold:
  assumes "cfg_base ok ns_of memory c" and "n \<le> length (c_ns c)"
  shows "\<exists>b. foldl (close_ns be) c [0..<n] = c\<lparr>c_be_ctx := b, c_ns := replicate n None @ drop n (c_ns c)\<rparr> \<and> stored b = stored (c_be_ctx c) \<and>
     cfg_base ok ns_of memory (foldl (close_ns be) c [0..<n])"
  using assms(2)
proof (induction n)
  case 0
  then show ?case using assms(1) by (intro exI [of _ "c_be_ctx c"]) simp
next
  case (Suc n)
  let ?c = "foldl (close_ns be) c [0..<n]"
  obtain b where b: "?c = c\<lparr>c_be_ctx := b, c_ns := replicate n None @ drop n (c_ns c)\<rparr>" "stored b = stored (c_be_ctx c)" "cfg_base ok ns_of memory ?c"
    using Suc by auto
  have len: "length (c_ns ?c) = length (c_ns c)" using b(1) Suc.prems by simp
  obtain b' where b': "close_ns be ?c n = ?c\<lparr>c_be_ctx := b', c_ns := (c_ns ?c)[n := None]\<rparr>" "stored b' = stored (c_be_ctx ?c)"
    "cfg_base ok ns_of memory (close_ns be ?c n)"
    using close_ns_law [OF b(3), of n] len Suc.prems by auto
  have "(replicate n None @ drop n (c_ns c))[n := None] = replicate (Suc n) None @ drop (Suc n) (c_ns c)"
    using Suc.prems by (simp add: list_update_append replicate_append_same Cons_nth_drop_Suc [symmetric] flip: replicate_Suc)
  with b b' show ?case by (intro exI [of _ b']) simp
qed

lemma close_rt_fold:
  assumes "cfg_base ok ns_of memory c" and "n \<le> length (c_rt c)"
  shows "\<exists>b. foldl (close_rt be) c [0..<n] =
       c\<lparr>c_be_ctx := b, c_rt := map (\<lambda>r. r\<lparr>rt_h := None\<rparr>) (take n (c_rt c)) @ drop n (c_rt c)\<rparr> \<and> stored b = stored (c_be_ctx c) \<and>
     cfg_base ok ns_of memory (foldl (close_rt be) c [0..<n])"
  using assms(2)
proof (induction n)
  case 0
  then show ?case using assms(1) by (intro exI [of _ "c_be_ctx c"]) simp
next
  case (Suc n)
  let ?c = "foldl (close_rt be) c [0..<n]" and ?f = "\<lambda>r :: 'h rt_slot. r\<lparr>rt_h := None\<rparr>"
  obtain b where b: "?c = c\<lparr>c_be_ctx := b, c_rt := map ?f (take n (c_rt c)) @ drop n (c_rt c)\<rparr>" "stored b = stored (c_be_ctx c)" "cfg_base ok ns_of memory ?c"
    using Suc by auto
  have len: "length (c_rt ?c) = length (c_rt c)" using b(1) Suc.prems by simp
  have nth: "c_rt ?c ! n = c_rt c ! n" using b(1) Suc.prems by (simp add: nth_append)
  obtain b' where b': "close_rt be ?c n = ?c\<lparr>c_be_ctx := b', c_rt := (c_rt ?c)[n := ?f (c_rt ?c ! n)]\<rparr>" "stored b' = stored (c_be_ctx ?c)"
    "cfg_base ok ns_of memory (close_rt be ?c n)"
    using close_rt_law [OF b(3), of n] len Suc.prems by auto
  have "(map ?f (take n (c_rt c)) @ drop n (c_rt c))[n := ?f (c_rt c ! n)] = map ?f (take (Suc n) (c_rt c)) @ drop (Suc n) (c_rt c)"
    using Suc.prems by (simp add: list_update_append Cons_nth_drop_Suc [symmetric] take_Suc_conv_app_nth)
  with b b' nth show ?case by (intro exI [of _ b']) simp
qed

lemma close_all_law:
  assumes "cfg_base ok ns_of memory c"
  shows "\<exists>b. close_all_locked be c =
       c\<lparr>c_be_ctx := b, c_ns := replicate (length (c_ns c)) None, c_rt := map (\<lambda>r. r\<lparr>rt_h := None\<rparr>) (c_rt c)\<rparr> \<and>
     stored b = stored (c_be_ctx c) \<and> cfg_base ok ns_of memory (close_all_locked be c)"
proof -
  let ?c = "foldl (close_ns be) c [0..<length (c_ns c)]"
  obtain b where b: "?c = c\<lparr>c_be_ctx := b, c_ns := replicate (length (c_ns c)) None\<rparr>" "stored b = stored (c_be_ctx c)" "cfg_base ok ns_of memory ?c"
    using close_ns_fold [OF assms, of "length (c_ns c)"] by auto
  from close_rt_fold [OF b(3), of "length (c_rt c)"] b(1) obtain b' where
    "close_all_locked be c = ?c\<lparr>c_be_ctx := b', c_rt := map (\<lambda>r. r\<lparr>rt_h := None\<rparr>) (c_rt c)\<rparr>" "stored b' = stored (c_be_ctx ?c)"
    "cfg_base ok ns_of memory (close_all_locked be c)"
    by (auto simp: close_all_locked_def)
  with b show ?thesis by (intro exI [of _ b']) simp
qed

text \<open>Opening one leaves the others open.\<close>

lemma open_base:
  assumes "cfg_base ok ns_of memory c" and "be_open be n (c_be_ctx c) = (err, r, b)"
  shows "cfg_base ok ns_of memory (c\<lparr>c_be_ctx := b\<rparr>)" and "stored b = stored (c_be_ctx c)"
    and "if err = ESP_OK then (\<exists>h. r = Some h \<and> ns_of b h = Some n) else r = None"
proof -
  have o: "ok (c_be_ctx c)" and t: "tab_ok (c_tab c)" and rt: "rt_ok memory (c_tab c) (c_rt c)" and ho: "handles_ok ns_of c"
    using assms(1) by (simp_all add: cfg_base_def)
  note L = open_law [OF o assms(2)]
  show "stored b = stored (c_be_ctx c)" "if err = ESP_OK then (\<exists>h. r = Some h \<and> ns_of b h = Some n) else r = None"
    using open_law [OF o assms(2), of undefined undefined] by (auto split: if_splits)
  have live: "ns_of b h = m" if "ns_of (c_be_ctx c) h = m" "m \<noteq> None" for h m using L that by (metis option.exhaust)
  have "handles_ok ns_of (c\<lparr>c_be_ctx := b\<rparr>)"
    unfolding handles_ok_def
  proof (simp, intro conjI allI impI ballI)
    show "length (c_ns c) \<le> length (c_tab c)" by (rule handles_okD(1) [OF ho])
  next
    fix i h assume "i < length (c_ns c)" "c_ns c ! i = Some h"
    with handles_okD(1,2) [OF ho] tab_okD(1) [OF t, of i] show "ns_of b h = n_name (c_tab c ! i)" by (intro live) auto
  next
    fix x a nd h assume "x \<in> set (c_rt c)" "rt_desc x = Some (a, nd)" "rt_h x = Some h"
    with handles_okD(3) [OF ho] rt_okD(1) [OF rt] show "ns_of b h = n_name nd" by (intro live) blast+
  qed
  with L t rt show "cfg_base ok ns_of memory (c\<lparr>c_be_ctx := b\<rparr>)" by (simp add: cfg_base_def)
qed

lemma put_ns_base:
  assumes "cfg_base ok ns_of memory c" and "i < length (c_ns c)" and "ns_of (c_be_ctx c) h = n_name (c_tab c ! i)"
  shows "cfg_base ok ns_of memory (put_ns i (Some h) c)"
proof -
  have ho: "handles_ok ns_of c" using assms(1) by (simp add: cfg_base_def)
  have "handles_ok ns_of (put_ns i (Some h) c)"
    unfolding handles_ok_def put_ns_def
  proof (simp, intro conjI allI impI ballI)
    show "length (c_ns c) \<le> length (c_tab c)" by (rule handles_okD(1) [OF ho])
  next
    fix j h' assume "j < length (c_ns c)" "(c_ns c)[i := Some h] ! j = Some h'"
    with handles_okD(2) [OF ho, of j h'] assms(2,3) show "ns_of (c_be_ctx c) h' = n_name (c_tab c ! j)"
      by (cases "j = i") simp_all
  next
    fix x a nd h' assume "x \<in> set (c_rt c)" "rt_desc x = Some (a, nd)" "rt_h x = Some h'"
    then show "ns_of (c_be_ctx c) h' = n_name nd" by (rule handles_okD(3) [OF ho])
  qed
  with assms(1) show ?thesis by (simp add: cfg_base_def put_ns_def)
qed

lemma open_static_law:
  assumes "cfg_base ok ns_of memory c" and "length (c_ns c) = length (c_tab c)" and "nds = drop i (c_tab c)" and "i \<le> length (c_tab c)"
    and "\<forall>j<i. c_ns c ! j \<noteq> None" and "\<forall>j<length (c_ns c). i \<le> j \<longrightarrow> c_ns c ! j = None" and "open_static be nds i c = (err, c')"
  shows "\<exists>b ns. c' = c\<lparr>c_be_ctx := b, c_ns := ns\<rparr> \<and> length ns = length (c_tab c) \<and> stored b = stored (c_be_ctx c) \<and>
     cfg_base ok ns_of memory c' \<and> (if err = ESP_OK then None \<notin> set ns else (\<forall>h\<in>set ns. h = None))"
  using assms
proof (induction nds arbitrary: i c)
  case Nil
  then have "i = length (c_tab c)" by simp
  with Nil have "None \<notin> set (c_ns c)" by (auto simp: in_set_conv_nth)
  with Nil show ?case by (intro exI [of _ "c_be_ctx c"] exI [of _ "c_ns c"]) auto
next
  case (Cons nd nds)
  have i: "i < length (c_tab c)" "nd = c_tab c ! i" "nds = drop (Suc i) (c_tab c)"
    using Cons.prems(3) by (metis drop_all linorder_not_le list.discI, metis Cons_nth_drop_Suc drop_all linorder_not_le list.discI list.inject,
      metis Cons_nth_drop_Suc drop_all linorder_not_le list.discI list.inject)
  have t: "tab_ok (c_tab c)" using Cons.prems(1) by (simp add: cfg_base_def)
  obtain e r b where o: "be_open be (the (n_name nd)) (c_be_ctx c) = (e, r, b)" by (metis prod_cases3)
  note O = open_base [OF Cons.prems(1) o]
  let ?c = "c\<lparr>c_be_ctx := b\<rparr>"
  show ?case
  proof (cases "e = ESP_OK")
    case True
    obtain h where h: "r = Some h" "ns_of b h = Some (the (n_name nd))" using O(3) True by auto
    have "ns_of (c_be_ctx ?c) h = n_name (c_tab ?c ! i)" using h(2) tab_okD(1) [OF t i(1)] i(2) by auto
    then have base: "cfg_base ok ns_of memory (put_ns i (Some h) ?c)" using put_ns_base [OF O(1)] i(1) Cons.prems(2) by simp
    have "open_static be nds (Suc i) (put_ns i (Some h) ?c) = (err, c')" using Cons.prems(7) o True h(1) by simp
    from Cons.IH [OF base _ _ _ _ _ this] Cons.prems(2,5,6) i O(2) show ?thesis
      by (auto simp: put_ns_def nth_list_update less_Suc_eq)
  next
    case False
    then have r: "r = None" using O(3) by simp
    have c': "err = e" "c' = foldl (close_ns be) ?c [0..<i]" using Cons.prems(7) o False r by simp_all
    obtain b' where b': "c' = ?c\<lparr>c_be_ctx := b', c_ns := replicate i None @ drop i (c_ns c)\<rparr>" "stored b' = stored b" "cfg_base ok ns_of memory c'"
      using close_ns_fold [OF O(1), of i] Cons.prems(2) i(1) c'(2) by auto
    have "\<forall>h\<in>set (drop i (c_ns c)). h = None" using Cons.prems(6) by (auto simp: in_set_conv_nth)
    then show ?thesis using b' O(2) False c'(1) Cons.prems(2) i(1) by (intro exI [of _ b'] exI [of _ "replicate i None @ drop i (c_ns c)"]) auto
  qed
qed

lemma put_rt_base:
  assumes "cfg_base ok ns_of memory c" and "i < length (c_rt c)" and "rt_ok memory (c_tab c) ((c_rt c)[i := r])"
    and "\<forall>a nd h. rt_desc r = Some (a, nd) \<and> rt_h r = Some h \<longrightarrow> ns_of (c_be_ctx c) h = n_name nd"
  shows "cfg_base ok ns_of memory (put_rt i r c)"
proof -
  have ho: "handles_ok ns_of c" using assms(1) by (simp add: cfg_base_def)
  have "x = r \<or> x \<in> set (c_rt c)" if "x \<in> set ((c_rt c)[i := r])" for x using that set_update_subset_insert [of "c_rt c" i r] by auto
  then have "handles_ok ns_of (put_rt i r c)"
    using ho assms(4) unfolding handles_ok_def put_rt_def by fastforce
  with assms(1,3) show ?thesis by (simp add: cfg_base_def put_rt_def)
qed

lemma open_rt_law:
  assumes "cfg_base ok ns_of memory c" and "i < length (c_rt c)"
  shows "\<exists>b r g. open_rt be c i = c\<lparr>c_be_ctx := b, c_rt := (c_rt c)[i := r], c_generation := g\<rparr> \<and> stored b = stored (c_be_ctx c) \<and>
     cfg_base ok ns_of memory (open_rt be c i) \<and> (rt_desc r \<noteq> None \<longrightarrow> rt_h r \<noteq> None)"
proof (cases "rt_desc (c_rt c ! i) = None \<or> rt_h (c_rt c ! i) \<noteq> None")
  case True
  then have "open_rt be c i = c" by (auto simp: open_rt_def split: option.splits)
  with True assms(1) show ?thesis
    by (intro exI [of _ "c_be_ctx c"] exI [of _ "c_rt c ! i"] exI [of _ "c_generation c"]) auto
next
  case False
  then obtain a nd where d: "rt_desc (c_rt c ! i) = Some (a, nd)" "rt_h (c_rt c ! i) = None" by auto
  have rt: "rt_ok memory (c_tab c) (c_rt c)" using assms(1) by (simp add: cfg_base_def)
  have nm: "n_name nd \<noteq> None" using rt_okD(1) [OF rt nth_mem [OF assms(2)] d(1)] by blast
  obtain e h b where o: "be_open be (the (n_name nd)) (c_be_ctx c) = (e, h, b)" by (metis prod_cases3)
  note O = open_base [OF assms(1) o]
  let ?c = "c\<lparr>c_be_ctx := b\<rparr>"
  define r where "r = (if e = ESP_OK then (c_rt c ! i)\<lparr>rt_h := h\<rparr> else no_slot)"
  have e: "open_rt be c i = (put_rt i r ?c)\<lparr>c_generation := (if e = ESP_OK then c_generation c else c_generation c + 1)\<rparr>"
    using d o by (simp add: open_rt_def r_def put_rt_def)
  have rr: "rt_desc r \<noteq> None \<longrightarrow> rt_h r \<noteq> None" "rt_desc r = None \<longrightarrow> rt_h r = None" "rt_desc r = None \<or> rt_desc r = rt_desc (c_rt c ! i)"
    using O(3) d by (auto simp: r_def no_slot_def split: if_splits)
  have "rt_ok memory (c_tab ?c) ((c_rt ?c)[i := r])" using rt_ok_update [OF rt assms(2) rr(2,3)] by simp
  moreover have "\<forall>x nd' h'. rt_desc r = Some (x, nd') \<and> rt_h r = Some h' \<longrightarrow> ns_of (c_be_ctx ?c) h' = n_name nd'"
    using O(3) d(1) nm by (auto simp: r_def no_slot_def split: if_splits)
  ultimately have "cfg_base ok ns_of memory (put_rt i r ?c)" using put_rt_base [OF O(1)] assms(2) by simp
  then have "cfg_base ok ns_of memory (open_rt be c i)" by (simp add: e cfg_base_def handles_ok_def)
  with e O(2) rr(1) show ?thesis
    by (intro exI [of _ b] exI [of _ r] exI [of _ "if e = ESP_OK then c_generation c else c_generation c + 1"]) (simp add: put_rt_def)
qed

lemma open_rt_fold:
  assumes "cfg_base ok ns_of memory c" and "n \<le> length (c_rt c)"
  shows "\<exists>b rts g. foldl (open_rt be) c [0..<n] = c\<lparr>c_be_ctx := b, c_rt := rts, c_generation := g\<rparr> \<and> stored b = stored (c_be_ctx c) \<and>
     length rts = length (c_rt c) \<and> cfg_base ok ns_of memory (foldl (open_rt be) c [0..<n]) \<and>
     (\<forall>j<n. rt_desc (rts ! j) \<noteq> None \<longrightarrow> rt_h (rts ! j) \<noteq> None)"
  using assms(2)
proof (induction n)
  case 0
  then show ?case using assms(1) by (intro exI [of _ "c_be_ctx c"] exI [of _ "c_rt c"] exI [of _ "c_generation c"]) simp
next
  case (Suc n)
  let ?c = "foldl (open_rt be) c [0..<n]"
  obtain b rts g where b: "?c = c\<lparr>c_be_ctx := b, c_rt := rts, c_generation := g\<rparr>" "stored b = stored (c_be_ctx c)" "length rts = length (c_rt c)"
    "cfg_base ok ns_of memory ?c" "\<forall>j<n. rt_desc (rts ! j) \<noteq> None \<longrightarrow> rt_h (rts ! j) \<noteq> None"
    using Suc by auto
  obtain b' r g' where b': "open_rt be ?c n = ?c\<lparr>c_be_ctx := b', c_rt := (c_rt ?c)[n := r], c_generation := g'\<rparr>" "stored b' = stored (c_be_ctx ?c)"
    "cfg_base ok ns_of memory (open_rt be ?c n)" "rt_desc r \<noteq> None \<longrightarrow> rt_h r \<noteq> None"
    using open_rt_law [OF b(4), of n] b(1,3) Suc.prems by auto
  have "\<forall>j<Suc n. rt_desc (rts[n := r] ! j) \<noteq> None \<longrightarrow> rt_h (rts[n := r] ! j) \<noteq> None"
    using b(3,5) b'(4) Suc.prems by (auto simp: nth_list_update less_Suc_eq)
  with b b' show ?case by (intro exI [of _ b'] exI [of _ "rts[n := r]"] exI [of _ g']) simp
qed

lemma open_all_law:
  assumes "cfg_base ok ns_of memory c" and "c_ns c = replicate (length (c_tab c)) None" and "open_all_locked be c = (err, c')"
    and "all_closed c"
  shows "\<exists>b ns rts g. c' = c\<lparr>c_be_ctx := b, c_ns := ns, c_rt := rts, c_generation := g\<rparr> \<and> stored b = stored (c_be_ctx c) \<and>
     cfg_base ok ns_of memory c' \<and> (if err = ESP_OK then all_open c' else all_closed c' \<and> rts = c_rt c)"
proof -
  obtain e c1 where s: "open_static be (c_tab c) 0 c = (e, c1)" by force
  obtain b ns where b: "c1 = c\<lparr>c_be_ctx := b, c_ns := ns\<rparr>" "length ns = length (c_tab c)" "stored b = stored (c_be_ctx c)"
    "cfg_base ok ns_of memory c1" "if e = ESP_OK then None \<notin> set ns else (\<forall>h\<in>set ns. h = None)"
    using open_static_law [OF assms(1) _ _ _ _ _ s] assms(2) by auto
  show ?thesis
  proof (cases "e = ESP_OK")
    case False
    with assms(3,4) s b show ?thesis
      by (intro exI [of _ b] exI [of _ ns] exI [of _ "c_rt c"] exI [of _ "c_generation c"]) (auto simp: open_all_locked_def all_closed_def)
  next
    case True
    have c': "err = ESP_OK" "c' = foldl (open_rt be) c1 [0..<length (c_rt c1)]" using assms(3) s True by (simp_all add: open_all_locked_def)
    from open_rt_fold [OF b(4) order_refl] obtain b' rts g where
      f: "c' = c1\<lparr>c_be_ctx := b', c_rt := rts, c_generation := g\<rparr>" "stored b' = stored (c_be_ctx c1)" "length rts = length (c_rt c1)"
      "cfg_base ok ns_of memory c'" "\<forall>j<length (c_rt c1). rt_desc (rts ! j) \<noteq> None \<longrightarrow> rt_h (rts ! j) \<noteq> None"
      unfolding c'(2) by blast
    then have "\<forall>r\<in>set rts. rt_desc r \<noteq> None \<longrightarrow> rt_h r \<noteq> None" by (metis in_set_conv_nth)
    with b f True c'(1) show ?thesis
      by (intro exI [of _ b'] exI [of _ ns] exI [of _ rts] exI [of _ g]) (simp add: all_open_def)
  qed
qed

lemma cfg_inv_fields:
  assumes "cfg_inv ok ns_of memory c" and "c_be_ctx c' = c_be_ctx c" "c_tab c' = c_tab c" "c_ns c' = c_ns c" "c_rt c' = c_rt c" "c_inited c' = c_inited c"
  shows "cfg_inv ok ns_of memory c'"
  using assms(1) unfolding cfg_inv_def cfg_base_def handles_ok_def all_open_def all_closed_def assms(2-) .

lemma ensure_lock_fields:
  "ensure_lock c = (err, c') \<Longrightarrow> c_be_ctx c' = c_be_ctx c \<and> c_tab c' = c_tab c \<and> c_ns c' = c_ns c \<and> c_rt c' = c_rt c \<and> c_inited c' = c_inited c \<and>
     c_calls c' = c_calls c"
  using cfg_alloc_frame [of c] by (auto simp: ensure_lock_def same_tables_def split: if_splits prod.splits)

lemma init_inv:
  assumes "cfg_inv ok ns_of memory c" and "espos_config_init be c = (err, c')"
  shows "cfg_inv ok ns_of memory c'"
proof (cases "c_inited c")
  case True
  with assms show ?thesis by (simp add: espos_config_init_def)
next
  case False
  obtain e c1 where l: "ensure_lock c = (e, c1)" by force
  note L = ensure_lock_fields [OF l]
  have i1: "cfg_inv ok ns_of memory c1" using cfg_inv_fields [OF assms(1)] L by simp
  obtain x c2 where a: "cfg_alloc c1 = (x, c2)" by force
  note A = cfg_alloc_frame [OF a, unfolded same_tables_def]
  have i2: "cfg_inv ok ns_of memory c2" using cfg_inv_fields [OF i1] A by simp
  let ?c3 = "c2\<lparr>c_ns := replicate (length (c_tab c2)) None\<rparr>"
  obtain e4 reset b where b: "be_init be (c_be_ctx c2) = (e4, reset, b)" by (metis prod_cases3)
  have "ok (c_be_ctx c2)" using i2 by (simp add: cfg_inv_def cfg_base_def)
  from init_law [OF this b] have okb: "ok b" by simp
  let ?c4 = "?c3\<lparr>c_be_ctx := b\<rparr>"
  have closed: "all_closed c2" using i2 L A False by (simp add: cfg_inv_def)
  have base4: "cfg_base ok ns_of memory (?c4\<lparr>c_storage_reset := r\<rparr>)" "all_closed (?c4\<lparr>c_storage_reset := r\<rparr>)" for r
    using i2 closed okb by (auto simp: cfg_inv_def cfg_base_def handles_ok_def all_closed_def)
  obtain e5 c5 where o: "open_all_locked be (?c4\<lparr>c_storage_reset := reset\<rparr>) = (e5, c5)" by force
  have n4: "c_ns (?c4\<lparr>c_storage_reset := reset\<rparr>) = replicate (length (c_tab (?c4\<lparr>c_storage_reset := reset\<rparr>))) None" by simp
  from open_all_law [OF base4(1) n4 o base4(2)] obtain b5 ns rts g where
    O: "c5 = ?c4\<lparr>c_storage_reset := reset, c_be_ctx := b5, c_ns := ns, c_rt := rts, c_generation := g\<rparr>" "cfg_base ok ns_of memory c5"
      "if e5 = ESP_OK then all_open c5 else all_closed c5 \<and> rts = c_rt (?c4\<lparr>c_storage_reset := reset\<rparr>)" by blast
  have R: "espos_config_init be c = (if e \<noteq> ESP_OK then (e, c1) else if \<not> x then (ESP_ERR_NO_MEM, c2)
      else if e4 \<noteq> ESP_OK then (e4, ?c4\<lparr>c_ns := []\<rparr>)
      else if e5 \<noteq> ESP_OK then (e5, c5\<lparr>c_ns := []\<rparr>) else (ESP_OK, (migrate_all be c5)\<lparr>c_inited := True\<rparr>))"
    using False l a b o by (cases x) (simp_all add: espos_config_init_def Let_def)
  have i4: "cfg_inv ok ns_of memory (?c4\<lparr>c_ns := []\<rparr>)"
    using base4 [of False] L A False by (auto simp: cfg_inv_def cfg_base_def handles_ok_def all_closed_def)
  have i5: "cfg_inv ok ns_of memory (c5\<lparr>c_ns := []\<rparr>)" if "e5 \<noteq> ESP_OK"
    using O that L A False by (auto simp: cfg_inv_def cfg_base_def handles_ok_def all_closed_def)
  have i6: "cfg_inv ok ns_of memory ((migrate_all be c5)\<lparr>c_inited := True\<rparr>)" if "e5 = ESP_OK"
  proof -
    have o5: "ok (c_be_ctx c5)" using O(2) by (simp add: cfg_base_def)
    note M = migrate_all_store [OF o5]
    from only_store_base [OF M] o5 O that have "cfg_base ok ns_of memory (migrate_all be c5)" "all_open (migrate_all be c5)" by simp_all
    then show ?thesis by (simp add: cfg_inv_def cfg_base_def handles_ok_def all_open_def)
  qed
  show ?thesis using assms(2) i1 i2 i4 i5 i6 unfolding R by (auto split: if_splits)
qed

lemma deinit_inv:
  assumes "cfg_inv ok ns_of memory c" shows "cfg_inv ok ns_of memory (espos_config_deinit be c)"
proof (cases "c_inited c")
  case True
  from assms have "cfg_base ok ns_of memory c" by (simp add: cfg_inv_def)
  from close_all_law [OF this] obtain b where b: "close_all_locked be c =
       c\<lparr>c_be_ctx := b, c_ns := replicate (length (c_ns c)) None, c_rt := map (\<lambda>r. r\<lparr>rt_h := None\<rparr>) (c_rt c)\<rparr>"
    "cfg_base ok ns_of memory (close_all_locked be c)" by blast
  have "rt_ok memory t (replicate CONFIG_ESPOS_CONFIG_MAX_RUNTIME_NS no_slot)" for t :: "cfg_ns list" by (auto simp: rt_ok_def no_slot_def)
  with b True show ?thesis
    by (auto simp: espos_config_deinit_def Let_def cfg_inv_def cfg_base_def handles_ok_def all_closed_def no_slot_def)
qed (simp add: espos_config_deinit_def assms)

text \<open>A factory reset that succeeds has emptied the store before the namespaces were stamped anew.\<close>

lemma factory_reset_law:
  assumes "cfg_inv ok ns_of memory c" and "c_inited c" and "espos_config_factory_reset be c = (err, c')"
  shows "cfg_inv ok ns_of memory c'"
    and "err = ESP_OK \<Longrightarrow> \<exists>c1. c' = migrate_all be c1 \<and> cfg_base ok ns_of memory c1 \<and> all_open c1 \<and> c_inited c1 \<and>
      (\<forall>n key. stored (c_be_ctx c1) n key = None) \<and> c_tab c1 = c_tab c"
proof -
  from assms(1) have base: "cfg_base ok ns_of memory c" and len: "length (c_ns c) = length (c_tab c)"
    using assms(2) by (simp_all add: cfg_inv_def all_open_def)
  from close_all_law [OF base] obtain b where b: "close_all_locked be c =
       c\<lparr>c_be_ctx := b, c_ns := replicate (length (c_ns c)) None, c_rt := map (\<lambda>r. r\<lparr>rt_h := None\<rparr>) (c_rt c)\<rparr>"
    "cfg_base ok ns_of memory (close_all_locked be c)" by blast
  let ?c = "close_all_locked be c"
  obtain e1 b1 where w: "be_erase_storage be b = (e1, b1)" by force
  obtain e2 reset b2 where i: "be_init be b1 = (e2, reset, b2)" by (metis prod_cases3)
  have "ok b" using b by (simp add: cfg_base_def)
  note W = wipe_law [OF this w]
  have "ok b1" using W by blast
  note J = init_law [OF this i]
  define x where "x = (if e1 = ESP_OK then (e2, b2) else (e1, b1))"
  have x: "ok (snd x)" "fst x = ESP_OK \<Longrightarrow> stored (snd x) n key = None" for n key using W J by (auto simp: x_def split: if_splits)
  let ?d = "?c\<lparr>c_be_ctx := snd x\<rparr>"
  have closed: "all_closed ?d" using b by (auto simp: all_closed_def)
  have base_d: "cfg_base ok ns_of memory ?d"
    using b x(1) by (auto simp: cfg_base_def handles_ok_def)
  have ns_d: "c_ns ?d = replicate (length (c_tab ?d)) None" using b(1) len by simp
  obtain e3 c3 where o: "open_all_locked be ?d = (e3, c3)" by force
  from open_all_law [OF base_d ns_d o closed] obtain b3 ns rts g where
    O: "c3 = ?d\<lparr>c_be_ctx := b3, c_ns := ns, c_rt := rts, c_generation := g\<rparr>" "stored b3 = stored (c_be_ctx ?d)" "cfg_base ok ns_of memory c3"
      "if e3 = ESP_OK then all_open c3 else all_closed c3 \<and> rts = c_rt ?d" by blast
  have R: "espos_config_factory_reset be c = (if fst x = ESP_OK
      then (if e3 = ESP_OK then (ESP_OK, migrate_all be c3) else (e3, c3\<lparr>c_inited := False, c_ns := []\<rparr>))
      else (fst x, ?d\<lparr>c_inited := False, c_ns := []\<rparr>))"
    using assms(2) w i o b(1) unfolding espos_config_factory_reset_def x_def by (auto simp: Let_def)
  have inited: "c_inited c3" using O(1) b(1) assms(2) by simp
  have i1: "cfg_inv ok ns_of memory (?d\<lparr>c_inited := False, c_ns := []\<rparr>)"
    using base_d closed by (simp add: cfg_inv_def cfg_base_def handles_ok_def all_closed_def)
  have i2: "cfg_inv ok ns_of memory (c3\<lparr>c_inited := False, c_ns := []\<rparr>)" if "e3 \<noteq> ESP_OK"
    using O(3,4) that by (simp add: cfg_inv_def cfg_base_def handles_ok_def all_closed_def)
  have i3: "cfg_inv ok ns_of memory (migrate_all be c3)" if "e3 = ESP_OK"
  proof -
    have o3: "ok (c_be_ctx c3)" using O(3) by (simp add: cfg_base_def)
    note M = migrate_all_store [OF o3]
    from only_store_base [OF M] o3 O(3,4) that only_store_fields(1) [OF M] inited show ?thesis by (simp add: cfg_inv_def same_tables_def)
  qed
  show "cfg_inv ok ns_of memory c'" using assms(3) i1 i2 i3 unfolding R by (auto split: if_splits)
  show "\<exists>c1. c' = migrate_all be c1 \<and> cfg_base ok ns_of memory c1 \<and> all_open c1 \<and> c_inited c1 \<and>
      (\<forall>n key. stored (c_be_ctx c1) n key = None) \<and> c_tab c1 = c_tab c" if "err = ESP_OK"
    using assms(3) that O inited x(2) b(1) unfolding R by (intro exI [of _ c3]) (auto split: if_splits)
qed

lemma rt_ok_enter:
  assumes "rt_ok memory tab rts" and "i < length rts" and "rt_desc (rts ! i) = None" and "n_name (memory a) \<noteq> None"
    and "n_name (memory a) \<notin> n_name ` set tab" and "\<forall>r\<in>set rts. \<forall>b y. rt_desc r = Some (b, y) \<longrightarrow> n_name y \<noteq> n_name (memory a)"
    and "rt_desc r = Some (a, memory a)"
  shows "rt_ok memory tab (rts[i := r])"
proof -
  have "x = r \<or> x \<in> set rts" if "x \<in> set (rts[i := r])" for x using that set_update_subset_insert [of rts i r] by auto
  then have slots: "\<forall>x\<in>set (rts[i := r]). (rt_desc x = None \<longrightarrow> rt_h x = None) \<and>
      (\<forall>a nd. rt_desc x = Some (a, nd) \<longrightarrow> nd = memory a \<and> n_name nd \<noteq> None \<and> n_name nd \<notin> n_name ` set tab)"
    using rt_okD(1,2) [OF assms(1)] assms(4,5,7) by (metis option.distinct(1) option.inject prod.inject)
  have "j = k" if "j < length rts" "k < length rts" "rt_desc (rts[i := r] ! j) = Some (b, x)" "rt_desc (rts[i := r] ! k) = Some (b', y)"
    "n_name x = n_name y" for j k b b' x y
  proof -
    have new: "rt_desc (rts[i := r] ! m) = Some (u, z) \<Longrightarrow> m < length rts \<Longrightarrow> m \<noteq> i \<Longrightarrow> n_name z \<noteq> n_name (memory a)" for m u z
      using assms(6) by (metis nth_list_update_neq nth_mem)
    have me: "rt_desc (rts[i := r] ! i) = Some (u, z) \<Longrightarrow> z = memory a" for u z using assms(2,7) by auto
    show ?thesis
    proof (cases "j = i"; cases "k = i")
      assume "j \<noteq> i" "k \<noteq> i"
      with that rt_okD(3) [OF assms(1)] show ?thesis by simp
    qed (use that new me in \<open>metis+\<close>)
  qed
  with slots rt_okD(4) [OF assms(1)] show ?thesis unfolding rt_ok_def by simp
qed

lemma validate_runtime_fields:
  "validate_runtime_desc nd c = (err, c') \<Longrightarrow> c_be_ctx c' = c_be_ctx c \<and> c_tab c' = c_tab c \<and> c_ns c' = c_ns c \<and> c_rt c' = c_rt c \<and>
     c_inited c' = c_inited c \<and> c_calls c' = c_calls c \<and> (err = ESP_OK \<longrightarrow> valid_ns_name (n_name nd) \<and> first_fault (keys_of nd) = None)"
  by (auto simp: validate_runtime_desc_def flow_config_alarm_def split: if_splits option.splits)

lemma enter_slot_inv:
  assumes "cfg_inv ok ns_of memory c" and "i < length (c_rt c)" and "rt_desc (c_rt c ! i) = None" and "valid_ns_name (n_name (memory a))"
    and "n_name (memory a) \<notin> n_name ` set (c_tab c)" and "find_runtime_ns (n_name (memory a)) c = None"
    and "enter_slot be i a (memory a) c = (err, c')"
  shows "cfg_inv ok ns_of memory c'"
proof -
  let ?nd = "memory a"
  have nm: "n_name ?nd \<noteq> None" using assms(4) by (auto simp: valid_ns_name_def split: option.splits)
  have rt: "rt_ok memory (c_tab c) (c_rt c)" and base: "cfg_base ok ns_of memory c" using assms(1) by (simp_all add: cfg_inv_def cfg_base_def)
  have new: "\<forall>r\<in>set (c_rt c). \<forall>b y. rt_desc r = Some (b, y) \<longrightarrow> n_name y \<noteq> n_name ?nd"
    using assms(6) by (fastforce simp: find_runtime_ns_def find_None_iff image_iff)
  note E = rt_ok_enter [OF rt assms(2,3) nm assms(5) new]
  show ?thesis
  proof (cases "c_inited c")
    case False
    let ?r = "\<lparr>rt_desc = Some (a, ?nd), rt_h = None\<rparr>"
    have b: "cfg_base ok ns_of memory (put_rt i ?r c)" by (rule put_rt_base [OF base assms(2) E]) simp_all
    have "all_closed (put_rt i ?r c)"
      using assms(1) False set_update_subset_insert [of "c_rt c" i ?r] by (auto simp: cfg_inv_def all_closed_def put_rt_def)
    then have "cfg_inv ok ns_of memory (put_rt i ?r c)" using b False by (simp add: cfg_inv_def put_rt_def)
    then have "cfg_inv ok ns_of memory ((put_rt i ?r c)\<lparr>c_generation := g\<rparr>)" for g by (rule cfg_inv_fields) simp_all
    with assms(7) False show ?thesis by (auto simp: enter_slot_def)
  next
    case True
    obtain e h b where o: "be_open be (the (n_name ?nd)) (c_be_ctx c) = (e, h, b)" by (metis prod_cases3)
    note O = open_base [OF base o]
    let ?r = "\<lparr>rt_desc = (if e = ESP_OK then Some (a, ?nd) else None), rt_h = h\<rparr>"
    let ?c = "put_rt i ?r (c\<lparr>c_be_ctx := b\<rparr>)"
    have "rt_ok memory (c_tab c) ((c_rt c)[i := ?r])"
    proof (cases "e = ESP_OK")
      case False
      with O(3) show ?thesis by (intro rt_ok_update [OF rt assms(2)]) auto
    qed (intro E, simp)
    then have base_c: "cfg_base ok ns_of memory ?c"
      using O(1,3) assms(2) nm by (intro put_rt_base) (auto split: if_splits)
    have "x = ?r \<or> x \<in> set (c_rt c)" if "x \<in> set ((c_rt c)[i := ?r])" for x using that set_update_subset_insert [of "c_rt c" i ?r] by auto
    moreover have "rt_desc ?r \<noteq> None \<longrightarrow> rt_h ?r \<noteq> None" using O(3) by (auto split: if_splits)
    ultimately have "all_open ?c" using assms(1) True unfolding cfg_inv_def all_open_def put_rt_def by (fastforce split: if_splits)
    with base_c True have inv: "cfg_inv ok ns_of memory ?c" by (simp add: cfg_inv_def put_rt_def)
    have okc: "ok (c_be_ctx ?c)" using base_c by (simp add: cfg_base_def)
    note M = migrate_ns_store [OF okc, of "Rt i"]
    have inv2: "cfg_inv ok ns_of memory (migrate_ns be (Rt i) ?c)"
      by (rule same_tables_inv [OF only_store_fields(1) [OF M] inv only_store_fields(2,3) [OF M]])
    have "cfg_inv ok ns_of memory (flow_config_alarm n al ?c)" "cfg_inv ok ns_of memory ((migrate_ns be (Rt i) ?c)\<lparr>c_generation := g\<rparr>)" for n al g
      by (rule cfg_inv_fields [OF inv]; simp add: flow_config_alarm_def) (rule cfg_inv_fields [OF inv2]; simp)
    with assms(7) True o show ?thesis by (auto simp: enter_slot_def Let_def split: if_splits)
  qed
qed

lemma register_inv:
  assumes "cfg_inv ok ns_of memory c" and "espos_config_register_ns be a (memory a) c = (err, c')"
  shows "cfg_inv ok ns_of memory c'"
proof -
  let ?nd = "memory a"
  obtain e1 c1 where v: "validate_runtime_desc ?nd c = (e1, c1)" by force
  note V = validate_runtime_fields [OF v]
  have i1: "cfg_inv ok ns_of memory c1" using cfg_inv_fields [OF assms(1)] V by simp
  obtain e2 c2 where l: "ensure_lock c1 = (e2, c2)" by force
  note L = ensure_lock_fields [OF l]
  have i2: "cfg_inv ok ns_of memory c2" using cfg_inv_fields [OF i1] L by simp
  have alarm: "cfg_inv ok ns_of memory (flow_config_alarm n al c2)" for n al by (rule cfg_inv_fields [OF i2]; simp add: flow_config_alarm_def)
  show ?thesis
  proof (cases "e1 = ESP_OK \<and> e2 = ESP_OK \<and> \<not> list_ex (\<lambda>d. n_name d = n_name ?nd) (c_tab c2) \<and> find_runtime_ns (n_name ?nd) c2 = None")
    case False
    with assms(2) v l i1 i2 alarm show ?thesis by (auto simp: espos_config_register_ns_def split: if_splits)
  next
    case True
    then have tab: "n_name ?nd \<notin> n_name ` set (c_tab c2)" by (auto simp: list_ex_iff)
    show ?thesis
    proof (cases "find (\<lambda>i. rt_desc (c_rt c2 ! i) = None) [0..<length (c_rt c2)]")
      case None
      with assms(2) v l True alarm show ?thesis by (auto simp: espos_config_register_ns_def)
    next
      case (Some i)
      then have i: "i < length (c_rt c2)" "rt_desc (c_rt c2 ! i) = None" by (auto dest: find_upt_some)
      have "enter_slot be i a ?nd c2 = (err, c')" using assms(2) v l True Some by (auto simp: espos_config_register_ns_def split: if_splits)
      with enter_slot_inv [OF i2 i _ tab] V True show ?thesis by blast
    qed
  qed
qed

lemma unregister_inv:
  assumes "cfg_inv ok ns_of memory c" and "espos_config_unregister_ns be ns c = (err, c')"
  shows "cfg_inv ok ns_of memory c'"
proof -
  let ?P = "\<lambda>i. case rt_desc (c_rt c ! i) of None \<Rightarrow> False | Some (a, nd) \<Rightarrow> n_name nd = ns"
  have base: "cfg_base ok ns_of memory c" using assms(1) by (simp add: cfg_inv_def)
  show ?thesis
  proof (cases "ns = None \<or> list_ex (\<lambda>d. n_name d = ns) (c_tab c) \<or> \<not> c_lock c \<or> find ?P [0..<length (c_rt c)] = None")
    case True
    with assms show ?thesis by (auto simp: espos_config_unregister_ns_def split: if_splits)
  next
    case False
    then obtain i where f: "find ?P [0..<length (c_rt c)] = Some i" by auto
    then have i: "i < length (c_rt c)" by (auto dest: find_upt_some)
    let ?b = "case rt_h (c_rt c ! i) of None \<Rightarrow> c_be_ctx c | Some h \<Rightarrow> be_close be h (c_be_ctx c)"
    let ?c = "c\<lparr>c_be_ctx := ?b, c_rt := (c_rt c)[i := no_slot]\<rparr>"
    have c': "c' = ?c\<lparr>c_generation := c_generation c + 1\<rparr>"
      using assms(2) False f by (cases "rt_h (c_rt c ! i)") (auto simp: espos_config_unregister_ns_def put_rt_def Let_def)
    have base_c: "cfg_base ok ns_of memory ?c" using rt_closed [OF base i, of no_slot ?b] by (simp add: no_slot_def)
    have slots: "\<forall>x\<in>set ((c_rt c)[i := no_slot]). x \<in> set (c_rt c) \<or> rt_desc x = None \<and> rt_h x = None"
      using set_update_subset_insert [of "c_rt c" i no_slot] by (auto simp: no_slot_def)
    have "all_open ?c" if "c_inited c"
      using assms(1) that slots all_open_shrink [of c ?c] by (simp add: cfg_inv_def)
    moreover have "all_closed ?c" if "\<not> c_inited c"
      using assms(1) that slots all_closed_shrink [of c ?c] by (simp add: cfg_inv_def)
    ultimately have "cfg_inv ok ns_of memory ?c" using base_c by (cases "c_inited c") (simp_all add: cfg_inv_def)
    then show ?thesis unfolding c' by (rule cfg_inv_fields) simp_all
  qed
qed

text \<open>An accepted value is the one that is read, every other key keeps its own, and subscribers hear of a change.\<close>

lemma set_value_law:
  assumes "cfg_inv ok ns_of memory c" and "set_value be ns key val c = (err, c')"
  shows "cfg_inv ok ns_of memory c'" and "same_tables c c'"
    and "err = ESP_OK \<Longrightarrow> \<exists>st p nd k n kn. c_inited c \<and> lookup ns key c = Some (st, p, nd, k) \<and> ns = Some n \<and> key = Some kn \<and> k_name k = Some kn \<and>
      n_name nd = Some n \<and> espos_config_validate k val \<and>
      stored (c_be_ctx c') = (stored (c_be_ctx c))(n := (stored (c_be_ctx c) n)(kn := after_write val)) \<and>
      c_calls c' = c_calls c @ (if same_value (reads k (stored (c_be_ctx c) n kn)) val then []
        else map (\<lambda>s. (fst (the s), snd (the s), Some n, Some kn)) (filter (\<lambda>s. s \<noteq> None) (c_subs c)))"
    and "err \<noteq> ESP_OK \<Longrightarrow> c_calls c' = c_calls c"
proof -
  have "cfg_inv ok ns_of memory c' \<and> same_tables c c' \<and> (err \<noteq> ESP_OK \<longrightarrow> c_calls c' = c_calls c) \<and>
    (err = ESP_OK \<longrightarrow> (\<exists>st p nd k n kn. c_inited c \<and> lookup ns key c = Some (st, p, nd, k) \<and> ns = Some n \<and> key = Some kn \<and> k_name k = Some kn \<and>
      n_name nd = Some n \<and> espos_config_validate k val \<and>
      stored (c_be_ctx c') = (stored (c_be_ctx c))(n := (stored (c_be_ctx c) n)(kn := after_write val)) \<and>
      c_calls c' = c_calls c @ (if same_value (reads k (stored (c_be_ctx c) n kn)) val then []
        else map (\<lambda>s. (fst (the s), snd (the s), Some n, Some kn)) (filter (\<lambda>s. s \<noteq> None) (c_subs c)))))"
  proof (cases "c_inited c \<and> (\<exists>st p nd k. lookup ns key c = Some (st, p, nd, k) \<and> k_flags k AND ESPOS_CFG_FLAG_READ_ONLY = 0 \<and> espos_config_validate k val)")
    case False
    then have "err \<noteq> ESP_OK \<and> c' = c" using assms(2) by (auto simp: set_value_def split: if_splits option.splits)
    with assms(1) show ?thesis by simp
  next
    case True
    then obtain st p nd k where l: "c_inited c" "lookup ns key c = Some (st, p, nd, k)" "k_flags k AND ESPOS_CFG_FLAG_READ_ONLY = 0"
      "espos_config_validate k val" by blast
    from lookup_open [OF assms(1) l(1,2)] obtain h n kn where
      o: "ns_state_for p c = Some st" "slot_h st c = Some h" "ns = Some n" "ns_of (c_be_ctx c) h = Some n" "n_name nd = Some n" "key = Some kn" "k_name k = Some kn"
      by metis
    obtain e changed c1 where w: "write_locked be st p k val c = (e, changed, c1)" by (metis prod_cases3)
    have okc: "ok (c_be_ctx c)" using assms(1) by (simp add: cfg_inv_def cfg_base_def)
    note W = write_locked_law [OF okc o(1,2,4,7) validate_type [OF l(4)] w]
    have c': "err = e" "c' = (if e = ESP_OK \<and> changed then cfg_notify nd k c1 else c1)" using assms(2) l w by (auto simp: set_value_def)
    have i1: "cfg_inv ok ns_of memory c1" using same_tables_inv [OF _ assms(1)] W(1) by blast
    have same: "same_tables c c1" "c_subs c1 = c_subs c" "c_calls c1 = c_calls c" using W(1) by (auto simp: same_tables_def)
    have inv: "cfg_inv ok ns_of memory c'" unfolding c'(2) by (rule cfg_inv_fields [OF i1]) (simp_all add: cfg_notify_def)
    have st: "same_tables c c'" unfolding c'(2) using same(1) by (simp add: same_tables_def cfg_notify_def)
    show ?thesis
    proof (intro conjI impI inv st)
      assume "err \<noteq> ESP_OK" then show "c_calls c' = c_calls c" using c' same(3) by simp
    next
      assume ok: "err = ESP_OK"
      with W(2) c' have "stored (c_be_ctx c') = (stored (c_be_ctx c))(n := (stored (c_be_ctx c) n)(kn := after_write val))"
        "changed = (\<not> same_value (reads k (stored (c_be_ctx c) n kn)) val)" by (simp_all add: cfg_notify_def)
      with l o ok c' same show "\<exists>st p nd k n kn. c_inited c \<and> lookup ns key c = Some (st, p, nd, k) \<and> ns = Some n \<and> key = Some kn \<and> k_name k = Some kn \<and>
      n_name nd = Some n \<and> espos_config_validate k val \<and>
      stored (c_be_ctx c') = (stored (c_be_ctx c))(n := (stored (c_be_ctx c) n)(kn := after_write val)) \<and>
      c_calls c' = c_calls c @ (if same_value (reads k (stored (c_be_ctx c) n kn)) val then []
        else map (\<lambda>s. (fst (the s), snd (the s), Some n, Some kn)) (filter (\<lambda>s. s \<noteq> None) (c_subs c)))"
        by (intro exI [of _ st] exI [of _ p] exI [of _ nd] exI [of _ k] exI [of _ n] exI [of _ kn]) (simp add: cfg_notify_def)
    qed
  qed
  then show "cfg_inv ok ns_of memory c'" "same_tables c c'" "err \<noteq> ESP_OK \<Longrightarrow> c_calls c' = c_calls c"
    "err = ESP_OK \<Longrightarrow> \<exists>st p nd k n kn. c_inited c \<and> lookup ns key c = Some (st, p, nd, k) \<and> ns = Some n \<and> key = Some kn \<and> k_name k = Some kn \<and>
      n_name nd = Some n \<and> espos_config_validate k val \<and>
      stored (c_be_ctx c') = (stored (c_be_ctx c))(n := (stored (c_be_ctx c) n)(kn := after_write val)) \<and>
      c_calls c' = c_calls c @ (if same_value (reads k (stored (c_be_ctx c) n kn)) val then []
        else map (\<lambda>s. (fst (the s), snd (the s), Some n, Some kn)) (filter (\<lambda>s. s \<noteq> None) (c_subs c)))" by blast+
qed

text \<open>What a key reads while the store is up.\<close>

lemma lookup_reads:
  assumes "cfg_inv ok ns_of memory c" and "c_inited c" and "lookup ns key c = Some (st, p, nd, k)" and "known (k_type k)"
  shows "espos_config_read_effective be p k c =
     (ESP_OK, reads k (stored (c_be_ctx c) (the ns) (the key)), accepted k (stored (c_be_ctx c) (the ns) (the key)) \<noteq> None)"
proof -
  from lookup_open [OF assms(1-3)] obtain h n kn where
    o: "ns_state_for p c = Some st" "slot_h st c = Some h" "ns = Some n" "ns_of (c_be_ctx c) h = Some n" "key = Some kn" "k_name k = Some kn"
    by metis
  have "ok (c_be_ctx c)" using assms(1) by (simp add: cfg_inv_def cfg_base_def)
  from read_effective_reads [OF this o(1,2,4,6) assms(4)] o show ?thesis by simp
qed

text \<open>The two together: what is set is read back, and nothing else is.\<close>

lemma set_then_read:
  assumes "cfg_inv ok ns_of memory c" and "set_value be ns key val c = (ESP_OK, c')" and "plain val"
  obtains st p nd k where "c_inited c'" "lookup ns key c' = Some (st, p, nd, k)" "fst (espos_config_read_effective be p k c') = ESP_OK"
    "fst (snd (espos_config_read_effective be p k c')) = written val"
    "\<And>ns2 key2 st2 p2 nd2 k2. (ns2, key2) \<noteq> (ns, key) \<Longrightarrow> lookup ns2 key2 c = Some (st2, p2, nd2, k2) \<Longrightarrow> known (k_type k2) \<Longrightarrow>
       lookup ns2 key2 c' = Some (st2, p2, nd2, k2) \<and> espos_config_read_effective be p2 k2 c' = espos_config_read_effective be p2 k2 c"
proof -
  note S = set_value_law [OF assms(1,2)]
  from S(3) obtain st p nd k n kn where
    l: "c_inited c" "lookup ns key c = Some (st, p, nd, k)" "ns = Some n" "key = Some kn" "espos_config_validate k val"
      "stored (c_be_ctx c') = (stored (c_be_ctx c))(n := (stored (c_be_ctx c) n)(kn := after_write val))" by blast
  have i': "c_inited c'" using S(2) l(1) by (simp add: same_tables_def)
  have l': "lookup ns' key' c' = lookup ns' key' c" for ns' key' by (rule same_tables_lookup(1) [OF S(2)])
  have kn: "known (k_type k)" using validate_type [OF l(5)] type_of_known [of val] by simp
  have "lookup ns key c' = Some (st, p, nd, k)" using l(2) l' by simp
  from lookup_reads [OF S(1) i' this kn] reads_after_write [OF l(5) assms(3)] l(3,4,6)
  have r: "espos_config_read_effective be p k c' = (ESP_OK, written val, accepted k (after_write val) \<noteq> None)" by simp
  have other: "lookup ns2 key2 c' = Some (st2, p2, nd2, k2) \<and> espos_config_read_effective be p2 k2 c' = espos_config_read_effective be p2 k2 c"
    if o: "(ns2, key2) \<noteq> (ns, key)" "lookup ns2 key2 c = Some (st2, p2, nd2, k2)" "known (k_type k2)" for ns2 key2 st2 p2 nd2 k2
  proof -
    have o': "lookup ns2 key2 c' = Some (st2, p2, nd2, k2)" using o(2) l' by simp
    obtain n2 kn2 where n2: "ns2 = Some n2" "key2 = Some kn2" by (rule lookup_open [OF assms(1) l(1) o(2)]) auto
    then have "stored (c_be_ctx c') n2 kn2 = stored (c_be_ctx c) n2 kn2" using o(1) l(3,4,6) by auto
    with lookup_reads [OF assms(1) l(1) o(2,3)] lookup_reads [OF S(1) i' o' o(3)] n2 o' show ?thesis by simp
  qed
  show thesis by (rule that [of st p nd k]) (use i' l' l(2) r other in auto)
qed

text \<open>Whatever a write is given, it leaves the tables alone.\<close>

lemma value_equals_frame:
  "value_equals_effective be p key val c = (err, eq, c') \<Longrightarrow> same_tables c c' \<and> c_be_ctx c' = c_be_ctx c"
  using cfg_alloc_frame [of c] by (auto simp: value_equals_effective_def Let_def split: if_splits prod.splits)

lemma store_value_frame:
  assumes "ok (c_be_ctx c)" and "store_value be h key val c = (err, c')" shows "only_store ok ns_of c c'"
proof -
  have "ok b \<and> ns_of b = ns_of (c_be_ctx c)" if "be_set be h kn ty buf len (c_be_ctx c) = (e, b)" for kn ty buf len e b
    using set_law [OF assms(1) that] by blast
  moreover have "ok b \<and> ns_of b = ns_of (c_be_ctx c)" if "be_erase_key be h kn (c_be_ctx c) = (e, b)" for kn e b
    using erase_law [OF assms(1) that] by blast
  ultimately show ?thesis using assms(2) unfolding store_value_def only_store_def
    by (fastforce split: cfg_value.splits if_splits prod.splits)
qed

lemma commit_store: "ok (c_be_ctx c) \<Longrightarrow> commit be h c = (err, c') \<Longrightarrow> only_store ok ns_of c c'"
  using commit_frame [of c h err c'] by (auto simp: only_store_def)

lemma write_locked_inv:
  assumes "cfg_inv ok ns_of memory c" and "write_locked be st p key val c = (err, changed, c')"
  shows "cfg_inv ok ns_of memory c'" and "same_tables c c'"
proof -
  obtain e eq c1 where v: "value_equals_effective be p key val c = (e, eq, c1)" by (metis prod_cases3)
  note V = value_equals_frame [OF v]
  have i1: "cfg_inv ok ns_of memory c1" using same_tables_inv [OF _ assms(1)] V assms(1) by (simp add: cfg_inv_def cfg_base_def)
  then have o1: "ok (c_be_ctx c1)" by (simp add: cfg_inv_def cfg_base_def)
  let ?h = "the (slot_h st c1)"
  obtain e2 c2 where s: "store_value be ?h key val c1 = (e2, c2)" by force
  note S = store_value_frame [OF o1 s]
  obtain e3 c3 where m: "commit be ?h c2 = (e3, c3)" by force
  note M = commit_store [OF only_store_fields(2) [OF S] m]
  have c': "c' = c1 \<or> c' = c2 \<or> c' = c3" using assms(2) v s m by (auto simp: write_locked_def Let_def split: if_splits)
  have i2: "cfg_inv ok ns_of memory c2" by (rule same_tables_inv [OF only_store_fields(1) [OF S] i1 only_store_fields(2,3) [OF S]])
  have i3: "cfg_inv ok ns_of memory c3" by (rule same_tables_inv [OF only_store_fields(1) [OF M] i2 only_store_fields(2,3) [OF M]])
  show "cfg_inv ok ns_of memory c'" using c' i1 i2 i3 by blast
  show "same_tables c c'" using c' V only_store_fields(1) [OF S] only_store_fields(1) [OF M] by (metis same_tables_trans)
qed

lemma reset_locked_inv:
  assumes "cfg_inv ok ns_of memory c" and "reset_locked be st p key c = (err, changed, c')"
  shows "cfg_inv ok ns_of memory c'" and "same_tables c c'"
proof -
  obtain e eq c1 where v: "value_equals_effective be p key (default_value key) c = (e, eq, c1)" by (metis prod_cases3)
  note V = value_equals_frame [OF v]
  have i1: "cfg_inv ok ns_of memory c1" using same_tables_inv [OF _ assms(1)] V assms(1) by (simp add: cfg_inv_def cfg_base_def)
  then have o1: "ok (c_be_ctx c1)" by (simp add: cfg_inv_def cfg_base_def)
  let ?h = "the (slot_h st c1)"
  obtain e2 b where s: "be_erase_key be ?h (the (k_name key)) (c_be_ctx c1) = (e2, b)" by force
  have S: "only_store ok ns_of c1 (c1\<lparr>c_be_ctx := b\<rparr>)" using erase_law [OF o1 s] by (auto simp: only_store_def)
  obtain e3 c3 where m: "commit be ?h (c1\<lparr>c_be_ctx := b\<rparr>) = (e3, c3)" by force
  note M = commit_store [OF only_store_fields(2) [OF S] m]
  have c': "c' = c1 \<or> c' = c1\<lparr>c_be_ctx := b\<rparr> \<or> c' = c3" using assms(2) v s m by (auto simp: reset_locked_def Let_def split: if_splits)
  have i2: "cfg_inv ok ns_of memory (c1\<lparr>c_be_ctx := b\<rparr>)" by (rule same_tables_inv [OF only_store_fields(1) [OF S] i1 only_store_fields(2,3) [OF S]])
  have i3: "cfg_inv ok ns_of memory c3" by (rule same_tables_inv [OF only_store_fields(1) [OF M] i2 only_store_fields(2,3) [OF M]])
  show "cfg_inv ok ns_of memory c'" using c' i1 i2 i3 by blast
  show "same_tables c c'" using c' V only_store_fields(1) [OF S] only_store_fields(1) [OF M] by (metis same_tables_trans)
qed

lemma notify_inv: "cfg_inv ok ns_of memory c \<Longrightarrow> cfg_inv ok ns_of memory (cfg_notify nd k c)"
  by (erule cfg_inv_fields) (simp_all add: cfg_notify_def)

lemma reset_key_inv: "cfg_inv ok ns_of memory c \<Longrightarrow> espos_config_reset_key be ns key c = (err, c') \<Longrightarrow> cfg_inv ok ns_of memory c'"
  by (auto simp: espos_config_reset_key_def reset_locked_inv(1) intro: notify_inv split: if_splits option.splits prod.splits)

lemma reset_keys_inv: "cfg_inv ok ns_of memory c \<Longrightarrow> reset_keys be st p ks c = (err, cs, c') \<Longrightarrow> cfg_inv ok ns_of memory c'"
proof (induction ks arbitrary: c err cs c')
  case (Cons k ks)
  obtain e ch c1 where r: "reset_locked be st p k c = (e, ch, c1)" by (metis prod_cases3)
  obtain e2 cs2 c2 where rs: "reset_keys be st p ks c1 = (e2, cs2, c2)" by (metis prod_cases3)
  from Cons.IH [OF reset_locked_inv(1) [OF Cons.prems(1) r] rs] Cons.prems(2) r rs show ?case by simp
qed simp

lemma notify_changed_inv: "cfg_inv ok ns_of memory c \<Longrightarrow> cfg_inv ok ns_of memory (notify_changed nd ks cs c)"
proof -
  assume "cfg_inv ok ns_of memory c"
  then have "cfg_inv ok ns_of memory (foldl (\<lambda>c (k, changed). if changed then cfg_notify nd k c else c) c xs)" for xs
    by (induction xs arbitrary: c) (auto simp: notify_inv)
  then show ?thesis by (simp add: notify_changed_def)
qed

lemma alloc_inv: "cfg_inv ok ns_of memory c \<Longrightarrow> cfg_alloc c = (x, c') \<Longrightarrow> cfg_inv ok ns_of memory c'"
  using cfg_alloc_frame [of c x c'] cfg_inv_fields [of memory c c'] by (simp add: same_tables_def)

lemma reset_ns_inv:
  assumes "cfg_inv ok ns_of memory c" and "espos_config_reset_ns be ns c = (err, c')" shows "cfg_inv ok ns_of memory c'"
proof -
  obtain x c1 where a: "cfg_alloc c = (x, c1)" by force
  note i1 = alloc_inv [OF assms(1) a]
  have "cfg_inv ok ns_of memory (notify_changed nd (keys_of nd) cs c2)" if "reset_keys be st p (keys_of nd) c1 = (e, cs, c2)" for nd st p e cs c2
    by (rule notify_changed_inv [OF reset_keys_inv [OF i1 that]])
  with assms a i1 show ?thesis
    by (auto simp: espos_config_reset_ns_def split: if_splits option.splits prod.splits bool.splits)
qed

lemma apply_entries_inv: "cfg_inv ok ns_of memory c \<Longrightarrow> apply_entries be es c = (err, ch, c') \<Longrightarrow> cfg_inv ok ns_of memory c'"
proof (induction es arbitrary: c err ch c')
  case (Cons e es)
  obtain x changed c1 where r: "apply_entry be e c = (x, changed, c1)" by (metis prod_cases3)
  have i1: "cfg_inv ok ns_of memory c1"
    using r Cons.prems(1) write_locked_inv(1) [OF Cons.prems(1)] reset_locked_inv(1) [OF Cons.prems(1)]
    by (auto simp: apply_entry_def split: option.splits if_splits)
  obtain e2 ch2 c2 where rs: "apply_entries be es c1 = (e2, ch2, c2)" by (metis prod_cases3)
  from Cons.IH [OF i1 rs] Cons.prems(2) r rs show ?case by simp
qed simp

lemma apply_plan_inv:
  assumes "cfg_inv ok ns_of memory c" and "espos_config_apply_plan be plan c = (r, c')" shows "cfg_inv ok ns_of memory c'"
proof -
  have "cfg_inv ok ns_of memory (foldl (\<lambda>c e. cfg_notify (pe_nd e) (pe_key e) c) c xs)" if "cfg_inv ok ns_of memory c" for xs c
    using that by (induction xs arbitrary: c) (auto simp: notify_inv)
  note fold = this
  obtain err ch c1 where e: "apply_entries be plan c = (err, ch, c1)" by (metis prod_cases3)
  from fold [OF apply_entries_inv [OF assms(1) e]] assms e show ?thesis
    by (auto simp: espos_config_apply_plan_def split: if_splits)
qed

end

subsection \<open>Every run of the interface\<close>

datatype cfg_op =
    Init
  | Deinit
  | Factory_Reset
  | Register_Ns nat
  | Unregister_Ns "string option"
  | Register_Migration "string option" u16 "(u16 \<Rightarrow> migrate) option"
  | Subscribe "nat option" nat
  | Unsubscribe "nat option" nat
  | Set_Value "string option" "string option" cfg_value
  | Reset_Key "string option" "string option"
  | Reset_Ns "string option"
  | Apply_Plan "plan_entry list"
  | Get_Str "string option" "string option" bool nat
  | Get_Blob "string option" "string option" bool "nat option"
  | Is_Set "string option" "string option"

text \<open>A registration borrows the descriptor at an address; \<open>memory\<close> has what is there.\<close>

fun cfg_do :: "('b, 'h) backend \<Rightarrow> (nat \<Rightarrow> cfg_ns) \<Rightarrow> ('b, 'h) cfg \<Rightarrow> cfg_op \<Rightarrow> ('b, 'h) cfg" where
  "cfg_do be memory c Init = snd (espos_config_init be c)"
| "cfg_do be memory c Deinit = espos_config_deinit be c"
| "cfg_do be memory c Factory_Reset = snd (espos_config_factory_reset be c)"
| "cfg_do be memory c (Register_Ns a) = snd (espos_config_register_ns be a (memory a) c)"
| "cfg_do be memory c (Unregister_Ns ns) = snd (espos_config_unregister_ns be ns c)"
| "cfg_do be memory c (Register_Migration ns v fn) = snd (espos_config_register_migration ns v fn c)"
| "cfg_do be memory c (Subscribe cb arg) = snd (espos_config_subscribe cb arg c)"
| "cfg_do be memory c (Unsubscribe cb arg) = snd (espos_config_unsubscribe cb arg c)"
| "cfg_do be memory c (Set_Value ns key val) = snd (set_value be ns key val c)"
| "cfg_do be memory c (Reset_Key ns key) = snd (espos_config_reset_key be ns key c)"
| "cfg_do be memory c (Reset_Ns ns) = snd (espos_config_reset_ns be ns c)"
| "cfg_do be memory c (Apply_Plan plan) = snd (espos_config_apply_plan be plan c)"
| "cfg_do be memory c (Get_Str ns key buf n) = snd (espos_config_get_str be ns key buf n c)"
| "cfg_do be memory c (Get_Blob ns key buf n) = snd (espos_config_get_blob be ns key buf n c)"
| "cfg_do be memory c (Is_Set ns key) = snd (espos_config_is_set be ns key c)"

definition cfg_run :: "('b, 'h) backend \<Rightarrow> (nat \<Rightarrow> cfg_ns) \<Rightarrow> cfg_ns list \<Rightarrow> bool list \<Rightarrow> 'b \<Rightarrow> cfg_op list \<Rightarrow> ('b, 'h) cfg" where
  "cfg_run be memory tab heap b ops = foldl (cfg_do be memory) (cfg_zero tab heap b) ops"

context config_backend
begin

lemma register_migration_fields:
  "espos_config_register_migration ns v fn c = (err, c') \<Longrightarrow>
     c_be_ctx c' = c_be_ctx c \<and> c_tab c' = c_tab c \<and> c_ns c' = c_ns c \<and> c_rt c' = c_rt c \<and> c_inited c' = c_inited c"
  by (auto simp: espos_config_register_migration_def split: option.splits prod.splits if_splits)

lemma getters_inv:
  assumes "cfg_inv ok ns_of memory c"
  shows "cfg_inv ok ns_of memory (snd (espos_config_get_str be ns key buf n c))"
    and "cfg_inv ok ns_of memory (snd (espos_config_get_blob be ns key buf len c))"
    and "cfg_inv ok ns_of memory (snd (espos_config_is_set be ns key c))"
proof -
  obtain x c1 where a: "cfg_alloc c = (x, c1)" by force
  note i1 = alloc_inv [OF assms a]
  show "cfg_inv ok ns_of memory (snd (espos_config_get_str be ns key buf n c))"
    using assms i1 by (auto simp: espos_config_get_str_def a split: option.splits prod.splits bool.splits cfg_value.splits)
  show "cfg_inv ok ns_of memory (snd (espos_config_get_blob be ns key buf len c))"
    using assms i1 by (auto simp: espos_config_get_blob_def a split: option.splits prod.splits bool.splits cfg_value.splits blob.splits)
  show "cfg_inv ok ns_of memory (snd (espos_config_is_set be ns key c))"
    using assms i1 by (auto simp: espos_config_is_set_def a Let_def split: option.splits prod.splits)
qed

lemma cfg_do_inv:
  assumes "cfg_inv ok ns_of memory c" shows "cfg_inv ok ns_of memory (cfg_do be memory c op)"
proof (cases op)
  case Init then show ?thesis using init_inv [OF assms] by (metis cfg_do.simps(1) prod.collapse)
next
  case Deinit then show ?thesis using deinit_inv [OF assms] by simp
next
  case Factory_Reset
  then show ?thesis using factory_reset_law(1) [OF assms] assms
    by (cases "c_inited c") (metis cfg_do.simps(3) prod.collapse, simp add: espos_config_factory_reset_def)
next
  case (Register_Ns a) then show ?thesis using register_inv [OF assms] by (metis cfg_do.simps(4) prod.collapse)
next
  case (Unregister_Ns ns) then show ?thesis using unregister_inv [OF assms] by (metis cfg_do.simps(5) prod.collapse)
next
  case (Register_Migration ns v fn)
  then show ?thesis using register_migration_fields [of ns v fn c] cfg_inv_fields [OF assms]
    by (metis cfg_do.simps(6) prod.collapse)
next
  case (Subscribe cb arg)
  have "cfg_inv ok ns_of memory (snd (espos_config_subscribe cb arg c))"
    by (rule cfg_inv_fields [OF assms]) (simp_all add: espos_config_subscribe_def split: option.splits)
  then show ?thesis using Subscribe by simp
next
  case (Unsubscribe cb arg)
  have "cfg_inv ok ns_of memory (snd (espos_config_unsubscribe cb arg c))"
    by (rule cfg_inv_fields [OF assms]) (simp_all add: espos_config_unsubscribe_def split: option.splits)
  then show ?thesis using Unsubscribe by simp
next
  case (Set_Value ns key val) then show ?thesis using set_value_law(1) [OF assms] by (metis cfg_do.simps(9) prod.collapse)
next
  case (Reset_Key ns key) then show ?thesis using reset_key_inv [OF assms] by (metis cfg_do.simps(10) prod.collapse)
next
  case (Reset_Ns ns) then show ?thesis using reset_ns_inv [OF assms] by (metis cfg_do.simps(11) prod.collapse)
next
  case (Apply_Plan plan) then show ?thesis using apply_plan_inv [OF assms] by (metis cfg_do.simps(12) prod.collapse)
qed (use getters_inv [OF assms] in simp_all)

lemma cfg_run_inv:
  assumes "ok b" and "tab_ok tab" shows "cfg_inv ok ns_of memory (cfg_run be memory tab heap b ops)"
proof -
  have zero: "cfg_inv ok ns_of memory (cfg_zero tab heap b)"
    using assms by (auto simp: cfg_zero_def cfg_inv_def cfg_base_def handles_ok_def all_closed_def rt_ok_def no_slot_def)
  have "cfg_inv ok ns_of memory (foldl (cfg_do be memory) c ops)" if "cfg_inv ok ns_of memory c" for c
    using that by (induction ops arbitrary: c) (simp_all add: cfg_do_inv)
  from this [OF zero] show ?thesis by (simp add: cfg_run_def)
qed

end

end
