(* ===== verification/Cfg_Promises.thy ===== *)
theory Cfg_Promises
  imports Cfg_Invariant
begin

text \<open>
  What the configuration store promises over the in-memory backend: round trip and frame of a write, valid reads
  over any content, notification, factory reset and resumable migrations. The proofs are over the contract of the
  backend and apply through its interpretation; \<open>demo\<close> is a store with a built-in and a registered namespace.
\<close>

subsection \<open>Migrations\<close>

lemma versions_Cons: "v < n \<Longrightarrow> versions v n = v # versions (v + 1) n"
proof -
  assume "v < n"
  then have u: "unat v < unat n" by (simp add: word_less_nat_alt)
  moreover have "unat n < 65536" using unsigned_less [of n, where ?'a = nat] by simp
  ultimately have "unat (v + 1) = Suc (unat v)" by (simp add: unat_word_ariths)
  with u show ?thesis by (simp add: versions_def upt_conv_Cons)
qed

lemma versions_Nil: "\<not> v < n \<Longrightarrow> versions v n = []"
  by (simp add: versions_def word_less_nat_alt)

lemma word_less_Suc_le: "v < n \<Longrightarrow> v + 1 \<le> n" for v n :: u16
  by (simp add: inc_le)

text \<open>The steps that ran and were stamped.\<close>

fun migrated :: "('b, 'h) backend \<Rightarrow> 'h \<Rightarrow> cfg_ns \<Rightarrow> u16 list \<Rightarrow> ('b, 'h) cfg \<Rightarrow> ('b, 'h) cfg \<Rightarrow> bool" where
  "migrated be h nd [] c c' \<longleftrightarrow> c = c'"
| "migrated be h nd (v # vs) c c' \<longleftrightarrow> fst (migrate_one be h nd v c) = ESP_OK \<and> migrated be h nd vs (snd (migrate_one be h nd v c)) c'"

text \<open>No registered step touches the version stamp.\<close>

definition stamps_safe :: "cfg_ns \<Rightarrow> ('b, 'h) cfg \<Rightarrow> bool" where
  "stamps_safe nd c \<longleftrightarrow> (\<forall>m\<in>set (c_migrations c). Some (mg_ns m) = n_name nd \<longrightarrow> (\<forall>v. avoids ESPOS_CFG_VERSION_KEY (mg_fn m v)))"

context config_backend
begin

lemma read_stamp:
  assumes "ok (c_be_ctx c)" and "ns_of (c_be_ctx c) h = Some n"
    and "stored (c_be_ctx c) n ESPOS_CFG_VERSION_KEY = Some (ESPOS_CFG_TYPE_INT, word_bytes (ucast v))"
  shows "read_version be h c = (ESP_OK, v)"
proof -
  have g: "be_get be h ESPOS_CFG_VERSION_KEY ESPOS_CFG_TYPE_INT True 4 (c_be_ctx c) = (ESP_OK, word_bytes (ucast v), 4)"
    using get_law [OF assms(1,2), of ESPOS_CFG_TYPE_INT ESPOS_CFG_VERSION_KEY 4] assms(3) by simp
  have "uint (ucast v :: u32) = uint v" by (rule uint_up_ucast) (simp add: is_up)
  then have u: "uint (ucast v :: u32) < 65536" using uint_lt2p [of v] by simp
  then have "sint (ucast v :: u32) = uint (ucast v :: u32)" by (intro sint_of_small) simp
  moreover have "(ucast (ucast v :: u32) :: u16) = v" by (rule ucast_up_ucast_id) (simp add: is_up)
  ultimately show ?thesis using u g by (simp add: read_version_def)
qed

end

text \<open>
  A backend whose commit succeeds whenever the write before it did, so that a stamp that is refused leaves the old one. The
  chain of steps is proved over this contract.
\<close>

locale steady_backend = config_backend +
  assumes commit_after_set: "ok b \<Longrightarrow> be_set be h key ty buf len b = (ESP_OK, b') \<Longrightarrow> fst (be_commit be h b') = ESP_OK"
begin

lemma write_version_refused:
  assumes "ok (c_be_ctx c)" and "ns_of (c_be_ctx c) h = Some n" and "write_version be h v c = (err, c')" and "err \<noteq> ESP_OK"
  shows "stored (c_be_ctx c') = stored (c_be_ctx c)"
proof -
  obtain e b where s: "be_set be h ESPOS_CFG_VERSION_KEY ESPOS_CFG_TYPE_INT (word_bytes (ucast v)) 4 (c_be_ctx c) = (e, b)" by force
  have "e \<noteq> ESP_OK"
  proof
    assume e: "e = ESP_OK"
    with commit_after_set [OF assms(1)] s have "fst (be_commit be h b) = ESP_OK" by simp
    with assms(3,4) s e show False by (auto simp: write_version_def commit_def split: prod.splits)
  qed
  with assms(2,3) s set_law [OF assms(1) s, of n] show ?thesis by (auto simp: write_version_def)
qed

lemma migrate_one_law:
  assumes "ok (c_be_ctx c)" and "ns_of (c_be_ctx c) h = Some n" and "n_name nd = Some n" and "stamps_safe nd c"
    and "migrate_one be h nd v c = (err, c')"
  shows "only_store ok ns_of c c'"
    and "err = ESP_OK \<Longrightarrow> stored (c_be_ctx c') n ESPOS_CFG_VERSION_KEY = Some (ESPOS_CFG_TYPE_INT, word_bytes (ucast (v + 1)))"
    and "err \<noteq> ESP_OK \<Longrightarrow> stored (c_be_ctx c') n ESPOS_CFG_VERSION_KEY = stored (c_be_ctx c) n ESPOS_CFG_VERSION_KEY"
proof -
  show "only_store ok ns_of c c'" using migrate_one_store [OF assms(1), of h nd v] assms(5) by simp
  have "(err = ESP_OK \<longrightarrow> stored (c_be_ctx c') n ESPOS_CFG_VERSION_KEY = Some (ESPOS_CFG_TYPE_INT, word_bytes (ucast (v + 1)))) \<and>
    (err \<noteq> ESP_OK \<longrightarrow> stored (c_be_ctx c') n ESPOS_CFG_VERSION_KEY = stored (c_be_ctx c) n ESPOS_CFG_VERSION_KEY)"
  proof (cases "find_migration (n_name nd) v c")
    case None
    with assms(5) have "write_version be h (v + 1) c = (err, c')" by (simp add: migrate_one_def)
    from write_version_law [OF assms(1) this, of n] write_version_refused [OF assms(1,2) this] assms(2) show ?thesis by auto
  next
    case (Some m)
    then have m: "m \<in> set (c_migrations c)" "Some (mg_ns m) = n_name nd"
      by (auto simp: find_migration_def find_Some_iff)
    then have av: "avoids ESPOS_CFG_VERSION_KEY (mg_fn m v)" using assms(4) unfolding stamps_safe_def by blast
    obtain e b where r: "run_migration be h (mg_fn m v) (c_be_ctx c) = (e, b)" by force
    note R = run_migration_law [OF assms(1) r, of n]
    show ?thesis
    proof (cases "e = ESP_OK")
      case False
      with assms(2,5) Some r R av show ?thesis by (auto simp: migrate_one_def)
    next
      case True
      with assms(5) Some r have "write_version be h (v + 1) (c\<lparr>c_be_ctx := b\<rparr>) = (err, c')" by (simp add: migrate_one_def)
      from write_version_law [OF _ this, of n] write_version_refused [OF _ _ this, of n] R assms(2) av show ?thesis by auto
    qed
  qed
  then show "err = ESP_OK \<Longrightarrow> stored (c_be_ctx c') n ESPOS_CFG_VERSION_KEY = Some (ESPOS_CFG_TYPE_INT, word_bytes (ucast (v + 1)))"
    "err \<noteq> ESP_OK \<Longrightarrow> stored (c_be_ctx c') n ESPOS_CFG_VERSION_KEY = stored (c_be_ctx c) n ESPOS_CFG_VERSION_KEY"
    by blast+
qed

lemma migrate_steps_chain:
  assumes "ok (c_be_ctx c)" and "ns_of (c_be_ctx c) h = Some n" and "n_name nd = Some n" and "stamps_safe nd c"
    and "stored (c_be_ctx c) n ESPOS_CFG_VERSION_KEY = Some (ESPOS_CFG_TYPE_INT, word_bytes (ucast v))" and "v \<le> goal"
    and "c' = migrate_steps be h nd (versions v goal) c"
  shows "\<exists>us rest c1. versions v goal = us @ rest \<and> migrated be h nd us c c1 \<and>
     (case rest of
        [] \<Rightarrow> c' = c1 \<and> read_version be h c' = (ESP_OK, goal)
      | w # _ \<Rightarrow> c' = snd (migrate_one be h nd w c1) \<and> fst (migrate_one be h nd w c1) \<noteq> ESP_OK \<and> read_version be h c' = (ESP_OK, w))"
  using assms
proof (induction "unat goal - unat v" arbitrary: v c)
  case (Suc k)
  have lt: "v < goal" using Suc.hyps(2) unfolding word_less_nat_alt by linarith
  obtain err c1 where m: "migrate_one be h nd v c = (err, c1)" by force
  note L = migrate_one_law [OF Suc.prems(1-4) m]
  have F: "same_tables c c1" "ok (c_be_ctx c1)" "ns_of (c_be_ctx c1) h = Some n" using only_store_fields [OF L(1)] Suc.prems(2) by simp_all
  have safe: "stamps_safe nd c1" using Suc.prems(4) F(1) by (simp add: stamps_safe_def same_tables_def)
  show ?case
  proof (cases "err = ESP_OK")
    case False
    have c': "c' = c1" using Suc.prems(7) m False lt by (simp add: versions_Cons)
    have "read_version be h c' = (ESP_OK, v)"
      using read_stamp [OF F(2,3)] L(3) [OF False] Suc.prems(5) c' by simp
    then show ?thesis using lt m c' False
      by (intro exI [of _ "[]"] exI [of _ "versions v goal"] exI [of _ c]) (auto simp: versions_Cons)
  next
    case True
    have "unat (v + 1) = Suc (unat v)" using lt unsigned_less [of goal, where ?'a = nat] by (simp add: unat_word_ariths word_less_nat_alt)
    then have k: "k = unat goal - unat (v + 1)" using Suc.hyps(2) by simp
    have c': "c' = migrate_steps be h nd (versions (v + 1) goal) c1" using Suc.prems(7) m True lt by (simp add: versions_Cons)
    from Suc.hyps(1) [OF k F(2,3) Suc.prems(3) safe L(2) [OF True] word_less_Suc_le [OF lt] c']
    obtain us rest c2 where "versions (v + 1) goal = us @ rest" "migrated be h nd us c1 c2"
      "case rest of [] \<Rightarrow> c' = c2 \<and> read_version be h c' = (ESP_OK, goal)
      | w # _ \<Rightarrow> c' = snd (migrate_one be h nd w c2) \<and> fst (migrate_one be h nd w c2) \<noteq> ESP_OK \<and> read_version be h c' = (ESP_OK, w)" by blast
    then show ?thesis using lt m True
      by (intro exI [of _ "v # us"] exI [of _ rest] exI [of _ c2]) (simp add: versions_Cons)
  qed
next
  case 0
  then have "v = goal" by (simp add: word_le_nat_alt word_unat_eq_iff)
  with 0 read_stamp [OF 0(2,3), of v] show ?case
    by (intro exI [of _ "[]"] exI [of _ c]) (simp add: versions_Nil)
qed

end

context config_backend
begin

text \<open>A namespace without a stamp is stamped and nothing else.\<close>

lemma migrate_ns_fresh:
  assumes "ok (c_be_ctx c)" and "slot_h st c = Some h" and "ns_of (c_be_ctx c) h = Some n" and "stored (c_be_ctx c) n ESPOS_CFG_VERSION_KEY = None"
    and "n' \<noteq> n \<or> key \<noteq> ESPOS_CFG_VERSION_KEY"
  shows "stored (c_be_ctx (migrate_ns be st c)) n' key = stored (c_be_ctx c) n' key"
proof -
  obtain err d l where g: "be_get be h ESPOS_CFG_VERSION_KEY ESPOS_CFG_TYPE_INT True 4 (c_be_ctx c) = (err, d, l)" by (metis prod_cases3)
  have err: "err \<noteq> ESP_OK" using get_law [OF assms(1,3), of ESPOS_CFG_TYPE_INT ESPOS_CFG_VERSION_KEY 4] assms(4) g by simp
  have rv: "read_version be h c = (err, 0)" using g err by (simp add: read_version_def)
  obtain e b where er: "be_erase_key be h ESPOS_CFG_VERSION_KEY (c_be_ctx c) = (e, b)" by force
  note E = erase_law [OF assms(1) er, of n]
  have eb: "ok b" "ns_of b h = Some n" "stored b n' key = stored (c_be_ctx c) n' key" using E assms(3,5) by (auto split: if_splits)
  have W: "stored (c_be_ctx (snd (write_version be h v c1))) n' key = stored (c_be_ctx c1) n' key"
    if "ok (c_be_ctx c1)" "ns_of (c_be_ctx c1) h = Some n" for v c1
    using write_version_law [OF that(1), of h v "fst (write_version be h v c1)" "snd (write_version be h v c1)" n] that(2) assms(5)
    by (cases "n' = n") auto
  show ?thesis
    using rv err er eb W [OF assms(1,3)] W [of "c\<lparr>c_be_ctx := b\<rparr>"] assms(2) by (auto simp: migrate_ns_def Let_def)
qed

lemma fold_fresh:
  assumes "ok (c_be_ctx c)" and "distinct xs" and "inj_on nm {x \<in> set xs. A x}"
    and "\<And>c' x. x \<in> set xs \<Longrightarrow> same_tables c c' \<Longrightarrow> f c' x = (if A x then migrate_ns be (st x) c' else c')"
    and "\<And>x. x \<in> set xs \<Longrightarrow> A x \<Longrightarrow> \<exists>h. slot_h (st x) c = Some h \<and> ns_of (c_be_ctx c) h = Some (nm x)"
    and "\<And>x. x \<in> set xs \<Longrightarrow> A x \<Longrightarrow> stored (c_be_ctx c) (nm x) ESPOS_CFG_VERSION_KEY = None"
  shows "only_store ok ns_of c (foldl f c xs) \<and>
     (\<forall>n key. key \<noteq> ESPOS_CFG_VERSION_KEY \<or> n \<notin> nm ` {x \<in> set xs. A x} \<longrightarrow> stored (c_be_ctx (foldl f c xs)) n key = stored (c_be_ctx c) n key)"
  using assms
proof (induction xs arbitrary: c)
  case Nil
  then show ?case by (simp add: only_store_refl)
next
  case (Cons x xs)
  let ?c = "f c x"
  have fx: "?c = (if A x then migrate_ns be (st x) c else c)" using Cons.prems(4) [of x c] by simp
  have s: "only_store ok ns_of c ?c" using Cons.prems(1) by (simp add: fx migrate_ns_store only_store_refl)
  have same: "stored (c_be_ctx ?c) n key = stored (c_be_ctx c) n key" if "key \<noteq> ESPOS_CFG_VERSION_KEY \<or> \<not> (A x \<and> n = nm x)" for n key
  proof (cases "A x")
    case True
    obtain h where h: "slot_h (st x) c = Some h" "ns_of (c_be_ctx c) h = Some (nm x)" using Cons.prems(5) [of x] True by auto
    have fresh: "stored (c_be_ctx c) (nm x) ESPOS_CFG_VERSION_KEY = None" using Cons.prems(6) [of x] True by simp
    have "n \<noteq> nm x \<or> key \<noteq> ESPOS_CFG_VERSION_KEY" using that True by blast
    from migrate_ns_fresh [OF Cons.prems(1) h fresh this] True show ?thesis by (simp add: fx)
  qed (simp add: fx)
  have st: "same_tables c ?c" by (rule only_store_fields(1) [OF s])
  have IH: "only_store ok ns_of ?c (foldl f ?c xs) \<and>
     (\<forall>n key. key \<noteq> ESPOS_CFG_VERSION_KEY \<or> n \<notin> nm ` {x \<in> set xs. A x} \<longrightarrow> stored (c_be_ctx (foldl f ?c xs)) n key = stored (c_be_ctx ?c) n key)"
  proof (rule Cons.IH)
    show "ok (c_be_ctx ?c)" by (rule only_store_fields(2) [OF s])
    show "distinct xs" using Cons.prems(2) by simp
    show "inj_on nm {x \<in> set xs. A x}" using Cons.prems(3) by (rule inj_on_subset) auto
    show "f c' y = (if A y then migrate_ns be (st y) c' else c')" if "y \<in> set xs" "same_tables ?c c'" for c' y
      using Cons.prems(4) [of y c'] that same_tables_trans [OF st] by simp
    show "\<exists>h. slot_h (st y) ?c = Some h \<and> ns_of (c_be_ctx ?c) h = Some (nm y)" if "y \<in> set xs" "A y" for y
      using Cons.prems(5) [of y] that same_tables_lookup(4) [OF st] only_store_fields(3) [OF s] by simp
    show "stored (c_be_ctx ?c) (nm y) ESPOS_CFG_VERSION_KEY = None" if y: "y \<in> set xs" "A y" for y
    proof -
      have "\<not> (A x \<and> nm y = nm x)"
      proof
        assume "A x \<and> nm y = nm x"
        then have "y = x" using Cons.prems(3) y by (intro inj_onD [OF Cons.prems(3)]) auto
        with y(1) Cons.prems(2) show False by simp
      qed
      with same [of ESPOS_CFG_VERSION_KEY "nm y"] Cons.prems(6) [of y] y show ?thesis by simp
    qed
  qed
  show ?case
  proof (intro conjI allI impI)
    show "only_store ok ns_of c (foldl f c (x # xs))" using only_store_trans [OF s] IH by simp
    fix n key assume a: "key \<noteq> ESPOS_CFG_VERSION_KEY \<or> n \<notin> nm ` {y \<in> set (x # xs). A y}"
    then have "key \<noteq> ESPOS_CFG_VERSION_KEY \<or> n \<notin> nm ` {y \<in> set xs. A y}" "key \<noteq> ESPOS_CFG_VERSION_KEY \<or> \<not> (A x \<and> n = nm x)" by auto
    with IH same show "stored (c_be_ctx (foldl f c (x # xs))) n key = stored (c_be_ctx c) n key" by simp
  qed
qed

lemma migrate_all_fresh:
  assumes "cfg_base ok ns_of memory c" and "all_open c" and "\<And>n key. stored (c_be_ctx c) n key = None" and "key \<noteq> ESPOS_CFG_VERSION_KEY"
  shows "stored (c_be_ctx (migrate_all be c)) n key = None"
proof -
  have okc: "ok (c_be_ctx c)" and t: "tab_ok (c_tab c)" and rt: "rt_ok memory (c_tab c) (c_rt c)" and ho: "handles_ok ns_of c"
    using assms(1) by (simp_all add: cfg_base_def)
  have len: "length (c_ns c) = length (c_tab c)" using assms(2) by (simp add: all_open_def)
  let ?f = "\<lambda>c i. migrate_ns be (Ns i) c" and ?nm = "\<lambda>i. the (n_name (c_tab c ! i))"
  let ?c = "foldl ?f c [0..<length (c_ns c)]"
  have S: "only_store ok ns_of c ?c \<and> (\<forall>n key. key \<noteq> ESPOS_CFG_VERSION_KEY \<or> n \<notin> ?nm ` {x \<in> set [0..<length (c_ns c)]. True} \<longrightarrow>
      stored (c_be_ctx ?c) n key = stored (c_be_ctx c) n key)"
  proof (rule fold_fresh [where st = Ns])
    show "inj_on ?nm {x \<in> set [0..<length (c_ns c)]. True}"
    proof (rule inj_onI)
      fix i j assume "i \<in> {x \<in> set [0..<length (c_ns c)]. True}" "j \<in> {x \<in> set [0..<length (c_ns c)]. True}" and e: "?nm i = ?nm j"
      then have l: "i < length (c_tab c)" "j < length (c_tab c)" using len by simp_all
      have "n_name (c_tab c ! i) = n_name (c_tab c ! j)" using tab_okD(1) [OF t l(1)] tab_okD(1) [OF t l(2)] e by auto
      from tab_okD(3) [OF t l this] show "i = j" .
    qed
    show "\<exists>h. slot_h (Ns x) c = Some h \<and> ns_of (c_be_ctx c) h = Some (?nm x)" if x: "x \<in> set [0..<length (c_ns c)]" "True" for x
    proof -
      have x': "x < length (c_ns c)" using x by simp
      then have "c_ns c ! x \<noteq> None" using assms(2) unfolding all_open_def by (metis nth_mem)
      then obtain h where h: "c_ns c ! x = Some h" by auto
      have "n_name (c_tab c ! x) \<noteq> None" using tab_okD(1) [OF t] x' len by simp
      with handles_okD(2) [OF ho x' h] h x' show ?thesis by (auto simp: slot_h_def)
    qed
  qed (use okc assms(3) in simp_all)
  have st: "same_tables c ?c" using only_store_fields(1) S by blast
  have rt_c: "c_rt ?c = c_rt c" using st by (simp add: same_tables_def)
  let ?A = "\<lambda>i. rt_desc (c_rt c ! i) \<noteq> None \<and> rt_h (c_rt c ! i) \<noteq> None"
  let ?g = "\<lambda>c i. if rt_desc (c_rt c ! i) \<noteq> None \<and> rt_h (c_rt c ! i) \<noteq> None then migrate_ns be (Rt i) c else c"
  let ?rn = "\<lambda>i. the (n_name (snd (the (rt_desc (c_rt c ! i)))))"
  have desc: "\<exists>a nd h. rt_desc (c_rt c ! i) = Some (a, nd) \<and> rt_h (c_rt c ! i) = Some h \<and> n_name nd = Some (?rn i) \<and>
      ns_of (c_be_ctx c) h = Some (?rn i) \<and> n_name nd \<notin> n_name ` set (c_tab c)" if "i < length (c_rt c)" "?A i" for i
    using rt_okD(1) [OF rt nth_mem [OF that(1)]] handles_okD(3) [OF ho nth_mem [OF that(1)]] that(2) by fastforce
  have R: "only_store ok ns_of ?c (foldl ?g ?c [0..<length (c_rt ?c)]) \<and>
     (\<forall>n key. key \<noteq> ESPOS_CFG_VERSION_KEY \<or> n \<notin> ?rn ` {x \<in> set [0..<length (c_rt ?c)]. ?A x} \<longrightarrow>
      stored (c_be_ctx (foldl ?g ?c [0..<length (c_rt ?c)])) n key = stored (c_be_ctx ?c) n key)"
  proof (rule fold_fresh [where st = Rt])
    show "ok (c_be_ctx ?c)" using only_store_fields(2) S by blast
    show "inj_on ?rn {x \<in> set [0..<length (c_rt ?c)]. ?A x}"
    proof (rule inj_onI)
      fix i j assume a: "i \<in> {x \<in> set [0..<length (c_rt ?c)]. ?A x}" "j \<in> {x \<in> set [0..<length (c_rt ?c)]. ?A x}" "?rn i = ?rn j"
      then have l: "i < length (c_rt c)" "j < length (c_rt c)" using rt_c by simp_all
      obtain ai x where i: "rt_desc (c_rt c ! i) = Some (ai, x)" "n_name x = Some (?rn i)" using desc [OF l(1)] a(1) by blast
      obtain aj y where j: "rt_desc (c_rt c ! j) = Some (aj, y)" "n_name y = Some (?rn j)" using desc [OF l(2)] a(2) by blast
      have "n_name x = n_name y" using i(2) j(2) a(3) by metis
      from rt_okD(3) [OF rt l i(1) j(1) this] show "i = j" .
    qed
    show "?g c' x = (if ?A x then migrate_ns be (Rt x) c' else c')" if "same_tables ?c c'" for c' x
    proof -
      have "c_rt c' = c_rt c" using that rt_c by (simp add: same_tables_def)
      then show ?thesis by simp
    qed
    show "\<exists>h. slot_h (Rt x) ?c = Some h \<and> ns_of (c_be_ctx ?c) h = Some (?rn x)" if "x \<in> set [0..<length (c_rt ?c)]" "?A x" for x
    proof -
      have "x < length (c_rt c)" using that(1) rt_c by simp
      from desc [OF this that(2)] show ?thesis using only_store_fields(3) [of ok ns_of c ?c] S rt_c by (auto simp: slot_h_def)
    qed
    show "stored (c_be_ctx ?c) (?rn x) ESPOS_CFG_VERSION_KEY = None" if "x \<in> set [0..<length (c_rt ?c)]" "?A x" for x
    proof -
      have "x < length (c_rt c)" using that(1) rt_c by simp
      from desc [OF this that(2)] obtain nd :: cfg_ns where nd: "n_name nd = Some (?rn x)" "n_name nd \<notin> n_name ` set (c_tab c)" by blast
      have "?rn x \<notin> ?nm ` {x \<in> set [0..<length (c_ns c)]. True}"
      proof
        assume "?rn x \<in> ?nm ` {x \<in> set [0..<length (c_ns c)]. True}"
        then obtain i where "i < length (c_tab c)" "?rn x = ?nm i" using len by auto
        with tab_okD(1,2) [OF t this(1)] nd show False by (metis option.collapse)
      qed
      with S assms(3) show ?thesis by simp
    qed
  qed simp_all
  show ?thesis using R S assms(3,4) unfolding migrate_all_def migrate_runtime_locked_def by simp
qed

lemma factory_reset_defaults:
  assumes "cfg_inv ok ns_of memory c" and "espos_config_factory_reset be c = (ESP_OK, c')" and "lookup ns key c' = Some (st, p, nd, k)"
    and "known (k_type k)" and "key \<noteq> Some ESPOS_CFG_VERSION_KEY"
  shows "espos_config_read_effective be p k c' = (ESP_OK, fallback_value k, False)"
proof -
  have up: "c_inited c" using assms(2) by (auto simp: espos_config_factory_reset_def split: if_splits)
  note F = factory_reset_law [OF assms(1) up assms(2)]
  obtain c1 where c1: "c' = migrate_all be c1" "cfg_base ok ns_of memory c1" "all_open c1" "c_inited c1" "\<And>n key. stored (c_be_ctx c1) n key = None"
    using F(2) by blast
  have "ok (c_be_ctx c1)" using c1(2) by (simp add: cfg_base_def)
  from only_store_fields(1) [OF migrate_all_store [OF this]] c1 have up': "c_inited c'" by (simp add: same_tables_def)
  obtain n kn where n: "ns = Some n" "key = Some kn" by (rule lookup_open [OF F(1) up' assms(3)]) auto
  then have "stored (c_be_ctx c') n kn = None" using migrate_all_fresh [OF c1(2,3,5)] assms(5) c1(1) by simp
  with lookup_reads [OF F(1) up' assms(3,4)] n show ?thesis by (simp add: reads_def accepted_def)
qed

end

subsection \<open>In-memory storage: a failed write changes nothing\<close>

lemma raw_set_fault: "raw_set h key ty buf len m = (err, m') \<Longrightarrow> m_write_fault m' = m_write_fault m"
  by (auto simp: raw_set_def with_entries_def mem_alloc_def Let_def split: if_splits list.splits prod.splits bool.splits)

lemma mem_set_fault: "mem_set h kn ty buf len m = (ESP_OK, b) \<Longrightarrow> m_write_fault b = ESP_OK"
  using raw_set_fault [of h kn ty buf len m] by (auto simp: mem_set_def split: if_splits)

interpretation mem_steady: steady_backend espos_config_backend_mem mem_ok mem_stored mem_ns_of
proof
  fix b b' h key ty buf len
  assume "be_set espos_config_backend_mem h key ty buf len b = (ESP_OK, b')"
  then have "m_write_fault b' = ESP_OK" using mem_set_fault by (simp add: espos_config_backend_mem_def)
  then show "fst (be_commit espos_config_backend_mem h b') = ESP_OK" by (simp add: espos_config_backend_mem_def mem_commit_def)
qed

lemma mem_store_value_fault:
  assumes "mem_ok (c_be_ctx c)" and "store_value espos_config_backend_mem h key val c = (ESP_OK, c')"
  shows "m_write_fault (c_be_ctx c') = ESP_OK"
proof -
  have "m_write_fault b = ESP_OK" if "mem_set h kn ty buf len (c_be_ctx c) = (ESP_OK, b)" for kn ty buf len b
    using that by (rule mem_set_fault)
  moreover have "m_write_fault b = ESP_OK" if "mem_erase_key h kn (c_be_ctx c) = (e, b)" "e = ESP_OK \<or> e = ESP_ERR_NOT_FOUND" for kn e b
    using that assms(1) by (auto simp: mem_erase_key_def with_entries_def mem_ok_def split: if_splits)
  ultimately show ?thesis using assms(2) unfolding store_value_def espos_config_backend_mem_def
    by (auto split: cfg_value.splits if_splits prod.splits)
qed

lemma mem_write_refused:
  assumes "cfg_inv mem_ok mem_ns_of memory c" and "c_inited c" and "lookup ns key c = Some (st, p, nd, k)" and "espos_config_validate k val"
    and "write_locked espos_config_backend_mem st p k val c = (err, changed, c')" and "err \<noteq> ESP_OK"
  shows "mem_stored (c_be_ctx c') = mem_stored (c_be_ctx c)"
proof -
  from lookup_open [OF assms(1-3)] obtain h n kn where
    o: "ns_state_for p c = Some st" "slot_h st c = Some h" "mem_ns_of (c_be_ctx c) h = Some n" "k_name k = Some kn" by metis
  have okc: "mem_ok (c_be_ctx c)" using assms(1) by (simp add: cfg_inv_def cfg_base_def)
  obtain e eq c1 where v: "value_equals_effective espos_config_backend_mem p k val c = (e, eq, c1)" by (metis prod_cases3)
  note V = mem.value_equals_frame [OF v]
  obtain e2 c2 where s: "store_value espos_config_backend_mem h k val c1 = (e2, c2)" by force
  have ok1: "mem_ok (c_be_ctx c1)" "mem_ns_of (c_be_ctx c1) h = Some n" using V okc o by simp_all
  from mem.store_value_law [OF ok1 o(4) validate_type [OF assms(4)] s] obtain b where
    b: "c2 = c1\<lparr>c_be_ctx := b\<rparr>" "e2 \<noteq> ESP_OK \<Longrightarrow> mem_stored b = mem_stored (c_be_ctx c1)" by (auto split: if_splits)
  have h1: "slot_h st c1 = Some h" using V same_tables_lookup(4) [of c c1] o(2) by simp
  have "e2 \<noteq> ESP_OK" if "e = ESP_OK"
  proof
    assume "e2 = ESP_OK"
    with mem_store_value_fault [OF ok1(1)] s have "m_write_fault (c_be_ctx c2) = ESP_OK" by simp
    with assms(5,6) v that h1 s \<open>e2 = ESP_OK\<close> show False
      by (auto simp: write_locked_def commit_def espos_config_backend_mem_def mem_commit_def)
  qed
  then have "c' = c1 \<or> c' = c2 \<and> e2 \<noteq> ESP_OK" using assms(5) v h1 s by (auto simp: write_locked_def split: if_splits)
  with b V show ?thesis by auto
qed

subsection \<open>A store to look at\<close>

definition demo_scalar :: cfg_scalar where
  "demo_scalar = \<lparr>sc_b = False, sc_i = 5, sc_f = 0, sc_s = Some ''boat''\<rparr>"

definition demo_int :: cfg_key where
  "demo_int = \<lparr>k_name = Some ''port'', k_type = ESPOS_CFG_TYPE_INT, k_flags = 0, k_def = demo_scalar,
     k_min = demo_scalar\<lparr>sc_i := 1\<rparr>, k_max = demo_scalar\<lparr>sc_i := 100\<rparr>, k_has_min = False, k_has_max = False,
     k_max_len = 0, k_enum_values = None\<rparr>"

definition demo_string :: cfg_key where
  "demo_string = demo_int\<lparr>k_name := Some ''host'', k_type := ESPOS_CFG_TYPE_STRING, k_max_len := 8\<rparr>"

definition demo_ns :: cfg_ns where
  "demo_ns = \<lparr>n_name = Some ''net'', n_title = Some ''Network'', n_version = 3, n_keys = Some [demo_int, demo_string]\<rparr>"

definition demo_node :: cfg_ns where
  "demo_node = demo_ns\<lparr>n_name := Some ''f_cal''\<rparr>"

definition demo :: "(mem, nat) cfg" where
  "demo = cfg_run espos_config_backend_mem (\<lambda>_. demo_node) [demo_ns] [] (espos_config_mem_create [])
     [Init, Register_Ns 5, Subscribe (Some 7) 1, Set_Value (Some ''f_cal'') (Some ''host'') (V_String (Some ''ship''))]"

lemma demo_ok: "mem_ok (espos_config_mem_create [])" "tab_ok [demo_ns]"
  by (simp_all add: mem_ok_def espos_config_mem_create_def tab_ok_def demo_ns_def)

lemma demo_run: "demo = cfg_run espos_config_backend_mem (\<lambda>_. demo_node) [demo_ns] [] (espos_config_mem_create [])
     [Init, Register_Ns 5, Subscribe (Some 7) 1, Set_Value (Some ''f_cal'') (Some ''host'') (V_String (Some ''ship''))]"
  by (rule demo_def)

text \<open>A namespace stored at version 1 whose second step fails.\<close>

definition old_store :: mem where
  "old_store = snd (espos_config_mem_plant ''net'' ESPOS_CFG_VERSION_KEY ESPOS_CFG_TYPE_INT (word_bytes 1) 4 (espos_config_mem_create []))"

definition old_cfg :: "(mem, nat) cfg" where
  "old_cfg = (cfg_zero [demo_ns] [] old_store)\<lparr>c_ns := [Some 0],
     c_migrations := [\<lparr>mg_ns = ''net'', mg_from = 1, mg_fn = (\<lambda>_. Migrate_Erase ''gone'' (\<lambda>_. Return ESP_OK))\<rparr>,
                      \<lparr>mg_ns = ''net'', mg_from = 2, mg_fn = (\<lambda>_. Return ESP_FAIL)\<rparr>]\<rparr>"

subsection \<open>What the store promises\<close>

text \<open>
  C1. A setting that was accepted is read back as it was given, in every state the store can reach over any
  storage content, and every other setting reads what it read before. A blob of no bytes reads as an absent one.
\<close>

theorem cfg_set_then_read:
  assumes "mem_ok m" and "tab_ok tab" and "plain val"
    and "set_value espos_config_backend_mem ns key val (cfg_run espos_config_backend_mem memory tab heap m ops) = (ESP_OK, c)"
  shows "\<exists>st p nd k. lookup ns key c = Some (st, p, nd, k) \<and>
     fst (espos_config_read_effective espos_config_backend_mem p k c) = ESP_OK \<and>
     fst (snd (espos_config_read_effective espos_config_backend_mem p k c)) = written val \<and>
     (\<forall>ns2 key2 st2 p2 nd2 k2. (ns2, key2) \<noteq> (ns, key) \<longrightarrow> known (k_type k2) \<longrightarrow>
        lookup ns2 key2 (cfg_run espos_config_backend_mem memory tab heap m ops) = Some (st2, p2, nd2, k2) \<longrightarrow>
        lookup ns2 key2 c = Some (st2, p2, nd2, k2) \<and>
        espos_config_read_effective espos_config_backend_mem p2 k2 c =
        espos_config_read_effective espos_config_backend_mem p2 k2 (cfg_run espos_config_backend_mem memory tab heap m ops))"
  by (rule mem.set_then_read [OF mem.cfg_run_inv [OF assms(1,2)] assms(4,3)]) blast

theorem cfg_set_then_read_witness:
  "\<exists>c st p nd k. set_value espos_config_backend_mem (Some ''net'') (Some ''port'') (V_Int 17) demo = (ESP_OK, c) \<and>
     lookup (Some ''net'') (Some ''port'') c = Some (st, p, nd, k) \<and>
     fst (snd (espos_config_read_effective espos_config_backend_mem p k c)) = V_Int 17"
proof -
  have "fst (set_value espos_config_backend_mem (Some ''net'') (Some ''port'') (V_Int 17) demo) = ESP_OK" by code_simp
  then obtain c where c: "set_value espos_config_backend_mem (Some ''net'') (Some ''port'') (V_Int 17) demo = (ESP_OK, c)"
    by (metis prod.collapse)
  have "plain (V_Int 17)" by simp
  from cfg_set_then_read [OF demo_ok this c [unfolded demo_run]] c show ?thesis by auto
qed

text \<open>
  C15. Whatever bytes the storage holds, a read of a declared setting of one of the five types succeeds with a value of
  that type. The value passes the setting's own validation, or the setting counts as unset and the value is its declared default; a
  default is not validated when a namespace is registered, so only a default that is valid makes every read valid.
\<close>

theorem cfg_reads_are_valid:
  assumes "mem_ok m" and "tab_ok tab" and "c = cfg_run espos_config_backend_mem memory tab heap m ops" and "c_inited c"
    and "lookup ns key c = Some (st, p, nd, k)" and "known (k_type k)"
  shows "\<exists>v s. espos_config_read_effective espos_config_backend_mem p k c = (ESP_OK, v, s) \<and> type_of v = k_type k \<and>
     (if s then espos_config_validate k v else v = fallback_value k) \<and> (default_ok k \<longrightarrow> espos_config_validate k v)"
proof -
  have "cfg_inv mem_ok mem_ns_of memory c" using mem.cfg_run_inv [OF assms(1,2)] assms(3) by simp
  from mem.lookup_reads [OF this assms(4,5,6)] reads_type [OF assms(6)] reads_accepted [of k] reads_valid [of k] show ?thesis by simp
qed

theorem cfg_reads_are_valid_witness:
  "\<exists>v s. espos_config_read_effective espos_config_backend_mem (Runtime 5) demo_string demo = (ESP_OK, v, s) \<and>
     type_of v = ESPOS_CFG_TYPE_STRING \<and> espos_config_validate demo_string v"
proof -
  have up: "c_inited demo" by code_simp
  have l: "lookup (Some ''f_cal'') (Some ''host'') demo = Some (Rt 0, Runtime 5, demo_node, demo_string)" by code_simp
  have k: "default_ok demo_string" "known (k_type demo_string)" by code_simp+
  from cfg_reads_are_valid [OF demo_ok demo_run up l k(2)] k(1) show ?thesis by (auto simp: demo_string_def)
qed

text \<open>
  C12. In every reachable state a handle that is held is open for its own namespace, no registered namespace has
  the name of a built-in or of another registered one, and every namespace is open while the store is up and none
  otherwise: no operation works on a handle that was closed or wiped.
\<close>

theorem cfg_handles_stay_open:
  assumes "mem_ok m" and "tab_ok tab" and "c = cfg_run espos_config_backend_mem memory tab heap m ops"
  shows "handles_ok mem_ns_of c \<and> rt_ok memory (c_tab c) (c_rt c) \<and> (if c_inited c then all_open c else all_closed c)"
  using mem.cfg_run_inv [OF assms(1,2), of memory heap ops] unfolding assms(3) [symmetric] cfg_inv_def cfg_base_def by blast

theorem cfg_handles_stay_open_witness:
  "handles_ok mem_ns_of demo \<and> rt_ok (\<lambda>_. demo_node) (c_tab demo) (c_rt demo) \<and> (if c_inited demo then all_open demo else all_closed demo)"
  by (rule cfg_handles_stay_open [OF demo_ok demo_run])

text \<open>Two values of a setting differ: floating-point numbers as numbers, all others as they are.\<close>

definition value_differs :: "cfg_value \<Rightarrow> cfg_value \<Rightarrow> bool" where
  "value_differs old new =
     (case (old, new) of (V_Float x, V_Float y) \<Rightarrow> \<not> f_eq x y | _ \<Rightarrow> old \<noteq> new)"

lemma same_value_written:
  assumes "espos_config_validate k val" shows "same_value (reads k r) val \<longleftrightarrow> \<not> value_differs (reads k r) (written val)"
proof -
  have known: "known (k_type k)" using validate_type [OF assms] type_of_known [of val] by simp
  have t: "type_of (reads k r) = type_of val" using reads_type [OF known, of r] validate_type [OF assms] by simp
  have "\<exists>bs. bl = Blob bs" if "reads k r = V_Blob bl" for bl using reads_blob [OF that] .
  moreover have "n = 0" if "val = V_Blob (Null_Blob n)" for n using assms that by (auto simp: espos_config_validate_def split: if_splits)
  ultimately show ?thesis using t by (cases "reads k r"; cases val rule: written.cases) (auto simp: value_differs_def split: blob.splits elim: blob_len.elims)
qed

text \<open>
  C35. Over the in-memory storage, subscribers are told of a write exactly when it succeeded and the value the setting reads after it
  differs from the one it read before it, each subscriber once and in order; a write that is refused calls nobody and changes nothing
  that is stored.
\<close>

theorem cfg_subscribers_hear_changes:
  assumes "mem_ok m" and "tab_ok tab" and "c = cfg_run espos_config_backend_mem memory tab heap m ops" and "plain val"
    and "set_value espos_config_backend_mem (Some n) (Some kn) val c = (err, c')"
  shows "if err = ESP_OK
     then \<exists>st p nd k. lookup (Some n) (Some kn) c = Some (st, p, nd, k) \<and>
       c_calls c' = c_calls c @
         (if value_differs (fst (snd (espos_config_read_effective espos_config_backend_mem p k c)))
              (fst (snd (espos_config_read_effective espos_config_backend_mem p k c')))
          then map (\<lambda>s. (fst (the s), snd (the s), Some n, Some kn)) (filter (\<lambda>s. s \<noteq> None) (c_subs c)) else [])
     else c_calls c' = c_calls c \<and> mem_stored (c_be_ctx c') = mem_stored (c_be_ctx c)"

proof -
  have inv: "cfg_inv mem_ok mem_ns_of memory c" using mem.cfg_run_inv [OF assms(1,2)] assms(3) by simp
  note S = mem.set_value_law [OF inv assms(5)]
  show ?thesis
  proof (cases "err = ESP_OK")
    case True
    from S(3) [OF True] obtain st p nd k where l: "c_inited c" "lookup (Some n) (Some kn) c = Some (st, p, nd, k)" "espos_config_validate k val"
      "c_calls c' = c_calls c @ (if same_value (reads k (mem_stored (c_be_ctx c) n kn)) val then []
        else map (\<lambda>s. (fst (the s), snd (the s), Some n, Some kn)) (filter (\<lambda>s. s \<noteq> None) (c_subs c)))" by blast
    have "known (k_type k)" using validate_type [OF l(3)] type_of_known [of val] by simp
    note old = mem.lookup_reads [OF inv l(1,2) this]
    from mem.set_then_read [OF inv assms(5) [unfolded True] assms(4)] same_tables_lookup(1) [OF S(2)] l(2)
    have new: "fst (snd (espos_config_read_effective espos_config_backend_mem p k c')) = written val" by (metis old.prod.inject option.inject)
    show ?thesis using old new l True same_value_written [OF l(3)] by auto
  next
    case False
    have "mem_stored (c_be_ctx c') = mem_stored (c_be_ctx c)"
    proof (cases "c_inited c \<and> (\<exists>st p nd k. lookup (Some n) (Some kn) c = Some (st, p, nd, k) \<and> k_flags k AND ESPOS_CFG_FLAG_READ_ONLY = 0 \<and> espos_config_validate k val)")
      case True
      then obtain st p nd k where l: "c_inited c" "lookup (Some n) (Some kn) c = Some (st, p, nd, k)" "k_flags k AND ESPOS_CFG_FLAG_READ_ONLY = 0"
        "espos_config_validate k val" by blast
      obtain e ch c1 where w: "write_locked espos_config_backend_mem st p k val c = (e, ch, c1)" by (metis prod_cases3)
      have "c' = c1 \<and> e = err" using assms(5) l w False by (auto simp: set_value_def split: if_splits)
      with mem_write_refused [OF inv l(1,2,4) w] False show ?thesis by simp
    next
      case False
      then show ?thesis using assms(5) by (auto simp: set_value_def split: if_splits option.splits)
    qed
    with S(4) False show ?thesis by simp
  qed
qed

theorem cfg_subscribers_hear_changes_witness:
  "\<exists>c. set_value espos_config_backend_mem (Some ''net'') (Some ''port'') (V_Int 17) demo = (ESP_OK, c) \<and>
     (c_calls c = c_calls demo \<or>
      c_calls c = c_calls demo @ map (\<lambda>s. (fst (the s), snd (the s), Some ''net'', Some ''port'')) (filter (\<lambda>s. s \<noteq> None) (c_subs demo)))"
proof -
  have "fst (set_value espos_config_backend_mem (Some ''net'') (Some ''port'') (V_Int 17) demo) = ESP_OK" by code_simp
  then obtain c where c: "set_value espos_config_backend_mem (Some ''net'') (Some ''port'') (V_Int 17) demo = (ESP_OK, c)"
    by (metis prod.collapse)
  have "plain (V_Int 17)" by simp
  from cfg_subscribers_hear_changes [OF demo_ok demo_run this c] c show ?thesis by (auto split: if_splits)
qed

text \<open>
  C36. A factory reset that succeeds leaves every declared setting at its default and unset, whatever was stored.
\<close>

theorem cfg_factory_reset_restores_defaults:
  assumes "mem_ok m" and "tab_ok tab"
    and "espos_config_factory_reset espos_config_backend_mem (cfg_run espos_config_backend_mem memory tab heap m ops) = (ESP_OK, c)"
    and "lookup ns key c = Some (st, p, nd, k)" and "known (k_type k)" and "key \<noteq> Some ESPOS_CFG_VERSION_KEY"
  shows "espos_config_read_effective espos_config_backend_mem p k c = (ESP_OK, fallback_value k, False)"
  by (rule mem.factory_reset_defaults [OF mem.cfg_run_inv [OF assms(1,2)] assms(3-6)])

theorem cfg_factory_reset_restores_defaults_witness:
  "\<exists>c. espos_config_factory_reset espos_config_backend_mem demo = (ESP_OK, c) \<and>
     espos_config_read_effective espos_config_backend_mem (Runtime 5) demo_string c = (ESP_OK, V_String (Some ''boat''), False)"
proof -
  have "fst (espos_config_factory_reset espos_config_backend_mem demo) = ESP_OK" by code_simp
  then obtain c where c: "espos_config_factory_reset espos_config_backend_mem demo = (ESP_OK, c)" by (metis prod.collapse)
  have "lookup (Some ''f_cal'') (Some ''host'') (snd (espos_config_factory_reset espos_config_backend_mem demo)) =
    Some (Rt 0, Runtime 5, demo_node, demo_string)" by code_simp
  with c have l: "lookup (Some ''f_cal'') (Some ''host'') c = Some (Rt 0, Runtime 5, demo_node, demo_string)" by simp
  have k: "known (k_type demo_string)" "Some ''host'' \<noteq> Some ESPOS_CFG_VERSION_KEY" "fallback_value demo_string = V_String (Some ''boat'')" by code_simp+
  from cfg_factory_reset_restores_defaults [OF demo_ok c [unfolded demo_run] l k(1,2)] c k(3) show ?thesis by simp
qed

text \<open>
  C20. Over the in-memory storage, and when no registered step touches the version stamp itself, the migration of a namespace runs
  its steps in order from the stored version and stamps each that succeeds. It stops at the first step that fails or cannot be
  stamped, with the stamp at that step's version, so that the next start begins with that step and repeats none before it. A
  chain without a failure ends stamped with the current version.
\<close>

theorem cfg_migration_resumes:
  assumes "mem_ok (c_be_ctx c)" and "slot_h st c = Some h" and "mem_ns_of (c_be_ctx c) h = Some n" and "n_name (slot_desc st c) = Some n"
    and "stamps_safe (slot_desc st c) c" and "v < n_version (slot_desc st c)"
    and "mem_stored (c_be_ctx c) n ESPOS_CFG_VERSION_KEY = Some (ESPOS_CFG_TYPE_INT, word_bytes (ucast v))"
    and "c' = migrate_ns espos_config_backend_mem st c"
  shows "\<exists>us rest c1. versions v (n_version (slot_desc st c)) = us @ rest \<and> migrated espos_config_backend_mem h (slot_desc st c) us c c1 \<and>
     (case rest of
        [] \<Rightarrow> c' = c1 \<and> read_version espos_config_backend_mem h c' = (ESP_OK, n_version (slot_desc st c))
      | w # _ \<Rightarrow> c' = snd (migrate_one espos_config_backend_mem h (slot_desc st c) w c1) \<and>
          fst (migrate_one espos_config_backend_mem h (slot_desc st c) w c1) \<noteq> ESP_OK \<and>
          read_version espos_config_backend_mem h c' = (ESP_OK, w))"

proof -
  have "c' = migrate_steps espos_config_backend_mem h (slot_desc st c) (versions v (n_version (slot_desc st c))) c"
    using assms(2,6,8) mem.read_stamp [OF assms(1,3,7)] by (simp add: migrate_ns_def Let_def)
  with assms(6) mem_steady.migrate_steps_chain [OF assms(1,3,4,5,7)] show ?thesis by simp
qed

theorem cfg_migration_resumes_witness:
  "\<exists>us rest c1. versions 1 3 = us @ rest \<and> migrated espos_config_backend_mem 0 demo_ns us old_cfg c1 \<and>
     (case rest of
        [] \<Rightarrow> migrate_ns espos_config_backend_mem (Ns 0) old_cfg = c1 \<and>
          read_version espos_config_backend_mem 0 (migrate_ns espos_config_backend_mem (Ns 0) old_cfg) = (ESP_OK, 3)
      | w # _ \<Rightarrow> migrate_ns espos_config_backend_mem (Ns 0) old_cfg = snd (migrate_one espos_config_backend_mem 0 demo_ns w c1) \<and>
          fst (migrate_one espos_config_backend_mem 0 demo_ns w c1) \<noteq> ESP_OK \<and>
          read_version espos_config_backend_mem 0 (migrate_ns espos_config_backend_mem (Ns 0) old_cfg) = (ESP_OK, w))"
proof -
  have d: "slot_desc (Ns 0) old_cfg = demo_ns" "slot_h (Ns 0) old_cfg = Some 0" "c_be_ctx old_cfg = old_store" "n_version demo_ns = 3" "n_name demo_ns = Some ''net''"
    by (simp_all add: old_cfg_def cfg_zero_def slot_desc_def slot_h_def demo_ns_def)
  have s: "mem_ok (c_be_ctx old_cfg)" "mem_ns_of (c_be_ctx old_cfg) 0 = Some ''net''"
    "mem_stored (c_be_ctx old_cfg) ''net'' ESPOS_CFG_VERSION_KEY = Some (ESPOS_CFG_TYPE_INT, word_bytes (ucast (1 :: u16)))"
    unfolding d(3) by code_simp+
  have safe: "stamps_safe (slot_desc (Ns 0) old_cfg) old_cfg" by (simp add: stamps_safe_def old_cfg_def ESPOS_CFG_VERSION_KEY_def)
  have n: "n_name (slot_desc (Ns 0) old_cfg) = Some ''net''" "1 < n_version (slot_desc (Ns 0) old_cfg)" by (simp_all add: d)
  show ?thesis using cfg_migration_resumes [OF s(1) d(2) s(2) n(1) safe n(2) s(3) refl] unfolding d .
qed

end
