(* ===== verification/Sk_Tls_Policy.thy ===== *)
theory Sk_Tls_Policy
  imports Espos_Prelude "HOL-Library.Char_ord" "HOL-Library.List_Lexorder"
begin

text \<open>
  The trust decision for a server certificate and the normal form of the host names it carries,
  src/components/espos_sk/src/sk_tls_policy.c with include/espos_sk_tls_policy.h.

  A name is a C string, the list of its characters in front of the NUL; a pointer that may be NULL is
  an option. \<open>char\<close> is unsigned on the ESP32 targets, so names compare by the order of characters and
  lists of the library. The output buffer is its size, \<open>None\<close> for a NULL pointer; what was written to it
  is the string in front of its NUL, \<open>None\<close> when nothing was.
\<close>

subsection \<open>The decision\<close>

datatype espos_sk_tls_anchor_kind = ESPOS_SK_TLS_ANCHOR_NONE | ESPOS_SK_TLS_ANCHOR_CA | ESPOS_SK_TLS_ANCHOR_LEAF

datatype espos_sk_tls_trust = ESPOS_SK_TLS_TRUST_TOFU | ESPOS_SK_TLS_TRUST_CA | ESPOS_SK_TLS_TRUST_BUNDLE

datatype espos_sk_tls_verdict = ESPOS_SK_TLS_ACCEPT | ESPOS_SK_TLS_CAPTURE | ESPOS_SK_TLS_REJECT

datatype espos_sk_tls_reason =
    ESPOS_SK_TLS_R_OK
  | ESPOS_SK_TLS_R_FIRST_USE
  | ESPOS_SK_TLS_R_LEAF_CHANGED
  | ESPOS_SK_TLS_R_CA_CHANGED
  | ESPOS_SK_TLS_R_SAN_CHANGED
  | ESPOS_SK_TLS_R_NO_IDENTITY

record espos_sk_tls_facts =
  tf_has_anchor :: bool
  tf_anchor_is_leaf :: bool
  tf_leaf_matches :: bool
  tf_ca_present :: bool
  tf_ca_matches :: bool
  tf_leaf_has_san :: bool
  tf_san_matches :: bool

record espos_sk_tls_decision =
  td_verdict :: espos_sk_tls_verdict
  td_reason :: espos_sk_tls_reason
  td_capture_as :: espos_sk_tls_anchor_kind

definition espos_sk_tls_decide :: "espos_sk_tls_facts option \<Rightarrow> espos_sk_tls_decision" where
  "espos_sk_tls_decide fo =
     (let d = \<lparr>td_verdict = ESPOS_SK_TLS_REJECT, td_reason = ESPOS_SK_TLS_R_LEAF_CHANGED,
               td_capture_as = ESPOS_SK_TLS_ANCHOR_NONE\<rparr>
      in case fo of
           None \<Rightarrow> d
         | Some f \<Rightarrow>
             if \<not> tf_has_anchor f then
               d\<lparr>td_verdict := ESPOS_SK_TLS_CAPTURE, td_reason := ESPOS_SK_TLS_R_FIRST_USE,
                 td_capture_as := (if tf_ca_present f \<and> tf_leaf_has_san f then ESPOS_SK_TLS_ANCHOR_CA
                                   else ESPOS_SK_TLS_ANCHOR_LEAF)\<rparr>
             else if tf_anchor_is_leaf f then
               (if tf_leaf_matches f then d\<lparr>td_verdict := ESPOS_SK_TLS_ACCEPT, td_reason := ESPOS_SK_TLS_R_OK\<rparr>
                else d\<lparr>td_reason := ESPOS_SK_TLS_R_LEAF_CHANGED\<rparr>)
             else if \<not> tf_ca_present f \<or> \<not> tf_ca_matches f then d\<lparr>td_reason := ESPOS_SK_TLS_R_CA_CHANGED\<rparr>
             else if \<not> tf_leaf_has_san f then d\<lparr>td_reason := ESPOS_SK_TLS_R_NO_IDENTITY\<rparr>
             else if \<not> tf_san_matches f then d\<lparr>td_reason := ESPOS_SK_TLS_R_SAN_CHANGED\<rparr>
             else d\<lparr>td_verdict := ESPOS_SK_TLS_ACCEPT, td_reason := ESPOS_SK_TLS_R_OK\<rparr>)"

fun espos_sk_tls_reason_str :: "espos_sk_tls_reason \<Rightarrow> string" where
  "espos_sk_tls_reason_str ESPOS_SK_TLS_R_OK = ''certificate matches the pinned one''"
| "espos_sk_tls_reason_str ESPOS_SK_TLS_R_FIRST_USE = ''first use: pinning this certificate''"
| "espos_sk_tls_reason_str ESPOS_SK_TLS_R_LEAF_CHANGED = ''the server certificate changed''"
| "espos_sk_tls_reason_str ESPOS_SK_TLS_R_CA_CHANGED = ''the server certificate was issued by a different CA''"
| "espos_sk_tls_reason_str ESPOS_SK_TLS_R_SAN_CHANGED = ''the server certificate now names different hosts''"
| "espos_sk_tls_reason_str ESPOS_SK_TLS_R_NO_IDENTITY = ''the server certificate carries no host name to check''"

subsection \<open>The normal form of a set of names\<close>

definition lower :: "char \<Rightarrow> char" where
  "lower c = (if CHR ''A'' \<le> c \<and> c \<le> CHR ''Z'' then char_of (of_char c - of_char (CHR ''A'') + of_char (CHR ''a'') :: nat) else c)"

fun cmp_ci :: "string \<Rightarrow> string \<Rightarrow> int" where
  "cmp_ci (a # as) (b # bs) =
     (let x = lower a; y = lower b in if x \<noteq> y then (if x < y then - 1 else 1) else cmp_ci as bs)"
| "cmp_ci (a # as) [] = 1"
| "cmp_ci [] (b # bs) = - 1"
| "cmp_ci [] [] = 0"

text \<open>One candidate of the inner loop, and the loop: the smallest name after the one last written.\<close>

definition better :: "string option \<Rightarrow> string option \<Rightarrow> string option \<Rightarrow> string option" where
  "better prev best cand =
     (case cand of
        None \<Rightarrow> best
      | Some c \<Rightarrow>
          if c = [] then best
          else if prev \<noteq> None \<and> cmp_ci c (the prev) \<le> 0 then best
          else if best = None \<or> cmp_ci c (the best) < 0 then Some c
          else best)"

definition next_name :: "string option list \<Rightarrow> string option \<Rightarrow> string option" where
  "next_name names prev = foldl (better prev) None names"

text \<open>The passes that are left, the name last written and the text so far.\<close>

fun san_passes :: "nat \<Rightarrow> string option list \<Rightarrow> nat \<Rightarrow> string option \<Rightarrow> string \<Rightarrow> esp_err \<times> string \<times> bool" where
  "san_passes 0 names out_size prev out = (ESP_OK, out, False)"
| "san_passes (Suc k) names out_size prev out =
     (case next_name names prev of
        None \<Rightarrow> (ESP_OK, out, False)
      | Some best \<Rightarrow>
          let need = length best + (if out \<noteq> [] then 1 else 0)
          in if length out + need + 1 > out_size then (ESP_ERR_INVALID_SIZE, out, True)
             else san_passes k names out_size (Some best) (out @ (if out \<noteq> [] then '','' else []) @ map lower best))"

definition espos_sk_tls_san_normalise ::
  "string option list option \<Rightarrow> nat option \<Rightarrow> esp_err \<times> string option \<times> bool" where
  "espos_sk_tls_san_normalise names out =
     (case out of
        None \<Rightarrow> (ESP_ERR_INVALID_ARG, None, False)
      | Some out_size \<Rightarrow>
          if out_size = 0 then (ESP_ERR_INVALID_ARG, None, False)
          else case names of
                 None \<Rightarrow> (ESP_OK, Some [], False)
               | Some ns \<Rightarrow>
                   if ns = [] then (ESP_OK, Some [], False)
                   else case san_passes (length ns) ns out_size None [] of (err, s, tr) \<Rightarrow> (err, Some s, tr))"

definition espos_sk_tls_san_equal :: "string option \<Rightarrow> string option \<Rightarrow> bool" where
  "espos_sk_tls_san_equal ao bo =
     (case (ao, bo) of
        (Some a, Some b) \<Rightarrow>
          a \<noteq> [] \<and> b \<noteq> [] \<and> hd a \<noteq> CHR ''!'' \<and> hd b \<noteq> CHR ''!'' \<and> a = b
      | _ \<Rightarrow> False)"

subsection \<open>Names as a set\<close>

definition low :: "string \<Rightarrow> string" where
  "low = map lower"

text \<open>The host names of a list: lower case, empty and missing entries left out.\<close>

definition hosts :: "string option list \<Rightarrow> string set" where
  "hosts names = low ` {c. Some c \<in> set names \<and> c \<noteq> []}"

definition later :: "string option \<Rightarrow> string set \<Rightarrow> string set" where
  "later prev S = (case prev of None \<Rightarrow> S | Some p \<Rightarrow> {s \<in> S. low p < s})"

lemma cmp_ci_less: "cmp_ci a b < 0 \<longleftrightarrow> low a < low b"
  by (induction a b rule: cmp_ci.induct) (auto simp: low_def Let_def)

lemma cmp_ci_le: "cmp_ci a b \<le> 0 \<longleftrightarrow> low a \<le> low b"
  by (induction a b rule: cmp_ci.induct) (auto simp: low_def Let_def)

lemma finite_hosts [simp]: "finite (hosts names)"
proof -
  have "{c. Some c \<in> set names \<and> c \<noteq> []} \<subseteq> the ` set names" by force
  then show ?thesis unfolding hosts_def by (meson finite_imageI finite_set finite_subset)
qed

lemma card_hosts: "card (hosts names) \<le> length names"
proof -
  have "hosts names \<subseteq> (low \<circ> the) ` set names" unfolding hosts_def by force
  then have "card (hosts names) \<le> card ((low \<circ> the) ` set names)" by (rule card_mono [rotated]) simp
  also have "\<dots> \<le> card (set names)" by (rule card_image_le) simp
  finally show ?thesis using card_length [of names] by linarith
qed

lemma hosts_nonempty: "s \<in> hosts names \<Longrightarrow> s \<noteq> []"
  by (auto simp: hosts_def low_def)

lemma hosts_Nil [simp]: "hosts [] = {}"
  by (simp add: hosts_def)

lemma hosts_snoc:
  "hosts (names @ [c]) = (case c of None \<Rightarrow> hosts names | Some x \<Rightarrow> if x = [] then hosts names else insert (low x) (hosts names))"
  by (auto simp: hosts_def split: option.splits)

lemma finite_later [simp]: "finite S \<Longrightarrow> finite (later prev S)"
  by (simp add: later_def split: option.splits)

lemma later_insert:
  "later prev (insert (low x) S) = (if prev \<noteq> None \<and> cmp_ci x (the prev) \<le> 0 then later prev S else insert (low x) (later prev S))"
  by (cases prev) (auto simp: later_def cmp_ci_le)

text \<open>The inner loop finds the least of the names that are still to come.\<close>

lemma next_name_None: "next_name names prev = None \<longleftrightarrow> later prev (hosts names) = {}"
  and next_name_Some: "next_name names prev = Some b \<Longrightarrow> b \<noteq> [] \<and> later prev (hosts names) \<noteq> {} \<and> low b = Min (later prev (hosts names))"
proof -
  have "case next_name names prev of None \<Rightarrow> later prev (hosts names) = {}
        | Some b \<Rightarrow> b \<noteq> [] \<and> later prev (hosts names) \<noteq> {} \<and> low b = Min (later prev (hosts names))"
  proof (induction names rule: rev_induct)
    case Nil
    show ?case by (simp add: next_name_def later_def split: option.splits)
  next
    case (snoc c names)
    have step: "next_name (names @ [c]) prev = better prev (next_name names prev) c" by (simp add: next_name_def)
    show ?case
    proof (cases "c = None \<or> the c = [] \<or> prev \<noteq> None \<and> cmp_ci (the c) (the prev) \<le> 0")
      case True
      then have same: "later prev (hosts (names @ [c])) = later prev (hosts names)"
          "better prev (next_name names prev) c = next_name names prev"
        by (auto simp: hosts_snoc later_insert better_def split: option.splits)
      show ?thesis unfolding step same by (rule snoc)
    next
      case False
      then obtain x where x: "c = Some x" "x \<noteq> []" by (cases c) auto
      let ?L = "later prev (hosts names)"
      have L: "later prev (hosts (names @ [c])) = insert (low x) ?L" using False x by (auto simp: hosts_snoc later_insert)
      show ?thesis
      proof (cases "next_name names prev")
        case None
        with snoc x False L step show ?thesis by (auto simp: better_def)
      next
        case (Some b)
        with snoc have b: "b \<noteq> []" "?L \<noteq> {}" "low b = Min ?L" by auto
        then have mn: "Min (insert (low x) ?L) = min (low x) (low b)" by simp
        have "better prev (Some b) (Some x) = Some (if low x < low b then x else b)"
          using x False by (auto simp: better_def cmp_ci_less)
        then show ?thesis using b(1) x(2) mn L step unfolding Some x(1) by (auto simp: min_def simp del: Min_insert)
      qed
    qed
  qed
  then show "next_name names prev = None \<longleftrightarrow> later prev (hosts names) = {}"
    and "next_name names prev = Some b \<Longrightarrow> b \<noteq> [] \<and> later prev (hosts names) \<noteq> {} \<and> low b = Min (later prev (hosts names))"
    by (auto split: option.splits)
qed

lemma later_Some:
  assumes "low b = Min (later prev S)" and "later prev S \<noteq> {}" and "finite S"
  shows "later (Some b) S = later prev S - {low b}"
proof -
  have ge: "low b \<le> s" if "s \<in> later prev S" for s using assms that by simp
  have mem: "low b \<in> later prev S" using assms Min_in [of "later prev S"] by simp
  show ?thesis
  proof (cases prev)
    case None
    with ge show ?thesis by (auto simp: later_def order.strict_iff_order)
  next
    case (Some p)
    with mem have "low p < low b" by (simp add: later_def)
    with ge Some show ?thesis by (force simp: later_def order.strict_iff_order)
  qed
qed

subsection \<open>The text of a list of names\<close>

fun emit :: "nat \<Rightarrow> string \<Rightarrow> string list \<Rightarrow> esp_err \<times> string \<times> bool" where
  "emit out_size out [] = (ESP_OK, out, False)"
| "emit out_size out (s # ss) =
     (if length out + (length s + (if out \<noteq> [] then 1 else 0)) + 1 > out_size then (ESP_ERR_INVALID_SIZE, out, True)
      else emit out_size (out @ (if out \<noteq> [] then '','' else []) @ s) ss)"

lemma san_passes_emit:
  "card (later prev (hosts names)) \<le> k \<Longrightarrow>
   san_passes k names out_size prev out = emit out_size out (sorted_list_of_set (later prev (hosts names)))"
proof (induction k arbitrary: prev out)
  case 0
  then have "later prev (hosts names) = {}" by simp
  then show ?case by simp
next
  case (Suc k)
  let ?L = "later prev (hosts names)"
  show ?case
  proof (cases "next_name names prev")
    case None
    then have "?L = {}" by (simp add: next_name_None)
    with None show ?thesis by simp
  next
    case (Some b)
    from next_name_Some [OF this] have b: "?L \<noteq> {}" "low b = Min ?L" by auto
    have rest: "later (Some b) (hosts names) = ?L - {low b}" by (rule later_Some [OF b(2,1)]) simp
    have "low b \<in> ?L" using b by simp
    then have "card (later (Some b) (hosts names)) \<le> k" using Suc.prems rest by simp
    moreover have "sorted_list_of_set ?L = low b # sorted_list_of_set (?L - {low b})"
      using b sorted_list_of_set_nonempty [of ?L] by simp
    moreover have "length (low b) = length b" and "map lower b = low b" by (simp_all add: low_def)
    ultimately show ?thesis using Some rest Suc.IH [of "Some b"] by (simp add: Let_def)
  qed
qed

fun join_names :: "string list \<Rightarrow> string" where
  "join_names [] = []"
| "join_names [s] = s"
| "join_names (s # t # ss) = s @ '','' @ join_names (t # ss)"

lemma join_names_snoc: "join_names (xs @ [y]) = (if xs = [] then y else join_names xs @ '','' @ y)"
  by (induction xs rule: join_names.induct) simp_all

lemma join_names_eq_Nil: "[] \<notin> set xs \<Longrightarrow> join_names xs = [] \<longleftrightarrow> xs = []"
  by (induction xs rule: join_names.induct) auto

lemma emit_join:
  assumes "[] \<notin> set (xs @ ys)" and "length (join_names xs) < n"
  shows "if length (join_names (xs @ ys)) < n then emit n (join_names xs) ys = (ESP_OK, join_names (xs @ ys), False)
         else \<exists>k<length ys. emit n (join_names xs) ys = (ESP_ERR_INVALID_SIZE, join_names (xs @ take k ys), True) \<and>
                length (join_names (xs @ take k ys)) < n \<and> n \<le> length (join_names (xs @ take (Suc k) ys))"
  using assms
proof (induction ys arbitrary: xs)
  case Nil
  then show ?case by simp
next
  case (Cons y ys)
  have j: "join_names (xs @ [y]) = join_names xs @ (if join_names xs \<noteq> [] then '','' else []) @ y"
    using Cons.prems by (simp add: join_names_snoc join_names_eq_Nil)
  show ?case
  proof (cases "length (join_names (xs @ [y])) < n")
    case True
    then have e: "emit n (join_names xs) (y # ys) = emit n (join_names (xs @ [y])) ys" unfolding j by (auto split: if_splits)
    have "[] \<notin> set ((xs @ [y]) @ ys)" using Cons.prems by simp
    from Cons.IH [OF this True] show ?thesis unfolding e
      by (auto split: if_splits intro: exI [of _ "Suc _"])
  next
    case False
    then have "emit n (join_names xs) (y # ys) = (ESP_ERR_INVALID_SIZE, join_names xs, True)" unfolding j by auto
    moreover have "n \<le> length (join_names (xs @ y # ys))"
    proof -
      have "length (join_names (zs @ w)) \<ge> length (join_names zs)" for zs w
        by (induction w rule: rev_induct) (simp_all add: join_names_snoc flip: append_assoc)
      from this [of "xs @ [y]" ys] False show ?thesis by simp
    qed
    ultimately show ?thesis using False Cons.prems by (auto intro!: exI [of _ 0])
  qed
qed

lemma takeWhile_upto_comma: "CHR '','' \<notin> set s \<Longrightarrow> takeWhile (\<lambda>c. c \<noteq> CHR '','') (s @ CHR '','' # r) = s"
  by (induction s) auto

lemma join_names_first:
  assumes "join_names (s # ss) = join_names (t # ts)" and "CHR '','' \<notin> set s" and "CHR '','' \<notin> set t"
  shows "s = t"
proof -
  have "takeWhile (\<lambda>c. c \<noteq> CHR '','') (join_names (s # ss)) = s" if "CHR '','' \<notin> set s" for s ss
    using that by (cases ss) (auto simp: takeWhile_upto_comma takeWhile_eq_all_conv)
  with assms show ?thesis by metis
qed

lemma join_names_inject:
  assumes "join_names xs = join_names ys" and "[] \<notin> set xs" and "[] \<notin> set ys"
    and "\<And>s. s \<in> set xs \<union> set ys \<Longrightarrow> CHR '','' \<notin> set s"
  shows "xs = ys"
  using assms
proof (induction xs arbitrary: ys rule: join_names.induct)
  case 1
  then show ?case using join_names_eq_Nil [of ys] by simp
next
  case (2 s)
  then obtain t ts where ys: "ys = t # ts" by (cases ys) auto
  have "s = t" using 2 ys by (intro join_names_first [of s "[]" t ts]) auto
  moreover have "ts = []" using 2 ys \<open>s = t\<close> by (cases ts) auto
  ultimately show ?case using ys by simp
next
  case (3 s t ss)
  then obtain u us where ys: "ys = u # us" by (cases ys) auto
  have "s = u" using 3 ys by (intro join_names_first [of s "t # ss" u us]) auto
  moreover have "us \<noteq> []" using 3 ys \<open>s = u\<close> by (cases us) auto
  then obtain v vs where us: "us = v # vs" by (cases us) auto
  have "t # ss = us" using 3 ys us \<open>s = u\<close> by (intro "3.IH") auto
  ultimately show ?case using ys by simp
qed

subsection \<open>The normal form\<close>

lemma san_normalise_form:
  fixes names :: "string option list"
  defines "L \<equiv> sorted_list_of_set (hosts names)"
  assumes "0 < n"
  shows "if length (join_names L) < n then espos_sk_tls_san_normalise (Some names) (Some n) = (ESP_OK, Some (join_names L), False)
         else \<exists>k<length L. espos_sk_tls_san_normalise (Some names) (Some n) = (ESP_ERR_INVALID_SIZE, Some (join_names (take k L)), True) \<and>
                length (join_names (take k L)) < n \<and> n \<le> length (join_names (take (Suc k) L))"
proof -
  have "[] \<notin> set ([] @ L)" using hosts_nonempty by (auto simp: L_def)
  moreover have "length (join_names []) < n" using assms by simp
  ultimately have "if length (join_names ([] @ L)) < n then emit n (join_names []) L = (ESP_OK, join_names ([] @ L), False)
         else \<exists>k<length L. emit n (join_names []) L = (ESP_ERR_INVALID_SIZE, join_names ([] @ take k L), True) \<and>
                length (join_names ([] @ take k L)) < n \<and> n \<le> length (join_names ([] @ take (Suc k) L))"
    by (rule emit_join)
  moreover have "san_passes (length names) names n None [] = emit n [] L"
    unfolding L_def using card_hosts [of names] san_passes_emit [of None names "length names" n "[]"] by (simp add: later_def)
  ultimately show ?thesis
    using assms by (cases "names = []") (auto simp: espos_sk_tls_san_normalise_def L_def split: if_splits)
qed

lemma san_normalise_OK:
  assumes "espos_sk_tls_san_normalise (Some names) (Some n) = (ESP_OK, Some a, c)"
  shows "a = join_names (sorted_list_of_set (hosts names))"
proof -
  have "0 < n" using assms by (cases "n = 0") (simp_all add: espos_sk_tls_san_normalise_def)
  from san_normalise_form [OF this, of names] assms show ?thesis by (auto split: if_splits)
qed

lemma hd_join_names: "s \<noteq> [] \<Longrightarrow> hd (join_names (s # ss)) = hd s"
  by (cases ss) auto

lemma join_hosts_marked:
  assumes "\<And>s. s \<in> hosts names \<Longrightarrow> hd s \<noteq> CHR ''!''" and "hosts names \<noteq> {}"
  shows "join_names (sorted_list_of_set (hosts names)) \<noteq> [] \<and> hd (join_names (sorted_list_of_set (hosts names))) \<noteq> CHR ''!''"
proof -
  have "set (sorted_list_of_set (hosts names)) = hosts names" by simp
  with assms(2) obtain s ss where L: "sorted_list_of_set (hosts names) = s # ss" "s \<in> hosts names"
    by (cases "sorted_list_of_set (hosts names)") auto
  moreover have "s \<noteq> []" and "hd s \<noteq> CHR ''!''" using L assms(1) hosts_nonempty by auto
  moreover from this have "join_names (s # ss) \<noteq> []" by (cases ss) auto
  ultimately show ?thesis by (simp add: hd_join_names)
qed

text \<open>
  C8. Two certificates' name sets, normalised whole, compare equal exactly when they name the same hosts,
  whatever the order, the repetitions and the case of the names; names with a comma or a leading
  exclamation mark, which a host name cannot have, are left aside.
\<close>

theorem tls_san_equal_iff_same_hosts:
  assumes "espos_sk_tls_san_normalise (Some xs) (Some n) = (ESP_OK, Some a, c)"
    and "espos_sk_tls_san_normalise (Some ys) (Some m) = (ESP_OK, Some b, d)"
    and "\<forall>s \<in> hosts xs \<union> hosts ys. CHR '','' \<notin> set s \<and> hd s \<noteq> CHR ''!''"
    and "hosts xs \<noteq> {}"
  shows "espos_sk_tls_san_equal (Some a) (Some b) \<longleftrightarrow> hosts xs = hosts ys"
proof -
  note ab = san_normalise_OK [OF assms(1)] san_normalise_OK [OF assms(2)]
  have ne: "[] \<notin> set (sorted_list_of_set (hosts zs))" for zs using hosts_nonempty by auto
  have "hosts xs = hosts ys" if "a = b"
  proof -
    have "sorted_list_of_set (hosts xs) = sorted_list_of_set (hosts ys)"
      using that ab ne assms(3) by (intro join_names_inject) auto
    then have "set (sorted_list_of_set (hosts xs)) = set (sorted_list_of_set (hosts ys))" by simp
    then show ?thesis by simp
  qed
  moreover have "a \<noteq> [] \<and> hd a \<noteq> CHR ''!''" using join_hosts_marked [of xs] assms(3,4) ab by auto
  ultimately show ?thesis using ab by (auto simp: espos_sk_tls_san_equal_def)
qed

theorem tls_san_equal_iff_same_hosts_witness:
  "espos_sk_tls_san_equal (Some ''10.0.0.2,boat.lan'') (Some ''10.0.0.2,boat.lan'') \<longleftrightarrow>
     hosts [Some ''Boat.lan'', None, Some ''10.0.0.2'', Some ''BOAT.LAN''] = hosts [Some ''10.0.0.2'', Some ''boat.lan'']"
proof -
  have l: "low ''Boat.lan'' = ''boat.lan''" "low ''BOAT.LAN'' = ''boat.lan''" "low ''boat.lan'' = ''boat.lan''" "low ''10.0.0.2'' = ''10.0.0.2''"
    by code_simp+
  show ?thesis
  proof (rule tls_san_equal_iff_same_hosts [where n = 64 and m = 64])
    show "espos_sk_tls_san_normalise (Some [Some ''Boat.lan'', None, Some ''10.0.0.2'', Some ''BOAT.LAN'']) (Some 64) = (ESP_OK, Some ''10.0.0.2,boat.lan'', False)"
      by code_simp
    show "espos_sk_tls_san_normalise (Some [Some ''10.0.0.2'', Some ''boat.lan'']) (Some 64) = (ESP_OK, Some ''10.0.0.2,boat.lan'', False)"
      by code_simp
    show "\<forall>s \<in> hosts [Some ''Boat.lan'', None, Some ''10.0.0.2'', Some ''BOAT.LAN''] \<union> hosts [Some ''10.0.0.2'', Some ''boat.lan'']. CHR '','' \<notin> set s \<and> hd s \<noteq> CHR ''!''"
      by (auto simp: hosts_def l)
    show "hosts [Some ''Boat.lan'', None, Some ''10.0.0.2'', Some ''BOAT.LAN''] \<noteq> {}" by (auto simp: hosts_def)
  qed
qed

end
