(* ===== verification/Sk_Tls.thy ===== *)
theory Sk_Tls
  imports Sk_Tls_Policy
begin

unbundle bit_operations_syntax

text \<open>
  The trust store of the SignalK connection, src/components/espos_sk/src/sk_tls.c: the pinned anchor and its
  persistence, the capture slot one handshake fills, the verify callback, the commit after the connection
  has proved itself, and the slot that lets one handshake through at a time.

  A certificate is what the code reads of it: its DER bytes, the subject's attributes (whether it is the common
  name, and its bytes), the sequence of alternative names (tag and bytes) and whether it is a CA. SHA-256, the
  PEM parser, NVS, the clock, the heap and the certificate bundle are functions on a context, the members
  of \<open>tls_env\<close>; the one NVS handle is the namespace \<open>skstate\<close>. The static \<open>s\<close> is the record \<open>tls\<close>,
  a fingerprint the list of its 32 bytes. An operation is one step, so the lock is only its creation; a
  handshake slot that is taken times out. What goes to the health table and the event stream is appended to \<open>tl_out\<close>.
\<close>

abbreviation (input) ESPOS_SK_TLS_SAN_MAX :: nat where "ESPOS_SK_TLS_SAN_MAX \<equiv> 256"
abbreviation (input) ESPOS_SK_TLS_CN_MAX :: nat where "ESPOS_SK_TLS_CN_MAX \<equiv> 64"
abbreviation (input) ESPOS_SK_TLS_FP_LEN :: nat where "ESPOS_SK_TLS_FP_LEN \<equiv> 32"
abbreviation (input) TLS_SELF_MAX :: nat where "TLS_SELF_MAX \<equiv> 128"
abbreviation (input) TLS_HEALTH_MSG_MAX :: nat where "TLS_HEALTH_MSG_MAX \<equiv> 96"
abbreviation (input) SAN_ENTRY_MAX :: nat where "SAN_ENTRY_MAX \<equiv> 8"
abbreviation (input) SAN_NAME_MAX :: nat where "SAN_NAME_MAX \<equiv> 64"
abbreviation (input) MBEDTLS_ERR_X509_CERT_VERIFY_FAILED :: int where "MBEDTLS_ERR_X509_CERT_VERIFY_FAILED \<equiv> - 0x2700"

subsection \<open>Data\<close>

record x509_crt =
  x_raw :: "u8 list"
  x_subject :: "(bool \<times> u8 list) list"
  x_sans :: "(u8 \<times> u8 list) list"
  x_ca :: bool

record 'c tls_env =
  te_md :: "u8 list \<Rightarrow> u8 list option"
  te_parse :: "string \<Rightarrow> x509_crt option"
  te_now_ms :: "('c \<Rightarrow> int \<times> 'c) option"
  te_ca_max :: nat
  te_pool :: string
  te_min_block_kb :: nat
  te_largest_block :: "'c \<Rightarrow> nat \<times> 'c"
  te_bundle_attach :: "'c \<Rightarrow> esp_err \<times> 'c"
  te_mutex :: "'c \<Rightarrow> bool \<times> 'c"
  te_job :: "'c \<Rightarrow> bool \<times> 'c"
  te_malloc :: "'c \<Rightarrow> bool \<times> 'c"
  te_open :: "'c \<Rightarrow> esp_err \<times> 'c"
  te_close :: "'c \<Rightarrow> 'c"
  te_get_u8 :: "string \<Rightarrow> 'c \<Rightarrow> esp_err \<times> u8"
  te_get_str :: "string \<Rightarrow> nat \<Rightarrow> 'c \<Rightarrow> esp_err \<times> string"
  te_get_i64 :: "string \<Rightarrow> 'c \<Rightarrow> esp_err \<times> int"
  te_set_u8 :: "string \<Rightarrow> u8 \<Rightarrow> 'c \<Rightarrow> esp_err \<times> 'c"
  te_set_str :: "string \<Rightarrow> string \<Rightarrow> 'c \<Rightarrow> esp_err \<times> 'c"
  te_set_i64 :: "string \<Rightarrow> int \<Rightarrow> 'c \<Rightarrow> esp_err \<times> 'c"
  te_erase_key :: "string \<Rightarrow> 'c \<Rightarrow> 'c"
  te_commit :: "'c \<Rightarrow> esp_err \<times> 'c"

record anchor =
  an_kind :: espos_sk_tls_anchor_kind
  an_leaf_fp :: "u8 list"
  an_ca_fp :: "u8 list"
  an_san :: string
  an_cn :: string
  an_server_self :: string
  an_pinned_unix :: int

record capture =
  cp_valid :: bool
  cp_capture_as :: espos_sk_tls_anchor_kind
  cp_leaf_fp :: "u8 list"
  cp_ca_fp :: "u8 list"
  cp_have_ca :: bool
  cp_san :: string
  cp_cn :: string

datatype tls_severity = TLS_NORMAL | TLS_WARN

datatype tls_out = Tls_Health string tls_severity string | Tls_Sse string string

record 'c tls =
  tl_lock :: bool
  tl_handshake :: "bool option"
  tl_loaded :: bool
  tl_anchor :: anchor
  tl_store_pending :: bool
  tl_cap :: capture
  tl_trust :: espos_sk_tls_trust
  tl_ca_pem :: string
  tl_ca_crt :: "x509_crt option"
  tl_last_error :: string
  tl_seen_cn :: string
  tl_seen_fp :: string
  tl_have_seen :: bool
  tl_out :: "tls_out list"
  tl_ctx :: 'c

text \<open>The zeroed structures.\<close>

definition zero_fp :: "u8 list" where
  "zero_fp = replicate ESPOS_SK_TLS_FP_LEN 0"

definition zero_anchor :: anchor where
  "zero_anchor = \<lparr>an_kind = ESPOS_SK_TLS_ANCHOR_NONE, an_leaf_fp = zero_fp, an_ca_fp = zero_fp, an_san = [], an_cn = [],
     an_server_self = [], an_pinned_unix = 0\<rparr>"

definition zero_capture :: capture where
  "zero_capture = \<lparr>cp_valid = False, cp_capture_as = ESPOS_SK_TLS_ANCHOR_NONE, cp_leaf_fp = zero_fp, cp_ca_fp = zero_fp,
     cp_have_ca = False, cp_san = [], cp_cn = []\<rparr>"

definition pinned_now_unix :: "'c tls_env \<Rightarrow> 'c tls \<Rightarrow> int \<times> 'c tls" where
  "pinned_now_unix e s =
     (case te_now_ms e of
        None \<Rightarrow> (0, s)
      | Some f \<Rightarrow> (case f (tl_ctx s) of (ms, c) \<Rightarrow> ((if 0 < ms then ms div 1000 else 0), s\<lparr>tl_ctx := c\<rparr>)))"

subsection \<open>Hexadecimal\<close>

definition hex_char :: "u8 \<Rightarrow> char" where
  "hex_char d = ''0123456789abcdef'' ! unat d"

definition hex :: "u8 list \<Rightarrow> string" where
  "hex bs = concat (map (\<lambda>b. [hex_char (drop_bit 4 b), hex_char (b AND 0x0f)]) bs)"

definition unhex_digit :: "char \<Rightarrow> u8 option" where
  "unhex_digit c =
     (let n = (of_char c :: nat)
      in if 48 \<le> n \<and> n \<le> 57 then Some (of_nat (n - 48)) else if 97 \<le> n \<and> n \<le> 102 then Some (of_nat (n - 97 + 10)) else None)"

text \<open>The output buffer is the list it holds before; what is not reached stays.\<close>

fun unhex :: "string \<Rightarrow> u8 list \<Rightarrow> bool \<times> u8 list" where
  "unhex s [] = (True, [])"
| "unhex (a # b # s) (x # xs) =
     (case (unhex_digit a, unhex_digit b) of
        (Some hi, Some lo) \<Rightarrow> (case unhex s xs of (ok, ys) \<Rightarrow> (ok, (push_bit 4 hi OR lo) # ys))
      | _ \<Rightarrow> (False, x # xs))"
| "unhex s (x # xs) = (False, x # xs)"

subsection \<open>Persistence\<close>

definition get_str :: "'c tls_env \<Rightarrow> string \<Rightarrow> nat \<Rightarrow> 'c \<Rightarrow> string" where
  "get_str e key n c = (case te_get_str e key n c of (err, v) \<Rightarrow> if err \<noteq> ESP_OK then [] else v)"

text \<open>A stored fingerprint: whether it was readable, and what it leaves in the zeroed field.\<close>

definition load_fp :: "'c tls_env \<Rightarrow> string \<Rightarrow> 'c \<Rightarrow> bool \<times> u8 list" where
  "load_fp e key c =
     (let fp = get_str e key (ESPOS_SK_TLS_FP_LEN * 2 + 1) c in if fp = [] then (True, zero_fp) else unhex fp zero_fp)"

definition anchor_load :: "'c tls_env \<Rightarrow> 'c tls \<Rightarrow> 'c tls" where
  "anchor_load e s =
     (let s = s\<lparr>tl_anchor := zero_anchor\<rparr>
      in case te_open e (tl_ctx s) of
           (err, c) \<Rightarrow>
             if err \<noteq> ESP_OK then s\<lparr>tl_ctx := c\<rparr>
             else
               (let kind = (case te_get_u8 e ''tls_kind'' c of (err, k) \<Rightarrow> if err \<noteq> ESP_OK then 0 else k);
                    (ok_leaf, leaf) = load_fp e ''tls_fp'' c;
                    (ok_ca, ca) = load_fp e ''tls_ca'' c;
                    kind = (if ok_leaf \<and> ok_ca then kind else 0);
                    at = (case te_get_i64 e ''tls_at'' c of (err, t) \<Rightarrow> if err = ESP_OK then t else 0)
                in s\<lparr>tl_anchor :=
                       \<lparr>an_kind = (if kind = 1 then ESPOS_SK_TLS_ANCHOR_CA else if kind = 2 then ESPOS_SK_TLS_ANCHOR_LEAF
                                  else ESPOS_SK_TLS_ANCHOR_NONE),
                        an_leaf_fp = leaf, an_ca_fp = ca,
                        an_san = get_str e ''tls_san'' ESPOS_SK_TLS_SAN_MAX c,
                        an_cn = get_str e ''tls_cn'' ESPOS_SK_TLS_CN_MAX c,
                        an_server_self = get_str e ''tls_self'' TLS_SELF_MAX c,
                        an_pinned_unix = at\<rparr>,
                     tl_loaded := True, tl_ctx := te_close e c\<rparr>))"

fun kind_byte :: "espos_sk_tls_anchor_kind \<Rightarrow> u8" where
  "kind_byte ESPOS_SK_TLS_ANCHOR_NONE = 0"
| "kind_byte ESPOS_SK_TLS_ANCHOR_CA = 1"
| "kind_byte ESPOS_SK_TLS_ANCHOR_LEAF = 2"

text \<open>\<open>if ((e = op) != ESP_OK) err = e\<close>.\<close>

definition note_err :: "('c \<Rightarrow> esp_err \<times> 'c) \<Rightarrow> esp_err \<times> 'c \<Rightarrow> esp_err \<times> 'c" where
  "note_err op ec = (case ec of (err, c) \<Rightarrow> case op c of (e, c) \<Rightarrow> (if e \<noteq> ESP_OK then e else err, c))"

definition anchor_puts :: "'c tls_env \<Rightarrow> anchor \<Rightarrow> ('c \<Rightarrow> esp_err \<times> 'c) list" where
  "anchor_puts e a =
     [te_set_u8 e ''tls_kind'' (kind_byte (an_kind a)),
      te_set_str e ''tls_fp'' (hex (an_leaf_fp a)),
      te_set_str e ''tls_ca'' (hex (an_ca_fp a)),
      te_set_str e ''tls_san'' (an_san a),
      te_set_str e ''tls_cn'' (an_cn a),
      te_set_str e ''tls_self'' (an_server_self a),
      te_set_i64 e ''tls_at'' (an_pinned_unix a),
      te_commit e]"

definition anchor_store :: "'c tls_env \<Rightarrow> anchor \<Rightarrow> 'c \<Rightarrow> esp_err \<times> 'c" where
  "anchor_store e a c =
     (case te_open e c of
        (err, c) \<Rightarrow>
          if err \<noteq> ESP_OK then (err, c)
          else (case fold note_err (anchor_puts e a) (ESP_OK, c) of (err, c) \<Rightarrow> (err, te_close e c)))"

definition anchor_keys :: "string list" where
  "anchor_keys = [''tls_kind'', ''tls_fp'', ''tls_ca'', ''tls_san'', ''tls_cn'', ''tls_self'', ''tls_at'']"

definition anchor_erase :: "'c tls_env \<Rightarrow> 'c \<Rightarrow> 'c" where
  "anchor_erase e c =
     (case te_open e c of
        (err, c) \<Rightarrow> if err \<noteq> ESP_OK then c else te_close e (snd (te_commit e (fold (te_erase_key e) anchor_keys c))))"

subsection \<open>What a certificate shows\<close>

definition crt_fingerprint :: "'c tls_env \<Rightarrow> x509_crt \<Rightarrow> u8 list" where
  "crt_fingerprint e crt = (case te_md e (x_raw crt) of None \<Rightarrow> replicate ESPOS_SK_TLS_FP_LEN 0xff | Some d \<Rightarrow> d)"

definition crt_cn :: "x509_crt \<Rightarrow> nat \<Rightarrow> string" where
  "crt_cn crt n = (case find fst (x_subject crt) of None \<Rightarrow> [] | Some (_, v) \<Rightarrow> bytes_cstr (take (n - 1) v))"

definition dotted :: "u8 list \<Rightarrow> string" where
  "dotted b =
     dec_of_nat (unat (b ! 0)) @ ''.'' @ dec_of_nat (unat (b ! 1)) @ ''.'' @ dec_of_nat (unat (b ! 2)) @ ''.'' @ dec_of_nat (unat (b ! 3))"

fun colons :: "u8 list \<Rightarrow> string" where
  "colons (a # b # c # r) = hex [a, b] @ '':'' @ colons (c # r)"
| "colons r = hex r"

definition san_name :: "u8 \<Rightarrow> u8 list \<Rightarrow> string option" where
  "san_name tag b =
     (let t = tag AND 0x1f
      in if t = 2 then Some (bytes_cstr (take (SAN_NAME_MAX - 1) b))
         else if t = 7 \<and> length b = 4 then Some (dotted b)
         else if t = 7 \<and> length b = 16 then Some (colons b)
         else None)"

fun collect_sans :: "(u8 \<times> u8 list) list \<Rightarrow> string list \<Rightarrow> string list \<times> bool" where
  "collect_sans [] names = (names, False)"
| "collect_sans ((tag, b) # rest) names =
     (if b = [] then collect_sans rest names
      else if length names \<ge> SAN_ENTRY_MAX then (names, True)
      else case san_name tag b of
             None \<Rightarrow> collect_sans rest names
           | Some nm \<Rightarrow> collect_sans rest (names @ [nm]))"

definition crt_san_set :: "x509_crt \<Rightarrow> nat \<Rightarrow> string \<times> bool" where
  "crt_san_set crt out_size =
     (case collect_sans (x_sans crt) [] of
        (names, overflow) \<Rightarrow>
          case espos_sk_tls_san_normalise (Some (map Some names)) (Some out_size) of
            (err, out, tr) \<Rightarrow>
              let out = (case out of None \<Rightarrow> [] | Some t \<Rightarrow> t)
              in if err \<noteq> ESP_OK \<or> tr \<or> overflow
                 then ((if 1 < out_size then CHR ''!'' # take (out_size - 2) out else out), True)
                 else (out, False))"

subsection \<open>The verify callback\<close>

definition facts_of :: "anchor \<Rightarrow> capture \<Rightarrow> bool \<Rightarrow> espos_sk_tls_facts" where
  "facts_of a cap san_cut =
     \<lparr>tf_has_anchor = (an_kind a \<noteq> ESPOS_SK_TLS_ANCHOR_NONE),
      tf_anchor_is_leaf = (an_kind a = ESPOS_SK_TLS_ANCHOR_LEAF),
      tf_leaf_matches = (cp_leaf_fp cap = an_leaf_fp a),
      tf_ca_present = cp_have_ca cap,
      tf_ca_matches = (cp_have_ca cap \<and> cp_ca_fp cap = an_ca_fp a),
      tf_leaf_has_san = (cp_san cap \<noteq> [] \<and> \<not> san_cut),
      tf_san_matches = espos_sk_tls_san_equal (Some (cp_san cap)) (Some (an_san a))\<rparr>"

definition verify_leaf :: "'c tls_env \<Rightarrow> x509_crt \<Rightarrow> u32 \<Rightarrow> 'c tls \<Rightarrow> int \<times> u32 \<times> 'c tls" where
  "verify_leaf e crt flags s =
     (let (san, san_cut) = crt_san_set crt ESPOS_SK_TLS_SAN_MAX;
          cap = (tl_cap s)\<lparr>cp_leaf_fp := crt_fingerprint e crt, cp_cn := crt_cn crt ESPOS_SK_TLS_CN_MAX, cp_san := san\<rparr>;
          d = espos_sk_tls_decide (Some (facts_of (tl_anchor s) cap san_cut));
          s = s\<lparr>tl_seen_fp := hex (cp_leaf_fp cap), tl_seen_cn := cp_cn cap, tl_have_seen := True\<rparr>
      in if td_verdict d = ESPOS_SK_TLS_REJECT
         then (MBEDTLS_ERR_X509_CERT_VERIFY_FAILED, flags,
               s\<lparr>tl_last_error := cbuf 96 (espos_sk_tls_reason_str (td_reason d)), tl_cap := cap\<lparr>cp_valid := False\<rparr>\<rparr>)
         else (0, 0,
               s\<lparr>tl_last_error := [],
                 tl_cap := cap\<lparr>cp_capture_as := (if td_verdict d = ESPOS_SK_TLS_CAPTURE then td_capture_as d else an_kind (tl_anchor s)),
                               cp_valid := True\<rparr>\<rparr>))"

definition verify_cb :: "'c tls_env \<Rightarrow> x509_crt option \<Rightarrow> int \<Rightarrow> u32 \<Rightarrow> 'c tls \<Rightarrow> int \<times> u32 \<times> 'c tls" where
  "verify_cb e cr depth flags s =
     (case cr of
        None \<Rightarrow> (0, flags, s)
      | Some crt \<Rightarrow>
          if 0 < depth then
            (0, 0,
             if x_ca crt \<and> \<not> cp_have_ca (tl_cap s)
             then s\<lparr>tl_cap := (tl_cap s)\<lparr>cp_ca_fp := crt_fingerprint e crt, cp_have_ca := True\<rparr>\<rparr>
             else s)
          else verify_leaf e crt flags s)"

subsection \<open>The interface\<close>

text \<open>The work runs at once or on a helper task that may not start.\<close>

definition run_on_internal_stack :: "'c tls_env \<Rightarrow> ('c tls \<Rightarrow> 'c tls) \<Rightarrow> 'c tls \<Rightarrow> bool \<times> 'c tls" where
  "run_on_internal_stack e fn s =
     (case te_job e (tl_ctx s) of (started, c) \<Rightarrow> let s = s\<lparr>tl_ctx := c\<rparr> in if started then (True, fn s) else (False, s))"

definition ensure_init :: "'c tls_env \<Rightarrow> 'c tls \<Rightarrow> 'c tls" where
  "ensure_init e s =
     (let s = (if tl_lock s then s
               else case te_mutex e (tl_ctx s) of
                      (l, c) \<Rightarrow> case te_mutex e c of
                        (hs, c) \<Rightarrow> s\<lparr>tl_lock := l, tl_handshake := (if hs then Some False else None), tl_ca_crt := None, tl_ctx := c\<rparr>)
      in if tl_loaded s then s else snd (run_on_internal_stack e (anchor_load e) s))"

definition espos_sk_tls_parse_ca :: "'c tls_env \<Rightarrow> string option \<Rightarrow> esp_err \<times> x509_crt option" where
  "espos_sk_tls_parse_ca e pem =
     (case pem of
        None \<Rightarrow> (ESP_ERR_INVALID_ARG, None)
      | Some p \<Rightarrow>
          if p = [] then (ESP_ERR_INVALID_ARG, None)
          else if te_ca_max e < length p + 1 then (ESP_ERR_INVALID_SIZE, None)
          else (case te_parse e p of None \<Rightarrow> (ESP_ERR_INVALID_ARG, None) | Some crt \<Rightarrow> (ESP_OK, Some crt)))"

text \<open>An operator's CA becomes the anchor at once.\<close>

definition adopt_ca :: "'c tls_env \<Rightarrow> x509_crt \<Rightarrow> 'c tls \<Rightarrow> 'c tls" where
  "adopt_ca e crt s =
     (let s = s\<lparr>tl_ca_crt := Some crt\<rparr>;
          (now, s) = pinned_now_unix e s;
          a = zero_anchor\<lparr>an_kind := ESPOS_SK_TLS_ANCHOR_CA, an_pinned_unix := now, an_ca_fp := crt_fingerprint e crt,
                          an_cn := crt_cn crt ESPOS_SK_TLS_CN_MAX\<rparr>
      in case anchor_store e a (tl_ctx s) of
           (err, c) \<Rightarrow> s\<lparr>tl_anchor := a, tl_store_pending := (err \<noteq> ESP_OK), tl_ctx := c\<rparr>)"

definition espos_sk_tls_set_trust :: "'c tls_env \<Rightarrow> espos_sk_tls_trust \<Rightarrow> string option \<Rightarrow> 'c tls \<Rightarrow> 'c tls" where
  "espos_sk_tls_set_trust e trust ca_pem s =
     (let s = ensure_init e s;
          pem_changed = (case ca_pem of None \<Rightarrow> False | Some p \<Rightarrow> take (te_ca_max e) (tl_ca_pem s) \<noteq> take (te_ca_max e) p);
          s = s\<lparr>tl_trust := trust\<rparr>;
          s = (case ca_pem of None \<Rightarrow> s | Some p \<Rightarrow> s\<lparr>tl_ca_pem := cbuf (te_ca_max e) p\<rparr>)
      in if \<not> pem_changed then s
         else
           (let s = s\<lparr>tl_ca_crt := None\<rparr>
            in if tl_ca_pem s = [] then s
               else (case espos_sk_tls_parse_ca e (Some (tl_ca_pem s)) of
                       (err, crt) \<Rightarrow> if err = ESP_OK then adopt_ca e (the crt) s else s)))"

definition espos_sk_tls_trust_mode :: "'c tls_env \<Rightarrow> 'c tls \<Rightarrow> espos_sk_tls_trust \<times> 'c tls" where
  "espos_sk_tls_trust_mode e s = (let s = ensure_init e s in (tl_trust s, s))"

text \<open>What the hook sets up in the TLS configuration: the bundle's roots, or the callback with the chain to offer.\<close>

datatype ssl_setup = Ssl_Untouched | Ssl_Bundle | Ssl_Pinned "x509_crt option"

definition espos_sk_tls_attach :: "'c tls_env \<Rightarrow> bool \<Rightarrow> 'c tls \<Rightarrow> esp_err \<times> ssl_setup \<times> 'c tls" where
  "espos_sk_tls_attach e conf s =
     (let s = ensure_init e s
      in if tl_trust s = ESPOS_SK_TLS_TRUST_BUNDLE then
           (case te_bundle_attach e (tl_ctx s) of (err, c) \<Rightarrow> (err, if err = ESP_OK \<and> conf then Ssl_Bundle else Ssl_Untouched, s\<lparr>tl_ctx := c\<rparr>))
         else if \<not> conf then (ESP_OK, Ssl_Untouched, s)
         else (case tl_ca_crt s of
                 Some crt \<Rightarrow> (ESP_OK, Ssl_Pinned (Some crt), s)
               | None \<Rightarrow>
                   (case te_bundle_attach e (tl_ctx s) of
                      (err, c) \<Rightarrow> let s = s\<lparr>tl_ctx := c\<rparr> in if err \<noteq> ESP_OK then (err, Ssl_Untouched, s) else (ESP_OK, Ssl_Pinned None, s))))"

definition espos_sk_tls_discard :: "'c tls_env \<Rightarrow> 'c tls \<Rightarrow> 'c tls" where
  "espos_sk_tls_discard e s = (ensure_init e s)\<lparr>tl_cap := zero_capture\<rparr>"

definition store_anchor_now :: "'c tls_env \<Rightarrow> 'c tls \<Rightarrow> 'c tls" where
  "store_anchor_now e s = (case anchor_store e (tl_anchor s) (tl_ctx s) of (err, c) \<Rightarrow> s\<lparr>tl_store_pending := (err \<noteq> ESP_OK), tl_ctx := c\<rparr>)"

definition persist_anchor :: "'c tls_env \<Rightarrow> 'c tls \<Rightarrow> 'c tls" where
  "persist_anchor e s =
     (case run_on_internal_stack e (store_anchor_now e) s of (started, s) \<Rightarrow> if started then s else s\<lparr>tl_store_pending := True\<rparr>)"

subsection \<open>The document\<close>

fun trust_str :: "espos_sk_tls_trust \<Rightarrow> string" where
  "trust_str ESPOS_SK_TLS_TRUST_BUNDLE = ''bundle''"
| "trust_str ESPOS_SK_TLS_TRUST_CA = ''ca''"
| "trust_str ESPOS_SK_TLS_TRUST_TOFU = ''tofu''"

fun kind_str :: "espos_sk_tls_anchor_kind \<Rightarrow> string" where
  "kind_str ESPOS_SK_TLS_ANCHOR_NONE = ''none''"
| "kind_str ESPOS_SK_TLS_ANCHOR_CA = ''ca''"
| "kind_str ESPOS_SK_TLS_ANCHOR_LEAF = ''leaf''"

definition pinned_doc :: "anchor \<Rightarrow> string" where
  "pinned_doc a =
     (if an_kind a = ESPOS_SK_TLS_ANCHOR_NONE then ''null''
      else ''{\"kind\":\"'' @ kind_str (an_kind a) @ ''\",\"cn\":\"'' @ take 63 (an_cn a) @ ''\",\"san\":\"'' @ take 255 (an_san a) @
           ''\",\"fingerprint\":\"'' @ hex (if an_kind a = ESPOS_SK_TLS_ANCHOR_CA then an_ca_fp a else an_leaf_fp a) @
           ''\",\"since\":'' @ dec_of_int (an_pinned_unix a) @ ''}'')"

definition tls_doc :: "'c tls \<Rightarrow> string" where
  "tls_doc s =
     ''{\"trust\":\"'' @ trust_str (tl_trust s) @ ''\",\"pinned\":'' @ pinned_doc (tl_anchor s) @
     '',\"last_error\":\"'' @ take 95 (tl_last_error s) @ ''\",\"presented\":'' @
     (if tl_have_seen s then ''{\"cn\":\"'' @ take 63 (tl_seen_cn s) @ ''\",\"fingerprint\":\"'' @ tl_seen_fp s @ ''\"}}'' else ''null}'')"

definition espos_sk_tls_json :: "'c tls_env \<Rightarrow> 'c tls \<Rightarrow> string option \<times> 'c tls" where
  "espos_sk_tls_json e s =
     (let s = ensure_init e s
      in case te_malloc e (tl_ctx s) of (ok, c) \<Rightarrow> let s = s\<lparr>tl_ctx := c\<rparr> in if ok then (Some (cbuf 1024 (tls_doc s)), s) else (None, s))"

definition espos_sk_tls_publish :: "'c tls_env \<Rightarrow> 'c tls \<Rightarrow> 'c tls" where
  "espos_sk_tls_publish e s =
     (case espos_sk_tls_json e s of (js, s) \<Rightarrow> case js of None \<Rightarrow> s | Some j \<Rightarrow> s\<lparr>tl_out := tl_out s @ [Tls_Sse ''sk_tls'' j]\<rparr>)"

subsection \<open>Commit, reset and the handshake slot\<close>

text \<open>What a capture makes of the anchor, and whether it changes it.\<close>

definition commit_anchor :: "int \<Rightarrow> capture \<Rightarrow> string option \<Rightarrow> anchor \<Rightarrow> anchor \<times> bool" where
  "commit_anchor now cap self a0 =
     (let changed = (an_kind a0 = ESPOS_SK_TLS_ANCHOR_NONE);
          a = (if changed then a0\<lparr>an_kind := cp_capture_as cap, an_pinned_unix := now\<rparr> else a0);
          (a, changed) = (if an_leaf_fp a \<noteq> cp_leaf_fp cap then (a\<lparr>an_leaf_fp := cp_leaf_fp cap\<rparr>, True) else (a, changed));
          (a, changed) = (if cp_have_ca cap \<and> an_ca_fp a \<noteq> cp_ca_fp cap then (a\<lparr>an_ca_fp := cp_ca_fp cap\<rparr>, True) else (a, changed));
          (a, changed) = (if cp_san cap \<noteq> [] \<and> hd (cp_san cap) \<noteq> CHR ''!'' \<and> an_san a \<noteq> cp_san cap
                          then (a\<lparr>an_san := cbuf ESPOS_SK_TLS_SAN_MAX (cp_san cap)\<rparr>, True) else (a, changed));
          (a, changed) = (if an_cn a \<noteq> cp_cn cap then (a\<lparr>an_cn := cbuf ESPOS_SK_TLS_CN_MAX (cp_cn cap)\<rparr>, True) else (a, changed))
      in case self of
           None \<Rightarrow> (a, changed)
         | Some u \<Rightarrow> if an_server_self a \<noteq> u then (a\<lparr>an_server_self := cbuf TLS_SELF_MAX u\<rparr>, True) else (a, changed))"

definition espos_sk_tls_commit :: "'c tls_env \<Rightarrow> string option \<Rightarrow> 'c tls \<Rightarrow> 'c tls" where
  "espos_sk_tls_commit e self s =
     (let s = ensure_init e s
      in if \<not> cp_valid (tl_cap s) then s
         else
           (let (now, s) = (if an_kind (tl_anchor s) = ESPOS_SK_TLS_ANCHOR_NONE then pinned_now_unix e s else (0, s));
                (a, changed) = commit_anchor now (tl_cap s) self (tl_anchor s);
                s = s\<lparr>tl_cap := zero_capture\<rparr>
            in if \<not> changed then (if tl_store_pending s then persist_anchor e s else s)
               else espos_sk_tls_publish e (persist_anchor e (s\<lparr>tl_anchor := a\<rparr>))))"

definition espos_sk_tls_reset :: "'c tls_env \<Rightarrow> 'c tls \<Rightarrow> esp_err \<times> 'c tls" where
  "espos_sk_tls_reset e s =
     (let s = ensure_init e s;
          s = s\<lparr>tl_anchor := zero_anchor, tl_cap := zero_capture, tl_store_pending := False, tl_last_error := []\<rparr>;
          s = s\<lparr>tl_ctx := anchor_erase e (tl_ctx s)\<rparr>
      in (ESP_OK, espos_sk_tls_publish e s))"

definition espos_sk_tls_last_error :: "'c tls \<Rightarrow> string" where
  "espos_sk_tls_last_error s = tl_last_error s"

definition tls_report :: "tls_severity \<Rightarrow> string \<Rightarrow> 'c tls \<Rightarrow> 'c tls" where
  "tls_report sev msg s = s\<lparr>tl_out := tl_out s @ [Tls_Health ''tlsMemory'' sev msg]\<rparr>"

definition espos_sk_tls_handshake_begin :: "'c tls_env \<Rightarrow> 'c tls \<Rightarrow> esp_err \<times> 'c tls" where
  "espos_sk_tls_handshake_begin e s =
     (let s = ensure_init e s
      in case tl_handshake s of
           None \<Rightarrow> (ESP_ERR_NO_MEM, s)
         | Some taken \<Rightarrow>
             if taken then (ESP_ERR_TIMEOUT, s)
             else
               (case te_largest_block e (tl_ctx s) of
                  (largest, c) \<Rightarrow>
                    let s = s\<lparr>tl_ctx := c\<rparr>
                    in if largest < te_min_block_kb e * 1024
                       then (ESP_ERR_NO_MEM,
                             tls_report TLS_WARN
                               (cbuf TLS_HEALTH_MSG_MAX
                                  (''largest free '' @ te_pool e @ '' block '' @ dec_of_nat (largest div 1024) @ '' KB, need '' @
                                   dec_of_nat (te_min_block_kb e) @ '' KB for a TLS handshake'')) s)
                       else (ESP_OK,
                             espos_sk_tls_discard e
                               ((tls_report TLS_NORMAL [] s)\<lparr>tl_handshake := Some True, tl_last_error := []\<rparr>))))"

definition espos_sk_tls_handshake_end :: "'c tls \<Rightarrow> 'c tls" where
  "espos_sk_tls_handshake_end s = (case tl_handshake s of None \<Rightarrow> s | Some _ \<Rightarrow> s\<lparr>tl_handshake := Some False\<rparr>)"

subsection \<open>A connection\<close>

text \<open>
  mbedTLS, which is not part of the sources, is a parameter: how it verifies a chain with a callback and the CA it was
  offered, and its verdict on a chain under the bundle's roots. A chain is a list of certificates from the top to the leaf, each with
  the flags the library's own checks raise.

  A client of the trust store (\<open>do_request\<close> of sk_http.c, the stream task of sk_ws.c) begins the handshake, has the attach hook set up
  the verification, commits when the server answered, discards otherwise, and ends the handshake. The hook's error
  aborts the connection; with the mode \<open>bundle\<close> it sets up the public roots and no callback. It leaves a
  configuration untouched only when it fails or is given none.
\<close>

type_synonym 'c verify_callback = "x509_crt option \<Rightarrow> int \<Rightarrow> u32 \<Rightarrow> 'c tls \<Rightarrow> int \<times> u32 \<times> 'c tls"

record 'c mbedtls =
  mb_verify :: "'c verify_callback \<Rightarrow> x509_crt option \<Rightarrow> (x509_crt \<times> u32) list \<Rightarrow> 'c tls \<Rightarrow> bool \<times> 'c tls"
  mb_bundle :: "(x509_crt \<times> u32) list \<Rightarrow> bool"

definition tls_verify :: "'c tls_env \<Rightarrow> 'c mbedtls \<Rightarrow> ssl_setup \<Rightarrow> (x509_crt \<times> u32) list \<Rightarrow> 'c tls \<Rightarrow> bool \<times> 'c tls" where
  "tls_verify e mb hook chain s =
     (case hook of
        Ssl_Untouched \<Rightarrow> (False, s)
      | Ssl_Bundle \<Rightarrow> (mb_bundle mb chain, s)
      | Ssl_Pinned ca \<Rightarrow> mb_verify mb (verify_cb e) ca chain s)"

definition tls_connect :: "'c tls_env \<Rightarrow> 'c mbedtls \<Rightarrow> (x509_crt \<times> u32) list \<Rightarrow> bool \<Rightarrow> string option \<Rightarrow> 'c tls \<Rightarrow> bool \<times> 'c tls" where
  "tls_connect e mb chain answers self s =
     (case espos_sk_tls_handshake_begin e s of
        (err, s) \<Rightarrow>
          if err \<noteq> ESP_OK then (False, s)
          else (case espos_sk_tls_attach e True s of
                  (err, hook, s) \<Rightarrow>
                    (case (if err \<noteq> ESP_OK then (False, s) else tls_verify e mb hook chain s) of
                       (ok, s) \<Rightarrow>
                         let s = (if ok \<and> answers then espos_sk_tls_commit e self s else espos_sk_tls_discard e s)
                         in (ok \<and> answers, espos_sk_tls_handshake_end s))))"

text \<open>
  What the trust store relies on, as the library documents it and the comment above \<open>verify_cb\<close> repeats it: the callback
  is called for each certificate from the top to the leaf, the leaf at depth 0, and the handshake is given up at the first error or at
  flags that stay raised.
\<close>

definition chain_walk :: "'c verify_callback \<Rightarrow> ((x509_crt \<times> u32) list \<Rightarrow> 'c tls \<Rightarrow> bool \<times> 'c tls) \<Rightarrow> bool" where
  "chain_walk cb walk \<longleftrightarrow> (\<forall>s. walk [] s = (True, s)) \<and>
     (\<forall>crt flags rest s. walk ((crt, flags) # rest) s =
        (case cb (Some crt) (int (length rest)) flags s of
           (rc, flags, s) \<Rightarrow> if rc \<noteq> 0 \<or> flags \<noteq> 0 then (False, s) else walk rest s))"

definition walks_chains :: "'c mbedtls \<Rightarrow> bool" where
  "walks_chains mb \<longleftrightarrow> (\<forall>cb ca. chain_walk cb (mb_verify mb cb ca))"

text \<open>The one function that does so with the callback of the trust store.\<close>

fun verify_chain :: "'c tls_env \<Rightarrow> (x509_crt \<times> u32) list \<Rightarrow> 'c tls \<Rightarrow> bool \<times> 'c tls" where
  "verify_chain e [] s = (True, s)"
| "verify_chain e ((crt, flags) # rest) s =
     (case verify_cb e (Some crt) (int (length rest)) flags s of
        (rc, flags, s) \<Rightarrow> if rc \<noteq> 0 \<or> flags \<noteq> 0 then (False, s) else verify_chain e rest s)"

lemma chain_walk_unique: "chain_walk (verify_cb e) walk \<Longrightarrow> walk chain s = verify_chain e chain s"
proof (induction chain arbitrary: s)
  case Nil
  then show ?case by (simp add: chain_walk_def)
next
  case (Cons c chain)
  obtain crt fl where c: "c = (crt, fl)" by fastforce
  have "walk (c # chain) s = (case verify_cb e (Some crt) (int (length chain)) fl s of
      (rc, flags, s) \<Rightarrow> if rc \<noteq> 0 \<or> flags \<noteq> 0 then (False, s) else walk chain s)"
    using Cons.prems unfolding c chain_walk_def by blast
  with Cons show ?case by (simp add: c split: prod.split)
qed

lemma tls_verify_pinned: "walks_chains mb \<Longrightarrow> tls_verify e mb (Ssl_Pinned ca) chain s = verify_chain e chain s"
  using chain_walk_unique [of e "mb_verify mb (verify_cb e) ca" chain s] by (simp add: tls_verify_def walks_chains_def)

subsection \<open>What the helpers leave alone\<close>

abbreviation ready :: "'c tls \<Rightarrow> bool" where
  "ready s \<equiv> tl_lock s \<and> tl_loaded s"

lemma ensure_init_ready [simp]: "tl_lock s \<Longrightarrow> tl_loaded s \<Longrightarrow> ensure_init e s = s"
  by (simp add: ensure_init_def)

lemma publish_frame [simp]:
  assumes "tl_lock s" and "tl_loaded s"
  shows "tl_anchor (espos_sk_tls_publish e s) = tl_anchor s" and "tl_cap (espos_sk_tls_publish e s) = tl_cap s"
    and "tl_lock (espos_sk_tls_publish e s)" and "tl_loaded (espos_sk_tls_publish e s)"
  using assms by (auto simp: espos_sk_tls_publish_def espos_sk_tls_json_def Let_def split: prod.splits option.splits if_splits)

lemma persist_frame [simp]:
  "tl_anchor (persist_anchor e s) = tl_anchor s" "tl_cap (persist_anchor e s) = tl_cap s"
  "tl_lock (persist_anchor e s) = tl_lock s" "tl_loaded (persist_anchor e s) = tl_loaded s"
  by (simp_all add: persist_anchor_def run_on_internal_stack_def store_anchor_now_def Let_def split: prod.split)

lemma now_frame [simp]:
  assumes "pinned_now_unix e s = (n, s')"
  shows "tl_anchor s' = tl_anchor s" and "tl_cap s' = tl_cap s" and "tl_lock s' = tl_lock s" and "tl_loaded s' = tl_loaded s"
  using assms by (auto simp: pinned_now_unix_def split: option.splits prod.splits)

lemma end_frame [simp]:
  "tl_anchor (espos_sk_tls_handshake_end s) = tl_anchor s" "tl_cap (espos_sk_tls_handshake_end s) = tl_cap s"
  "tl_lock (espos_sk_tls_handshake_end s) = tl_lock s" "tl_loaded (espos_sk_tls_handshake_end s) = tl_loaded s"
  by (simp_all add: espos_sk_tls_handshake_end_def split: option.split)

lemma discard_frame [simp]:
  assumes "tl_lock s" and "tl_loaded s"
  shows "espos_sk_tls_discard e s = s\<lparr>tl_cap := zero_capture\<rparr>"
  using assms by (simp add: espos_sk_tls_discard_def)

lemma begin_frame:
  assumes "espos_sk_tls_handshake_begin e s = (err, s')" and "tl_lock s" and "tl_loaded s"
  shows "tl_anchor s' = tl_anchor s" and "tl_lock s'" and "tl_loaded s'" and "err = ESP_OK \<Longrightarrow> tl_cap s' = zero_capture"
    and "err \<noteq> ESP_OK \<Longrightarrow> tl_cap s' = tl_cap s"
  using assms by (auto simp: espos_sk_tls_handshake_begin_def tls_report_def Let_def split: option.splits prod.splits if_splits)

lemma tls_commit_frame:
  assumes "tl_lock s" and "tl_loaded s"
  shows "tl_lock (espos_sk_tls_commit e self s)" and "tl_loaded (espos_sk_tls_commit e self s)"
    and "\<exists>now. tl_anchor (espos_sk_tls_commit e self s) = (if cp_valid (tl_cap s) then fst (commit_anchor now (tl_cap s) self (tl_anchor s)) else tl_anchor s)"
    and "\<not> cp_valid (tl_cap (espos_sk_tls_commit e self s))"
proof -
  obtain now s1 where n: "(if an_kind (tl_anchor s) = ESPOS_SK_TLS_ANCHOR_NONE then pinned_now_unix e s else (0, s)) = (now, s1)"
    by fastforce
  then have f: "tl_anchor s1 = tl_anchor s" "tl_cap s1 = tl_cap s" "tl_lock s1" "tl_loaded s1"
    using assms now_frame [of e s now s1] by (auto split: if_splits)
  obtain a ch where a: "commit_anchor now (tl_cap s) self (tl_anchor s) = (a, ch)" by fastforce
  have unch: "a = tl_anchor s" if "\<not> ch"
    using a that by (auto simp: commit_anchor_def Let_def split: if_splits option.splits)
  show "tl_lock (espos_sk_tls_commit e self s)" and "tl_loaded (espos_sk_tls_commit e self s)"
    and "\<exists>now. tl_anchor (espos_sk_tls_commit e self s) = (if cp_valid (tl_cap s) then fst (commit_anchor now (tl_cap s) self (tl_anchor s)) else tl_anchor s)"
    and "\<not> cp_valid (tl_cap (espos_sk_tls_commit e self s))"
    using assms n f a unch by (auto simp: espos_sk_tls_commit_def zero_capture_def Let_def split: prod.splits intro!: exI [of _ now])
qed

subsection \<open>A chain from the top to the leaf\<close>

definition see_cas :: "'c tls_env \<Rightarrow> x509_crt list \<Rightarrow> capture \<Rightarrow> capture" where
  "see_cas e ups cap =
     (if cp_have_ca cap then cap
      else case find x_ca ups of None \<Rightarrow> cap | Some c \<Rightarrow> cap\<lparr>cp_ca_fp := crt_fingerprint e c, cp_have_ca := True\<rparr>)"

lemma see_cas_Cons:
  "see_cas e (c # ups) cap =
     see_cas e ups (if x_ca c \<and> \<not> cp_have_ca cap then cap\<lparr>cp_ca_fp := crt_fingerprint e c, cp_have_ca := True\<rparr> else cap)"
  by (simp add: see_cas_def)

lemma verify_chain_leaf:
  "verify_chain e (ups @ [(leaf, fl)]) s =
     (case verify_leaf e leaf fl (s\<lparr>tl_cap := see_cas e (map fst ups) (tl_cap s)\<rparr>) of (rc, fl, s) \<Rightarrow> (rc = 0 \<and> fl = 0, s))"
proof (induction ups arbitrary: s)
  case Nil
  then show ?case by (simp add: verify_cb_def see_cas_def split: prod.splits)
next
  case (Cons u ups)
  then show ?case by (cases u) (auto simp: verify_cb_def see_cas_Cons)
qed

lemma verify_leaf_rc: "verify_leaf e leaf fl s = (rc, fl', s') \<Longrightarrow> rc = 0 \<Longrightarrow> fl' = 0"
  by (auto simp: verify_leaf_def Let_def split: prod.splits if_splits)

text \<open>The capture a leaf leaves, and what the decision sees of it.\<close>

definition leaf_capture :: "'c tls_env \<Rightarrow> x509_crt \<Rightarrow> capture \<Rightarrow> capture" where
  "leaf_capture e leaf cap =
     cap\<lparr>cp_leaf_fp := crt_fingerprint e leaf, cp_cn := crt_cn leaf ESPOS_SK_TLS_CN_MAX,
         cp_san := fst (crt_san_set leaf ESPOS_SK_TLS_SAN_MAX)\<rparr>"

definition leaf_decision :: "'c tls_env \<Rightarrow> x509_crt \<Rightarrow> 'c tls \<Rightarrow> espos_sk_tls_decision" where
  "leaf_decision e leaf s =
     espos_sk_tls_decide (Some (facts_of (tl_anchor s) (leaf_capture e leaf (tl_cap s)) (snd (crt_san_set leaf ESPOS_SK_TLS_SAN_MAX))))"

lemma verify_leaf_cases:
  assumes "verify_leaf e leaf fl s = (rc, fl', s')"
  shows "rc = 0 \<longleftrightarrow> td_verdict (leaf_decision e leaf s) \<noteq> ESPOS_SK_TLS_REJECT"
    and "tl_anchor s' = tl_anchor s" and "tl_lock s' = tl_lock s" and "tl_loaded s' = tl_loaded s"
    and "cp_valid (tl_cap s') \<longleftrightarrow> rc = 0"
    and "rc = 0 \<Longrightarrow> tl_cap s' = (leaf_capture e leaf (tl_cap s))\<lparr>cp_capture_as := (if td_verdict (leaf_decision e leaf s) = ESPOS_SK_TLS_CAPTURE
            then td_capture_as (leaf_decision e leaf s) else an_kind (tl_anchor s)), cp_valid := True\<rparr>"
  using assms
  by (auto simp: verify_leaf_def leaf_decision_def leaf_capture_def Let_def split: prod.splits if_splits)

subsection \<open>What is pinned\<close>

datatype pin = Pin_None | Pin_Leaf "u8 list" | Pin_CA "u8 list" string

definition pinned :: "anchor \<Rightarrow> pin" where
  "pinned a =
     (case an_kind a of
        ESPOS_SK_TLS_ANCHOR_NONE \<Rightarrow> Pin_None
      | ESPOS_SK_TLS_ANCHOR_LEAF \<Rightarrow> Pin_Leaf (an_leaf_fp a)
      | ESPOS_SK_TLS_ANCHOR_CA \<Rightarrow> Pin_CA (an_ca_fp a) (an_san a))"

text \<open>The names of a leaf are whole and are those of a set that was recorded whole.\<close>

definition names_match :: "x509_crt \<Rightarrow> string \<Rightarrow> bool" where
  "names_match leaf san \<longleftrightarrow>
     \<not> snd (crt_san_set leaf ESPOS_SK_TLS_SAN_MAX) \<and> espos_sk_tls_san_equal (Some (fst (crt_san_set leaf ESPOS_SK_TLS_SAN_MAX))) (Some san)"

text \<open>A chain shows the pinned identity: this leaf, or below this topmost CA a leaf with these names.\<close>

definition shows_pin :: "'c tls_env \<Rightarrow> (x509_crt \<times> u32) list \<Rightarrow> pin \<Rightarrow> bool" where
  "shows_pin e chain p =
     (case p of
        Pin_None \<Rightarrow> True
      | Pin_Leaf fp \<Rightarrow> crt_fingerprint e (fst (last chain)) = fp
      | Pin_CA fp san \<Rightarrow>
          (case find x_ca (map fst (butlast chain)) of
             None \<Rightarrow> False
           | Some c \<Rightarrow> crt_fingerprint e c = fp \<and> names_match (fst (last chain)) san))"

lemma decide_verdict:
  "td_verdict (espos_sk_tls_decide (Some f)) =
     (if \<not> tf_has_anchor f then ESPOS_SK_TLS_CAPTURE
      else if (if tf_anchor_is_leaf f then tf_leaf_matches f
               else tf_ca_present f \<and> tf_ca_matches f \<and> tf_leaf_has_san f \<and> tf_san_matches f)
           then ESPOS_SK_TLS_ACCEPT else ESPOS_SK_TLS_REJECT)"
  by (simp add: espos_sk_tls_decide_def Let_def)

lemma san_equal_eq: "espos_sk_tls_san_equal (Some a) (Some b) \<Longrightarrow> a = b \<and> a \<noteq> []"
  by (simp add: espos_sk_tls_san_equal_def)

text \<open>The leaf decision, in terms of what is pinned and of what the capture slot holds.\<close>

definition slot_shows :: "'c tls_env \<Rightarrow> capture \<Rightarrow> x509_crt \<Rightarrow> pin \<Rightarrow> bool" where
  "slot_shows e cap leaf p =
     (case p of
        Pin_None \<Rightarrow> True
      | Pin_Leaf fp \<Rightarrow> crt_fingerprint e leaf = fp
      | Pin_CA fp san \<Rightarrow> cp_have_ca cap \<and> cp_ca_fp cap = fp \<and> names_match leaf san)"

lemma leaf_decision_iff:
  "td_verdict (leaf_decision e leaf s) \<noteq> ESPOS_SK_TLS_REJECT \<longleftrightarrow> slot_shows e (tl_cap s) leaf (pinned (tl_anchor s))"
proof (cases "an_kind (tl_anchor s)")
  case ESPOS_SK_TLS_ANCHOR_CA
  then show ?thesis
    by (auto simp: leaf_decision_def decide_verdict facts_of_def slot_shows_def pinned_def leaf_capture_def names_match_def dest: san_equal_eq)
qed (auto simp: leaf_decision_def decide_verdict facts_of_def slot_shows_def pinned_def leaf_capture_def)

lemma slot_shows_fresh:
  "slot_shows e (see_cas e (map fst ups) zero_capture) leaf p \<longleftrightarrow> shows_pin e (ups @ [(leaf, fl)]) p"
  by (auto simp: slot_shows_def shows_pin_def see_cas_def zero_capture_def split: pin.splits option.splits)

text \<open>Committing what showed the pinned identity leaves it pinned.\<close>

lemma commit_keeps_pin:
  assumes "an_kind a \<noteq> ESPOS_SK_TLS_ANCHOR_NONE" and "slot_shows e cap leaf (pinned a)"
  shows "pinned (fst (commit_anchor now ((leaf_capture e leaf cap)\<lparr>cp_capture_as := k, cp_valid := True\<rparr>) self a)) = pinned a"
proof (cases "an_kind a")
  case ESPOS_SK_TLS_ANCHOR_CA
  with assms have "cp_ca_fp cap = an_ca_fp a" "fst (crt_san_set leaf ESPOS_SK_TLS_SAN_MAX) = an_san a"
    by (auto simp: slot_shows_def pinned_def names_match_def dest: san_equal_eq)
  with ESPOS_SK_TLS_ANCHOR_CA show ?thesis
    by (auto simp: commit_anchor_def leaf_capture_def pinned_def Let_def split: option.split)
qed (use assms in \<open>auto simp: commit_anchor_def leaf_capture_def pinned_def slot_shows_def Let_def split: option.split\<close>)

text \<open>One run of the callback over a chain.\<close>

lemma verify_chain_cases:
  assumes "verify_chain e (ups @ [(leaf, fl)]) s = (ok, s')"
  defines "cap \<equiv> see_cas e (map fst ups) (tl_cap s)"
  shows "ok \<longleftrightarrow> slot_shows e cap leaf (pinned (tl_anchor s))"
    and "tl_anchor s' = tl_anchor s" and "tl_lock s' = tl_lock s" and "tl_loaded s' = tl_loaded s"
    and "cp_valid (tl_cap s') \<longleftrightarrow> ok"
    and "ok \<Longrightarrow> \<exists>k. tl_cap s' = (leaf_capture e leaf cap)\<lparr>cp_capture_as := k, cp_valid := True\<rparr>"
proof -
  obtain rc f s1 where v: "verify_leaf e leaf fl (s\<lparr>tl_cap := cap\<rparr>) = (rc, f, s1)" by (metis prod_cases3)
  with assms have ok: "ok \<longleftrightarrow> rc = 0 \<and> f = 0" and s': "s' = s1" by (auto simp: verify_chain_leaf)
  with verify_leaf_rc [OF v] have ok: "ok \<longleftrightarrow> rc = 0" by auto
  note c = verify_leaf_cases [OF v]
  show "ok \<longleftrightarrow> slot_shows e cap leaf (pinned (tl_anchor s))" using c(1) ok leaf_decision_iff [of e leaf "s\<lparr>tl_cap := cap\<rparr>"] by simp
  show "tl_anchor s' = tl_anchor s" and "tl_lock s' = tl_lock s" and "tl_loaded s' = tl_loaded s" and "cp_valid (tl_cap s') \<longleftrightarrow> ok"
    using c ok s' by simp_all
  show "\<exists>k. tl_cap s' = (leaf_capture e leaf cap)\<lparr>cp_capture_as := k, cp_valid := True\<rparr>" if ok
    using c(6) ok s' that by auto
qed

subsection \<open>An example\<close>

text \<open>A settings partition as an association list, a hash that pads, and one server with a CA.\<close>

datatype nvs_val = N_U8 u8 | N_Str string | N_I64 int

definition demo_env :: "(string \<times> nvs_val) list tls_env" where
  "demo_env =
     \<lparr>te_md = (\<lambda>b. Some (take 32 (b @ replicate 32 0))),
      te_parse = (\<lambda>p. if p = ''PEM'' then Some \<lparr>x_raw = [1], x_subject = [], x_sans = [], x_ca = True\<rparr> else None),
      te_now_ms = None, te_ca_max = 8, te_pool = ''internal'', te_min_block_kb = 0,
      te_largest_block = (\<lambda>c. (0, c)), te_bundle_attach = (\<lambda>c. (ESP_OK, c)),
      te_mutex = (\<lambda>c. (True, c)), te_job = (\<lambda>c. (True, c)), te_malloc = (\<lambda>c. (True, c)),
      te_open = (\<lambda>c. (ESP_OK, c)), te_close = (\<lambda>c. c),
      te_get_u8 = (\<lambda>k c. case map_of c k of Some (N_U8 b) \<Rightarrow> (ESP_OK, b) | _ \<Rightarrow> (ESP_ERR_NOT_FOUND, 0)),
      te_get_str = (\<lambda>k n c. case map_of c k of Some (N_Str v) \<Rightarrow> if length v < n then (ESP_OK, v) else (ESP_ERR_INVALID_SIZE, []) | _ \<Rightarrow> (ESP_ERR_NOT_FOUND, [])),
      te_get_i64 = (\<lambda>k c. case map_of c k of Some (N_I64 i) \<Rightarrow> (ESP_OK, i) | _ \<Rightarrow> (ESP_ERR_NOT_FOUND, 0)),
      te_set_u8 = (\<lambda>k b c. (ESP_OK, (k, N_U8 b) # c)), te_set_str = (\<lambda>k v c. (ESP_OK, (k, N_Str v) # c)),
      te_set_i64 = (\<lambda>k i c. (ESP_OK, (k, N_I64 i) # c)),
      te_erase_key = (\<lambda>k. filter (\<lambda>(k', _). k' \<noteq> k)), te_commit = (\<lambda>c. (ESP_OK, c))\<rparr>"

definition demo_ca :: x509_crt where
  "demo_ca = \<lparr>x_raw = [1], x_subject = [], x_sans = [], x_ca = True\<rparr>"

text \<open>A leaf that names the host \<open>a\<close>.\<close>

definition demo_leaf :: "u8 \<Rightarrow> x509_crt" where
  "demo_leaf n = \<lparr>x_raw = [n], x_subject = [], x_sans = [(0x82, [97])], x_ca = False\<rparr>"

definition demo_tls :: "anchor \<Rightarrow> (string \<times> nvs_val) list tls" where
  "demo_tls a =
     \<lparr>tl_lock = True, tl_handshake = Some False, tl_loaded = True, tl_anchor = a, tl_store_pending = False,
      tl_cap = zero_capture, tl_trust = ESPOS_SK_TLS_TRUST_TOFU, tl_ca_pem = [], tl_ca_crt = None, tl_last_error = [],
      tl_seen_cn = [], tl_seen_fp = [], tl_have_seen = False, tl_out = [], tl_ctx = []\<rparr>"

definition demo_anchor :: anchor where
  "demo_anchor = zero_anchor\<lparr>an_kind := ESPOS_SK_TLS_ANCHOR_CA, an_ca_fp := 1 # replicate 31 0, an_san := ''a''\<rparr>"

subsection \<open>A device that holds its server to the pin\<close>

text \<open>The library the examples use.\<close>

fun demo_walk :: "'c verify_callback \<Rightarrow> (x509_crt \<times> u32) list \<Rightarrow> 'c tls \<Rightarrow> bool \<times> 'c tls" where
  "demo_walk cb [] s = (True, s)"
| "demo_walk cb ((crt, flags) # rest) s =
     (case cb (Some crt) (int (length rest)) flags s of
        (rc, flags, s) \<Rightarrow> if rc \<noteq> 0 \<or> flags \<noteq> 0 then (False, s) else demo_walk cb rest s)"

definition demo_mbedtls :: "'c mbedtls" where
  "demo_mbedtls = \<lparr>mb_verify = (\<lambda>cb ca. demo_walk cb), mb_bundle = (\<lambda>chain. False)\<rparr>"

lemma demo_walks: "walks_chains demo_mbedtls"
  by (simp add: walks_chains_def chain_walk_def demo_mbedtls_def)

lemma attach_frame:
  assumes "espos_sk_tls_attach e conf s = (err, hook, s')" and "tl_lock s" and "tl_loaded s"
  shows "tl_anchor s' = tl_anchor s" and "tl_lock s'" and "tl_loaded s'" and "tl_cap s' = tl_cap s" and "tl_trust s' = tl_trust s"
    and "conf \<Longrightarrow> err = ESP_OK \<Longrightarrow> if tl_trust s = ESPOS_SK_TLS_TRUST_BUNDLE then hook = Ssl_Bundle else hook = Ssl_Pinned (tl_ca_crt s)"
  using assms by (auto simp: espos_sk_tls_attach_def Let_def split: option.splits prod.splits if_splits)

text \<open>What a verified chain leaves, on a slot that was empty: the same trust store but for the slot and what was presented.\<close>

lemma verified_commit:
  assumes "walks_chains mb" and "tl_lock s" and "tl_loaded s" and "tl_cap s = zero_capture" and "an_kind (tl_anchor s) \<noteq> ESPOS_SK_TLS_ANCHOR_NONE"
    and "hook = Ssl_Bundle \<or> hook = Ssl_Pinned ca" and "tls_verify e mb hook chain s = (good, s')"
  shows "tl_lock s'" and "tl_loaded s'" and "tl_anchor s' = tl_anchor s"
    and "good \<Longrightarrow> pinned (tl_anchor (espos_sk_tls_commit e self s')) = pinned (tl_anchor s)"
    and "hook = Ssl_Pinned ca \<Longrightarrow> chain \<noteq> [] \<Longrightarrow> good \<longleftrightarrow> shows_pin e chain (pinned (tl_anchor s))"
proof -
  have all: "tl_lock s' \<and> tl_loaded s' \<and> tl_anchor s' = tl_anchor s \<and>
     (good \<longrightarrow> pinned (tl_anchor (espos_sk_tls_commit e self s')) = pinned (tl_anchor s)) \<and>
     (hook = Ssl_Pinned ca \<longrightarrow> chain \<noteq> [] \<longrightarrow> (good \<longleftrightarrow> shows_pin e chain (pinned (tl_anchor s))))"
  proof (cases "hook = Ssl_Bundle \<or> chain = []")
    case True
    then have s': "s' = s" and nb: "hook = Ssl_Bundle \<or> chain = []"
      using assms(6,7) tls_verify_pinned [OF assms(1), of e ca "[]" s] by (auto simp: tls_verify_def)
    have "\<not> cp_valid (tl_cap s)" using assms(4) by (simp add: zero_capture_def)
    with tls_commit_frame(3) [OF assms(2,3), of e self] nb assms(2,3,6) show ?thesis by (auto simp: s')
  next
    case False
    with assms(6) have p: "hook = Ssl_Pinned ca" by blast
    from False obtain ups leaf fl where ch: "chain = ups @ [(leaf, fl)]" by (metis rev_cases surj_pair)
    have v: "verify_chain e (ups @ [(leaf, fl)]) s = (good, s')" using assms(7) p ch by (simp add: tls_verify_pinned [OF assms(1)])
    note c = verify_chain_cases [OF v, unfolded assms(4)]
    have r: "tl_lock s'" "tl_loaded s'" using c assms by auto
    have good: "good \<longleftrightarrow> shows_pin e chain (pinned (tl_anchor s))" using c(1) slot_shows_fresh ch by metis
    have "pinned (tl_anchor (espos_sk_tls_commit e self s')) = pinned (tl_anchor s)" if good
    proof -
      from that obtain k where k: "tl_cap s' = (leaf_capture e leaf (see_cas e (map fst ups) zero_capture))\<lparr>cp_capture_as := k, cp_valid := True\<rparr>"
        using c(6) by auto
      obtain now where "tl_anchor (espos_sk_tls_commit e self s') = fst (commit_anchor now (tl_cap s') self (tl_anchor s'))"
        using tls_commit_frame(3) [OF r, of e self] k by auto
      moreover have "pinned (fst (commit_anchor now (tl_cap s') self (tl_anchor s'))) = pinned (tl_anchor s')"
        unfolding k using that c(1,2) assms(5) by (intro commit_keeps_pin) auto
      ultimately show ?thesis using c(2) by simp
    qed
    with r c(2) good show ?thesis by simp
  qed
  then show "tl_lock s'" and "tl_loaded s'" and "tl_anchor s' = tl_anchor s"
    and "good \<Longrightarrow> pinned (tl_anchor (espos_sk_tls_commit e self s')) = pinned (tl_anchor s)"
    and "hook = Ssl_Pinned ca \<Longrightarrow> chain \<noteq> [] \<Longrightarrow> good \<longleftrightarrow> shows_pin e chain (pinned (tl_anchor s))" by blast+
qed

text \<open>The handshake could begin and the hook could set it up.\<close>

definition set_up :: "'c tls_env \<Rightarrow> 'c tls \<Rightarrow> bool" where
  "set_up e s \<longleftrightarrow> fst (espos_sk_tls_handshake_begin e s) = ESP_OK \<and>
     fst (espos_sk_tls_attach e True (snd (espos_sk_tls_handshake_begin e s))) = ESP_OK"

lemma begin_trust: "espos_sk_tls_handshake_begin e s = (err, s') \<Longrightarrow> tl_lock s \<Longrightarrow> tl_loaded s \<Longrightarrow> tl_trust s' = tl_trust s"
  by (auto simp: espos_sk_tls_handshake_begin_def tls_report_def Let_def split: option.splits prod.splits if_splits)

lemma connect_pinned:
  assumes "walks_chains mb" and "tl_lock s" and "tl_loaded s" and "an_kind (tl_anchor s) \<noteq> ESPOS_SK_TLS_ANCHOR_NONE"
    and "tls_connect e mb chain answers self s = (ok, s')"
  shows "tl_lock s' \<and> tl_loaded s' \<and> pinned (tl_anchor s') = pinned (tl_anchor s)"
    and "chain \<noteq> [] \<Longrightarrow> ok \<longleftrightarrow> set_up e s \<and>
       (if tl_trust s = ESPOS_SK_TLS_TRUST_BUNDLE then mb_bundle mb chain else shows_pin e chain (pinned (tl_anchor s))) \<and> answers"
proof -
  obtain err s1 where b: "espos_sk_tls_handshake_begin e s = (err, s1)" by fastforce
  obtain err2 hook s2 where a: "espos_sk_tls_attach e True s1 = (err2, hook, s2)" by (metis prod_cases3)
  note f = begin_frame [OF b assms(2,3)]
  note g = attach_frame [OF a f(2,3)]
  have tr: "tl_trust s1 = tl_trust s" by (rule begin_trust [OF b assms(2,3)])
  have "(tl_lock s' \<and> tl_loaded s' \<and> pinned (tl_anchor s') = pinned (tl_anchor s)) \<and>
      (chain \<noteq> [] \<longrightarrow> (ok \<longleftrightarrow> set_up e s \<and>
         (if tl_trust s = ESPOS_SK_TLS_TRUST_BUNDLE then mb_bundle mb chain else shows_pin e chain (pinned (tl_anchor s))) \<and> answers))"
  proof (cases "err = ESP_OK \<and> err2 = ESP_OK")
    case False
    then show ?thesis using assms(5) b a f g by (auto simp: tls_connect_def set_up_def Let_def split: if_splits)
  next
    case True
    obtain good s3 where v: "tls_verify e mb hook chain s2 = (good, s3)" by fastforce
    have s': "s' = espos_sk_tls_handshake_end (if good \<and> answers then espos_sk_tls_commit e self s3 else espos_sk_tls_discard e s3)"
      and ok: "ok \<longleftrightarrow> good \<and> answers"
      using assms(5) b a v True by (auto simp: tls_connect_def Let_def)
    have st: "hook = Ssl_Bundle \<or> hook = Ssl_Pinned (tl_ca_crt s1)" using g(6) True by (auto split: if_splits)
    have z: "tl_cap s2 = zero_capture" "an_kind (tl_anchor s2) \<noteq> ESPOS_SK_TLS_ANCHOR_NONE" "tl_anchor s2 = tl_anchor s"
      using f g True assms(4) by auto
    note V = verified_commit [OF assms(1) g(2,3) z(1,2) st v]
    have good: "good \<longleftrightarrow> (if tl_trust s = ESPOS_SK_TLS_TRUST_BUNDLE then mb_bundle mb chain else shows_pin e chain (pinned (tl_anchor s)))"
      if "chain \<noteq> []"
      using V(5) [OF _ that] g(6) True tr v z(3) by (auto simp: tls_verify_def split: if_splits)
    have "set_up e s" using b a True by (simp add: set_up_def)
    with s' ok good V z(3) tls_commit_frame(1,2) [OF V(1,2), of e self] show ?thesis by (auto split: if_splits)
  qed
  then show "tl_lock s' \<and> tl_loaded s' \<and> pinned (tl_anchor s') = pinned (tl_anchor s)"
    and "chain \<noteq> [] \<Longrightarrow> ok \<longleftrightarrow> set_up e s \<and>
       (if tl_trust s = ESPOS_SK_TLS_TRUST_BUNDLE then mb_bundle mb chain else shows_pin e chain (pinned (tl_anchor s))) \<and> answers"
    by blast+
qed

text \<open>
  What may happen to a pinned device without an operator forgetting the pin or supplying another CA: connections to
  whatever answers, the attach hook, a change of the trust mode, the same PEM again, the status document.
\<close>

datatype tls_event =
    Tls_Connect "(x509_crt \<times> u32) list" bool "string option"
  | Tls_Attach bool
  | Tls_Mode espos_sk_tls_trust bool
  | Tls_Publish

fun tls_step :: "'c tls_env \<Rightarrow> 'c mbedtls \<Rightarrow> 'c tls \<Rightarrow> tls_event \<Rightarrow> 'c tls" where
  "tls_step e mb s (Tls_Connect chain answers self) = snd (tls_connect e mb chain answers self s)"
| "tls_step e mb s (Tls_Attach conf) = snd (snd (espos_sk_tls_attach e conf s))"
| "tls_step e mb s (Tls_Mode t again) = espos_sk_tls_set_trust e t (if again then Some (tl_ca_pem s) else None) s"
| "tls_step e mb s Tls_Publish = espos_sk_tls_publish e s"

definition holds_pin :: "'c mbedtls \<Rightarrow> pin \<Rightarrow> 'c tls \<Rightarrow> bool" where
  "holds_pin mb p s \<longleftrightarrow> walks_chains mb \<and> tl_lock s \<and> tl_loaded s \<and> pinned (tl_anchor s) = p \<and> p \<noteq> Pin_None"

lemma pinned_None [simp]: "pinned a = Pin_None \<longleftrightarrow> an_kind a = ESPOS_SK_TLS_ANCHOR_NONE"
  by (cases "an_kind a") (simp_all add: pinned_def)

lemma tls_step_holds: "holds_pin mb p s \<Longrightarrow> holds_pin mb p (tls_step e mb s ev)"
proof (cases ev)
  case (Tls_Connect chain answers self)
  assume h: "holds_pin mb p s"
  obtain ok s' where c: "tls_connect e mb chain answers self s = (ok, s')" by fastforce
  have "tl_lock s' \<and> tl_loaded s' \<and> pinned (tl_anchor s') = pinned (tl_anchor s)"
    using h by (intro connect_pinned(1) [OF _ _ _ _ c]) (auto simp: holds_pin_def)
  then show ?thesis using h c Tls_Connect by (simp add: holds_pin_def)
next
  case (Tls_Attach conf)
  assume h: "holds_pin mb p s"
  obtain err hook s' where a: "espos_sk_tls_attach e conf s = (err, hook, s')" by (metis prod_cases3)
  with h attach_frame [OF a] Tls_Attach show ?thesis by (simp add: holds_pin_def)
qed (auto simp: holds_pin_def espos_sk_tls_set_trust_def Let_def)

interpretation tls: event_machine "tls_step e mb" "holds_pin mb p" for e :: "'c tls_env" and mb p
  by unfold_locales (rule tls_step_holds)

lemma pinned_run:
  assumes "walks_chains mb" and "tl_lock s" and "tl_loaded s" and "an_kind (tl_anchor s) \<noteq> ESPOS_SK_TLS_ANCHOR_NONE"
  shows "holds_pin mb (pinned (tl_anchor s)) (foldl (tls_step e mb) s evs)"
  by (rule tls.run_inv) (use assms in \<open>simp add: holds_pin_def\<close>)

text \<open>
  C3. Once an identity is pinned it stays pinned through any sequence of connections and changes of the trust mode, whatever
  the connections present and answer. In the modes \<open>tofu\<close> and \<open>ca\<close> a connection goes through exactly when its handshake could begin and be
  set up, the chain shows the pinned identity (the pinned leaf, or under the pinned topmost CA a leaf with the pinned
  names, both whole) and the server answers; in the mode \<open>bundle\<close> the pin is not asked and mbedTLS decides under the public roots.
\<close>

theorem tls_pin_holds:
  assumes "walks_chains mb" and "tl_lock s" and "tl_loaded s" and "an_kind (tl_anchor s) \<noteq> ESPOS_SK_TLS_ANCHOR_NONE" and "chain \<noteq> []"
  shows "let s' = foldl (tls_step e mb) s evs
         in pinned (tl_anchor s') = pinned (tl_anchor s) \<and>
            (fst (tls_connect e mb chain answers self s') \<longleftrightarrow> set_up e s' \<and>
               (if tl_trust s' = ESPOS_SK_TLS_TRUST_BUNDLE then mb_bundle mb chain else shows_pin e chain (pinned (tl_anchor s))) \<and> answers)"
proof -
  define s' where "s' = foldl (tls_step e mb) s evs"
  have h: "holds_pin mb (pinned (tl_anchor s)) s'" unfolding s'_def by (rule pinned_run [OF assms(1-4)])
  obtain ok t where c: "tls_connect e mb chain answers self s' = (ok, t)" by fastforce
  have k: "an_kind (tl_anchor s') \<noteq> ESPOS_SK_TLS_ANCHOR_NONE" using h by (metis holds_pin_def pinned_None)
  have "ok \<longleftrightarrow> set_up e s' \<and>
      (if tl_trust s' = ESPOS_SK_TLS_TRUST_BUNDLE then mb_bundle mb chain else shows_pin e chain (pinned (tl_anchor s'))) \<and> answers"
    using h k assms(1,5) by (intro connect_pinned(2) [OF _ _ _ _ c]) (auto simp: holds_pin_def)
  then show ?thesis using h c by (simp add: s'_def [symmetric] Let_def holds_pin_def)
qed

theorem tls_pin_holds_witness:
  "let s' = foldl (tls_step demo_env demo_mbedtls) (demo_tls demo_anchor) [Tls_Connect [(demo_leaf 9, 0)] True None, Tls_Publish]
   in pinned (tl_anchor s') = pinned demo_anchor \<and>
      fst (tls_connect demo_env demo_mbedtls [(demo_ca, 8), (demo_leaf 2, 8)] True None s')"
proof -
  let ?s = "foldl (tls_step demo_env demo_mbedtls) (demo_tls demo_anchor) [Tls_Connect [(demo_leaf 9, 0)] True None, Tls_Publish]"
  have "set_up demo_env ?s" "tl_trust ?s \<noteq> ESPOS_SK_TLS_TRUST_BUNDLE" "shows_pin demo_env [(demo_ca, 8), (demo_leaf 2, 8)] (pinned demo_anchor)"
    by code_simp+
  with tls_pin_holds [of demo_mbedtls "demo_tls demo_anchor" "[(demo_ca, 8), (demo_leaf 2, 8)]" demo_env
      "[Tls_Connect [(demo_leaf 9, 0)] True None, Tls_Publish]" True None, OF demo_walks]
  show ?thesis by (simp add: demo_tls_def demo_anchor_def Let_def)
qed

text \<open>
  C37. A CA an operator supplies is adopted as the anchor with no names bound to it, and outside the mode \<open>bundle\<close> such a device
  refuses every server from then on, one signed by that CA included: the set of names it compares with stays empty.
\<close>

theorem tls_operator_ca_refuses_every_server:
  assumes "walks_chains mb" and "tl_lock s" and "tl_loaded s"
    and "pem \<noteq> []" and "length pem < te_ca_max e" and "te_parse e pem = Some ca" and "tl_ca_pem s \<noteq> pem" and "length (tl_ca_pem s) < te_ca_max e"
    and "chain \<noteq> []"
  shows "let s' = foldl (tls_step e mb) (espos_sk_tls_set_trust e ESPOS_SK_TLS_TRUST_CA (Some pem) s) evs
         in pinned (tl_anchor s') = Pin_CA (crt_fingerprint e ca) [] \<and>
            (tl_trust s' \<noteq> ESPOS_SK_TLS_TRUST_BUNDLE \<longrightarrow> \<not> fst (tls_connect e mb chain answers self s'))"
proof -
  let ?t = "espos_sk_tls_set_trust e ESPOS_SK_TLS_TRUST_CA (Some pem) s"
  have t: "?t = adopt_ca e ca (s\<lparr>tl_trust := ESPOS_SK_TLS_TRUST_CA, tl_ca_pem := pem, tl_ca_crt := None\<rparr>)"
    using assms by (simp add: espos_sk_tls_set_trust_def espos_sk_tls_parse_ca_def Let_def)
  have a: "tl_lock ?t" "tl_loaded ?t" "pinned (tl_anchor ?t) = Pin_CA (crt_fingerprint e ca) []"
    using assms(2,3) now_frame unfolding t
    by (auto simp: adopt_ca_def pinned_def zero_anchor_def Let_def split: prod.split)
  then have k: "an_kind (tl_anchor ?t) \<noteq> ESPOS_SK_TLS_ANCHOR_NONE" by (metis pin.distinct(3) pinned_None)
  define s' where "s' = foldl (tls_step e mb) ?t evs"
  have h: "holds_pin mb (Pin_CA (crt_fingerprint e ca) []) s'" unfolding s'_def using pinned_run [OF assms(1) a(1,2) k] a(3) by simp
  obtain ok u where c: "tls_connect e mb chain answers self s' = (ok, u)" by fastforce
  have k': "an_kind (tl_anchor s') \<noteq> ESPOS_SK_TLS_ANCHOR_NONE" using h by (metis holds_pin_def pinned_None)
  have "\<not> shows_pin e chain (Pin_CA (crt_fingerprint e ca) [])"
    by (auto simp: shows_pin_def names_match_def espos_sk_tls_san_equal_def split: option.split)
  then have "\<not> ok" if "tl_trust s' \<noteq> ESPOS_SK_TLS_TRUST_BUNDLE"
    using connect_pinned(2) [OF assms(1) _ _ k' c assms(9)] h that by (auto simp: holds_pin_def)
  with h c show ?thesis by (simp add: s'_def [symmetric] Let_def holds_pin_def)
qed

theorem tls_operator_ca_refuses_every_server_witness:
  "let s' = foldl (tls_step demo_env demo_mbedtls) (espos_sk_tls_set_trust demo_env ESPOS_SK_TLS_TRUST_CA (Some ''PEM'') (demo_tls zero_anchor)) []
   in pinned (tl_anchor s') = Pin_CA (crt_fingerprint demo_env demo_ca) [] \<and>
      \<not> fst (tls_connect demo_env demo_mbedtls [(demo_ca, 0), (demo_leaf 2, 0)] True None s')"
proof -
  have "tl_trust (espos_sk_tls_set_trust demo_env ESPOS_SK_TLS_TRUST_CA (Some ''PEM'') (demo_tls zero_anchor)) \<noteq> ESPOS_SK_TLS_TRUST_BUNDLE"
    by code_simp
  with tls_operator_ca_refuses_every_server [OF demo_walks, of "demo_tls zero_anchor" "''PEM''" demo_env demo_ca "[(demo_ca, 0), (demo_leaf 2, 0)]" "[]" True None]
  show ?thesis by (simp add: demo_tls_def demo_env_def demo_ca_def Let_def)
qed

text \<open>
  C38. A socket that takes the attach hook and does not begin its handshake through the trust store (as the control
  socket of the BLE gateway does) finds the CA of the chain before in the capture slot: after a chain under the
  pinned CA, a leaf with the pinned names and no CA above it is accepted, although from an empty slot it is refused.
\<close>

theorem tls_stale_capture_accepts_bare_leaf:
  assumes "an_kind (tl_anchor s) = ESPOS_SK_TLS_ANCHOR_CA" and "tl_cap s = zero_capture"
    and "verify_chain e (ups @ [(leaf, fl)]) s = (True, s')"
    and "names_match other (an_san (tl_anchor s))"
  shows "fst (verify_chain e [(other, fl')] s') \<and> \<not> fst (verify_chain e [(other, fl')] (s'\<lparr>tl_cap := zero_capture\<rparr>))"
proof -
  note c = verify_chain_cases [OF assms(3), unfolded assms(2)]
  let ?c = "see_cas e (map fst ups) zero_capture"
  have p: "pinned (tl_anchor s) = Pin_CA (an_ca_fp (tl_anchor s)) (an_san (tl_anchor s))" using assms(1) by (simp add: pinned_def)
  then have ca: "cp_have_ca ?c" "cp_ca_fp ?c = an_ca_fp (tl_anchor s)" using c(1) by (auto simp: slot_shows_def)
  then have "cp_have_ca (tl_cap s')" "cp_ca_fp (tl_cap s') = an_ca_fp (tl_anchor s)"
    using c(6) by (auto simp: leaf_capture_def)
  then have "slot_shows e (see_cas e (map fst []) (tl_cap s')) other (pinned (tl_anchor s'))"
    using c(2) p assms(4) by (simp add: slot_shows_def see_cas_def)
  moreover have "\<not> slot_shows e (see_cas e (map fst []) zero_capture) other (pinned (tl_anchor s'))"
    using c(2) p by (simp add: slot_shows_def see_cas_def zero_capture_def)
  moreover obtain o1 t1 where v1: "verify_chain e ([] @ [(other, fl')]) s' = (o1, t1)" by fastforce
  moreover obtain o2 t2 where v2: "verify_chain e ([] @ [(other, fl')]) (s'\<lparr>tl_cap := zero_capture\<rparr>) = (o2, t2)" by fastforce
  ultimately show ?thesis using verify_chain_cases(1) [OF v1] verify_chain_cases(1) [OF v2] by simp
qed

lemma demo_accepts: "fst (verify_chain demo_env ([(demo_ca, 8)] @ [(demo_leaf 2, 8)]) (demo_tls demo_anchor))"
  by code_simp

lemma demo_names: "names_match (demo_leaf 66) ''a''"
  by code_simp

theorem tls_stale_capture_accepts_bare_leaf_witness:
  "let s' = snd (verify_chain demo_env ([(demo_ca, 8)] @ [(demo_leaf 2, 8)]) (demo_tls demo_anchor))
   in fst (verify_chain demo_env [(demo_leaf 66, 8)] s') \<and> \<not> fst (verify_chain demo_env [(demo_leaf 66, 8)] (s'\<lparr>tl_cap := zero_capture\<rparr>))"
  unfolding Let_def
proof (rule tls_stale_capture_accepts_bare_leaf)
  show "verify_chain demo_env ([(demo_ca, 8)] @ [(demo_leaf 2, 8)]) (demo_tls demo_anchor) =
      (True, snd (verify_chain demo_env ([(demo_ca, 8)] @ [(demo_leaf 2, 8)]) (demo_tls demo_anchor)))"
    using demo_accepts by (metis (full_types) prod.collapse)
qed (simp_all add: demo_tls_def demo_anchor_def demo_names)

subsection \<open>A store that cannot be opened\<close>

text \<open>NVS refuses to open and the helper task always starts.\<close>

definition no_store :: "'c tls_env \<Rightarrow> bool" where
  "no_store e \<longleftrightarrow> (\<forall>c. fst (te_open e c) \<noteq> ESP_OK) \<and> (\<forall>c. fst (te_job e c))"

definition unread :: "'c tls \<Rightarrow> bool" where
  "unread s \<longleftrightarrow> tl_lock s \<and> \<not> tl_loaded s"

lemma unread_updates [simp]:
  "unread (s\<lparr>tl_ctx := c\<rparr>) = unread s" "unread (s\<lparr>tl_cap := x\<rparr>) = unread s" "unread (s\<lparr>tl_anchor := a\<rparr>) = unread s"
  "unread (s\<lparr>tl_out := w\<rparr>) = unread s" "unread (s\<lparr>tl_store_pending := b\<rparr>) = unread s" "unread (s\<lparr>tl_last_error := m\<rparr>) = unread s"
  "unread (s\<lparr>tl_handshake := h\<rparr>) = unread s" "unread (s\<lparr>tl_trust := t\<rparr>) = unread s" "unread (s\<lparr>tl_ca_pem := pm\<rparr>) = unread s"
  by (simp_all add: unread_def)

lemma ensure_init_unread:
  assumes "no_store e" and "unread s"
  shows "unread (ensure_init e s)" and "tl_anchor (ensure_init e s) = zero_anchor" and "tl_cap (ensure_init e s) = tl_cap s"
proof -
  obtain b c where j: "te_job e (tl_ctx s) = (b, c)" by fastforce
  obtain err c' where o: "te_open e c = (err, c')" by fastforce
  have "b" using assms(1) j by (metis no_store_def fst_conv)
  moreover have "err \<noteq> ESP_OK" using assms(1) o by (metis no_store_def fst_conv)
  ultimately have "ensure_init e s = s\<lparr>tl_anchor := zero_anchor, tl_ctx := c'\<rparr>"
    using assms(2) j o by (simp add: ensure_init_def run_on_internal_stack_def anchor_load_def unread_def)
  with assms(2) show "unread (ensure_init e s)" and "tl_anchor (ensure_init e s) = zero_anchor" and "tl_cap (ensure_init e s) = tl_cap s"
    by simp_all
qed

lemma unread_persist [simp]: "unread (persist_anchor e s) = unread s"
  by (simp add: unread_def)

lemma unread_end [simp]: "unread (espos_sk_tls_handshake_end s) = unread s"
  by (simp add: unread_def)

lemma unread_publish: "no_store e \<Longrightarrow> unread s \<Longrightarrow> unread (espos_sk_tls_publish e s)"
  using ensure_init_unread(1) [of e s]
  by (auto simp: espos_sk_tls_publish_def espos_sk_tls_json_def Let_def split: prod.splits option.splits if_splits)

lemma unread_commit:
  assumes "no_store e" and "unread s"
  shows "unread (espos_sk_tls_commit e self s)"
proof -
  let ?s = "ensure_init e s"
  obtain now s1 where n: "(if an_kind (tl_anchor ?s) = ESPOS_SK_TLS_ANCHOR_NONE then pinned_now_unix e ?s else (0, ?s)) = (now, s1)"
    by fastforce
  have u: "unread ?s" by (rule ensure_init_unread [OF assms])
  with n have "unread s1" by (auto simp: unread_def split: if_splits)
  obtain a ch where a: "commit_anchor now (tl_cap s1) self (tl_anchor s1) = (a, ch)" by fastforce
  show ?thesis using u \<open>unread s1\<close> n a assms(1)
    by (auto simp: espos_sk_tls_commit_def Let_def intro!: unread_publish)
qed

lemma unread_begin:
  assumes "no_store e" and "unread s" and "espos_sk_tls_handshake_begin e s = (err, s')"
  shows "unread s'" and "err = ESP_OK \<Longrightarrow> tl_anchor s' = zero_anchor"
proof -
  have u: "unread (ensure_init e s)" by (rule ensure_init_unread [OF assms(1,2)])
  have d: "unread (espos_sk_tls_discard e t)" "tl_anchor (espos_sk_tls_discard e t) = zero_anchor" if "unread t" for t
    using ensure_init_unread [OF assms(1) that] by (simp_all add: espos_sk_tls_discard_def)
  show "unread s'" and "err = ESP_OK \<Longrightarrow> tl_anchor s' = zero_anchor"
    using assms(3) u d
    by (auto simp: espos_sk_tls_handshake_begin_def tls_report_def Let_def split: option.splits prod.splits if_splits)
qed

lemma unread_verify: "verify_chain e chain s = (ok, s') \<Longrightarrow> unread s' = unread s"
proof (cases chain rule: rev_cases)
  case (snoc ups lf)
  moreover assume "verify_chain e chain s = (ok, s')"
  moreover obtain leaf fl where "lf = (leaf, fl)" by fastforce
  ultimately show ?thesis using verify_chain_cases(3,4) [of e ups leaf fl s ok s'] by (simp add: unread_def)
qed simp

lemma unread_attach:
  assumes "no_store e" and "unread s" and "espos_sk_tls_attach e conf s = (err, hook, s')"
  shows "unread s'" and "tl_anchor s' = zero_anchor"
    and "conf \<Longrightarrow> err = ESP_OK \<Longrightarrow> hook = Ssl_Bundle \<or> (\<exists>ca. hook = Ssl_Pinned ca)"
    and "conf \<Longrightarrow> err = ESP_OK \<Longrightarrow> hook = Ssl_Bundle \<longleftrightarrow> tl_trust s' = ESPOS_SK_TLS_TRUST_BUNDLE"
  using ensure_init_unread [OF assms(1,2)] assms(3)
  by (auto simp: espos_sk_tls_attach_def Let_def split: option.splits prod.splits if_splits)

lemma unread_connect:
  assumes "walks_chains mb" and "no_store e" and "unread s" and "tls_connect e mb chain answers self s = (ok, s')"
    and "hook = fst (snd (espos_sk_tls_attach e True (snd (espos_sk_tls_handshake_begin e s))))"
  shows "unread s'" and "chain \<noteq> [] \<Longrightarrow> ok \<longleftrightarrow> set_up e s \<and> (hook = Ssl_Bundle \<longrightarrow> mb_bundle mb chain) \<and> answers"
proof -
  obtain err s1 where b: "espos_sk_tls_handshake_begin e s = (err, s1)" by fastforce
  note ub = unread_begin [OF assms(2,3) b]
  obtain err2 s2 where a: "espos_sk_tls_attach e True s1 = (err2, hook, s2)" using assms(5) b by (metis prod.collapse snd_conv)
  note ua = unread_attach [OF assms(2) ub(1) a]
  have d: "unread (espos_sk_tls_discard e t)" if "unread t" for t
    using ensure_init_unread(1) [OF assms(2) that] by (simp add: espos_sk_tls_discard_def)
  obtain good s3 where v: "(if err2 \<noteq> ESP_OK then (False, s2) else tls_verify e mb hook chain s2) = (good, s3)" by fastforce
  have u3: "unread s3"
  proof (cases "err2 = ESP_OK")
    case True
    with ua(3) consider "hook = Ssl_Bundle" | ca where "hook = Ssl_Pinned ca" by blast
    then show ?thesis
    proof cases
      case 1
      with v True ua(1) show ?thesis by (auto simp: tls_verify_def)
    next
      case 2
      with v True have "verify_chain e chain s2 = (good, s3)" by (simp add: tls_verify_pinned [OF assms(1)])
      from unread_verify [OF this] ua(1) show ?thesis by simp
    qed
  qed (use v ua(1) in auto)
  have res: "err = ESP_OK \<Longrightarrow> (ok \<longleftrightarrow> good \<and> answers) \<and>
      s' = espos_sk_tls_handshake_end (if good \<and> answers then espos_sk_tls_commit e self s3 else espos_sk_tls_discard e s3)"
    "err \<noteq> ESP_OK \<Longrightarrow> \<not> ok \<and> s' = s1"
    using assms(4) b a v by (auto simp: tls_connect_def Let_def split: if_splits)
  show "unread s'" using res ub(1) d [OF u3] unread_commit [OF assms(2) u3] by (cases "err = ESP_OK") auto
  show "ok \<longleftrightarrow> set_up e s \<and> (hook = Ssl_Bundle \<longrightarrow> mb_bundle mb chain) \<and> answers" if ne: "chain \<noteq> []"
  proof (cases "err = ESP_OK \<and> err2 = ESP_OK")
    case True
    have su: "set_up e s" using True b a by (simp add: set_up_def)
    from True ua(3) consider "hook = Ssl_Bundle" | ca where "hook = Ssl_Pinned ca" by blast
    then show ?thesis
    proof cases
      case 1
      with v True su res(1) show ?thesis by (auto simp: tls_verify_def)
    next
      case 2
      obtain ups leaf fl where ch: "chain = ups @ [(leaf, fl)]" using ne by (metis rev_cases surj_pair)
      have "verify_chain e (ups @ [(leaf, fl)]) s2 = (good, s3)" using v True 2 ch by (simp add: tls_verify_pinned [OF assms(1)])
      from verify_chain_cases(1) [OF this] ua(2) have good by (simp add: slot_shows_def pinned_def zero_anchor_def)
      with 2 su res(1) True show ?thesis by auto
    qed
  next
    case False
    then show ?thesis using res v b a by (auto simp: set_up_def split: if_splits)
  qed
qed

lemma unread_step: "walks_chains mb \<and> no_store e \<Longrightarrow> unread s \<Longrightarrow> unread (tls_step e mb s ev)"
proof (cases ev)
  case (Tls_Connect chain answers self)
  assume a: "walks_chains mb \<and> no_store e" "unread s"
  obtain ok s' where c: "tls_connect e mb chain answers self s = (ok, s')" by fastforce
  show ?thesis using unread_connect(1) [OF _ _ a(2) c refl] a(1) c Tls_Connect by simp
next
  case (Tls_Attach conf)
  assume a: "walks_chains mb \<and> no_store e" "unread s"
  obtain err hook s' where t: "espos_sk_tls_attach e conf s = (err, hook, s')" by (metis prod_cases3)
  show ?thesis using unread_attach(1) [OF _ a(2) t] a(1) t Tls_Attach by simp
next
  case (Tls_Mode t again)
  assume a: "walks_chains mb \<and> no_store e" "unread s"
  have "tl_ca_pem (ensure_init e s) = tl_ca_pem s"
    using a by (auto simp: ensure_init_def run_on_internal_stack_def anchor_load_def unread_def Let_def split: prod.split)
  then show ?thesis using ensure_init_unread(1) [of e s] a Tls_Mode by (simp add: espos_sk_tls_set_trust_def Let_def)
qed (simp add: unread_publish)

interpretation tls_unread: guarded_machine "tls_step e mb" "\<lambda>_. walks_chains mb \<and> no_store e" unread for e :: "'c tls_env" and mb
  by unfold_locales (rule unread_step)

text \<open>
  While the settings partition cannot be opened the anchor is cleared at every use, the one a successful connection
  has just pinned in memory included, so that every server that answers is trusted, each time anew, outside the mode \<open>bundle\<close>.
\<close>

theorem tls_unreadable_store_trusts_anyone:
  assumes "walks_chains mb" and "no_store e" and "tl_lock s" and "\<not> tl_loaded s" and "chain \<noteq> []"
  shows "let s' = foldl (tls_step e mb) s evs
         in fst (snd (espos_sk_tls_attach e True (snd (espos_sk_tls_handshake_begin e s')))) \<noteq> Ssl_Bundle \<longrightarrow>
            (fst (tls_connect e mb chain answers self s') \<longleftrightarrow> set_up e s' \<and> answers)"
proof -
  have "unread (foldl (tls_step e mb) s evs)"
    using tls_unread.guarded_run [of s mb e evs] assms by (simp add: unread_def list_all_iff)
  then show ?thesis
    using unread_connect(2) [OF assms(1,2) _ surjective_pairing refl assms(5)] by (simp add: Let_def)
qed

definition shut_env :: "(string \<times> nvs_val) list tls_env" where
  "shut_env = demo_env\<lparr>te_open := (\<lambda>c. (ESP_FAIL, c))\<rparr>"

theorem tls_unreadable_store_trusts_anyone_witness:
  "let s' = foldl (tls_step shut_env demo_mbedtls) ((demo_tls demo_anchor)\<lparr>tl_loaded := False\<rparr>) [Tls_Connect [(demo_leaf 2, 0)] True None]
   in fst (tls_connect shut_env demo_mbedtls [(demo_leaf 66, 8)] True None s')"
proof -
  let ?s = "foldl (tls_step shut_env demo_mbedtls) ((demo_tls demo_anchor)\<lparr>tl_loaded := False\<rparr>) [Tls_Connect [(demo_leaf 2, 0)] True None]"
  have "set_up shut_env ?s" "fst (snd (espos_sk_tls_attach shut_env True (snd (espos_sk_tls_handshake_begin shut_env ?s)))) \<noteq> Ssl_Bundle"
    by code_simp+
  with tls_unreadable_store_trusts_anyone [OF demo_walks, of shut_env "(demo_tls demo_anchor)\<lparr>tl_loaded := False\<rparr>" "[(demo_leaf 66, 8)]"
      "[Tls_Connect [(demo_leaf 2, 0)] True None]" True None]
  show ?thesis by (simp add: shut_env_def demo_tls_def demo_env_def no_store_def Let_def)
qed

subsection \<open>The anchor in NVS\<close>

text \<open>
  NVS as its documentation has it: what is set under a key is read back from it, if the buffer has room, and nothing else
  changes the entries.
\<close>

definition nvs_view :: "'c tls_env \<Rightarrow> ('c \<Rightarrow> string \<rightharpoonup> nvs_val) \<Rightarrow> bool" where
  "nvs_view e view \<longleftrightarrow>
     (\<forall>k b c c'. te_set_u8 e k b c = (ESP_OK, c') \<longrightarrow> view c' = (view c)(k \<mapsto> N_U8 b)) \<and>
     (\<forall>k v c c'. te_set_str e k v c = (ESP_OK, c') \<longrightarrow> view c' = (view c)(k \<mapsto> N_Str v)) \<and>
     (\<forall>k i c c'. te_set_i64 e k i c = (ESP_OK, c') \<longrightarrow> view c' = (view c)(k \<mapsto> N_I64 i)) \<and>
     (\<forall>c err c'. te_open e c = (err, c') \<or> te_commit e c = (err, c') \<longrightarrow> view c' = view c) \<and>
     (\<forall>c. view (te_close e c) = view c) \<and>
     (\<forall>k b c. view c k = Some (N_U8 b) \<longrightarrow> te_get_u8 e k c = (ESP_OK, b)) \<and>
     (\<forall>k v n c. view c k = Some (N_Str v) \<longrightarrow> length v < n \<longrightarrow> te_get_str e k n c = (ESP_OK, v)) \<and>
     (\<forall>k i c. view c k = Some (N_I64 i) \<longrightarrow> te_get_i64 e k c = (ESP_OK, i))"

definition anchor_ok :: "anchor \<Rightarrow> bool" where
  "anchor_ok a \<longleftrightarrow>
     length (an_leaf_fp a) = ESPOS_SK_TLS_FP_LEN \<and> length (an_ca_fp a) = ESPOS_SK_TLS_FP_LEN \<and>
     length (an_san a) < ESPOS_SK_TLS_SAN_MAX \<and> length (an_cn a) < ESPOS_SK_TLS_CN_MAX \<and> length (an_server_self a) < TLS_SELF_MAX"

lemma unhex_hex_char:
  assumes "unat d < 16"
  shows "unhex_digit (hex_char d) = Some d"
proof -
  have "\<forall>n < 16. unhex_digit (''0123456789abcdef'' ! n) = Some (of_nat n)" by code_simp
  with assms have "unhex_digit (''0123456789abcdef'' ! unat d) = Some (of_nat (unat d))" by blast
  then show ?thesis by (simp add: hex_char_def)
qed

lemma unhex_hex: "length bs = length xs \<Longrightarrow> unhex (hex bs) xs = (True, bs)"
proof (induction bs xs rule: list_induct2)
  case (Cons b bs x xs)
  then show ?case by (simp add: hex_def unhex_hex_char nibble_less nibbles)
qed (simp add: hex_def)

lemma length_hex [simp]: "length (hex bs) = 2 * length bs"
  by (induction bs) (simp_all add: hex_def)

lemma note_err_OK: "note_err op (err, c) = (ESP_OK, c') \<longleftrightarrow> err = ESP_OK \<and> op c = (ESP_OK, c')"
  by (auto simp: note_err_def split: prod.splits)

lemma fold_note_err_OK:
  "fold note_err (op # ops) (ESP_OK, c) = (ESP_OK, c') \<longleftrightarrow> (\<exists>c1. op c = (ESP_OK, c1) \<and> fold note_err ops (ESP_OK, c1) = (ESP_OK, c'))"
proof -
  have bad: "fst (fold note_err ops (err, c)) \<noteq> ESP_OK" if "err \<noteq> ESP_OK" for ops err c
    using that by (induction ops arbitrary: err c) (auto simp: note_err_def split: prod.split)
  obtain e1 c1 where o: "op c = (e1, c1)" by fastforce
  show ?thesis
  proof (cases "e1 = ESP_OK")
    case False
    then have "fst (fold note_err ops (e1, c1)) \<noteq> ESP_OK" by (rule bad)
    then show ?thesis using o False by (auto simp: note_err_def)
  qed (simp add: o note_err_def)
qed

lemma stored_view:
  assumes "nvs_view e view" and "anchor_store e a c = (ESP_OK, c')"
  shows "view c' = (view c)(''tls_kind'' \<mapsto> N_U8 (kind_byte (an_kind a)), ''tls_fp'' \<mapsto> N_Str (hex (an_leaf_fp a)),
      ''tls_ca'' \<mapsto> N_Str (hex (an_ca_fp a)), ''tls_san'' \<mapsto> N_Str (an_san a), ''tls_cn'' \<mapsto> N_Str (an_cn a),
      ''tls_self'' \<mapsto> N_Str (an_server_self a), ''tls_at'' \<mapsto> N_I64 (an_pinned_unix a))"
proof -
  obtain err c0 where o: "te_open e c = (err, c0)" by fastforce
  with assms(2) obtain c9 where f: "fold note_err (anchor_puts e a) (ESP_OK, c0) = (ESP_OK, c9)" and c': "c' = te_close e c9"
    by (auto simp: anchor_store_def split: prod.splits if_splits)
  from f [unfolded anchor_puts_def fold_note_err_OK]
  obtain c1 c2 c3 c4 c5 c6 c7 c8 where
    "te_set_u8 e ''tls_kind'' (kind_byte (an_kind a)) c0 = (ESP_OK, c1)" "te_set_str e ''tls_fp'' (hex (an_leaf_fp a)) c1 = (ESP_OK, c2)"
    "te_set_str e ''tls_ca'' (hex (an_ca_fp a)) c2 = (ESP_OK, c3)" "te_set_str e ''tls_san'' (an_san a) c3 = (ESP_OK, c4)"
    "te_set_str e ''tls_cn'' (an_cn a) c4 = (ESP_OK, c5)" "te_set_str e ''tls_self'' (an_server_self a) c5 = (ESP_OK, c6)"
    "te_set_i64 e ''tls_at'' (an_pinned_unix a) c6 = (ESP_OK, c7)" "te_commit e c7 = (ESP_OK, c8)" "c8 = c9" by auto
  note ops = this
  have "view c0 = view c" "view c' = view c9" "view c8 = view c7" using assms(1) o c' ops(8) unfolding nvs_view_def by metis+
  moreover have "view c1 = (view c0)(''tls_kind'' \<mapsto> N_U8 (kind_byte (an_kind a)))" using assms(1) ops(1) unfolding nvs_view_def by metis
  moreover have "view c2 = (view c1)(''tls_fp'' \<mapsto> N_Str (hex (an_leaf_fp a)))" "view c3 = (view c2)(''tls_ca'' \<mapsto> N_Str (hex (an_ca_fp a)))"
    "view c4 = (view c3)(''tls_san'' \<mapsto> N_Str (an_san a))" "view c5 = (view c4)(''tls_cn'' \<mapsto> N_Str (an_cn a))"
    "view c6 = (view c5)(''tls_self'' \<mapsto> N_Str (an_server_self a))"
    using assms(1) ops(2-6) unfolding nvs_view_def by metis+
  moreover have "view c7 = (view c6)(''tls_at'' \<mapsto> N_I64 (an_pinned_unix a))" using assms(1) ops(7) unfolding nvs_view_def by metis
  ultimately show ?thesis using ops(9) by simp
qed

lemma kind_byte_inverse:
  "(if kind_byte k = 1 then ESPOS_SK_TLS_ANCHOR_CA else if kind_byte k = 2 then ESPOS_SK_TLS_ANCHOR_LEAF else ESPOS_SK_TLS_ANCHOR_NONE) = k"
  by (cases k) simp_all

text \<open>
  C39. An anchor that was stored without an error is the anchor a later boot loads, in all its fields.
\<close>

theorem tls_anchor_round_trip:
  assumes "nvs_view e view" and "anchor_ok a" and "anchor_store e a c = (ESP_OK, c')" and "te_open e c' = (ESP_OK, c2)"
  shows "tl_anchor (anchor_load e (s\<lparr>tl_ctx := c'\<rparr>)) = a \<and> tl_loaded (anchor_load e (s\<lparr>tl_ctx := c'\<rparr>))"
proof -
  have "view c2 = view c'" using assms(1,4) unfolding nvs_view_def by metis
  with stored_view [OF assms(1,3)] have v: "view c2 ''tls_kind'' = Some (N_U8 (kind_byte (an_kind a)))"
    "view c2 ''tls_fp'' = Some (N_Str (hex (an_leaf_fp a)))" "view c2 ''tls_ca'' = Some (N_Str (hex (an_ca_fp a)))"
    "view c2 ''tls_san'' = Some (N_Str (an_san a))" "view c2 ''tls_cn'' = Some (N_Str (an_cn a))"
    "view c2 ''tls_self'' = Some (N_Str (an_server_self a))" "view c2 ''tls_at'' = Some (N_I64 (an_pinned_unix a))" by simp_all
  have str: "te_get_str e k n c2 = (ESP_OK, w)" if "view c2 k = Some (N_Str w)" "length w < n" for k n w
    using assms(1) that unfolding nvs_view_def by metis
  have fp: "load_fp e k c2 = (True, w)" if "view c2 k = Some (N_Str (hex w))" "length w = 32" for k w
  proof -
    have "hex w \<noteq> []" using length_hex [of w] that(2) by (metis length_0_conv mult_eq_0_iff zero_neq_numeral)
    then show ?thesis using str [OF that(1), of 65] that(2) unhex_hex [of w zero_fp] by (simp add: load_fp_def get_str_def zero_fp_def Let_def)
  qed
  have "te_get_u8 e ''tls_kind'' c2 = (ESP_OK, kind_byte (an_kind a))" "te_get_i64 e ''tls_at'' c2 = (ESP_OK, an_pinned_unix a)"
    using assms(1) v(1,7) unfolding nvs_view_def by metis+
  moreover have "load_fp e ''tls_fp'' c2 = (True, an_leaf_fp a)" "load_fp e ''tls_ca'' c2 = (True, an_ca_fp a)"
    using fp [OF v(2)] fp [OF v(3)] assms(2) by (auto simp: anchor_ok_def)
  moreover have "get_str e ''tls_san'' 256 c2 = an_san a" "get_str e ''tls_cn'' 64 c2 = an_cn a" "get_str e ''tls_self'' 128 c2 = an_server_self a"
    using assms(2) str [OF v(4)] str [OF v(5)] str [OF v(6)] by (simp_all add: get_str_def anchor_ok_def)
  ultimately show ?thesis using assms(4) by (cases "an_kind a") (simp_all add: anchor_load_def Let_def)
qed

lemma demo_view: "nvs_view demo_env map_of"
  by (auto simp: nvs_view_def demo_env_def)

theorem tls_anchor_round_trip_witness:
  "let c = snd (anchor_store demo_env demo_anchor [])
   in tl_anchor (anchor_load demo_env ((demo_tls zero_anchor)\<lparr>tl_ctx := c\<rparr>)) = demo_anchor \<and>
      tl_loaded (anchor_load demo_env ((demo_tls zero_anchor)\<lparr>tl_ctx := c\<rparr>))"
  unfolding Let_def
  by (rule tls_anchor_round_trip [OF demo_view, where c = "[]" and ?c2.0 = "snd (anchor_store demo_env demo_anchor [])"])
    (simp_all add: anchor_ok_def demo_anchor_def zero_anchor_def zero_fp_def anchor_store_def anchor_puts_def demo_env_def note_err_def)

subsection \<open>The document fits its buffer\<close>

lemma length_dec_of_int: "\<bar>i\<bar> < 10 ^ 19 \<Longrightarrow> length (dec_of_int i) \<le> 20"
proof -
  assume "\<bar>i\<bar> < 10 ^ 19"
  then have "nat \<bar>i\<bar> < 10 ^ Suc 18" by (simp add: nat_less_iff)
  from length_dec_of_nat [OF this] show ?thesis by (auto simp: dec_of_int_def abs_if split: if_splits)
qed

text \<open>No print into the 1024 bytes of the status document is cut short, so the offsets of the source stay inside it.\<close>

lemma tls_doc_fits:
  assumes "anchor_ok (tl_anchor s)" and "\<bar>an_pinned_unix (tl_anchor s)\<bar> < 2 ^ 63" and "length (tl_seen_fp s) \<le> 64"
  shows "length (tls_doc s) < 1024"
proof -
  have k: "length (kind_str k) \<le> 4" for k by (cases k) simp_all
  have t: "length (trust_str (tl_trust s)) \<le> 6" by (cases "tl_trust s") simp_all
  have "length (dec_of_int (an_pinned_unix (tl_anchor s))) \<le> 20" using assms(2) by (intro length_dec_of_int) simp
  then have "length (pinned_doc (tl_anchor s)) \<le> 480"
    using assms(1) k [of "an_kind (tl_anchor s)"] by (simp add: pinned_doc_def anchor_ok_def)
  with t assms(3) show ?thesis by (simp add: tls_doc_def min_def)
qed

end
