(* ===== verification/Sdlog_Hash.thy ===== *)
theory Sdlog_Hash
  imports Espos_Prelude
begin

unbundle bit_operations_syntax

text \<open>
  The checksums of the session log, src/components/espos_sdlog/src/sdlog_sha256.c: SHA-256 and CRC-32.

  The buffer of the hash is the list of its 64 bytes with the number that is used. The loop over the input takes at
  least one byte in each round while the buffer is not full, so the input's length is fuel enough; the padding loop
  ends after at most 64 rounds. Data are lists of bytes.
\<close>

subsection \<open>SHA-256\<close>

text \<open>The round constants of the standard, row by row as the source has them.\<close>

definition sha_K :: "u32 list" where
  "sha_K =
     concat
     [[0x428a2f98, 0x71374491, 0xb5c0fbcf, 0xe9b5dba5, 0x3956c25b, 0x59f111f1, 0x923f82a4, 0xab1c5ed5],
      [0xd807aa98, 0x12835b01, 0x243185be, 0x550c7dc3, 0x72be5d74, 0x80deb1fe, 0x9bdc06a7, 0xc19bf174],
      [0xe49b69c1, 0xefbe4786, 0x0fc19dc6, 0x240ca1cc, 0x2de92c6f, 0x4a7484aa, 0x5cb0a9dc, 0x76f988da],
      [0x983e5152, 0xa831c66d, 0xb00327c8, 0xbf597fc7, 0xc6e00bf3, 0xd5a79147, 0x06ca6351, 0x14292967],
      [0x27b70a85, 0x2e1b2138, 0x4d2c6dfc, 0x53380d13, 0x650a7354, 0x766a0abb, 0x81c2c92e, 0x92722c85],
      [0xa2bfe8a1, 0xa81a664b, 0xc24b8b70, 0xc76c51a3, 0xd192e819, 0xd6990624, 0xf40e3585, 0x106aa070],
      [0x19a4c116, 0x1e376c08, 0x2748774c, 0x34b0bcb5, 0x391c0cb3, 0x4ed8aa4a, 0x5b9cca4f, 0x682e6ff3],
      [0x748f82ee, 0x78a5636f, 0x84c87814, 0x8cc70208, 0x90befffa, 0xa4506ceb, 0xbef9a3f7, 0xc67178f2]]"

definition ROR :: "u32 \<Rightarrow> nat \<Rightarrow> u32" where
  "ROR x n = drop_bit n x OR push_bit (32 - n) x"

text \<open>The first 16 words of the schedule are the block's, big-endian.\<close>

definition block_word :: "u8 list \<Rightarrow> nat \<Rightarrow> u32" where
  "block_word p i =
     push_bit 24 (ucast (p ! (4 * i))) OR push_bit 16 (ucast (p ! (4 * i + 1))) OR push_bit 8 (ucast (p ! (4 * i + 2))) OR ucast (p ! (4 * i + 3))"

definition next_word :: "u32 list \<Rightarrow> u32" where
  "next_word w =
     (let i = length w;
          s0 = ROR (w ! (i - 15)) 7 XOR ROR (w ! (i - 15)) 18 XOR drop_bit 3 (w ! (i - 15));
          s1 = ROR (w ! (i - 2)) 17 XOR ROR (w ! (i - 2)) 19 XOR drop_bit 10 (w ! (i - 2))
      in w ! (i - 16) + s0 + w ! (i - 7) + s1)"

fun extend_words :: "nat \<Rightarrow> u32 list \<Rightarrow> u32 list" where
  "extend_words 0 w = w"
| "extend_words (Suc n) w = extend_words n (w @ [next_word w])"

type_synonym sha_vars = "u32 \<times> u32 \<times> u32 \<times> u32 \<times> u32 \<times> u32 \<times> u32 \<times> u32"

definition sha_round :: "sha_vars \<Rightarrow> u32 \<times> u32 \<Rightarrow> sha_vars" where
  "sha_round v kw =
     (case v of (a, b, c, d, e, f, g, k) \<Rightarrow>
      case kw of (K, w) \<Rightarrow>
        let t1 = k + (ROR e 6 XOR ROR e 11 XOR ROR e 25) + ((e AND f) XOR (NOT e AND g)) + K + w;
            t2 = (ROR a 2 XOR ROR a 13 XOR ROR a 22) + ((a AND b) XOR (a AND c) XOR (b AND c))
        in (t1 + t2, a, b, c, d + t1, e, f, g))"

definition sha_block :: "u32 list \<Rightarrow> u8 list \<Rightarrow> u32 list" where
  "sha_block h p =
     (let w = extend_words 48 (map (block_word p) [0..<16])
      in case foldl sha_round (h ! 0, h ! 1, h ! 2, h ! 3, h ! 4, h ! 5, h ! 6, h ! 7) (zip sha_K w) of
           (a, b, c, d, e, f, g, k) \<Rightarrow>
             [h ! 0 + a, h ! 1 + b, h ! 2 + c, h ! 3 + d, h ! 4 + e, h ! 5 + f, h ! 6 + g, h ! 7 + k])"

record sha256 =
  sh_h :: "u32 list"
  sh_len :: u64
  sh_buf :: "u8 list"
  sh_used :: nat

definition sha_iv :: "u32 list" where
  "sha_iv = [0x6a09e667, 0xbb67ae85, 0x3c6ef372, 0xa54ff53a, 0x510e527f, 0x9b05688c, 0x1f83d9ab, 0x5be0cd19]"

text \<open>The rest of the buffer keeps what it had; a session's is zeroed.\<close>

definition espos_sdlog_sha256_init :: "u8 list \<Rightarrow> sha256" where
  "espos_sdlog_sha256_init buf = \<lparr>sh_h = sha_iv, sh_len = 0, sh_buf = buf, sh_used = 0\<rparr>"

fun sha_feed :: "nat \<Rightarrow> u8 list \<Rightarrow> sha256 \<Rightarrow> sha256" where
  "sha_feed 0 p c = c"
| "sha_feed (Suc fuel) p c =
     (if p = [] then c
      else
        (let k = (if 64 - sh_used c > length p then length p else 64 - sh_used c);
             buf = take (sh_used c) (sh_buf c) @ take k p @ drop (sh_used c + k) (sh_buf c);
             c = c\<lparr>sh_buf := buf, sh_used := sh_used c + k\<rparr>;
             c = (if sh_used c = 64 then c\<lparr>sh_h := sha_block (sh_h c) (sh_buf c), sh_used := 0\<rparr> else c)
         in sha_feed fuel (drop k p) c))"

definition espos_sdlog_sha256_update :: "sha256 \<Rightarrow> u8 list \<Rightarrow> sha256" where
  "espos_sdlog_sha256_update c data = sha_feed (length data) data (c\<lparr>sh_len := sh_len c + of_nat (length data)\<rparr>)"

fun pad_zeros :: "nat \<Rightarrow> sha256 \<Rightarrow> sha256" where
  "pad_zeros 0 c = c"
| "pad_zeros (Suc fuel) c = (if sh_used c = 56 then c else pad_zeros fuel (espos_sdlog_sha256_update c [0]))"

definition len_bytes :: "u64 \<Rightarrow> u8 list" where
  "len_bytes bits = map (\<lambda>i. ucast (drop_bit (56 - 8 * i) bits)) [0..<8]"

definition sha_hex_char :: "u8 \<Rightarrow> char" where
  "sha_hex_char d = ''0123456789abcdef'' ! unat d"

definition word_hex :: "u32 \<Rightarrow> string" where
  "word_hex w =
     concat (map (\<lambda>j. let byte = (ucast (drop_bit (24 - 8 * j) w) :: u8) in [sha_hex_char (drop_bit 4 byte), sha_hex_char (byte AND 15)]) [0..<4])"

definition espos_sdlog_sha256_hex :: "sha256 \<Rightarrow> string" where
  "espos_sdlog_sha256_hex c =
     (let bits = sh_len c * 8;
          c = espos_sdlog_sha256_update c [0x80];
          c = pad_zeros 64 c;
          c = espos_sdlog_sha256_update c (len_bytes bits)
      in concat (map (\<lambda>i. word_hex (sh_h c ! i)) [0..<8]))"

subsection \<open>CRC-32\<close>

definition crc_bit :: "u32 \<Rightarrow> u32" where
  "crc_bit crc = drop_bit 1 crc XOR (0xEDB88320 AND (0 - (crc AND 1)))"

definition crc_byte :: "u32 \<Rightarrow> u8 \<Rightarrow> u32" where
  "crc_byte crc b = (crc_bit ^^ 8) (crc XOR ucast b)"

definition espos_sdlog_crc32 :: "u32 \<Rightarrow> u8 list \<Rightarrow> u32" where
  "espos_sdlog_crc32 crc data = NOT (foldl crc_byte (NOT crc) data)"

text \<open>A CRC is continued from its value.\<close>

lemma crc32_append: "espos_sdlog_crc32 (espos_sdlog_crc32 crc a) b = espos_sdlog_crc32 crc (a @ b)"
  by (simp add: espos_sdlog_crc32_def)

subsection \<open>The hash of a message\<close>

text \<open>
  The digest of a whole message with the compression above: the message is padded to whole blocks, which are compressed in order.
  That it is the SHA-256 of the standard, stated on its own, is shown in theory Sdlog_Fips.
\<close>

function blocks64 :: "u8 list \<Rightarrow> u8 list list" where
  "blocks64 xs = (if length xs < 64 then [] else take 64 xs # blocks64 (drop 64 xs))"
  by auto
termination by (relation "measure length") auto

declare blocks64.simps [simp del]

definition sha_pad :: "u8 list \<Rightarrow> u8 list" where
  "sha_pad msg = msg @ [0x80] @ replicate ((119 - length msg mod 64) mod 64) 0 @ len_bytes (of_nat (length msg) * 8)"

definition sha_compress :: "u8 list \<Rightarrow> u32 list" where
  "sha_compress xs = foldl sha_block sha_iv (blocks64 xs)"

definition sha256_of :: "u8 list \<Rightarrow> string" where
  "sha256_of msg = concat (map (\<lambda>i. word_hex (sha_compress (sha_pad msg) ! i)) [0..<8])"

lemma blocks64_append:
  "length xs mod 64 = 0 \<Longrightarrow> blocks64 (xs @ ys) = blocks64 xs @ blocks64 ys"
proof (induction xs rule: blocks64.induct)
  case (1 xs)
  show ?case
  proof (cases "length xs < 64")
    case True
    with 1 have "xs = []" by simp
    then show ?thesis by (simp add: blocks64.simps [of "[]"])
  next
    case False
    have "length (drop 64 xs) mod 64 = 0" using "1.prems" False by (simp add: le_mod_geq)
    with False "1.IH" show ?thesis by (simp add: blocks64.simps [of xs] blocks64.simps [of "xs @ ys"])
  qed
qed

text \<open>The context after some data: the whole blocks are compressed, the rest waits in the buffer.\<close>

definition sha_after :: "u8 list \<Rightarrow> sha256 \<Rightarrow> bool" where
  "sha_after d c \<longleftrightarrow>
     length (sh_buf c) = 64 \<and> sh_used c = length d mod 64 \<and>
     take (sh_used c) (sh_buf c) = drop (length d - length d mod 64) d \<and>
     sh_h c = sha_compress (take (length d - length d mod 64) d)"

lemma sha_after_Nil: "length buf = 64 \<Longrightarrow> sha_after [] (espos_sdlog_sha256_init buf)"
  by (simp add: sha_after_def espos_sdlog_sha256_init_def sha_compress_def blocks64.simps [of "[]"])

lemma sha_after_len [simp]: "sha_after d (c\<lparr>sh_len := n\<rparr>) = sha_after d c"
  by (simp add: sha_after_def)

text \<open>One round of the loop.\<close>

definition feed_round :: "u8 list \<Rightarrow> sha256 \<Rightarrow> sha256" where
  "feed_round q c =
     (let buf = take (sh_used c) (sh_buf c) @ q @ drop (sh_used c + length q) (sh_buf c);
          c = c\<lparr>sh_buf := buf, sh_used := sh_used c + length q\<rparr>
      in if sh_used c = 64 then c\<lparr>sh_h := sha_block (sh_h c) (sh_buf c), sh_used := 0\<rparr> else c)"

lemma sha_after_round:
  assumes "sha_after d c" and "length q \<le> 64 - sh_used c"
  shows "sha_after (d @ q) (feed_round q c)"
proof -
  let ?m = "length d mod 64"
  let ?w = "take (length d - ?m) d" and ?r = "drop (length d - ?m) d"
  have u: "sh_used c = ?m" and b: "length (sh_buf c) = 64" and r: "take (sh_used c) (sh_buf c) = ?r" and h: "sh_h c = sha_compress ?w"
    using assms(1) by (auto simp: sha_after_def)
  have lr: "length ?r = ?m" by simp
  have lw: "length ?w mod 64 = 0" by (simp add: minus_mod_eq_mult_div)
  have q: "?m + length q \<le> 64" using assms(2) u by (simp add: le_diff_conv2)
  show ?thesis
  proof (cases "?m + length q = 64")
    case True
    then have m: "(length d + length q) mod 64 = 0" by (metis mod_add_left_eq mod_self)
    have "blocks64 (?r @ q) = [?r @ q]"
      using True lr by (simp add: blocks64.simps [of "?r @ q"] blocks64.simps [of "[]"])
    then have "sha_compress (?w @ (?r @ q)) = sha_block (sha_compress ?w) (?r @ q)"
      unfolding sha_compress_def blocks64_append [OF lw] by simp
    moreover have "?w @ (?r @ q) = d @ q" unfolding append_assoc [symmetric] by simp
    ultimately have "sha_compress (d @ q) = sha_block (sha_compress ?w) (?r @ q)" by simp
    then show ?thesis using True u b r h m
      by (simp add: feed_round_def sha_after_def Let_def)
  next
    case False
    with q have "(length d + length q) mod 64 = ?m + length q" by (metis le_neq_implies_less mod_add_left_eq mod_less)
    moreover from this have "length d + length q - (?m + length q) = length d - ?m" by simp
    ultimately show ?thesis using False q u b r h lr
      by (auto simp: feed_round_def sha_after_def Let_def)
  qed
qed

lemma sha_feed_round:
  "p \<noteq> [] \<Longrightarrow> k = min (64 - sh_used c) (length p) \<Longrightarrow> sha_feed (Suc fuel) p c = sha_feed fuel (drop k p) (feed_round (take k p) c)"
  by (auto simp: feed_round_def Let_def min_def)

lemma sha_after_feed: "sha_after d c \<Longrightarrow> length p \<le> fuel \<Longrightarrow> sha_after (d @ p) (sha_feed fuel p c)"
proof (induction fuel arbitrary: d p c)
  case (Suc fuel)
  show ?case
  proof (cases "p = []")
    case False
    define k where "k = min (64 - sh_used c) (length p)"
    have "sh_used c < 64" using Suc.prems(1) by (simp add: sha_after_def)
    then have "0 < k" using False by (simp add: k_def)
    have "sha_after (d @ take k p) (feed_round (take k p) c)"
      by (rule sha_after_round [OF Suc.prems(1)]) (simp add: k_def)
    moreover have "length (drop k p) \<le> fuel" using Suc.prems(2) \<open>0 < k\<close> by simp
    ultimately have "sha_after ((d @ take k p) @ drop k p) (sha_feed fuel (drop k p) (feed_round (take k p) c))" by (rule Suc.IH)
    then show ?thesis using sha_feed_round [OF False k_def] by simp
  qed (use Suc.prems in simp)
qed simp

lemma sha_after_update: "sha_after d c \<Longrightarrow> sha_after (d @ p) (espos_sdlog_sha256_update c p)"
  unfolding espos_sdlog_sha256_update_def by (rule sha_after_feed) simp_all

lemma sh_len_feed: "sh_len (sha_feed fuel p c) = sh_len c"
  by (induction fuel p c rule: sha_feed.induct) (simp_all add: Let_def)

lemma sh_len_update [simp]: "sh_len (espos_sdlog_sha256_update c p) = sh_len c + of_nat (length p)"
  by (simp add: espos_sdlog_sha256_update_def sh_len_feed)

lemma pad_count: "m < 64 \<Longrightarrow> (120 - m) mod 64 = (if m \<le> 56 then 56 - m else 120 - m)" for m :: nat
  by (simp add: le_mod_geq)

lemma pad_step:
  fixes m :: nat
  assumes "m < 64" and "m \<noteq> 56"
  shows "(120 - m) mod 64 = Suc ((120 - (if m = 63 then 0 else Suc m)) mod 64)"
proof (cases "m = 63")
  case False
  then have "Suc m < 64" using assms by simp
  then show ?thesis using assms pad_count [of m] pad_count [of "Suc m"] by auto
qed simp

lemma pad_zeros_after:
  "sha_after d c \<Longrightarrow> (56 + 64 - length d mod 64) mod 64 < fuel \<Longrightarrow>
   sha_after (d @ replicate ((56 + 64 - length d mod 64) mod 64) 0) (pad_zeros fuel c)"
proof (induction fuel arbitrary: d c)
  case (Suc fuel)
  have u: "sh_used c = length d mod 64" using Suc.prems(1) by (simp add: sha_after_def)
  show ?case
  proof (cases "sh_used c = 56")
    case True
    then show ?thesis using Suc.prems u by simp
  next
    case False
    let ?z = "\<lambda>d. (120 - length d mod 64) mod (64 :: nat)"
    have "length d mod 64 \<noteq> 56" using False u by simp
    moreover have "length (d @ [0 :: u8]) mod 64 = (if length d mod 64 = 63 then 0 else Suc (length d mod 64))" by (simp add: mod_Suc)
    ultimately have z: "?z d = Suc (?z (d @ [0]))" using pad_step [of "length d mod 64"] by simp
    have "sha_after (d @ [0]) (espos_sdlog_sha256_update c [0])" by (rule sha_after_update [OF Suc.prems(1)])
    moreover have "(56 + 64 - length (d @ [0 :: u8]) mod 64) mod 64 < fuel" using Suc.prems(2) z by simp
    ultimately have "sha_after ((d @ [0]) @ replicate ((56 + 64 - length (d @ [0 :: u8]) mod 64) mod 64) 0) (pad_zeros fuel (espos_sdlog_sha256_update c [0]))"
      by (rule Suc.IH)
    then show ?thesis using False z by simp
  qed
qed simp

lemma sha_after_foldl:
  "sha_after d c \<Longrightarrow> sha_after (d @ concat ds) (foldl espos_sdlog_sha256_update c ds) \<and>
     sh_len (foldl espos_sdlog_sha256_update c ds) = sh_len c + of_nat (length (concat ds))"
proof (induction ds arbitrary: c d)
  case (Cons x ds)
  from Cons.IH [OF sha_after_update [OF Cons.prems, of x]] show ?case by simp
qed simp

text \<open>Finishing a context that has seen \<open>d\<close>.\<close>

lemma sha256_hex_after:
  assumes "sha_after d c" and "sh_len c = of_nat (length d)"
  shows "espos_sdlog_sha256_hex c = sha256_of d"
proof -
  let ?c1 = "espos_sdlog_sha256_update c [0x80]" and ?d1 = "d @ [0x80]"
  have a1: "sha_after ?d1 ?c1" by (rule sha_after_update [OF assms(1)])
  define z where "z = (56 + 64 - length ?d1 mod 64) mod 64"
  have a2: "sha_after (?d1 @ replicate z 0) (pad_zeros 64 ?c1)"
    unfolding z_def by (rule pad_zeros_after [OF a1]) simp
  define e where "e = (?d1 @ replicate z 0) @ len_bytes (sh_len c * 8)"
  let ?c3 = "espos_sdlog_sha256_update (pad_zeros 64 ?c1) (len_bytes (sh_len c * 8))"
  have a3: "sha_after e ?c3" unfolding e_def by (rule sha_after_update [OF a2])
  have len: "length (len_bytes x) = 8" for x by (simp add: len_bytes_def)
  have "length ?d1 mod 64 + z = 56 \<or> length ?d1 mod 64 + z = 120"
    unfolding z_def using pad_count [of "length ?d1 mod 64"] mod_less_divisor [of 64 "length ?d1"] by (auto simp del: length_append)
  then have "(length ?d1 mod 64 + z) mod 64 = 56" by auto
  then have "(length ?d1 + z) mod 64 = 56" by (simp only: mod_add_left_eq)
  then have "((length ?d1 + z) mod 64 + 8) mod 64 = 0" by simp
  then have "length e mod 64 = 0" unfolding e_def length_append len length_replicate by (simp only: mod_add_left_eq)
  then have h: "sh_h ?c3 = sha_compress e" using a3 by (simp add: sha_after_def)
  have "(119 - length d mod 64) mod 64 = z"
    unfolding z_def by (simp add: mod_Suc)
  then have "sha_pad d = e" using assms(2) by (simp add: sha_pad_def e_def)
  with h show ?thesis by (simp add: espos_sdlog_sha256_hex_def sha256_of_def Let_def)
qed

subsection \<open>A hash that is fed in pieces\<close>

text \<open>What a client of the hash relies on: the pieces do not matter.\<close>

locale streaming_hash =
  fixes start :: 's and feed :: "'s \<Rightarrow> u8 list \<Rightarrow> 's" and finish :: "'s \<Rightarrow> string" and digest :: "u8 list \<Rightarrow> string"
  assumes finish_pieces: "finish (foldl feed start ds) = digest (concat ds)"
begin

text \<open>A state that has been fed \<open>d\<close>, in whatever pieces.\<close>

definition fed :: "u8 list \<Rightarrow> 's \<Rightarrow> bool" where
  "fed d s \<longleftrightarrow> (\<exists>ds. concat ds = d \<and> s = foldl feed start ds)"

lemma fed_start: "fed [] start"
  unfolding fed_def by (rule exI [of _ "[]"]) simp

lemma fed_feed: "fed d s \<Longrightarrow> fed (d @ p) (feed s p)"
proof -
  assume "fed d s"
  then obtain ds where "concat ds = d" "s = foldl feed start ds" by (auto simp: fed_def)
  then show ?thesis unfolding fed_def by (intro exI [of _ "ds @ [p]"]) simp
qed

lemma finish_fed: "fed d s \<Longrightarrow> finish s = digest d"
  by (auto simp: fed_def finish_pieces)

end

definition sha_zero :: sha256 where
  "sha_zero = espos_sdlog_sha256_init (replicate 64 0)"

lemma sha256_pieces:
  "length buf = 64 \<Longrightarrow> espos_sdlog_sha256_hex (foldl espos_sdlog_sha256_update (espos_sdlog_sha256_init buf) ds) = sha256_of (concat ds)"
  using sha_after_foldl [OF sha_after_Nil, of buf ds] by (intro sha256_hex_after) (simp_all add: espos_sdlog_sha256_init_def)

interpretation sha: streaming_hash sha_zero espos_sdlog_sha256_update espos_sdlog_sha256_hex sha256_of
  by unfold_locales (simp add: sha_zero_def sha256_pieces)

end
