(* ===== verification/Sdlog_Fips.thy ===== *)
theory Sdlog_Fips
  imports Complex_Main Sdlog_Hash
begin

unbundle bit_operations_syntax

text \<open>
  SHA-256 as FIPS 180-4 states it, and that the hash of the session log computes it.

  The specification shares no definition with the model of sdlog_sha256.c: it works on bits; its constants are the
  fractional parts of the square and cube roots of the first primes, its rotations are those of the word library, its schedule is the
  recurrence of the standard and its output is written digit by digit from the value of a word.
\<close>

subsection \<open>The standard\<close>

text \<open>Section 4.2.2 and 5.3.3: 32 bits of the fractional parts of the roots of the first primes.\<close>

definition is_prime :: "nat \<Rightarrow> bool" where
  "is_prime p \<longleftrightarrow> 2 \<le> p \<and> (\<forall>d. d dvd p \<longrightarrow> d = 1 \<or> d = p)"

definition first_primes :: "nat list" where
  "first_primes = filter is_prime [2..<312]"

definition root_fraction :: "nat \<Rightarrow> nat \<Rightarrow> u32" where
  "root_fraction k p = word_of_int \<lfloor>frac (root k (real p)) * 2 ^ 32\<rfloor>"

definition fips_K :: "u32 list" where
  "fips_K = map (root_fraction 3) first_primes"

definition fips_H0 :: "u32 list" where
  "fips_H0 = map (root_fraction 2) (take 8 first_primes)"

text \<open>Section 4.1.2.\<close>

definition Ch :: "u32 \<Rightarrow> u32 \<Rightarrow> u32 \<Rightarrow> u32" where
  "Ch x y z = (x AND y) XOR (NOT x AND z)"

definition Maj :: "u32 \<Rightarrow> u32 \<Rightarrow> u32 \<Rightarrow> u32" where
  "Maj x y z = (x AND y) XOR (x AND z) XOR (y AND z)"

definition Sum0 :: "u32 \<Rightarrow> u32" where
  "Sum0 x = word_rotr 2 x XOR word_rotr 13 x XOR word_rotr 22 x"

definition Sum1 :: "u32 \<Rightarrow> u32" where
  "Sum1 x = word_rotr 6 x XOR word_rotr 11 x XOR word_rotr 25 x"

definition sig0 :: "u32 \<Rightarrow> u32" where
  "sig0 x = word_rotr 7 x XOR word_rotr 18 x XOR drop_bit 3 x"

definition sig1 :: "u32 \<Rightarrow> u32" where
  "sig1 x = word_rotr 17 x XOR word_rotr 19 x XOR drop_bit 10 x"

text \<open>Section 5.1.1: a one bit, the fewest zero bits that leave 64 bits to a multiple of 512, and the length.\<close>

definition byte_bits :: "u8 \<Rightarrow> bool list" where
  "byte_bits b = map (bit b) (rev [0..<8])"

definition message_bits :: "u8 list \<Rightarrow> bool list" where
  "message_bits msg = concat (map byte_bits msg)"

definition fips_pad :: "bool list \<Rightarrow> bool list" where
  "fips_pad m =
     m @ [True] @ replicate (nat ((447 - int (length m)) mod 512)) False @ map (bit (length m)) (rev [0..<64])"

text \<open>Section 5.2.1: blocks of 512 bits, each of 16 words, the first bit the most significant.\<close>

definition fips_blocks :: "bool list \<Rightarrow> bool list list" where
  "fips_blocks m = map (\<lambda>i. take 512 (drop (512 * i) m)) [0..<length m div 512]"

definition bits_word :: "bool list \<Rightarrow> u32" where
  "bits_word bs = foldl (\<lambda>n b. 2 * n + of_bool b) 0 bs"

text \<open>Section 6.2.2: the schedule, the 64 steps and the new hash value.\<close>

fun fips_W :: "bool list \<Rightarrow> nat \<Rightarrow> u32" where
  "fips_W M t =
     (if t < 16 then bits_word (take 32 (drop (32 * t) M))
      else sig1 (fips_W M (t - 2)) + fips_W M (t - 7) + sig0 (fips_W M (t - 15)) + fips_W M (t - 16))"

declare fips_W.simps [simp del]

fun fips_step :: "bool list \<Rightarrow> u32 list \<Rightarrow> nat \<Rightarrow> u32 list" where
  "fips_step M [a, b, c, d, e, f, g, h] t =
     (let T1 = h + Sum1 e + Ch e f g + fips_K ! t + fips_W M t;
          T2 = Sum0 a + Maj a b c
      in [T1 + T2, a, b, c, d + T1, e, f, g])"
| "fips_step M v t = v"

definition fips_block :: "u32 list \<Rightarrow> bool list \<Rightarrow> u32 list" where
  "fips_block H M = map2 (+) (foldl (fips_step M) H [0..<64]) H"

text \<open>The digest, as hexadecimal digits.\<close>

definition hex_word :: "u32 \<Rightarrow> string" where
  "hex_word w = map (\<lambda>k. ''0123456789abcdef'' ! (unat w div 16 ^ (7 - k) mod 16)) [0..<8]"

definition fips_sha256 :: "u8 list \<Rightarrow> string" where
  "fips_sha256 msg = concat (map hex_word (foldl fips_block fips_H0 (fips_blocks (fips_pad (message_bits msg)))))"

subsection \<open>The constants\<close>

lemma small_factor:
  assumes "2 \<le> p" and "\<not> is_prime p" shows "\<exists>d. 2 \<le> d \<and> d * d \<le> p \<and> d dvd p"
proof -
  from assms obtain d where d: "d dvd p" "d \<noteq> 1" "d \<noteq> p" by (auto simp: is_prime_def)
  then obtain e where e: "p = d * e" by (elim dvdE)
  have "d \<noteq> 0" "e \<noteq> 0" "e \<noteq> 1" using e d assms(1) by (auto intro: ccontr)
  then have "2 \<le> d" "2 \<le> e" using d(2) by auto
  moreover have "d * d \<le> p \<or> e * e \<le> p" using e by (metis mult_le_mono nat_le_linear)
  ultimately show ?thesis using e by (metis dvd_triv_left dvd_triv_right)
qed

lemma is_prime_small:
  assumes "p < 324"
  shows "is_prime p \<longleftrightarrow> 2 \<le> p \<and> (\<forall>d\<in>{2, 3, 5, 7, 11, 13, 17}. d dvd p \<longrightarrow> p = d)"
proof
  assume "is_prime p"
  then show "2 \<le> p \<and> (\<forall>d\<in>{2, 3, 5, 7, 11, 13, 17}. d dvd p \<longrightarrow> p = d)" by (auto simp: is_prime_def)
next
  assume r: "2 \<le> p \<and> (\<forall>d\<in>{2, 3, 5, 7, 11, 13, 17}. d dvd p \<longrightarrow> p = d)"
  show "is_prime p"
  proof (rule ccontr)
    assume "\<not> is_prime p"
    with r obtain d where d: "2 \<le> d" "d * d \<le> p" "d dvd p" using small_factor by blast
    have "d < 18"
    proof (rule ccontr)
      assume "\<not> d < 18"
      then have "18 * 18 \<le> d * d" by (intro mult_le_mono) simp_all
      with d(2) assms show False by simp
    qed
    then have "d \<in> set [2..<18]" using d(1) by (simp only: set_upt atLeastLessThan_iff)
    then have "\<exists>q\<in>{2, 3, 5, 7, 11, 13, 17}. q dvd d" by (auto simp del: set_upt)
    then obtain q where q: "q \<in> {2, 3, 5, 7, 11, 13, 17}" "q dvd d" by blast
    with d(3) have "q dvd p" by (meson dvd_trans)
    with r q have "p = q" by blast
    moreover have "q \<le> d" using q d(1) by (intro dvd_imp_le) auto
    moreover have "d < d * d" using d(1) by simp
    ultimately show False using d(2) by simp
  qed
qed

lemma first_primes_eq:
  "first_primes =
     [2, 3, 5, 7, 11, 13, 17, 19, 23, 29, 31, 37, 41, 43, 47, 53, 59, 61, 67, 71, 73, 79, 83, 89, 97, 101, 103, 107, 109, 113, 127, 131,
      137, 139, 149, 151, 157, 163, 167, 173, 179, 181, 191, 193, 197, 199, 211, 223, 227, 229, 233, 239, 241, 251, 257, 263, 269, 271,
      277, 281, 283, 293, 307, 311]"
proof -
  have "first_primes = filter (\<lambda>p. 2 \<le> p \<and> (\<forall>d\<in>{2, 3, 5, 7, 11, 13, 17}. d dvd p \<longrightarrow> p = d)) [2..<312]"
    unfolding first_primes_def by (rule filter_cong [OF refl]) (rule is_prime_small, simp only: set_upt atLeastLessThan_iff, simp)
  then show ?thesis by simp
qed

lemma root_fraction_eq:
  fixes i w :: int
  assumes "0 < k" and "0 \<le> i" and "0 \<le> w" and "w < 2 ^ 32"
    and "(i * 2 ^ 32 + w) ^ k \<le> int p * (2 ^ 32) ^ k" and "int p * (2 ^ 32) ^ k < (i * 2 ^ 32 + w + 1) ^ k"
  shows "root_fraction k p = word_of_int w"
proof -
  define x where "x = root k (real p) * 2 ^ 32"
  have x0: "0 \<le> x" using assms(1) by (simp add: x_def real_root_ge_zero)
  have xk: "x ^ k = real p * (2 ^ 32) ^ k" using assms(1) by (simp add: x_def power_mult_distrib)
  have "(of_int ((i * 2 ^ 32 + w) ^ k) :: real) \<le> of_int (int p * (2 ^ 32) ^ k)" using assms(5) by (simp only: of_int_le_iff)
  then have "(of_int (i * 2 ^ 32 + w)) ^ k \<le> x ^ k" by (simp add: xk)
  then have lo: "of_int (i * 2 ^ 32 + w) \<le> x" using x0 assms(1) by (rule_tac power_le_imp_le_base [of _ "k - 1"]) simp_all
  have "of_int (int p * (2 ^ 32) ^ k) < (of_int ((i * 2 ^ 32 + w + 1) ^ k) :: real)" using assms(6) by (simp only: of_int_less_iff)
  then have "x ^ k < (of_int (i * 2 ^ 32 + w + 1)) ^ k" by (simp add: xk)
  then have hi: "x < of_int (i * 2 ^ 32 + w + 1)" using assms(2,3) by (intro power_less_imp_less_base [of x k]) simp_all
  have "\<lfloor>root k (real p)\<rfloor> = i"
  proof (rule floor_unique)
    have "real_of_int i * 2 ^ 32 \<le> x" using lo assms(3) by simp
    then show "real_of_int i \<le> root k (real p)" by (simp add: x_def)
    have "i * 2 ^ 32 + w + 1 \<le> (i + 1) * 2 ^ 32" using assms(4) by simp
    then have "real_of_int (i * 2 ^ 32 + w + 1) \<le> of_int ((i + 1) * 2 ^ 32)" by (simp only: of_int_le_iff)
    with hi have "x < (real_of_int i + 1) * 2 ^ 32" by simp
    then show "root k (real p) < real_of_int i + 1" by (simp add: x_def)
  qed
  then have "frac (root k (real p)) * 2 ^ 32 = x - of_int (i * 2 ^ 32)" by (simp add: frac_def x_def algebra_simps)
  moreover have "\<lfloor>x - of_int (i * 2 ^ 32)\<rfloor> = w" using lo hi by (intro floor_unique) simp_all
  ultimately show ?thesis by (simp add: root_fraction_def)
qed

text \<open>A table of constants is right when each entry passes a test on integers; \<open>i\<close> is the whole part of the root.\<close>

definition fraction_ok :: "nat \<Rightarrow> (int \<Rightarrow> int) \<Rightarrow> nat \<times> u32 \<Rightarrow> bool" where
  "fraction_ok k i pw =
     (case pw of (p, w) \<Rightarrow>
        let n = i (int p) * 2 ^ 32 + uint w
        in 0 \<le> i (int p) \<and> n ^ k \<le> int p * (2 ^ 32) ^ k \<and> int p * (2 ^ 32) ^ k < (n + 1) ^ k)"

lemma root_fraction_ok: "fraction_ok k i (p, w) \<Longrightarrow> 0 < k \<Longrightarrow> root_fraction k p = w"
  using root_fraction_eq [of k "i (int p)" "uint w" p] uint_lt2p [of w] by (simp add: fraction_ok_def Let_def)

lemma root_fractions:
  "0 < k \<Longrightarrow> length ps = length ws \<Longrightarrow> list_all (fraction_ok k i) (zip ps ws) \<Longrightarrow> map (root_fraction k) ps = ws"
proof (induction ps arbitrary: ws)
  case (Cons p ps)
  then obtain w vs where ws: "ws = w # vs" by (cases ws) simp_all
  with Cons.prems have "root_fraction k p = w" by (intro root_fraction_ok [of k i]) simp_all
  with Cons ws show ?case by simp
qed simp

definition cube_whole :: "int \<Rightarrow> int" where
  "cube_whole p = (if p < 8 then 1 else if p < 27 then 2 else if p < 64 then 3 else if p < 125 then 4 else if p < 216 then 5 else 6)"

definition square_whole :: "int \<Rightarrow> int" where
  "square_whole p = (if p < 4 then 1 else if p < 9 then 2 else if p < 16 then 3 else 4)"

lemma sha_K_fips: "fips_K = sha_K"
  unfolding fips_K_def
proof (rule root_fractions [of _ _ _ cube_whole])
  show "list_all (fraction_ok 3 cube_whole) (zip first_primes sha_K)"
    unfolding first_primes_eq sha_K_def by (simp add: fraction_ok_def cube_whole_def)
qed (simp_all add: first_primes_eq sha_K_def)

lemma sha_iv_fips: "fips_H0 = sha_iv"
  unfolding fips_H0_def
proof (rule root_fractions [of _ _ _ square_whole])
  show "list_all (fraction_ok 2 square_whole) (zip (take 8 first_primes) sha_iv)"
    unfolding first_primes_eq sha_iv_def by (simp add: fraction_ok_def square_whole_def)
qed (simp_all add: first_primes_eq sha_iv_def)

subsection \<open>Bits and bytes\<close>

lemma ROR_rotr: "0 < n \<Longrightarrow> n < 32 \<Longrightarrow> ROR x n = word_rotr n x"
proof (rule bit_word_eqI)
  fix i assume n: "0 < n" "n < 32" and i: "i < LENGTH(32)"
  show "bit (ROR x n) i = bit (word_rotr n x) i"
  proof (cases "i + n < 32")
    case True
    then show ?thesis using n i by (auto simp: ROR_def bit_simps add.commute)
  next
    case False
    then have "(i + n) mod 32 = i + n - 32" using n i by (simp add: mod_if)
    moreover have "\<not> bit x (n + i)" using False by (auto dest: bit_imp_le_length)
    moreover have "32 - n \<le> i" "i - (32 - n) = i + n - 32" using False n by simp_all
    ultimately show ?thesis using n i by (auto simp: ROR_def bit_simps add.commute)
  qed
qed

lemma length_byte_bits [simp]: "length (byte_bits b) = 8"
  by (simp add: byte_bits_def)

lemma length_message_bits [simp]: "length (message_bits p) = 8 * length p"
  by (induction p) (simp_all add: message_bits_def)

lemma message_bits_append: "message_bits (p @ q) = message_bits p @ message_bits q"
  by (simp add: message_bits_def)

lemma byte_bits_nth: "n < 8 \<Longrightarrow> byte_bits b ! n = bit b (7 - n)"
  by (simp add: byte_bits_def rev_nth)

lemma message_bits_nth: "n < 8 * length p \<Longrightarrow> message_bits p ! n = bit (p ! (n div 8)) (7 - n mod 8)"
proof (induction p arbitrary: n)
  case (Cons b p)
  show ?case
  proof (cases "n < 8")
    case True
    then show ?thesis by (simp add: message_bits_def nth_append byte_bits_nth)
  next
    case False
    then have "n - 8 < 8 * length p" using Cons.prems by simp
    from Cons.IH [OF this] have "message_bits p ! (n - 8) = bit (p ! ((n - 8) div 8)) (7 - (n - 8) mod 8)" .
    moreover have "n div 8 = Suc ((n - 8) div 8)" "n mod 8 = (n - 8) mod 8" using False by (simp_all add: le_div_geq le_mod_geq)
    ultimately show ?thesis using False by (simp add: message_bits_def nth_append)
  qed
qed (simp add: message_bits_def)

lemma message_bits_drop: "drop (8 * n) (message_bits p) = message_bits (drop n p)"
proof (induction n arbitrary: p)
  case (Suc n)
  then show ?case by (cases p) (simp_all add: message_bits_def)
qed simp

lemma message_bits_take: "take (8 * n) (message_bits p) = message_bits (take n p)"
proof (induction n arbitrary: p)
  case (Suc n)
  then show ?case by (cases p) (simp_all add: message_bits_def)
qed (simp add: message_bits_def)

text \<open>A word read from its bits.\<close>

lemma bits_word_horner: "bits_word bs = horner_sum of_bool 2 (rev bs)"
  unfolding bits_word_def by (induction bs rule: rev_induct) (simp_all add: algebra_simps)

lemma bit_bits_word: "bit (bits_word bs) i \<longleftrightarrow> i < 32 \<and> i < length bs \<and> bs ! (length bs - Suc i)"
  by (auto simp: bits_word_horner bit_simps rev_nth)

lemma block_word_bits:
  assumes "length p = 64" and "t < 16"
  shows "block_word p t = bits_word (take 32 (drop (32 * t) (message_bits p)))"
proof (rule bit_word_eqI)
  fix i assume "i < LENGTH(32)"
  then have i: "i < 32" by simp
  have n: "32 * t + (31 - i) < 8 * length p" using assms i by simp
  have "(32 * t + (31 - i)) div 8 = 4 * t + (3 - i div 8)" "(32 * t + (31 - i)) mod 8 = 7 - i mod 8"
  proof -
    have "i = 8 * (i div 8) + i mod 8" "i div 8 < 4" "i mod 8 < 8" using i by auto
    then have e: "32 * t + (31 - i) = (7 - i mod 8) + (4 * t + (3 - i div 8)) * 8" by presburger
    have "(7 - i mod 8 + q * 8) div 8 = q" "(7 - i mod 8 + q * 8) mod 8 = 7 - i mod 8" for q
      unfolding mod_mult_self1 by (simp_all only: div_mult_self1) simp_all
    then show "(32 * t + (31 - i)) div 8 = 4 * t + (3 - i div 8)" "(32 * t + (31 - i)) mod 8 = 7 - i mod 8" unfolding e by blast+
  qed
  then have r: "bit (bits_word (take 32 (drop (32 * t) (message_bits p)))) i = bit (p ! (4 * t + (3 - i div 8))) (i mod 8)"
    using message_bits_nth [OF n] i assms by (simp add: bit_bits_word)
  have top: "\<not> bit b j" if "8 \<le> j" for b :: u8 and j using that by (auto dest: bit_imp_le_length)
  consider "i < 8" | "8 \<le> i" "i < 16" | "16 \<le> i" "i < 24" | "24 \<le> i" using i by linarith
  then have "bit (block_word p t) i = bit (p ! (4 * t + (3 - i div 8))) (i mod 8)"
  proof cases
    case 1
    then show ?thesis by (auto simp: block_word_def bit_simps)
  next
    case 2
    then have "i div 8 = 1" "i mod 8 = i - 8" by (simp_all add: div_if mod_if)
    then show ?thesis using 2 top by (auto simp: block_word_def bit_simps)
  next
    case 3
    then have "i div 8 = 2" "i mod 8 = i - 16" by presburger+
    then show ?thesis using 3 top by (auto simp: block_word_def bit_simps)
  next
    case 4
    then have "i div 8 = 3" "i mod 8 = i - 24" using i by presburger+
    then show ?thesis using 4 i top by (auto simp: block_word_def bit_simps)
  qed
  then show "bit (block_word p t) i = bit (bits_word (take 32 (drop (32 * t) (message_bits p)))) i" unfolding r .
qed

subsection \<open>One block\<close>

lemma next_word_fips:
  assumes "16 \<le> m" shows "next_word (map (fips_W M) [0..<m]) = fips_W M m"
proof -
  have w: "map (fips_W M) [0..<m] ! (m - j) = fips_W M (m - j)" if "0 < j" "j \<le> 16" for j using that assms by simp
  show ?thesis using assms
    by (subst fips_W.simps) (simp add: next_word_def w ROR_rotr sig0_def sig1_def algebra_simps)
qed

lemma extend_words_fips: "16 \<le> m \<Longrightarrow> extend_words n (map (fips_W M) [0..<m]) = map (fips_W M) [0..<m + n]"
proof (induction n arbitrary: m)
  case (Suc n)
  have "map (fips_W M) [0..<m] @ [next_word (map (fips_W M) [0..<m])] = map (fips_W M) [0..<Suc m]"
    using next_word_fips [OF Suc.prems] by simp
  with Suc.IH [of "Suc m"] Suc.prems show ?case by simp
qed simp

fun vars_list :: "sha_vars \<Rightarrow> u32 list" where
  "vars_list (a, b, c, d, e, f, g, h) = [a, b, c, d, e, f, g, h]"

lemma sha_round_fips: "vars_list (sha_round v (fips_K ! t, fips_W M t)) = fips_step M (vars_list v) t"
proof (cases v rule: vars_list.cases)
  case (1 a b c d e f g h)
  then show ?thesis by (simp add: sha_round_def Let_def ROR_rotr Sum0_def Sum1_def Ch_def Maj_def)
qed

lemma sha_rounds_fips:
  "vars_list (foldl sha_round v (map (\<lambda>t. (fips_K ! t, fips_W M t)) ts)) = foldl (fips_step M) (vars_list v) ts"
  by (induction ts arbitrary: v) (simp_all add: sha_round_fips)

lemma sha_block_fips:
  assumes "length H = 8" and "length p = 64" shows "sha_block H p = fips_block H (message_bits p)"
proof -
  let ?M = "message_bits p"
  obtain a b c d e f g h where H: "H = [a, b, c, d, e, f, g, h]"
    using assms(1) by (auto simp: length_Suc_conv numeral_eq_Suc)
  have "map (block_word p) [0..<16] = map (fips_W ?M) [0..<16]"
    using block_word_bits [OF assms(2)] by (intro map_cong refl) (simp add: fips_W.simps)
  then have "extend_words 48 (map (block_word p) [0..<16]) = extend_words 48 (map (fips_W ?M) [0..<16])" by (rule arg_cong)
  also have "\<dots> = map (fips_W ?M) [0..<64]" using extend_words_fips [of 16 48 ?M] by (simp del: upt_rec_numeral)
  finally have w: "extend_words 48 (map (block_word p) [0..<16]) = map (fips_W ?M) [0..<64]" .
  have "length fips_K = 64" by (simp add: fips_K_def first_primes_eq)
  then have z: "zip sha_K (map (fips_W ?M) [0..<64]) = map (\<lambda>t. (fips_K ! t, fips_W ?M t)) [0..<64]"
    unfolding sha_K_fips [symmetric] by (intro nth_equalityI) (simp_all del: upt_rec_numeral)
  obtain a' b' c' d' e' f' g' h' where
    r: "foldl sha_round (a, b, c, d, e, f, g, h) (zip sha_K (map (fips_W ?M) [0..<64])) = (a', b', c', d', e', f', g', h')"
    by (metis surj_pair)
  have "foldl (fips_step ?M) H [0..<64] = [a', b', c', d', e', f', g', h']"
    using sha_rounds_fips [of "(a, b, c, d, e, f, g, h)" ?M "[0..<64]"] r by (simp add: z H del: upt_rec_numeral)
  then show ?thesis using r unfolding sha_block_def fips_block_def w
    by (simp add: H add.commute del: upt_rec_numeral)
qed

lemma length_sha_block [simp]: "length (sha_block H p) = 8"
  by (simp add: sha_block_def Let_def split: prod.split)

subsection \<open>The whole message\<close>

lemma blocks64_index: "blocks64 xs = map (\<lambda>i. take 64 (drop (64 * i) xs)) [0..<length xs div 64]"
proof (induction xs rule: blocks64.induct)
  case (1 xs)
  show ?case
  proof (cases "length xs < 64")
    case True
    then show ?thesis by (simp add: blocks64.simps [of xs])
  next
    case False
    then have n: "length xs div 64 = Suc (length (drop 64 xs) div 64)" by (simp add: le_div_geq)
    have "[0..<length xs div 64] = 0 # map Suc [0..<length (drop 64 xs) div 64]" unfolding n by (simp add: upt_conv_Cons map_Suc_upt)
    with "1.IH" False show ?thesis by (simp add: blocks64.simps [of xs] comp_def add.commute)
  qed
qed

lemma blocks_fips: "map message_bits (blocks64 xs) = fips_blocks (message_bits xs)"
proof -
  have "message_bits (take 64 (drop (64 * i) xs)) = take 512 (drop (512 * i) (message_bits xs))" for i
    using message_bits_drop [of "64 * i" xs] message_bits_take [of 64 "drop (64 * i) xs"] by simp
  then show ?thesis by (simp add: blocks64_index fips_blocks_def)
qed

lemma length_blocks64: "p \<in> set (blocks64 xs) \<Longrightarrow> length p = 64"
proof -
  assume "p \<in> set (blocks64 xs)"
  then obtain i where "i < length xs div 64" "p = take 64 (drop (64 * i) xs)" by (auto simp: blocks64_index)
  moreover from this have "64 * i + 64 \<le> length xs" by linarith
  ultimately show ?thesis by simp
qed

lemma compress_fips:
  "length H = 8 \<Longrightarrow> \<forall>p\<in>set ps. length p = 64 \<Longrightarrow> foldl sha_block H ps = foldl fips_block H (map message_bits ps)"
  by (induction ps arbitrary: H) (simp_all add: sha_block_fips [symmetric])

lemma len_bytes_bits:
  assumes "n < 2 ^ 61" shows "message_bits (len_bytes (of_nat n * 8)) = map (bit (8 * n)) (rev [0..<64])"
proof (rule nth_equalityI)
  show "length (message_bits (len_bytes (of_nat n * 8))) = length (map (bit (8 * n)) (rev [0..<64]))" by (simp add: len_bytes_def)
  fix j assume "j < length (message_bits (len_bytes (of_nat n * 8)))"
  then have j: "j < 64" by (simp add: len_bytes_def)
  have q: "j div 8 < 8" "j mod 8 < 8" "j = 8 * (j div 8) + j mod 8" using j by auto
  have e: "56 - 8 * (j div 8) + (7 - j mod 8) = 63 - j" "7 - j mod 8 < 8" using q by linarith+
  have w: "of_nat n * 8 = (of_nat (8 * n) :: u64)" by simp
  have "message_bits (len_bytes (of_nat n * 8)) ! j = bit (len_bytes (of_nat n * 8) ! (j div 8)) (7 - j mod 8)"
    using j by (intro message_bits_nth) (simp add: len_bytes_def)
  also have "\<dots> = bit (of_nat (8 * n) :: u64) (63 - j)"
    using q e unfolding w by (simp add: len_bytes_def bit_simps del: of_nat_mult upt_rec_numeral)
  also have "\<dots> = bit (8 * n) (63 - j)" using less_Suc_eq_le [of "63 - j" 63] by (simp add: bit_simps del: of_nat_mult)
  also have "\<dots> = map (bit (8 * n)) (rev [0..<64]) ! j" using j by (simp add: rev_nth del: upt_rec_numeral)
  finally show "message_bits (len_bytes (of_nat n * 8)) ! j = map (bit (8 * n)) (rev [0..<64]) ! j" .
qed

lemma pad_length: "int (8 * ((119 - l mod 64) mod 64) + 7) = (447 - int (8 * l)) mod 512"
proof -
  define m where "m = l mod 64"
  have "int l mod 64 = int m" by (simp add: m_def zmod_int)
  then have "(447 - int (8 * l)) mod 512 = (447 - 8 * int m) mod 512"
    using mult_div_mod_eq [of 64 "int l"] by (intro mod_eq_dvd_iff [THEN iffD2]) presburger
  moreover have "m < 64" by (simp add: m_def)
  moreover have "(447 - 8 * int m) mod 512 = 447 - 8 * int m + (if m \<le> 55 then 0 else 512)" if "m < 64"
    using that mod_pos_pos_trivial [of "447 - 8 * int m" 512] mod_pos_pos_trivial [of "447 - 8 * int m + 512" 512]
      mod_add_self2 [of "447 - 8 * int m" 512] by (cases "m \<le> 55") simp_all
  moreover have "(119 - m) mod 64 = (if m \<le> 55 then 55 - m else 119 - m)" if "m < 64" using that by (simp add: le_mod_geq)
  ultimately show ?thesis unfolding m_def [symmetric] by (simp split: if_splits)
qed

lemma pad_fips:
  assumes "length msg < 2 ^ 61" shows "message_bits (sha_pad msg) = fips_pad (message_bits msg)"
proof -
  define z where "z = (119 - length msg mod 64) mod 64"
  have "byte_bits 0 = replicate 8 False" by (intro nth_equalityI) (simp_all add: byte_bits_nth)
  then have zeros: "message_bits (replicate k 0) = replicate (8 * k) False" for k
    by (induction k) (simp_all add: message_bits_def replicate_add [symmetric])
  have "byte_bits 0x80 = True # replicate 7 False" by (simp add: byte_bits_def bit_simps upt_rec numeral_eq_Suc)
  then have one: "message_bits (0x80 # replicate z 0) = True # replicate (8 * z + 7) False"
    using zeros [of z] by (simp add: message_bits_def replicate_add [symmetric] add.commute)
  have "int (8 * z + 7) = (447 - int (8 * length msg)) mod 512" unfolding z_def by (rule pad_length)
  then have "nat ((447 - int (8 * length msg)) mod 512) = 8 * z + 7" by linarith
  then show ?thesis using one len_bytes_bits [OF assms]
    by (simp add: sha_pad_def z_def [symmetric] message_bits_append fips_pad_def message_bits_append [of "128 # replicate z 0", simplified])
qed

lemma word_hex_value: "word_hex w = hex_word w"
proof -
  have byte: "unat (ucast (drop_bit s w) :: u8) = unat w div 2 ^ s mod 256" for s
    unfolding unsigned_ucast_eq unat_drop_bit_eq by (simp add: drop_bit_eq_div take_bit_eq_mod)
  have hi: "unat (drop_bit 4 b) = unat b div 16" and lo: "unat (b AND 15) = unat b mod 16" for b :: u8
    unfolding unat_drop_bit_eq unsigned_and_eq using take_bit_eq_mask [of 4 "unat b"]
    by (simp_all add: drop_bit_eq_div take_bit_eq_mod mask_eq_exp_minus_1)
  have "n mod 256 div 16 = n div 16 mod 16" "n mod 256 mod 16 = n mod 16" for n :: nat
    using mod_mult2_eq [of n 16 16] mod_mod_cancel [of 16 256 n] by simp_all
  note digits = this
  have "unat w div 268435456 = unat w div 16777216 div 16" "unat w div 1048576 = unat w div 65536 div 16"
    "unat w div 4096 = unat w div 256 div 16" by (simp_all add: div_mult2_eq [symmetric])
  note steps = this
  show ?thesis unfolding word_hex_def hex_word_def sha_hex_char_def Let_def byte hi lo by (simp add: upt_rec digits steps)
qed

lemma sha256_of_fips:
  assumes "length msg < 2 ^ 61" shows "sha256_of msg = fips_sha256 msg"
proof -
  let ?bs = "blocks64 (sha_pad msg)"
  have "sha_compress (sha_pad msg) = foldl fips_block fips_H0 (map message_bits ?bs)"
    unfolding sha_compress_def sha_iv_fips using length_blocks64 by (intro compress_fips) (auto simp: sha_iv_def)
  also have "map message_bits ?bs = fips_blocks (fips_pad (message_bits msg))" by (simp add: blocks_fips pad_fips [OF assms])
  finally have c: "sha_compress (sha_pad msg) = foldl fips_block fips_H0 (fips_blocks (fips_pad (message_bits msg)))" .
  have "length (sha_compress xs) = 8" for xs
    unfolding sha_compress_def by (cases "blocks64 xs" rule: rev_cases) (simp_all add: sha_iv_def)
  then have "map (\<lambda>i. word_hex (sha_compress (sha_pad msg) ! i)) [0..<8] = map hex_word (sha_compress (sha_pad msg))"
    by (intro nth_equalityI) (simp_all add: word_hex_value del: upt_rec_numeral)
  then show ?thesis by (simp add: sha256_of_def fips_sha256_def c del: upt_rec_numeral)
qed

text \<open>
  C23. However a message of fewer than \<open>2 ^ 61\<close> bytes is split into calls of the hash, the digest is the SHA-256 of FIPS 180-4 of the
  whole message, in hexadecimal. The standard is stated on bits, with constants that are roots of primes; it shares nothing with the code.
\<close>

theorem sdlog_sha256_is_fips:
  assumes "length (concat ds) < 2 ^ 61"
  shows "espos_sdlog_sha256_hex (foldl espos_sdlog_sha256_update (espos_sdlog_sha256_init (replicate 64 b)) ds) = fips_sha256 (concat ds)"
  using sha256_of_fips [OF assms] by (simp add: sha256_pieces)

theorem sdlog_sha256_is_fips_witness:
  "length (concat [[0x61, 0x62], [], [0x63 :: u8]]) < 2 ^ 61 \<and>
   espos_sdlog_sha256_hex (foldl espos_sdlog_sha256_update (espos_sdlog_sha256_init (replicate 64 0)) [[0x61, 0x62], [], [0x63]]) =
     fips_sha256 [0x61, 0x62, 0x63]"
  using sdlog_sha256_is_fips [of "[[0x61, 0x62], [], [0x63]]" 0] by simp

end
