(* ===== verification/Sdlog_Card.thy ===== *)
theory Sdlog_Card
  imports Sdlog_Hash Time_Policy "HOL-Library.AList"
begin

text \<open>
  The card under the session log, as src/components/espos_sdlog/src/sdlog_session.c uses it through stdio and POSIX: the root
  directory with its files and the directories below it.

  A file has the bytes that are on the card, those that were written since and not synced, and how many of these are known to have left
  the buffer of stdio: \<open>fflush\<close> hands over all of them, \<open>fsync\<close> puts on the card only what was handed over. Every call takes the next
  entry of a script: it works, it fails (a write or a read after some of its bytes), or the power is cut in front of
  it, after which nothing happens any more until \<open>power_up\<close>. An exhausted script means that calls work. When the power comes back a
  file has its synced bytes and some part, from the front, of the others. Creating, emptying, renaming,
  truncating and removing take effect on the card at once; a name is not renamed onto an existing one (FatFs). The
  calls for which memory is needed take an entry of the script too. The case of a power cut inside FatFs' own rename, which can leave both
  names on the same data, is left out. A directory entry says whether it is a directory.
\<close>

type_synonym bytes = "u8 list"

record fdata =
  fd_dur :: bytes
  fd_vol :: bytes
  fd_out :: nat

definition content :: "fdata \<Rightarrow> bytes" where
  "content f = fd_dur f @ fd_vol f"

definition synced_file :: "bytes \<Rightarrow> fdata" where
  "synced_file b = \<lparr>fd_dur = b, fd_vol = [], fd_out = 0\<rparr>"

type_synonym directory = "(string \<times> fdata) list"

datatype outcome = Io_Ok | Io_Fail nat | Power_Cut

record card =
  cd_root :: bool
  cd_files :: directory
  cd_dirs :: "(string \<times> directory) list"
  cd_script :: "outcome list"
  cd_on :: bool

datatype place = In_Root | In_Dir string

subsection \<open>Calls\<close>

definition tick :: "card \<Rightarrow> outcome \<times> card" where
  "tick c =
     (if \<not> cd_on c then (Power_Cut, c)
      else case cd_script c of
             [] \<Rightarrow> (Io_Ok, c)
           | o1 # rest \<Rightarrow> (o1, c\<lparr>cd_script := rest, cd_on := (o1 \<noteq> Power_Cut)\<rparr>))"

definition call :: "(card \<Rightarrow> card option) \<Rightarrow> card \<Rightarrow> bool \<times> card" where
  "call f c =
     (case tick c of
        (Io_Ok, c) \<Rightarrow> (case f c of None \<Rightarrow> (False, c) | Some c' \<Rightarrow> (True, c'))
      | (_, c) \<Rightarrow> (False, c))"

fun files_at :: "place \<Rightarrow> card \<Rightarrow> directory option" where
  "files_at In_Root c = (if cd_root c then Some (cd_files c) else None)"
| "files_at (In_Dir d) c = map_of (cd_dirs c) d"

fun set_files :: "place \<Rightarrow> directory \<Rightarrow> card \<Rightarrow> card" where
  "set_files In_Root fs c = c\<lparr>cd_files := fs\<rparr>"
| "set_files (In_Dir d) fs c = c\<lparr>cd_dirs := AList.update d fs (cd_dirs c)\<rparr>"

definition file_at :: "place \<Rightarrow> string \<Rightarrow> card \<Rightarrow> fdata option" where
  "file_at pl nm c = (case files_at pl c of None \<Rightarrow> None | Some fs \<Rightarrow> map_of fs nm)"

text \<open>Put a file under a name of a directory that is there.\<close>

definition put_file :: "place \<Rightarrow> string \<Rightarrow> fdata \<Rightarrow> card \<Rightarrow> card option" where
  "put_file pl nm f c = (case files_at pl c of None \<Rightarrow> None | Some fs \<Rightarrow> Some (set_files pl (AList.update nm f fs) c))"

definition drop_file :: "place \<Rightarrow> string \<Rightarrow> card \<Rightarrow> card option" where
  "drop_file pl nm c =
     (case files_at pl c of
        None \<Rightarrow> None
      | Some fs \<Rightarrow> if map_of fs nm = None then None else Some (set_files pl (AList.delete nm fs) c))"

definition fopen_w :: "place \<Rightarrow> string \<Rightarrow> card \<Rightarrow> bool \<times> card" where
  "fopen_w pl nm = call (put_file pl nm (synced_file []))"

text \<open>\<open>fwrite\<close> and \<open>fputs\<close> at the end of an open file.\<close>

definition add_bytes :: "place \<Rightarrow> string \<Rightarrow> bytes \<Rightarrow> card \<Rightarrow> card option" where
  "add_bytes pl nm b c =
     (case file_at pl nm c of None \<Rightarrow> None | Some f \<Rightarrow> put_file pl nm (f\<lparr>fd_vol := fd_vol f @ b\<rparr>) c)"

definition fwrite :: "place \<Rightarrow> string \<Rightarrow> bytes \<Rightarrow> card \<Rightarrow> bool \<times> card" where
  "fwrite pl nm b c =
     (case tick c of
        (Io_Ok, c) \<Rightarrow> (case add_bytes pl nm b c of None \<Rightarrow> (False, c) | Some c' \<Rightarrow> (True, c'))
      | (Io_Fail n, c) \<Rightarrow> (case add_bytes pl nm (take n b) c of None \<Rightarrow> (False, c) | Some c' \<Rightarrow> (False, c'))
      | (Power_Cut, c) \<Rightarrow> (False, c))"

definition flushed :: "fdata \<Rightarrow> fdata" where
  "flushed f = f\<lparr>fd_out := length (fd_vol f)\<rparr>"

definition fflush :: "place \<Rightarrow> string \<Rightarrow> card \<Rightarrow> bool \<times> card" where
  "fflush pl nm = call (\<lambda>c. case file_at pl nm c of None \<Rightarrow> None | Some f \<Rightarrow> put_file pl nm (flushed f) c)"

definition stored :: "fdata \<Rightarrow> fdata" where
  "stored f = \<lparr>fd_dur = fd_dur f @ take (fd_out f) (fd_vol f), fd_vol = drop (fd_out f) (fd_vol f), fd_out = 0\<rparr>"

definition fsync :: "place \<Rightarrow> string \<Rightarrow> card \<Rightarrow> bool \<times> card" where
  "fsync pl nm = call (\<lambda>c. case file_at pl nm c of None \<Rightarrow> None | Some f \<Rightarrow> put_file pl nm (stored f) c)"

text \<open>
  \<open>fclose\<close> and \<open>malloc\<close>: calls that only work or fail. A file that is closed is not synced any more, so what \<open>fclose\<close> hands over makes
  no difference.
\<close>

definition plain_call :: "card \<Rightarrow> bool \<times> card" where
  "plain_call = call Some"

definition unlink :: "place \<Rightarrow> string \<Rightarrow> card \<Rightarrow> bool \<times> card" where
  "unlink pl nm = call (drop_file pl nm)"

definition rename :: "place \<Rightarrow> string \<Rightarrow> string \<Rightarrow> card \<Rightarrow> bool \<times> card" where
  "rename pl a b =
     call (\<lambda>c. case file_at pl a c of
                 None \<Rightarrow> None
               | Some f \<Rightarrow> if file_at pl b c \<noteq> None then None else Option.bind (drop_file pl a c) (put_file pl b f))"

definition shortened :: "nat \<Rightarrow> fdata \<Rightarrow> fdata" where
  "shortened n f =
     \<lparr>fd_dur = take n (fd_dur f), fd_vol = take (n - length (fd_dur f)) (fd_vol f), fd_out = min (fd_out f) (n - length (fd_dur f))\<rparr>"

definition truncate_file :: "place \<Rightarrow> string \<Rightarrow> nat \<Rightarrow> card \<Rightarrow> bool \<times> card" where
  "truncate_file pl nm n =
     call (\<lambda>c. case file_at pl nm c of None \<Rightarrow> None | Some f \<Rightarrow> put_file pl nm (shortened n f) c)"

definition mkdir :: "string \<Rightarrow> card \<Rightarrow> bool \<times> card" where
  "mkdir d =
     call (\<lambda>c. if cd_root c \<and> map_of (cd_dirs c) d = None \<and> map_of (cd_files c) d = None
                then Some (c\<lparr>cd_dirs := cd_dirs c @ [(d, [])]\<rparr>) else None)"

definition rmdir :: "string \<Rightarrow> card \<Rightarrow> bool \<times> card" where
  "rmdir d = call (\<lambda>c. if map_of (cd_dirs c) d = Some [] then Some (c\<lparr>cd_dirs := AList.delete d (cd_dirs c)\<rparr>) else None)"

text \<open>\<open>stat(path) == 0\<close> for a file, and for a directory.\<close>

definition exists_file :: "place \<Rightarrow> string \<Rightarrow> card \<Rightarrow> bool \<times> card" where
  "exists_file pl nm = call (\<lambda>c. if file_at pl nm c \<noteq> None then Some c else None)"

definition exists_dir :: "string \<Rightarrow> card \<Rightarrow> bool \<times> card" where
  "exists_dir d = call (\<lambda>c. if map_of (cd_dirs c) d \<noteq> None then Some c else None)"

datatype opened = Opened bytes | Absent | Broken

definition fopen_r :: "place \<Rightarrow> string \<Rightarrow> card \<Rightarrow> opened \<times> card" where
  "fopen_r pl nm c =
     (case tick c of
        (Io_Ok, c) \<Rightarrow> ((case file_at pl nm c of None \<Rightarrow> Absent | Some f \<Rightarrow> Opened (content f)), c)
      | (_, c) \<Rightarrow> (Broken, c))"

text \<open>Reading to the end: the bytes that came, and whether all of them did.\<close>

definition fread_all :: "bytes \<Rightarrow> card \<Rightarrow> bytes \<times> bool \<times> card" where
  "fread_all b c =
     (case tick c of
        (Io_Ok, c) \<Rightarrow> (b, True, c)
      | (Io_Fail n, c) \<Rightarrow> (take n b, False, c)
      | (Power_Cut, c) \<Rightarrow> ([], False, c))"

subsection \<open>Power\<close>

definition settle :: "nat \<Rightarrow> fdata \<Rightarrow> fdata" where
  "settle n f = synced_file (fd_dur f @ take n (fd_vol f))"

text \<open>How much of the bytes that were not synced is there again, for every file, and the script of the new boot.\<close>

definition power_up :: "(string \<Rightarrow> string \<Rightarrow> nat) \<Rightarrow> outcome list \<Rightarrow> card \<Rightarrow> card" where
  "power_up kept script c =
     c\<lparr>cd_files := map (\<lambda>(nm, f). (nm, settle (kept [] nm) f)) (cd_files c),
       cd_dirs := map (\<lambda>(d, fs). (d, map (\<lambda>(nm, f). (nm, settle (kept d nm) f)) fs)) (cd_dirs c),
       cd_script := script, cd_on := True\<rparr>"

end
