(* ===== verification/Sdlog_Session.thy ===== *)
theory Sdlog_Session
  imports Sdlog_Card
begin

text \<open>
  Sessions of rows on a card, src/components/espos_sdlog/src/sdlog_session.c.

  The root is one directory of a card (\<open>Sdlog_Card\<close>), its path short enough for the path buffers: \<open>espos_sdlog_open\<close> tests
  this and the other operations are given the same root, so a path is the name of the session's directory and of the
  file in it. A session handle is the record \<open>sdlog_session\<close>; the pointers to results are not NULL, their
  NULL-able strings are options. Counters that cannot overflow in the life of a card are naturals.
\<close>

definition bytes_of :: "string \<Rightarrow> bytes" where
  "bytes_of s = map (\<lambda>c. of_nat (of_char c)) s"

definition chars_of :: "bytes \<Rightarrow> string" where
  "chars_of b = map (\<lambda>x. char_of (unat x)) b"

abbreviation (input) SEQ_DIGITS :: nat where "SEQ_DIGITS \<equiv> 8"
abbreviation (input) PATH_MAX_LEN :: nat where "PATH_MAX_LEN \<equiv> 160"
abbreviation (input) MAX_SEQ :: nat where "MAX_SEQ \<equiv> 99999999"
abbreviation (input) LAST_SEQ_FILE :: string where "LAST_SEQ_FILE \<equiv> ''LASTSEQ.TXT''"
abbreviation (input) LAST_SEQ_TMP :: string where "LAST_SEQ_TMP \<equiv> ''LASTSEQ.TMP''"
abbreviation (input) HEAD_FILE :: string where "HEAD_FILE \<equiv> ''HEAD.JSN''"
abbreviation (input) ROWS_FILE :: string where "ROWS_FILE \<equiv> ''ROWS.TXT''"
abbreviation (input) CLOSE_FILE :: string where "CLOSE_FILE \<equiv> ''CLOSE.JSN''"
abbreviation (input) SYNCED_FILE :: string where "SYNCED_FILE \<equiv> ''SYNCED''"
abbreviation (input) ESPOS_SDLOG_SYNC_EVERY_DEFAULT :: nat where "ESPOS_SDLOG_SYNC_EVERY_DEFAULT \<equiv> 10"
abbreviation ESP_ERR_INVALID_RESPONSE :: esp_err where "ESP_ERR_INVALID_RESPONSE \<equiv> ESP_ERR_CODE 0x108"

record sdlog_session =
  ss_sha :: sha256
  ss_seq :: nat
  ss_rows :: nat
  ss_bytes :: nat
  ss_sync_every :: nat
  ss_unsynced :: nat
  ss_row_crc :: bool
  ss_failed :: bool

record sdlog_info =
  in_seq :: nat
  in_closed :: bool
  in_clean :: bool
  in_synced :: bool
  in_rows :: nat
  in_bytes :: nat
  in_sha256 :: string

subsection \<open>Names and numbers\<close>

text \<open>\<open>%08u\<close>.\<close>

definition seq_name :: "nat \<Rightarrow> string" where
  "seq_name n = replicate (SEQ_DIGITS - length (dec_of_nat n)) (CHR ''0'') @ dec_of_nat n"

definition parse_seq :: "string \<Rightarrow> nat option" where
  "parse_seq name = (case take_digits SEQ_DIGITS 0 name of Some (v, []) \<Rightarrow> Some (nat v) | _ \<Rightarrow> None)"

text \<open>The conversions \<open>%lu\<close> and \<open>%llu\<close> of \<open>scanf\<close>: white space, a sign, digits; \<open>w\<close> is the width of the type.\<close>

definition is_space :: "char \<Rightarrow> bool" where
  "is_space c \<longleftrightarrow> c = CHR '' '' \<or> 9 \<le> (of_char c :: nat) \<and> (of_char c :: nat) \<le> 13"

definition dec_value :: "string \<Rightarrow> nat" where
  "dec_value ds = foldl (\<lambda>v c. v * 10 + (of_char c - 48)) 0 ds"

definition scan_unsigned :: "nat \<Rightarrow> string \<Rightarrow> (nat \<times> string) option" where
  "scan_unsigned w s =
     (let s = dropWhile is_space s;
          neg = (s \<noteq> [] \<and> hd s = CHR ''-'');
          s = (if s \<noteq> [] \<and> (hd s = CHR ''-'' \<or> hd s = CHR ''+'') then tl s else s);
          ds = takeWhile is_digit s;
          v = dec_value ds
      in if ds = [] then None
         else Some ((if 2 ^ w \<le> v then 2 ^ w - 1 else if neg then (2 ^ w - v) mod 2 ^ w else v), dropWhile is_digit s))"

text \<open>The path of a file of a session: the length, 0 when it does not fit, and what is in the buffer.\<close>

definition FILE_NAMES :: "string list" where
  "FILE_NAMES = [HEAD_FILE, ROWS_FILE, CLOSE_FILE, SYNCED_FILE]"

definition espos_sdlog_path :: "string option \<Rightarrow> nat \<Rightarrow> nat \<Rightarrow> nat \<Rightarrow> nat \<times> string option" where
  "espos_sdlog_path root seq which n =
     (case root of
        None \<Rightarrow> (0, None)
      | Some r \<Rightarrow>
          if which > 3 then (0, None)
          else (let p = r @ ''/'' @ seq_name seq @ ''/'' @ FILE_NAMES ! which
                in (if length p \<ge> n then 0 else length p, if n = 0 then None else Some (take (n - 1) p))))"

subsection \<open>The directory listing\<close>

fun scan_loop :: "(string \<times> bool) list \<Rightarrow> nat \<Rightarrow> nat list \<Rightarrow> card \<Rightarrow> esp_err \<times> nat list \<times> card" where
  "scan_loop [] cap acc c = (ESP_OK, acc, c)"
| "scan_loop ((name, is_dir) # rest) cap acc c =
     (case tick c of
        (Io_Ok, c) \<Rightarrow>
          (case parse_seq name of
             None \<Rightarrow> scan_loop rest cap acc c
           | Some q \<Rightarrow>
               if \<not> is_dir then scan_loop rest cap acc c
               else if length acc = cap then
                 (case plain_call c of
                    (ok, c) \<Rightarrow> if \<not> ok then (ESP_ERR_NO_MEM, [], c) else scan_loop rest (if cap = 0 then 16 else cap * 2) (acc @ [q]) c)
               else scan_loop rest cap (acc @ [q]) c)
      | (_, c) \<Rightarrow> (ESP_OK, acc, c))"

definition scan :: "card \<Rightarrow> esp_err \<times> nat list \<times> card" where
  "scan c =
     (case tick c of
        (Io_Ok, c) \<Rightarrow>
          if \<not> cd_root c then (ESP_OK, [], c)
          else (case scan_loop (map (\<lambda>(d, _). (d, True)) (cd_dirs c) @ map (\<lambda>(n, _). (n, False)) (cd_files c)) 0 [] c of
                  (err, seqs, c) \<Rightarrow> (err, sort seqs, c))
      | (_, c) \<Rightarrow> (ESP_FAIL, [], c))"

text \<open>The path of the root: its length and how many directories there are above it. Those exist, so that making one of them answers that it does.\<close>

type_synonym root_path = "nat \<times> nat"

fun mkdir_parents :: "nat \<Rightarrow> card \<Rightarrow> bool \<times> card" where
  "mkdir_parents 0 c = (True, c)"
| "mkdir_parents (Suc k) c =
     (case tick c of
        (Io_Ok, c) \<Rightarrow> mkdir_parents k c
      | (_, c) \<Rightarrow> (case plain_call c of (is_dir, c) \<Rightarrow> if is_dir then mkdir_parents k c else (False, c)))"

definition mkdir_p :: "root_path \<Rightarrow> card \<Rightarrow> esp_err \<times> card" where
  "mkdir_p root c =
     (if fst root = 0 \<or> fst root \<ge> PATH_MAX_LEN then (ESP_ERR_INVALID_ARG, c)
      else case mkdir_parents (snd root) c of
             (ok, c) \<Rightarrow>
               if \<not> ok then (ESP_FAIL, c)
               else (case call (\<lambda>c. Some (c\<lparr>cd_root := True\<rparr>)) c of
                 (ok, c) \<Rightarrow>
                   if ok then (ESP_OK, c)
                   else (case plain_call c of (ok, c) \<Rightarrow> (if ok \<and> cd_root c then ESP_OK else ESP_FAIL, c))))"

subsection \<open>Files that appear whole\<close>

definition sync_file :: "place \<Rightarrow> string \<Rightarrow> card \<Rightarrow> bool \<times> card" where
  "sync_file pl nm c = (case fflush pl nm c of (ok, c) \<Rightarrow> if \<not> ok then (False, c) else fsync pl nm c)"

fun write_parts :: "place \<Rightarrow> string \<Rightarrow> string list \<Rightarrow> card \<Rightarrow> bool \<times> card" where
  "write_parts pl nm [] c = sync_file pl nm c"
| "write_parts pl nm (p # ps) c = (case fwrite pl nm (bytes_of p) c of (ok, c) \<Rightarrow> if \<not> ok then (False, c) else write_parts pl nm ps c)"

definition write_file_atomic :: "place \<Rightarrow> string \<Rightarrow> string \<Rightarrow> string list \<Rightarrow> card \<Rightarrow> esp_err \<times> card" where
  "write_file_atomic pl tmp dst parts c =
     (case fopen_w pl tmp c of
        (ok, c) \<Rightarrow>
          if \<not> ok then (ESP_FAIL, c)
          else (case write_parts pl tmp parts c of
            (ok, c) \<Rightarrow> (case plain_call c of
              (closed, c) \<Rightarrow>
                if \<not> (closed \<and> ok) then (ESP_FAIL, snd (unlink pl tmp c))
                else (case rename pl tmp dst (snd (unlink pl dst c)) of
                        (ok, c) \<Rightarrow> if \<not> ok then (ESP_FAIL, snd (unlink pl tmp c)) else (ESP_OK, c)))))"

definition read_seq_file :: "string \<Rightarrow> card \<Rightarrow> nat \<times> card" where
  "read_seq_file name c =
     (case fopen_r In_Root name c of
        (Opened b, c) \<Rightarrow>
          (case fread_all b c of
             (b, _, c) \<Rightarrow> ((case scan_unsigned 32 (chars_of b) of None \<Rightarrow> 0 | Some (v, _) \<Rightarrow> if v > MAX_SEQ then 0 else v), c))
      | (_, c) \<Rightarrow> (0, c))"

definition read_last_seq :: "card \<Rightarrow> nat \<times> card" where
  "read_last_seq c =
     (case read_seq_file LAST_SEQ_FILE c of (a, c) \<Rightarrow> case read_seq_file LAST_SEQ_TMP c of (b, c) \<Rightarrow> ((if a > b then a else b), c))"

definition write_last_seq :: "nat \<Rightarrow> card \<Rightarrow> esp_err \<times> card" where
  "write_last_seq seq c = write_file_atomic In_Root LAST_SEQ_TMP LAST_SEQ_FILE [dec_of_nat seq @ [CHR 0x0A]] c"

text \<open>The close record up to its last field.\<close>

definition close_head :: "bool \<Rightarrow> nat \<Rightarrow> nat \<Rightarrow> string \<Rightarrow> string" where
  "close_head clean rows nbytes sha =
     ''{\"closed\":true,\"clean\":'' @ (if clean then ''true'' else ''false'') @ '',\"rows\":'' @ dec_of_nat rows @
     '',\"bytes\":'' @ dec_of_nat nbytes @ '',\"sha256\":\"'' @ sha @ ''\",\"meta\":''"

definition write_close :: "nat \<Rightarrow> bool \<Rightarrow> nat \<Rightarrow> nat \<Rightarrow> string \<Rightarrow> string option \<Rightarrow> card \<Rightarrow> esp_err \<times> card" where
  "write_close seq clean rows nbytes sha meta c =
     (let head = close_head clean rows nbytes sha
      in if 192 \<le> length head then (ESP_ERR_INVALID_SIZE, c)
         else write_file_atomic (In_Dir (seq_name seq)) ''CLOSE.TMP'' CLOSE_FILE
                [head, (case meta of None \<Rightarrow> ''null'' | Some m \<Rightarrow> m), ''}'' @ [CHR 0x0A]] c)"

subsection \<open>Removing a session\<close>

fun unlink_all :: "place \<Rightarrow> string list \<Rightarrow> card \<Rightarrow> card" where
  "unlink_all pl [] c = c"
| "unlink_all pl (nm # nms) c =
     (case tick c of
        (Io_Ok, c) \<Rightarrow> unlink_all pl nms (snd (unlink pl nm c))
      | (_, c) \<Rightarrow> c)"

definition espos_sdlog_remove :: "nat \<Rightarrow> card \<Rightarrow> esp_err \<times> card" where
  "espos_sdlog_remove seq c =
     (case tick c of
        (Io_Ok, c) \<Rightarrow>
          (case map_of (cd_dirs c) (seq_name seq) of
             None \<Rightarrow> (ESP_ERR_NOT_FOUND, c)
           | Some fs \<Rightarrow>
               (case rmdir (seq_name seq) (unlink_all (In_Dir (seq_name seq)) (map fst fs) c) of
                  (ok, c) \<Rightarrow> (if ok then ESP_OK else ESP_FAIL, c)))
      | (_, c) \<Rightarrow> (ESP_FAIL, c))"

subsection \<open>A session\<close>

definition open_session :: "nat \<Rightarrow> nat \<Rightarrow> bool \<Rightarrow> string \<Rightarrow> card \<Rightarrow> esp_err \<times> sdlog_session option \<times> card" where
  "open_session seq every crc header c =
     (case mkdir (seq_name seq) c of
        (ok, c) \<Rightarrow>
          if \<not> ok then (ESP_FAIL, None, c)
          else (case write_file_atomic (In_Dir (seq_name seq)) ''HEAD.TMP'' HEAD_FILE [header] c of
            (err, c) \<Rightarrow>
              if err \<noteq> ESP_OK then (err, None, snd (espos_sdlog_remove seq c))
              else (case plain_call c of
                (ok, c) \<Rightarrow>
                  if \<not> ok then (ESP_ERR_NO_MEM, None, snd (espos_sdlog_remove seq c))
                  else (case fopen_w (In_Dir (seq_name seq)) ROWS_FILE c of
                    (ok, c) \<Rightarrow>
                      if \<not> ok then (ESP_FAIL, None, snd (espos_sdlog_remove seq c))
                      else (ESP_OK,
                            Some \<lparr>ss_sha = sha_zero, ss_seq = seq, ss_rows = 0, ss_bytes = 0, ss_sync_every = every,
                                  ss_unsynced = 0, ss_row_crc = crc, ss_failed = False\<rparr>, c)))))"

definition espos_sdlog_open :: "root_path \<Rightarrow> string option \<Rightarrow> (nat \<times> bool) option \<Rightarrow> card \<Rightarrow> esp_err \<times> sdlog_session option \<times> card" where
  "espos_sdlog_open root header cfg c =
     (if header = None \<or> fst root + 1 + SEQ_DIGITS + 1 + 12 \<ge> PATH_MAX_LEN then (ESP_ERR_INVALID_ARG, None, c)
      else (case mkdir_p root c of
        (err, c) \<Rightarrow>
          if err \<noteq> ESP_OK then (err, None, c)
          else (case scan c of
            (err, seqs, c) \<Rightarrow>
              if err \<noteq> ESP_OK then (err, None, c)
              else (case read_last_seq c of
                (last_seq, c) \<Rightarrow>
                  let last_seq = (if seqs \<noteq> [] \<and> last seqs > last_seq then last seqs else last_seq)
                  in if last_seq \<ge> MAX_SEQ then (ESP_ERR_INVALID_STATE, None, c)
                     else (case write_last_seq (last_seq + 1) c of
                       (err, c) \<Rightarrow>
                         if err \<noteq> ESP_OK then (err, None, c)
                         else open_session (last_seq + 1)
                                (case cfg of Some (n, _) \<Rightarrow> if n \<noteq> 0 then n else ESPOS_SDLOG_SYNC_EVERY_DEFAULT | None \<Rightarrow> ESPOS_SDLOG_SYNC_EVERY_DEFAULT)
                                (case cfg of Some (_, crc) \<Rightarrow> crc | None \<Rightarrow> False) (the header) c)))))"

definition espos_sdlog_seq :: "sdlog_session option \<Rightarrow> nat" where
  "espos_sdlog_seq s = (case s of None \<Rightarrow> 0 | Some s \<Rightarrow> ss_seq s)"

definition espos_sdlog_rows :: "sdlog_session option \<Rightarrow> nat" where
  "espos_sdlog_rows s = (case s of None \<Rightarrow> 0 | Some s \<Rightarrow> ss_rows s)"

definition espos_sdlog_bytes :: "sdlog_session option \<Rightarrow> nat" where
  "espos_sdlog_bytes s = (case s of None \<Rightarrow> 0 | Some s \<Rightarrow> ss_bytes s)"

abbreviation session_dir :: "sdlog_session \<Rightarrow> place" where
  "session_dir s \<equiv> In_Dir (seq_name (ss_seq s))"

definition espos_sdlog_sync :: "sdlog_session \<Rightarrow> card \<Rightarrow> esp_err \<times> sdlog_session \<times> card" where
  "espos_sdlog_sync s c =
     (if ss_failed s then (ESP_FAIL, s, c)
      else case sync_file (session_dir s) ROWS_FILE c of
             (ok, c) \<Rightarrow> if \<not> ok then (ESP_FAIL, s\<lparr>ss_failed := True\<rparr>, c) else (ESP_OK, s\<lparr>ss_unsynced := 0\<rparr>, c))"

text \<open>\<open>%08x\<close> of the row's checksum.\<close>

definition row_tail :: "bool \<Rightarrow> string \<Rightarrow> string" where
  "row_tail crc row = (if crc then '','' @ word_hex (espos_sdlog_crc32 0 (bytes_of row)) else []) @ [CHR 0x0A]"

definition espos_sdlog_append :: "sdlog_session \<Rightarrow> string option \<Rightarrow> card \<Rightarrow> esp_err \<times> sdlog_session \<times> card" where
  "espos_sdlog_append s row c =
     (case row of
        None \<Rightarrow> (ESP_ERR_INVALID_ARG, s, c)
      | Some row \<Rightarrow>
          if CHR 0x0D \<in> set row \<or> CHR 0x0A \<in> set row then (ESP_ERR_INVALID_ARG, s, c)
          else if ss_failed s then (ESP_FAIL, s, c)
          else
            (let tail = row_tail (ss_row_crc s) row
             in case fwrite (session_dir s) ROWS_FILE (bytes_of row) c of
                  (ok, c) \<Rightarrow>
                    if \<not> ok then (ESP_FAIL, s\<lparr>ss_failed := True\<rparr>, c)
                    else (case fwrite (session_dir s) ROWS_FILE (bytes_of tail) c of
                      (ok, c) \<Rightarrow>
                        if \<not> ok then (ESP_FAIL, s\<lparr>ss_failed := True\<rparr>, c)
                        else
                          (let s = s\<lparr>ss_sha := espos_sdlog_sha256_update (espos_sdlog_sha256_update (ss_sha s) (bytes_of row)) (bytes_of tail),
                                     ss_rows := ss_rows s + 1, ss_bytes := ss_bytes s + (length row + length tail),
                                     ss_unsynced := ss_unsynced s + 1\<rparr>
                           in if ss_unsynced s \<ge> ss_sync_every s then espos_sdlog_sync s c else (ESP_OK, s, c)))))"

definition espos_sdlog_close :: "sdlog_session \<Rightarrow> string option \<Rightarrow> card \<Rightarrow> esp_err \<times> card" where
  "espos_sdlog_close s meta c =
     (case (if ss_failed s then (False, c) else sync_file (session_dir s) ROWS_FILE c) of
        (ok, c) \<Rightarrow> (case plain_call c of
          (closed, c) \<Rightarrow>
            if closed \<and> ok then write_close (ss_seq s) True (ss_rows s) (ss_bytes s) (espos_sdlog_sha256_hex (ss_sha s)) meta c
            else (ESP_FAIL, c)))"

subsection \<open>Reading a session\<close>

definition lit :: "string \<Rightarrow> string \<Rightarrow> string option" where
  "lit p s = (if take (length p) s = p then Some (drop (length p) s) else None)"

text \<open>\<open>%n[...]\<close>: one to \<open>n\<close> characters of a class.\<close>

definition scan_class :: "nat \<Rightarrow> (char \<Rightarrow> bool) \<Rightarrow> string \<Rightarrow> (string \<times> string) option" where
  "scan_class n P s =
     (let r = take n (takeWhile P s) in if r = [] then None else Some (r, drop (length r) s))"

definition is_lower :: "char \<Rightarrow> bool" where
  "is_lower c \<longleftrightarrow> 97 \<le> (of_char c :: nat) \<and> (of_char c :: nat) \<le> 122"

definition is_hex :: "char \<Rightarrow> bool" where
  "is_hex c \<longleftrightarrow> is_digit c \<or> 97 \<le> (of_char c :: nat) \<and> (of_char c :: nat) \<le> 102"

definition parse_close :: "string \<Rightarrow> (string \<times> nat \<times> nat \<times> string) option" where
  "parse_close buf =
     do { s \<leftarrow> lit ''{\"closed\":true,\"clean\":'' buf;
          (clean, s) \<leftarrow> scan_class 5 is_lower s;
          s \<leftarrow> lit '',\"rows\":'' s;
          (rows, s) \<leftarrow> scan_unsigned 64 s;
          s \<leftarrow> lit '',\"bytes\":'' s;
          (nbytes, s) \<leftarrow> scan_unsigned 64 s;
          s \<leftarrow> lit '',\"sha256\":\"'' s;
          (sha, s) \<leftarrow> scan_class 64 is_hex s;
          Some (clean, rows, nbytes, sha) }"

definition read_close :: "nat \<Rightarrow> sdlog_info \<Rightarrow> card \<Rightarrow> esp_err \<times> sdlog_info \<times> card" where
  "read_close seq info c =
     (case fopen_r (In_Dir (seq_name seq)) CLOSE_FILE c of
        (Opened b, c) \<Rightarrow>
          (case fread_all (take 255 b) c of
             (b, _, c) \<Rightarrow>
               (case parse_close (bytes_cstr b) of
                  None \<Rightarrow> (ESP_ERR_INVALID_RESPONSE, info, c)
                | Some (clean, rows, nbytes, sha) \<Rightarrow>
                    if length sha \<noteq> 64 then (ESP_ERR_INVALID_RESPONSE, info, c)
                    else (ESP_OK, info\<lparr>in_clean := (clean = ''true''), in_rows := rows, in_bytes := nbytes, in_sha256 := sha\<rparr>, c)))
      | (_, c) \<Rightarrow> (ESP_FAIL, info, c))"

definition zero_info :: sdlog_info where
  "zero_info = \<lparr>in_seq = 0, in_closed = False, in_clean = False, in_synced = False, in_rows = 0, in_bytes = 0, in_sha256 = []\<rparr>"

definition espos_sdlog_info :: "nat \<Rightarrow> card \<Rightarrow> esp_err \<times> sdlog_info \<times> card" where
  "espos_sdlog_info seq c =
     (case exists_dir (seq_name seq) c of
        (ok, c) \<Rightarrow>
          if \<not> ok then (ESP_ERR_NOT_FOUND, zero_info, c)
          else (case exists_file (In_Dir (seq_name seq)) SYNCED_FILE c of
            (synced, c) \<Rightarrow>
              let info = zero_info\<lparr>in_seq := seq, in_synced := synced\<rparr>
              in case exists_file (In_Dir (seq_name seq)) CLOSE_FILE c of
                   (closed, c) \<Rightarrow>
                     if closed then read_close seq (info\<lparr>in_closed := True\<rparr>) c
                     else (case fopen_r (In_Dir (seq_name seq)) ROWS_FILE c of
                             (Opened b, c) \<Rightarrow> (ESP_OK, info\<lparr>in_bytes := length b\<rparr>, c)
                           | (_, c) \<Rightarrow> (ESP_OK, info, c))))"

text \<open>The sessions the visitor is shown; it stops at the first it answers with false.\<close>

fun visit_all :: "(sdlog_info \<Rightarrow> bool) \<Rightarrow> nat list \<Rightarrow> card \<Rightarrow> sdlog_info list \<times> card" where
  "visit_all fn [] c = ([], c)"
| "visit_all fn (q # qs) c =
     (case espos_sdlog_info q c of
        (err, info, c) \<Rightarrow>
          if err \<noteq> ESP_OK then visit_all fn qs c
          else if \<not> fn info then ([info], c)
          else (case visit_all fn qs c of (is, c) \<Rightarrow> (info # is, c)))"

definition espos_sdlog_list :: "(sdlog_info \<Rightarrow> bool) \<Rightarrow> card \<Rightarrow> esp_err \<times> sdlog_info list \<times> card" where
  "espos_sdlog_list fn c =
     (case scan c of
        (err, seqs, c) \<Rightarrow>
          if err \<noteq> ESP_OK then (err, [], c) else (case visit_all fn seqs c of (is, c) \<Rightarrow> (ESP_OK, is, c)))"

subsection \<open>Recovery\<close>

text \<open>The bytes up to the last newline.\<close>

definition complete_rows :: "bytes \<Rightarrow> bytes" where
  "complete_rows b = rev (dropWhile (\<lambda>x. x \<noteq> 0x0A) (rev b))"

definition count_rows :: "bytes \<Rightarrow> nat" where
  "count_rows b = length (filter (\<lambda>x. x = 0x0A) b)"

text \<open>The size of the rows file and the end of its last row, with the number of rows; a missing file is made.\<close>

definition measure_rows :: "nat \<Rightarrow> card \<Rightarrow> (nat \<times> nat \<times> nat) option \<times> card" where
  "measure_rows seq c =
     (case fopen_r (In_Dir (seq_name seq)) ROWS_FILE c of
        (Opened b, c) \<Rightarrow>
          (case fread_all b c of
             (b, ok, c) \<Rightarrow> (case plain_call c of
               (_, c) \<Rightarrow> ((if ok then Some (count_rows b, length (complete_rows b), length b) else None), c)))
      | (Broken, c) \<Rightarrow> (None, c)
      | (Absent, c) \<Rightarrow>
          (case fopen_w (In_Dir (seq_name seq)) ROWS_FILE c of
             (ok, c) \<Rightarrow>
               if \<not> ok then (None, c)
               else (case sync_file (In_Dir (seq_name seq)) ROWS_FILE c of
                 (ok, c) \<Rightarrow> (case plain_call c of
                   (closed, c) \<Rightarrow> ((if closed \<and> ok then Some (0, 0, 0) else None), c)))))"

text \<open>The file is read and hashed in pieces of 512 bytes.\<close>

function pieces :: "bytes \<Rightarrow> bytes list" where
  "pieces b = (if b = [] then [] else take 512 b # pieces (drop 512 b))"
  by auto
termination by (relation "measure length") auto

declare pieces.simps [simp del]

definition hash_rows :: "nat \<Rightarrow> card \<Rightarrow> string option \<times> card" where
  "hash_rows seq c =
     (case fopen_r (In_Dir (seq_name seq)) ROWS_FILE c of
        (Opened b, c) \<Rightarrow>
          (case fread_all b c of
             (b, ok, c) \<Rightarrow> (case plain_call c of
               (_, c) \<Rightarrow> ((if ok then Some (espos_sdlog_sha256_hex (foldl espos_sdlog_sha256_update sha_zero (pieces b))) else None), c)))
      | (_, c) \<Rightarrow> (None, c))"

definition recover_one :: "nat \<Rightarrow> card \<Rightarrow> esp_err \<times> card" where
  "recover_one seq c =
     (let c = snd (unlink (In_Dir (seq_name seq)) ''CLOSE.TMP'' c)
      in case measure_rows seq c of
           (None, c) \<Rightarrow> (ESP_FAIL, c)
         | (Some (rows, keep, sz), c) \<Rightarrow>
             (case (if sz > keep then truncate_file (In_Dir (seq_name seq)) ROWS_FILE keep c else (True, c)) of
                (ok, c) \<Rightarrow>
                  if \<not> ok then (ESP_FAIL, c)
                  else (case hash_rows seq c of
                          (None, c) \<Rightarrow> (ESP_FAIL, c)
                        | (Some sha, c) \<Rightarrow> write_close seq False rows keep sha None c)))"

definition recover_session :: "nat \<Rightarrow> card \<Rightarrow> esp_err \<times> nat \<times> nat \<times> card" where
  "recover_session q c =
     (case exists_file (In_Dir (seq_name q)) CLOSE_FILE c of
        (closed, c) \<Rightarrow>
          if closed then (ESP_OK, 0, 0, c)
          else (case exists_file (In_Dir (seq_name q)) HEAD_FILE c of
            (started, c) \<Rightarrow>
              if \<not> started then (case espos_sdlog_remove q c of (err, c) \<Rightarrow> (err, 0, if err = ESP_OK then 1 else 0, c))
              else (case recover_one q c of (err, c) \<Rightarrow> (err, if err = ESP_OK then 1 else 0, 0, c))))"

text \<open>The first error, and how many sessions were recovered and removed.\<close>

fun recover_all :: "nat list \<Rightarrow> card \<Rightarrow> esp_err \<times> nat \<times> nat \<times> card" where
  "recover_all [] c = (ESP_OK, 0, 0, c)"
| "recover_all (q # qs) c =
     (case recover_session q c of
        (err, n, m, c) \<Rightarrow>
          (case recover_all qs c of (later, n', m', c) \<Rightarrow> (if err \<noteq> ESP_OK then err else later, n + n', m + m', c)))"

definition espos_sdlog_recover :: "card \<Rightarrow> esp_err \<times> nat \<times> nat \<times> card" where
  "espos_sdlog_recover c =
     (case scan c of (err, seqs, c) \<Rightarrow> if err \<noteq> ESP_OK then (err, 0, 0, c) else recover_all seqs c)"

subsection \<open>Delivery and pruning\<close>

definition espos_sdlog_mark_synced :: "nat \<Rightarrow> string option \<Rightarrow> card \<Rightarrow> esp_err \<times> card" where
  "espos_sdlog_mark_synced seq note c =
     (case espos_sdlog_info seq c of
        (err, info, c) \<Rightarrow>
          if err \<noteq> ESP_OK then (err, c)
          else if \<not> in_closed info then (ESP_ERR_INVALID_STATE, c)
          else write_file_atomic (In_Dir (seq_name seq)) ''SYNCED.TMP'' SYNCED_FILE [case note of None \<Rightarrow> [] | Some n \<Rightarrow> n] c)"

fun read_infos :: "nat list \<Rightarrow> card \<Rightarrow> sdlog_info list \<times> card" where
  "read_infos [] c = ([], c)"
| "read_infos (q # qs) c =
     (case espos_sdlog_info q c of
        (err, info, c) \<Rightarrow>
          let info = (if err = ESP_OK then info else info\<lparr>in_seq := q, in_synced := False, in_bytes := 0\<rparr>)
          in case read_infos qs c of (is, c) \<Rightarrow> (info # is, c))"

fun prune_loop :: "sdlog_info list \<Rightarrow> nat \<Rightarrow> nat \<Rightarrow> card \<Rightarrow> esp_err \<times> nat \<times> card" where
  "prune_loop [] sum_b keep c = (ESP_OK, 0, c)"
| "prune_loop (i # is) sum_b keep c =
     (if \<not> sum_b > keep then (ESP_OK, 0, c)
      else if \<not> in_closed i \<or> \<not> in_synced i then prune_loop is sum_b keep c
      else case espos_sdlog_remove (in_seq i) c of
             (err, c) \<Rightarrow>
               if err = ESP_OK then (case prune_loop is (sum_b - in_bytes i) keep c of (e, n, c) \<Rightarrow> (e, n + 1, c))
               else (case prune_loop is sum_b keep c of (e, n, c) \<Rightarrow> (err, n, c)))"

definition espos_sdlog_prune :: "nat \<Rightarrow> card \<Rightarrow> esp_err \<times> nat \<times> card" where
  "espos_sdlog_prune keep_bytes c =
     (case scan c of
        (err, seqs, c) \<Rightarrow>
          if err \<noteq> ESP_OK then (err, 0, c)
          else (case (if seqs = [] then (True, c) else plain_call c) of
            (ok, c) \<Rightarrow>
              if \<not> ok then (ESP_ERR_NO_MEM, 0, c)
              else (case read_infos seqs c of (is, c) \<Rightarrow> prune_loop is (sum_list (map in_bytes is)) keep_bytes c)))"

end
