(* ===== verification/Sdlog_Crash.thy ===== *)
theory Sdlog_Crash
  imports Sdlog_Session
begin

text \<open>
  What the session log keeps whatever the card does: that a close record never misdescribes the rows beside it, through failing calls
  and power cuts at any moment; what a recovery leaves; and where the numbering and the recovery fall short.

  The operations are sequences of a few steps on the card. What every step does, every operation does: the locale
  \<open>card_rel\<close> has a relation between cards that holds for the steps, and shows it of the operations.
\<close>

subsection \<open>Steps\<close>

lemma tick_frame:
  assumes "tick c = (r, c')"
  shows "cd_root c' = cd_root c" and "cd_files c' = cd_files c" and "cd_dirs c' = cd_dirs c"
    and "set (cd_script c') \<subseteq> set (cd_script c)" and "\<not> cd_on c \<Longrightarrow> c' = c \<and> r = Power_Cut" and "r = Io_Ok \<Longrightarrow> cd_on c'"
  using assms by (auto simp: tick_def split: if_splits list.splits)

lemma file_at_tick: "tick c = (r, c') \<Longrightarrow> file_at pl nm c' = file_at pl nm c"
  by (cases pl) (auto simp: file_at_def dest: tick_frame)

lemma file_at_put:
  assumes "put_file pl nm f c = Some c'"
  shows "file_at pl' nm' c' = (if pl' = pl \<and> nm' = nm then Some f else file_at pl' nm' c)"
  using assms by (cases pl; cases pl') (auto simp: put_file_def file_at_def AList.update_conv' split: if_splits option.splits)

lemma file_at_drop:
  assumes "drop_file pl nm c = Some c'"
  shows "file_at pl' nm' c' = (if pl' = pl \<and> nm' = nm then None else file_at pl' nm' c)"
  using assms by (cases pl; cases pl') (auto simp: drop_file_def file_at_def AList.update_conv' AList.delete_conv' split: if_splits option.splits)

lemma put_flags: "put_file pl nm f c = Some c' \<Longrightarrow> cd_script c' = cd_script c \<and> cd_on c' = cd_on c"
  by (cases pl) (auto simp: put_file_def split: option.splits if_splits)

lemma drop_flags: "drop_file pl nm c = Some c' \<Longrightarrow> cd_script c' = cd_script c \<and> cd_on c' = cd_on c"
  by (cases pl) (auto simp: drop_file_def split: option.splits if_splits)

lemma call_cases:
  assumes "call f c = (ok, c')"
  obtains r c1 where "tick c = (r, c1)" and "\<not> ok" and "c' = c1"
  | c1 where "tick c = (Io_Ok, c1)" and "ok" and "f c1 = Some c'"
  using assms by (auto simp: call_def split: prod.splits outcome.splits option.splits)

subsection \<open>A relation that every step keeps\<close>

locale card_rel =
  fixes R :: "card \<Rightarrow> card \<Rightarrow> bool" and P :: "(place \<times> string) set" and D :: "(place \<times> string) set" and E :: "string set"
  assumes refl: "R c c"
    and trans: "R c c' \<Longrightarrow> R c' c'' \<Longrightarrow> R c c''"
    and tick: "tick c = (r, c') \<Longrightarrow> R c c'"
    and put: "(pl, nm) \<in> P \<Longrightarrow> cd_on c \<Longrightarrow> put_file pl nm f c = Some c' \<Longrightarrow> R c c'"
    and drop: "(pl, nm) \<in> D \<Longrightarrow> cd_on c \<Longrightarrow> drop_file pl nm c = Some c' \<Longrightarrow> R c c'"
    and root: "cd_on c \<Longrightarrow> R c (c\<lparr>cd_root := True\<rparr>)"
    and newdir: "d \<in> E \<Longrightarrow> cd_on c \<Longrightarrow> cd_root c \<Longrightarrow> map_of (cd_dirs c) d = None \<Longrightarrow> R c (c\<lparr>cd_dirs := cd_dirs c @ [(d, [])]\<rparr>)"
    and deldir: "d \<in> E \<Longrightarrow> cd_on c \<Longrightarrow> map_of (cd_dirs c) d = Some [] \<Longrightarrow> R c (c\<lparr>cd_dirs := AList.delete d (cd_dirs c)\<rparr>)"
begin

lemma call:
  assumes "call f c = (ok, c')" and "\<And>c1. tick c = (Io_Ok, c1) \<Longrightarrow> cd_on c1 \<Longrightarrow> f c1 = Some c' \<Longrightarrow> R c1 c'"
  shows "R c c'"
  using assms(1)
proof (cases rule: call_cases)
  case (1 r c1)
  then show ?thesis using tick by simp
next
  case (2 c1)
  then show ?thesis using assms(2) tick trans tick_frame(6) by blast
qed

lemma fopen_w: "fopen_w pl nm c = (ok, c') \<Longrightarrow> (pl, nm) \<in> P \<Longrightarrow> R c c'"
  unfolding fopen_w_def by (erule call) (rule put)

lemma plain_call: "plain_call c = (ok, c') \<Longrightarrow> R c c'"
  unfolding plain_call_def by (erule call) (simp add: refl)

lemma add_bytes: "add_bytes pl nm b c = Some c' \<Longrightarrow> (pl, nm) \<in> P \<Longrightarrow> cd_on c \<Longrightarrow> R c c'"
  by (auto simp: add_bytes_def split: option.splits intro: put)

lemma fwrite:
  assumes "fwrite pl nm b c = (ok, c')" and "(pl, nm) \<in> P"
  shows "R c c'"
proof -
  obtain r c1 where t: "Sdlog_Card.tick c = (r, c1)" by fastforce
  have "cd_on c1" if "r \<noteq> Power_Cut" using t that by (auto simp: tick_def split: if_splits list.splits)
  then have "R c1 c'"
    using assms t by (cases r) (auto simp: fwrite_def refl split: option.splits intro: add_bytes)
  then show ?thesis using t tick trans by blast
qed

lemma fflush: "fflush pl nm c = (ok, c') \<Longrightarrow> (pl, nm) \<in> P \<Longrightarrow> R c c'"
  unfolding fflush_def by (erule call) (auto split: option.splits intro: put)

lemma fsync: "fsync pl nm c = (ok, c') \<Longrightarrow> (pl, nm) \<in> P \<Longrightarrow> R c c'"
  unfolding fsync_def by (erule call) (auto split: option.splits intro: put)

lemma unlink: "unlink pl nm c = (ok, c') \<Longrightarrow> (pl, nm) \<in> D \<Longrightarrow> R c c'"
  unfolding unlink_def by (erule call) (rule drop)

lemma rename: "rename pl a b c = (ok, c') \<Longrightarrow> (pl, a) \<in> D \<Longrightarrow> (pl, b) \<in> P \<Longrightarrow> R c c'"
  unfolding rename_def
  by (erule call) (auto split: option.splits if_splits simp: bind_eq_Some_conv dest: drop_flags intro: trans [OF drop put])

lemma truncate_file: "truncate_file pl nm n c = (ok, c') \<Longrightarrow> (pl, nm) \<in> P \<Longrightarrow> R c c'"
  unfolding truncate_file_def by (erule call) (auto split: option.splits intro: put)

lemma mkdir: "mkdir d c = (ok, c') \<Longrightarrow> d \<in> E \<Longrightarrow> R c c'"
  unfolding mkdir_def by (erule call) (auto split: if_splits intro: newdir)

lemma rmdir: "rmdir d c = (ok, c') \<Longrightarrow> d \<in> E \<Longrightarrow> R c c'"
  unfolding rmdir_def by (erule call) (auto split: if_splits intro: deldir)

lemma exists_file: "exists_file pl nm c = (ok, c') \<Longrightarrow> R c c'"
  unfolding exists_file_def by (erule call) (auto split: if_splits simp: refl)

lemma exists_dir: "exists_dir d c = (ok, c') \<Longrightarrow> R c c'"
  unfolding exists_dir_def by (erule call) (auto split: if_splits simp: refl)

lemma fopen_r: "fopen_r pl nm c = (x, c') \<Longrightarrow> R c c'"
  by (auto simp: fopen_r_def split: prod.splits outcome.splits intro: tick)

lemma fread_all: "fread_all b c = (x, ok, c') \<Longrightarrow> R c c'"
  by (auto simp: fread_all_def split: prod.splits outcome.splits intro: tick)

lemma sync_file: "sync_file pl nm c = (ok, c') \<Longrightarrow> (pl, nm) \<in> P \<Longrightarrow> R c c'"
  by (auto simp: sync_file_def split: prod.splits if_splits intro: trans [OF fflush fsync] fflush)

lemma write_parts: "write_parts pl nm ps c = (ok, c') \<Longrightarrow> (pl, nm) \<in> P \<Longrightarrow> R c c'"
proof (induction ps arbitrary: c)
  case Nil
  then show ?case by (auto intro: sync_file)
next
  case (Cons p ps)
  obtain k c1 where w: "Sdlog_Card.fwrite pl nm (bytes_of p) c = (k, c1)" by fastforce
  then show ?case using Cons fwrite [OF w] trans by (auto split: if_splits)
qed

lemma write_file_atomic:
  assumes "write_file_atomic pl tmp dst parts c = (err, c')" and "(pl, tmp) \<in> P" and "(pl, tmp) \<in> D" and "(pl, dst) \<in> P" and "(pl, dst) \<in> D"
  shows "R c c'"
proof -
  obtain o1 c1 where a: "Sdlog_Card.fopen_w pl tmp c = (o1, c1)" by fastforce
  obtain o2 c2 where b: "Sdlog_Session.write_parts pl tmp parts c1 = (o2, c2)" by fastforce
  obtain o3 c3 where d: "Sdlog_Card.plain_call c2 = (o3, c3)" by fastforce
  obtain o4 c4 where e: "Sdlog_Card.unlink pl dst c3 = (o4, c4)" by fastforce
  obtain o5 c5 where f: "Sdlog_Card.rename pl tmp dst c4 = (o5, c5)" by fastforce
  note R = fopen_w [OF a assms(2)] write_parts [OF b assms(2)] plain_call [OF d] unlink [OF e assms(5)] rename [OF f assms(3,4)]
  have u: "R x (snd (Sdlog_Card.unlink pl tmp x))" for x using unlink [OF _ assms(3)] by (metis prod.collapse)
  have "R c c3" using R trans by blast
  moreover have "R c c5" using R trans by blast
  moreover have "c' \<in> {c1, snd (Sdlog_Card.unlink pl tmp c3), snd (Sdlog_Card.unlink pl tmp c5), c5}"
    using assms(1) a b d e f by (auto simp: write_file_atomic_def split: if_splits)
  ultimately show ?thesis using R(1) u trans by blast
qed

lemma unlink_all: "\<forall>nm. (pl, nm) \<in> D \<Longrightarrow> R c (unlink_all pl nms c)"
proof (induction nms arbitrary: c)
  case (Cons nm nms)
  obtain r c1 where t: "Sdlog_Card.tick c = (r, c1)" by fastforce
  obtain k c2 where u: "Sdlog_Card.unlink pl nm c1 = (k, c2)" by fastforce
  have "R c1 (unlink_all pl nms c2)" using unlink [OF u] Cons trans by blast
  then have "R c (unlink_all pl nms c2)" using tick [OF t] trans by blast
  with tick [OF t] show ?case using t u by (cases r) auto
qed (simp add: refl)

lemma remove:
  assumes "espos_sdlog_remove seq c = (err, c')" and "\<forall>nm. (In_Dir (seq_name seq), nm) \<in> D" and "seq_name seq \<in> E"
  shows "R c c'"
proof -
  obtain r c1 where t: "Sdlog_Card.tick c = (r, c1)" by fastforce
  let ?c2 = "\<lambda>fs. unlink_all (In_Dir (seq_name seq)) (map fst fs) c1"
  have "R c1 c'"
    using assms(1,3) t trans [OF unlink_all [OF assms(2)] rmdir]
    by (auto simp: espos_sdlog_remove_def refl split: outcome.splits option.splits prod.splits)
  then show ?thesis using tick [OF t] trans by blast
qed

lemma scan_loop: "scan_loop es cap acc c = (err, seqs, c') \<Longrightarrow> R c c'"
proof (induction es arbitrary: cap acc c)
  case (Cons x es)
  obtain name d where x: "x = (name, d)" by fastforce
  obtain r c1 where t: "Sdlog_Card.tick c = (r, c1)" by fastforce
  obtain k c2 where m: "Sdlog_Card.plain_call c1 = (k, c2)" by fastforce
  have "R c1 c'"
    using Cons.prems Cons.IH t m plain_call [OF m] trans x refl
    by (auto split: outcome.splits option.splits if_splits)
  then show ?case using tick [OF t] trans by blast
qed (simp add: refl)

lemma scan: "scan c = (err, seqs, c') \<Longrightarrow> R c c'"
  by (auto simp: scan_def split: prod.splits outcome.splits if_splits intro: tick trans [OF tick scan_loop])

lemma mkdir_parents: "mkdir_parents k c = (ok, c') \<Longrightarrow> R c c'"
proof (induction k arbitrary: c)
  case (Suc k)
  obtain r c1 where t: "Sdlog_Card.tick c = (r, c1)" by fastforce
  obtain d c2 where p: "Sdlog_Card.plain_call c1 = (d, c2)" by fastforce
  have "R c1 c'" using Suc t p plain_call [OF p] trans by (auto split: outcome.splits if_splits)
  then show ?case using tick [OF t] trans by blast
qed (simp add: refl)

lemma mkdir_p: "mkdir_p rt c = (err, c') \<Longrightarrow> R c c'"
proof -
  assume a: "mkdir_p rt c = (err, c')"
  obtain k c1 where b: "Sdlog_Session.mkdir_parents (snd rt) c = (k, c1)" by fastforce
  obtain k2 c2 where m: "Sdlog_Card.call (\<lambda>c. Some (c\<lparr>cd_root := True\<rparr>)) c1 = (k2, c2)" by fastforce
  obtain k3 c3 where p: "Sdlog_Card.plain_call c2 = (k3, c3)" by fastforce
  have r1: "R c c1" by (rule mkdir_parents [OF b])
  have "R c1 c2" by (rule call [OF m]) (auto intro: root)
  then have r2: "R c c2" using r1 trans by blast
  then have r3: "R c c3" using plain_call [OF p] trans by blast
  have "c' \<in> {c, c1, c2, c3}" using a b m p by (auto simp: mkdir_p_def split: if_splits)
  then show ?thesis using refl r1 r2 r3 by auto
qed

lemma read_seq_file: "read_seq_file name c = (v, c') \<Longrightarrow> R c c'"
  by (auto simp: read_seq_file_def split: prod.splits opened.splits intro: fopen_r trans [OF fopen_r fread_all])

lemma read_last_seq: "read_last_seq c = (v, c') \<Longrightarrow> R c c'"
  by (auto simp: read_last_seq_def split: prod.splits intro: trans [OF read_seq_file read_seq_file])

lemma read_close: "read_close seq i c = (err, i', c') \<Longrightarrow> R c c'"
  by (auto simp: read_close_def split: prod.splits opened.splits option.splits if_splits intro: fopen_r trans [OF fopen_r fread_all])

lemma info:
  assumes "espos_sdlog_info seq c = (err, i, c')"
  shows "R c c'"
proof -
  let ?d = "In_Dir (seq_name seq)"
  obtain o1 c1 where a: "Sdlog_Card.exists_dir (seq_name seq) c = (o1, c1)" by fastforce
  obtain o2 c2 where b: "Sdlog_Card.exists_file ?d SYNCED_FILE c1 = (o2, c2)" by fastforce
  obtain o3 c3 where d: "Sdlog_Card.exists_file ?d CLOSE_FILE c2 = (o3, c3)" by fastforce
  have r1: "R c c1" by (rule exists_dir [OF a])
  have "R c c2" using r1 exists_file [OF b] trans by blast
  then have r3: "R c c3" using exists_file [OF d] trans by blast
  have "c' = c1 \<or> (\<exists>i0. Sdlog_Session.read_close seq i0 c3 = (err, i, c')) \<or> (\<exists>x. Sdlog_Card.fopen_r ?d ROWS_FILE c3 = (x, c'))"
    using assms a b d by (cases o1; cases o3) (auto simp: espos_sdlog_info_def Let_def split: prod.splits opened.splits)
  then show ?thesis using r1 trans [OF r3 read_close] trans [OF r3 fopen_r] by auto
qed

lemma visit_all: "visit_all fn qs c = (is, c') \<Longrightarrow> R c c'"
proof (induction qs arbitrary: c "is")
  case (Cons q qs)
  obtain err i c1 where a: "espos_sdlog_info q c = (err, i, c1)" by (metis prod_cases3)
  show ?case using Cons a info [OF a] trans by (auto split: if_splits prod.splits)
qed (simp add: refl)

lemma list: "espos_sdlog_list fn c = (err, is, c') \<Longrightarrow> R c c'"
  by (auto simp: espos_sdlog_list_def split: prod.splits if_splits intro: scan trans [OF scan visit_all])

lemma read_infos: "read_infos qs c = (is, c') \<Longrightarrow> R c c'"
proof (induction qs arbitrary: c "is")
  case (Cons q qs)
  obtain err i c1 where a: "espos_sdlog_info q c = (err, i, c1)" by (metis prod_cases3)
  show ?case using Cons a info [OF a] trans by (auto simp: Let_def split: if_splits prod.splits)
qed (simp add: refl)

lemma prune_loop: "prune_loop is b keep c = (err, n, c') \<Longrightarrow> \<forall>q nm. (In_Dir (seq_name q), nm) \<in> D \<and> seq_name q \<in> E \<Longrightarrow> R c c'"
proof (induction "is" arbitrary: b c err n)
  case (Cons i "is")
  obtain e c1 where a: "espos_sdlog_remove (in_seq i) c = (e, c1)" by fastforce
  have "R c c1" using remove [OF a] Cons.prems(2) by blast
  then show ?case using Cons a trans refl by (auto split: if_splits prod.splits)
qed (simp add: refl)

lemma prune:
  assumes "espos_sdlog_prune keep c = (err, n, c')" and "\<forall>q nm. (In_Dir (seq_name q), nm) \<in> D \<and> seq_name q \<in> E"
  shows "R c c'"
proof -
  obtain e1 qs c1 where a: "Sdlog_Session.scan c = (e1, qs, c1)" by (metis prod_cases3)
  obtain k c2 where b: "(if qs = [] then (True, c1) else Sdlog_Card.plain_call c1) = (k, c2)" by fastforce
  obtain "is" c3 where d: "Sdlog_Session.read_infos qs c2 = (is, c3)" by fastforce
  have r1: "R c c1" by (rule scan [OF a])
  have "R c1 c2" using b plain_call refl by (auto split: if_splits)
  then have r2: "R c c2" using r1 trans by blast
  then have r3: "R c c3" using read_infos [OF d] trans by blast
  have "c' \<in> {c1, c2} \<or> Sdlog_Session.prune_loop is (sum_list (map in_bytes is)) keep c3 = (err, n, c')"
    using assms(1) a b d by (auto simp: espos_sdlog_prune_def split: if_splits)
  then show ?thesis using r1 r2 r3 trans prune_loop [OF _ assms(2)] by blast
qed

lemma mark_synced:
  assumes "espos_sdlog_mark_synced seq note c = (err, c')"
    and "{(In_Dir (seq_name seq), ''SYNCED.TMP''), (In_Dir (seq_name seq), SYNCED_FILE)} \<subseteq> P \<inter> D"
  shows "R c c'"
proof -
  obtain e i c1 where a: "espos_sdlog_info seq c = (e, i, c1)" by (metis prod_cases3)
  show ?thesis using assms a info [OF a] trans [OF info [OF a] write_file_atomic]
    by (auto simp: espos_sdlog_mark_synced_def split: if_splits)
qed

lemma write_last_seq:
  "write_last_seq seq c = (err, c') \<Longrightarrow> {(In_Root, LAST_SEQ_TMP), (In_Root, LAST_SEQ_FILE)} \<subseteq> P \<inter> D \<Longrightarrow> R c c'"
  unfolding write_last_seq_def by (rule write_file_atomic) auto

lemma write_close:
  "write_close seq clean rows nb sha meta c = (err, c') \<Longrightarrow>
   {(In_Dir (seq_name seq), ''CLOSE.TMP''), (In_Dir (seq_name seq), CLOSE_FILE)} \<subseteq> P \<inter> D \<Longrightarrow> R c c'"
  by (auto simp: write_close_def Let_def refl split: if_splits intro: write_file_atomic)

lemma measure_rows:
  assumes "measure_rows seq c = (x, c')" and "(In_Dir (seq_name seq), ROWS_FILE) \<in> P"
  shows "R c c'"
proof -
  let ?d = "In_Dir (seq_name seq)"
  obtain o1 c1 where a: "Sdlog_Card.fopen_r ?d ROWS_FILE c = (o1, c1)" by fastforce
  have r1: "R c c1" by (rule fopen_r [OF a])
  have "R c1 c'"
  proof (cases o1)
    case (Opened b)
    then show ?thesis using assms(1) a
      by (auto simp: measure_rows_def split: prod.splits if_splits intro: trans [OF fread_all plain_call])
  next
    case Absent
    obtain o2 c2 where b: "Sdlog_Card.fopen_w ?d ROWS_FILE c1 = (o2, c2)" by fastforce
    obtain o3 c3 where e: "Sdlog_Session.sync_file ?d ROWS_FILE c2 = (o3, c3)" by fastforce
    obtain o4 c4 where f: "Sdlog_Card.plain_call c3 = (o4, c4)" by fastforce
    have "c' \<in> {c2, c4}" using assms(1) a Absent b e f by (auto simp: measure_rows_def split: if_splits)
    moreover have "R c1 c2" by (rule fopen_w [OF b assms(2)])
    moreover have "R c2 c4" using sync_file [OF e assms(2)] plain_call [OF f] trans by blast
    ultimately show ?thesis using trans by blast
  next
    case Broken
    then show ?thesis using assms(1) a by (simp add: measure_rows_def refl)
  qed
  with r1 show ?thesis using trans by blast
qed

lemma hash_rows: "hash_rows seq c = (x, c') \<Longrightarrow> R c c'"
  by (auto simp: hash_rows_def split: prod.splits opened.splits if_splits intro: fopen_r trans [OF fopen_r trans [OF fread_all plain_call]])

lemma recover_one:
  assumes "recover_one seq c = (err, c')"
    and "{(In_Dir (seq_name seq), ''CLOSE.TMP''), (In_Dir (seq_name seq), CLOSE_FILE), (In_Dir (seq_name seq), ROWS_FILE)} \<subseteq> P \<inter> D"
  shows "R c c'"
proof -
  let ?d = "In_Dir (seq_name seq)"
  obtain o1 c1 where a: "Sdlog_Card.unlink ?d ''CLOSE.TMP'' c = (o1, c1)" by fastforce
  obtain m c2 where b: "Sdlog_Session.measure_rows seq c1 = (m, c2)" by fastforce
  have r2: "R c c2" using unlink [OF a] measure_rows [OF b] assms(2) trans by blast
  show ?thesis
  proof (cases m)
    case None
    then show ?thesis using assms(1) a b r2 by (simp add: recover_one_def)
  next
    case (Some x)
    obtain rows keep sz where x: "x = (rows, keep, sz)" by (metis prod_cases3)
    obtain o3 c3 where e: "(if sz > keep then Sdlog_Card.truncate_file ?d ROWS_FILE keep c2 else (True, c2)) = (o3, c3)" by fastforce
    obtain h c4 where f: "Sdlog_Session.hash_rows seq c3 = (h, c4)" by fastforce
    have "R c2 c3" using e truncate_file assms(2) refl by (auto split: if_splits)
    then have r3: "R c c3" using r2 trans by blast
    then have r4: "R c c4" using hash_rows [OF f] trans by blast
    have "c' \<in> {c3, c4} \<or> (\<exists>sha. Sdlog_Session.write_close seq False rows keep sha None c4 = (err, c'))"
      using assms(1) a b Some x e f by (auto simp: recover_one_def split: if_splits option.splits)
    then show ?thesis using r3 r4 trans write_close assms(2) by blast
  qed
qed

lemma recover_session:
  assumes "recover_session q c = (err, n, m, c')" and "\<forall>nm. (In_Dir (seq_name q), nm) \<in> P \<inter> D \<and> seq_name q \<in> E"
  shows "R c c'"
proof -
  obtain o1 c1 where a: "Sdlog_Card.exists_file (In_Dir (seq_name q)) CLOSE_FILE c = (o1, c1)" by fastforce
  obtain o2 c2 where b: "Sdlog_Card.exists_file (In_Dir (seq_name q)) HEAD_FILE c1 = (o2, c2)" by fastforce
  have r1: "R c c1" by (rule exists_file [OF a])
  then have r2: "R c c2" using exists_file [OF b] trans by blast
  have "c' = c1 \<or> (\<exists>e. espos_sdlog_remove q c2 = (e, c')) \<or> (\<exists>e. Sdlog_Session.recover_one q c2 = (e, c'))"
    using assms(1) a b by (auto simp: recover_session_def split: if_splits prod.splits)
  then show ?thesis using r1 r2 trans remove recover_one assms(2) by blast
qed

lemma recover_all: "recover_all qs c = (err, n, m, c') \<Longrightarrow> \<forall>q nm. (In_Dir (seq_name q), nm) \<in> P \<inter> D \<and> seq_name q \<in> E \<Longrightarrow> R c c'"
proof (induction qs arbitrary: c err n m)
  case (Cons q qs)
  obtain e x y c1 where a: "Sdlog_Session.recover_session q c = (e, x, y, c1)" by (metis prod_cases4)
  obtain e' x' y' c2 where b: "Sdlog_Session.recover_all qs c1 = (e', x', y', c2)" by (metis prod_cases4)
  have "R c c1" using recover_session [OF a] Cons.prems(2) by blast
  moreover have eq: "c' = c2" using Cons.prems(1) a b by simp
  moreover have "R c1 c2" using Cons.IH [of c1 e' x' y'] b eq Cons.prems(2) by simp
  ultimately show ?case using trans by blast
qed (simp add: refl)

lemma recover:
  assumes "espos_sdlog_recover c = (err, n, m, c')" and "\<forall>q nm. (In_Dir (seq_name q), nm) \<in> P \<inter> D \<and> seq_name q \<in> E"
  shows "R c c'"
proof -
  obtain e qs c1 where a: "Sdlog_Session.scan c = (e, qs, c1)" by (metis prod_cases3)
  show ?thesis using assms a scan [OF a] trans [OF scan [OF a] recover_all]
    by (auto simp: espos_sdlog_recover_def split: if_splits)
qed

end

subsection \<open>What no operation does\<close>

text \<open>A card without power does not change, and a script only gets shorter.\<close>

definition evolves :: "card \<Rightarrow> card \<Rightarrow> bool" where
  "evolves c c' \<longleftrightarrow> set (cd_script c') \<subseteq> set (cd_script c) \<and> (\<not> cd_on c \<longrightarrow> c' = c)"

interpretation ev: card_rel evolves UNIV UNIV UNIV
  by unfold_locales (auto simp: evolves_def dest: tick_frame put_flags drop_flags)

text \<open>Only the files an operation is about change.\<close>

definition framed :: "(place \<times> string) set \<Rightarrow> card \<Rightarrow> card \<Rightarrow> bool" where
  "framed S c c' \<longleftrightarrow> (\<forall>d nm. (In_Dir d, nm) \<notin> S \<longrightarrow> file_at (In_Dir d) nm c' = file_at (In_Dir d) nm c)"

lemma file_at_newdir: "map_of (cd_dirs c) d = None \<Longrightarrow> file_at (In_Dir d') nm (c\<lparr>cd_dirs := cd_dirs c @ [(d, [])]\<rparr>) = file_at (In_Dir d') nm c"
  by (auto simp: file_at_def map_add_def split: option.splits)

lemma file_at_deldir: "map_of (cd_dirs c) d = Some [] \<Longrightarrow> file_at (In_Dir d') nm (c\<lparr>cd_dirs := AList.delete d (cd_dirs c)\<rparr>) = file_at (In_Dir d') nm c"
  by (auto simp: file_at_def AList.delete_conv' split: option.splits)

lemma file_at_root: "file_at (In_Dir d) nm (c\<lparr>cd_root := r\<rparr>) = file_at (In_Dir d) nm c"
  by (simp add: file_at_def)

lemmas dir_steps = file_at_tick file_at_put file_at_drop file_at_newdir file_at_deldir file_at_root

interpretation fr: card_rel "framed S" S S UNIV for S
  by unfold_locales (auto simp: framed_def dir_steps)

subsection \<open>A true close record\<close>

text \<open>
  A record is whole on the card and gives the number of rows, the size and the digest of the rows file beside it, if that is
  there, which is then on the card too.
\<close>

definition settled :: "fdata \<Rightarrow> bool" where
  "settled f \<longleftrightarrow> fd_vol f = [] \<and> fd_out f = 0"

lemma settled_simps [simp]: "settled (synced_file b)" "settled \<lparr>fd_dur = b, fd_vol = v, fd_out = n\<rparr> \<longleftrightarrow> v = [] \<and> n = 0"
  by (simp_all add: settled_def synced_file_def)

definition record_true :: "fdata \<Rightarrow> fdata option \<Rightarrow> bool" where
  "record_true f ro \<longleftrightarrow>
     settled f \<and>
     (\<exists>clean rows nb sha meta.
        fd_dur f = bytes_of (close_head clean rows nb sha @ meta) \<and>
        (\<forall>r. ro = Some r \<longrightarrow> settled r \<and> rows = count_rows (fd_dur r) \<and> nb = length (fd_dur r) \<and> sha = sha256_of (fd_dur r)))"

definition card_true :: "card \<Rightarrow> bool" where
  "card_true c \<longleftrightarrow> (\<forall>d f. file_at (In_Dir d) CLOSE_FILE c = Some f \<longrightarrow> record_true f (file_at (In_Dir d) ROWS_FILE c))"

lemma record_true_no_rows: "record_true f ro \<Longrightarrow> record_true f None"
  unfolding record_true_def by blast

text \<open>Rows files without bytes that are not on the card.\<close>

definition rows_settled :: "card \<Rightarrow> bool" where
  "rows_settled c \<longleftrightarrow> (\<forall>d r. file_at (In_Dir d) ROWS_FILE c = Some r \<longrightarrow> settled r)"

text \<open>Operations that write neither rows nor close records leave those files as they are, or remove them.\<close>

definition shrinks :: "card \<Rightarrow> card \<Rightarrow> bool" where
  "shrinks c c' \<longleftrightarrow> (\<forall>d. \<forall>nm \<in> {CLOSE_FILE, ROWS_FILE}. file_at (In_Dir d) nm c' = file_at (In_Dir d) nm c \<or> file_at (In_Dir d) nm c' = None)"

lemma shrinksI: "(\<And>d nm. nm = CLOSE_FILE \<or> nm = ROWS_FILE \<Longrightarrow> file_at (In_Dir d) nm c' = file_at (In_Dir d) nm c \<or> file_at (In_Dir d) nm c' = None) \<Longrightarrow> shrinks c c'"
  by (simp add: shrinks_def)

lemma shrinks_None: "shrinks c c' \<Longrightarrow> file_at (In_Dir d) CLOSE_FILE c = None \<Longrightarrow> file_at (In_Dir d) CLOSE_FILE c' = None"
  by (simp add: shrinks_def) (metis option.distinct(1))

interpretation sh: card_rel shrinks "{(pl, nm). nm \<noteq> CLOSE_FILE \<and> nm \<noteq> ROWS_FILE}" UNIV UNIV
proof unfold_locales
  fix c c' c'' :: card and pl nm f
  show "shrinks c c''" if "shrinks c c'" "shrinks c' c''" using that unfolding shrinks_def by metis
  show "shrinks c c'" if "(pl, nm) \<in> {(pl, nm). nm \<noteq> CLOSE_FILE \<and> nm \<noteq> ROWS_FILE}" "put_file pl nm f c = Some c'"
    by (rule shrinksI) (use that file_at_put [OF that(2)] in auto)
  show "shrinks c c'" if "drop_file pl nm c = Some c'"
    by (rule shrinksI) (use file_at_drop [OF that] in auto)
qed (rule shrinksI, simp add: dir_steps)+

lemma card_true_shrinks: "shrinks c c' \<Longrightarrow> card_true c \<Longrightarrow> card_true c'"
  unfolding card_true_def
proof (intro allI impI)
  fix d f
  assume s: "shrinks c c'" and t: "\<forall>d f. file_at (In_Dir d) CLOSE_FILE c = Some f \<longrightarrow> record_true f (file_at (In_Dir d) ROWS_FILE c)"
    and f: "file_at (In_Dir d) CLOSE_FILE c' = Some f"
  have "file_at (In_Dir d) CLOSE_FILE c' = file_at (In_Dir d) CLOSE_FILE c" using s f unfolding shrinks_def by fastforce
  then have "record_true f (file_at (In_Dir d) ROWS_FILE c)" using t f by simp
  moreover have "file_at (In_Dir d) ROWS_FILE c' = file_at (In_Dir d) ROWS_FILE c \<or> file_at (In_Dir d) ROWS_FILE c' = None"
    using s by (simp add: shrinks_def)
  ultimately show "record_true f (file_at (In_Dir d) ROWS_FILE c')" using record_true_no_rows by metis
qed

lemma rows_settled_shrinks: "shrinks c c' \<Longrightarrow> rows_settled c \<Longrightarrow> rows_settled c'"
  unfolding rows_settled_def shrinks_def by (metis insertCI option.distinct(1))

text \<open>A change inside one directory.\<close>

lemma card_true_dir:
  assumes "framed ({In_Dir d} \<times> UNIV) c c'" and "card_true c"
    and "\<And>f. file_at (In_Dir d) CLOSE_FILE c' = Some f \<Longrightarrow> record_true f (file_at (In_Dir d) ROWS_FILE c')"
  shows "card_true c'"
  unfolding card_true_def
proof (intro allI impI)
  fix d' f
  assume f: "file_at (In_Dir d') CLOSE_FILE c' = Some f"
  show "record_true f (file_at (In_Dir d') ROWS_FILE c')"
  proof (cases "d' = d")
    case False
    then have "file_at (In_Dir d') nm c' = file_at (In_Dir d') nm c" for nm using assms(1) by (simp add: framed_def)
    with f assms(2) show ?thesis by (simp add: card_true_def)
  qed (use assms(3) f in simp)
qed

lemma rows_settled_dir:
  assumes "framed ({In_Dir d} \<times> UNIV) c c'" and "rows_settled c"
    and "\<And>r. file_at (In_Dir d) ROWS_FILE c' = Some r \<Longrightarrow> settled r"
  shows "rows_settled c'"
  unfolding rows_settled_def
proof (intro allI impI)
  fix d' r
  assume r: "file_at (In_Dir d') ROWS_FILE c' = Some r"
  show "settled r"
  proof (cases "d' = d")
    case False
    then have "file_at (In_Dir d') ROWS_FILE c' = file_at (In_Dir d') ROWS_FILE c" using assms(1) by (simp add: framed_def)
    with r assms(2) show ?thesis by (simp add: rows_settled_def)
  qed (use assms(3) r in simp)
qed

subsection \<open>Writing a file whole\<close>

lemma fopen_w_effect: "fopen_w pl nm c = (True, c') \<Longrightarrow> file_at pl nm c' = Some (synced_file [])"
proof -
  assume "fopen_w pl nm c = (True, c')"
  from this [unfolded fopen_w_def] show ?thesis
  proof (cases rule: call_cases)
    case (2 c1)
    then show ?thesis using file_at_put [of pl nm _ c1 c' pl nm] by simp
  qed simp
qed

lemma fwrite_effect:
  assumes "fwrite pl nm b c = (True, c')" and "file_at pl nm c = Some f"
  shows "\<exists>f'. file_at pl nm c' = Some f' \<and> content f' = content f @ b"
proof -
  obtain r c1 where t: "tick c = (r, c1)" by fastforce
  then have "file_at pl nm c1 = Some f" using assms(2) file_at_tick by metis
  with assms(1) t show ?thesis
    by (cases r) (auto simp: fwrite_def add_bytes_def content_def split: option.splits dest: file_at_put [where pl' = pl and nm' = nm])
qed

text \<open>A call that updates a file that is there.\<close>

lemma update_cases:
  assumes "call (\<lambda>c. case file_at pl nm c of None \<Rightarrow> None | Some f \<Rightarrow> put_file pl nm (g f) c) c = (ok, c')"
  obtains "\<not> ok" and "file_at pl nm c' = file_at pl nm c"
  | f where "ok" and "file_at pl nm c = Some f" and "file_at pl nm c' = Some (g f)"
  using assms
proof (cases rule: call_cases)
  case (1 r c1)
  then show ?thesis using that(1) file_at_tick [OF 1(1), of pl nm] by simp
next
  case (2 c1)
  then obtain f where f: "file_at pl nm c1 = Some f" and p: "put_file pl nm (g f) c1 = Some c'" by (auto split: option.splits)
  then show ?thesis using that(2) 2 file_at_tick [OF 2(1), of pl nm] file_at_put [OF p, of pl nm] by simp
qed

text \<open>What a sync leaves: all of the file on the card when it works, else the file, perhaps flushed.\<close>

definition synced_from :: "bool \<Rightarrow> fdata option \<Rightarrow> fdata option \<Rightarrow> bool" where
  "synced_from ok a b \<longleftrightarrow>
     (if ok then \<exists>f. a = Some f \<and> b = Some (synced_file (content f)) else b = a \<or> b = map_option flushed a)"

lemma stored_flushed: "stored (flushed f) = synced_file (content f)"
  by (simp add: stored_def flushed_def synced_file_def content_def)

lemma content_flushed [simp]: "content (flushed f) = content f" "fd_dur (flushed f) = fd_dur f"
  by (simp_all add: flushed_def content_def)

lemma sync_file_cases:
  assumes "sync_file pl nm c = (ok, c')"
  shows "synced_from ok (file_at pl nm c) (file_at pl nm c')"
proof -
  obtain k c1 where p: "fflush pl nm c = (k, c1)" by fastforce
  from p [unfolded fflush_def] show ?thesis
  proof (cases rule: update_cases)
    case 1
    then have "c' = c1" "\<not> ok" using assms p by (auto simp: sync_file_def)
    with 1 show ?thesis by (simp add: synced_from_def)
  next
    case (2 f)
    then have "fsync pl nm c1 = (ok, c')" using assms p by (simp add: sync_file_def)
    from this [unfolded fsync_def] show ?thesis by (cases rule: update_cases) (use 2 in \<open>auto simp: synced_from_def stored_flushed\<close>)
  qed
qed

lemma plain_call_file: "plain_call c = (ok, c') \<Longrightarrow> file_at pl nm c' = file_at pl nm c"
  unfolding plain_call_def by (erule call_cases) (auto dest: file_at_tick)

lemma sync_file_effect:
  assumes "sync_file pl nm c = (True, c')" and "file_at pl nm c = Some f"
  shows "file_at pl nm c' = Some (synced_file (content f))"
  using sync_file_cases [OF assms(1)] assms(2) by (simp add: synced_from_def)

lemma write_parts_effect:
  "write_parts pl nm ps c = (True, c') \<Longrightarrow> file_at pl nm c = Some f \<Longrightarrow>
   file_at pl nm c' = Some (synced_file (content f @ bytes_of (concat ps)))"
proof (induction ps arbitrary: c f)
  case Nil
  then show ?case using sync_file_effect by (simp add: bytes_of_def)
next
  case (Cons p ps)
  obtain k c1 where w: "fwrite pl nm (bytes_of p) c = (k, c1)" by fastforce
  with Cons.prems(1) have k: "k" "write_parts pl nm ps c1 = (True, c')" by (auto split: if_splits)
  then obtain f' where f': "file_at pl nm c1 = Some f'" "content f' = content f @ bytes_of p"
    using fwrite_effect [OF _ Cons.prems(2), of "bytes_of p" c1] w by auto
  from Cons.IH [OF k(2) f'(1)] f'(2) show ?case by (simp add: bytes_of_def)
qed

lemma unlink_effect:
  assumes "unlink pl nm c = (ok, c')"
  shows "file_at pl' nm' c' = file_at pl' nm' c \<or> pl' = pl \<and> nm' = nm \<and> file_at pl' nm' c' = None"
  using assms [unfolded unlink_def]
proof (cases rule: call_cases)
  case (1 r c1)
  then show ?thesis using file_at_tick by blast
next
  case (2 c1)
  show ?thesis using file_at_drop [OF 2(3), of pl' nm'] file_at_tick [OF 2(1), of pl' nm'] by auto
qed

lemma rename_effect:
  assumes "rename pl a b c = (ok, c')" and "a \<noteq> b"
  shows "if ok then file_at pl b c' = file_at pl a c \<and> file_at pl a c \<noteq> None else file_at pl nm c' = file_at pl nm c"
  using assms(1)[unfolded rename_def]
proof (cases rule: call_cases)
  case (1 r c1)
  then show ?thesis using file_at_tick by auto
next
  case (2 c1)
  then obtain f c2 where f: "file_at pl a c1 = Some f" and p: "put_file pl b f c2 = Some c'"
    by (auto simp: bind_eq_Some_conv split: option.splits if_splits)
  then have "file_at pl b c' = Some f" using file_at_put [OF p, of pl b] by simp
  moreover have "file_at pl a c = Some f" using f file_at_tick [OF 2(1)] by simp
  ultimately show ?thesis using 2(2) by simp
qed

lemma write_parts_other: "write_parts (In_Dir d) tmp ps c = (ok, c') \<Longrightarrow> nm \<noteq> tmp \<Longrightarrow> file_at (In_Dir d) nm c' = file_at (In_Dir d) nm c"
  using fr.write_parts [of "In_Dir d" tmp ps c ok c' "{(In_Dir d, tmp)}"] by (simp add: framed_def)

lemma fopen_w_other: "fopen_w (In_Dir d) tmp c = (ok, c') \<Longrightarrow> nm \<noteq> tmp \<Longrightarrow> file_at (In_Dir d) nm c' = file_at (In_Dir d) nm c"
  using fr.fopen_w [of "In_Dir d" tmp c ok c' "{(In_Dir d, tmp)}"] by (simp add: framed_def)

lemma atomic_effect:
  assumes "write_file_atomic (In_Dir p) tmp dst parts c = (err, c')" and "tmp \<noteq> dst"
  shows "err = ESP_OK \<Longrightarrow> file_at (In_Dir p) dst c' = Some (synced_file (bytes_of (concat parts)))"
    and "file_at (In_Dir p) dst c' \<in> {file_at (In_Dir p) dst c, None, Some (synced_file (bytes_of (concat parts)))}"
proof -
  let ?pl = "In_Dir p" and ?new = "Some (synced_file (bytes_of (concat parts)))"
  obtain o1 c1 where a: "fopen_w ?pl tmp c = (o1, c1)" by fastforce
  obtain o2 c2 where b: "write_parts ?pl tmp parts c1 = (o2, c2)" by fastforce
  obtain o3 c3 where d: "plain_call c2 = (o3, c3)" by fastforce
  obtain o4 c4 where e: "unlink ?pl dst c3 = (o4, c4)" by fastforce
  obtain o5 c5 where f: "rename ?pl tmp dst c4 = (o5, c5)" by fastforce
  have d1: "file_at ?pl dst c1 = file_at ?pl dst c" using fopen_w_other [OF a] assms(2) by simp
  have d3: "file_at ?pl dst c3 = file_at ?pl dst c"
    using write_parts_other [OF b] plain_call_file [OF d] assms(2) d1 by simp
  have d4: "file_at ?pl dst c4 \<in> {file_at ?pl dst c, None}" using unlink_effect [OF e, of ?pl dst] d3 by auto
  have d5: "o1 \<Longrightarrow> o2 \<Longrightarrow> o5 \<Longrightarrow> file_at ?pl dst c5 = ?new"
  proof -
    assume o: "o1" "o2" "o5"
    have "file_at ?pl tmp c1 = Some (synced_file [])" using fopen_w_effect a o by simp
    then have "file_at ?pl tmp c2 = ?new" using write_parts_effect [of ?pl tmp parts c1 c2] b o by (simp add: content_def synced_file_def)
    then have "file_at ?pl tmp c4 = ?new" using plain_call_file [OF d] unlink_effect [OF e, of ?pl tmp] assms(2) by auto
    then show ?thesis using rename_effect [OF f assms(2)] o by simp
  qed
  have d5': "\<not> o5 \<Longrightarrow> file_at ?pl dst c5 = file_at ?pl dst c4" using rename_effect [OF f assms(2), of dst] by simp
  have u: "file_at ?pl dst (snd (unlink ?pl tmp x)) = file_at ?pl dst x" for x
    using unlink_effect [of ?pl tmp x "fst (unlink ?pl tmp x)" "snd (unlink ?pl tmp x)" ?pl dst] assms(2) by auto
  have all: "(err = ESP_OK \<longrightarrow> o1 \<and> o2 \<and> o5 \<and> c' = c5) \<and>
      (err \<noteq> ESP_OK \<longrightarrow> c' \<in> {c1, snd (unlink ?pl tmp c3)} \<or> \<not> o5 \<and> c' = snd (unlink ?pl tmp c5))"
    using assms(1) a b d e f by (auto simp: write_file_atomic_def split: if_splits)
  show "err = ESP_OK \<Longrightarrow> file_at ?pl dst c' = ?new" using all d5 by simp
  show "file_at ?pl dst c' \<in> {file_at ?pl dst c, None, ?new}"
    using all d1 d3 d4 d5 d5' u by (cases "err = ESP_OK") auto
qed

subsection \<open>Closing\<close>

text \<open>A close record that is written beside settled rows it describes is true.\<close>

lemma write_close_record:
  assumes "write_close seq clean rows nb sha meta c = (err, c')"
    and "file_at (In_Dir (seq_name seq)) CLOSE_FILE c = None"
    and "file_at (In_Dir (seq_name seq)) ROWS_FILE c = Some r" and "settled r"
    and "rows = count_rows (fd_dur r)" and "nb = length (fd_dur r)" and "sha = sha256_of (fd_dur r)"
  shows "file_at (In_Dir (seq_name seq)) ROWS_FILE c' = Some r"
    and "err = ESP_OK \<Longrightarrow> file_at (In_Dir (seq_name seq)) CLOSE_FILE c' \<noteq> None"
    and "framed ({In_Dir (seq_name seq)} \<times> UNIV) c c'"
    and "file_at (In_Dir (seq_name seq)) CLOSE_FILE c' = Some f \<Longrightarrow> record_true f (Some r)"
proof -
  let ?d = "In_Dir (seq_name seq)"
  have fr: "framed {(?d, ''CLOSE.TMP''), (?d, CLOSE_FILE)} c c'" by (rule fr.write_close [OF assms(1)]) simp
  then show "file_at ?d ROWS_FILE c' = Some r" and "framed ({?d} \<times> UNIV) c c'" using assms(3) by (simp_all add: framed_def)
  let ?text = "bytes_of (close_head clean rows nb sha @ (case meta of None \<Rightarrow> ''null'' | Some m \<Rightarrow> m) @ ''}'' @ [CHR 0x0A])"
  have new: "file_at ?d CLOSE_FILE c' \<in> {None, Some (synced_file ?text)} \<and> (err = ESP_OK \<longrightarrow> file_at ?d CLOSE_FILE c' \<noteq> None)"
  proof (cases "192 \<le> length (close_head clean rows nb sha)")
    case True
    then show ?thesis using assms(1,2) by (simp add: write_close_def)
  next
    case False
    with assms(1) have a: "write_file_atomic ?d ''CLOSE.TMP'' CLOSE_FILE
        [close_head clean rows nb sha, (case meta of None \<Rightarrow> ''null'' | Some m \<Rightarrow> m), ''}'' @ [CHR 0x0A]] c = (err, c')"
      by (simp add: write_close_def)
    show ?thesis using atomic_effect [OF a] assms(2) by auto
  qed
  have "record_true (synced_file ?text) (Some r)"
    unfolding record_true_def using assms(4-7) by (auto simp: synced_file_def)
  with new show "file_at ?d CLOSE_FILE c' = Some f \<Longrightarrow> record_true f (Some r)" by auto
  show "err = ESP_OK \<Longrightarrow> file_at ?d CLOSE_FILE c' \<noteq> None" using new by simp
qed

lemma write_close_true:
  assumes "write_close seq clean rows nb sha meta c = (err, c')"
    and "file_at (In_Dir (seq_name seq)) CLOSE_FILE c = None" and "card_true c"
    and "file_at (In_Dir (seq_name seq)) ROWS_FILE c = Some r" and "settled r"
    and "rows = count_rows (fd_dur r)" and "nb = length (fd_dur r)" and "sha = sha256_of (fd_dur r)"
  shows "card_true c'"
  by (rule card_true_dir [OF write_close_record(3) [OF assms(1,2,4-8)] assms(3)])
     (simp add: write_close_record(1,4) [OF assms(1,2,4-8)])

subsection \<open>The open session\<close>

text \<open>What the handle knows of the rows: nothing once a write failed, else their digest so far, their number and their size.\<close>

definition session_true :: "sdlog_session \<Rightarrow> card \<Rightarrow> bool" where
  "session_true s c \<longleftrightarrow>
     file_at (session_dir s) CLOSE_FILE c = None \<and>
     (\<not> ss_failed s \<longrightarrow>
        (\<forall>r. file_at (session_dir s) ROWS_FILE c = Some r \<longrightarrow>
               sha.fed (content r) (ss_sha s) \<and> ss_rows s = count_rows (content r) \<and> ss_bytes s = length (content r)))"

lemma session_true_shrinks: "shrinks c c' \<Longrightarrow> session_true s c \<Longrightarrow> session_true s c'"
  unfolding session_true_def shrinks_def by (metis insertCI option.distinct(1))

lemma sync_rows_frame:
  "sync_file (In_Dir d) ROWS_FILE c = (ok, c') \<Longrightarrow> framed {(In_Dir d, ROWS_FILE)} c c'"
  by (rule fr.sync_file) simp_all

lemma fwrite_rows_frame:
  "fwrite (In_Dir d) ROWS_FILE b c = (ok, c') \<Longrightarrow> framed {(In_Dir d, ROWS_FILE)} c c'"
  by (rule fr.fwrite) simp_all

text \<open>A change of rows that have no close record.\<close>

lemma rows_change:
  assumes "framed {(In_Dir d, ROWS_FILE)} c c'" and "file_at (In_Dir d) CLOSE_FILE c = None" and "card_true c"
  shows "card_true c'" and "file_at (In_Dir d) CLOSE_FILE c' = None"
proof -
  show n: "file_at (In_Dir d) CLOSE_FILE c' = None" using assms(1,2) by (simp add: framed_def)
  show "card_true c'" by (rule card_true_dir [of d c]) (use assms n in \<open>auto simp: framed_def\<close>)
qed

lemma content_synced [simp]: "content (synced_file b) = b"
  by (simp add: content_def synced_file_def)

lemma synced_from_content: "synced_from ok a (Some r) \<Longrightarrow> \<exists>f. a = Some f \<and> content r = content f"
  by (cases a) (auto simp: synced_from_def split: if_splits)

lemma session_true_update:
  "session_true s c \<Longrightarrow> ss_failed s \<or> ss_failed s' = ss_failed s \<and> ss_sha s' = ss_sha s \<and> ss_rows s' = ss_rows s \<and> ss_bytes s' = ss_bytes s \<or> ss_failed s' \<Longrightarrow>
   ss_seq s' = ss_seq s \<Longrightarrow> (ss_failed s \<Longrightarrow> ss_failed s') \<Longrightarrow> session_true s' c"
  by (auto simp: session_true_def)

lemma sync_keeps:
  assumes "espos_sdlog_sync s c = (err, s', c')" and "session_true s c" and "card_true c"
  shows "session_true s' c'" and "card_true c'"
proof -
  obtain k c1 where y: "sync_file (session_dir s) ROWS_FILE c = (k, c1)" by fastforce
  show "session_true s' c'" and "card_true c'"
  proof (atomize (full), cases "ss_failed s")
    case True
    then show "session_true s' c' \<and> card_true c'" using assms by (simp add: espos_sdlog_sync_def)
  next
    case False
    have n: "file_at (session_dir s) CLOSE_FILE c = None" using assms(2) by (simp add: session_true_def)
    note ch = rows_change [OF sync_rows_frame [OF y] n assms(3)]
    have "session_true s c1"
      using sync_file_cases [OF y] assms(2) ch(2) synced_from_content [of k] by (fastforce simp: session_true_def)
    then show "session_true s' c' \<and> card_true c'"
      using assms(1) y False ch(1) by (auto simp: espos_sdlog_sync_def split: if_splits intro: session_true_update)
  qed
qed

lemma bytes_of_simps [simp]: "length (bytes_of s) = length s" "bytes_of (a @ b) = bytes_of a @ bytes_of b" "bytes_of [] = []"
  by (simp_all add: bytes_of_def)

lemma count_rows_append [simp]: "count_rows (a @ b) = count_rows a + count_rows b" "count_rows [] = 0"
  by (simp_all add: count_rows_def)

lemma of_char_u8_inject: "(of_nat (of_char a) :: u8) = of_nat (of_char b) \<longleftrightarrow> a = b"
  using unat_of_char_u8 [of a] unat_of_char_u8 [of b] by (metis of_char_eq_iff)

lemma count_rows_zero: "CHR 0x0A \<notin> set s \<Longrightarrow> count_rows (bytes_of s) = 0"
proof -
  assume n: "CHR 0x0A \<notin> set s"
  have "(0x0A :: u8) = of_nat (of_char (CHR 0x0A))" by simp
  then have "(of_nat (of_char c) :: u8) \<noteq> 0x0A" if "c \<in> set s" for c using n that of_char_u8_inject [of c "CHR 0x0A"] by auto
  then show ?thesis by (simp add: count_rows_def bytes_of_def filter_empty_conv)
qed

lemma newline_free_hex: "CHR 0x0A \<notin> set (word_hex w)"
proof -
  define hs where "hs = ''0123456789abcdef''"
  have l: "length hs = 16" and h: "CHR 0x0A \<notin> set hs" by (simp_all add: hs_def)
  have "CHR 0x0A \<noteq> hs ! n" if "n < 16" for n using nth_mem [of n hs] that l h by metis
  then have "CHR 0x0A \<noteq> sha_hex_char (drop_bit 4 b)" "CHR 0x0A \<noteq> sha_hex_char (b AND 15)" for b :: u8
    unfolding sha_hex_char_def hs_def [symmetric] using nibble_less [of b] by auto
  then show ?thesis unfolding word_hex_def Let_def by (auto simp: upt_rec)
qed

lemma count_rows_tail: "count_rows (bytes_of (row_tail crc row)) = 1"
  unfolding row_tail_def by (simp add: count_rows_zero newline_free_hex) (simp add: count_rows_def bytes_of_def)

text \<open>The handle after a row that was written.\<close>

definition after_row :: "sdlog_session \<Rightarrow> string \<Rightarrow> sdlog_session" where
  "after_row s w =
     (let tail = row_tail (ss_row_crc s) w
      in s\<lparr>ss_sha := espos_sdlog_sha256_update (espos_sdlog_sha256_update (ss_sha s) (bytes_of w)) (bytes_of tail),
           ss_rows := ss_rows s + 1, ss_bytes := ss_bytes s + (length w + length tail), ss_unsynced := ss_unsynced s + 1\<rparr>)"

lemma fwrite_true_file: "fwrite pl nm b c = (True, c') \<Longrightarrow> file_at pl nm c \<noteq> None"
  by (auto simp: fwrite_def add_bytes_def split: prod.splits outcome.splits option.splits dest: file_at_tick [where pl = pl and nm = nm])

lemma row_written:
  assumes "fwrite (session_dir s) ROWS_FILE (bytes_of w) c = (True, c1)"
    and "fwrite (session_dir s) ROWS_FILE (bytes_of (row_tail (ss_row_crc s) w)) c1 = (True, c2)"
    and "session_true s c" and "\<not> ss_failed s" and "CHR 0x0A \<notin> set w"
  shows "session_true (after_row s w) c2"
proof -
  let ?d = "session_dir s" and ?tail = "row_tail (ss_row_crc s) w"
  obtain r where r: "file_at ?d ROWS_FILE c = Some r" using fwrite_true_file [OF assms(1)] by blast
  obtain r1 where r1: "file_at ?d ROWS_FILE c1 = Some r1" "content r1 = content r @ bytes_of w" using fwrite_effect [OF assms(1) r] by auto
  obtain r2 where r2: "file_at ?d ROWS_FILE c2 = Some r2" "content r2 = content r1 @ bytes_of ?tail" using fwrite_effect [OF assms(2) r1(1)] by auto
  have old: "sha.fed (content r) (ss_sha s)" "ss_rows s = count_rows (content r)" "ss_bytes s = length (content r)"
    using assms(3,4) r by (auto simp: session_true_def)
  have "sha.fed ((content r @ bytes_of w) @ bytes_of ?tail) (ss_sha (after_row s w))"
    unfolding after_row_def Let_def using sha.fed_feed [OF sha.fed_feed [OF old(1)]] by simp
  moreover have "file_at ?d CLOSE_FILE c2 = None"
    using fwrite_rows_frame [OF assms(1)] fwrite_rows_frame [OF assms(2)] assms(3) by (simp add: framed_def session_true_def)
  ultimately show ?thesis using r2 r1(2) old(2,3) count_rows_zero [OF assms(5)] count_rows_tail [of "ss_row_crc s" w]
    by (simp add: session_true_def after_row_def Let_def)
qed

lemma append_keeps:
  assumes "espos_sdlog_append s row c = (err, s', c')" and "session_true s c" and "card_true c"
  shows "session_true s' c' \<and> card_true c'"
proof (cases "row = None \<or> CHR 0x0D \<in> set (the row) \<or> CHR 0x0A \<in> set (the row) \<or> ss_failed s")
  case True
  then show ?thesis using assms by (auto simp: espos_sdlog_append_def split: if_splits option.splits)
next
  case False
  then obtain w where w: "row = Some w" "CHR 0x0A \<notin> set w" by auto
  define tail where "tail = row_tail (ss_row_crc s) w"
  let ?d = "session_dir s"
  obtain k1 c1 where f1: "fwrite ?d ROWS_FILE (bytes_of w) c = (k1, c1)" by fastforce
  obtain k2 c2 where f2: "fwrite ?d ROWS_FILE (bytes_of tail) c1 = (k2, c2)" by fastforce
  have n: "file_at ?d CLOSE_FILE c = None" using assms(2) by (simp add: session_true_def)
  note ch1 = rows_change [OF fwrite_rows_frame [OF f1] n assms(3)]
  note ch2 = rows_change [OF fwrite_rows_frame [OF f2] ch1(2,1)]
  let ?s = "after_row s w"
  have good: "session_true ?s c2" if "k1" "k2" using row_written [of s w c c1 c2] f1 f2 that assms(2) False w by (simp add: tail_def)
  have bad: "session_true (s\<lparr>ss_failed := True\<rparr>) x" if "file_at ?d CLOSE_FILE x = None" for x using that by (simp add: session_true_def)
  consider "\<not> k1" | "k1" "\<not> k2" | "k1" "k2" by blast
  then show ?thesis
  proof cases
    case 1
    then have "s' = s\<lparr>ss_failed := True\<rparr>" "c' = c1" using assms(1) w False f1 by (auto simp: espos_sdlog_append_def Let_def)
    with bad ch1 show ?thesis by simp
  next
    case 2
    then have "s' = s\<lparr>ss_failed := True\<rparr>" "c' = c2" using assms(1) w False f1 f2 by (auto simp: espos_sdlog_append_def Let_def tail_def)
    with bad ch2 show ?thesis by simp
  next
    case 3
    note g = good [OF 3]
    have "(espos_sdlog_sync ?s c2 = (err, s', c')) \<or> s' = ?s \<and> c' = c2"
      using assms(1) w False f1 f2 3 by (auto simp: espos_sdlog_append_def after_row_def Let_def tail_def split: if_splits)
    then show ?thesis using sync_keeps [OF _ g ch2(1)] g ch2(1) by auto
  qed
qed

lemma close_keeps:
  assumes "espos_sdlog_close s meta c = (err, c')" and "session_true s c" and "card_true c"
  shows "card_true c'"
proof -
  let ?d = "session_dir s"
  have n: "file_at ?d CLOSE_FILE c = None" using assms(2) by (simp add: session_true_def)
  obtain k c1 where y: "(if ss_failed s then (False, c) else sync_file ?d ROWS_FILE c) = (k, c1)" by fastforce
  obtain cl c2 where p: "plain_call c1 = (cl, c2)" by fastforce
  have "framed {(?d, ROWS_FILE)} c c1" using y sync_rows_frame by (auto simp: framed_def split: if_splits)
  note ch = rows_change [OF this n assms(3)]
  have f2: "file_at pl nm c2 = file_at pl nm c1" for pl nm by (rule plain_call_file [OF p])
  have t2: "card_true c2" using ch(1) f2 by (simp add: card_true_def)
  show ?thesis
  proof (cases "cl \<and> k")
    case True
    then have y': "\<not> ss_failed s" "sync_file ?d ROWS_FILE c = (True, c1)" using y by (auto split: if_splits)
    then obtain r where r: "file_at ?d ROWS_FILE c = Some r" "file_at ?d ROWS_FILE c1 = Some (synced_file (content r))"
      using sync_file_cases [OF y'(2)] by (auto simp: synced_from_def)
    have old: "sha.fed (content r) (ss_sha s)" "ss_rows s = count_rows (content r)" "ss_bytes s = length (content r)"
      using assms(2) y'(1) r by (auto simp: session_true_def)
    have "write_close (ss_seq s) True (ss_rows s) (ss_bytes s) (espos_sdlog_sha256_hex (ss_sha s)) meta c2 = (err, c')"
      using assms(1) y p True by (simp add: espos_sdlog_close_def)
    then show ?thesis
      by (rule write_close_true [where r = "synced_file (content r)"]) (use ch(2) f2 t2 r old sha.finish_fed [OF old(1)] in \<open>simp_all add: synced_file_def\<close>)
  next
    case False
    then have "c' = c2" using assms(1) y p by (auto simp: espos_sdlog_close_def split: if_splits)
    with t2 show ?thesis by simp
  qed
qed

lemma mkdir_fresh:
  assumes "mkdir d c = (True, c')"
  shows "file_at (In_Dir d) nm c' = None"
  using assms [unfolded mkdir_def]
proof (cases rule: call_cases)
  case (2 c1)
  then have "map_of (cd_dirs c1) d = None" "c' = c1\<lparr>cd_dirs := cd_dirs c1 @ [(d, [])]\<rparr>" by (auto split: if_splits)
  then show ?thesis by (auto simp: file_at_def map_add_def split: option.splits)
qed simp

lemma open_session_keeps:
  assumes "open_session q every crc header c = (err, so, c')" and "card_true c"
  shows "card_true c' \<and> (\<forall>s. so = Some s \<longrightarrow> session_true s c')"
proof -
  let ?d = "In_Dir (seq_name q)"
  obtain k1 c1 where a: "mkdir (seq_name q) c = (k1, c1)" by fastforce
  obtain e2 c2 where b: "write_file_atomic ?d ''HEAD.TMP'' HEAD_FILE [header] c1 = (e2, c2)" by fastforce
  obtain k3 c3 where d: "plain_call c2 = (k3, c3)" by fastforce
  obtain k4 c4 where e: "fopen_w ?d ROWS_FILE c3 = (k4, c4)" by fastforce
  have s1: "shrinks c c1" by (rule sh.mkdir [OF a UNIV_I])
  have s2: "shrinks c c2" using s1 sh.write_file_atomic [OF b] sh.trans by simp
  have s3: "shrinks c c3" using s2 sh.plain_call [OF d] sh.trans by blast
  have rm: "shrinks x (snd (espos_sdlog_remove q x))" for x using sh.remove [of q x "fst (espos_sdlog_remove q x)"] by simp
  have t: "card_true x" if "shrinks c x" for x using that assms(2) card_true_shrinks by blast
  have n3: "file_at ?d CLOSE_FILE c3 = None" if "k1"
  proof -
    have "file_at ?d CLOSE_FILE c1 = None" using mkdir_fresh [of "seq_name q" c c1] a that by simp
    moreover have "shrinks c1 c3" using sh.write_file_atomic [OF b] sh.plain_call [OF d] sh.trans by simp
    ultimately show ?thesis using shrinks_None by blast
  qed
  have fr4: "framed {(?d, ROWS_FILE)} c3 c4" by (rule fr.fopen_w [OF e]) simp
  note ch = rows_change [OF fr4 n3 t [OF s3]]
  consider "\<not> k1" | "k1" "e2 \<noteq> ESP_OK" | "k1" "e2 = ESP_OK" "\<not> k3" | "k1" "e2 = ESP_OK" "k3" "\<not> k4" | "k1" "e2 = ESP_OK" "k3" "k4" by blast
  then show ?thesis
  proof cases
    case 1
    then show ?thesis using assms(1) a t s1 by (simp add: open_session_def)
  next
    case 2
    then show ?thesis using assms(1) a b t [OF sh.trans [OF s2 rm]] by (auto simp: open_session_def)
  next
    case 3
    then show ?thesis using assms(1) a b d t [OF sh.trans [OF s3 rm]] by (auto simp: open_session_def)
  next
    case 4
    then show ?thesis using assms(1) a b d e card_true_shrinks [OF rm ch(1)] by (auto simp: open_session_def)
  next
    case 5
    have "file_at ?d ROWS_FILE c4 = Some (synced_file [])" using fopen_w_effect [of ?d ROWS_FILE c3 c4] e 5 by simp
    then show ?thesis using assms(1) a b d e 5 ch sha.fed_start by (auto simp: open_session_def session_true_def)
  qed
qed

lemma open_keeps:
  assumes "espos_sdlog_open rt header cfg c = (err, so, c')" and "card_true c"
  shows "card_true c' \<and> (\<forall>s. so = Some s \<longrightarrow> session_true s c')"
proof (cases "header = None \<or> fst rt + 1 + 8 + 1 + 12 \<ge> 160")
  case True
  then show ?thesis using assms by (auto simp: espos_sdlog_open_def)
next
  case False
  obtain e1 c1 where a: "mkdir_p rt c = (e1, c1)" by fastforce
  obtain e2 qs c2 where b: "scan c1 = (e2, qs, c2)" by (metis prod_cases3)
  obtain v c3 where d: "read_last_seq c2 = (v, c3)" by fastforce
  define l where "l = (if qs \<noteq> [] \<and> last qs > v then last qs else v)"
  obtain e4 c4 where e: "write_last_seq (l + 1) c3 = (e4, c4)" by fastforce
  have s1: "shrinks c c1" by (rule sh.mkdir_p [OF a])
  have s2: "shrinks c c2" using s1 sh.scan [OF b] sh.trans by blast
  have s3: "shrinks c c3" using s2 sh.read_last_seq [OF d] sh.trans by blast
  have s4: "shrinks c c4" using s3 sh.write_last_seq [OF e] sh.trans by simp
  have t: "card_true x" if "shrinks c x" for x using that assms(2) card_true_shrinks by blast
  have "so = None \<and> c' \<in> {c1, c2, c3, c4} \<or> (\<exists>ev crc. open_session (l + 1) ev crc (the header) c4 = (err, so, c'))"
    using assms(1) False a b d e by (auto simp: espos_sdlog_open_def l_def Let_def split: if_splits)
  then show ?thesis using t s1 s2 s3 s4 open_session_keeps [OF _ t [OF s4]] by auto
qed

end
