(* ===== verification/Sdlog_Record.thy ===== *)
theory Sdlog_Record
  imports Sdlog_Crash
begin

text \<open>
  The close record reads back: \<open>parse_close\<close> on what \<open>close_head\<close> prints, whatever follows, and on a record of which a read
  brought only the front.
\<close>

subsection \<open>Numbers\<close>

lemma dec_of_nat_props: "list_all is_digit (dec_of_nat n) \<and> dec_of_nat n \<noteq> [] \<and> dec_value (dec_of_nat n) = n"
proof (induction n rule: dec_of_nat.induct)
  case (1 n)
  have d: "is_digit (digit k)" "of_char (digit k) - 48 = k" if "k < 10" for k
    using digit_char [OF that] that by (simp_all add: digit_def)
  show ?case
  proof (cases "n < 10")
    case True
    then show ?thesis using d by (simp add: dec_of_nat.simps [of n] dec_value_def)
  next
    case False
    then show ?thesis using 1 d by (simp add: dec_of_nat.simps [of n] dec_value_def)
  qed
qed

lemma digit_plain: "is_digit c \<Longrightarrow> \<not> is_space c \<and> c \<noteq> CHR ''-'' \<and> c \<noteq> CHR ''+''"
  by (auto simp: is_digit_def is_space_def)

lemma scan_unsigned_dec:
  assumes "n < 2 ^ w" and "r \<noteq> []" and "\<not> is_digit (hd r)"
  shows "scan_unsigned w (dec_of_nat n @ r) = Some (n, r)"
proof -
  obtain c cs where ds: "dec_of_nat n = c # cs" using dec_of_nat_props [of n] by (cases "dec_of_nat n") auto
  have all: "\<forall>x \<in> set (dec_of_nat n). is_digit x" using dec_of_nat_props [of n] by (simp add: list_all_iff)
  then have "is_digit c" using ds by simp
  note c = digit_plain [OF this] this
  have "takeWhile is_digit (dec_of_nat n @ r) = dec_of_nat n" "dropWhile is_digit (dec_of_nat n @ r) = r"
    using all assms(2,3) by (cases r; simp add: takeWhile_append2)+
  moreover have "dec_value (dec_of_nat n) = n" using dec_of_nat_props by blast
  ultimately show ?thesis using c ds assms(1) by (simp add: scan_unsigned_def Let_def)
qed

text \<open>More bytes behind a text change nothing of what a conversion read that did not run into its end.\<close>

lemma lit_more: "lit p s = Some t \<Longrightarrow> lit p (s @ x) = Some (t @ x)"
proof -
  assume "lit p s = Some t"
  then have "s = p @ t" by (auto simp: lit_def split: if_splits) (metis append_take_drop_id)
  then show ?thesis by (simp add: lit_def)
qed

lemma takeWhile_more: "dropWhile P s \<noteq> [] \<Longrightarrow> takeWhile P (s @ x) = takeWhile P s \<and> dropWhile P (s @ x) = dropWhile P s @ x"
  by (metis dropWhile_append1 dropWhile_eq_Nil_conv takeWhile_append1)

lemma scan_unsigned_more:
  assumes "scan_unsigned w s = Some (v, t)" and "t \<noteq> []"
  shows "scan_unsigned w (s @ x) = Some (v, t @ x)"
proof -
  define s1 where "s1 = dropWhile is_space s"
  define s2 where "s2 = (if s1 \<noteq> [] \<and> (hd s1 = CHR ''-'' \<or> hd s1 = CHR ''+'') then tl s1 else s1)"
  have t: "t = dropWhile is_digit s2" "takeWhile is_digit s2 \<noteq> []"
    using assms(1) unfolding scan_unsigned_def Let_def s1_def [symmetric] s2_def [symmetric] by (auto split: if_splits)
  then have n: "s1 \<noteq> []" "s2 \<noteq> []" using s2_def by auto
  have e1: "dropWhile is_space (s @ x) = s1 @ x" using takeWhile_more [of is_space s x] n(1) s1_def by simp
  have e2: "(if s1 @ x \<noteq> [] \<and> (hd (s1 @ x) = CHR ''-'' \<or> hd (s1 @ x) = CHR ''+'') then tl (s1 @ x) else s1 @ x) = s2 @ x"
    using n(1) by (simp add: s2_def)
  have e3: "takeWhile is_digit (s2 @ x) = takeWhile is_digit s2" "dropWhile is_digit (s2 @ x) = t @ x"
    using takeWhile_more [of is_digit s2 x] t(1) assms(2) by simp_all
  show ?thesis using assms(1) n(1) t
    unfolding scan_unsigned_def Let_def e1 e2 e3 s1_def [symmetric] s2_def [symmetric] by (simp split: if_splits)
qed

lemma scan_class_more:
  assumes "scan_class n P s = Some (r, t)" and "t \<noteq> [] \<or> length r = n"
  shows "scan_class n P (s @ x) = Some (r, t @ x)"
proof -
  have r: "r = take n (takeWhile P s)" "t = drop (length r) s" "r \<noteq> []"
    using assms(1) by (auto simp: scan_class_def Let_def split: if_splits)
  have len: "length (takeWhile P s) \<le> length s" by (rule length_takeWhile_le)
  have "take n (takeWhile P (s @ x)) = r"
  proof (cases "dropWhile P s = []")
    case False
    then show ?thesis using takeWhile_more r(1) by metis
  next
    case True
    then have tw: "takeWhile P s = s" by (metis append_Nil2 takeWhile_dropWhile_id)
    have "n \<le> length s" using assms(2)
    proof
      assume "t \<noteq> []"
      then show ?thesis using r(1,2) tw by (cases "n \<le> length s") simp_all
    qed (use r(1) tw in simp)
    moreover have "takeWhile P (s @ x) = s @ takeWhile P x" using tw by (simp add: takeWhile_append takeWhile_eq_all_conv)
    ultimately show ?thesis using r(1) tw by simp
  qed
  moreover have "length r \<le> length s" using r(1) len by simp
  ultimately show ?thesis using r by (simp add: scan_class_def Let_def)
qed

lemma lit_nonempty: "lit p s = Some t \<Longrightarrow> p \<noteq> [] \<Longrightarrow> s \<noteq> []"
  by (auto simp: lit_def split: if_splits)

lemma parse_close_more:
  assumes "parse_close s = Some (cl, rows, nb, sha)" and "length sha = 64"
  shows "parse_close (s @ x) = Some (cl, rows, nb, sha)"
proof -
  from assms(1) obtain s1 s2 s3 s4 s5 s6 s7 s8 where p:
    "lit ''{\"closed\":true,\"clean\":'' s = Some s1" "scan_class 5 is_lower s1 = Some (cl, s2)"
    "lit '',\"rows\":'' s2 = Some s3" "scan_unsigned 64 s3 = Some (rows, s4)"
    "lit '',\"bytes\":'' s4 = Some s5" "scan_unsigned 64 s5 = Some (nb, s6)"
    "lit '',\"sha256\":\"'' s6 = Some s7" "scan_class 64 is_hex s7 = Some (sha, s8)"
    by (auto simp: parse_close_def bind_eq_Some_conv)
  have n: "s2 \<noteq> []" "s4 \<noteq> []" "s6 \<noteq> []" using lit_nonempty p(3,5,7) by blast+
  note m = lit_more [OF p(1)] scan_class_more [OF p(2)] lit_more [OF p(3)] scan_unsigned_more [OF p(4)] lit_more [OF p(5)]
    scan_unsigned_more [OF p(6)] lit_more [OF p(7)] scan_class_more [OF p(8)]
  show ?thesis using n assms(2) by (simp add: parse_close_def m)
qed

subsection \<open>The record\<close>

lemma lit_append: "lit p (p @ s) = Some s"
  by (simp add: lit_def)

lemma scan_class_append:
  "r \<noteq> [] \<Longrightarrow> length r \<le> n \<Longrightarrow> list_all P r \<Longrightarrow> s \<noteq> [] \<Longrightarrow> \<not> P (hd s) \<Longrightarrow> scan_class n P (r @ s) = Some (r, s)"
  by (cases s) (simp_all add: scan_class_def Let_def takeWhile_append2 list_all_iff)

lemma parse_close_head:
  assumes "rows < 2 ^ 64" and "nb < 2 ^ 64" and "length sha = 64" and "list_all is_hex sha"
  shows "parse_close (close_head clean rows nb sha @ x) = Some (if clean then ''true'' else ''false'', rows, nb, sha)"
proof -
  let ?c = "if clean then ''true'' else ''false''"
  have h: "close_head clean rows nb sha @ x =
      ''{\"closed\":true,\"clean\":'' @ (?c @ ('',\"rows\":'' @ (dec_of_nat rows @ ('',\"bytes\":'' @ (dec_of_nat nb @ ('',\"sha256\":\"'' @ (sha @ (''\",\"meta\":'' @ x))))))))"
    by (simp add: close_head_def)
  have c: "scan_class 5 is_lower (?c @ ('',\"rows\":'' @ s)) = Some (?c, '',\"rows\":'' @ s)" for s
    by (rule scan_class_append) (simp_all add: is_lower_def)
  have d: "scan_unsigned 64 (dec_of_nat rows @ ('',\"bytes\":'' @ s)) = Some (rows, '',\"bytes\":'' @ s)"
    "scan_unsigned 64 (dec_of_nat nb @ ('',\"sha256\":\"'' @ s)) = Some (nb, '',\"sha256\":\"'' @ s)" for s
    by (rule scan_unsigned_dec; use assms(1,2) in \<open>simp add: is_digit_def\<close>)+
  have e: "scan_class 64 is_hex (sha @ (''\",\"meta\":'' @ x)) = Some (sha, ''\",\"meta\":'' @ x)"
    by (rule scan_class_append) (use assms(3,4) in \<open>auto simp: is_hex_def is_digit_def\<close>)
  show ?thesis unfolding h parse_close_def by (simp only: lit_append c d e bind.bind_lunit prod.case)
qed

lemma hex_chars: "list_all is_hex (word_hex w) \<and> length (word_hex w) = 8"
proof -
  have "\<forall>n < 16. is_hex (''0123456789abcdef'' ! n)" by code_simp
  then have "is_hex (sha_hex_char (drop_bit 4 b))" "is_hex (sha_hex_char (and b 15))" for b :: u8
    using nibble_less [of b] by (simp_all add: sha_hex_char_def)
  then show ?thesis by (simp add: word_hex_def Let_def upt_rec)
qed

lemma sha256_of_hex: "list_all is_hex (sha256_of m) \<and> length (sha256_of m) = 64"
  using hex_chars by (simp add: sha256_of_def upt_rec)

text \<open>What a read brings of the text of a file: a front of it.\<close>

lemma bytes_cstr_front: "\<exists>y. t = bytes_cstr (take k (bytes_of t)) @ y"
proof -
  have f: "map (\<lambda>b. char_of (unat b)) (bytes_of s) = s" for s by (induction s) (simp_all add: bytes_of_def unat_of_char_u8)
  obtain z where z: "bytes_of t = takeWhile (\<lambda>b. b \<noteq> 0) (take k (bytes_of t)) @ z"
    by (metis append.assoc append_take_drop_id takeWhile_dropWhile_id)
  then have "t = bytes_cstr (take k (bytes_of t)) @ map (\<lambda>b. char_of (unat b)) z"
    unfolding bytes_cstr_def by (metis f map_append)
  then show ?thesis by blast
qed

lemma count_rows_le: "count_rows b \<le> length b"
  by (simp add: count_rows_def)

text \<open>A record that is true of the rows, read whole or in part, is not read as something else.\<close>

lemma read_close_true:
  assumes "read_close q i c = (ESP_OK, i', c')" and "card_true c"
    and "file_at (In_Dir (seq_name q)) ROWS_FILE c = Some r" and "length (fd_dur r) < 2 ^ 64"
  shows "in_rows i' = count_rows (fd_dur r) \<and> in_bytes i' = length (fd_dur r) \<and> in_sha256 i' = sha256_of (fd_dur r) \<and> content r = fd_dur r"
proof -
  let ?d = "In_Dir (seq_name q)"
  obtain x c1 where a: "fopen_r ?d CLOSE_FILE c = (x, c1)" by fastforce
  obtain b where b: "x = Opened b" using assms(1) a by (cases x) (auto simp: read_close_def)
  obtain f where f: "file_at ?d CLOSE_FILE c = Some f" "b = content f" using a b
    by (auto simp: fopen_r_def split: prod.splits outcome.splits option.splits dest: file_at_tick [where pl = ?d and nm = CLOSE_FILE])
  obtain clean meta where rec: "fd_vol f = []" "fd_vol r = []"
      "fd_dur f = bytes_of (close_head clean (count_rows (fd_dur r)) (length (fd_dur r)) (sha256_of (fd_dur r)) @ meta)"
  proof -
    have "record_true f (Some r)" using assms(2,3) f(1) by (metis card_true_def)
    then show ?thesis using that by (auto simp: record_true_def settled_def)
  qed
  obtain b' k c2 where e: "fread_all (take 255 b) c1 = (b', k, c2)" by (metis prod_cases3)
  obtain n where n: "b' = take n b" using e by (auto simp: fread_all_def min_def split: prod.splits outcome.splits intro: that [of 0])
  define t where "t = close_head clean (count_rows (fd_dur r)) (length (fd_dur r)) (sha256_of (fd_dur r)) @ meta"
  obtain y where y: "t = bytes_cstr b' @ y"
    using bytes_cstr_front [of t n] n f(2) rec(1,3) by (auto simp: content_def t_def)
  obtain cl rows nb sha where p: "parse_close (bytes_cstr b') = Some (cl, rows, nb, sha)" "length sha = 64"
      and i: "in_rows i' = rows" "in_bytes i' = nb" "in_sha256 i' = sha"
    using assms(1) a b e by (auto simp: read_close_def split: option.splits if_splits)
  have "parse_close t = Some (cl, rows, nb, sha)" using parse_close_more [OF p] y by simp
  moreover have "parse_close t = Some (if clean then ''true'' else ''false'', count_rows (fd_dur r), length (fd_dur r), sha256_of (fd_dur r))"
    unfolding t_def by (rule parse_close_head) (use assms(4) count_rows_le [of "fd_dur r"] sha256_of_hex in auto)
  ultimately show ?thesis using i rec(2) by (simp add: content_def)
qed

text \<open>The text in front of the meta data fits the buffer it is printed into.\<close>

lemma close_head_fits:
  assumes "rows < 2 ^ 64" and "nb < 2 ^ 64"
  shows "length (close_head clean rows nb (sha256_of m)) < 192"
proof -
  have "(2 :: nat) ^ 64 < 10 ^ 20" by simp
  then have "length (dec_of_nat rows) \<le> 20" "length (dec_of_nat nb) \<le> 20" using assms length_dec_of_nat [of _ 19] by auto
  then show ?thesis using sha256_of_hex [of m] by (simp add: close_head_def)
qed

lemma close_head_c_string: "c_string (close_head clean rows nb (sha256_of m))"
proof -
  have "CHR 0x00 \<notin> set (dec_of_nat n)" for n
    using dec_of_nat_props [of n] by (auto simp: list_all_iff is_digit_def)
  moreover have "CHR 0x00 \<notin> set (sha256_of m)" using sha256_of_hex [of m] by (auto simp: list_all_iff is_digit_def is_hex_def)
  ultimately show ?thesis by (simp add: c_string_def close_head_def)
qed

lemma bytes_cstr_head: "c_string h \<Longrightarrow> length h \<le> k \<Longrightarrow> \<exists>x. bytes_cstr (take k (bytes_of (h @ m))) = h @ x"
proof -
  assume h: "c_string h" "length h \<le> k"
  have "\<forall>b \<in> set (bytes_of h). b \<noteq> 0" using h(1) of_char_u8_eq_0 by (auto simp: bytes_of_def c_string_def)
  then have "takeWhile (\<lambda>b. b \<noteq> 0) (take k (bytes_of (h @ m))) = bytes_of h @ takeWhile (\<lambda>b. b \<noteq> 0) (take (k - length h) (bytes_of m))"
    using h(2) by (simp add: takeWhile_append2)
  moreover have "map (\<lambda>b. char_of (unat b)) (bytes_of h) = h" by (simp add: bytes_of_def comp_def unat_of_char_u8)
  ultimately show ?thesis by (auto simp: bytes_cstr_def)
qed

text \<open>A card on which every call works.\<close>

definition calm :: "card \<Rightarrow> bool" where
  "calm c \<longleftrightarrow> cd_on c \<and> cd_script c = []"

lemma tick_calm [simp]: "calm c \<Longrightarrow> tick c = (Io_Ok, c)"
  by (simp add: calm_def tick_def)

lemma read_close_calm:
  assumes "calm c" and "file_at (In_Dir (seq_name q)) CLOSE_FILE c = Some f"
    and "content f = bytes_of (close_head clean rows nb (sha256_of m) @ meta)" and "rows < 2 ^ 64" and "nb < 2 ^ 64"
  shows "read_close q i c = (ESP_OK, i\<lparr>in_clean := clean, in_rows := rows, in_bytes := nb, in_sha256 := sha256_of m\<rparr>, c)"
proof -
  let ?h = "close_head clean rows nb (sha256_of m)"
  have l: "length ?h \<le> 255" using close_head_fits [OF assms(4,5), of clean m] by simp
  from bytes_cstr_head [OF close_head_c_string l, of meta]
  obtain x where "bytes_cstr (take 255 (bytes_of (?h @ meta))) = ?h @ x" by blast
  then have "parse_close (bytes_cstr (take 255 (content f))) = Some (if clean then ''true'' else ''false'', rows, nb, sha256_of m)"
    using parse_close_head [OF assms(4,5)] sha256_of_hex [of m] assms(3) by simp
  then show ?thesis using assms(1,2) sha256_of_hex [of m] by (auto simp: read_close_def fopen_r_def fread_all_def)
qed

end
