(* ===== verification/Sdlog_Recovery.thy ===== *)
theory Sdlog_Recovery
  imports Sdlog_Record
begin

subsection \<open>Power and recovery\<close>

lemma map_of_settle: "map_of (map (\<lambda>(nm, f). (nm, g nm f)) fs) x = map_option (g x) (map_of fs x)"
  by (induction fs) auto

lemma file_at_power_up:
  "file_at (In_Dir d) nm (power_up kept script c) = map_option (settle (kept d nm)) (file_at (In_Dir d) nm c)"
  by (auto simp: file_at_def power_up_def map_of_settle [where g = "\<lambda>d fs. map (\<lambda>(nm, f). (nm, settle (kept d nm) f)) fs"]
      map_of_settle split: option.splits)

lemma settle_vol: "settled f \<Longrightarrow> settle n f = f"
  by (cases f) (simp add: settle_def synced_file_def settled_def)

lemma power_up_settled: "rows_settled (power_up kept script c)"
  by (auto simp: rows_settled_def file_at_power_up settle_def synced_file_def)

lemma power_up_true:
  assumes "card_true c"
  shows "card_true (power_up kept script c)"
  unfolding card_true_def
proof (intro allI impI)
  fix d f
  assume "file_at (In_Dir d) CLOSE_FILE (power_up kept script c) = Some f"
  then obtain g where g: "file_at (In_Dir d) CLOSE_FILE c = Some g" "f = settle (kept d CLOSE_FILE) g" by (auto simp: file_at_power_up)
  then have r: "record_true g (file_at (In_Dir d) ROWS_FILE c)" using assms by (simp add: card_true_def)
  then have "f = g" using g(2) settle_vol by (simp add: record_true_def)
  moreover have "file_at (In_Dir d) ROWS_FILE (power_up kept script c) = file_at (In_Dir d) ROWS_FILE c"
    using r by (cases "file_at (In_Dir d) ROWS_FILE c") (auto simp: file_at_power_up record_true_def settle_vol)
  ultimately show "record_true f (file_at (In_Dir d) ROWS_FILE (power_up kept script c))" using r by simp
qed

text \<open>A script in which calls work or the power goes.\<close>

definition no_faults :: "card \<Rightarrow> bool" where
  "no_faults c \<longleftrightarrow> set (cd_script c) \<subseteq> {Io_Ok, Power_Cut}"

lemma no_faults_evolves: "evolves c c' \<Longrightarrow> no_faults c \<Longrightarrow> no_faults c'"
  by (auto simp: evolves_def no_faults_def)

lemma tick_no_faults: "no_faults c \<Longrightarrow> tick c = (r, c') \<Longrightarrow> r = Io_Ok \<or> r = Power_Cut \<and> \<not> cd_on c'"
  by (auto simp: no_faults_def tick_def split: if_splits list.splits)

lemma exists_file_no_faults:
  assumes "exists_file pl nm c = (ok, c')" and "no_faults c"
  shows "(ok \<longleftrightarrow> file_at pl nm c \<noteq> None) \<or> \<not> ok \<and> \<not> cd_on c'"
proof -
  obtain r c1 where t: "tick c = (r, c1)" by fastforce
  show ?thesis using tick_no_faults [OF assms(2) t] assms(1) t file_at_tick [OF t, of pl nm]
    by (auto simp: exists_file_def call_def split: option.splits if_splits)
qed

lemma complete_rows_prefix: "take (length (complete_rows b)) b = complete_rows b"
proof -
  have "rev b = takeWhile (\<lambda>x. x \<noteq> 0x0A) (rev b) @ dropWhile (\<lambda>x. x \<noteq> 0x0A) (rev b)" by simp
  then have "b = complete_rows b @ rev (takeWhile (\<lambda>x. x \<noteq> 0x0A) (rev b))" unfolding complete_rows_def by (metis rev_append rev_rev_ident)
  then show ?thesis by (metis append_eq_conv_conj)
qed

lemma count_complete_rows: "count_rows (complete_rows b) = count_rows b"
proof -
  have "count_rows b = count_rows (rev b)" for b by (simp add: count_rows_def flip: rev_filter)
  moreover have "count_rows (dropWhile (\<lambda>x. x \<noteq> 0x0A) a) = count_rows a" for a by (induction a) (simp_all add: count_rows_def)
  ultimately show ?thesis unfolding complete_rows_def by metis
qed

lemma length_complete_rows: "length (complete_rows b) \<le> length b"
  by (metis complete_rows_prefix length_take min.cobounded1 min.commute)

lemma concat_pieces: "concat (pieces b) = b"
proof (induction b rule: pieces.induct)
  case (1 b)
  then show ?case by (subst pieces.simps) simp
qed

lemma hash_pieces: "espos_sdlog_sha256_hex (foldl espos_sdlog_sha256_update sha_zero (pieces b)) = sha256_of b"
  by (simp add: sha.finish_pieces concat_pieces)

lemma fopen_r_file: "fopen_r pl nm c = (x, c') \<Longrightarrow> file_at pl' nm' c' = file_at pl' nm' c"
  by (auto simp: fopen_r_def split: prod.splits outcome.splits dest: file_at_tick)

lemma fopen_r_opened: "fopen_r pl nm c = (Opened b, c') \<Longrightarrow> \<exists>f. file_at pl nm c = Some f \<and> b = content f"
  by (auto simp: fopen_r_def split: prod.splits outcome.splits option.splits dest: file_at_tick [where pl = pl and nm = nm])

lemma fread_all_file: "fread_all b c = (x, ok, c') \<Longrightarrow> file_at pl nm c' = file_at pl nm c"
  by (auto simp: fread_all_def split: prod.splits outcome.splits dest: file_at_tick)

lemma fread_all_ok: "fread_all b c = (x, True, c') \<Longrightarrow> x = b"
  by (auto simp: fread_all_def split: prod.splits outcome.splits)

lemma content_settled: "settled f \<Longrightarrow> content f = fd_dur f \<and> synced_file (fd_dur f) = f"
  by (cases f) (simp add: content_def synced_file_def settled_def)

lemma measure_rows_effect:
  assumes "measure_rows q c = (m, c')" and "\<And>r. file_at (In_Dir (seq_name q)) ROWS_FILE c = Some r \<Longrightarrow> settled r"
  defines "here \<equiv> file_at (In_Dir (seq_name q)) ROWS_FILE"
  shows "here c' = here c \<or> here c = None \<and> here c' = Some (synced_file [])"
    and "m = Some (rows, keep, sz) \<Longrightarrow>
      \<exists>r. here c' = Some r \<and> settled r \<and> rows = count_rows (fd_dur r) \<and> keep = length (complete_rows (fd_dur r)) \<and> sz = length (fd_dur r)"
proof -
  let ?d = "In_Dir (seq_name q)"
  obtain x c1 where a: "fopen_r ?d ROWS_FILE c = (x, c1)" by fastforce
  have h1: "here c1 = here c" unfolding here_def by (rule fopen_r_file [OF a])
  have "(here c' = here c \<or> here c = None \<and> here c' = Some (synced_file [])) \<and>
      (m = Some (rows, keep, sz) \<longrightarrow>
       (\<exists>r. here c' = Some r \<and> settled r \<and> rows = count_rows (fd_dur r) \<and> keep = length (complete_rows (fd_dur r)) \<and> sz = length (fd_dur r)))"
  proof (cases x)
    case (Opened b)
    obtain f where f: "here c = Some f" "b = content f" using fopen_r_opened a Opened unfolding here_def by blast
    obtain b' k c2 where e: "fread_all b c1 = (b', k, c2)" by (metis prod_cases3)
    obtain k' c3 where p: "plain_call c2 = (k', c3)" by fastforce
    have h3: "here c3 = here c" using plain_call_file [OF p] fread_all_file [OF e] h1 unfolding here_def by simp
    have m: "c' = c3" "m = (if k then Some (count_rows b', length (complete_rows b'), length b') else None)"
      using assms(1) a Opened e p by (auto simp: measure_rows_def)
    show ?thesis using f m h3 fread_all_ok [of b c1 b' c2] e assms(2) [of f] content_settled [of f] unfolding here_def by auto
  next
    case Absent
    obtain k2 c2 where w: "fopen_w ?d ROWS_FILE c1 = (k2, c2)" by fastforce
    obtain k3 c3 where y: "sync_file ?d ROWS_FILE c2 = (k3, c3)" by fastforce
    obtain k4 c4 where p: "plain_call c3 = (k4, c4)" by fastforce
    have n: "here c = None" using a Absent file_at_tick unfolding here_def
      by (auto simp: fopen_r_def split: prod.splits outcome.splits option.splits)
    have "here c2 = here c" if "\<not> k2" using w that h1 file_at_tick unfolding here_def fopen_w_def
      by (auto elim: call_cases)
    moreover have "here c2 = Some (synced_file [])" if "k2" using w that fopen_w_effect unfolding here_def by simp
    moreover have "here c4 = here c2" if "k2"
      using sync_file_cases [OF y] plain_call_file [OF p, of ?d ROWS_FILE] calculation(2) [OF that] unfolding here_def
      by (auto simp: synced_from_def flushed_def synced_file_def content_def split: if_splits)
    moreover have "c' = (if k2 then c4 else c2)" "m = (if k2 \<and> k4 \<and> k3 then Some (0, 0, 0) else None)"
      using assms(1) a Absent w y p by (auto simp: measure_rows_def split: if_splits)
    ultimately show ?thesis using n by (auto simp: synced_file_def complete_rows_def)
  next
    case Broken
    then show ?thesis using assms(1) a h1 by (simp add: measure_rows_def)
  qed
  then show "here c' = here c \<or> here c = None \<and> here c' = Some (synced_file [])"
    and "m = Some (rows, keep, sz) \<Longrightarrow> \<exists>r. here c' = Some r \<and> settled r \<and> rows = count_rows (fd_dur r) \<and> keep = length (complete_rows (fd_dur r)) \<and> sz = length (fd_dur r)"
    by blast+
qed

lemma truncate_effect:
  assumes "truncate_file pl nm n c = (ok, c')" and "file_at pl nm c = Some f" and "settled f"
  shows "file_at pl nm c' = Some (if ok then synced_file (take n (fd_dur f)) else f)"
  using assms(1)[unfolded truncate_file_def]
proof (cases rule: update_cases)
  case (2 g)
  moreover have "shortened n f = synced_file (take n (fd_dur f))" using assms(3) by (simp add: shortened_def synced_file_def settled_def)
  ultimately show ?thesis using assms(2) by simp
qed (use assms(2) in simp)

lemma hash_rows_effect:
  assumes "hash_rows q c = (h, c')"
  shows "file_at pl nm c' = file_at pl nm c"
    and "h = Some sha \<Longrightarrow> file_at (In_Dir (seq_name q)) ROWS_FILE c = Some f \<Longrightarrow> sha = sha256_of (content f)"
proof -
  let ?d = "In_Dir (seq_name q)"
  obtain x c1 where a: "fopen_r ?d ROWS_FILE c = (x, c1)" by fastforce
  have "file_at pl nm c' = file_at pl nm c \<and> (h = Some sha \<longrightarrow> file_at ?d ROWS_FILE c = Some f \<longrightarrow> sha = sha256_of (content f))"
  proof (cases x)
    case (Opened b)
    obtain b' k c2 where e: "fread_all b c1 = (b', k, c2)" by (metis prod_cases3)
    obtain k' c3 where p: "plain_call c2 = (k', c3)" by fastforce
    have "c' = c3" "h = (if k then Some (sha256_of b') else None)" using assms a Opened e p by (auto simp: hash_rows_def hash_pieces)
    then show ?thesis using plain_call_file [OF p] fread_all_file [OF e] fopen_r_file [OF a] fopen_r_opened [of ?d ROWS_FILE c b c1] a Opened
        fread_all_ok [of b c1 b' c2] e by auto
  qed (use assms a fopen_r_file [OF a] in \<open>simp_all add: hash_rows_def\<close>)
  then show "file_at pl nm c' = file_at pl nm c" and "h = Some sha \<Longrightarrow> file_at ?d ROWS_FILE c = Some f \<Longrightarrow> sha = sha256_of (content f)" by auto
qed

lemma trim_effect:
  assumes "(if length (fd_dur r) > length (complete_rows (fd_dur r)) then truncate_file pl nm (length (complete_rows (fd_dur r))) c else (True, c)) = (ok, c')"
    and "file_at pl nm c = Some r" and "settled r"
  shows "file_at pl nm c' = Some (if ok then synced_file (complete_rows (fd_dur r)) else r)"
proof (cases "length (fd_dur r) > length (complete_rows (fd_dur r))")
  case True
  then show ?thesis using truncate_effect [of pl nm _ c ok c' r] assms complete_rows_prefix by simp
next
  case False
  then have "complete_rows (fd_dur r) = fd_dur r" using complete_rows_prefix [of "fd_dur r"] by (metis not_less take_all)
  moreover have "synced_file (fd_dur r) = r" using content_settled [of r] assms(3) by simp
  ultimately show ?thesis using assms False by auto
qed

text \<open>
  The recovery of a session without a close record: the rows stay settled and a record beside them is true; when it reports success the rows
  are the complete ones of before, with a record beside them.
\<close>

lemma recover_one_here:
  assumes "recover_one q c = (err, c')" and "file_at (In_Dir (seq_name q)) CLOSE_FILE c = None" and "rows_settled c"
  defines "here \<equiv> file_at (In_Dir (seq_name q)) ROWS_FILE"
  shows "rows_settled c' \<and> (\<forall>f. file_at (In_Dir (seq_name q)) CLOSE_FILE c' = Some f \<longrightarrow> record_true f (here c')) \<and>
    (err = ESP_OK \<longrightarrow> file_at (In_Dir (seq_name q)) CLOSE_FILE c' \<noteq> None \<and>
       here c' = Some (synced_file (complete_rows (case here c of None \<Rightarrow> [] | Some r \<Rightarrow> fd_dur r))))"
proof -
  let ?d = "In_Dir (seq_name q)"
  obtain k1 c1 where a: "unlink ?d ''CLOSE.TMP'' c = (k1, c1)" by fastforce
  obtain m c2 where b: "measure_rows q c1 = (m, c2)" by fastforce
  have f1: "file_at ?d CLOSE_FILE c1 = None" "here c1 = here c" and s1: "shrinks c c1"
    using unlink_effect [OF a, of ?d CLOSE_FILE] unlink_effect [OF a, of ?d ROWS_FILE] assms(2) sh.unlink [OF a] unfolding here_def by auto
  have t1: "rows_settled c1" using s1 assms(3) rows_settled_shrinks by blast
  have fr2: "framed {(?d, ROWS_FILE)} c1 c2" by (rule fr.measure_rows [OF b]) simp
  then have n2: "file_at ?d CLOSE_FILE c2 = None" using f1(1) by (simp add: framed_def)
  have in_d: "framed ({?d} \<times> UNIV) x y" if "framed {(?d, ROWS_FILE)} x y" for x y using that by (simp add: framed_def)
  have v1: "settled r" if "file_at ?d ROWS_FILE c1 = Some r" for r using t1 that by (simp add: rows_settled_def)
  note ef = measure_rows_effect [OF b v1, folded here_def]
  have t2: "rows_settled c2"
    by (rule rows_settled_dir [OF in_d [OF fr2] t1]) (use ef(1) v1 in \<open>auto simp: here_def\<close>)
  show ?thesis
  proof (cases m)
    case None
    then show ?thesis using assms(1) a b n2 t2 by (simp add: recover_one_def)
  next
    case (Some x)
    obtain rows keep sz where x: "x = (rows, keep, sz)" by (metis prod_cases3)
    obtain r where r: "here c2 = Some r" "settled r" "rows = count_rows (fd_dur r)" "keep = length (complete_rows (fd_dur r))" "sz = length (fd_dur r)"
      using ef(2) Some x by blast
    have old: "fd_dur r = (case here c of None \<Rightarrow> [] | Some r \<Rightarrow> fd_dur r)"
      using ef(1) r(1) f1(2) by (cases "here c") (auto simp: synced_file_def)
    obtain k3 c3 where e: "(if sz > keep then truncate_file ?d ROWS_FILE keep c2 else (True, c2)) = (k3, c3)" by fastforce
    obtain h c4 where g: "hash_rows q c3 = (h, c4)" by fastforce
    have fr3: "framed {(?d, ROWS_FILE)} c2 c3" using e fr.truncate_file [of ?d ROWS_FILE keep c2 k3 c3 "{(?d, ROWS_FILE)}"] by (auto simp: framed_def split: if_splits)
    let ?new = "synced_file (complete_rows (fd_dur r))"
    have r3: "here c3 = Some (if k3 then ?new else r)"
      using trim_effect [OF e [unfolded r(4,5)]] r(1,2) unfolding here_def by simp
    have f4: "file_at pl nm c4 = file_at pl nm c3" for pl nm by (rule hash_rows_effect(1) [OF g])
    have t3: "rows_settled c3" by (rule rows_settled_dir [OF in_d [OF fr3] t2]) (use r3 r(2) in \<open>auto simp: here_def split: if_splits\<close>)
    have t4: "rows_settled c4" using t3 f4 by (simp add: rows_settled_def)
    have n3: "file_at ?d CLOSE_FILE c3 = None" using fr3 n2 by (simp add: framed_def)
    show ?thesis
    proof (cases "k3 \<and> h \<noteq> None")
      case True
      then obtain sha where sh: "h = Some sha" by blast
      have w: "write_close q False rows keep sha None c4 = (err, c')"
        using assms(1) a b Some x e g True sh by (simp add: recover_one_def)
      have r4: "file_at ?d ROWS_FILE c4 = Some ?new" using r3 f4 True by (simp add: here_def)
      have "sha = sha256_of (complete_rows (fd_dur r))" using hash_rows_effect(2) [OF g sh] r3 True by (simp add: here_def)
      note wc = write_close_record [OF w _ r4]
      have n4: "file_at ?d CLOSE_FILE c4 = None" using f4 n3 by simp
      have facts: "file_at ?d ROWS_FILE c' = Some ?new" "err = ESP_OK \<Longrightarrow> file_at ?d CLOSE_FILE c' \<noteq> None" "framed ({?d} \<times> UNIV) c4 c'"
          "\<And>f. file_at ?d CLOSE_FILE c' = Some f \<Longrightarrow> record_true f (Some ?new)"
        by (rule wc; use n4 r(3,4) \<open>sha = _\<close> count_complete_rows in \<open>simp add: synced_file_def\<close>)+
      have "rows_settled c'" by (rule rows_settled_dir [OF facts(3) t4]) (use facts(1) in auto)
      with facts old show ?thesis by (simp add: here_def)
    next
      case False
      then have "err = ESP_FAIL" "c' \<in> {c3, c4}" using assms(1) a b Some x e g by (cases k3; cases h; auto simp: recover_one_def)+
      then show ?thesis using n3 f4 t3 t4 by auto
    qed
  qed
qed

lemma recover_one_keeps:
  assumes "recover_one q c = (err, c')" and "file_at (In_Dir (seq_name q)) CLOSE_FILE c = None" and "card_true c" and "rows_settled c"
  shows "card_true c' \<and> rows_settled c'"
proof -
  have "framed {(In_Dir (seq_name q), ''CLOSE.TMP''), (In_Dir (seq_name q), CLOSE_FILE), (In_Dir (seq_name q), ROWS_FILE)} c c'"
    by (rule fr.recover_one [OF assms(1)]) simp
  then have "framed ({In_Dir (seq_name q)} \<times> UNIV) c c'" by (simp add: framed_def)
  then show ?thesis using card_true_dir [OF _ assms(3)] recover_one_here [OF assms(1,2,4)] by blast
qed

lemma exists_file_file: "exists_file pl nm c = (ok, c') \<Longrightarrow> file_at (In_Dir d) nm' c' = file_at (In_Dir d) nm' c"
  using fr.exists_file [of pl nm c ok c' "{}"] by (simp add: framed_def)

lemma recover_session_keeps:
  assumes "recover_session q c = (err, n, m, c')" and "no_faults c" and "card_true c" and "rows_settled c"
  shows "card_true c' \<and> rows_settled c'"
proof -
  let ?d = "In_Dir (seq_name q)"
  obtain k1 c1 where a: "exists_file ?d CLOSE_FILE c = (k1, c1)" by fastforce
  obtain k2 c2 where b: "exists_file ?d HEAD_FILE c1 = (k2, c2)" by fastforce
  have f: "file_at (In_Dir d) nm c1 = file_at (In_Dir d) nm c" "file_at (In_Dir d) nm c2 = file_at (In_Dir d) nm c" for d nm
    using exists_file_file [OF a] exists_file_file [OF b] by simp_all
  have t1: "card_true c1 \<and> rows_settled c1" and t2: "card_true c2 \<and> rows_settled c2"
    using assms(3,4) f by (simp_all add: card_true_def rows_settled_def)
  consider "c' = c1" | e where "\<not> k1" "espos_sdlog_remove q c2 = (e, c')" | e where "\<not> k1" "recover_one q c2 = (e, c')"
    using assms(1) a b by (auto simp: recover_session_def split: if_splits prod.splits)
  then show ?thesis
  proof cases
    case 1
    with t1 show ?thesis by simp
  next
    case (2 e)
    have "shrinks c2 c'" by (rule sh.remove [OF 2(2)]) simp_all
    with t2 show ?thesis using card_true_shrinks rows_settled_shrinks by blast
  next
    case (3 e)
    show ?thesis
    proof (cases "cd_on c2")
      case True
      then have "cd_on c1" using ev.exists_file [OF b] by (auto simp: evolves_def)
      then have "file_at ?d CLOSE_FILE c2 = None" using exists_file_no_faults [OF a assms(2)] 3(1) f by auto
      then show ?thesis using recover_one_keeps [OF 3(2)] t2 by simp
    next
      case False
      have "evolves c2 c'" by (rule ev.recover_one [OF 3(2)]) simp
      with False t2 show ?thesis by (simp add: evolves_def)
    qed
  qed
qed

lemma recover_all_keeps:
  "recover_all qs c = (err, n, m, c') \<Longrightarrow> no_faults c \<Longrightarrow> card_true c \<Longrightarrow> rows_settled c \<Longrightarrow> card_true c' \<and> rows_settled c'"
proof (induction qs arbitrary: c err n m)
  case (Cons q qs)
  obtain e n1 m1 c1 where a: "recover_session q c = (e, n1, m1, c1)" by (metis prod_cases4)
  obtain e2 n2 m2 c2 where b: "recover_all qs c1 = (e2, n2, m2, c2)" by (metis prod_cases4)
  have "evolves c c1" by (rule ev.recover_session [OF a]) simp
  then have "no_faults c1" using Cons.prems(2) no_faults_evolves by blast
  moreover have "recover_all qs c1 = (e2, n2, m2, c')" using Cons.prems(1) a b by simp
  ultimately show ?case using recover_session_keeps [OF a Cons.prems(2-4)] Cons.IH by blast
qed simp

lemma recover_keeps:
  assumes "espos_sdlog_recover c = (err, n, m, c')" and "no_faults c" and "card_true c" and "rows_settled c"
  shows "card_true c' \<and> rows_settled c'"
proof -
  obtain e qs c1 where a: "scan c = (e, qs, c1)" by (metis prod_cases3)
  have "evolves c c1" "shrinks c c1" by (rule ev.scan [OF a]) (rule sh.scan [OF a])
  then have t: "no_faults c1" "card_true c1" "rows_settled c1"
    using assms(2-4) no_faults_evolves card_true_shrinks rows_settled_shrinks by blast+
  show ?thesis
  proof (cases "e = ESP_OK")
    case True
    then have "recover_all qs c1 = (err, n, m, c')" using assms(1) a by (simp add: espos_sdlog_recover_def)
    then show ?thesis using recover_all_keeps t by blast
  qed (use assms(1) a t in \<open>simp add: espos_sdlog_recover_def\<close>)
qed

subsection \<open>A logger through its boots\<close>

text \<open>
  A logger and its card. At boot the power comes back, with whatever part of the bytes that were not synced is still there, the sessions
  are recovered, and then calls come in any order, each of which may fail or lose the power at any of its steps. The handle does not
  survive a boot.
\<close>

record logger =
  lg_card :: card
  lg_session :: "sdlog_session option"

datatype log_event =
    Log_Boot "string \<Rightarrow> string \<Rightarrow> nat" "outcome list" "outcome list"
  | Log_Open root_path "string option" "(nat \<times> bool) option"
  | Log_Append "string option"
  | Log_Sync
  | Log_Close "string option"
  | Log_Info nat
  | Log_List "sdlog_info \<Rightarrow> bool"
  | Log_Mark_Synced nat "string option"
  | Log_Remove nat
  | Log_Prune nat

fun log_step :: "logger \<Rightarrow> log_event \<Rightarrow> logger" where
  "log_step l (Log_Boot kept recovery later) =
     (case espos_sdlog_recover (power_up kept recovery (lg_card l)) of
        (_, _, _, c) \<Rightarrow> \<lparr>lg_card = c\<lparr>cd_script := later\<rparr>, lg_session = None\<rparr>)"
| "log_step l (Log_Open rt header cfg) =
     (if lg_session l \<noteq> None then l
      else case espos_sdlog_open rt header cfg (lg_card l) of (_, s, c) \<Rightarrow> \<lparr>lg_card = c, lg_session = s\<rparr>)"
| "log_step l (Log_Append row) =
     (case lg_session l of
        None \<Rightarrow> l
      | Some s \<Rightarrow> (case espos_sdlog_append s row (lg_card l) of (_, s, c) \<Rightarrow> \<lparr>lg_card = c, lg_session = Some s\<rparr>))"
| "log_step l Log_Sync =
     (case lg_session l of
        None \<Rightarrow> l
      | Some s \<Rightarrow> (case espos_sdlog_sync s (lg_card l) of (_, s, c) \<Rightarrow> \<lparr>lg_card = c, lg_session = Some s\<rparr>))"
| "log_step l (Log_Close meta) =
     (case lg_session l of
        None \<Rightarrow> l
      | Some s \<Rightarrow> (case espos_sdlog_close s meta (lg_card l) of (_, c) \<Rightarrow> \<lparr>lg_card = c, lg_session = None\<rparr>))"
| "log_step l (Log_Info q) = (case espos_sdlog_info q (lg_card l) of (_, _, c) \<Rightarrow> l\<lparr>lg_card := c\<rparr>)"
| "log_step l (Log_List fn) = (case espos_sdlog_list fn (lg_card l) of (_, _, c) \<Rightarrow> l\<lparr>lg_card := c\<rparr>)"
| "log_step l (Log_Mark_Synced q note) = (case espos_sdlog_mark_synced q note (lg_card l) of (_, c) \<Rightarrow> l\<lparr>lg_card := c\<rparr>)"
| "log_step l (Log_Remove q) = (case espos_sdlog_remove q (lg_card l) of (_, c) \<Rightarrow> l\<lparr>lg_card := c\<rparr>)"
| "log_step l (Log_Prune keep) = (case espos_sdlog_prune keep (lg_card l) of (_, _, c) \<Rightarrow> l\<lparr>lg_card := c\<rparr>)"

text \<open>
  A boot whose recovery may be cut short by a loss of power but none of whose calls fails. That is needed for the close records: a recovery that cannot stat a
  close record that is there takes the session for an open one (\<open>sdlog_recovery_deletes_on_stat_error\<close> shows a consequence).
\<close>

fun sound_recovery :: "log_event \<Rightarrow> bool" where
  "sound_recovery (Log_Boot kept recovery later) \<longleftrightarrow> set recovery \<subseteq> {Io_Ok, Power_Cut}"
| "sound_recovery _ \<longleftrightarrow> True"

definition blank_logger :: logger where
  "blank_logger = \<lparr>lg_card = \<lparr>cd_root = False, cd_files = [], cd_dirs = [], cd_script = [], cd_on = True\<rparr>, lg_session = None\<rparr>"

definition logger_true :: "logger \<Rightarrow> bool" where
  "logger_true l \<longleftrightarrow> card_true (lg_card l) \<and> (\<forall>s. lg_session l = Some s \<longrightarrow> session_true s (lg_card l))"

lemma logger_true_shrinks: "shrinks (lg_card l) c \<Longrightarrow> logger_true l \<Longrightarrow> logger_true (l\<lparr>lg_card := c\<rparr>)"
  using card_true_shrinks session_true_shrinks by (auto simp: logger_true_def)

lemma card_true_script [simp]: "card_true (c\<lparr>cd_script := s\<rparr>) = card_true c"
proof -
  have "file_at (In_Dir d) nm (c\<lparr>cd_script := s\<rparr>) = file_at (In_Dir d) nm c" for d nm by (simp add: file_at_def)
  then show ?thesis by (simp add: card_true_def)
qed

lemma boot_true:
  assumes "set recovery \<subseteq> {Io_Ok, Power_Cut}" and "card_true (lg_card l)"
  shows "logger_true (log_step l (Log_Boot kept recovery later))"
proof -
  obtain e n m c where r: "espos_sdlog_recover (power_up kept recovery (lg_card l)) = (e, n, m, c)" by (metis prod_cases4)
  have "no_faults (power_up kept recovery (lg_card l))" using assms(1) by (simp add: no_faults_def power_up_def)
  from recover_keeps [OF r this power_up_true [OF assms(2)] power_up_settled] r show ?thesis by (simp add: logger_true_def)
qed

lemma log_step_true:
  assumes "logger_true l" and "sound_recovery e"
  shows "logger_true (log_step l e)"
proof (cases e)
  case (Log_Boot kept recovery later)
  show ?thesis using assms boot_true Log_Boot by (simp add: logger_true_def)
next
  case (Log_Open rt header cfg)
  show ?thesis using assms open_keeps [of rt header cfg "lg_card l"] Log_Open by (auto simp: logger_true_def split: prod.splits)
next
  case (Log_Append row)
  show ?thesis using assms append_keeps [of _ row "lg_card l"] Log_Append by (auto simp: logger_true_def split: prod.splits option.splits)
next
  case Log_Sync
  show ?thesis using assms sync_keeps [of _ "lg_card l"] Log_Sync by (auto simp: logger_true_def split: prod.splits option.splits)
next
  case (Log_Close meta)
  show ?thesis using assms close_keeps [of _ meta "lg_card l"] Log_Close by (auto simp: logger_true_def split: prod.splits option.splits)
next
  case (Log_Info q)
  show ?thesis using assms sh.info [of q "lg_card l"] logger_true_shrinks Log_Info by (auto split: prod.splits)
next
  case (Log_List fn)
  show ?thesis using assms sh.list [of fn "lg_card l"] logger_true_shrinks Log_List by (auto split: prod.splits)
next
  case (Log_Mark_Synced q nt)
  show ?thesis using assms sh.mark_synced [of q nt "lg_card l"] logger_true_shrinks Log_Mark_Synced by (auto split: prod.splits)
next
  case (Log_Remove q)
  show ?thesis using assms sh.remove [of q "lg_card l"] logger_true_shrinks Log_Remove by (auto split: prod.splits)
next
  case (Log_Prune keep)
  show ?thesis using assms sh.prune [of keep "lg_card l"] logger_true_shrinks Log_Prune by (auto split: prod.splits)
qed

interpretation lg: guarded_machine log_step sound_recovery logger_true
  by unfold_locales (rule log_step_true)

lemma blank_true: "logger_true blank_logger"
  by (simp add: logger_true_def blank_logger_def card_true_def file_at_def)

text \<open>What is said of a closed session is said of its close record.\<close>

lemma info_closed:
  assumes "espos_sdlog_info q c = (ESP_OK, i, c')" and "in_closed i"
  obtains i0 c3 where "read_close q i0 c3 = (ESP_OK, i, c')" and "\<And>d nm. file_at (In_Dir d) nm c3 = file_at (In_Dir d) nm c"
proof -
  let ?d = "In_Dir (seq_name q)"
  obtain k1 c1 where a: "exists_dir (seq_name q) c = (k1, c1)" by fastforce
  obtain k2 c2 where b: "exists_file ?d SYNCED_FILE c1 = (k2, c2)" by fastforce
  obtain k3 c3 where d: "exists_file ?d CLOSE_FILE c2 = (k3, c3)" by fastforce
  have "file_at (In_Dir x) nm c3 = file_at (In_Dir x) nm c" for x nm
    using fr.exists_dir [OF a, of "{}"] exists_file_file [OF b] exists_file_file [OF d] by (simp add: framed_def)
  moreover have "\<exists>i0. read_close q i0 c3 = (ESP_OK, i, c')"
    using assms a b d by (cases k1; cases k3) (auto simp: espos_sdlog_info_def zero_info_def Let_def split: prod.splits opened.splits)
  ultimately show ?thesis using that by blast
qed

text \<open>
  C2. A close record never misdescribes the rows beside it. Take any run of a logger from a blank card, in which the calls of every operation may fail or lose the
  power at any step, except that the calls of the recovery at a boot do not fail: a recovery may only be cut short, at any step, by a loss of power.
  When a session is then reported closed and its rows file is there, of fewer than \<open>2 ^ 64\<close> bytes, then the number of rows, the size and the SHA-256 digest that are reported
  are those of the rows file, all of whose bytes are on the card.
\<close>

theorem sdlog_close_records_true:
  assumes "list_all sound_recovery es"
    and "espos_sdlog_info q (lg_card (foldl log_step blank_logger es)) = (ESP_OK, i, c')" and "in_closed i"
    and "file_at (In_Dir (seq_name q)) ROWS_FILE (lg_card (foldl log_step blank_logger es)) = Some r"
    and "length (fd_dur r) < 2 ^ 64"
  shows "in_rows i = count_rows (fd_dur r) \<and> in_bytes i = length (fd_dur r) \<and> in_sha256 i = sha256_of (fd_dur r) \<and> fd_vol r = []"
proof -
  let ?c = "lg_card (foldl log_step blank_logger es)"
  have t: "card_true ?c" using lg.guarded_run [OF blank_true assms(1)] by (simp add: logger_true_def)
  obtain i0 c3 where rc: "read_close q i0 c3 = (ESP_OK, i, c')" and f: "\<And>d nm. file_at (In_Dir d) nm c3 = file_at (In_Dir d) nm ?c"
    using info_closed [OF assms(2,3)] by blast
  have "card_true c3" using t f by (simp add: card_true_def)
  from read_close_true [OF rc this _ assms(5)] f assms(4) show ?thesis by (simp add: content_def)
qed

text \<open>Evaluation of a run.\<close>

lemmas card_eval = call_def tick_def file_at_def fopen_r_def fopen_w_def put_file_def fwrite_def add_bytes_def sync_file_def plain_call_def
  fflush_def flushed_def stored_def shortened_def fsync_def unlink_def drop_file_def rename_def synced_file_def content_def mkdir_def rmdir_def exists_file_def exists_dir_def
  truncate_file_def fread_all_def Let_def

lemmas log_eval = blank_logger_def espos_sdlog_open_def mkdir_p_def scan_def read_last_seq_def read_seq_file_def write_last_seq_def
  write_file_atomic_def open_session_def espos_sdlog_append_def row_tail_def espos_sdlog_sync_def espos_sdlog_close_def write_close_def

lemma first_names: "seq_name (Suc 0) = ''00000001''" "seq_name 1 = ''00000001''" "dec_of_nat (Suc 0) = ''1''"
  by code_simp+

definition closed_run :: "log_event list" where
  "closed_run = [Log_Open (4, 0) (Some ''{}'') None, Log_Append (Some ''a''), Log_Close None]"

lemma digest_two: "espos_sdlog_sha256_hex (espos_sdlog_sha256_update (espos_sdlog_sha256_update sha_zero a) b) = sha256_of (a @ b)"
  using sha.finish_pieces [of "[a, b]"] by simp

lemma closed_run_card:
  "lg_card (foldl log_step blank_logger closed_run) =
     \<lparr>cd_root = True, cd_files = [(LAST_SEQ_FILE, synced_file (bytes_of (''1'' @ [CHR 0x0A])))],
      cd_dirs = [(''00000001'',
                   [(HEAD_FILE, synced_file (bytes_of ''{}'')), (ROWS_FILE, synced_file (bytes_of ''a'' @ bytes_of [CHR 0x0A])),
                    (CLOSE_FILE, synced_file (bytes_of (close_head True 1 2 (sha256_of (bytes_of ''a'' @ bytes_of [CHR 0x0A])) @ ''null}'' @ [CHR 0x0A])))])],
      cd_script = [], cd_on = True\<rparr>"
proof -
  have "\<not> 192 \<le> length (close_head True 1 2 (sha256_of (bytes_of ''a'' @ bytes_of [CHR 0x0A])))"
    using close_head_fits [of 1 2 True] by (simp add: not_le)
  then show ?thesis by (simp add: closed_run_def card_eval log_eval first_names digest_two numeral_2_eq_2 bytes_of_def)
qed

theorem sdlog_close_records_true_witness:
  "\<exists>i c'. espos_sdlog_info 1 (lg_card (foldl log_step blank_logger closed_run)) = (ESP_OK, i, c') \<and> in_closed i \<and> in_rows i = 1 \<and>
     in_bytes i = 2 \<and> in_sha256 i = sha256_of (bytes_of (''a'' @ [CHR 0x0A]))"
proof -
  let ?c = "lg_card (foldl log_step blank_logger closed_run)" and ?b = "bytes_of ''a'' @ bytes_of [CHR 0x0A]"
  have s: "list_all sound_recovery closed_run" by (simp add: closed_run_def)
  have f: "file_at (In_Dir ''00000001'') CLOSE_FILE ?c = Some (synced_file (bytes_of (close_head True 1 2 (sha256_of ?b) @ ''null}'' @ [CHR 0x0A])))"
    "file_at (In_Dir ''00000001'') ROWS_FILE ?c = Some (synced_file ?b)" "map_of (cd_dirs ?c) ''00000001'' \<noteq> None" and calm: "calm ?c"
    unfolding closed_run_card by (simp_all add: file_at_def calm_def)
  have "\<exists>i. espos_sdlog_info 1 ?c = (ESP_OK, i, ?c) \<and> in_closed i"
    using calm f read_close_calm [OF calm, of 1] by (simp add: espos_sdlog_info_def exists_file_def exists_dir_def call_def first_names Let_def)
  then obtain i where i: "espos_sdlog_info 1 ?c = (ESP_OK, i, ?c)" "in_closed i" by blast
  have r: "file_at (In_Dir (seq_name 1)) ROWS_FILE ?c = Some (synced_file ?b)" using f(2) by (simp add: first_names)
  have "length (fd_dur (synced_file ?b)) < 2 ^ 64" by (simp add: synced_file_def)
  from sdlog_close_records_true [OF s i r this] have "in_rows i = 1" "in_bytes i = 2" "in_sha256 i = sha256_of ?b"
    by (simp_all add: synced_file_def count_rows_def bytes_of_def)
  with i show ?thesis by (simp add: bytes_of_def)
qed

end
