(* ===== verification/Sdlog_Boot.thy ===== *)
theory Sdlog_Boot
  imports Sdlog_Recovery
begin

text \<open>
  What a recovery does on a card on which every call works: it reports success, every session it finds open is closed
  with exactly its complete rows, one that never started is gone, a closed one is as it was.
\<close>

subsection \<open>Names\<close>

lemma digit_cases: "is_digit c \<Longrightarrow> \<exists>d < 10. c = digit d \<and> digit_val c = int d"
proof -
  assume c: "is_digit c"
  let ?d = "of_char c - 48 :: nat"
  have "?d < 10" "c = digit ?d" using c by (auto simp: is_digit_def digit_def)
  then show ?thesis using digit_char by metis
qed

lemma take_digits_value:
  "take_digits w v s = Some (v', t) \<Longrightarrow> \<exists>n < 10 ^ w. v' = v * 10 ^ w + int n \<and> s = digits w n @ t"
proof (induction w arbitrary: v' t)
  case (Suc w)
  have "take_digits (w + 1) v s = Some (v', t)" using Suc.prems by simp
  then obtain u t' where u: "take_digits w v s = Some (u, t')" "take_digits 1 u t' = Some (v', t)"
    unfolding take_digits_append by (auto simp: bind_eq_Some_conv)
  then obtain c where c: "t' = c # t" "is_digit c" "v' = u * 10 + digit_val c" by (cases t') (auto split: if_splits)
  obtain n where n: "n < 10 ^ w" "u = v * 10 ^ w + int n" "s = digits w n @ t'" using Suc.IH [OF u(1)] by blast
  obtain d where d: "d < 10" "c = digit d" "digit_val c = int d" using digit_cases [OF c(2)] by blast
  have "n * 10 + d < 10 ^ Suc w" using n(1) d(1) by simp
  moreover have "v' = v * 10 ^ Suc w + int (n * 10 + d)" using c(3) n(2) d(3) by simp
  moreover have "s = digits (Suc w) (n * 10 + d) @ t" using n(3) c(1) d by simp
  ultimately show ?case by blast
qed simp

lemma seq_name_digits: "q < 10 ^ 8 \<Longrightarrow> seq_name q = digits 8 q"
  unfolding seq_name_def by (rule dec_of_nat_digits) simp_all

lemma parse_seq_iff: "parse_seq d = Some q \<longleftrightarrow> q < 10 ^ 8 \<and> d = seq_name q"
proof
  assume "parse_seq d = Some q"
  then obtain v where "take_digits 8 0 d = Some (v, [])" "q = nat v" by (auto simp: parse_seq_def split: option.splits list.splits)
  then show "q < 10 ^ 8 \<and> d = seq_name q" using take_digits_value [of 8 0 d v "[]"] seq_name_digits by auto
next
  assume "q < 10 ^ 8 \<and> d = seq_name q"
  then show "parse_seq d = Some q" using take_digits_digits [of q 8 0 "[]"] seq_name_digits by (simp add: parse_seq_def)
qed

subsection \<open>Calls that work\<close>

text \<open>A card as it is made: no directory twice, and none without the root.\<close>

definition card_wf :: "card \<Rightarrow> bool" where
  "card_wf c \<longleftrightarrow> distinct (map fst (cd_dirs c)) \<and> (cd_dirs c \<noteq> [] \<longrightarrow> cd_root c)"

lemma put_wf: "put_file pl nm f c = Some c' \<Longrightarrow> card_wf c \<Longrightarrow> card_wf c'"
  by (cases pl) (auto simp: put_file_def card_wf_def distinct_update split: option.splits if_splits)

lemma drop_wf: "drop_file pl nm c = Some c' \<Longrightarrow> card_wf c \<Longrightarrow> card_wf c'"
  by (cases pl) (auto simp: drop_file_def card_wf_def distinct_update split: option.splits if_splits)

lemma delete_subset: "AList.delete d fs \<noteq> [] \<Longrightarrow> fs \<noteq> []"
  by auto

interpretation wf: card_rel "\<lambda>c c'. card_wf c \<longrightarrow> card_wf c'" UNIV UNIV UNIV
proof unfold_locales
  fix c :: card and d
  show "card_wf c \<longrightarrow> card_wf (c\<lparr>cd_dirs := AList.delete d (cd_dirs c)\<rparr>)"
    by (auto simp: card_wf_def distinct_delete dest: delete_subset)
  show "card_wf c \<longrightarrow> card_wf (c\<lparr>cd_dirs := cd_dirs c @ [(d, [])]\<rparr>)" if "cd_root c" "map_of (cd_dirs c) d = None"
    using that by (auto simp: card_wf_def map_of_eq_None_iff)
  show "card_wf c \<longrightarrow> card_wf (c\<lparr>cd_root := True\<rparr>)" by (simp add: card_wf_def)
  show "card_wf c \<longrightarrow> card_wf c'" if "tick c = (r, c')" for r c' using tick_frame [OF that] by (simp add: card_wf_def)
qed (auto simp: put_wf drop_wf)

interpretation ca: card_rel "\<lambda>c c'. calm c \<longrightarrow> calm c'" UNIV UNIV UNIV
  by unfold_locales (auto simp: calm_def tick_def dest: put_flags drop_flags)

lemma call_calm: "calm c \<Longrightarrow> call f c = (case f c of None \<Rightarrow> (False, c) | Some c' \<Rightarrow> (True, c'))"
  by (simp add: call_def)

lemma plain_calm [simp]: "calm c \<Longrightarrow> plain_call c = (True, c)"
  by (simp add: plain_call_def call_calm)

lemma exists_calm [simp]: "calm c \<Longrightarrow> exists_file pl nm c = (file_at pl nm c \<noteq> None, c)"
  by (simp add: exists_file_def call_calm)

lemma fopen_r_calm: "calm c \<Longrightarrow> fopen_r pl nm c = ((case file_at pl nm c of None \<Rightarrow> Absent | Some f \<Rightarrow> Opened (content f)), c)"
  by (simp add: fopen_r_def)

lemma fread_calm [simp]: "calm c \<Longrightarrow> fread_all b c = (b, True, c)"
  by (simp add: fread_all_def)

lemma put_works: "files_at pl c \<noteq> None \<Longrightarrow> \<exists>c'. put_file pl nm f c = Some c'"
  by (auto simp: put_file_def)

lemma files_at_file: "file_at pl nm c \<noteq> None \<Longrightarrow> files_at pl c \<noteq> None"
  by (auto simp: file_at_def split: option.splits)

text \<open>A directory stays when a file is written or removed in it.\<close>

lemma files_at_put: "put_file pl nm f c = Some c' \<Longrightarrow> files_at pl c' \<noteq> None"
  using file_at_put [of pl nm f c c' pl nm] files_at_file by fastforce

lemma files_at_drop: "drop_file pl nm c = Some c' \<Longrightarrow> files_at pl c' \<noteq> None"
  by (cases pl) (auto simp: drop_file_def AList.update_conv' split: option.splits if_splits)

lemma fopen_w_works:
  assumes "calm c" and "files_at pl c \<noteq> None"
  shows "\<exists>c'. fopen_w pl nm c = (True, c')"
  using put_works [OF assms(2), of nm "synced_file []"] assms(1) by (auto simp: fopen_w_def call_calm)

lemma fwrite_works:
  assumes "calm c" and "file_at pl nm c \<noteq> None"
  shows "\<exists>c'. fwrite pl nm b c = (True, c')"
proof -
  obtain f where f: "file_at pl nm c = Some f" using assms(2) by blast
  obtain c' where "put_file pl nm (f\<lparr>fd_vol := fd_vol f @ b\<rparr>) c = Some c'" using put_works [OF files_at_file] f by fastforce
  then show ?thesis using assms(1) f by (simp add: fwrite_def add_bytes_def)
qed

lemma sync_works:
  assumes "calm c" and "file_at pl nm c \<noteq> None"
  shows "\<exists>c'. sync_file pl nm c = (True, c')"
proof -
  obtain f where f: "file_at pl nm c = Some f" using assms(2) by blast
  obtain c1 where p: "put_file pl nm (flushed f) c = Some c1" using put_works [OF files_at_file] f by fastforce
  then have a: "fflush pl nm c = (True, c1)" using assms(1) f by (simp add: fflush_def call_calm)
  have c1: "calm c1" "file_at pl nm c1 = Some (flushed f)" using ca.fflush [OF a] assms(1) file_at_put [OF p, of pl nm] by simp_all
  obtain c' where "put_file pl nm (stored (flushed f)) c1 = Some c'" using put_works [OF files_at_file] c1(2) by fastforce
  then have "fsync pl nm c1 = (True, c')" using c1 by (simp add: fsync_def call_calm)
  with a show ?thesis by (simp add: sync_file_def)
qed

lemma write_parts_works:
  "calm c \<Longrightarrow> file_at pl nm c \<noteq> None \<Longrightarrow> \<exists>c'. write_parts pl nm ps c = (True, c')"
proof (induction ps arbitrary: c)
  case Nil
  then show ?case using sync_works by simp
next
  case (Cons p ps)
  obtain c1 where w: "fwrite pl nm (bytes_of p) c = (True, c1)" using fwrite_works Cons.prems by blast
  have "calm c1" using ca.fwrite [OF w] Cons.prems(1) by simp
  moreover have "file_at pl nm c1 \<noteq> None" using fwrite_effect [OF w] Cons.prems(2) by auto
  ultimately show ?case using Cons.IH w by simp
qed

lemma atomic_works:
  assumes "calm c" and "files_at pl c \<noteq> None" and "tmp \<noteq> dst"
  shows "\<exists>c'. write_file_atomic pl tmp dst parts c = (ESP_OK, c')"
proof -
  obtain c1 where a: "fopen_w pl tmp c = (True, c1)" using fopen_w_works [OF assms(1,2)] by blast
  have c1: "calm c1" "file_at pl tmp c1 \<noteq> None" using ca.fopen_w [OF a] assms(1) fopen_w_effect [OF a] by simp_all
  obtain c2 where b: "write_parts pl tmp parts c1 = (True, c2)" using write_parts_works [OF c1] by blast
  have c2: "calm c2" "file_at pl tmp c2 \<noteq> None" using ca.write_parts [OF b] c1(1) write_parts_effect [OF b] c1(2) by auto
  obtain k c3 where u: "unlink pl dst c2 = (k, c3)" by fastforce
  have c3: "calm c3" using ca.unlink [OF u] c2(1) by simp
  have tmp: "file_at pl tmp c3 \<noteq> None" using unlink_effect [OF u, of pl tmp] c2(2) assms(3) by auto
  have dst: "file_at pl dst c3 = None"
  proof (cases "file_at pl dst c2")
    case None
    then show ?thesis using unlink_effect [OF u, of pl dst] by simp
  next
    case (Some f)
    then obtain c4 where d: "drop_file pl dst c2 = Some c4" by (auto simp: drop_file_def file_at_def split: option.splits)
    then have "c3 = c4" using u c2(1) by (simp add: unlink_def call_calm)
    then show ?thesis using file_at_drop [OF d, of pl dst] by simp
  qed
  obtain f where f: "file_at pl tmp c3 = Some f" using tmp by blast
  then obtain c4 where d: "drop_file pl tmp c3 = Some c4" by (auto simp: drop_file_def file_at_def split: option.splits)
  obtain c5 where "put_file pl dst f c4 = Some c5" using put_works [OF files_at_drop [OF d]] by blast
  then have "rename pl tmp dst c3 = (True, c5)" using c3 f dst d by (simp add: rename_def call_calm)
  then show ?thesis using a b u c2(1) by (simp add: write_file_atomic_def)
qed


subsection \<open>One session\<close>

lemma files_at_framed:
  "framed S c c' \<Longrightarrow> (In_Dir d, HEAD_FILE) \<notin> S \<Longrightarrow> file_at (In_Dir d) HEAD_FILE c \<noteq> None \<Longrightarrow> files_at (In_Dir d) c' \<noteq> None"
  by (rule files_at_file [where nm = HEAD_FILE]) (simp add: framed_def)

lemma measure_rows_works:
  assumes "calm c" and "files_at (In_Dir (seq_name q)) c \<noteq> None"
  shows "\<exists>x c'. measure_rows q c = (Some x, c')"
proof (cases "file_at (In_Dir (seq_name q)) ROWS_FILE c")
  case None
  let ?d = "In_Dir (seq_name q)"
  obtain c1 where a: "fopen_w ?d ROWS_FILE c = (True, c1)" using fopen_w_works [OF assms] by blast
  have c1: "calm c1" "file_at ?d ROWS_FILE c1 \<noteq> None" using ca.fopen_w [OF a] assms(1) fopen_w_effect [OF a] by simp_all
  obtain c2 where b: "sync_file ?d ROWS_FILE c1 = (True, c2)" using sync_works [OF c1] by blast
  have "calm c2" using ca.sync_file [OF b] c1(1) by simp
  then show ?thesis using assms(1) None a b by (simp add: measure_rows_def fopen_r_calm)
qed (use assms(1) in \<open>simp add: measure_rows_def fopen_r_calm\<close>)

lemma truncate_works: "calm c \<Longrightarrow> file_at pl nm c \<noteq> None \<Longrightarrow> \<exists>c'. truncate_file pl nm n c = (True, c')"
proof -
  assume c: "calm c" and "file_at pl nm c \<noteq> None"
  then obtain f where f: "file_at pl nm c = Some f" by blast
  obtain c' where "put_file pl nm (shortened n f) c = Some c'"
    using put_works [OF files_at_file] f by fastforce
  then show ?thesis using c f by (simp add: truncate_file_def call_calm)
qed

lemma recover_one_works:
  assumes "calm c" and "file_at (In_Dir (seq_name q)) HEAD_FILE c \<noteq> None" and "rows_settled c"
    and "\<And>r. file_at (In_Dir (seq_name q)) ROWS_FILE c = Some r \<Longrightarrow> length (fd_dur r) < 2 ^ 64"
  shows "\<exists>c'. recover_one q c = (ESP_OK, c')"
proof -
  let ?d = "In_Dir (seq_name q)"
  obtain k1 c1 where a: "unlink ?d ''CLOSE.TMP'' c = (k1, c1)" by fastforce
  have c1: "calm c1" "file_at ?d HEAD_FILE c1 \<noteq> None" "file_at ?d ROWS_FILE c1 = file_at ?d ROWS_FILE c"
    using ca.unlink [OF a] assms(1,2) unlink_effect [OF a, of ?d HEAD_FILE] unlink_effect [OF a, of ?d ROWS_FILE] by auto
  obtain rows keep sz c2 where b: "measure_rows q c1 = (Some (rows, keep, sz), c2)"
    using measure_rows_works [OF c1(1) files_at_file [OF c1(2)]] by auto
  have v: "settled r" if "file_at ?d ROWS_FILE c1 = Some r" for r using assms(3) c1(3) that by (auto simp: rows_settled_def)
  obtain r where r: "file_at ?d ROWS_FILE c2 = Some r" "settled r" "rows = count_rows (fd_dur r)" "keep = length (complete_rows (fd_dur r))" "sz = length (fd_dur r)"
    using measure_rows_effect(2) [OF b v refl] by blast
  have small: "length (fd_dur r) < 2 ^ 64" using measure_rows_effect(1) [OF b v] r(1) assms(4) c1(3) by (auto simp: synced_file_def)
  have f2: "framed {(?d, ROWS_FILE)} c1 c2" by (rule fr.measure_rows [OF b]) simp
  have c2: "calm c2" "file_at ?d HEAD_FILE c2 \<noteq> None" using ca.measure_rows [OF b] c1 f2 by (simp_all add: framed_def)
  obtain c3 where e: "(if sz > keep then truncate_file ?d ROWS_FILE keep c2 else (True, c2)) = (True, c3)"
    using truncate_works [OF c2(1), of ?d ROWS_FILE keep] r(1) by (cases "sz > keep") auto
  have f3: "framed {(?d, ROWS_FILE)} c2 c3" using e fr.truncate_file [of ?d ROWS_FILE keep c2 True c3 "{(?d, ROWS_FILE)}"] by (auto simp: framed_def split: if_splits)
  have c3: "calm c3" "file_at ?d HEAD_FILE c3 \<noteq> None" using e ca.truncate_file [of ?d ROWS_FILE keep c2 True c3] c2 f3 by (auto simp: framed_def split: if_splits)
  have r3: "file_at ?d ROWS_FILE c3 = Some (synced_file (complete_rows (fd_dur r)))"
    using trim_effect [OF e [unfolded r(4,5)] r(1,2)] by simp
  then have g: "hash_rows q c3 = (Some (sha256_of (complete_rows (fd_dur r))), c3)" using c3(1) by (simp add: hash_rows_def fopen_r_calm hash_pieces)
  have "length (close_head False rows keep (sha256_of (complete_rows (fd_dur r)))) < 192"
    by (rule close_head_fits) (use small r(3,4) count_rows_le [of "fd_dur r"] length_complete_rows [of "fd_dur r"] in auto)
  then have "\<exists>c'. write_close q False rows keep (sha256_of (complete_rows (fd_dur r))) None c3 = (ESP_OK, c')"
    using atomic_works [OF c3(1) files_at_file [OF c3(2)], of "''CLOSE.TMP''" CLOSE_FILE] by (simp add: write_close_def Let_def)
  then show ?thesis using a b e g by (simp add: recover_one_def)
qed

text \<open>Removing empties the directory, and then it goes.\<close>

lemma unlink_all_calm:
  "calm c \<Longrightarrow> map_of (cd_dirs c) d = Some fs \<Longrightarrow>
   calm (unlink_all (In_Dir d) nms c) \<and> map_of (cd_dirs (unlink_all (In_Dir d) nms c)) d = Some (fold AList.delete nms fs)"
proof (induction nms arbitrary: c fs)
  case (Cons nm nms)
  obtain k c1 where u: "unlink (In_Dir d) nm c = (k, c1)" by fastforce
  have "calm c1" using ca.unlink [OF u] Cons.prems(1) by simp
  moreover have "map_of (cd_dirs c1) d = Some (AList.delete nm fs)"
  proof (cases "map_of fs nm")
    case None
    then have "c1 = c" using u Cons.prems by (simp add: unlink_def call_calm drop_file_def)
    moreover have "AList.delete nm fs = fs" using None by (simp add: delete_id map_of_eq_None_iff)
    ultimately show ?thesis using Cons.prems(2) by simp
  next
    case (Some f)
    then have "c1 = set_files (In_Dir d) (AList.delete nm fs) c" using u Cons.prems by (simp add: unlink_def call_calm drop_file_def)
    then show ?thesis by (simp add: AList.update_conv')
  qed
  ultimately show ?case using Cons.IH [of c1] u Cons.prems(1) by simp
qed simp

lemma fold_delete: "set (map fst fs) \<subseteq> set nms \<Longrightarrow> fold AList.delete nms fs = []"
proof (induction nms arbitrary: fs)
  case (Cons nm nms)
  have "set (map fst (AList.delete nm fs)) \<subseteq> set nms" using Cons.prems by (auto simp: delete_keys)
  then show ?case using Cons.IH by simp
qed simp

lemma remove_works:
  assumes "calm c" and "files_at (In_Dir (seq_name q)) c \<noteq> None"
  shows "\<exists>c'. espos_sdlog_remove q c = (ESP_OK, c') \<and> files_at (In_Dir (seq_name q)) c' = None"
proof -
  obtain fs where fs: "map_of (cd_dirs c) (seq_name q) = Some fs" using assms(2) by auto
  let ?c = "unlink_all (In_Dir (seq_name q)) (map fst fs) c"
  have "calm ?c" "map_of (cd_dirs ?c) (seq_name q) = Some []"
    using unlink_all_calm [OF assms(1) fs, of "map fst fs"] fold_delete [of fs "map fst fs"] by auto
  then show ?thesis using assms(1) fs by (simp add: espos_sdlog_remove_def rmdir_def call_calm AList.delete_conv')
qed


text \<open>What is done to one session touches no other directory.\<close>

definition beside :: "string \<Rightarrow> card \<Rightarrow> card \<Rightarrow> bool" where
  "beside d c c' \<longleftrightarrow> (\<forall>d'. d' \<noteq> d \<longrightarrow> files_at (In_Dir d') c' = files_at (In_Dir d') c)"

interpretation be: card_rel "beside d" "insert In_Root {In_Dir d} \<times> UNIV" "insert In_Root {In_Dir d} \<times> UNIV" "{d}" for d
proof unfold_locales
  fix c c' :: card and pl nm f
  show "beside d c c'" if "(pl, nm) \<in> insert In_Root {In_Dir d} \<times> UNIV" "put_file pl nm f c = Some c'"
    using that by (auto simp: beside_def put_file_def AList.update_conv' split: option.splits if_splits)
  show "beside d c c'" if "(pl, nm) \<in> insert In_Root {In_Dir d} \<times> UNIV" "drop_file pl nm c = Some c'"
    using that by (auto simp: beside_def drop_file_def AList.update_conv' split: option.splits if_splits)
  show "beside d c c'" if "tick c = (r, c')" for r using tick_frame [OF that] by (simp add: beside_def)
qed (auto simp: beside_def map_add_def AList.delete_conv' split: option.splits)

lemma beside_file: "beside d c c' \<Longrightarrow> d' \<noteq> d \<Longrightarrow> file_at (In_Dir d') nm c' = file_at (In_Dir d') nm c"
  by (simp add: beside_def file_at_def)

text \<open>What recovery makes of a session.\<close>

definition recovered :: "card \<Rightarrow> card \<Rightarrow> nat \<Rightarrow> bool" where
  "recovered c c' q \<longleftrightarrow>
     (let at = file_at (In_Dir (seq_name q))
      in if at CLOSE_FILE c \<noteq> None then files_at (In_Dir (seq_name q)) c' = files_at (In_Dir (seq_name q)) c
         else if at HEAD_FILE c \<noteq> None
         then (\<exists>f. at CLOSE_FILE c' = Some f \<and> record_true f (at ROWS_FILE c')) \<and> at HEAD_FILE c' = at HEAD_FILE c \<and>
              at ROWS_FILE c' = Some (synced_file (complete_rows (case at ROWS_FILE c of None \<Rightarrow> [] | Some r \<Rightarrow> fd_dur r)))
         else files_at (In_Dir (seq_name q)) c' = None)"

lemma recovered_later:
  "files_at (In_Dir (seq_name q)) c2 = files_at (In_Dir (seq_name q)) c1 \<Longrightarrow> recovered c c1 q \<Longrightarrow> recovered c c2 q"
proof -
  assume f: "files_at (In_Dir (seq_name q)) c2 = files_at (In_Dir (seq_name q)) c1" and r: "recovered c c1 q"
  have "file_at (In_Dir (seq_name q)) nm c2 = file_at (In_Dir (seq_name q)) nm c1" for nm using f by (simp add: file_at_def)
  note e = this
  show ?thesis using r unfolding recovered_def Let_def f e .
qed

lemma recovered_earlier:
  "files_at (In_Dir (seq_name q)) c1 = files_at (In_Dir (seq_name q)) c \<Longrightarrow> recovered c1 c2 q \<Longrightarrow> recovered c c2 q"
proof -
  assume f: "files_at (In_Dir (seq_name q)) c1 = files_at (In_Dir (seq_name q)) c" and r: "recovered c1 c2 q"
  have "file_at (In_Dir (seq_name q)) nm c1 = file_at (In_Dir (seq_name q)) nm c" for nm using f by (simp add: file_at_def)
  note e = this
  show ?thesis using r unfolding recovered_def Let_def f e .
qed

definition small_rows :: "card \<Rightarrow> bool" where
  "small_rows c \<longleftrightarrow> (\<forall>d r. file_at (In_Dir d) ROWS_FILE c = Some r \<longrightarrow> length (fd_dur r) < 2 ^ 64)"

lemma recovered_small:
  "recovered c c' q \<Longrightarrow> small_rows c \<Longrightarrow> file_at (In_Dir (seq_name q)) ROWS_FILE c' = Some x \<Longrightarrow> length (fd_dur x) < 2 ^ 64"
proof -
  assume r: "recovered c c' q" and s: "small_rows c" and x: "file_at (In_Dir (seq_name q)) ROWS_FILE c' = Some x"
  let ?o = "file_at (In_Dir (seq_name q)) ROWS_FILE c"
  consider "?o = Some x" | "x = synced_file (complete_rows (case ?o of None \<Rightarrow> [] | Some r \<Rightarrow> fd_dur r))"
    using r x by (auto simp: recovered_def Let_def file_at_def split: if_splits)
  then show ?thesis
  proof cases
    case 2
    then have "length (fd_dur x) \<le> length (case ?o of None \<Rightarrow> [] | Some r \<Rightarrow> fd_dur r)" using length_complete_rows by (simp add: synced_file_def)
    then show ?thesis using s by (cases ?o) (auto simp: small_rows_def dest: le_less_trans)
  qed (use s in \<open>simp add: small_rows_def\<close>)
qed

lemma recovered_settled:
  "recovered c c' q \<Longrightarrow> rows_settled c \<Longrightarrow> file_at (In_Dir (seq_name q)) ROWS_FILE c' = Some x \<Longrightarrow> settled x"
  by (auto simp: recovered_def rows_settled_def file_at_def Let_def split: if_splits)

text \<open>What holds of the rows files of all sessions, when it holds of those of the one session that changed.\<close>

lemma rows_beside:
  assumes "beside (seq_name q) c c'" and "\<And>d r. file_at (In_Dir d) ROWS_FILE c = Some r \<Longrightarrow> Q r"
    and "\<And>r. file_at (In_Dir (seq_name q)) ROWS_FILE c' = Some r \<Longrightarrow> Q r" and "file_at (In_Dir d) ROWS_FILE c' = Some r"
  shows "Q r"
proof (cases "d = seq_name q")
  case False
  then show ?thesis using assms(2,4) beside_file [OF assms(1) False] by simp
qed (use assms(3,4) in simp)

lemma recover_session_works:
  assumes "calm c" and "rows_settled c" and "small_rows c" and "files_at (In_Dir (seq_name q)) c \<noteq> None"
  shows "\<exists>n m c'. recover_session q c = (ESP_OK, n, m, c') \<and> recovered c c' q"
proof -
  let ?d = "In_Dir (seq_name q)"
  consider "file_at ?d CLOSE_FILE c \<noteq> None" | "file_at ?d CLOSE_FILE c = None" "file_at ?d HEAD_FILE c \<noteq> None"
    | "file_at ?d CLOSE_FILE c = None" "file_at ?d HEAD_FILE c = None" by blast
  then show ?thesis
  proof cases
    case 1
    then show ?thesis using assms(1) by (simp add: recover_session_def recovered_def)
  next
    case 2
    obtain c' where r: "recover_one q c = (ESP_OK, c')"
      using recover_one_works [OF assms(1) 2(2) assms(2)] assms(3) by (auto simp: small_rows_def)
    have "framed {(?d, ''CLOSE.TMP''), (?d, CLOSE_FILE), (?d, ROWS_FILE)} c c'" by (rule fr.recover_one [OF r]) simp
    then have "file_at ?d HEAD_FILE c' = file_at ?d HEAD_FILE c" by (simp add: framed_def)
    then show ?thesis using recover_one_here [OF r 2(1) assms(2)] r 2 assms(1) by (auto simp: recover_session_def recovered_def)
  next
    case 3
    then show ?thesis using remove_works [OF assms(1,4)] assms(1) by (auto simp: recover_session_def recovered_def)
  qed
qed


subsection \<open>All sessions\<close>

lemma set_map_filter: "y \<in> set (List.map_filter f xs) \<longleftrightarrow> (\<exists>x \<in> set xs. f x = Some y)"
  by (induction xs) (auto simp: List.map_filter_simps split: option.splits)

text \<open>The sessions a listing finds: the directories whose names are numbers, each once.\<close>

lemma scan_loop_calm:
  "calm c \<Longrightarrow> scan_loop es cap acc c =
     (ESP_OK, acc @ List.map_filter (\<lambda>(nm, d). if d then parse_seq nm else None) es, c)"
proof (induction es arbitrary: cap acc)
  case (Cons e es)
  then show ?case by (cases e) (auto simp: List.map_filter_simps split: option.splits)
qed (simp add: List.map_filter_simps)

lemma scan_calm:
  assumes "calm c" and "card_wf c"
  obtains qs where "scan c = (ESP_OK, qs, c)" and "distinct qs" and "\<And>q. q \<in> set qs \<longleftrightarrow> q < 10 ^ 8 \<and> files_at (In_Dir (seq_name q)) c \<noteq> None"
proof (cases "cd_root c")
  case False
  then have "cd_dirs c = []" using assms(2) by (simp add: card_wf_def)
  then show ?thesis using that [of "[]"] False assms(1) by (simp add: scan_def)
next
  case True
  define nums where "nums = List.map_filter parse_seq (map fst (cd_dirs c))"
  have mf: "List.map_filter (\<lambda>(nm, d). if d then parse_seq nm else None) (map (\<lambda>(d, _). (d, True)) ds @ map (\<lambda>(n, _). (n, False)) fs) = List.map_filter parse_seq (map fst ds)"
    for ds :: "(string \<times> directory) list" and fs :: directory
  proof -
    have "List.map_filter (\<lambda>(nm, d). if d then parse_seq nm else None) (map (\<lambda>(n, _). (n, False)) fs) = []"
      by (induction fs) (auto simp: List.map_filter_simps)
    then show ?thesis by (induction ds) (auto simp: List.map_filter_simps split: option.splits)
  qed
  have "scan c = (ESP_OK, sort nums, c)" using assms(1) True by (simp add: scan_def scan_loop_calm mf nums_def)
  moreover have "distinct nums"
  proof -
    have "distinct (List.map_filter parse_seq ns)" if "distinct ns" for ns
      using that by (induction ns) (auto simp: List.map_filter_simps set_map_filter parse_seq_iff split: option.splits)
    then show ?thesis using assms(2) by (simp add: card_wf_def nums_def)
  qed
  moreover have "q \<in> set nums \<longleftrightarrow> q < 10 ^ 8 \<and> files_at (In_Dir (seq_name q)) c \<noteq> None" for q
    by (auto simp: nums_def set_map_filter parse_seq_iff map_of_eq_None_iff image_iff)
  ultimately show ?thesis using that [of "sort nums"] by simp
qed

lemma seq_name_inj: "q < 10 ^ 8 \<Longrightarrow> q' < 10 ^ 8 \<Longrightarrow> seq_name q = seq_name q' \<Longrightarrow> q = q'"
  using parse_seq_iff by (metis option.inject)

lemma recover_all_works:
  "calm c \<Longrightarrow> rows_settled c \<Longrightarrow> small_rows c \<Longrightarrow> distinct qs \<Longrightarrow>
   (\<And>q. q \<in> set qs \<Longrightarrow> q < 10 ^ 8 \<and> files_at (In_Dir (seq_name q)) c \<noteq> None) \<Longrightarrow>
   \<exists>n m c'. recover_all qs c = (ESP_OK, n, m, c') \<and> (\<forall>q \<in> set qs. recovered c c' q) \<and>
     (\<forall>d. d \<notin> seq_name ` set qs \<longrightarrow> files_at (In_Dir d) c' = files_at (In_Dir d) c)"
proof (induction qs arbitrary: c)
  case (Cons q qs)
  obtain n m c1 where a: "recover_session q c = (ESP_OK, n, m, c1)" and r: "recovered c c1 q"
    using recover_session_works [OF Cons.prems(1-3), of q] Cons.prems(5) [of q] by auto
  have be: "beside (seq_name q) c c1" by (rule be.recover_session [OF a]) simp
  have nq: "seq_name q' \<noteq> seq_name q" if "q' \<in> set qs" for q'
    using seq_name_inj [of q' q] that Cons.prems(4,5) by auto
  have c1: "calm c1" using ca.recover_session [OF a] Cons.prems(1) by simp
  have "settled x" if "file_at (In_Dir d) ROWS_FILE c1 = Some x" for d x
    by (rule rows_beside [OF be _ _ that]) (use Cons.prems(2) recovered_settled [OF r] in \<open>simp_all add: rows_settled_def\<close>)
  moreover have "length (fd_dur x) < 2 ^ 64" if "file_at (In_Dir d) ROWS_FILE c1 = Some x" for d x
    by (rule rows_beside [OF be _ _ that]) (use Cons.prems(3) recovered_small [OF r] in \<open>simp_all add: small_rows_def\<close>)
  ultimately have c1: "calm c1" "rows_settled c1" "small_rows c1" using c1 by (auto simp: rows_settled_def small_rows_def)

  have here: "q' < 10 ^ 8 \<and> files_at (In_Dir (seq_name q')) c1 \<noteq> None" if "q' \<in> set qs" for q'
    using Cons.prems(5) [of q'] be nq [OF that] that unfolding beside_def by simp
  obtain n' m' c' where b: "recover_all qs c1 = (ESP_OK, n', m', c')" "\<forall>q \<in> set qs. recovered c1 c' q"
      "\<forall>d. d \<notin> seq_name ` set qs \<longrightarrow> files_at (In_Dir d) c' = files_at (In_Dir d) c1"
    using Cons.IH [OF c1 _ here] Cons.prems(4) by auto
  have "recovered c c' q'" if "q' \<in> set (q # qs)" for q'
  proof (cases "q' = q")
    case True
    have "seq_name q \<notin> seq_name ` set qs" using nq by fastforce
    then show ?thesis using recovered_later [OF _ r] b(3) True by blast
  next
    case False
    then show ?thesis using recovered_earlier [of q' c1 c c'] b(2) be nq that unfolding beside_def by auto
  qed
  moreover have "files_at (In_Dir d) c' = files_at (In_Dir d) c" if "d \<notin> seq_name ` set (q # qs)" for d
    using b(3) be that unfolding beside_def by simp
  ultimately show ?case using a b(1) by simp
qed simp


subsection \<open>The calls of an open session\<close>

context card_rel
begin

lemma sync: "espos_sdlog_sync s c = (err, s', c') \<Longrightarrow> (session_dir s, ROWS_FILE) \<in> P \<Longrightarrow> R c c'"
  by (auto simp: espos_sdlog_sync_def refl split: if_splits prod.splits intro: sync_file)

lemma append:
  assumes "espos_sdlog_append s row c = (err, s', c')" and "(session_dir s, ROWS_FILE) \<in> P"
  shows "R c c'"
proof (cases "row = None \<or> CHR 0x0D \<in> set (the row) \<or> CHR 0x0A \<in> set (the row) \<or> ss_failed s")
  case True
  then show ?thesis using assms(1) refl by (auto simp: espos_sdlog_append_def split: if_splits option.splits)
next
  case False
  then obtain w where w: "row = Some w" by (cases row) auto
  obtain k1 c1 where a: "Sdlog_Card.fwrite (session_dir s) ROWS_FILE (bytes_of w) c = (k1, c1)" by fastforce
  obtain k2 c2 where b: "Sdlog_Card.fwrite (session_dir s) ROWS_FILE (bytes_of (row_tail (ss_row_crc s) w)) c1 = (k2, c2)" by fastforce
  have r1: "R c c1" by (rule fwrite [OF a assms(2)])
  have r2: "R c c2" using r1 fwrite [OF b assms(2)] trans by blast
  have "c' \<in> {c1, c2} \<or> (\<exists>u. session_dir u = session_dir s \<and> espos_sdlog_sync u c2 = (err, s', c'))"
    using assms(1) False w a b by (cases k1; cases k2) (auto simp: espos_sdlog_append_def Let_def split: if_splits)
  then show ?thesis using r1 r2 trans [OF r2 sync] assms(2) by auto
qed

lemma close:
  assumes "espos_sdlog_close s meta c = (err, c')" and "(session_dir s, ROWS_FILE) \<in> P"
    and "{(session_dir s, ''CLOSE.TMP''), (session_dir s, CLOSE_FILE)} \<subseteq> P \<inter> D"
  shows "R c c'"
proof -
  obtain k1 c1 where a: "(if ss_failed s then (False, c) else Sdlog_Session.sync_file (session_dir s) ROWS_FILE c) = (k1, c1)" by fastforce
  obtain k2 c2 where b: "Sdlog_Card.plain_call c1 = (k2, c2)" by fastforce
  have "R c c1" using a refl sync_file assms(2) by (auto split: if_splits)
  then have r2: "R c c2" using plain_call [OF b] trans by blast
  then show ?thesis using assms(1,3) a b trans [OF r2 write_close] by (auto simp: espos_sdlog_close_def split: if_splits)
qed

lemma open_session:
  assumes "open_session q every crc header c = (err, so, c')" and "\<forall>nm. (In_Dir (seq_name q), nm) \<in> P \<inter> D" and "seq_name q \<in> E"
  shows "R c c'"
proof -
  let ?d = "In_Dir (seq_name q)"
  obtain k1 c1 where a: "Sdlog_Card.mkdir (seq_name q) c = (k1, c1)" by fastforce
  obtain e2 c2 where b: "Sdlog_Session.write_file_atomic ?d ''HEAD.TMP'' HEAD_FILE [header] c1 = (e2, c2)" by fastforce
  obtain k3 c3 where d: "Sdlog_Card.plain_call c2 = (k3, c3)" by fastforce
  obtain k4 c4 where e: "Sdlog_Card.fopen_w ?d ROWS_FILE c3 = (k4, c4)" by fastforce
  have r1: "R c c1" by (rule mkdir [OF a assms(3)])
  have r2: "R c c2" using r1 write_file_atomic [OF b] assms(2) trans by blast
  have r3: "R c c3" using r2 plain_call [OF d] trans by blast
  have r4: "R c c4" using r3 fopen_w [OF e] assms(2) trans by blast
  have rm: "R x (snd (espos_sdlog_remove q x))" for x using remove [of q x "fst (espos_sdlog_remove q x)"] assms(2,3) by simp
  have "c' \<in> {c1, c4} \<or> (\<exists>x \<in> {c2, c3, c4}. c' = snd (espos_sdlog_remove q x))"
    using assms(1) a b d e by (auto simp: open_session_def split: if_splits)
  then show ?thesis using r1 r2 r3 r4 rm trans by auto
qed

lemma open_log:
  assumes "espos_sdlog_open rt header cfg c = (err, so, c')" and "\<forall>q nm. (In_Dir (seq_name q), nm) \<in> P \<inter> D \<and> seq_name q \<in> E"
    and "{(In_Root, LAST_SEQ_TMP), (In_Root, LAST_SEQ_FILE)} \<subseteq> P \<inter> D"
  shows "R c c'"
proof (cases "header = None \<or> fst rt + 1 + 8 + 1 + 12 \<ge> 160")
  case True
  then show ?thesis using assms(1) refl by (auto simp: espos_sdlog_open_def)
next
  case False
  obtain e1 c1 where a: "Sdlog_Session.mkdir_p rt c = (e1, c1)" by fastforce
  obtain e2 qs c2 where b: "Sdlog_Session.scan c1 = (e2, qs, c2)" by (metis prod_cases3)
  obtain v c3 where d: "Sdlog_Session.read_last_seq c2 = (v, c3)" by fastforce
  define l where "l = (if qs \<noteq> [] \<and> last qs > v then last qs else v)"
  obtain e4 c4 where e: "Sdlog_Session.write_last_seq (l + 1) c3 = (e4, c4)" by fastforce
  have r1: "R c c1" by (rule mkdir_p [OF a])
  have r2: "R c c2" using r1 scan [OF b] trans by blast
  have r3: "R c c3" using r2 read_last_seq [OF d] trans by blast
  have r4: "R c c4" using r3 write_last_seq [OF e assms(3)] trans by blast
  have "so = None \<and> c' \<in> {c1, c2, c3, c4} \<or> (\<exists>ev crc. Sdlog_Session.open_session (l + 1) ev crc (the header) c4 = (err, so, c'))"
    using assms(1) False a b d e by (auto simp: espos_sdlog_open_def l_def Let_def split: if_splits)
  then show ?thesis using r1 r2 r3 r4 trans [OF r4 open_session] assms(2) by auto
qed

end

lemma power_up_wf: "card_wf (power_up kept script c) = card_wf c"
proof -
  have "fst \<circ> (\<lambda>(d, fs). (d, map (\<lambda>(nm, f). (nm, settle (kept d nm) f)) fs)) = fst" by (auto simp: fun_eq_iff)
  then show ?thesis by (simp add: card_wf_def power_up_def)
qed

lemma log_step_wf: "card_wf (lg_card l) \<Longrightarrow> card_wf (lg_card (log_step l e))"
proof (cases e)
  case (Log_Boot kept recovery later)
  assume w: "card_wf (lg_card l)"
  obtain err n m c where r: "espos_sdlog_recover (power_up kept recovery (lg_card l)) = (err, n, m, c)" by (metis prod_cases4)
  have "card_wf c" using wf.recover [OF r] w power_up_wf by simp
  then show ?thesis using Log_Boot r by (simp add: card_wf_def)
qed (auto split: prod.splits option.splits dest!: wf.open_log wf.append wf.sync wf.close wf.info wf.list wf.mark_synced wf.remove wf.prune)

interpretation wl: event_machine log_step "\<lambda>l. card_wf (lg_card l)"
  by unfold_locales (rule log_step_wf)

lemma blank_wf: "card_wf (lg_card blank_logger)"
  by (simp add: blank_logger_def card_wf_def)

text \<open>
  C7. Recovery closes every session. Take any run of a logger from a blank card, in which calls fail and the power is cut at any step, those of earlier recoveries
  too; then a power cut and a boot on which every call works, with any part of the unsynced bytes still there and rows files of fewer than \<open>2 ^ 64\<close> bytes. The
  recovery reports success; every session that has a header and no close record gets one, which describes its rows file, and its rows file then has exactly
  the complete rows, synced; a session without a header is gone; a closed session is as it was.
\<close>

theorem sdlog_recovery_closes_every_session:
  fixes es kept
  defines "c \<equiv> power_up kept [] (lg_card (foldl log_step blank_logger es))"
  assumes "small_rows c"
  shows "\<exists>n m c'. espos_sdlog_recover c = (ESP_OK, n, m, c') \<and>
           (\<forall>q. q < 10 ^ 8 \<and> files_at (In_Dir (seq_name q)) c \<noteq> None \<longrightarrow> recovered c c' q)"
proof -
  let ?l = "foldl log_step blank_logger es"
  have c: "calm c" by (simp add: c_def calm_def power_up_def)
  have w: "card_wf c" unfolding c_def power_up_wf by (rule wl.run_inv [OF blank_wf])
  have t: "rows_settled c" unfolding c_def by (rule power_up_settled)

  obtain qs where qs: "scan c = (ESP_OK, qs, c)" "distinct qs" "\<And>q. q \<in> set qs \<longleftrightarrow> q < 10 ^ 8 \<and> files_at (In_Dir (seq_name q)) c \<noteq> None"
    using scan_calm [OF c w] by blast
  show ?thesis using recover_all_works [OF c t assms(2) qs(2)] qs by (auto simp: espos_sdlog_recover_def)
qed


subsection \<open>Runs\<close>

definition short_run :: "log_event list" where
  "short_run = [Log_Open (4, 1) (Some ''{}'') None, Log_Append (Some ''a''), Log_Append (Some ''b'')]"

lemma short_run_card:
  "lg_card (foldl log_step blank_logger short_run) =
     \<lparr>cd_root = True, cd_files = [(''LASTSEQ.TXT'', synced_file (bytes_of (''1'' @ [CHR 0x0A])))],
      cd_dirs = [(''00000001'',
                   [(HEAD_FILE, synced_file (bytes_of ''{}'')),
                    (ROWS_FILE, \<lparr>fd_dur = [], fd_vol = bytes_of (''a'' @ [CHR 0x0A] @ ''b'' @ [CHR 0x0A]), fd_out = 0\<rparr>)])],
      cd_script = [], cd_on = True\<rparr>"
  by (simp add: short_run_def card_eval log_eval first_names bytes_of_def)

theorem sdlog_recovery_closes_every_session_witness:
  "\<exists>n m c'. espos_sdlog_recover (power_up (\<lambda>_ _. 3) [] (lg_card (foldl log_step blank_logger short_run))) = (ESP_OK, n, m, c') \<and>
     file_at (In_Dir ''00000001'') ROWS_FILE c' = Some (synced_file (bytes_of (''a'' @ [CHR 0x0A]))) \<and>
     file_at (In_Dir ''00000001'') CLOSE_FILE c' \<noteq> None"
proof -
  let ?c = "power_up (\<lambda>_ _. 3) [] (lg_card (foldl log_step blank_logger short_run))"

  have f: "file_at (In_Dir ''00000001'') CLOSE_FILE ?c = None" "file_at (In_Dir ''00000001'') HEAD_FILE ?c \<noteq> None"
    "file_at (In_Dir ''00000001'') ROWS_FILE ?c = Some (synced_file (bytes_of (''a'' @ [CHR 0x0A] @ ''b'')))"
    unfolding short_run_card by (simp_all add: power_up_def file_at_def settle_def synced_file_def bytes_of_def)
  have "small_rows ?c"
    unfolding short_run_card by (auto simp: small_rows_def power_up_def file_at_def settle_def synced_file_def bytes_of_def split: if_splits)
  from sdlog_recovery_closes_every_session [OF this] obtain n m c' where r: "espos_sdlog_recover ?c = (ESP_OK, n, m, c')"
      and a: "\<forall>q. q < 10 ^ 8 \<and> files_at (In_Dir (seq_name q)) ?c \<noteq> None \<longrightarrow> recovered ?c c' q" by blast
  have "recovered ?c c' 1" using a [rule_format, of 1] files_at_file [OF f(2)] by (simp add: first_names)
  moreover have "complete_rows (bytes_of (''a'' @ [CHR 0x0A] @ ''b'')) = bytes_of (''a'' @ [CHR 0x0A])"
    by (simp add: complete_rows_def bytes_of_def)
  ultimately show ?thesis using r f by (auto simp: recovered_def first_names synced_file_def Let_def)
qed

end
