(* ===== verification/Sdlog_Limits.thy ===== *)
theory Sdlog_Limits
  imports Sdlog_Boot
begin

text \<open>
  Pruning spares what was not delivered, on any card; and two runs in which the session log does not do what it promises: a number that is handed
  out twice, and a recovery that deletes a closed session.
\<close>

subsection \<open>Pruning\<close>

definition same_dirs :: "card \<Rightarrow> card \<Rightarrow> bool" where
  "same_dirs c c' \<longleftrightarrow> (\<forall>d. files_at (In_Dir d) c' = files_at (In_Dir d) c)"

interpretation sd: card_rel same_dirs "{}" "{}" "{}"
  by unfold_locales (auto simp: same_dirs_def dest: tick_frame)

lemma same_dirs_file: "same_dirs c c' \<Longrightarrow> file_at (In_Dir d) nm c' = file_at (In_Dir d) nm c"
  by (simp add: same_dirs_def file_at_def)

lemma exists_file_true: "exists_file pl nm c = (True, c') \<Longrightarrow> file_at pl nm c \<noteq> None"
  unfolding exists_file_def by (erule call_cases) (auto split: if_splits dest: file_at_tick [where pl = pl and nm = nm])

lemma info_flags:
  assumes "espos_sdlog_info q c = (ESP_OK, i, c')"
  shows "in_seq i = q" and "in_synced i \<Longrightarrow> file_at (In_Dir (seq_name q)) SYNCED_FILE c \<noteq> None"
    and "in_closed i \<Longrightarrow> file_at (In_Dir (seq_name q)) CLOSE_FILE c \<noteq> None"
proof -
  let ?d = "In_Dir (seq_name q)"
  obtain k1 c1 where a: "exists_dir (seq_name q) c = (k1, c1)" by fastforce
  obtain k2 c2 where b: "exists_file ?d SYNCED_FILE c1 = (k2, c2)" by fastforce
  obtain k3 c3 where d: "exists_file ?d CLOSE_FILE c2 = (k3, c3)" by fastforce
  have i: "in_seq i = q" "in_synced i = k2" "in_closed i = k3"
    using assms a b d
    by (cases k1; cases k3; auto simp: espos_sdlog_info_def read_close_def zero_info_def Let_def split: prod.splits opened.splits option.splits if_splits)+
  show "in_seq i = q" by (rule i(1))
  show "file_at ?d SYNCED_FILE c \<noteq> None" if "in_synced i"
    using exists_file_true [of ?d SYNCED_FILE c1 c2] b i(2) that same_dirs_file [OF sd.exists_dir [OF a], of "seq_name q" SYNCED_FILE] by simp
  show "file_at ?d CLOSE_FILE c \<noteq> None" if "in_closed i"
    using exists_file_true [of ?d CLOSE_FILE c2 c3] d i(3) that
      same_dirs_file [OF sd.trans [OF sd.exists_dir [OF a] sd.exists_file [OF b]], of "seq_name q" CLOSE_FILE] by simp
qed

definition delivered :: "card \<Rightarrow> string \<Rightarrow> bool" where
  "delivered c d \<longleftrightarrow> file_at (In_Dir d) SYNCED_FILE c \<noteq> None \<and> file_at (In_Dir d) CLOSE_FILE c \<noteq> None"

lemma delivered_same: "same_dirs c c' \<Longrightarrow> delivered c' d = delivered c d"
  by (simp add: delivered_def same_dirs_file)

lemma read_infos_flags:
  "read_infos qs c = (is, c') \<Longrightarrow> i \<in> set is \<Longrightarrow> in_closed i \<Longrightarrow> in_synced i \<Longrightarrow> delivered c (seq_name (in_seq i))"
proof (induction qs arbitrary: c "is" c')
  case (Cons q qs)
  obtain e j c1 where a: "espos_sdlog_info q c = (e, j, c1)" by (metis prod_cases3)
  obtain js c2 where b: "read_infos qs c1 = (js, c2)" by fastforce
  let ?j = "if e = ESP_OK then j else j\<lparr>in_seq := q, in_synced := False, in_bytes := 0\<rparr>"
  have "is = ?j # js" using Cons.prems(1) a b by (auto simp: Let_def)
  then consider "i = ?j" | "i \<in> set js" using Cons.prems(2) by auto
  then show ?case
  proof cases
    case 1
    then have "e = ESP_OK" using Cons.prems(4) by (auto split: if_splits)
    then show ?thesis using 1 info_flags [of q c j c1] a Cons.prems(3,4) by (simp add: delivered_def)
  next
    case 2
    then show ?thesis using Cons.IH [OF b 2 Cons.prems(3,4)] delivered_same [OF sd.info [OF a]] by simp
  qed
qed simp

lemma prune_loop_spares:
  "prune_loop is b keep c = (err, n, c') \<Longrightarrow> (\<And>i. i \<in> set is \<Longrightarrow> in_closed i \<Longrightarrow> in_synced i \<Longrightarrow> seq_name (in_seq i) \<noteq> d) \<Longrightarrow>
   files_at (In_Dir d) c' = files_at (In_Dir d) c"
proof (induction "is" arbitrary: b c err n)
  case (Cons i "is")
  obtain e c1 where a: "espos_sdlog_remove (in_seq i) c = (e, c1)" by fastforce
  have be: "beside (seq_name (in_seq i)) c c1" by (rule be.remove [OF a]) simp_all
  show ?case
  proof (cases "b > keep \<and> in_closed i \<and> in_synced i")
    case True
    then have "\<exists>b' err' n'. prune_loop is b' keep c1 = (err', n', c')" using Cons.prems(1) a by (auto split: if_splits prod.splits)
    then have "files_at (In_Dir d) c' = files_at (In_Dir d) c1" using Cons.IH Cons.prems(2) by (metis list.set_intros(2))
    then show ?thesis using be True Cons.prems(2) [of i] unfolding beside_def by simp
  next
    case False
    then have "c' = c \<or> prune_loop is b keep c = (err, n, c')" using Cons.prems(1) by (auto split: if_splits)
    then show ?thesis using Cons.IH Cons.prems(2) by (metis list.set_intros(2))
  qed
qed simp

text \<open>
  C9. Pruning never takes a session that has not reached its server. Whatever the card does, whatever is to be kept and wherever the power is cut, a session without its delivery mark
  or without its close record has the same files after a prune as before.
\<close>

theorem sdlog_prune_spares_undelivered:
  assumes "espos_sdlog_prune keep c = (err, n, c')"
    and "file_at (In_Dir (seq_name q)) SYNCED_FILE c = None \<or> file_at (In_Dir (seq_name q)) CLOSE_FILE c = None"
  shows "files_at (In_Dir (seq_name q)) c' = files_at (In_Dir (seq_name q)) c"
proof -
  obtain e qs c1 where a: "scan c = (e, qs, c1)" by (metis prod_cases3)
  obtain k c2 where b: "(if qs = [] then (True, c1) else plain_call c1) = (k, c2)" by fastforce
  obtain "is" c3 where d: "read_infos qs c2 = (is, c3)" by fastforce
  have s2: "same_dirs c c2" using sd.trans [OF sd.scan [OF a]] sd.plain_call sd.refl b by (auto split: if_splits)
  have s3: "same_dirs c c3" using sd.trans [OF s2 sd.read_infos [OF d]] .
  have n: "seq_name (in_seq i) \<noteq> seq_name q" if "i \<in> set is" "in_closed i" "in_synced i" for i
    using read_infos_flags [OF d that] delivered_same [OF s2] assms(2) by (metis delivered_def)
  have "c' \<in> {c1, c2} \<or> prune_loop is (sum_list (map in_bytes is)) keep c3 = (err, n, c')"
    using assms(1) a b d by (auto simp: espos_sdlog_prune_def split: if_splits)
  then show ?thesis using prune_loop_spares [of "is" _ keep c3 err n c' "seq_name q"] n sd.scan [OF a] s2 s3 unfolding same_dirs_def by auto
qed

theorem sdlog_prune_spares_undelivered_witness:
  "files_at (In_Dir ''00000001'') (snd (snd (espos_sdlog_prune 0 (lg_card (foldl log_step blank_logger short_run))))) =
   Some [(HEAD_FILE, synced_file (bytes_of ''{}'')), (ROWS_FILE, \<lparr>fd_dur = [], fd_vol = bytes_of (''a'' @ [CHR 0x0A] @ ''b'' @ [CHR 0x0A]), fd_out = 0\<rparr>)]"
proof -
  let ?c = "lg_card (foldl log_step blank_logger short_run)"
  have "file_at (In_Dir (seq_name 1)) SYNCED_FILE ?c = None" unfolding short_run_card by (simp add: file_at_def first_names)
  then have "files_at (In_Dir (seq_name 1)) (snd (snd (espos_sdlog_prune 0 ?c))) = files_at (In_Dir (seq_name 1)) ?c"
    using sdlog_prune_spares_undelivered [of 0 ?c "fst (espos_sdlog_prune 0 ?c)" "fst (snd (espos_sdlog_prune 0 ?c))"] by simp
  then show ?thesis unfolding short_run_card by (simp add: first_names)
qed

subsection \<open>A number twice\<close>

text \<open>A session is opened and removed; the next opening loses power between the removal of the old number file and the rename, the one after it when the new file has just been emptied.\<close>

definition opened_once :: "log_event list" where
  "opened_once = [Log_Open (4, 0) (Some ''{}'') None]"

definition cut_rename :: "outcome list" where
  "cut_rename = [Io_Ok, Io_Ok, Io_Ok, Io_Ok, Io_Ok, Io_Ok, Io_Ok, Io_Ok, Io_Ok, Io_Ok, Io_Ok, Io_Ok, Power_Cut]"

definition cut_write :: "outcome list" where
  "cut_write = [Io_Ok, Io_Ok, Io_Ok, Io_Ok, Io_Ok, Io_Ok, Io_Ok, Power_Cut]"

definition two_cuts :: "log_event list" where
  "two_cuts =
     [Log_Remove 1,
      Log_Boot (\<lambda>_ _. 0) [] cut_rename, Log_Open (4, 0) (Some ''{}'') None,
      Log_Boot (\<lambda>_ _. 0) [] cut_write, Log_Open (4, 0) (Some ''{}'') None,
      Log_Boot (\<lambda>_ _. 0) [] [], Log_Open (4, 0) (Some ''{}'') None]"

lemma number_names:
  "parse_seq LAST_SEQ_FILE = None" "parse_seq LAST_SEQ_TMP = None" "parse_seq ''00000001'' = Some 1"
  "dec_of_nat 2 = ''2''" "dec_of_nat (Suc (Suc 0)) = ''2''" "seq_name 2 = ''00000002''"
  by code_simp+

lemma chars_of_bytes_of [simp]: "chars_of (bytes_of t) = t"
  by (simp add: chars_of_def bytes_of_def comp_def unat_of_char_u8)

lemma number_files:
  "scan_unsigned 32 [CHR ''1'', CHR 0x0A] = Some (1, [CHR 0x0A])" "scan_unsigned 32 [CHR ''2'', CHR 0x0A] = Some (2, [CHR 0x0A])"
  "scan_unsigned 32 [] = None" "chars_of [] = []"
  using scan_unsigned_dec [of 1 32 "[CHR 0x0A]"] scan_unsigned_dec [of 2 32 "[CHR 0x0A]"]
  by (simp_all add: first_names number_names is_digit_def) (simp_all add: scan_unsigned_def chars_of_def)

text \<open>The card between the sessions: only the number is left.\<close>

definition number_card :: "string \<Rightarrow> string \<Rightarrow> outcome list \<Rightarrow> bool \<Rightarrow> logger" where
  "number_card nm t script up =
     \<lparr>lg_card = \<lparr>cd_root = True, cd_files = [(nm, synced_file (bytes_of t))], cd_dirs = [], cd_script = script, cd_on = up\<rparr>, lg_session = None\<rparr>"

lemma number_boot:
  assumes "lg_card l = lg_card (number_card nm t script up)" and "parse_seq nm = None"
  shows "log_step l (Log_Boot kept [] later) = number_card nm t later True"
  using assms by (simp add: number_card_def power_up_def espos_sdlog_recover_def scan_def tick_def settle_def synced_file_def)

lemma number_first:
  "lg_card (log_step (foldl log_step blank_logger opened_once) (Log_Remove 1)) = lg_card (number_card LAST_SEQ_FILE (''1'' @ [CHR 0x0A]) [] True)"
  "espos_sdlog_seq (lg_session (foldl log_step blank_logger opened_once)) = 1"
  by (simp_all add: opened_once_def number_card_def card_eval log_eval first_names espos_sdlog_remove_def espos_sdlog_seq_def)

lemma number_cut_rename:
  "log_step (number_card LAST_SEQ_FILE (''1'' @ [CHR 0x0A]) cut_rename True) (Log_Open (4, 0) (Some ''{}'') None) = number_card LAST_SEQ_TMP (''2'' @ [CHR 0x0A]) [] False"
  by (simp add: number_card_def cut_rename_def card_eval log_eval number_names number_files del: bytes_of_simps(2))

lemma number_cut_write:
  "log_step (number_card LAST_SEQ_TMP (''2'' @ [CHR 0x0A]) cut_write True) (Log_Open (4, 0) (Some ''{}'') None) = number_card LAST_SEQ_TMP [] [] False"
  by (simp add: number_card_def cut_write_def card_eval log_eval number_names number_files del: bytes_of_simps(2))

lemma number_again:
  "espos_sdlog_seq (lg_session (log_step (number_card LAST_SEQ_TMP [] [] True) (Log_Open (4, 0) (Some ''{}'') None))) = 1"
  by (simp add: number_card_def card_eval log_eval number_names number_files first_names espos_sdlog_seq_def)

text \<open>
  C40. A number can be handed out twice. A session gets number 1 and is removed; the power is cut while the next session is opened, between the removal of the old number
  file and the rename of the new one, and again while the session after it is opened, when the number file has just been emptied. No call fails, the recoveries
  are whole, and the next session gets number 1 again.
\<close>

theorem sdlog_number_handed_out_twice:
  "list_all sound_recovery (opened_once @ two_cuts) \<and>
   espos_sdlog_seq (lg_session (foldl log_step blank_logger opened_once)) = 1 \<and>
   espos_sdlog_seq (lg_session (foldl log_step blank_logger (opened_once @ two_cuts))) = 1"
proof (intro conjI)
  let ?l1 = "log_step (foldl log_step blank_logger opened_once) (Log_Remove 1)" and ?open = "Log_Open (4, 0) (Some ''{}'') None"
  show "list_all sound_recovery (opened_once @ two_cuts)" by (simp add: opened_once_def two_cuts_def)
  show "espos_sdlog_seq (lg_session (foldl log_step blank_logger opened_once)) = 1" by (rule number_first(2))
  have 1: "log_step ?l1 (Log_Boot (\<lambda>_ _. 0) [] cut_rename) = number_card LAST_SEQ_FILE (''1'' @ [CHR 0x0A]) cut_rename True"
    by (rule number_boot [OF number_first(1) number_names(1)])
  have 2: "log_step (number_card LAST_SEQ_TMP (''2'' @ [CHR 0x0A]) [] False) (Log_Boot (\<lambda>_ _. 0) [] cut_write) = number_card LAST_SEQ_TMP (''2'' @ [CHR 0x0A]) cut_write True"
    and 3: "log_step (number_card LAST_SEQ_TMP [] [] False) (Log_Boot (\<lambda>_ _. 0) [] []) = number_card LAST_SEQ_TMP [] [] True"
    by (rule number_boot [OF refl number_names(2)])+
  show "espos_sdlog_seq (lg_session (foldl log_step blank_logger (opened_once @ two_cuts))) = 1"
    unfolding two_cuts_def foldl_append foldl.simps 1 number_cut_rename 2 number_cut_write 3 by (rule number_again)
qed

subsection \<open>A closed session deleted\<close>

text \<open>The card is read well until the two questions whether the session has a close record and a header.\<close>

definition two_bad_stats :: "outcome list" where
  "two_bad_stats = [Io_Ok, Io_Ok, Io_Ok, Io_Ok, Io_Fail 0, Io_Fail 0]"

text \<open>
  A recovery can delete a closed session. Of a session that was closed well the card cannot say, at the next boot, whether it has a close record and whether it has a header: two calls fail. The recovery
  removes the session, rows and close record included, and reports success.
\<close>

theorem sdlog_recovery_deletes_on_stat_error:
  "file_at (In_Dir (seq_name 1)) CLOSE_FILE (power_up (\<lambda>_ _. 0) two_bad_stats (lg_card (foldl log_step blank_logger closed_run))) \<noteq> None \<and>
   (case espos_sdlog_recover (power_up (\<lambda>_ _. 0) two_bad_stats (lg_card (foldl log_step blank_logger closed_run))) of
      (err, n, m, c) \<Rightarrow> err = ESP_OK \<and> n = 0 \<and> m = 1 \<and> files_at (In_Dir (seq_name 1)) c = None)"
  unfolding closed_run_card
  by (simp add: two_bad_stats_def power_up_def settle_def card_eval espos_sdlog_recover_def scan_def recover_session_def espos_sdlog_remove_def
      first_names number_names)

end
