(* ===== verification/Sdlog_Loss.thy ===== *)
theory Sdlog_Loss
  imports Sdlog_Limits
begin

text \<open>
  What a power cut takes from the open session: no more rows than lie between two syncs.
\<close>

lemma fwrite_dur:
  assumes "fwrite pl nm b c = (ok, c')" and "file_at pl nm c' = Some f'"
  shows "\<exists>f. file_at pl nm c = Some f \<and> fd_dur f' = fd_dur f \<and> (ok \<longrightarrow> content f' = content f @ b)"
proof -
  obtain r c1 where t: "tick c = (r, c1)" by fastforce
  have c1: "file_at pl nm c1 = file_at pl nm c" by (rule file_at_tick [OF t])
  have add: "\<exists>f. file_at pl nm c = Some f \<and> f' = f\<lparr>fd_vol := fd_vol f @ p\<rparr>" if "add_bytes pl nm p c1 = Some c'" for p
    using that assms(2) c1 by (auto simp: add_bytes_def split: option.splits dest: file_at_put [where pl' = pl and nm' = nm])
  have same: "\<exists>f. file_at pl nm c = Some f \<and> fd_dur f' = fd_dur f" if "c' = c1" using that assms(2) c1 by simp
  show ?thesis using assms(1) t add same by (cases r) (fastforce simp: fwrite_def content_def split: option.splits)+
qed

text \<open>
  All rows of the session but the unsynced ones are on the card, and as long as no write failed the file has all of them. There are never more
  unsynced rows than the interval, and as many only after a sync that failed.
\<close>

definition rows_counted :: "sdlog_session \<Rightarrow> card \<Rightarrow> bool" where
  "rows_counted s c \<longleftrightarrow>
     (\<forall>r. file_at (session_dir s) ROWS_FILE c = Some r \<longrightarrow>
        ss_rows s \<le> count_rows (fd_dur r) + ss_unsynced s \<and> (\<not> ss_failed s \<longrightarrow> ss_rows s = count_rows (content r)))"

definition loss_bound :: "sdlog_session \<Rightarrow> card \<Rightarrow> bool" where
  "loss_bound s c \<longleftrightarrow>
     ss_unsynced s \<le> ss_sync_every s \<and> (\<not> ss_failed s \<longrightarrow> ss_unsynced s < ss_sync_every s) \<and> rows_counted s c"

lemma loss_bound_shrinks: "shrinks c c' \<Longrightarrow> loss_bound s c \<Longrightarrow> loss_bound s c'"
  unfolding loss_bound_def rows_counted_def shrinks_def by (metis insertCI option.distinct(1))

text \<open>A session whose last write failed, over a card that has no fewer bytes of its rows.\<close>

lemma loss_bound_fails:
  assumes "rows_counted s c" and "ss_unsynced s \<le> ss_sync_every s"
    and "\<And>r'. file_at (session_dir s) ROWS_FILE c' = Some r' \<Longrightarrow> \<exists>r. file_at (session_dir s) ROWS_FILE c = Some r \<and> fd_dur r' = fd_dur r"
  shows "loss_bound (s\<lparr>ss_failed := True\<rparr>) c'"
proof -
  have "ss_rows s \<le> count_rows (fd_dur r') + ss_unsynced s" if r': "file_at (session_dir s) ROWS_FILE c' = Some r'" for r'
    using assms(3) [OF r'] assms(1) by (auto simp: rows_counted_def)
  then show ?thesis using assms(2) by (simp add: loss_bound_def rows_counted_def)
qed

lemma sync_loss:
  assumes "espos_sdlog_sync s c = (err, s', c')" and "rows_counted s c" and "ss_unsynced s \<le> ss_sync_every s" and "0 < ss_sync_every s"
  shows "loss_bound s' c'"
proof (cases "ss_failed s")
  case True
  then show ?thesis using assms by (auto simp: espos_sdlog_sync_def loss_bound_def)
next
  case False
  obtain k c1 where y: "sync_file (session_dir s) ROWS_FILE c = (k, c1)" by fastforce
  note from_c = sync_file_cases [OF y, unfolded synced_from_def]
  show ?thesis
  proof (cases k)
    case True
    then have "s' = s\<lparr>ss_unsynced := 0\<rparr>" "c' = c1" using assms(1) False y by (simp_all add: espos_sdlog_sync_def)
    moreover have "rows_counted (s\<lparr>ss_unsynced := 0\<rparr>) c1"
      using from_c True assms(2) False by (auto simp: rows_counted_def synced_file_def content_def)
    ultimately show ?thesis using assms(4) by (simp add: loss_bound_def)
  next
    case k: False
    then have "s' = s\<lparr>ss_failed := True\<rparr>" "c' = c1" using assms(1) False y by (simp_all add: espos_sdlog_sync_def)
    moreover have "loss_bound (s\<lparr>ss_failed := True\<rparr>) c1"
      by (rule loss_bound_fails [OF assms(2,3)]) (use from_c k in \<open>cases "file_at (session_dir s) ROWS_FILE c"; auto\<close>)
    ultimately show ?thesis by simp
  qed
qed

lemma append_loss:
  assumes "espos_sdlog_append s row c = (err, s', c')" and "loss_bound s c"
  shows "loss_bound s' c'"
proof (cases "row = None \<or> CHR 0x0D \<in> set (the row) \<or> CHR 0x0A \<in> set (the row) \<or> ss_failed s")
  case True
  then show ?thesis using assms by (auto simp: espos_sdlog_append_def split: if_splits option.splits)
next
  case False
  then obtain w where w: "row = Some w" "CHR 0x0A \<notin> set w" by (cases row) auto
  define tail where "tail = row_tail (ss_row_crc s) w"
  let ?d = "session_dir s" and ?s = "after_row s w"
  obtain k1 c1 where f1: "fwrite ?d ROWS_FILE (bytes_of w) c = (k1, c1)" by fastforce
  obtain k2 c2 where f2: "fwrite ?d ROWS_FILE (bytes_of tail) c1 = (k2, c2)" by fastforce
  have old: "rows_counted s c" "ss_unsynced s < ss_sync_every s" using assms(2) False by (auto simp: loss_bound_def)
  note d1 = fwrite_dur [OF f1] and d2 = fwrite_dur [OF f2]
  consider "\<not> k1" | "k1" "\<not> k2" | "k1" "k2" by blast
  then show ?thesis
  proof cases
    case 1
    then have "s' = s\<lparr>ss_failed := True\<rparr>" "c' = c1" using assms(1) False w f1 by (simp_all add: espos_sdlog_append_def Let_def)
    then show ?thesis using loss_bound_fails [OF old(1), of c1] old(2) d1 by auto
  next
    case 2
    then have "s' = s\<lparr>ss_failed := True\<rparr>" "c' = c2" using assms(1) False w f1 f2 by (simp_all add: espos_sdlog_append_def Let_def tail_def)
    moreover have "\<exists>r. file_at ?d ROWS_FILE c = Some r \<and> fd_dur r' = fd_dur r" if "file_at ?d ROWS_FILE c2 = Some r'" for r'
      using d1 d2 [OF that] by auto
    ultimately show ?thesis using loss_bound_fails [OF old(1), of c2] old(2) by simp
  next
    case 3
    have counted: "rows_counted ?s c2"
      unfolding rows_counted_def
    proof (intro allI impI)
      fix r2
      assume "file_at (session_dir ?s) ROWS_FILE c2 = Some r2"
      then have "file_at ?d ROWS_FILE c2 = Some r2" by (simp add: after_row_def Let_def)
      then obtain r1 r where "content r2 = content r1 @ bytes_of tail" "fd_dur r2 = fd_dur r1" "content r1 = content r @ bytes_of w" "fd_dur r1 = fd_dur r"
          "file_at ?d ROWS_FILE c = Some r" using d1 d2 3 by fastforce
      then show "ss_rows ?s \<le> count_rows (fd_dur r2) + ss_unsynced ?s \<and> (\<not> ss_failed ?s \<longrightarrow> ss_rows ?s = count_rows (content r2))"
        using old(1) False count_rows_zero [OF w(2)] count_rows_tail [of "ss_row_crc s" w] by (auto simp: rows_counted_def after_row_def Let_def tail_def)
    qed
    show ?thesis
    proof (cases "ss_unsynced ?s \<ge> ss_sync_every ?s")
      case True
      then have y: "espos_sdlog_sync ?s c2 = (err, s', c')" using assms(1) False w f1 f2 3 by (simp add: espos_sdlog_append_def after_row_def Let_def tail_def)
      show ?thesis by (rule sync_loss [OF y counted]) (use old(2) in \<open>simp_all add: after_row_def Let_def\<close>)
    next
      case small: False
      then have "s' = ?s" "c' = c2" using assms(1) False w f1 f2 3 by (simp_all add: espos_sdlog_append_def after_row_def Let_def tail_def)
      then show ?thesis using small counted by (simp add: loss_bound_def)
    qed
  qed
qed

lemma open_loss:
  assumes "espos_sdlog_open n header cfg c = (err, Some s, c')"
  shows "loss_bound s c'"
proof -
  have o: "loss_bound s x'" if "open_session q every crc h x = (e, Some s, x')" "0 < every" for q every crc h x e x'
    using that fopen_w_effect [of "In_Dir (seq_name q)" ROWS_FILE]
    by (auto simp: open_session_def loss_bound_def rows_counted_def split: prod.splits if_splits)
  have "\<exists>q every crc h x. open_session q every crc h x = (err, Some s, c') \<and> 0 < every"
    using assms by (fastforce simp: espos_sdlog_open_def Let_def split: prod.splits if_splits option.splits)
  then show ?thesis using o by blast
qed

definition bounded_loss :: "logger \<Rightarrow> bool" where
  "bounded_loss l \<longleftrightarrow> (\<forall>s. lg_session l = Some s \<longrightarrow> loss_bound s (lg_card l))"

lemma log_step_loss:
  assumes inv: "bounded_loss l"
  shows "bounded_loss (log_step l e)"
  unfolding bounded_loss_def
proof (intro allI impI)
  fix s
  assume s: "lg_session (log_step l e) = Some s"
  note inv = inv [unfolded bounded_loss_def]
  show "loss_bound s (lg_card (log_step l e))"
  proof (cases e)
    case (Log_Open n header cfg)
    then show ?thesis using s inv open_loss [of n header cfg "lg_card l"] by (auto split: prod.splits if_splits)
  next
    case (Log_Append row)
    then show ?thesis using s inv append_loss [of _ row "lg_card l"] by (auto split: prod.splits option.splits)
  next
    case Log_Sync
    have "loss_bound s' c'" if y: "espos_sdlog_sync s0 (lg_card l) = (err, s', c')" and "lg_session l = Some s0" for s0 s' c' err
    proof -
      have b: "loss_bound s0 (lg_card l)" using that(2) inv by blast
      show ?thesis
      proof (cases "ss_failed s0")
        case True
        then show ?thesis using y b by (auto simp: espos_sdlog_sync_def)
      next
        case False
        then show ?thesis using sync_loss [OF y] b by (auto simp: loss_bound_def)
      qed
    qed
    then show ?thesis using s Log_Sync by (auto split: prod.splits option.splits)
  next
    case (Log_Info q)
    then show ?thesis using s inv sh.info [of q "lg_card l"] loss_bound_shrinks by (auto split: prod.splits)
  next
    case (Log_List fn)
    then show ?thesis using s inv sh.list [of fn "lg_card l"] loss_bound_shrinks by (auto split: prod.splits)
  next
    case (Log_Mark_Synced q nt)
    then show ?thesis using s inv sh.mark_synced [of q nt "lg_card l"] loss_bound_shrinks by (auto split: prod.splits)
  next
    case (Log_Remove q)
    then show ?thesis using s inv sh.remove [of q "lg_card l"] loss_bound_shrinks by (auto split: prod.splits)
  next
    case (Log_Prune keep)
    then show ?thesis using s inv sh.prune [of keep "lg_card l"] loss_bound_shrinks by (auto split: prod.splits)
  qed (use s in \<open>auto split: prod.splits option.splits\<close>)
qed

interpretation ll: event_machine log_step bounded_loss
  by unfold_locales (rule log_step_loss)

lemma blank_loss: "bounded_loss blank_logger"
  by (simp add: bounded_loss_def blank_logger_def)

text \<open>
  C22. A power cut loses at most the rows between two syncs. In every run of a logger from a blank card, in which any call may fail or lose the power at any step, take
  the open session and let the power be cut, now or at the call where the session failed: when it comes back, however little of the unsynced bytes is still there,
  at most \<open>sync_every\<close> of the rows that were counted are missing from the complete rows of its file, and fewer than that when no write or
  sync of the session failed.
\<close>

theorem sdlog_power_cut_loses_at_most_interval:
  assumes "lg_session (foldl log_step blank_logger es) = Some s"
    and "file_at (session_dir s) ROWS_FILE (power_up kept script (lg_card (foldl log_step blank_logger es))) = Some r"
  shows "espos_sdlog_rows (Some s) \<le> count_rows (complete_rows (fd_dur r)) + ss_sync_every s \<and>
         (\<not> ss_failed s \<longrightarrow> espos_sdlog_rows (Some s) < count_rows (complete_rows (fd_dur r)) + ss_sync_every s)"
proof -
  have b: "loss_bound s (lg_card (foldl log_step blank_logger es))"
    using ll.run_inv [OF blank_loss, of es] assms(1) by (simp add: bounded_loss_def)
  obtain r0 where r0: "file_at (session_dir s) ROWS_FILE (lg_card (foldl log_step blank_logger es)) = Some r0"
      "r = settle (kept (seq_name (ss_seq s)) ROWS_FILE) r0"
    using assms(2) by (auto simp: file_at_power_up)
  have "count_rows (fd_dur r0) \<le> count_rows (fd_dur r)" using r0(2) by (simp add: settle_def synced_file_def)
  then show ?thesis using b r0(1) by (auto simp: loss_bound_def rows_counted_def espos_sdlog_rows_def count_complete_rows)
qed

theorem sdlog_power_cut_loses_at_most_interval_witness:
  "\<exists>s r. lg_session (foldl log_step blank_logger short_run) = Some s \<and> espos_sdlog_rows (Some s) = 2 \<and>
     file_at (session_dir s) ROWS_FILE (power_up (\<lambda>_ _. 1) [] (lg_card (foldl log_step blank_logger short_run))) = Some r \<and>
     2 < count_rows (complete_rows (fd_dur r)) + 10"
proof -
  let ?l = "foldl log_step blank_logger short_run"
  have s: "\<exists>s. lg_session ?l = Some s \<and> ss_rows s = 2 \<and> \<not> ss_failed s \<and> ss_seq s = 1 \<and> ss_sync_every s = 10"
    by (simp add: short_run_def card_eval log_eval first_names)
  then obtain s where s: "lg_session ?l = Some s" "ss_rows s = 2" "\<not> ss_failed s" "ss_seq s = 1" "ss_sync_every s = 10" by blast
  have "\<exists>r. file_at (session_dir s) ROWS_FILE (power_up (\<lambda>_ _. 1) [] (lg_card ?l)) = Some r"
    unfolding short_run_card by (simp add: s(4) first_names power_up_def file_at_def)
  then obtain r where r: "file_at (session_dir s) ROWS_FILE (power_up (\<lambda>_ _. 1) [] (lg_card ?l)) = Some r" by blast
  from sdlog_power_cut_loses_at_most_interval [OF s(1) r] s r show ?thesis by (auto simp: espos_sdlog_rows_def)
qed

end
