(* ===== verification/Spec2Isabelle.thy ===== *)
theory Spec2Isabelle
  imports Power_Policy Net_Sm Wifi_Sm Token_Sm Auth_Policy Health_Watchdog Sk_Server Sched B64 Time_Policy Sk_Delta Cfg_Promises Sk_Tls Sdlog_Fips Sdlog_Loss
begin

text \<open>
  A verification development for espOS, the firmware of an ESP32 device on a boat that speaks
  SignalK. The firmware is a set of components under src/components: the WiFi machine brings a
  network up, the net machine picks the interface that carries the default route, the SignalK
  task chooses a server, obtains an access token from it and streams batched deltas to it, the
  configuration store keeps the settings of all of them, the HTTP server guards its endpoints
  with an authentication policy, and the health table collects alarms that a watchdog turns into
  a restart; a trust store pins the server's certificate, and a session log keeps rows on a card
  through power cuts. The sources keep decisions apart from I/O: a state machine or a policy is plain C
  over a table of port functions, and the task around it only carries events. The development
  models these machines and policies statement by statement, and the tasks as far as they decide.

  \<^bold>\<open>How the code is rendered.\<close> A struct is a \<open>record\<close>, an enum a \<open>datatype\<close>, an unsigned integer
  whose wrap-around is visible a word of its width, a \<open>size_t\<close> or an \<open>int64_t\<close> that cannot reach
  its bound a natural or an integer. A table of port functions is a record of functions on a
  context of any type, so a theorem holds for every platform; an argument that may be NULL is an
  option; what a lock or an allocation returns is a list of the next outcomes, success when it is
  exhausted. An operation returns its \<open>esp_err_t\<close> with the new state. Every operation keeps the name it has
  in the source, private helpers included.

  \<^bold>\<open>Theories and sources.\<close>
  \<^item> \<open>Espos_Prelude\<close>: integer widths, error codes, bounded copies, the wrapping millisecond clock
    and its signed comparison, lemmas on lists and words. Everything below imports it.
  \<^item> \<open>Power_Policy\<close>, espos_power/src/power_policy.c: when a duty-cycling device may sleep.
  \<^item> \<open>Net_Sm\<close>, espos_net/src/net_sm.c and the reporting part of espos_net.c: the route machine, the
    backoff curve that WiFi and SignalK share, the up and down events.
  \<^item> \<open>Wifi_Sm\<close>, espos_wifi/src/wifi_sm.c: station, networks and setup portal.
  \<^item> \<open>Token_Sm\<close>, espos_sk/src/token_sm.c: request, approval, verification and loss of the access token.
  \<^item> \<open>Sk_Select\<close>, espos_sk/src/sk_select.c, and \<open>Sk_Server\<close>, the choice of the server in espos_sk.c:
    discovery, anchor, election, and the events to the token machine.
  \<^item> \<open>Sk_Delta\<close>, espos_sk/src/sk_delta.c: the window of pending values, the messages it closes into
    and the ring they wait in.
  \<^item> \<open>Sk_Tls_Policy\<close>, espos_sk/src/sk_tls_policy.c, and \<open>Sk_Tls\<close>, sk_tls.c: the decision table and the
    normal form of a certificate's names; the anchor, its storage, the verify callback and the bracket a connection
    puts around a handshake. The parser of certificates, the key-value store and the clock are fields of the environment
    \<open>tls_env\<close>; the chain verification of mbedTLS and its public roots are the parameter \<open>mbedtls\<close>, with the order in
    which it calls the callback as the hypothesis \<open>walks_chains\<close>.
  \<^item> \<open>Auth_Policy\<close>, espos_httpd/src/auth_policy.c: API key, sessions, throttle, recovery, same origin.
  \<^item> \<open>Health_Table\<close>, \<open>Health_Policy\<close>, \<open>Health_Watchdog\<close>, the three C files of espos_health: the
    condition table with its sinks and drills, the strike counting, and the instance that wires the
    second to the first. The locale \<open>condition_table\<close> is the interface between them.
  \<^item> \<open>Sched\<close>, espos_flow/src/espos_sched.c: the timer table of the flow loop.
  \<^item> \<open>B64\<close>, espos_config/src/b64.c, and \<open>Time_Policy\<close>, espos_time/src/time_policy.c: base64, ISO 8601,
    the civil calendar and the ranking of the time sources.
  \<^item> \<open>Cfg_Desc\<close>, \<open>Cfg_Backend\<close>, \<open>Cfg_Store\<close>, espos_config/src/espos_config.c and backend_mem.c:
    descriptors and validation, the storage interface as the locale \<open>config_backend\<close> with the
    in-memory backend as its interpretation \<open>mem\<close>, and the store. \<open>Cfg_Invariant\<close> and
    \<open>Cfg_Promises\<close> hold what is proved of the store, over the locale and over the backend.
  \<^item> \<open>Sdlog_Hash\<close>, espos_sdlog/src/sdlog_sha256.c; \<open>Sdlog_Fips\<close> states SHA-256 as FIPS 180-4 does, on bits and without a
    definition of the model, and shows that the code computes it.
  \<^item> \<open>Sdlog_Session\<close>, sdlog_session.c, on the card of \<open>Sdlog_Card\<close>:
    every call of stdio or POSIX works, fails or meets a power cut as a script says; \<open>fsync\<close> stores what \<open>fflush\<close> has handed
    over, and what was not synced may be lost. \<open>Sdlog_Crash\<close> has the locale \<open>card_rel\<close>, by which what every step keeps every operation keeps, and its
    first interpretations; \<open>Sdlog_Record\<close> reads close records back; \<open>Sdlog_Recovery\<close>, \<open>Sdlog_Boot\<close>, \<open>Sdlog_Limits\<close>
    and \<open>Sdlog_Loss\<close> hold what is proved of a logger through its boots.

  \<^bold>\<open>What is shown.\<close>
  \<^item> WiFi: the access point is up only when the settings allow it, beside another network in use only when they ask for that; in
    every reachable state that waits for something a timer is armed; a driver that refuses to start leads to backoff and not to
    an endless recursion.
  \<^item> Network: the route is the preferred interface with an address, and up and down events alternate.
  \<^item> Token: the machine is never stuck; an event issues at most one HTTP action, and none but an answer issues one while the machine
    waits for an answer, which a stop or a certificate error can give up; the status mirrors the store; a token is
    dropped by a refusal over TLS, or by one over plaintext that is not the first of the run, or at boot when it is too long.
  \<^item> Server choice: without a manual host a paired server wins, a silent one is replaced only after two rounds, and
    the order of the discovery answers does not matter.
  \<^item> Deltas: in the text of a message the newest value of a path is its last, a flush keeps the order and exactly the newest messages
    that fit, a message fits its buffer, the timestamps are those of the clock component.
  \<^item> Authentication: a request is let in exactly with a credential, a key change ends the sessions and touches nothing else,
    five misses lock, a session is found until it expires, and the same-origin test is the equality of host and port.
  \<^item> Health: no drill is left behind as long as the call that ends one by hand gets its locks, a restart happens exactly after
    the configured strikes, a task that kicks is alive across the wrap of the clock.
  \<^item> Scheduler: a sweep ends whatever the callbacks do and runs each timer that was due at its start at most once and no other,
    and the next deadline is exact.
  \<^item> Configuration, over the in-memory backend: a write is read back and disturbs nothing else, a read passes validation or is the declared default,
    handles stay open exactly while the store is up, subscribers hear of exactly the changes of what is read, a factory
    reset restores the defaults, and migrations whose steps leave the stamp alone resume where they stopped.
  \<^item> Trust store: a pinned identity stays pinned, and outside the mode \<open>bundle\<close> a connection goes through exactly when the
    chain shows it; name sets compare as sets of hosts; an anchor is loaded as it was stored. Three ways in which it fails are
    theorems too: outside \<open>bundle\<close> an operator's CA refuses every server, a handshake that was not begun uses the CA of the one
    before, and a store that cannot be opened trusts anyone.
  \<^item> Session log: through failing calls and power cuts a recovery on a working card closes every session with exactly its complete
    rows and a record of them, and a power cut loses at most the rows between two syncs. When no call of a recovery fails (it may be cut short),
    a close record never misdescribes the rows beside it. Pruning spares what was not delivered; the hash is SHA-256. A number can be
    handed out twice, and a recovery can delete a closed session when two of its calls fail.
  \<^item> Codecs: base64 and ISO 8601 round trips.

  \<^bold>\<open>Fuel and bounds.\<close> The sweep of the scheduler is an endless loop in the source; its model has as
  much fuel as the table has slots and \<open>Sched\<close> shows that a sweep never uses it up. The retry
  recursion of the WiFi machine has the driver's outcomes as a bound that \<open>Wifi_Sm\<close> discharges. The two
  loops of the hash have as fuel the bytes they are given and a block; that it is enough is part of the theorem that the digest is
  that of FIPS 180-4. Every other loop is structural recursion or a \<open>function\<close> with a termination proof.

  \<^bold>\<open>Not modelled.\<close> Code that is mostly calls into ESP-IDF, NimBLE, mbedTLS, cJSON or the file system
  (drivers, sockets, the HTTP handlers, the BLE gateway, OTA), C++ (flow templates, voice,
  NMEA 2000, USB storage) and locking between tasks: an operation is one step. Formatting of floating-point
  numbers is left out. Each omission is listed with its component.
\<close>

end
